(* ===== verification/Prelude.thy ===== *)
theory Prelude
  imports Main "HOL-Library.Word"
begin

text \<open>
  Shared vocabulary of the development: the machine types of the C sources (LLP64: an \<open>int\<close> and
  a \<open>long\<close> are 32 bits, a \<open>long long\<close> is 64 bits), byte blocks and how code reads and writes them,
  the big-endian image of a word (what \<open>htonl\<close> leaves in memory), and the padding of XDR.
\<close>

unbundle bit_operations_syntax

named_theorems block_simps \<open>lengths and contents of byte blocks after loads and stores\<close>

section \<open>Machine types\<close>

type_synonym byte = "8 word"
type_synonym u16 = "16 word"
type_synonym u32 = "32 word"
type_synonym u64 = "64 word"

text \<open>Truncating an address to a 32-bit \<open>long\<close> commutes with adding and subtracting.\<close>

lemma ucast_u64_add: "(ucast (a + b :: u64) :: u32) = ucast a + ucast b"
  by (simp add: word_uint_eq_iff unsigned_ucast_eq uint_word_ariths take_bit_eq_mod mod_mod_cancel
      mod_add_eq)

lemma ucast_u64_diff: "(ucast (a - b :: u64) :: u32) = ucast a - ucast b"
  by (simp add: word_uint_eq_iff unsigned_ucast_eq uint_word_ariths take_bit_eq_mod mod_mod_cancel
      mod_diff_eq)

lemma ucast_u64_of_nat: "(ucast (of_nat n :: u64) :: u32) = of_nat n"
  by (simp add: word_unat_eq_iff unsigned_ucast_eq unat_of_nat take_bit_eq_mod mod_mod_cancel)

lemma ucast_u32_via_u64 [simp]: "(ucast (ucast (w :: u32) :: u64) :: u32) = w"
  by (rule ucast_up_ucast_id) (simp add: is_up)

section \<open>Byte blocks\<close>

text \<open>
  A C buffer is the list of its bytes. \<open>load p n m\<close> reads \<open>n\<close> bytes at offset \<open>p\<close> and
  \<open>store p bs m\<close> is \<open>memmove(m + p, bs, length bs)\<close>.
\<close>

definition load :: "nat \<Rightarrow> nat \<Rightarrow> 'a list \<Rightarrow> 'a list" where
  "load p n m = take n (drop p m)"

definition store :: "nat \<Rightarrow> 'a list \<Rightarrow> 'a list \<Rightarrow> 'a list" where
  "store p bs m = take p m @ bs @ drop (p + length bs) m"

lemma load_0 [simp]: "load p 0 m = []"
  by (simp add: load_def)

lemma store_Nil [simp]: "store p [] m = m"
  by (simp add: store_def)

lemma length_load [block_simps]: "p + n \<le> length m \<Longrightarrow> length (load p n m) = n"
  by (simp add: load_def)

lemma length_store [block_simps]: "p + length bs \<le> length m \<Longrightarrow> length (store p bs m) = length m"
  by (simp add: store_def)

lemma load_store_same [block_simps]: "p \<le> length m \<Longrightarrow> load p (length bs) (store p bs m) = bs"
  by (simp add: load_def store_def)

lemma load_store_prefix:
  "p \<le> length m \<Longrightarrow> n \<le> length bs \<Longrightarrow> load p n (store p bs m) = take n bs"
  by (simp add: load_def store_def)

lemma load_append:
  "load p (a + b) m = load p a m @ load (p + a) b m"
  by (simp add: load_def take_add add.commute)

lemma store_append:
  "p + length xs \<le> length m \<Longrightarrow> store p (xs @ ys) m = store (p + length xs) ys (store p xs m)"
  by (simp add: store_def ac_simps)

lemma take_store: "n \<le> p \<Longrightarrow> p \<le> length m \<Longrightarrow> take n (store p bs m) = take n m"
  by (simp add: store_def min_def)

lemma load_store_before:
  "q + n \<le> p \<Longrightarrow> p \<le> length m \<Longrightarrow> load q n (store p bs m) = load q n m"
  by (simp add: load_def store_def min_def drop_take [symmetric] take_drop)

lemma load_take_eq: "load p n m = bs \<Longrightarrow> k \<le> n \<Longrightarrow> load p k m = take k bs"
  by (auto simp: load_def min_def)

lemma load_shift: "load p n m = bs \<Longrightarrow> k \<le> n \<Longrightarrow> load (p + k) (n - k) m = drop k bs"
  by (auto simp: load_def drop_take add.commute)

text \<open>A block of \<open>n\<close> bytes that begins with \<open>pre\<close>: what a routine that fills it from the left knows.\<close>

definition begins :: "'a list \<Rightarrow> nat \<Rightarrow> 'a list \<Rightarrow> bool" where
  "begins pre n blk \<longleftrightarrow> length blk = n \<and> take (length pre) blk = pre"

lemma begins_Nil: "length blk = n \<Longrightarrow> begins [] n blk"
  by (simp add: begins_def)

lemma begins_store:
  "begins pre n blk \<Longrightarrow> length pre = k \<Longrightarrow> k + length bs \<le> n \<Longrightarrow> begins (pre @ bs) n (store k bs blk)"
  by (auto simp: begins_def store_def)

lemma begins_gap:
  assumes "begins pre n blk" and "length pre + g \<le> n"
  obtains pad where "length pad = g" and "begins (pre @ pad) n blk"
proof (rule that [of "load (length pre) g blk"])
  show "length (load (length pre) g blk) = g"
    using assms by (simp add: begins_def block_simps)
  with assms show "begins (pre @ load (length pre) g blk) n blk"
    by (simp add: begins_def load_def take_add)
qed

lemma begins_all: "begins pre n blk \<Longrightarrow> length pre = n \<Longrightarrow> blk = pre"
  by (auto simp: begins_def)

section \<open>Network byte order\<close>

text \<open>The four bytes \<open>htonl(w)\<close> has in memory, and the value \<open>ntohl\<close> reads back from them.\<close>

definition be32 :: "u32 \<Rightarrow> byte list" where
  "be32 w = [ucast (drop_bit 24 w), ucast (drop_bit 16 w), ucast (drop_bit 8 w), ucast w]"

definition of_be32 :: "byte list \<Rightarrow> u32" where
  "of_be32 bs = foldl (\<lambda>acc b. push_bit 8 acc OR ucast b) 0 bs"

lemma length_be32 [simp]: "length (be32 w) = 4"
  by (simp add: be32_def)

lemma of_be32_be32 [simp]: "of_be32 (be32 w) = w"
proof -
  have "of_be32 (be32 w) =
      push_bit 8 (push_bit 8 (push_bit 8 (ucast (ucast (drop_bit 24 w) :: byte))
        OR ucast (ucast (drop_bit 16 w) :: byte)) OR ucast (ucast (drop_bit 8 w) :: byte))
        OR ucast (ucast w :: byte)"
    by (simp add: of_be32_def be32_def)
  also have "\<dots> = w"
  proof (rule bit_word_eqI)
    fix n
    assume "n < LENGTH(32)"
    moreover have "n < 8 \<or> 8 \<le> n \<and> n < 16 \<or> 16 \<le> n \<and> n < 24 \<or> 24 \<le> n"
      by linarith
    ultimately consider "n < 8" | "8 \<le> n" "n < 16" | "16 \<le> n" "n < 24" | "24 \<le> n" "n < 32"
      by auto
    then show "bit (push_bit 8 (push_bit 8 (push_bit 8 (ucast (ucast (drop_bit 24 w) :: byte))
        OR ucast (ucast (drop_bit 16 w) :: byte)) OR ucast (ucast (drop_bit 8 w) :: byte))
        OR ucast (ucast w :: byte) :: u32) n = bit w n"
      by cases
        (auto simp: bit_or_iff bit_push_bit_iff bit_drop_bit_eq bit_ucast_iff)
  qed
  finally show ?thesis .
qed

lemma be32_inject [simp]: "be32 v = be32 w \<longleftrightarrow> v = w"
  by (metis of_be32_be32)

section \<open>XDR padding\<close>

text \<open>\<open>RNDUP\<close> of \<open>xdr.h\<close>, on the 32-bit unsigned integers it is used with.\<close>

definition rndup :: "u32 \<Rightarrow> u32" where
  "rndup x = ((x + 3) div 4) * 4"

text \<open>The number of zero bytes that follow \<open>n\<close> bytes of opaque data.\<close>

definition xdr_pad :: "nat \<Rightarrow> nat" where
  "xdr_pad n = (4 - n mod 4) mod 4"

definition zeros :: "nat \<Rightarrow> byte list" where
  "zeros n = replicate n 0"

lemma length_zeros [simp]: "length (zeros n) = n"
  by (simp add: zeros_def)

lemma zeros_0 [simp]: "zeros 0 = []"
  by (simp add: zeros_def)

lemma xdr_pad_less: "xdr_pad n < 4"
  by (simp add: xdr_pad_def)

lemma mod4_cases: "n mod 4 = 0 \<or> n mod 4 = 1 \<or> n mod 4 = 2 \<or> n mod 4 = (3::nat)"
  by linarith

lemma xdr_pad_aligned: "(n + xdr_pad n) mod 4 = 0"
  using mod4_cases [of n] by (auto simp: xdr_pad_def mod_add_left_eq [symmetric, of n])

lemma rndup_nat: "(n + 3) div 4 * 4 = n + xdr_pad n"
proof -
  obtain q r where n: "n = 4 * q + r" "r < 4"
    by (metis mod_less_divisor mult_div_mod_eq zero_less_numeral)
  then have "r = 0 \<or> r = 1 \<or> r = 2 \<or> r = 3"
    by linarith
  then show ?thesis
    using n(1) by (auto simp: xdr_pad_def)
qed

lemma unat_rndup:
  assumes "unat x \<le> 2 ^ 31"
  shows "unat (rndup x) = unat x + xdr_pad (unat x)"
proof -
  have a: "unat (x + 3) = unat x + 3"
    using assms by (subst unat_add_lem [THEN iffD1]) auto
  have d: "unat ((x + 3) div 4) = (unat x + 3) div 4"
    by (simp add: unat_div a)
  have "(unat x + 3) div 4 * 4 \<le> unat x + 3"
    by simp
  then have "(unat x + 3) div 4 * 4 < 2 ^ 32"
    using assms by simp
  then have "unat (rndup x) = (unat x + 3) div 4 * 4"
    unfolding rndup_def by (subst unat_mult_lem [THEN iffD1]) (simp_all add: d)
  also have "\<dots> = unat x + xdr_pad (unat x)"
    by (rule rndup_nat)
  finally show ?thesis .
qed

end
