(* ===== verification/Xdr_Handle.thy ===== *)
theory Xdr_Handle
  imports Prelude
begin

text \<open>
  The XDR handle of \<open>include/rpc/xdr.h\<close>: the operation, the vector of stream operations, the
  stream's private state and the heap the filters allocate from; the shape of a filter
  (\<open>xdrproc_t\<close>) and the two ways the C code composes filters (one field after the other with an
  early return, and a filter on one field of a structure). The interfaces are locales:
  \<open>xdr_sink\<close> says what a stream promises to the encoding filters, \<open>xdr_source\<close> what it promises
  to the decoding ones, and the predicates \<open>encodes\<close>, \<open>decodes\<close> and \<open>frees\<close> say what a filter
  does on every such stream. Every stream of the library is an interpretation of the locales and
  every filter has its lemmas inside them, once.
\<close>

named_theorems codec \<open>what the filters encode, decode and free\<close>

section \<open>The handle\<close>

datatype xdr_op = XDR_ENCODE | XDR_DECODE | XDR_FREE

text \<open>
  The operations vector. A \<open>bool_t\<close> result with an out parameter is an \<open>option\<close> (\<open>None\<close> is
  \<open>FALSE\<close>, the out parameter is then not written). The pointer \<open>x_inline\<close> returns is an offset
  into the stream's buffer: \<open>x_load\<close> and \<open>x_store\<close> are the memory accesses the \<open>IXDR_*\<close> macros
  make through it. The handle's operation, which some streams consult, is passed along. When a
  call fails the C code may have written part of an out parameter; the model leaves it as it was,
  and no theorem is about its contents then.
\<close>

record 's xdr_ops =
  x_getlong :: "'s \<Rightarrow> u32 option \<times> 's"
  x_putlong :: "u32 \<Rightarrow> 's \<Rightarrow> bool \<times> 's"
  x_getbytes :: "u32 \<Rightarrow> 's \<Rightarrow> byte list option \<times> 's"
  x_putbytes :: "byte list \<Rightarrow> 's \<Rightarrow> bool \<times> 's"
  x_getpostn :: "xdr_op \<Rightarrow> 's \<Rightarrow> u32"
  x_setpostn :: "xdr_op \<Rightarrow> u32 \<Rightarrow> 's \<Rightarrow> bool \<times> 's"
  x_inline :: "xdr_op \<Rightarrow> u32 \<Rightarrow> 's \<Rightarrow> nat option \<times> 's"
  x_load :: "xdr_op \<Rightarrow> nat \<Rightarrow> nat \<Rightarrow> 's \<Rightarrow> byte list"
  x_store :: "nat \<Rightarrow> byte list \<Rightarrow> 's \<Rightarrow> 's"

text \<open>
  \<open>x_mem\<close> is the heap: the number of blocks \<open>calloc\<close> can still hand out. Every budget is
  possible, so every allocation of a run can be the one that fails, and a filter that frees what
  it allocated gives its blocks back.
\<close>

record 's XDR =
  x_op :: xdr_op
  x_ops :: "'s xdr_ops"
  x_private :: 's
  x_mem :: nat

abbreviation mkXDR :: "xdr_op \<Rightarrow> 's xdr_ops \<Rightarrow> 's \<Rightarrow> nat \<Rightarrow> 's XDR" where
  "mkXDR op ops s m \<equiv> \<lparr>x_op = op, x_ops = ops, x_private = s, x_mem = m\<rparr>"

definition mem_alloc :: "'s XDR \<Rightarrow> bool \<times> 's XDR" where
  "mem_alloc x = (if x_mem x = 0 then (False, x) else (True, x\<lparr>x_mem := x_mem x - 1\<rparr>))"

definition mem_free :: "'s XDR \<Rightarrow> 's XDR" where
  "mem_free x = x\<lparr>x_mem := Suc (x_mem x)\<rparr>"

definition XDR_GETLONG :: "'s XDR \<Rightarrow> u32 option \<times> 's XDR" where
  "XDR_GETLONG x = (case x_getlong (x_ops x) (x_private x) of (r, s) \<Rightarrow> (r, x\<lparr>x_private := s\<rparr>))"

definition XDR_PUTLONG :: "'s XDR \<Rightarrow> u32 \<Rightarrow> bool \<times> 's XDR" where
  "XDR_PUTLONG x w = (case x_putlong (x_ops x) w (x_private x) of (r, s) \<Rightarrow> (r, x\<lparr>x_private := s\<rparr>))"

definition XDR_GETBYTES :: "'s XDR \<Rightarrow> u32 \<Rightarrow> byte list option \<times> 's XDR" where
  "XDR_GETBYTES x n = (case x_getbytes (x_ops x) n (x_private x) of (r, s) \<Rightarrow> (r, x\<lparr>x_private := s\<rparr>))"

definition XDR_PUTBYTES :: "'s XDR \<Rightarrow> byte list \<Rightarrow> bool \<times> 's XDR" where
  "XDR_PUTBYTES x bs = (case x_putbytes (x_ops x) bs (x_private x) of (r, s) \<Rightarrow> (r, x\<lparr>x_private := s\<rparr>))"

definition XDR_GETPOS :: "'s XDR \<Rightarrow> u32" where
  "XDR_GETPOS x = x_getpostn (x_ops x) (x_op x) (x_private x)"

definition XDR_SETPOS :: "'s XDR \<Rightarrow> u32 \<Rightarrow> bool \<times> 's XDR" where
  "XDR_SETPOS x p = (case x_setpostn (x_ops x) (x_op x) p (x_private x) of (r, s) \<Rightarrow> (r, x\<lparr>x_private := s\<rparr>))"

definition XDR_INLINE :: "'s XDR \<Rightarrow> u32 \<Rightarrow> nat option \<times> 's XDR" where
  "XDR_INLINE x n = (case x_inline (x_ops x) (x_op x) n (x_private x) of (r, s) \<Rightarrow> (r, x\<lparr>x_private := s\<rparr>))"

text \<open>Reading and writing through the pointer an \<open>XDR_INLINE\<close> returned.\<close>

definition ixdr_load :: "'s XDR \<Rightarrow> nat \<Rightarrow> nat \<Rightarrow> byte list" where
  "ixdr_load x p n = x_load (x_ops x) (x_op x) p n (x_private x)"

definition ixdr_store :: "'s XDR \<Rightarrow> nat \<Rightarrow> byte list \<Rightarrow> 's XDR" where
  "ixdr_store x p bs = x\<lparr>x_private := x_store (x_ops x) p bs (x_private x)\<rparr>"

text \<open>\<open>IXDR_GET_*\<close>: the word \<open>k\<close> units into the inline block.\<close>

definition IXDR_GET :: "byte list \<Rightarrow> nat \<Rightarrow> u32" where
  "IXDR_GET blk k = of_be32 (load (4 * k) 4 blk)"

lemma IXDR_GET_simps [simp]:
  "IXDR_GET (be32 w @ blk) 0 = w" "IXDR_GET (be32 w) 0 = w"
  "IXDR_GET (be32 w @ blk) (Suc k) = IXDR_GET blk k"
  "IXDR_GET (be32 w @ blk) (numeral n) = IXDR_GET blk (pred_numeral n)"
  by (simp_all add: IXDR_GET_def load_def numeral_eq_Suc)

lemma IXDR_GET_1 [simp]: "IXDR_GET (be32 w @ blk) 1 = IXDR_GET blk 0"
  using IXDR_GET_simps(3) [of w blk 0] by simp

lemmas xdr_access_defs = XDR_GETLONG_def XDR_PUTLONG_def XDR_GETBYTES_def XDR_PUTBYTES_def
  XDR_GETPOS_def XDR_SETPOS_def XDR_INLINE_def ixdr_load_def ixdr_store_def

section \<open>Filters\<close>

text \<open>
  An \<open>xdrproc_t\<close> takes the handle and the address of an object. Here it takes the object's value
  and the handle and returns the C result, the object's value afterwards and the handle.
\<close>

type_synonym ('s, 'a) xdrproc = "'a \<Rightarrow> 's XDR \<Rightarrow> bool \<times> 'a \<times> 's XDR"

text \<open>\<open>xdr_a(xdrs, \&p->f)\<close>: a filter on one field.\<close>

definition xdr_field ::
  "('r \<Rightarrow> 'f) \<Rightarrow> (('f \<Rightarrow> 'f) \<Rightarrow> 'r \<Rightarrow> 'r) \<Rightarrow> ('s, 'f) xdrproc \<Rightarrow> ('s, 'r) xdrproc" where
  "xdr_field get upd p r x = (case p (get r) x of (ok, f, x') \<Rightarrow> (ok, upd (\<lambda>_. f) r, x'))"

text \<open>\<open>if (!xdr_a(...)) return FALSE; if (!xdr_b(...)) return FALSE; ... return TRUE\<close>.\<close>

fun xdr_seq :: "('s, 'r) xdrproc list \<Rightarrow> ('s, 'r) xdrproc" where
  "xdr_seq [] r x = (True, r, x)"
| "xdr_seq (p # ps) r x = (case p r x of (ok, r', x') \<Rightarrow> if ok then xdr_seq ps r' x' else (False, r', x'))"

text \<open>A condition between two calls of a \<open>\&\&\<close> chain.\<close>

definition xdr_check :: "('r \<Rightarrow> bool) \<Rightarrow> ('s, 'r) xdrproc" where
  "xdr_check P r x = (P r, r, x)"

text \<open>A filter that runs after a successful allocation.\<close>

definition xdr_alloc :: "('s, 'r) xdrproc \<Rightarrow> ('s, 'r) xdrproc" where
  "xdr_alloc p r x = (case mem_alloc x of (ok, x') \<Rightarrow> if ok then p r x' else (False, r, x'))"

lemma xdr_alloc_Suc [simp]:
  "xdr_alloc p r (mkXDR op ops s (Suc m)) = p r (mkXDR op ops s m)"
  by (simp add: xdr_alloc_def mem_alloc_def)

lemma mem_alloc_Suc [simp]: "mem_alloc (mkXDR op ops s (Suc m)) = (True, mkXDR op ops s m)"
  by (simp add: mem_alloc_def)

text \<open>What \<open>XDR_FREE\<close> does never touches the stream: the object is released and \<open>k\<close> blocks return.\<close>

definition frees :: "('s, 'a) xdrproc \<Rightarrow> 'a \<Rightarrow> 'a \<Rightarrow> nat \<Rightarrow> bool" where
  "frees p v z k \<longleftrightarrow>
     (\<forall>ops s m. p v (mkXDR XDR_FREE ops s m) = (True, z, mkXDR XDR_FREE ops s (m + k)))"

lemma freesD: "frees p v z k \<Longrightarrow> p v (mkXDR XDR_FREE ops s m) = (True, z, mkXDR XDR_FREE ops s (m + k))"
  by (simp add: frees_def)

lemma frees_eq: "frees p v w l \<Longrightarrow> w = z \<Longrightarrow> l = k \<Longrightarrow> frees p v z k"
  by simp

lemma frees_Nil [codec]: "frees (xdr_seq []) v v 0"
  by (simp add: frees_def)

lemma frees_Cons [codec]:
  "frees p v z1 k1 \<Longrightarrow> frees (xdr_seq ps) z1 z2 k2 \<Longrightarrow> frees (xdr_seq (p # ps)) v z2 (k1 + k2)"
  by (simp add: frees_def add.assoc)

lemma frees_last: "frees p v z k \<Longrightarrow> frees (xdr_seq [p]) v z k"
  by (simp add: frees_def)

lemma frees_field [codec]:
  "frees p (get v) f k \<Longrightarrow> frees (xdr_field get upd p) v (upd (\<lambda>_. f) v) k"
  by (simp add: frees_def xdr_field_def)

lemmas frees_seq = frees_last frees_Cons frees_field

lemma frees_check [codec]: "P v \<Longrightarrow> frees (xdr_check P) v v 0"
  by (simp add: frees_def xdr_check_def)

section \<open>What a stream promises to an encoding filter\<close>

text \<open>
  \<open>fits s n\<close>: \<open>n\<close> more bytes can be written. \<open>wrote s bs s'\<close>: \<open>s'\<close> is \<open>s\<close> after the bytes \<open>bs\<close>.
  An inline block may be refused; when it is granted, whatever is then stored there counts as
  written.
\<close>

locale xdr_sink =
  fixes ops :: "'s xdr_ops"
    and fits :: "'s \<Rightarrow> nat \<Rightarrow> bool"
    and wrote :: "'s \<Rightarrow> byte list \<Rightarrow> 's \<Rightarrow> bool"
  assumes fits_le: "fits s n \<Longrightarrow> k \<le> n \<Longrightarrow> fits s k"
    and wrote_nil: "fits s n \<Longrightarrow> wrote s [] s"
    and wrote_append: "wrote s as s1 \<Longrightarrow> wrote s1 bs s2 \<Longrightarrow> wrote s (as @ bs) s2"
    and putlong: "fits s (4 + n) \<Longrightarrow>
      \<exists>s'. x_putlong ops w s = (True, s') \<and> wrote s (be32 w) s' \<and> fits s' n"
    and putbytes: "fits s (length bs + n) \<Longrightarrow> length bs < 2 ^ 32 \<Longrightarrow>
      \<exists>s'. x_putbytes ops bs s = (True, s') \<and> wrote s bs s' \<and> fits s' n"
    and inline_enc_None: "fits s (unat len + n) \<Longrightarrow> x_inline ops XDR_ENCODE len s = (None, s') \<Longrightarrow>
      wrote s [] s' \<and> fits s' (unat len + n)"
    and inline_enc_Some: "fits s (unat len + n) \<Longrightarrow> x_inline ops XDR_ENCODE len s = (Some p, s1) \<Longrightarrow>
      length (x_load ops XDR_ENCODE p (unat len) s1) = unat len \<and>
      (\<forall>bs. length bs = unat len \<longrightarrow> wrote s bs (x_store ops p bs s1) \<and> fits (x_store ops p bs s1) n)"
begin

definition encodes :: "('s, 'a) xdrproc \<Rightarrow> 'a \<Rightarrow> 'a \<Rightarrow> byte list \<Rightarrow> bool" where
  "encodes p v v' bs \<longleftrightarrow>
     (\<forall>s n m. fits s (length bs + n) \<longrightarrow>
        (\<exists>s'. p v (mkXDR XDR_ENCODE ops s m) = (True, v', mkXDR XDR_ENCODE ops s' m)
              \<and> wrote s bs s' \<and> fits s' n))"

lemma encodesI:
  assumes "\<And>s n m. fits s (length bs + n) \<Longrightarrow>
    \<exists>s'. p v (mkXDR XDR_ENCODE ops s m) = (True, v', mkXDR XDR_ENCODE ops s' m)
      \<and> wrote s bs s' \<and> fits s' n"
  shows "encodes p v v' bs"
  using assms by (simp add: encodes_def)

lemma encodesE:
  assumes "encodes p v v' bs" and "fits s (length bs + n)"
  obtains s' where "p v (mkXDR XDR_ENCODE ops s m) = (True, v', mkXDR XDR_ENCODE ops s' m)"
    and "wrote s bs s'" and "fits s' n"
  using assms unfolding encodes_def by blast

lemma encodes_eq: "encodes p v w cs \<Longrightarrow> w = v' \<Longrightarrow> cs = bs \<Longrightarrow> encodes p v v' bs"
  by simp

text \<open>How a filter that runs another one, or two of them in a row, encodes.\<close>

lemma encodes_via:
  assumes "encodes p v v1 bs"
    and "\<And>s s1 m. p v (mkXDR XDR_ENCODE ops s m) = (True, v1, mkXDR XDR_ENCODE ops s1 m) \<Longrightarrow>
      r u (mkXDR XDR_ENCODE ops s m) = (True, u1, mkXDR XDR_ENCODE ops s1 m)"
  shows "encodes r u u1 bs"
  using assms unfolding encodes_def by metis

lemma encodes_bind:
  assumes "encodes p v v1 b1" and "encodes q w w1 b2"
    and "\<And>s s1 s2 m. p v (mkXDR XDR_ENCODE ops s m) = (True, v1, mkXDR XDR_ENCODE ops s1 m) \<Longrightarrow>
      q w (mkXDR XDR_ENCODE ops s1 m) = (True, w1, mkXDR XDR_ENCODE ops s2 m) \<Longrightarrow>
      r u (mkXDR XDR_ENCODE ops s m) = (True, u1, mkXDR XDR_ENCODE ops s2 m)"
  shows "encodes r u u1 (b1 @ b2)"
proof (rule encodesI)
  fix s n m
  assume "fits s (length (b1 @ b2) + n)"
  then have "fits s (length b1 + (length b2 + n))" by (simp add: add.assoc)
  with assms(1) obtain s1 where
    1: "p v (mkXDR XDR_ENCODE ops s m) = (True, v1, mkXDR XDR_ENCODE ops s1 m)"
      "wrote s b1 s1" "fits s1 (length b2 + n)"
    by (rule encodesE)
  from assms(2) 1(3) obtain s2 where
    2: "q w (mkXDR XDR_ENCODE ops s1 m) = (True, w1, mkXDR XDR_ENCODE ops s2 m)"
      "wrote s1 b2 s2" "fits s2 n"
    by (rule encodesE)
  show "\<exists>s'. r u (mkXDR XDR_ENCODE ops s m) = (True, u1, mkXDR XDR_ENCODE ops s' m)
    \<and> wrote s (b1 @ b2) s' \<and> fits s' n"
    using assms(3) [OF 1(1) 2(1)] wrote_append [OF 1(2) 2(2)] 2(3) by blast
qed

lemma encodes_bind3:
  assumes "encodes p v v1 b1" and "encodes q w w1 b2" and "encodes p' y y1 b3"
    and "\<And>s s1 s2 s3 m. p v (mkXDR XDR_ENCODE ops s m) = (True, v1, mkXDR XDR_ENCODE ops s1 m) \<Longrightarrow>
      q w (mkXDR XDR_ENCODE ops s1 m) = (True, w1, mkXDR XDR_ENCODE ops s2 m) \<Longrightarrow>
      p' y (mkXDR XDR_ENCODE ops s2 m) = (True, y1, mkXDR XDR_ENCODE ops s3 m) \<Longrightarrow>
      r u (mkXDR XDR_ENCODE ops s m) = (True, u1, mkXDR XDR_ENCODE ops s3 m)"
  shows "encodes r u u1 (b1 @ b2 @ b3)"
proof (rule encodesI)
  fix s n m
  assume "fits s (length (b1 @ b2 @ b3) + n)"
  then have "fits s (length b1 + (length b2 + (length b3 + n)))" by (simp add: add.assoc)
  with assms(1) obtain s1 where
    1: "p v (mkXDR XDR_ENCODE ops s m) = (True, v1, mkXDR XDR_ENCODE ops s1 m)"
      "wrote s b1 s1" "fits s1 (length b2 + (length b3 + n))"
    by (rule encodesE)
  from assms(2) 1(3) obtain s2 where
    2: "q w (mkXDR XDR_ENCODE ops s1 m) = (True, w1, mkXDR XDR_ENCODE ops s2 m)"
      "wrote s1 b2 s2" "fits s2 (length b3 + n)"
    by (rule encodesE)
  from assms(3) 2(3) obtain s3 where
    3: "p' y (mkXDR XDR_ENCODE ops s2 m) = (True, y1, mkXDR XDR_ENCODE ops s3 m)"
      "wrote s2 b3 s3" "fits s3 n"
    by (rule encodesE)
  show "\<exists>s'. r u (mkXDR XDR_ENCODE ops s m) = (True, u1, mkXDR XDR_ENCODE ops s' m)
    \<and> wrote s (b1 @ b2 @ b3) s' \<and> fits s' n"
    using assms(4) [OF 1(1) 2(1) 3(1)] wrote_append [OF 1(2) wrote_append [OF 2(2) 3(2)]] 3(3)
    by blast
qed

lemma encodes_nothing:
  assumes "\<And>s m. r u (mkXDR XDR_ENCODE ops s m) = (True, u1, mkXDR XDR_ENCODE ops s m)"
  shows "encodes r u u1 []"
  using assms by (auto intro!: encodesI wrote_nil)

lemma encodes_Nil [codec]: "encodes (xdr_seq []) v v []"
  by (rule encodes_nothing) simp

lemma encodes_Cons [codec]:
  "encodes p v v1 b1 \<Longrightarrow> encodes (xdr_seq ps) v1 v2 b2 \<Longrightarrow> encodes (xdr_seq (p # ps)) v v2 (b1 @ b2)"
  by (erule (1) encodes_bind) simp

lemma encodes_check_Cons:
  "P v \<Longrightarrow> encodes (xdr_seq ps) v v2 bs \<Longrightarrow> encodes (xdr_seq (xdr_check P # ps)) v v2 bs"
  by (rule encodes_via [of "xdr_seq ps" v v2 bs]) (simp_all add: xdr_check_def)

lemma encodes_last: "encodes p v v1 bs \<Longrightarrow> encodes (xdr_seq [p]) v v1 bs"
  by (erule encodes_via) simp

lemma encodes_field [codec]:
  "encodes p (get v) f bs \<Longrightarrow> encodes (xdr_field get upd p) v (upd (\<lambda>_. f) v) bs"
  by (erule encodes_via) (simp add: xdr_field_def)

lemmas encodes_seq = encodes_check_Cons encodes_last encodes_Cons encodes_field

lemma encodes_check [codec]: "P v \<Longrightarrow> encodes (xdr_check P) v v []"
  by (rule encodes_nothing) (simp add: xdr_check_def)

end

section \<open>What a stream promises to a decoding filter\<close>

text \<open>\<open>ready s bs\<close>: the next bytes the stream delivers are \<open>bs\<close>.\<close>

locale xdr_source =
  fixes ops :: "'s xdr_ops"
    and ready :: "'s \<Rightarrow> byte list \<Rightarrow> bool"
  assumes getlong: "ready s (be32 w @ bs) \<Longrightarrow> \<exists>s'. x_getlong ops s = (Some w, s') \<and> ready s' bs"
    and getbytes: "ready s (xs @ bs) \<Longrightarrow> length xs < 2 ^ 32 \<Longrightarrow>
      \<exists>s'. x_getbytes ops (of_nat (length xs)) s = (Some xs, s') \<and> ready s' bs"
    and inline_dec_None: "ready s (xs @ bs) \<Longrightarrow> length xs < 2 ^ 32 \<Longrightarrow>
      x_inline ops XDR_DECODE (of_nat (length xs)) s = (None, s') \<Longrightarrow> ready s' (xs @ bs)"
    and inline_dec_Some: "ready s (xs @ bs) \<Longrightarrow> length xs < 2 ^ 32 \<Longrightarrow>
      x_inline ops XDR_DECODE (of_nat (length xs)) s = (Some p, s') \<Longrightarrow>
      x_load ops XDR_DECODE p (length xs) s' = xs \<and> ready s' bs"
begin

definition decodes :: "('s, 'a) xdrproc \<Rightarrow> 'a \<Rightarrow> 'a \<Rightarrow> byte list \<Rightarrow> nat \<Rightarrow> bool" where
  "decodes p z v bs k \<longleftrightarrow>
     (\<forall>s rest m. ready s (bs @ rest) \<longrightarrow>
        (\<exists>s'. p z (mkXDR XDR_DECODE ops s (m + k)) = (True, v, mkXDR XDR_DECODE ops s' m)
              \<and> ready s' rest))"

lemma decodesI:
  assumes "\<And>s rest m. ready s (bs @ rest) \<Longrightarrow>
    \<exists>s'. p z (mkXDR XDR_DECODE ops s (m + k)) = (True, v, mkXDR XDR_DECODE ops s' m) \<and> ready s' rest"
  shows "decodes p z v bs k"
  using assms by (simp add: decodes_def)

lemma decodesE:
  assumes "decodes p z v bs k" and "ready s (bs @ rest)"
  obtains s' where "p z (mkXDR XDR_DECODE ops s (m + k)) = (True, v, mkXDR XDR_DECODE ops s' m)"
    and "ready s' rest"
  using assms unfolding decodes_def by blast

lemma decodes_eq: "decodes p z w bs l \<Longrightarrow> w = v \<Longrightarrow> l = k \<Longrightarrow> decodes p z v bs k"
  by simp

lemma decodes_via:
  assumes "decodes p z v bs k"
    and "\<And>s s1 m. p z (mkXDR XDR_DECODE ops s (m + k)) = (True, v, mkXDR XDR_DECODE ops s1 m) \<Longrightarrow>
      r u (mkXDR XDR_DECODE ops s (m + l)) = (True, u1, mkXDR XDR_DECODE ops s1 m)"
  shows "decodes r u u1 bs l"
  using assms unfolding decodes_def by metis

lemma decodes_bind:
  assumes "decodes p z v b1 k1" and "decodes q w w1 b2 k2"
    and "\<And>s s1 s2 m. p z (mkXDR XDR_DECODE ops s (m + k2 + k1)) = (True, v, mkXDR XDR_DECODE ops s1 (m + k2)) \<Longrightarrow>
      q w (mkXDR XDR_DECODE ops s1 (m + k2)) = (True, w1, mkXDR XDR_DECODE ops s2 m) \<Longrightarrow>
      r u (mkXDR XDR_DECODE ops s (m + l)) = (True, u1, mkXDR XDR_DECODE ops s2 m)"
  shows "decodes r u u1 (b1 @ b2) l"
proof (rule decodesI)
  fix s rest m
  assume "ready s ((b1 @ b2) @ rest)"
  then have "ready s (b1 @ (b2 @ rest))" by simp
  with assms(1) obtain s1 where
    1: "p z (mkXDR XDR_DECODE ops s (m + k2 + k1)) = (True, v, mkXDR XDR_DECODE ops s1 (m + k2))"
      "ready s1 (b2 @ rest)"
    by (rule decodesE)
  from assms(2) 1(2) obtain s2 where
    2: "q w (mkXDR XDR_DECODE ops s1 (m + k2)) = (True, w1, mkXDR XDR_DECODE ops s2 m)" "ready s2 rest"
    by (rule decodesE)
  show "\<exists>s'. r u (mkXDR XDR_DECODE ops s (m + l)) = (True, u1, mkXDR XDR_DECODE ops s' m) \<and> ready s' rest"
    using assms(3) [OF 1(1) 2(1)] 2(2) by blast
qed

lemma decodes_bind3:
  assumes "decodes p v v1 b1 k1" and "decodes q w w1 b2 k2" and "decodes p' y y1 b3 k3"
    and "\<And>s s1 s2 s3 m.
      p v (mkXDR XDR_DECODE ops s (m + k3 + k2 + k1)) = (True, v1, mkXDR XDR_DECODE ops s1 (m + k3 + k2)) \<Longrightarrow>
      q w (mkXDR XDR_DECODE ops s1 (m + k3 + k2)) = (True, w1, mkXDR XDR_DECODE ops s2 (m + k3)) \<Longrightarrow>
      p' y (mkXDR XDR_DECODE ops s2 (m + k3)) = (True, y1, mkXDR XDR_DECODE ops s3 m) \<Longrightarrow>
      r u (mkXDR XDR_DECODE ops s (m + l)) = (True, u1, mkXDR XDR_DECODE ops s3 m)"
  shows "decodes r u u1 (b1 @ b2 @ b3) l"
proof (rule decodesI)
  fix s rest m
  assume "ready s ((b1 @ b2 @ b3) @ rest)"
  then have "ready s (b1 @ (b2 @ b3 @ rest))" by simp
  with assms(1) obtain s1 where
    1: "p v (mkXDR XDR_DECODE ops s (m + k3 + k2 + k1)) = (True, v1, mkXDR XDR_DECODE ops s1 (m + k3 + k2))"
      "ready s1 (b2 @ b3 @ rest)"
    by (rule decodesE)
  from assms(2) 1(2) obtain s2 where
    2: "q w (mkXDR XDR_DECODE ops s1 (m + k3 + k2)) = (True, w1, mkXDR XDR_DECODE ops s2 (m + k3))"
      "ready s2 (b3 @ rest)"
    by (rule decodesE)
  from assms(3) 2(2) obtain s3 where
    3: "p' y (mkXDR XDR_DECODE ops s2 (m + k3)) = (True, y1, mkXDR XDR_DECODE ops s3 m)" "ready s3 rest"
    by (rule decodesE)
  show "\<exists>s'. r u (mkXDR XDR_DECODE ops s (m + l)) = (True, u1, mkXDR XDR_DECODE ops s' m) \<and> ready s' rest"
    using assms(4) [OF 1(1) 2(1) 3(1)] 3(2) by blast
qed

lemma decodes_alloc: "decodes p z v bs k \<Longrightarrow> decodes (xdr_alloc p) z v bs (Suc k)"
  by (simp add: decodes_def)

lemma decodes_nothing:
  assumes "\<And>s m. r u (mkXDR XDR_DECODE ops s m) = (True, u1, mkXDR XDR_DECODE ops s m)"
  shows "decodes r u u1 [] 0"
  using assms by (auto intro!: decodesI)

lemma decodes_Nil [codec]: "decodes (xdr_seq []) v v [] 0"
  by (rule decodes_nothing) simp

lemma decodes_Cons [codec]:
  "decodes p z v1 b1 k1 \<Longrightarrow> decodes (xdr_seq ps) v1 v2 b2 k2 \<Longrightarrow>
   decodes (xdr_seq (p # ps)) z v2 (b1 @ b2) (k1 + k2)"
  by (erule (1) decodes_bind) (simp add: ac_simps)

lemma decodes_check_Cons:
  "P z \<Longrightarrow> decodes (xdr_seq ps) z v bs k \<Longrightarrow> decodes (xdr_seq (xdr_check P # ps)) z v bs k"
  by (rule decodes_via [of "xdr_seq ps" z v bs k]) (simp_all add: xdr_check_def)

lemma decodes_last: "decodes p z v bs k \<Longrightarrow> decodes (xdr_seq [p]) z v bs k"
  by (erule decodes_via) simp

lemma decodes_field [codec]:
  "decodes p (get z) f bs k \<Longrightarrow> decodes (xdr_field get upd p) z (upd (\<lambda>_. f) z) bs k"
  by (erule decodes_via) (simp add: xdr_field_def)

lemmas decodes_seq = decodes_check_Cons decodes_last decodes_Cons decodes_field

lemma decodes_check [codec]: "P v \<Longrightarrow> decodes (xdr_check P) v v [] 0"
  by (rule decodes_nothing) (simp add: xdr_check_def)

end

text \<open>A stream that serves both directions.\<close>

locale xdr_stream = xdr_sink ops fits wrote + xdr_source ops ready
  for ops :: "'s xdr_ops" and fits wrote ready

end
