(* ===== verification/Xdr_Prim.thy ===== *)
theory Xdr_Prim
  imports Xdr_Handle
begin

text \<open>
  \<open>libsrc/xdr.c\<close>: the filters for integers, booleans, opaque data, counted bytes, strings and
  discriminated unions. Each C filter is one definition with the C code's case split on the
  handle's operation; the facts below say, for every stream, which bytes it encodes, that it
  decodes exactly those bytes back, and what \<open>XDR_FREE\<close> gives back to the heap.
\<close>

section \<open>Integers\<close>

text \<open>An \<open>int\<close> and a \<open>long\<close> have 32 bits; the shorter types are sign or zero extended.\<close>

definition xdr_void :: "('s, 'a) xdrproc" where
  "xdr_void v x = (True, v, x)"

definition xdr_long :: "('s, u32) xdrproc" where
  "xdr_long l x =
     (case x_op x of
        XDR_ENCODE \<Rightarrow> (case XDR_PUTLONG x l of (ok, x') \<Rightarrow> (ok, l, x'))
      | XDR_DECODE \<Rightarrow> (case XDR_GETLONG x of (None, x') \<Rightarrow> (False, l, x') | (Some v, x') \<Rightarrow> (True, v, x'))
      | XDR_FREE \<Rightarrow> (True, l, x))"

definition xdr_u_long :: "('s, u32) xdrproc" where
  "xdr_u_long l x =
     (case x_op x of
        XDR_ENCODE \<Rightarrow> (case XDR_PUTLONG x l of (ok, x') \<Rightarrow> (ok, l, x'))
      | XDR_DECODE \<Rightarrow> (case XDR_GETLONG x of (None, x') \<Rightarrow> (False, l, x') | (Some v, x') \<Rightarrow> (True, v, x'))
      | XDR_FREE \<Rightarrow> (True, l, x))"

definition xdr_int :: "('s, u32) xdrproc" where
  "xdr_int i x =
     (case x_op x of
        XDR_ENCODE \<Rightarrow> (case XDR_PUTLONG x (scast i) of (ok, x') \<Rightarrow> (ok, i, x'))
      | XDR_DECODE \<Rightarrow> (case XDR_GETLONG x of (None, x') \<Rightarrow> (False, i, x') | (Some v, x') \<Rightarrow> (True, scast v, x'))
      | XDR_FREE \<Rightarrow> (True, i, x))"

definition xdr_u_int :: "('s, u32) xdrproc" where
  "xdr_u_int u x =
     (case x_op x of
        XDR_ENCODE \<Rightarrow> (case XDR_PUTLONG x (ucast u) of (ok, x') \<Rightarrow> (ok, u, x'))
      | XDR_DECODE \<Rightarrow> (case XDR_GETLONG x of (None, x') \<Rightarrow> (False, u, x') | (Some v, x') \<Rightarrow> (True, ucast v, x'))
      | XDR_FREE \<Rightarrow> (True, u, x))"

definition xdr_int32_t :: "('s, u32) xdrproc" where
  "xdr_int32_t i x =
     (case x_op x of
        XDR_ENCODE \<Rightarrow> (case XDR_PUTLONG x (scast i) of (ok, x') \<Rightarrow> (ok, i, x'))
      | XDR_DECODE \<Rightarrow> (case XDR_GETLONG x of (None, x') \<Rightarrow> (False, i, x') | (Some v, x') \<Rightarrow> (True, scast v, x'))
      | XDR_FREE \<Rightarrow> (True, i, x))"

definition xdr_u_int32_t :: "('s, u32) xdrproc" where
  "xdr_u_int32_t u x =
     (case x_op x of
        XDR_ENCODE \<Rightarrow> (case XDR_PUTLONG x (ucast u) of (ok, x') \<Rightarrow> (ok, u, x'))
      | XDR_DECODE \<Rightarrow> (case XDR_GETLONG x of (None, x') \<Rightarrow> (False, u, x') | (Some v, x') \<Rightarrow> (True, ucast v, x'))
      | XDR_FREE \<Rightarrow> (True, u, x))"

definition xdr_short :: "('s, u16) xdrproc" where
  "xdr_short i x =
     (case x_op x of
        XDR_ENCODE \<Rightarrow> (case XDR_PUTLONG x (scast i) of (ok, x') \<Rightarrow> (ok, i, x'))
      | XDR_DECODE \<Rightarrow> (case XDR_GETLONG x of (None, x') \<Rightarrow> (False, i, x') | (Some v, x') \<Rightarrow> (True, scast v, x'))
      | XDR_FREE \<Rightarrow> (True, i, x))"

definition xdr_u_short :: "('s, u16) xdrproc" where
  "xdr_u_short u x =
     (case x_op x of
        XDR_ENCODE \<Rightarrow> (case XDR_PUTLONG x (ucast u) of (ok, x') \<Rightarrow> (ok, u, x'))
      | XDR_DECODE \<Rightarrow> (case XDR_GETLONG x of (None, x') \<Rightarrow> (False, u, x') | (Some v, x') \<Rightarrow> (True, ucast v, x'))
      | XDR_FREE \<Rightarrow> (True, u, x))"

definition xdr_int16_t :: "('s, u16) xdrproc" where
  "xdr_int16_t i x =
     (case x_op x of
        XDR_ENCODE \<Rightarrow> (case XDR_PUTLONG x (scast i) of (ok, x') \<Rightarrow> (ok, i, x'))
      | XDR_DECODE \<Rightarrow> (case XDR_GETLONG x of (None, x') \<Rightarrow> (False, i, x') | (Some v, x') \<Rightarrow> (True, scast v, x'))
      | XDR_FREE \<Rightarrow> (True, i, x))"

definition xdr_u_int16_t :: "('s, u16) xdrproc" where
  "xdr_u_int16_t u x =
     (case x_op x of
        XDR_ENCODE \<Rightarrow> (case XDR_PUTLONG x (ucast u) of (ok, x') \<Rightarrow> (ok, u, x'))
      | XDR_DECODE \<Rightarrow> (case XDR_GETLONG x of (None, x') \<Rightarrow> (False, u, x') | (Some v, x') \<Rightarrow> (True, ucast v, x'))
      | XDR_FREE \<Rightarrow> (True, u, x))"

text \<open>A \<open>char\<close> goes through an \<open>int\<close>, an \<open>u_char\<close> through an \<open>u_int\<close>, whatever the operation.\<close>

definition xdr_char :: "('s, byte) xdrproc" where
  "xdr_char c x =
     (case xdr_int (scast c) x of (ok, i, x') \<Rightarrow> if ok then (True, scast i, x') else (False, c, x'))"

definition xdr_u_char :: "('s, byte) xdrproc" where
  "xdr_u_char c x =
     (case xdr_u_int (ucast c) x of (ok, u, x') \<Rightarrow> if ok then (True, ucast u, x') else (False, c, x'))"

definition xdr_bool :: "('s, bool) xdrproc" where
  "xdr_bool b x =
     (case x_op x of
        XDR_ENCODE \<Rightarrow> (case XDR_PUTLONG x (if b then 1 else 0) of (ok, x') \<Rightarrow> (ok, b, x'))
      | XDR_DECODE \<Rightarrow> (case XDR_GETLONG x of (None, x') \<Rightarrow> (False, b, x') | (Some lb, x') \<Rightarrow> (True, lb \<noteq> 0, x'))
      | XDR_FREE \<Rightarrow> (True, b, x))"

text \<open>A C enumeration is an \<open>int\<close>: a decoded value need not be one of the named constants.\<close>

definition xdr_enum :: "('s, u32) xdrproc" where
  "xdr_enum e x =
     (case x_op x of
        XDR_ENCODE \<Rightarrow> (case XDR_PUTLONG x (scast e) of (ok, x') \<Rightarrow> (ok, e, x'))
      | XDR_DECODE \<Rightarrow> (case XDR_GETLONG x of (None, x') \<Rightarrow> (False, e, x') | (Some v, x') \<Rightarrow> (True, scast v, x'))
      | XDR_FREE \<Rightarrow> (True, e, x))"

definition xdr_int64_t :: "('s, u64) xdrproc" where
  "xdr_int64_t ll x =
     (case x_op x of
        XDR_ENCODE \<Rightarrow>
          (let ul0 = ucast (drop_bit 32 ll AND 0xffffffff) :: u32; ul1 = ucast (ll AND 0xffffffff) :: u32
           in case XDR_PUTLONG x ul0 of (ok, x1) \<Rightarrow>
                if \<not> ok then (False, ll, x1)
                else case XDR_PUTLONG x1 ul1 of (ok, x2) \<Rightarrow> (ok, ll, x2))
      | XDR_DECODE \<Rightarrow>
          (case XDR_GETLONG x of (None, x1) \<Rightarrow> (False, ll, x1)
           | (Some ul0, x1) \<Rightarrow>
               (case XDR_GETLONG x1 of (None, x2) \<Rightarrow> (False, ll, x2)
                | (Some ul1, x2) \<Rightarrow> (True, push_bit 32 (ucast ul0) OR ucast ul1, x2)))
      | XDR_FREE \<Rightarrow> (True, ll, x))"

definition xdr_u_int64_t :: "('s, u64) xdrproc" where
  "xdr_u_int64_t ull x =
     (case x_op x of
        XDR_ENCODE \<Rightarrow>
          (let ul0 = ucast (drop_bit 32 ull) AND 0xffffffff :: u32; ul1 = ucast ull AND 0xffffffff :: u32
           in case XDR_PUTLONG x ul0 of (ok, x1) \<Rightarrow>
                if \<not> ok then (False, ull, x1)
                else case XDR_PUTLONG x1 ul1 of (ok, x2) \<Rightarrow> (ok, ull, x2))
      | XDR_DECODE \<Rightarrow>
          (case XDR_GETLONG x of (None, x1) \<Rightarrow> (False, ull, x1)
           | (Some ul0, x1) \<Rightarrow>
               (case XDR_GETLONG x1 of (None, x2) \<Rightarrow> (False, ull, x2)
                | (Some ul1, x2) \<Rightarrow> (True, push_bit 32 (ucast ul0) OR ucast ul1, x2)))
      | XDR_FREE \<Rightarrow> (True, ull, x))"

definition xdr_hyper :: "('s, u64) xdrproc" where
  "xdr_hyper = xdr_int64_t"

definition xdr_u_hyper :: "('s, u64) xdrproc" where
  "xdr_u_hyper = xdr_u_int64_t"

definition xdr_longlong_t :: "('s, u64) xdrproc" where
  "xdr_longlong_t = xdr_int64_t"

definition xdr_u_longlong_t :: "('s, u64) xdrproc" where
  "xdr_u_longlong_t = xdr_u_int64_t"

section \<open>Opaque data, counted bytes, strings\<close>

text \<open>
  An object reached through a \<open>char *\<close> is the contents of its buffer; a \<open>char *\<close> that may be
  \<open>NULL\<close> is an \<open>option\<close>. Reading past the end of a caller's object or through \<open>NULL\<close> is
  undefined in C; the model then sees fewer bytes, and no theorem is about that case.
\<close>

abbreviation deref :: "byte list option \<Rightarrow> byte list" where
  "deref p \<equiv> (case p of None \<Rightarrow> [] | Some b \<Rightarrow> b)"

definition xdr_zero :: "byte list" where
  "xdr_zero = [0, 0, 0, 0]"

definition xdr_opaque :: "u32 \<Rightarrow> ('s, byte list) xdrproc" where
  "xdr_opaque cnt cp x =
     (if cnt = 0 then (True, cp, x)
      else let r = cnt mod 4; rndup = (if r > 0 then 4 - r else r) in
      (case x_op x of
         XDR_DECODE \<Rightarrow>
           (case XDR_GETBYTES x cnt of
              (None, x1) \<Rightarrow> (False, cp, x1)
            | (Some bs, x1) \<Rightarrow>
                if rndup = 0 then (True, store 0 bs cp, x1)
                else (case XDR_GETBYTES x1 rndup of
                        (None, x2) \<Rightarrow> (False, store 0 bs cp, x2)
                      | (Some crud, x2) \<Rightarrow> (True, store 0 bs cp, x2)))
       | XDR_ENCODE \<Rightarrow>
           (case XDR_PUTBYTES x (take (unat cnt) cp) of (ok, x1) \<Rightarrow>
              if \<not> ok then (False, cp, x1)
              else if rndup = 0 then (True, cp, x1)
              else (case XDR_PUTBYTES x1 (take (unat rndup) xdr_zero) of (ok, x2) \<Rightarrow> (ok, cp, x2)))
       | XDR_FREE \<Rightarrow> (True, cp, x)))"

text \<open>The object is the pair of \<open>*cpp\<close> and \<open>*sizep\<close>.\<close>

definition xdr_bytes :: "u32 \<Rightarrow> ('s, byte list option \<times> u32) xdrproc" where
  "xdr_bytes maxsize obj x =
     (case obj of (sp, size0) \<Rightarrow>
      case xdr_u_int size0 x of (ok, nodesize, x1) \<Rightarrow>
      if \<not> ok then (False, (sp, nodesize), x1)
      else if nodesize > maxsize \<and> x_op x \<noteq> XDR_FREE then (False, (sp, nodesize), x1)
      else case x_op x of
        XDR_DECODE \<Rightarrow>
          (if nodesize = 0 then (True, (sp, nodesize), x1)
           else case sp of
             Some b \<Rightarrow>
               (case xdr_opaque nodesize b x1 of (ret, b', x2) \<Rightarrow> (ret, (Some b', nodesize), x2))
           | None \<Rightarrow>
               (case mem_alloc x1 of (ok, x2) \<Rightarrow>
                  if \<not> ok then (False, (None, nodesize), x2)
                  else case xdr_opaque nodesize (zeros (unat nodesize)) x2 of (ret, b', x3) \<Rightarrow>
                    if ret then (True, (Some b', nodesize), x3)
                    else (False, (None, nodesize), mem_free x3)))
      | XDR_ENCODE \<Rightarrow>
          (case xdr_opaque nodesize (deref sp) x1 of (ret, _, x2) \<Rightarrow> (ret, (sp, nodesize), x2))
      | XDR_FREE \<Rightarrow>
          (case sp of None \<Rightarrow> (True, (None, nodesize), x1)
           | Some b \<Rightarrow> (True, (None, nodesize), mem_free x1)))"

definition MAX_NETOBJ_SZ :: u32 where
  "MAX_NETOBJ_SZ = 1024"

definition xdr_netobj :: "('s, byte list option \<times> u32) xdrproc" where
  "xdr_netobj = xdr_bytes MAX_NETOBJ_SZ"

text \<open>
  A C string is the buffer it lies in, its terminating NUL and whatever follows included;
  \<open>cstr\<close> is the text before the NUL, \<open>strlen\<close> its length.
\<close>

definition cstr :: "byte list \<Rightarrow> byte list" where
  "cstr b = takeWhile (\<lambda>c. c \<noteq> 0) b"

definition strlen :: "byte list \<Rightarrow> nat" where
  "strlen b = length (cstr b)"

definition xdr_string :: "u32 \<Rightarrow> ('s, byte list option) xdrproc" where
  "xdr_string maxsize sp x =
     (if x_op x = XDR_FREE \<and> sp = None then (True, sp, x)
      else case xdr_u_int (if x_op x = XDR_DECODE then 0 else of_nat (strlen (deref sp))) x of
        (ok, sz, x1) \<Rightarrow>
      if \<not> ok then (False, sp, x1)
      else if sz > maxsize then (False, sp, x1)
      else let nodesize = sz + 1 in
      case x_op x of
        XDR_DECODE \<Rightarrow>
          (if nodesize = 0 then (True, sp, x1)
           else case sp of
             Some b \<Rightarrow>
               (case xdr_opaque sz (store (unat sz) [0] b) x1 of (ret, b', x2) \<Rightarrow> (ret, Some b', x2))
           | None \<Rightarrow>
               (case mem_alloc x1 of (ok, x2) \<Rightarrow>
                  if \<not> ok then (False, None, x2)
                  else case xdr_opaque sz (store (unat sz) [0] (zeros (unat nodesize))) x2 of
                    (ret, b', x3) \<Rightarrow>
                    if ret then (True, Some b', x3) else (False, None, mem_free x3)))
      | XDR_ENCODE \<Rightarrow>
          (case xdr_opaque sz (deref sp) x1 of (ret, _, x2) \<Rightarrow> (ret, sp, x2))
      | XDR_FREE \<Rightarrow> (True, None, mem_free x1))"

definition RPC_MAXDATASIZE :: u32 where
  "RPC_MAXDATASIZE = 9000"

definition xdr_wrapstring :: "('s, byte list option) xdrproc" where
  "xdr_wrapstring = xdr_string RPC_MAXDATASIZE"

section \<open>Discriminated unions\<close>

text \<open>
  The arms are (value, filter) pairs up to the terminating entry with a null filter; the object
  is the pair of the discriminant and the union.
\<close>

fun xdr_choose ::
  "(u32 \<times> ('s, 'u) xdrproc) list \<Rightarrow> ('s, 'u) xdrproc option \<Rightarrow> u32 \<Rightarrow> ('s, 'u) xdrproc option" where
  "xdr_choose [] dfault d = dfault"
| "xdr_choose ((value, proc) # choices) dfault d =
     (if value = d then Some proc else xdr_choose choices dfault d)"

definition xdr_union ::
  "(u32 \<times> ('s, 'u) xdrproc) list \<Rightarrow> ('s, 'u) xdrproc option \<Rightarrow> ('s, u32 \<times> 'u) xdrproc" where
  "xdr_union choices dfault obj x =
     (case obj of (d, u) \<Rightarrow>
      case xdr_enum d x of (ok, d', x1) \<Rightarrow>
      if \<not> ok then (False, (d', u), x1)
      else case xdr_choose choices dfault d' of
        None \<Rightarrow> (False, (d', u), x1)
      | Some proc \<Rightarrow> (case proc u x1 of (ret, u', x2) \<Rightarrow> (ret, (d', u'), x2)))"

text \<open>\<open>xdr_free\<close> runs the filter with a handle whose operation is \<open>XDR_FREE\<close>.\<close>

definition xdr_free :: "('s, 'a) xdrproc \<Rightarrow> 'a \<Rightarrow> 's XDR \<Rightarrow> 'a \<times> 's XDR" where
  "xdr_free proc obj x = (case proc obj (x\<lparr>x_op := XDR_FREE\<rparr>) of (_, obj', x') \<Rightarrow> (obj', x'))"

section \<open>The bytes of the primitive types\<close>

text \<open>Opaque data is padded with zeros to a multiple of four; counted data carries its length first.\<close>

definition enc_opaque :: "byte list \<Rightarrow> byte list" where
  "enc_opaque bs = bs @ zeros (xdr_pad (length bs))"

definition enc_counted :: "byte list \<Rightarrow> byte list" where
  "enc_counted bs = be32 (of_nat (length bs)) @ enc_opaque bs"

text \<open>
  Where counted bytes end up: in the caller's buffer if there is one, else in a fresh block; no
  block is taken for no bytes.
\<close>

definition counted_into :: "byte list option \<Rightarrow> byte list \<Rightarrow> byte list option" where
  "counted_into sp bs =
     (case sp of None \<Rightarrow> if bs = [] then None else Some bs | Some b \<Rightarrow> Some (store 0 bs b))"

definition counted_blocks :: "byte list option \<Rightarrow> byte list \<Rightarrow> nat" where
  "counted_blocks sp bs = (if sp = None \<and> bs \<noteq> [] then 1 else 0)"

definition enc_bool :: "bool \<Rightarrow> byte list" where
  "enc_bool b = be32 (if b then 1 else 0)"

definition enc_u64 :: "u64 \<Rightarrow> byte list" where
  "enc_u64 w = be32 (ucast (drop_bit 32 w)) @ be32 (ucast w)"

lemma length_enc_opaque: "length (enc_opaque bs) = length bs + xdr_pad (length bs)"
  by (simp add: enc_opaque_def)

lemma enc_opaque_aligned: "length (enc_opaque bs) mod 4 = 0"
  by (simp add: length_enc_opaque xdr_pad_aligned)

lemma enc_opaque_Nil [simp]: "enc_opaque [] = []"
  by (simp add: enc_opaque_def xdr_pad_def)

lemma scast_u32 [simp]: "(scast (w :: u32) :: u32) = w"
  by (rule scast_id)

lemma ucast_u32 [simp]: "(ucast (w :: u32) :: u32) = w"
  by (rule ucast_id)

lemma scast_u16_round [simp]: "(scast (scast (w :: u16) :: u32) :: u16) = w"
  by (rule scast_up_scast_id) (simp add: is_up)

lemma ucast_u16_round [simp]: "(ucast (ucast (w :: u16) :: u32) :: u16) = w"
  by (rule ucast_up_ucast_id) (simp add: is_up)

lemma scast_byte_round [simp]: "(scast (scast (w :: byte) :: u32) :: byte) = w"
  by (rule scast_up_scast_id) (simp add: is_up)

lemma ucast_byte_round [simp]: "(ucast (ucast (w :: byte) :: u32) :: byte) = w"
  by (rule ucast_up_ucast_id) (simp add: is_up)

lemma u64_halves: "push_bit 32 (ucast (ucast (drop_bit 32 w) :: u32)) OR ucast (ucast w :: u32) = (w :: u64)"
proof (rule bit_word_eqI)
  fix n
  assume "n < LENGTH(64)"
  then consider "n < 32" | "32 \<le> n" "n < 64"
    by fastforce
  then show "bit (push_bit 32 (ucast (ucast (drop_bit 32 w) :: u32)) OR ucast (ucast w :: u32) :: u64) n
      = bit w n"
    by cases (auto simp: bit_or_iff bit_push_bit_iff bit_drop_bit_eq bit_ucast_iff)
qed

lemma u64_masks:
  "ucast (drop_bit 32 (w :: u64) AND 0xffffffff) = (ucast (drop_bit 32 w) :: u32)"
  "ucast (w AND 0xffffffff) = (ucast w :: u32)"
  "(v :: u32) AND 0xffffffff = v"
proof -
  have m: "(0xffffffff :: u64) = mask 32" "(0xffffffff :: u32) = mask 32"
    by (simp_all add: mask_eq_exp_minus_1)
  show "ucast (drop_bit 32 (w :: u64) AND 0xffffffff) = (ucast (drop_bit 32 w) :: u32)"
    and "ucast (w AND 0xffffffff) = (ucast w :: u32)"
    and "(v :: u32) AND 0xffffffff = v"
    unfolding m by (rule bit_word_eqI; simp add: bit_ucast_iff bit_and_iff bit_mask_iff)+
qed

section \<open>Counts\<close>

lemma handy_le: "n \<le> unat (m :: u32) \<Longrightarrow> of_nat n \<le> m"
  by (metis le_unat_uoi word_le_nat_alt)

lemma of_nat_length_neq_0:
  assumes "n < 2 ^ 32"
  shows "n \<noteq> 0 \<Longrightarrow> (of_nat n :: u32) \<noteq> 0"
  using assms by (simp add: word_unat_eq_iff unat_of_nat)

lemma cnt_mod4:
  assumes "n < 2 ^ 32"
  shows "(of_nat n :: u32) mod 4 = of_nat (n mod 4)"
  using assms by (simp add: word_unat_eq_iff unat_mod unat_of_nat)

text \<open>The \<open>rndup\<close> of \<open>xdr_opaque\<close>, when it is not zero.\<close>

lemma cnt_rndup:
  assumes "n < 2 ^ 32" and "n mod 4 \<noteq> 0"
  shows "(of_nat n :: u32) mod 4 > 0" "4 - (of_nat n :: u32) mod 4 \<noteq> 0"
    and "unat (4 - (of_nat n :: u32) mod 4) = xdr_pad n"
    and "4 - (of_nat n :: u32) mod 4 = of_nat (xdr_pad n)"
proof -
  consider "n mod 4 = 1" | "n mod 4 = 2" | "n mod 4 = 3"
    using assms(2) mod4_cases [of n] by auto
  then show "(of_nat n :: u32) mod 4 > 0" "4 - (of_nat n :: u32) mod 4 \<noteq> 0"
    and "unat (4 - (of_nat n :: u32) mod 4) = xdr_pad n"
    and "4 - (of_nat n :: u32) mod 4 = of_nat (xdr_pad n)"
    by (cases; simp add: cnt_mod4 [OF assms(1)] xdr_pad_def)+
qed

lemma take_xdr_zero: "take (xdr_pad n) xdr_zero = zeros (xdr_pad n)"
proof -
  have z: "xdr_zero = replicate 4 0"
    by (simp add: xdr_zero_def numeral_eq_Suc)
  show ?thesis
    unfolding z using xdr_pad_less [of n] by (simp add: zeros_def min_def)
qed

section \<open>Freeing\<close>

lemma frees_scalars [codec]:
  "frees xdr_void t t 0" "frees xdr_long v v 0" "frees xdr_u_long v v 0" "frees xdr_int v v 0"
  "frees xdr_u_int v v 0" "frees xdr_int32_t v v 0" "frees xdr_u_int32_t v v 0"
  "frees xdr_short h h 0" "frees xdr_u_short h h 0" "frees xdr_int16_t h h 0"
  "frees xdr_u_int16_t h h 0" "frees xdr_bool b b 0" "frees xdr_enum v v 0"
  "frees xdr_int64_t l l 0" "frees xdr_u_int64_t l l 0"
  by (simp_all add: frees_def xdr_void_def xdr_long_def xdr_u_long_def xdr_int_def xdr_u_int_def
      xdr_int32_t_def xdr_u_int32_t_def xdr_short_def xdr_u_short_def xdr_int16_t_def
      xdr_u_int16_t_def xdr_bool_def xdr_enum_def xdr_int64_t_def xdr_u_int64_t_def)

lemma frees_chars [codec]: "frees xdr_char c c 0" "frees xdr_u_char c c 0"
  by (simp_all add: frees_def xdr_char_def xdr_u_char_def xdr_int_def xdr_u_int_def)

lemma frees_opaque [codec]: "frees (xdr_opaque n) b b 0"
  by (simp add: frees_def xdr_opaque_def Let_def)

lemma frees_bytes [codec]:
  "frees (xdr_bytes maxsize) (sp, n) (None, n) (if sp = None then 0 else 1)"
  by (auto simp: frees_def xdr_bytes_def xdr_u_int_def mem_free_def split: option.splits)

lemma frees_string_None [codec]: "frees (xdr_string maxsize) None None 0"
  by (simp add: frees_def xdr_string_def)

lemma frees_string [codec]:
  assumes "strlen b \<le> unat maxsize"
  shows "frees (xdr_string maxsize) (Some b) None 1"
proof -
  have "\<not> of_nat (strlen b) > maxsize"
    using handy_le [OF assms] by (simp add: not_less)
  then show ?thesis
    by (simp add: frees_def xdr_string_def xdr_u_int_def mem_free_def Let_def)
qed

section \<open>Encoding\<close>

context xdr_sink
begin

lemma encodes_word:
  assumes "\<And>s m. p v (mkXDR XDR_ENCODE ops s m) =
    (case x_putlong ops w s of (ok, s') \<Rightarrow> (ok, v, mkXDR XDR_ENCODE ops s' m))"
  shows "encodes p v v (be32 w)"
proof (rule encodesI)
  fix s n m
  assume "fits s (length (be32 w) + n)"
  then have "fits s (4 + n)" by simp
  from putlong [OF this] obtain s' where
    "x_putlong ops w s = (True, s')" "wrote s (be32 w) s'" "fits s' n"
    by blast
  then show "\<exists>s'. p v (mkXDR XDR_ENCODE ops s m) = (True, v, mkXDR XDR_ENCODE ops s' m)
    \<and> wrote s (be32 w) s' \<and> fits s' n"
    by (simp add: assms)
qed

lemma encodes_void [codec]: "encodes xdr_void v v []"
  by (auto intro!: encodesI wrote_nil simp: xdr_void_def)

lemma encodes_ints [codec]:
  "encodes xdr_long v v (be32 v)" "encodes xdr_u_long v v (be32 v)"
  "encodes xdr_int v v (be32 v)" "encodes xdr_u_int v v (be32 v)"
  "encodes xdr_int32_t v v (be32 v)" "encodes xdr_u_int32_t v v (be32 v)"
  "encodes xdr_short h h (be32 (scast h))" "encodes xdr_u_short h h (be32 (ucast h))"
  "encodes xdr_int16_t h h (be32 (scast h))" "encodes xdr_u_int16_t h h (be32 (ucast h))"
  "encodes xdr_enum v v (be32 v)"
  by (rule encodes_word; simp add: xdr_access_defs xdr_long_def xdr_u_long_def xdr_int_def
      xdr_u_int_def xdr_int32_t_def xdr_u_int32_t_def xdr_short_def xdr_u_short_def xdr_int16_t_def
      xdr_u_int16_t_def xdr_enum_def split: prod.splits)+

lemma encodes_chars [codec]:
  "encodes xdr_char c c (be32 (scast c))" "encodes xdr_u_char c c (be32 (ucast c))"
  by (rule encodes_word; simp add: xdr_access_defs xdr_char_def xdr_u_char_def xdr_int_def
      xdr_u_int_def split: prod.splits)+

lemma encodes_bool [codec]: "encodes xdr_bool b b (enc_bool b)"
  unfolding enc_bool_def
  by (rule encodes_word) (simp add: xdr_access_defs xdr_bool_def split: prod.splits)

lemma encodes_word_pair:
  assumes "\<And>s m. p v (mkXDR XDR_ENCODE ops s m) =
    (case x_putlong ops w0 s of (ok, s1) \<Rightarrow>
       if \<not> ok then (False, v, mkXDR XDR_ENCODE ops s1 m)
       else case x_putlong ops w1 s1 of (ok, s2) \<Rightarrow> (ok, v, mkXDR XDR_ENCODE ops s2 m))"
  shows "encodes p v v (be32 w0 @ be32 w1)"
  by (rule encodes_bind [OF encodes_ints(1) encodes_ints(1)])
    (auto simp: assms xdr_long_def xdr_access_defs split: prod.splits)

lemma encodes_int64 [codec]:
  "encodes xdr_int64_t l l (enc_u64 l)" "encodes xdr_u_int64_t l l (enc_u64 l)"
  "encodes xdr_hyper l l (enc_u64 l)" "encodes xdr_u_hyper l l (enc_u64 l)"
  "encodes xdr_longlong_t l l (enc_u64 l)" "encodes xdr_u_longlong_t l l (enc_u64 l)"
  unfolding enc_u64_def xdr_hyper_def xdr_u_hyper_def xdr_longlong_t_def xdr_u_longlong_t_def
  by (rule encodes_word_pair; simp add: xdr_access_defs xdr_int64_t_def xdr_u_int64_t_def
      u64_masks Let_def split: prod.splits)+

lemma encodes_opaque:
  assumes "length bs < 2 ^ 32"
  shows "encodes (xdr_opaque (of_nat (length bs))) (bs @ t) (bs @ t) (enc_opaque bs)"
proof (rule encodesI)
  fix s n m
  let ?cnt = "of_nat (length bs) :: u32"
  let ?pad = "zeros (xdr_pad (length bs))"
  assume "fits s (length (enc_opaque bs) + n)"
  then have fits: "fits s (length bs + (length ?pad + n))"
    by (simp add: enc_opaque_def add.assoc)
  from putbytes [OF fits assms] obtain s1 where
    1: "x_putbytes ops bs s = (True, s1)" "wrote s bs s1" "fits s1 (length ?pad + n)"
    by blast
  have "length ?pad < 2 ^ 32"
    using xdr_pad_less [of "length bs"] by simp
  from putbytes [OF 1(3) this] obtain s2 where
    2: "x_putbytes ops ?pad s1 = (True, s2)" "wrote s1 ?pad s2" "fits s2 n"
    by blast
  note w = wrote_append [OF 1(2) 2(2)]
  show "\<exists>s'. xdr_opaque ?cnt (bs @ t) (mkXDR XDR_ENCODE ops s m)
      = (True, bs @ t, mkXDR XDR_ENCODE ops s' m) \<and> wrote s (enc_opaque bs) s' \<and> fits s' n"
  proof (cases "bs = []")
    case True
    with fits show ?thesis by (auto simp: xdr_opaque_def xdr_pad_def intro: wrote_nil)
  next
    case False
    then have nz: "?cnt \<noteq> 0" using of_nat_length_neq_0 [OF assms] by simp
    show ?thesis
    proof (cases "length bs mod 4 = 0")
      case True
      then have "?pad = []" by (simp add: xdr_pad_def)
      moreover have "?cnt mod 4 = 0" using cnt_mod4 [OF assms] True by simp
      ultimately show ?thesis
        using 1 nz assms by (auto simp: xdr_opaque_def xdr_access_defs enc_opaque_def unat_of_nat)
    next
      case False
      note r = cnt_rndup [OF assms False]
      show ?thesis
        using 1 2 w nz r assms
        by (auto simp: xdr_opaque_def xdr_access_defs enc_opaque_def unat_of_nat Let_def take_xdr_zero)
    qed
  qed
qed

text \<open>A counted object of \<open>NULL\<close> and 0, or of a buffer that starts with the bytes sent.\<close>

lemma encodes_counted:
  assumes "length bs < 2 ^ 32" and "length bs \<le> unat maxsize" and "take (length bs) (deref sp) = bs"
  shows "encodes (xdr_bytes maxsize) (sp, of_nat (length bs)) (sp, of_nat (length bs)) (enc_counted bs)"
proof -
  have "deref sp = bs @ drop (length bs) (deref sp)"
    using assms(3) by (metis append_take_drop_id)
  with encodes_opaque [OF assms(1), of "drop (length bs) (deref sp)"]
  have data: "encodes (xdr_opaque (of_nat (length bs))) (deref sp) (deref sp) (enc_opaque bs)"
    by simp
  show ?thesis
    unfolding enc_counted_def
    by (rule encodes_bind [OF encodes_ints(4) data])
      (use handy_le [OF assms(2)] in \<open>simp add: xdr_bytes_def linorder_not_less [symmetric]\<close>)
qed

lemma encodes_string [codec]:
  assumes "cstr b = t" and "length t < 2 ^ 32" and "length t \<le> unat maxsize"
  shows "encodes (xdr_string maxsize) (Some b) (Some b) (enc_counted t)"
proof -
  have "b = t @ drop (length t) b"
    using assms(1) by (metis append_take_drop_id cstr_def takeWhile_eq_take)
  with encodes_opaque [OF assms(2), of "drop (length t) b"]
  have data: "encodes (xdr_opaque (of_nat (length t))) b b (enc_opaque t)"
    by simp
  have "strlen b = length t" using assms(1) by (simp add: strlen_def)
  then show ?thesis
    unfolding enc_counted_def
    by (intro encodes_bind [OF encodes_ints(4) data])
      (use handy_le [OF assms(3)] in \<open>simp add: xdr_string_def Let_def linorder_not_less [symmetric]\<close>)
qed

lemma encodes_union:
  assumes "xdr_choose choices dfault d = Some p" and "encodes p u u' bs"
  shows "encodes (xdr_union choices dfault) (d, u) (d, u') (be32 d @ bs)"
  by (rule encodes_bind [OF encodes_ints(11) assms(2)]) (simp add: xdr_union_def assms(1))

end

section \<open>Decoding\<close>

context xdr_source
begin

lemma decodes_word:
  assumes "\<And>s m. p z (mkXDR XDR_DECODE ops s m) =
    (case x_getlong ops s of
       (None, s') \<Rightarrow> (False, z, mkXDR XDR_DECODE ops s' m)
     | (Some l, s') \<Rightarrow> (True, f l, mkXDR XDR_DECODE ops s' m))"
    and "f w = v"
  shows "decodes p z v (be32 w) 0"
proof (rule decodesI)
  fix s rest m
  assume "ready s (be32 w @ rest)"
  from getlong [OF this] obtain s' where "x_getlong ops s = (Some w, s')" "ready s' rest"
    by blast
  then show "\<exists>s'. p z (mkXDR XDR_DECODE ops s (m + 0)) = (True, v, mkXDR XDR_DECODE ops s' m)
    \<and> ready s' rest"
    by (simp add: assms)
qed

lemma decodes_void [codec]: "decodes xdr_void v v [] 0"
  by (auto intro!: decodesI simp: xdr_void_def)

lemma decodes_ints [codec]:
  "decodes xdr_long z v (be32 v) 0" "decodes xdr_u_long z v (be32 v) 0"
  "decodes xdr_int z v (be32 v) 0" "decodes xdr_u_int z v (be32 v) 0"
  "decodes xdr_int32_t z v (be32 v) 0" "decodes xdr_u_int32_t z v (be32 v) 0"
  "decodes xdr_enum z v (be32 v) 0"
  by (rule decodes_word [where f = "\<lambda>w. w"]; simp add: xdr_access_defs xdr_long_def
      xdr_u_long_def xdr_int_def xdr_u_int_def xdr_int32_t_def xdr_u_int32_t_def xdr_enum_def
      split: prod.splits option.splits)+

lemma decodes_shorts [codec]:
  "decodes xdr_short y h (be32 (scast h)) 0" "decodes xdr_int16_t y h (be32 (scast h)) 0"
  by (rule decodes_word [where f = scast];
      simp add: xdr_access_defs xdr_short_def xdr_int16_t_def split: prod.splits option.splits)+

lemma decodes_u_shorts [codec]:
  "decodes xdr_u_short y h (be32 (ucast h)) 0" "decodes xdr_u_int16_t y h (be32 (ucast h)) 0"
  by (rule decodes_word [where f = ucast];
      simp add: xdr_access_defs xdr_u_short_def xdr_u_int16_t_def split: prod.splits option.splits)+

lemma decodes_chars [codec]:
  "decodes xdr_char y c (be32 (scast c)) 0" "decodes xdr_u_char y c (be32 (ucast c)) 0"
  by (rule decodes_word [where f = scast];
      simp add: xdr_access_defs xdr_char_def xdr_int_def split: prod.splits option.splits)
    (rule decodes_word [where f = ucast];
      simp add: xdr_access_defs xdr_u_char_def xdr_u_int_def split: prod.splits option.splits)

lemma decodes_bool [codec]: "decodes xdr_bool y b (enc_bool b) 0"
  unfolding enc_bool_def
  by (rule decodes_word [where f = "\<lambda>w. w \<noteq> 0"])
    (simp_all add: xdr_access_defs xdr_bool_def split: prod.splits option.splits)

lemma decodes_word_pair:
  assumes "\<And>s m. p z (mkXDR XDR_DECODE ops s m) =
    (case x_getlong ops s of
       (None, s1) \<Rightarrow> (False, z, mkXDR XDR_DECODE ops s1 m)
     | (Some l0, s1) \<Rightarrow>
         (case x_getlong ops s1 of
            (None, s2) \<Rightarrow> (False, z, mkXDR XDR_DECODE ops s2 m)
          | (Some l1, s2) \<Rightarrow> (True, f l0 l1, mkXDR XDR_DECODE ops s2 m)))"
    and "f w0 w1 = v"
  shows "decodes p z v (be32 w0 @ be32 w1) 0"
  by (rule decodes_bind [OF decodes_ints(1) decodes_ints(1)])
    (use assms(2) in \<open>auto simp: assms(1) xdr_long_def xdr_access_defs split: prod.splits option.splits\<close>)

lemma decodes_int64 [codec]:
  "decodes xdr_int64_t y l (enc_u64 l) 0" "decodes xdr_u_int64_t y l (enc_u64 l) 0"
  "decodes xdr_hyper y l (enc_u64 l) 0" "decodes xdr_u_hyper y l (enc_u64 l) 0"
  "decodes xdr_longlong_t y l (enc_u64 l) 0" "decodes xdr_u_longlong_t y l (enc_u64 l) 0"
  unfolding enc_u64_def xdr_hyper_def xdr_u_hyper_def xdr_longlong_t_def xdr_u_longlong_t_def
  by (rule decodes_word_pair [where f = "\<lambda>l0 l1. push_bit 32 (ucast l0) OR ucast l1"];
      simp add: xdr_access_defs xdr_int64_t_def xdr_u_int64_t_def u64_halves
      split: prod.splits option.splits)+

text \<open>The padding is read and dropped, whatever it holds.\<close>

lemma decodes_opaque_pad:
  assumes "length bs < 2 ^ 32" and "length pad = xdr_pad (length bs)"
  shows "decodes (xdr_opaque (of_nat (length bs))) b (store 0 bs b) (bs @ pad) 0"
proof (rule decodesI)
  fix s rest m
  let ?cnt = "of_nat (length bs) :: u32"
  assume ready: "ready s ((bs @ pad) @ rest)"
  then have "ready s (bs @ (pad @ rest))" by simp
  from getbytes [OF this assms(1)] obtain s1 where
    1: "x_getbytes ops ?cnt s = (Some bs, s1)" "ready s1 (pad @ rest)"
    by blast
  have "length pad < 2 ^ 32"
    using xdr_pad_less [of "length bs"] assms(2) by simp
  from getbytes [OF 1(2) this] obtain s2 where
    2: "x_getbytes ops (of_nat (xdr_pad (length bs))) s1 = (Some pad, s2)" "ready s2 rest"
    using assms(2) by auto
  show "\<exists>s'. xdr_opaque ?cnt b (mkXDR XDR_DECODE ops s (m + 0))
      = (True, store 0 bs b, mkXDR XDR_DECODE ops s' m) \<and> ready s' rest"
  proof (cases "bs = []")
    case True
    with ready assms(2) show ?thesis by (simp add: xdr_opaque_def xdr_pad_def)
  next
    case False
    then have nz: "?cnt \<noteq> 0" using of_nat_length_neq_0 [OF assms(1)] by simp
    show ?thesis
    proof (cases "length bs mod 4 = 0")
      case True
      then have "pad = []" using assms(2) by (simp add: xdr_pad_def)
      moreover have "?cnt mod 4 = 0" using cnt_mod4 [OF assms(1)] True by simp
      ultimately show ?thesis
        using 1 nz by (simp add: xdr_opaque_def xdr_access_defs)
    next
      case False
      note r = cnt_rndup [OF assms(1) False]
      show ?thesis
        using 1 2 nz r by (simp add: xdr_opaque_def xdr_access_defs Let_def)
    qed
  qed
qed

lemma decodes_opaque:
  "length bs < 2 ^ 32 \<Longrightarrow>
   decodes (xdr_opaque (of_nat (length bs))) b (store 0 bs b) (enc_opaque bs) 0"
  unfolding enc_opaque_def by (rule decodes_opaque_pad) simp_all

lemma decodes_counted_pad:
  assumes "length bs \<le> unat maxsize" and "length pad = xdr_pad (length bs)"
  shows "decodes (xdr_bytes maxsize) (sp, y) (counted_into sp bs, of_nat (length bs))
    (be32 (of_nat (length bs)) @ bs @ pad) (counted_blocks sp bs)"
proof (cases "bs = []")
  case True
  then have "be32 (of_nat (length bs)) @ bs @ pad = be32 0"
    using assms(2) by (simp add: xdr_pad_def)
  moreover have "decodes (xdr_bytes maxsize) (sp, y) (sp, 0) (be32 0) 0"
    by (rule decodes_via [OF decodes_ints(4) [where z = y]]) (simp add: xdr_bytes_def)
  ultimately show ?thesis
    using True by (cases sp) (simp_all add: counted_into_def counted_blocks_def)
next
  case False
  let ?cnt = "of_nat (length bs) :: u32"
  have len: "length bs < 2 ^ 32"
    using assms(1) unsigned_less [of maxsize, where ?'a = nat] by simp
  then have nz: "?cnt \<noteq> 0" and n: "unat ?cnt = length bs"
    using False of_nat_length_neq_0 [of "length bs"] by (simp_all add: unat_of_nat)
  have le: "\<not> maxsize < ?cnt"
    using handy_le [OF assms(1)] by simp
  show ?thesis
  proof (cases sp)
    case None
    note data = decodes_alloc [OF decodes_opaque_pad [OF len assms(2), of "zeros (length bs)"]]
    have "store 0 bs (zeros (length bs)) = bs"
      by (simp add: store_def zeros_def)
    with None False nz n le show ?thesis
      by (intro decodes_bind [OF decodes_ints(4) [where z = y] data])
        (simp add: xdr_bytes_def counted_into_def counted_blocks_def)
  next
    case (Some b)
    with False nz n le show ?thesis
      by (intro decodes_bind [OF decodes_ints(4) [where z = y] decodes_opaque_pad [OF len assms(2), of b]])
        (simp add: xdr_bytes_def counted_into_def counted_blocks_def)
  qed
qed

lemma decodes_counted [codec]:
  "length bs \<le> unat maxsize \<Longrightarrow> decodes (xdr_bytes maxsize) (sp, y)
     (counted_into sp bs, of_nat (length bs)) (enc_counted bs) (counted_blocks sp bs)"
  unfolding enc_counted_def enc_opaque_def by (rule decodes_counted_pad) simp_all

lemma nodesize_neq_0:
  assumes "length t < 2 ^ 32 - 1"
  shows "of_nat (length t) + (1 :: u32) \<noteq> 0" "unat (of_nat (length t) :: u32) = length t"
    and "unat (of_nat (length t) + (1 :: u32)) = length t + 1"
proof -
  show n: "unat (of_nat (length t) :: u32) = length t"
    using assms by (simp add: unat_of_nat)
  show n1: "unat (of_nat (length t) + (1 :: u32)) = length t + 1"
    using assms n by (subst unat_add_lem [THEN iffD1]) auto
  then show "of_nat (length t) + (1 :: u32) \<noteq> 0" by auto
qed

lemma decodes_string_fresh [codec]:
  assumes "length t < 2 ^ 32 - 1" and "length t \<le> unat maxsize"
  shows "decodes (xdr_string maxsize) None (Some (t @ [0])) (enc_counted t) 1"
proof -
  let ?cnt = "of_nat (length t) :: u32"
  let ?buf = "store (unat ?cnt) [0] (zeros (unat (?cnt + 1)))"
  have "length t < 2 ^ 32" using assms(1) by simp
  note data = decodes_opaque [OF this, of ?buf]
  note n = nodesize_neq_0 [OF assms(1)]
  have "store 0 t ?buf = t @ [0]"
    unfolding n by (simp add: store_def zeros_def)
  with n(1) handy_le [OF assms(2)] show ?thesis
    unfolding enc_counted_def
    by (intro decodes_bind [OF decodes_ints(4) [where z = 0] decodes_alloc [OF data]])
      (simp add: xdr_string_def Let_def linorder_not_less [symmetric])
qed

lemma decodes_string_into [codec]:
  assumes "length t < 2 ^ 32 - 1" and "length t \<le> unat maxsize"
  shows "decodes (xdr_string maxsize) (Some b) (Some (store 0 t (store (length t) [0] b))) (enc_counted t) 0"
proof -
  have "length t < 2 ^ 32" using assms(1) by simp
  note data = decodes_opaque [OF this, of "store (length t) [0] b"]
  from nodesize_neq_0 [OF assms(1)] handy_le [OF assms(2)] show ?thesis
    unfolding enc_counted_def
    by (intro decodes_bind [OF decodes_ints(4) [where z = 0] data])
      (simp add: xdr_string_def Let_def linorder_not_less [symmetric])
qed

lemma decodes_union:
  assumes "xdr_choose choices dfault d = Some p" and "decodes p u u' bs k"
  shows "decodes (xdr_union choices dfault) (y, u) (d, u') (be32 d @ bs) k"
  by (rule decodes_bind [OF decodes_ints(7) [where z = y] assms(2)]) (simp add: xdr_union_def assms(1))

end

end
