(* ===== verification/Xdr_Compound.thy ===== *)
theory Xdr_Compound
  imports Xdr_Prim
begin

text \<open>
  \<open>libsrc/xdr_array.c\<close>, \<open>libsrc/xdr_reference.c\<close> and the loop with which \<open>libsrc/rpcb_prot.c\<close> and
  \<open>libsrc/pmap_prot2.c\<close> translate linked lists without recursion. An array is the list of its
  elements, a pointer is an \<open>option\<close>, a linked list is the list of its nodes. The facts about the
  filters are proved for every element filter that has its own \<open>encodes\<close>, \<open>decodes\<close> and \<open>frees\<close>.
\<close>

section \<open>Arrays\<close>

text \<open>
  The element loop. A C array shorter than the count would be overrun; the model then fails, and
  no theorem is about that case.
\<close>

fun xdr_elems :: "('s, 'a) xdrproc \<Rightarrow> nat \<Rightarrow> ('s, 'a list) xdrproc" where
  "xdr_elems p 0 ts x = (True, ts, x)"
| "xdr_elems p (Suc n) [] x = (False, [], x)"
| "xdr_elems p (Suc n) (t # ts) x =
     (case p t x of (ok, t', x') \<Rightarrow>
        if ok then (case xdr_elems p n ts x' of (ok', ts', x'') \<Rightarrow> (ok', t' # ts', x''))
        else (False, t' # ts, x'))"

text \<open>
  The object is the pair of \<open>*addrp\<close> and \<open>*sizep\<close>. \<open>zero\<close> is an element after \<open>memset(target, 0,
  nodesize)\<close>; \<open>4294967295\<close> is \<open>UINT_MAX\<close>.
\<close>

definition xdr_array :: "('s, 'a) xdrproc \<Rightarrow> 'a \<Rightarrow> u32 \<Rightarrow> u32 \<Rightarrow> ('s, 'a list option \<times> u32) xdrproc" where
  "xdr_array elproc zero maxsize elsize obj x =
     (case obj of (target, size0) \<Rightarrow>
      case xdr_u_int size0 x of (ok, c, x1) \<Rightarrow>
      if \<not> ok then (False, (target, c), x1)
      else if (c > maxsize \<or> 4294967295 div elsize < c) \<and> x_op x \<noteq> XDR_FREE
      then (False, (target, c), x1)
      else case target of
        Some ts \<Rightarrow>
          (case xdr_elems elproc (unat c) ts x1 of (stat, ts', x2) \<Rightarrow>
             if x_op x = XDR_FREE then (stat, (None, c), mem_free x2)
             else (stat, (Some ts', c), x2))
      | None \<Rightarrow>
          (case x_op x of
             XDR_DECODE \<Rightarrow>
               (if c = 0 then (True, (None, c), x1)
                else case mem_alloc x1 of (ok, x2) \<Rightarrow>
                  if \<not> ok then (False, (None, c), x2)
                  else case xdr_elems elproc (unat c) (replicate (unat c) zero) x2 of
                    (stat, ts', x3) \<Rightarrow> (stat, (Some ts', c), x3))
           | XDR_FREE \<Rightarrow> (True, (None, c), x1)
           | XDR_ENCODE \<Rightarrow> (case xdr_elems elproc (unat c) [] x1 of (stat, _, x2) \<Rightarrow> (stat, (None, c), x2))))"

definition xdr_vector :: "('s, 'a) xdrproc \<Rightarrow> nat \<Rightarrow> ('s, 'a list) xdrproc" where
  "xdr_vector xdr_elem nelem = xdr_elems xdr_elem nelem"

section \<open>Pointers\<close>

text \<open>
  \<open>zero\<close> is the object after \<open>memset(loc, 0, size)\<close>. Encoding through \<open>NULL\<close> is undefined in C;
  the model then fails, and no theorem is about that case.
\<close>

definition xdr_reference :: "('s, 'a) xdrproc \<Rightarrow> 'a \<Rightarrow> ('s, 'a option) xdrproc" where
  "xdr_reference proc zero pp x =
     (case pp of
        None \<Rightarrow>
          (case x_op x of
             XDR_FREE \<Rightarrow> (True, None, x)
           | XDR_DECODE \<Rightarrow>
               (case mem_alloc x of (ok, x1) \<Rightarrow>
                  if \<not> ok then (False, None, x1)
                  else case proc zero x1 of (stat, loc, x2) \<Rightarrow> (stat, Some loc, x2))
           | XDR_ENCODE \<Rightarrow> (False, None, x))
      | Some loc \<Rightarrow>
          (case proc loc x of (stat, loc', x1) \<Rightarrow>
             if x_op x = XDR_FREE then (stat, None, mem_free x1) else (stat, Some loc', x1)))"

definition xdr_pointer :: "('s, 'a) xdrproc \<Rightarrow> 'a \<Rightarrow> ('s, 'a option) xdrproc" where
  "xdr_pointer xdr_obj zero objpp x =
     (case xdr_bool (objpp \<noteq> None) x of (ok, more_data, x1) \<Rightarrow>
      if \<not> ok then (False, objpp, x1)
      else if \<not> more_data then (True, None, x1)
      else xdr_reference xdr_obj zero objpp x1)"

section \<open>Linked lists\<close>

text \<open>
  One pass of the loop per node. \<open>nxt\<close> is what the walk finds behind the pointer it follows after
  the node has been freed: the tail itself where the code saved it before (\<open>rpcb_prot.c\<close>), whatever
  the freed memory reads as where it did not (\<open>pmap_prot2.c\<close>). When decoding, the loop goes on as
  long as the stream says so and the heap has room for a node, so the fuel is the number of nodes
  there are plus the blocks that are left; \<open>xdr_list_fuel\<close> below is that it is enough.
\<close>

fun xdr_list_loop :: "('a list \<Rightarrow> 'a list) \<Rightarrow> ('s, 'a) xdrproc \<Rightarrow> 'a \<Rightarrow> nat \<Rightarrow> ('s, 'a list) xdrproc" where
  "xdr_list_loop nxt proc zero 0 rp x = (False, rp, x)"
| "xdr_list_loop nxt proc zero (Suc fuel) rp x =
     (case xdr_bool (rp \<noteq> []) x of (ok, more_elements, x1) \<Rightarrow>
      if \<not> ok then (False, rp, x1)
      else if \<not> more_elements then (True, rp, x1)
      else case xdr_reference proc zero (if rp = [] then None else Some (hd rp)) x1 of
        (ok, None, x2) \<Rightarrow>
          if \<not> ok then (False, [], x2)
          else (case xdr_list_loop nxt proc zero fuel (nxt (tl rp)) x2 of (r, _, x3) \<Rightarrow> (r, [], x3))
      | (ok, Some node, x2) \<Rightarrow>
          if \<not> ok then (False, node # tl rp, x2)
          else (case xdr_list_loop nxt proc zero fuel (tl rp) x2 of (r, rest, x3) \<Rightarrow> (r, node # rest, x3)))"

definition xdr_list :: "('a list \<Rightarrow> 'a list) \<Rightarrow> ('s, 'a) xdrproc \<Rightarrow> 'a \<Rightarrow> ('s, 'a list) xdrproc" where
  "xdr_list nxt proc zero rp x =
     xdr_list_loop nxt proc zero (Suc (length rp + x_mem x)) rp x"

section \<open>What they encode\<close>

definition enc_seq :: "('a \<Rightarrow> byte list) \<Rightarrow> 'a list \<Rightarrow> byte list" where
  "enc_seq enc ts = concat (map enc ts)"

lemma enc_seq_simps [simp]:
  "enc_seq enc [] = []" "enc_seq enc (t # ts) = enc t @ enc_seq enc ts"
  by (simp_all add: enc_seq_def)

definition enc_array :: "('a \<Rightarrow> byte list) \<Rightarrow> 'a list \<Rightarrow> byte list" where
  "enc_array enc ts = be32 (of_nat (length ts)) @ enc_seq enc ts"

fun enc_pointer :: "('a \<Rightarrow> byte list) \<Rightarrow> 'a option \<Rightarrow> byte list" where
  "enc_pointer enc None = enc_bool False"
| "enc_pointer enc (Some t) = enc_bool True @ enc t"

fun enc_list :: "('a \<Rightarrow> byte list) \<Rightarrow> 'a list \<Rightarrow> byte list" where
  "enc_list enc [] = enc_bool False"
| "enc_list enc (t # ts) = enc_bool True @ enc t @ enc_list enc ts"

context xdr_sink
begin

lemma encodes_elems [codec]:
  assumes "\<And>t. t \<in> set ts \<Longrightarrow> encodes p t t (enc t)"
  shows "encodes (xdr_elems p (length ts)) ts ts (enc_seq enc ts)"
  using assms
proof (induction ts)
  case Nil
  show ?case by (simp add: encodes_nothing)
next
  case (Cons t ts)
  then have "encodes p t t (enc t)" "encodes (xdr_elems p (length ts)) ts ts (enc_seq enc ts)"
    by auto
  then show ?case
    unfolding enc_seq_simps by (rule encodes_bind) simp
qed

lemma encodes_vector [codec]:
  assumes "n = length ts" and "\<And>t. t \<in> set ts \<Longrightarrow> encodes p t t (enc t)"
  shows "encodes (xdr_vector p n) ts ts (enc_seq enc ts)"
  using encodes_elems [of ts p enc] assms by (simp add: xdr_vector_def)

lemma encodes_array [codec]:
  assumes "length ts \<le> unat maxsize" and "length ts \<le> unat (4294967295 div elsize)"
    and "\<And>t. t \<in> set ts \<Longrightarrow> encodes p t t (enc t)"
  shows "encodes (xdr_array p zero maxsize elsize) (Some ts, of_nat (length ts))
    (Some ts, of_nat (length ts)) (enc_array enc ts)"
proof -
  have "unat (of_nat (length ts) :: u32) = length ts" using assms(1) by (rule le_unat_uoi)
  then show ?thesis
    unfolding enc_array_def
    by (intro encodes_bind [OF encodes_ints(4) encodes_elems [OF assms(3)]])
      (use handy_le [OF assms(1)] handy_le [OF assms(2)] in
        \<open>simp_all add: xdr_array_def linorder_not_less [symmetric]\<close>)
qed

lemma encodes_reference [codec]:
  "encodes p t t' bs \<Longrightarrow> encodes (xdr_reference p zero) (Some t) (Some t') bs"
  by (erule encodes_via) (simp add: xdr_reference_def)

lemma encodes_pointer_None [codec]: "encodes (xdr_pointer p zero) None None (enc_bool False)"
  by (rule encodes_via [OF encodes_bool]) (simp add: xdr_pointer_def)

lemma encodes_pointer_Some [codec]:
  "encodes p t t' bs \<Longrightarrow> encodes (xdr_pointer p zero) (Some t) (Some t') (enc_bool True @ bs)"
  by (rule encodes_bind [OF encodes_bool encodes_reference]) (auto simp: xdr_pointer_def)

lemma encodes_list_loop:
  assumes "\<And>t. t \<in> set ts \<Longrightarrow> encodes p t t (enc t)" and "length ts < fuel"
  shows "encodes (xdr_list_loop nxt p zero fuel) ts ts (enc_list enc ts)"
  using assms
proof (induction ts arbitrary: fuel)
  case Nil
  then obtain k where k: "fuel = Suc k" by (cases fuel) auto
  show ?case
    unfolding k enc_list.simps by (rule encodes_via [OF encodes_bool]) simp
next
  case (Cons t ts)
  then obtain k where k: "fuel = Suc k" "length ts < k" by (cases fuel) auto
  then have rest: "encodes (xdr_list_loop nxt p zero k) ts ts (enc_list enc ts)"
    using Cons.IH Cons.prems(1) by simp
  have "encodes (xdr_reference p zero) (Some t) (Some t) (enc t)"
    using Cons.prems(1) by (intro encodes_reference) simp
  then show ?case
    unfolding k(1) enc_list.simps by (rule encodes_bind3 [OF encodes_bool _ rest]) simp
qed

lemma encodes_list [codec]:
  assumes "\<And>t. t \<in> set ts \<Longrightarrow> encodes p t t (enc t)"
  shows "encodes (xdr_list nxt p zero) ts ts (enc_list enc ts)"
proof (rule encodesI)
  fix s n m
  assume fits: "fits s (length (enc_list enc ts) + n)"
  have "encodes (xdr_list_loop nxt p zero (Suc (length ts + m))) ts ts (enc_list enc ts)"
    using assms by (rule encodes_list_loop) auto
  from encodesE [OF this fits, where m = m]
  show "\<exists>s'. xdr_list nxt p zero ts (mkXDR XDR_ENCODE ops s m) = (True, ts, mkXDR XDR_ENCODE ops s' m)
      \<and> wrote s (enc_list enc ts) s' \<and> fits s' n"
    by (simp add: xdr_list_def del: xdr_list_loop.simps) metis
qed

end

section \<open>What they decode\<close>

text \<open>\<open>blocks\<close>: the heap blocks one element takes beside the node it lies in.\<close>

definition node_blocks :: "('a \<Rightarrow> nat) \<Rightarrow> 'a list \<Rightarrow> nat" where
  "node_blocks blocks ts = sum_list (map (\<lambda>t. Suc (blocks t)) ts)"

lemma node_blocks_simps [simp]:
  "node_blocks blocks [] = 0" "node_blocks blocks (t # ts) = Suc (blocks t + node_blocks blocks ts)"
  by (simp_all add: node_blocks_def)

lemma length_le_node_blocks: "length ts \<le> node_blocks blocks ts"
  by (induction ts) simp_all

context xdr_source
begin

lemma decodes_elems [codec]:
  assumes "length zs = length ts"
    and "\<And>z t. z \<in> set zs \<Longrightarrow> t \<in> set ts \<Longrightarrow> decodes p z t (enc t) (blocks t)"
  shows "decodes (xdr_elems p (length ts)) zs ts (enc_seq enc ts) (sum_list (map blocks ts))"
  using assms
proof (induction zs ts rule: list_induct2)
  case Nil
  show ?case by (simp add: decodes_nothing)
next
  case (Cons z zs t ts)
  then have "decodes p z t (enc t) (blocks t)"
    "decodes (xdr_elems p (length ts)) zs ts (enc_seq enc ts) (sum_list (map blocks ts))"
    by auto
  then show ?case
    unfolding enc_seq_simps by (rule decodes_bind) (simp add: ac_simps)
qed

lemma decodes_vector [codec]:
  assumes "n = length ts" and "length zs = length ts"
    and "\<And>z t. z \<in> set zs \<Longrightarrow> t \<in> set ts \<Longrightarrow> decodes p z t (enc t) (blocks t)"
  shows "decodes (xdr_vector p n) zs ts (enc_seq enc ts) (sum_list (map blocks ts))"
  using decodes_elems [of zs ts p enc blocks] assms by (simp add: xdr_vector_def)

lemma decodes_array_empty [codec]:
  "decodes (xdr_array p zero maxsize elsize) (None, y) (None, 0) (enc_array enc []) 0"
proof -
  have "enc_array enc [] = be32 0" by (simp add: enc_array_def)
  then show ?thesis
    by (simp only:) (rule decodes_via [OF decodes_ints(4) [where z = y]]; simp add: xdr_array_def)
qed

lemma decodes_array [codec]:
  assumes "ts \<noteq> []" and "length ts \<le> unat maxsize" and "length ts \<le> unat (4294967295 div elsize)"
    and "\<And>t. t \<in> set ts \<Longrightarrow> decodes p zero t (enc t) (blocks t)"
  shows "decodes (xdr_array p zero maxsize elsize) (None, y) (Some ts, of_nat (length ts))
    (enc_array enc ts) (Suc (sum_list (map blocks ts)))"
proof -
  let ?c = "of_nat (length ts) :: u32"
  have n: "unat ?c = length ts" using assms(2) by (rule le_unat_uoi)
  then have "?c \<noteq> 0" using assms(1) by auto
  moreover have elems: "decodes (xdr_elems p (length ts)) (replicate (length ts) zero) ts (enc_seq enc ts)
      (sum_list (map blocks ts))"
    by (rule decodes_elems) (use assms(4) in auto)
  ultimately show ?thesis
    unfolding enc_array_def
    by (intro decodes_bind [OF decodes_ints(4) [where z = y] decodes_alloc [OF elems]])
      (use handy_le [OF assms(2)] handy_le [OF assms(3)] n in
        \<open>simp add: xdr_array_def linorder_not_less [symmetric]\<close>)
qed

lemma decodes_reference_None [codec]:
  "decodes p zero t bs k \<Longrightarrow> decodes (xdr_reference p zero) None (Some t) bs (Suc k)"
  by (rule decodes_via [OF decodes_alloc [of p zero]]) (auto simp: xdr_reference_def)

lemma decodes_reference_Some [codec]:
  "decodes p z t bs k \<Longrightarrow> decodes (xdr_reference p zero) (Some z) (Some t) bs k"
  by (erule decodes_via) (simp add: xdr_reference_def)

lemma decodes_pointer_None [codec]: "decodes (xdr_pointer p zero) pp None (enc_bool False) 0"
  by (rule decodes_via [OF decodes_bool [where y = "pp \<noteq> None"]]) (simp add: xdr_pointer_def)

lemma decodes_pointer_Some [codec]:
  "decodes p zero t bs k \<Longrightarrow> decodes (xdr_pointer p zero) None (Some t) (enc_bool True @ bs) (Suc k)"
  by (rule decodes_bind [OF decodes_bool [where y = False] decodes_reference_None])
    (auto simp: xdr_pointer_def)

lemma decodes_list_loop:
  assumes "\<And>t. t \<in> set ts \<Longrightarrow> decodes p zero t (enc t) (blocks t)" and "length ts < fuel"
  shows "decodes (xdr_list_loop nxt p zero fuel) [] ts (enc_list enc ts) (node_blocks blocks ts)"
  using assms
proof (induction ts arbitrary: fuel)
  case Nil
  then obtain k where k: "fuel = Suc k" by (cases fuel) auto
  show ?case
    unfolding k enc_list.simps
    by (rule decodes_via [OF decodes_bool [where y = False]]) simp
next
  case (Cons t ts)
  then obtain k where k: "fuel = Suc k" "length ts < k" by (cases fuel) auto
  then have rest: "decodes (xdr_list_loop nxt p zero k) [] ts (enc_list enc ts) (node_blocks blocks ts)"
    using Cons.IH Cons.prems(1) by simp
  have "decodes (xdr_reference p zero) None (Some t) (enc t) (Suc (blocks t))"
    using Cons.prems(1) by (intro decodes_reference_None) simp
  then show ?case
    unfolding k(1) enc_list.simps
    by (rule decodes_bind3 [OF decodes_bool [where y = False] _ rest]) (simp add: ac_simps)
qed

lemma decodes_list [codec]:
  assumes "\<And>t. t \<in> set ts \<Longrightarrow> decodes p zero t (enc t) (blocks t)"
  shows "decodes (xdr_list nxt p zero) [] ts (enc_list enc ts) (node_blocks blocks ts)"
proof (rule decodesI)
  fix s rest m
  assume ready: "ready s (enc_list enc ts @ rest)"
  have "length ts < Suc (m + node_blocks blocks ts)"
    using length_le_node_blocks [of ts blocks] by simp
  with assms have "decodes (xdr_list_loop nxt p zero (Suc (m + node_blocks blocks ts))) [] ts
      (enc_list enc ts) (node_blocks blocks ts)"
    by (rule decodes_list_loop)
  from decodesE [OF this ready, where m = m]
  show "\<exists>s'. xdr_list nxt p zero [] (mkXDR XDR_DECODE ops s (m + node_blocks blocks ts))
      = (True, ts, mkXDR XDR_DECODE ops s' m) \<and> ready s' rest"
    by (simp add: xdr_list_def del: xdr_list_loop.simps) metis
qed

end

section \<open>What they free\<close>

lemma frees_elems [codec]:
  assumes "\<And>t. t \<in> set ts \<Longrightarrow> frees p t (z t) (blocks t)"
  shows "frees (xdr_elems p (length ts)) ts (map z ts) (sum_list (map blocks ts))"
  using assms
proof (induction ts)
  case (Cons t ts)
  then have "frees p t (z t) (blocks t)" "frees (xdr_elems p (length ts)) ts (map z ts) (sum_list (map blocks ts))"
    by auto
  then show ?case by (simp add: frees_def add.assoc)
qed (simp add: frees_def)

lemma frees_array_None [codec]: "frees (xdr_array p zero maxsize elsize) (None, n) (None, n) 0"
  by (simp add: frees_def xdr_array_def xdr_u_int_def)

lemma frees_array [codec]:
  assumes "length ts < 2 ^ 32" and "\<And>t. t \<in> set ts \<Longrightarrow> frees p t (z t) (blocks t)"
  shows "frees (xdr_array p zero maxsize elsize) (Some ts, of_nat (length ts))
    (None, of_nat (length ts)) (Suc (sum_list (map blocks ts)))"
  using frees_elems [of ts p z blocks] assms
  by (simp add: frees_def xdr_array_def xdr_u_int_def unat_of_nat mem_free_def)

lemma frees_reference_None [codec]: "frees (xdr_reference p zero) None None 0"
  by (simp add: frees_def xdr_reference_def)

lemma frees_reference [codec]: "frees p t z k \<Longrightarrow> frees (xdr_reference p zero) (Some t) None (Suc k)"
  by (simp add: frees_def xdr_reference_def mem_free_def)

lemma frees_pointer_None [codec]: "frees (xdr_pointer p zero) None None 0"
  by (simp add: frees_def xdr_pointer_def xdr_bool_def)

lemma frees_pointer [codec]: "frees p t z k \<Longrightarrow> frees (xdr_pointer p zero) (Some t) None (Suc k)"
  by (simp add: frees_def xdr_pointer_def xdr_bool_def xdr_reference_def mem_free_def)

lemma frees_list_loop:
  assumes "\<And>t. t \<in> set ts \<Longrightarrow> frees p t (z t) (blocks t)" and "length ts < fuel"
  shows "frees (xdr_list_loop (\<lambda>r. r) p zero fuel) ts [] (node_blocks blocks ts)"
  using assms
proof (induction ts arbitrary: fuel)
  case Nil
  then show ?case by (cases fuel) (auto simp: frees_def xdr_bool_def)
next
  case (Cons t ts)
  then obtain k where k: "fuel = Suc k" "length ts < k" by (cases fuel) auto
  then have "frees (xdr_list_loop (\<lambda>r. r) p zero k) ts [] (node_blocks blocks ts)"
    using Cons by simp
  moreover have "frees (xdr_reference p zero) (Some t) None (Suc (blocks t))"
    using Cons.prems(1) [of t] by (intro frees_reference) simp
  ultimately show ?case
    by (simp add: frees_def k(1) xdr_bool_def add.assoc)
qed

lemma frees_list [codec]:
  assumes "\<And>t. t \<in> set ts \<Longrightarrow> frees p t (z t) (blocks t)"
  shows "frees (xdr_list (\<lambda>r. r) p zero) ts [] (node_blocks blocks ts)"
proof -
  have "frees (xdr_list_loop (\<lambda>r. r) p zero (Suc (length ts + m))) ts [] (node_blocks blocks ts)" for m
    using assms by (rule frees_list_loop) auto
  then show ?thesis
    by (simp add: frees_def xdr_list_def del: xdr_list_loop.simps)
qed

section \<open>The fuel of the list loop\<close>

text \<open>
  An element filter that leaves the operation alone and does not enlarge the heap while decoding;
  then the loop has come to its end before the fuel of \<open>xdr_list\<close> has, whatever the stream says.
\<close>

definition keeps_heap :: "('s, 'a) xdrproc \<Rightarrow> bool" where
  "keeps_heap p \<longleftrightarrow>
     (\<forall>t x. case p t x of (_, _, x') \<Rightarrow>
        x_op x' = x_op x \<and> (x_op x = XDR_DECODE \<longrightarrow> x_mem x' \<le> x_mem x))"

lemma keeps_heapD:
  assumes "keeps_heap p" and "p t x = (r, t', x')"
  shows "x_op x' = x_op x \<and> (x_op x = XDR_DECODE \<longrightarrow> x_mem x' \<le> x_mem x)"
proof -
  have "case p t x of (_, _, x') \<Rightarrow> x_op x' = x_op x \<and> (x_op x = XDR_DECODE \<longrightarrow> x_mem x' \<le> x_mem x)"
    using assms(1) by (simp add: keeps_heap_def)
  with assms(2) show ?thesis by simp
qed

lemma xdr_bool_keeps: "xdr_bool b x = (r, b', x') \<Longrightarrow> x_op x' = x_op x \<and> x_mem x' = x_mem x"
  by (auto simp: xdr_bool_def XDR_GETLONG_def XDR_PUTLONG_def
      split: xdr_op.splits prod.splits option.splits)

lemma xdr_bool_encode_False: "x_op x \<noteq> XDR_DECODE \<Longrightarrow> xdr_bool b x = (r, b', x') \<Longrightarrow> b' = b"
  by (auto simp: xdr_bool_def split: xdr_op.splits prod.splits)

definition list_measure :: "'a list \<Rightarrow> 's XDR \<Rightarrow> nat" where
  "list_measure rp x = length rp + (if x_op x = XDR_DECODE then x_mem x else 0)"

lemma xdr_reference_decreases:
  assumes "keeps_heap p" and "xdr_bool (rp \<noteq> []) x = (True, True, x1)"
    and "xdr_reference p zero (if rp = [] then None else Some (hd rp)) x1 = (True, node, x2)"
  shows "case node of
      None \<Rightarrow> length (nxt (tl rp)) \<le> length (tl rp) \<longrightarrow> list_measure (nxt (tl rp)) x2 < list_measure rp x
    | Some t \<Rightarrow> list_measure (tl rp) x2 < list_measure rp x"
proof (cases rp)
  case Nil
  have op: "x_op x = XDR_DECODE"
    using xdr_bool_encode_False [OF _ assms(2)] Nil by auto
  then have x1: "x_op x1 = XDR_DECODE" "x_mem x1 = x_mem x"
    using xdr_bool_keeps [OF assms(2)] by simp_all
  with assms(3) Nil obtain t where
    t: "p zero (x1\<lparr>x_mem := x_mem x1 - 1\<rparr>) = (True, t, x2)" "node = Some t" "x_mem x1 \<noteq> 0"
    by (auto simp: xdr_reference_def mem_alloc_def split: prod.splits if_splits)
  with keeps_heapD [OF assms(1) t(1)] x1 Nil op show ?thesis
    by (auto simp: list_measure_def)
next
  case (Cons t ts)
  note x1 = xdr_bool_keeps [OF assms(2)]
  obtain r t' x' where p: "p t x1 = (r, t', x')" by (cases "p t x1")
  note x' = keeps_heapD [OF assms(1) p]
  have "(node = Some t' \<and> x2 = x' \<and> x_op x2 \<noteq> XDR_FREE) \<or>
      (node = None \<and> x2 = mem_free x' \<and> x_op x2 = XDR_FREE)"
    using assms(3) Cons p x' by (auto simp: xdr_reference_def mem_free_def split: if_splits)
  with x1 x' Cons show ?thesis
    by (auto simp: list_measure_def)
qed

lemma xdr_list_fuel:
  assumes "keeps_heap p" and "\<And>r. length (nxt r) \<le> length r"
    and "list_measure rp x < fuel" and "fuel \<le> fuel'"
  shows "xdr_list_loop nxt p zero fuel' rp x = xdr_list_loop nxt p zero fuel rp x"
  using assms(3,4)
proof (induction fuel arbitrary: fuel' rp x)
  case (Suc fuel)
  then obtain k where k: "fuel' = Suc k" "fuel \<le> k" by (cases fuel') auto
  have step: "xdr_list_loop nxt p zero k rp' x' = xdr_list_loop nxt p zero fuel rp' x'"
    if "list_measure rp' x' < list_measure rp x" for rp' x'
    using Suc.IH [OF _ k(2), of rp' x'] that Suc.prems(1) by simp
  obtain ok more x1 where b: "xdr_bool (rp \<noteq> []) x = (ok, more, x1)"
    by (cases "xdr_bool (rp \<noteq> []) x")
  obtain ok' node x2 where
    r: "xdr_reference p zero (if rp = [] then None else Some (hd rp)) x1 = (ok', node, x2)"
    by (cases "xdr_reference p zero (if rp = [] then None else Some (hd rp)) x1")
  show ?case
  proof (cases "ok \<and> more \<and> ok'")
    case True
    with xdr_reference_decreases [OF assms(1), of rp x x1 zero node x2 nxt] b r
        assms(2) [of "tl rp"]
    have "case node of
        None \<Rightarrow> list_measure (nxt (tl rp)) x2 < list_measure rp x
      | Some t \<Rightarrow> list_measure (tl rp) x2 < list_measure rp x"
      by (simp split: option.splits)
    then show ?thesis
      unfolding k(1) xdr_list_loop.simps b prod.case r by (cases node) (simp_all add: step)
  next
    case False
    then show ?thesis
      unfolding k(1) xdr_list_loop.simps b prod.case r by (cases node) auto
  qed
qed simp

lemma xdr_list_fuel_enough:
  assumes "keeps_heap p" and "\<And>r. length (nxt r) \<le> length r" and "Suc (length rp + x_mem x) \<le> fuel"
  shows "xdr_list nxt p zero rp x = xdr_list_loop nxt p zero fuel rp x"
  unfolding xdr_list_def
  by (rule xdr_list_fuel [OF assms(1,2) _ assms(3), symmetric]) (simp add: list_measure_def)

end
