(* ===== verification/Xdr_Mem.thy ===== *)
theory Xdr_Mem
  imports Xdr_Compound
begin

text \<open>
  \<open>libsrc/xdr_mem.c\<close>: XDR streams over a memory buffer. The private state is the block of memory
  at \<open>x_base\<close>, the address \<open>x_private\<close> of the next byte and the count \<open>x_handy\<close> of bytes left, at
  their C widths. The main fact is that both operation vectors are interpretations of
  \<open>xdr_stream\<close>, and that no operation but \<open>xdrmem_setpos\<close> can leave the buffer.
\<close>

section \<open>State and operations\<close>

record xdr_mem =
  xm_base :: u64
  xm_priv :: u64
  xm_handy :: u32
  xm_buf :: "byte list"

definition xm_off :: "xdr_mem \<Rightarrow> nat" where
  "xm_off s = unat (xm_priv s - xm_base s)"

definition xdrmem_getlong_aligned :: "xdr_mem \<Rightarrow> u32 option \<times> xdr_mem" where
  "xdrmem_getlong_aligned s =
     (if xm_handy s < 4 then (None, s)
      else (Some (of_be32 (load (xm_off s) 4 (xm_buf s))),
            s\<lparr>xm_handy := xm_handy s - 4, xm_priv := xm_priv s + 4\<rparr>))"

definition xdrmem_putlong_aligned :: "u32 \<Rightarrow> xdr_mem \<Rightarrow> bool \<times> xdr_mem" where
  "xdrmem_putlong_aligned w s =
     (if xm_handy s < 4 then (False, s)
      else (True, s\<lparr>xm_handy := xm_handy s - 4,
                    xm_buf := store (xm_off s) (be32 w) (xm_buf s),
                    xm_priv := xm_priv s + 4\<rparr>))"

text \<open>The unaligned variants go through a local word and \<open>memmove\<close>.\<close>

definition xdrmem_getlong_unaligned :: "xdr_mem \<Rightarrow> u32 option \<times> xdr_mem" where
  "xdrmem_getlong_unaligned s =
     (if xm_handy s < 4 then (None, s)
      else let l = load (xm_off s) 4 (xm_buf s)
           in (Some (of_be32 l), s\<lparr>xm_handy := xm_handy s - 4, xm_priv := xm_priv s + 4\<rparr>))"

definition xdrmem_putlong_unaligned :: "u32 \<Rightarrow> xdr_mem \<Rightarrow> bool \<times> xdr_mem" where
  "xdrmem_putlong_unaligned w s =
     (if xm_handy s < 4 then (False, s)
      else let l = be32 w
           in (True, s\<lparr>xm_handy := xm_handy s - 4,
                       xm_buf := store (xm_off s) l (xm_buf s),
                       xm_priv := xm_priv s + 4\<rparr>))"

definition xdrmem_getbytes :: "u32 \<Rightarrow> xdr_mem \<Rightarrow> byte list option \<times> xdr_mem" where
  "xdrmem_getbytes len s =
     (if xm_handy s < len then (None, s)
      else (Some (load (xm_off s) (unat len) (xm_buf s)),
            s\<lparr>xm_handy := xm_handy s - len, xm_priv := xm_priv s + ucast len\<rparr>))"

definition xdrmem_putbytes :: "byte list \<Rightarrow> xdr_mem \<Rightarrow> bool \<times> xdr_mem" where
  "xdrmem_putbytes bs s =
     (let len = of_nat (length bs) :: u32 in
      if xm_handy s < len then (False, s)
      else (True, s\<lparr>xm_handy := xm_handy s - len,
                    xm_buf := store (xm_off s) bs (xm_buf s),
                    xm_priv := xm_priv s + ucast len\<rparr>))"

text \<open>\<open>(u_int)((u_long)x_private - (u_long)x_base)\<close>, with a 32-bit \<open>u_long\<close>.\<close>

definition xdrmem_getpos :: "xdr_mem \<Rightarrow> u32" where
  "xdrmem_getpos s = ucast (xm_priv s) - ucast (xm_base s)"

text \<open>The addresses are compared, and their difference is taken, as 32-bit \<open>long\<close>s.\<close>

definition xdrmem_setpos :: "u32 \<Rightarrow> xdr_mem \<Rightarrow> bool \<times> xdr_mem" where
  "xdrmem_setpos pos s =
     (let newaddr = xm_base s + ucast pos;
          lastaddr = xm_priv s + ucast (xm_handy s)
      in if sint (ucast newaddr :: u32) > sint (ucast lastaddr :: u32) then (False, s)
         else (True, s\<lparr>xm_priv := newaddr, xm_handy := ucast lastaddr - ucast newaddr\<rparr>))"

definition xdrmem_inline_aligned :: "u32 \<Rightarrow> xdr_mem \<Rightarrow> nat option \<times> xdr_mem" where
  "xdrmem_inline_aligned len s =
     (if xm_handy s \<ge> len
      then (Some (xm_off s), s\<lparr>xm_handy := xm_handy s - len, xm_priv := xm_priv s + ucast len\<rparr>)
      else (None, s))"

definition xdrmem_inline_unaligned :: "u32 \<Rightarrow> xdr_mem \<Rightarrow> nat option \<times> xdr_mem" where
  "xdrmem_inline_unaligned len s = (None, s)"

text \<open>\<open>XDR_GET_BYTES_AVAIL\<close> is the one request known: (is the last record, bytes available).\<close>

definition xdrmem_control :: "u32 \<Rightarrow> xdr_mem \<Rightarrow> (bool \<times> u32) option" where
  "xdrmem_control request s = (if request = 1 then Some (True, xm_handy s) else None)"

definition xdrmem_ops_aligned :: "xdr_mem xdr_ops" where
  "xdrmem_ops_aligned =
     \<lparr>x_getlong = xdrmem_getlong_aligned, x_putlong = xdrmem_putlong_aligned,
      x_getbytes = xdrmem_getbytes, x_putbytes = xdrmem_putbytes,
      x_getpostn = (\<lambda>_. xdrmem_getpos), x_setpostn = (\<lambda>_. xdrmem_setpos),
      x_inline = (\<lambda>_. xdrmem_inline_aligned),
      x_load = (\<lambda>_ p n s. load p n (xm_buf s)),
      x_store = (\<lambda>p bs s. s\<lparr>xm_buf := store p bs (xm_buf s)\<rparr>)\<rparr>"

definition xdrmem_ops_unaligned :: "xdr_mem xdr_ops" where
  "xdrmem_ops_unaligned =
     \<lparr>x_getlong = xdrmem_getlong_unaligned, x_putlong = xdrmem_putlong_unaligned,
      x_getbytes = xdrmem_getbytes, x_putbytes = xdrmem_putbytes,
      x_getpostn = (\<lambda>_. xdrmem_getpos), x_setpostn = (\<lambda>_. xdrmem_setpos),
      x_inline = (\<lambda>_. xdrmem_inline_unaligned),
      x_load = (\<lambda>_ p n s. load p n (xm_buf s)),
      x_store = (\<lambda>p bs s. s\<lparr>xm_buf := store p bs (xm_buf s)\<rparr>)\<rparr>"

text \<open>\<open>xdrmem_create(xdrs, addr, size, op)\<close> on the memory \<open>buf\<close> that lies at \<open>addr\<close>.\<close>

definition xdrmem_create :: "u64 \<Rightarrow> byte list \<Rightarrow> u32 \<Rightarrow> xdr_op \<Rightarrow> nat \<Rightarrow> xdr_mem XDR" where
  "xdrmem_create addr buf sz op m =
     \<lparr>x_op = op,
      x_ops = (if (ucast addr :: u32) AND 3 \<noteq> 0 then xdrmem_ops_unaligned else xdrmem_ops_aligned),
      x_private = \<lparr>xm_base = addr, xm_priv = addr, xm_handy = sz, xm_buf = buf\<rparr>,
      x_mem = m\<rparr>"

lemmas xdrmem_defs = xdrmem_getlong_aligned_def xdrmem_getlong_unaligned_def
  xdrmem_putlong_aligned_def xdrmem_putlong_unaligned_def xdrmem_getbytes_def xdrmem_putbytes_def
  xdrmem_inline_aligned_def xdrmem_inline_unaligned_def

section \<open>The buffer contract\<close>

text \<open>
  \<open>xm_ok\<close>: the bytes \<open>x_handy\<close> promises lie inside the memory block. The block is below 2^63 bytes,
  as every object is.
\<close>

definition xm_ok :: "xdr_mem \<Rightarrow> bool" where
  "xm_ok s \<longleftrightarrow> xm_off s + unat (xm_handy s) \<le> length (xm_buf s) \<and> length (xm_buf s) < 2 ^ 63"

text \<open>The state after the next bytes have been passed over, and after they have been written.\<close>

definition xm_skip :: "nat \<Rightarrow> xdr_mem \<Rightarrow> xdr_mem" where
  "xm_skip n s = s\<lparr>xm_handy := xm_handy s - of_nat n, xm_priv := xm_priv s + of_nat n\<rparr>"

definition xm_write :: "byte list \<Rightarrow> xdr_mem \<Rightarrow> xdr_mem" where
  "xm_write bs s = (xm_skip (length bs) s)\<lparr>xm_buf := store (xm_off s) bs (xm_buf s)\<rparr>"

definition xm_fits :: "xdr_mem \<Rightarrow> nat \<Rightarrow> bool" where
  "xm_fits s n \<longleftrightarrow> xm_ok s \<and> n \<le> unat (xm_handy s)"

definition xm_wrote :: "xdr_mem \<Rightarrow> byte list \<Rightarrow> xdr_mem \<Rightarrow> bool" where
  "xm_wrote s bs s' \<longleftrightarrow>
     xm_ok s \<and> length bs \<le> unat (xm_handy s) \<and> s' = xm_write bs s"

definition xm_ready :: "xdr_mem \<Rightarrow> byte list \<Rightarrow> bool" where
  "xm_ready s bs \<longleftrightarrow>
     xm_ok s \<and> length bs \<le> unat (xm_handy s) \<and> load (xm_off s) (length bs) (xm_buf s) = bs"

lemma unat_of_nat_handy [simp]:
  "n \<le> unat (h :: u32) \<Longrightarrow> unat (of_nat n :: u32) = n"
  by (metis le_unat_uoi)

lemma ucast_of_nat_handy: "n \<le> unat (h :: u32) \<Longrightarrow> ucast (of_nat n :: u32) = (of_nat n :: u64)"
  using unsigned_less [of h, where ?'a = nat]
  by (simp add: word_unat_eq_iff unsigned_ucast_eq unat_of_nat take_bit_nat_eq_self)

lemma xm_off_skip:
  assumes "xm_ok s" and "n \<le> unat (xm_handy s)"
  shows "xm_off (xm_skip n s) = xm_off s + n"
proof -
  have n: "unat (of_nat n :: u64) = n"
    using assms by (simp add: xm_ok_def unat_of_nat)
  have "xm_off s + n < 2 ^ 64"
    using assms by (simp add: xm_ok_def)
  then have "unat ((xm_priv s - xm_base s) + of_nat n) = xm_off s + n"
    by (subst unat_add_lem [THEN iffD1]) (simp_all add: xm_off_def n)
  then show ?thesis
    by (simp add: xm_off_def xm_skip_def algebra_simps)
qed

lemma xm_handy_skip:
  "n \<le> unat (xm_handy s) \<Longrightarrow> unat (xm_handy (xm_skip n s)) = unat (xm_handy s) - n"
  by (simp add: xm_skip_def unat_sub word_le_nat_alt)

lemma xm_skip_buf [simp]: "xm_buf (xm_skip n s) = xm_buf s"
  by (simp add: xm_skip_def)

lemma xm_ok_skip:
  "xm_ok s \<Longrightarrow> n \<le> unat (xm_handy s) \<Longrightarrow> xm_ok (xm_skip n s)"
  by (simp add: xm_ok_def xm_off_skip [unfolded xm_ok_def] xm_handy_skip)

lemma xm_skip_skip: "xm_skip a (xm_skip b s) = xm_skip (b + a) s"
  by (simp add: xm_skip_def algebra_simps)

lemma xm_ok_buf: "length b = length (xm_buf s) \<Longrightarrow> xm_ok (s\<lparr>xm_buf := b\<rparr>) = xm_ok s"
  by (simp add: xm_ok_def xm_off_def)

lemma xm_off_buf [simp]: "xm_off (s\<lparr>xm_buf := b\<rparr>) = xm_off s"
  by (simp add: xm_off_def)

lemma xm_skip_upd_buf: "xm_skip n (s\<lparr>xm_buf := b\<rparr>) = (xm_skip n s)\<lparr>xm_buf := b\<rparr>"
  by (simp add: xm_skip_def)

lemma xm_fits_write:
  assumes "xm_fits s (length bs + n)"
  shows "xm_fits (xm_write bs s) n"
proof -
  have "length (store (xm_off s) bs (xm_buf s)) = length (xm_buf s)"
    using assms by (simp add: xm_fits_def xm_ok_def block_simps)
  with assms show ?thesis
    by (auto simp: xm_fits_def xm_write_def xm_ok_buf xm_ok_skip xm_handy_skip)
qed

lemma xm_wrote_write: "xm_fits s (length bs + n) \<Longrightarrow> xm_wrote s bs (xm_write bs s)"
  by (simp add: xm_wrote_def xm_fits_def)

lemma xm_wrote_append:
  assumes "xm_wrote s as s1" and "xm_wrote s1 bs s2"
  shows "xm_wrote s (as @ bs) s2"
proof -
  from assms(1) have s1: "s1 = xm_write as s" and ok: "xm_ok s" "length as \<le> unat (xm_handy s)"
    by (simp_all add: xm_wrote_def)
  from assms(2) have s2: "s2 = xm_write bs s1" and "length bs \<le> unat (xm_handy s1)"
    by (simp_all add: xm_wrote_def)
  with s1 ok have room: "length as + length bs \<le> unat (xm_handy s)"
    by (simp add: xm_write_def xm_handy_skip)
  have "s2 = xm_write (as @ bs) s"
    using ok s1 s2 room
    by (simp add: xm_write_def xm_skip_upd_buf xm_skip_skip xm_off_skip store_append xm_ok_def)
  with ok room show ?thesis by (simp add: xm_wrote_def)
qed

lemma xm_ready_skip:
  assumes "xm_ready s (xs @ bs)"
  shows "load (xm_off s) (length xs) (xm_buf s) = xs" and "xm_ready (xm_skip (length xs) s) bs"
proof -
  from assms have r: "xm_ok s" "length xs + length bs \<le> unat (xm_handy s)"
      "load (xm_off s) (length xs + length bs) (xm_buf s) = xs @ bs"
    by (simp_all add: xm_ready_def)
  from r(1,2) have len: "length (load (xm_off s) (length xs) (xm_buf s)) = length xs"
    by (simp add: xm_ok_def block_simps)
  have "load (xm_off s) (length xs) (xm_buf s) @ load (xm_off s + length xs) (length bs) (xm_buf s)
      = xs @ bs"
    using r(3) by (simp add: load_append)
  with len show "load (xm_off s) (length xs) (xm_buf s) = xs"
    and "xm_ready (xm_skip (length xs) s) bs"
    using r(1,2) by (simp_all add: xm_ready_def xm_ok_skip xm_off_skip xm_handy_skip)
qed

text \<open>Each operation is a skip or a write when it has the room.\<close>

lemma handy_not_less: "n \<le> unat h \<Longrightarrow> n < 2 ^ 32 \<Longrightarrow> \<not> h < (of_nat n :: u32)"
  by (simp add: word_less_nat_alt unat_of_nat)

lemma handy_not_less4: "4 \<le> unat h \<Longrightarrow> \<not> h < (4 :: u32)"
  by (simp add: word_less_nat_alt)

lemma xdrmem_getlong_room:
  assumes "4 \<le> unat (xm_handy s)"
  shows "xdrmem_getlong_aligned s = (Some (of_be32 (load (xm_off s) 4 (xm_buf s))), xm_skip 4 s)"
    and "xdrmem_getlong_unaligned s = (Some (of_be32 (load (xm_off s) 4 (xm_buf s))), xm_skip 4 s)"
  using assms by (simp_all add: xdrmem_defs xm_skip_def handy_not_less4 Let_def)

lemma xdrmem_putlong_room:
  assumes "4 \<le> unat (xm_handy s)"
  shows "xdrmem_putlong_aligned w s = (True, xm_write (be32 w) s)"
    and "xdrmem_putlong_unaligned w s = (True, xm_write (be32 w) s)"
  using assms by (simp_all add: xdrmem_defs xm_skip_def xm_write_def handy_not_less4 Let_def)

lemma xdrmem_getbytes_room:
  assumes "n \<le> unat (xm_handy s)"
  shows "xdrmem_getbytes (of_nat n) s = (Some (load (xm_off s) n (xm_buf s)), xm_skip n s)"
  using assms
  by (simp add: xdrmem_defs xm_skip_def word_less_nat_alt ucast_of_nat_handy)

lemma xdrmem_putbytes_room:
  assumes "length bs \<le> unat (xm_handy s)"
  shows "xdrmem_putbytes bs s = (True, xm_write bs s)"
  using assms
  by (simp add: xdrmem_defs xm_skip_def xm_write_def word_less_nat_alt ucast_of_nat_handy Let_def)

lemma xdrmem_inline_room:
  assumes "n \<le> unat (xm_handy s)"
  shows "xdrmem_inline_aligned (of_nat n) s = (Some (xm_off s), xm_skip n s)"
  using assms by (simp add: xdrmem_defs xm_skip_def word_le_nat_alt ucast_of_nat_handy)

section \<open>The two operation vectors are XDR streams\<close>

lemma xm_sink_common:
  shows "xm_fits s n \<Longrightarrow> k \<le> n \<Longrightarrow> xm_fits s k"
    and "xm_fits s n \<Longrightarrow> xm_wrote s [] s"
  by (auto simp: xm_fits_def xm_wrote_def xm_write_def xm_skip_def)

lemma xm_fits_room: "xm_fits s (k + n) \<Longrightarrow> k \<le> unat (xm_handy s)"
  by (simp add: xm_fits_def)

lemma xm_ready_room: "xm_ready s (xs @ bs) \<Longrightarrow> length xs \<le> unat (xm_handy s)"
  by (simp add: xm_ready_def)

lemma xm_inline_write:
  assumes "xm_fits s (unat len + n)" and "length bs = unat len"
  shows "xm_wrote s bs ((xm_skip (unat len) s)\<lparr>xm_buf := store (xm_off s) bs (xm_buf s)\<rparr>)"
    and "xm_fits ((xm_skip (unat len) s)\<lparr>xm_buf := store (xm_off s) bs (xm_buf s)\<rparr>) n"
  using assms xm_fits_write [of s bs n] xm_wrote_write [of s bs n]
  by (simp_all add: xm_write_def)

lemma xm_inline_sink:
  assumes "xm_fits s (unat len + n)"
  shows "xdrmem_inline_aligned len s = (Some (xm_off s), xm_skip (unat len) s)"
    and "length (load (xm_off s) (unat len) (xm_buf s)) = unat len"
  using assms xdrmem_inline_room [of "unat len" s]
  by (auto simp: xm_fits_def xm_ok_def block_simps)

interpretation mem_aligned: xdr_stream xdrmem_ops_aligned xm_fits xm_wrote xm_ready
proof (unfold_locales, goal_cases)
  case (4 s n w)
  then show ?case
    using xm_fits_write [of s "be32 w" n] xm_wrote_write [of s "be32 w" n]
    by (simp add: xdrmem_ops_aligned_def xdrmem_putlong_room xm_fits_room)
next
  case (6 s len n s')
  then show ?case by (simp add: xdrmem_ops_aligned_def xm_inline_sink)
next
  case (7 s len n p s1)
  then show ?case
    using xm_inline_sink [OF 7(1)] xm_inline_write [OF 7(1)]
    by (auto simp: xdrmem_ops_aligned_def)
next
  case (8 s w bs)
  then show ?case
    using xm_ready_skip [OF 8] xm_ready_room [OF 8]
    by (simp add: xdrmem_ops_aligned_def xdrmem_getlong_room)
next
  case (10 s xs bs s')
  then show ?case
    by (simp add: xdrmem_ops_aligned_def xdrmem_inline_room xm_ready_room)
next
  case (11 s xs bs p s')
  then show ?case
    using xm_ready_skip [OF 11(1)]
    by (auto simp: xdrmem_ops_aligned_def xdrmem_inline_room xm_ready_room)
qed (use xm_sink_common xm_wrote_append xm_ready_skip in
    \<open>auto simp: xdrmem_ops_aligned_def xdrmem_putbytes_room xdrmem_getbytes_room xm_fits_room
       xm_ready_room xm_fits_write xm_wrote_write\<close>)

interpretation mem_unaligned: xdr_stream xdrmem_ops_unaligned xm_fits xm_wrote xm_ready
proof (unfold_locales, goal_cases)
  case (4 s n w)
  then show ?case
    using xm_fits_write [of s "be32 w" n] xm_wrote_write [of s "be32 w" n]
    by (simp add: xdrmem_ops_unaligned_def xdrmem_putlong_room xm_fits_room)
next
  case (6 s len n s')
  then show ?case
    using xm_sink_common(2) [OF 6(1)]
    by (simp add: xdrmem_ops_unaligned_def xdrmem_inline_unaligned_def)
next
  case (8 s w bs)
  then show ?case
    using xm_ready_skip [OF 8] xm_ready_room [OF 8]
    by (simp add: xdrmem_ops_unaligned_def xdrmem_getlong_room)
qed (use xm_sink_common xm_wrote_append xm_ready_skip in
    \<open>auto simp: xdrmem_ops_unaligned_def xdrmem_putbytes_room xdrmem_getbytes_room xm_fits_room
       xm_ready_room xm_fits_write xm_wrote_write xdrmem_inline_unaligned_def\<close>)

section \<open>Running a filter on a buffer\<close>

text \<open>
  What a filter that \<open>encodes\<close> or \<open>decodes\<close> does on a handle \<open>xdrmem_create\<close> has made, wherever the
  buffer lies.
\<close>

lemma xdrmem_create_ops:
  obtains "xdrmem_create addr buf sz op m = mkXDR op xdrmem_ops_aligned
      \<lparr>xm_base = addr, xm_priv = addr, xm_handy = sz, xm_buf = buf\<rparr> m"
  | "xdrmem_create addr buf sz op m = mkXDR op xdrmem_ops_unaligned
      \<lparr>xm_base = addr, xm_priv = addr, xm_handy = sz, xm_buf = buf\<rparr> m"
  by (cases "(ucast addr :: u32) AND 3 \<noteq> 0") (simp_all add: xdrmem_create_def)

lemma xm_getpos_skip: "xdrmem_getpos (xm_skip n s) = xdrmem_getpos s + of_nat n"
  by (simp add: xdrmem_getpos_def xm_skip_def ucast_u64_add ucast_u64_of_nat)

lemma xm_start:
  assumes "unat sz \<le> length buf" and "length buf < 2 ^ 63"
  shows "xm_ok \<lparr>xm_base = addr, xm_priv = addr, xm_handy = sz, xm_buf = buf\<rparr>"
    and "xm_off \<lparr>xm_base = addr, xm_priv = addr, xm_handy = sz, xm_buf = buf\<rparr> = 0"
    and "xdrmem_getpos \<lparr>xm_base = addr, xm_priv = addr, xm_handy = sz, xm_buf = buf\<rparr> = 0"
  using assms by (simp_all add: xm_ok_def xm_off_def xdrmem_getpos_def)

lemma xdrmem_getpostn:
  "x_getpostn xdrmem_ops_aligned op s = xdrmem_getpos s"
  "x_getpostn xdrmem_ops_unaligned op s = xdrmem_getpos s"
  by (simp_all add: xdrmem_ops_aligned_def xdrmem_ops_unaligned_def)

theorem xdrmem_encode:
  assumes "mem_aligned.encodes p v v' bs" and "mem_unaligned.encodes p v v' bs"
    and "length bs \<le> unat sz" and "unat sz \<le> length buf" and "length buf < 2 ^ 63"
  obtains x' where "p v (xdrmem_create addr buf sz XDR_ENCODE m) = (True, v', x')"
    and "xm_buf (x_private x') = store 0 bs buf" and "XDR_GETPOS x' = of_nat (length bs)" and "x_mem x' = m"
proof -
  let ?s = "\<lparr>xm_base = addr, xm_priv = addr, xm_handy = sz, xm_buf = buf\<rparr>"
  note start = xm_start [OF assms(4,5), of addr]
  have fits: "xm_fits ?s (length bs + 0)"
    using assms(3) start by (simp add: xm_fits_def)
  have wrote: "xm_buf s' = store 0 bs buf \<and> xdrmem_getpos s' = of_nat (length bs)"
    if "xm_wrote ?s bs s'" for s'
    using that start xm_getpos_skip [of "length bs" ?s]
    by (simp add: xm_wrote_def xm_write_def xdrmem_getpos_def)
  consider "xdrmem_create addr buf sz XDR_ENCODE m = mkXDR XDR_ENCODE xdrmem_ops_aligned ?s m"
    | "xdrmem_create addr buf sz XDR_ENCODE m = mkXDR XDR_ENCODE xdrmem_ops_unaligned ?s m"
    by (rule xdrmem_create_ops)
  then show thesis
  proof cases
    case 1
    obtain s' where "p v (mkXDR XDR_ENCODE xdrmem_ops_aligned ?s m) = (True, v', mkXDR XDR_ENCODE xdrmem_ops_aligned s' m)"
      "xm_wrote ?s bs s'"
      by (rule mem_aligned.encodesE [OF assms(1) fits])
    with wrote [of s'] show ?thesis
      by (intro that [of "mkXDR XDR_ENCODE xdrmem_ops_aligned s' m"])
        (simp_all add: 1 XDR_GETPOS_def xdrmem_getpostn)
  next
    case 2
    obtain s' where "p v (mkXDR XDR_ENCODE xdrmem_ops_unaligned ?s m) = (True, v', mkXDR XDR_ENCODE xdrmem_ops_unaligned s' m)"
      "xm_wrote ?s bs s'"
      by (rule mem_unaligned.encodesE [OF assms(2) fits])
    with wrote [of s'] show ?thesis
      by (intro that [of "mkXDR XDR_ENCODE xdrmem_ops_unaligned s' m"])
        (simp_all add: 2 XDR_GETPOS_def xdrmem_getpostn)
  qed
qed

lemma xdrmem_decode:
  assumes "mem_aligned.decodes p z v bs k" and "mem_unaligned.decodes p z v bs k"
    and "length bs \<le> unat sz" and "unat sz \<le> length buf" and "length buf < 2 ^ 63"
    and "take (length bs) buf = bs"
  obtains x' where "p z (xdrmem_create addr buf sz XDR_DECODE (m + k)) = (True, v, x')"
    and "x_mem x' = m"
proof -
  let ?s = "\<lparr>xm_base = addr, xm_priv = addr, xm_handy = sz, xm_buf = buf\<rparr>"
  note start = xm_start [OF assms(4,5), of addr]
  have ready: "xm_ready ?s (bs @ [])"
    using assms(3,6) start by (simp add: xm_ready_def load_def)
  consider "xdrmem_create addr buf sz XDR_DECODE (m + k) = mkXDR XDR_DECODE xdrmem_ops_aligned ?s (m + k)"
    | "xdrmem_create addr buf sz XDR_DECODE (m + k) = mkXDR XDR_DECODE xdrmem_ops_unaligned ?s (m + k)"
    by (rule xdrmem_create_ops)
  then show thesis
  proof cases
    case 1
    obtain s' where "p z (mkXDR XDR_DECODE xdrmem_ops_aligned ?s (m + k)) = (True, v, mkXDR XDR_DECODE xdrmem_ops_aligned s' m)"
      by (rule mem_aligned.decodesE [OF assms(1) ready])
    then show ?thesis
      by (intro that [of "mkXDR XDR_DECODE xdrmem_ops_aligned s' m"]) (simp_all add: 1)
  next
    case 2
    obtain s' where "p z (mkXDR XDR_DECODE xdrmem_ops_unaligned ?s (m + k)) = (True, v, mkXDR XDR_DECODE xdrmem_ops_unaligned s' m)"
      by (rule mem_unaligned.decodesE [OF assms(2) ready])
    then show ?thesis
      by (intro that [of "mkXDR XDR_DECODE xdrmem_ops_unaligned s' m"]) (simp_all add: 2)
  qed
qed

section \<open>Memory safety\<close>

text \<open>
  One operation on the stream, as any filter may call it: every operation of the two vectors except
  \<open>x_setpostn\<close>, and stores through a pointer that \<open>x_inline\<close> has returned.
\<close>

inductive xm_step :: "xdr_mem \<Rightarrow> xdr_mem \<Rightarrow> bool" where
  getlong_aligned: "xm_step s (snd (xdrmem_getlong_aligned s))"
| putlong_aligned: "xm_step s (snd (xdrmem_putlong_aligned w s))"
| getlong_unaligned: "xm_step s (snd (xdrmem_getlong_unaligned s))"
| putlong_unaligned: "xm_step s (snd (xdrmem_putlong_unaligned w s))"
| getbytes: "xm_step s (snd (xdrmem_getbytes len s))"
| putbytes: "length bs < 2 ^ 32 \<Longrightarrow> xm_step s (snd (xdrmem_putbytes bs s))"
| inline_get: "xm_step s (snd (xdrmem_inline_aligned len s))"
| inline_put: "xdrmem_inline_aligned len s = (Some p, s') \<Longrightarrow> length bs = unat len \<Longrightarrow>
    xm_step s (s'\<lparr>xm_buf := store p bs (xm_buf s')\<rparr>)"

inductive xm_reach :: "xdr_mem \<Rightarrow> xdr_mem \<Rightarrow> bool" for s0 where
  start: "xm_reach s0 s0"
| step: "xm_reach s0 s \<Longrightarrow> xm_step s s' \<Longrightarrow> xm_reach s0 s'"

text \<open>The invariant: the cursor plus what is left stays put, and only bytes before it were written.\<close>

definition xm_inside :: "xdr_mem \<Rightarrow> xdr_mem \<Rightarrow> bool" where
  "xm_inside s0 s \<longleftrightarrow> xm_ok s \<and> xm_off s0 \<le> xm_off s \<and>
     xm_off s + unat (xm_handy s) = xm_off s0 + unat (xm_handy s0) \<and>
     length (xm_buf s) = length (xm_buf s0) \<and>
     take (xm_off s0) (xm_buf s) = take (xm_off s0) (xm_buf s0) \<and>
     drop (xm_off s) (xm_buf s) = drop (xm_off s) (xm_buf s0)"

lemma xm_inside_refl: "xm_ok s \<Longrightarrow> xm_inside s s"
  by (simp add: xm_inside_def)

lemma xm_inside_skip:
  assumes "xm_inside s0 s" and "n \<le> unat (xm_handy s)"
  shows "xm_inside s0 (xm_skip n s)"
proof -
  have "drop (xm_off s) (xm_buf s) = drop (xm_off s) (xm_buf s0)"
    using assms(1) by (simp add: xm_inside_def)
  then have "drop (xm_off s + n) (xm_buf s) = drop (xm_off s + n) (xm_buf s0)"
    by (metis add.commute drop_drop)
  with assms show ?thesis
    by (simp add: xm_inside_def xm_ok_skip xm_off_skip xm_handy_skip)
qed

lemma xm_inside_write:
  assumes "xm_inside s0 s" and "length bs \<le> unat (xm_handy s)"
  shows "xm_inside s0 (xm_write bs s)"
proof -
  have skip: "xm_inside s0 (xm_skip (length bs) s)"
    using assms by (rule xm_inside_skip)
  have ok: "xm_ok s" "xm_off s0 \<le> xm_off s"
    using assms(1) by (simp_all add: xm_inside_def)
  then have room: "xm_off s + length bs \<le> length (xm_buf s)"
    using assms(2) by (simp add: xm_ok_def)
  have len: "length (store (xm_off s) bs (xm_buf s)) = length (xm_buf s)"
    using room by (simp add: block_simps)
  have "take (xm_off s0) (store (xm_off s) bs (xm_buf s)) = take (xm_off s0) (xm_buf s)"
    using room ok by (simp add: take_store)
  moreover have "drop (xm_off s + length bs) (store (xm_off s) bs (xm_buf s))
      = drop (xm_off s + length bs) (xm_buf s)"
    using room by (simp add: store_def)
  ultimately show ?thesis
    using skip len assms(2) ok
    by (simp add: xm_inside_def xm_write_def xm_ok_buf xm_off_skip)
qed

text \<open>A call that lacks the room leaves the stream as it was.\<close>

lemma xdrmem_short:
  "xm_handy s < 4 \<Longrightarrow> xdrmem_getlong_aligned s = (None, s)"
  "xm_handy s < 4 \<Longrightarrow> xdrmem_getlong_unaligned s = (None, s)"
  "xm_handy s < 4 \<Longrightarrow> xdrmem_putlong_aligned w s = (False, s)"
  "xm_handy s < 4 \<Longrightarrow> xdrmem_putlong_unaligned w s = (False, s)"
  "xm_handy s < len \<Longrightarrow> xdrmem_getbytes len s = (None, s)"
  "xm_handy s < of_nat (length bs) \<Longrightarrow> xdrmem_putbytes bs s = (False, s)"
  "xm_handy s < len \<Longrightarrow> xdrmem_inline_aligned len s = (None, s)"
  by (simp_all add: xdrmem_defs)

lemma xm_step_inside:
  assumes "xm_step s s'" and "xm_inside s0 s"
  shows "xm_inside s0 s'"
  using assms
proof (induction rule: xm_step.induct)
  case (getlong_aligned s)
  then show ?case
    by (cases "xm_handy s < 4") (simp_all add: xdrmem_short xdrmem_getlong_room xm_inside_skip
        not_less word_le_nat_alt)
next
  case (putlong_aligned s w)
  then show ?case
    by (cases "xm_handy s < 4") (simp_all add: xdrmem_short xdrmem_putlong_room xm_inside_write
        not_less word_le_nat_alt)
next
  case (getlong_unaligned s)
  then show ?case
    by (cases "xm_handy s < 4") (simp_all add: xdrmem_short xdrmem_getlong_room xm_inside_skip
        not_less word_le_nat_alt)
next
  case (putlong_unaligned s w)
  then show ?case
    by (cases "xm_handy s < 4") (simp_all add: xdrmem_short xdrmem_putlong_room xm_inside_write
        not_less word_le_nat_alt)
next
  case (getbytes s len)
  then show ?case
    using xdrmem_getbytes_room [of "unat len" s]
    by (cases "xm_handy s < len") (simp_all add: xdrmem_short xm_inside_skip not_less word_le_nat_alt)
next
  case (putbytes bs s)
  then have "length bs \<le> unat (xm_handy s)" if "\<not> xm_handy s < of_nat (length bs)"
    using that by (simp add: not_less word_le_nat_alt unat_of_nat)
  with putbytes show ?case
    by (cases "xm_handy s < of_nat (length bs)")
      (simp_all add: xdrmem_short xdrmem_putbytes_room xm_inside_write)
next
  case (inline_get s len)
  then show ?case
    using xdrmem_inline_room [of "unat len" s]
    by (cases "xm_handy s < len") (simp_all add: xdrmem_short xm_inside_skip not_less word_le_nat_alt)
next
  case (inline_put len s p s' bs)
  then have len: "length bs \<le> unat (xm_handy s)"
    by (cases "xm_handy s < len") (simp_all add: xdrmem_short not_less word_le_nat_alt)
  with inline_put(1,2) xdrmem_inline_room [of "unat len" s]
  have "p = xm_off s" "s' = xm_skip (length bs) s" by auto
  with xm_inside_write [OF inline_put(3) len] show ?case
    by (simp add: xm_write_def)
qed

lemma xm_reach_inside:
  assumes "xm_reach s0 s" and "xm_ok s0"
  shows "xm_inside s0 s"
  using assms by (induction rule: xm_reach.induct) (auto intro: xm_inside_refl xm_step_inside)

text \<open>
  C40: Whatever sequence of operations other than setting the position is done on a memory stream over the
  first \<open>n\<close> bytes of a buffer, by filters or through pointers that \<open>x_inline\<close> has returned, and whether they
  succeed or not: the cursor stays within the \<open>n\<close> bytes and the position reported is where it is, what is
  left is the rest of them, the buffer keeps its length, and nothing behind the cursor, in particular
  nothing behind the \<open>n\<close> bytes, has been written.
\<close>

theorem mem_stream_bounded:
  assumes "xm_reach (x_private (xdrmem_create addr buf n op h)) s" and "unat n \<le> length buf" and "length buf < 2 ^ 63"
  shows "xm_off s + unat (xm_handy s) = unat n \<and> xdrmem_getpos s = of_nat (xm_off s) \<and>
    length (xm_buf s) = length buf \<and> drop (xm_off s) (xm_buf s) = drop (xm_off s) buf \<and>
    drop (unat n) (xm_buf s) = drop (unat n) buf"
proof -
  let ?s0 = "\<lparr>xm_base = addr, xm_priv = addr, xm_handy = n, xm_buf = buf\<rparr>"
  have s0: "x_private (xdrmem_create addr buf n op h) = ?s0" by (simp add: xdrmem_create_def)
  have start: "xm_ok ?s0" "xm_off ?s0 = 0"
    using assms(2,3) by (simp_all add: xm_ok_def xm_off_def)
  have inside: "xm_inside ?s0 s"
    by (rule xm_reach_inside) (use assms(1) s0 start in simp_all)
  then have "drop (xm_off s) (xm_buf s) = drop (xm_off s) buf" "xm_off s \<le> unat n"
    "xm_off s + unat (xm_handy s) = unat n"
    using start(2) by (simp_all add: xm_inside_def)
  moreover from this have "drop (unat n) (xm_buf s) = drop (unat n) buf"
    by (metis drop_drop le_add_diff_inverse2)
  moreover have "xdrmem_getpos s = of_nat (xm_off s)"
    by (simp add: xm_off_def xdrmem_getpos_def ucast_u64_diff)
  ultimately show ?thesis using inside by (simp add: xm_inside_def)
qed

text \<open>A word, then more bytes than there are, which is refused, then two bytes.\<close>

theorem mem_stream_bounded_witness:
  "let s0 = x_private (xdrmem_create 0x1000 (replicate 8 9) 6 XDR_ENCODE 0);
       s1 = snd (xdrmem_putlong_aligned 0x01020304 s0); s2 = snd (xdrmem_putbytes [5, 6, 7] s1); s3 = snd (xdrmem_putbytes [5, 6] s2)
   in xm_handy s3 = 0 \<and> xdrmem_getpos s3 = 6 \<and> drop 6 (xm_buf s3) = [9, 9]"
proof -
  let ?s0 = "x_private (xdrmem_create 0x1000 (replicate 8 9) 6 XDR_ENCODE 0)"
  let ?s1 = "snd (xdrmem_putlong_aligned 0x01020304 ?s0)"
  let ?s2 = "snd (xdrmem_putbytes [5, 6, 7] ?s1)"
  let ?s3 = "snd (xdrmem_putbytes [5, 6] ?s2)"
  have "xm_reach ?s0 ?s1" by (rule xm_reach.step [OF xm_reach.start xm_step.putlong_aligned])
  then have "xm_reach ?s0 ?s2" by (rule xm_reach.step [OF _ xm_step.putbytes]) simp
  then have "xm_reach ?s0 ?s3" by (rule xm_reach.step [OF _ xm_step.putbytes]) simp
  then have b: "xm_off ?s3 + unat (xm_handy ?s3) = unat (6 :: u32) \<and> xdrmem_getpos ?s3 = of_nat (xm_off ?s3) \<and>
      length (xm_buf ?s3) = length (replicate 8 (9 :: byte)) \<and> drop (xm_off ?s3) (xm_buf ?s3) = drop (xm_off ?s3) (replicate 8 9) \<and>
      drop (unat (6 :: u32)) (xm_buf ?s3) = drop (unat (6 :: u32)) (replicate 8 9)"
    by (rule mem_stream_bounded) simp_all
  have h: "xm_handy ?s3 = 0" by (simp add: xdrmem_create_def xdrmem_defs)
  have "xm_off ?s3 = 6" using b unfolding h by simp
  moreover have "drop 6 (xm_buf ?s3) = drop 6 (replicate 8 9)" using b by simp
  moreover have "drop 6 (replicate 8 (9 :: byte)) = [9, 9]" by (simp add: numeral_eq_Suc)
  ultimately show ?thesis using b h unfolding Let_def by simp
qed

section \<open>Positions\<close>

text \<open>
  While the buffer does not straddle an address whose low 32 bits turn negative, and the position
  asked for does not do so either, \<open>xdrmem_setpos\<close> accepts exactly the positions of the buffer and
  moves there.
\<close>

lemma sint_add_of_nat:
  assumes "sint (b :: u32) + int n < 2 ^ 31"
  shows "sint (b + of_nat n) = sint b + int n"
proof -
  have "b + of_nat n = of_int (sint b + int n)" by simp
  moreover have "- (2 ^ 31) \<le> sint b + int n"
    using sint_greater_eq [of b] by simp
  ultimately show ?thesis
    using assms by (simp only: signed_of_int) (simp add: signed_take_bit_int_eq_self)
qed

lemma xdrmem_setpos_accepts:
  assumes "xm_ok s" and "sint (ucast (xm_base s) :: u32) + int (xm_off s + unat (xm_handy s)) < 2 ^ 31"
    and "sint (ucast (xm_base s) :: u32) + int (unat pos) < 2 ^ 31"
  shows "xdrmem_setpos pos s =
    (if unat pos \<le> xm_off s + unat (xm_handy s)
     then (True, s\<lparr>xm_priv := xm_base s + ucast pos,
                   xm_handy := of_nat (xm_off s + unat (xm_handy s) - unat pos)\<rparr>)
     else (False, s))"
proof -
  let ?b = "ucast (xm_base s) :: u32"
  let ?n = "xm_off s + unat (xm_handy s)"
  have priv: "xm_priv s = xm_base s + of_nat (xm_off s)"
    by (simp add: xm_off_def)
  have new: "(ucast (xm_base s + ucast pos) :: u32) = ?b + of_nat (unat pos)"
    by (simp add: ucast_u64_add)
  have last: "(ucast (xm_priv s + ucast (xm_handy s)) :: u32) = ?b + of_nat ?n"
    by (simp add: priv ucast_u64_add ucast_u64_of_nat)
  have cmp: "(sint ?b + int ?n < sint ?b + int (unat pos)) = (\<not> unat pos \<le> ?n)"
    by linarith
  show ?thesis
    unfolding xdrmem_setpos_def Let_def new last sint_add_of_nat [OF assms(2)]
      sint_add_of_nat [OF assms(3)] cmp
    by (auto simp: of_nat_diff)
qed

lemma xdrmem_getpos_setpos:
  "xdrmem_setpos pos s = (True, s') \<Longrightarrow> xdrmem_getpos s' = pos"
  by (auto simp: xdrmem_setpos_def xdrmem_getpos_def ucast_u64_add Let_def split: if_splits)

text \<open>
  Beyond that it does not: a position past 2^31 turns the new address negative, so it is accepted,
  and the stream then believes it has bytes where no memory is.
\<close>

lemma xdrmem_setpos_escapes:
  "let s = \<lparr>xm_base = 0x1000, xm_priv = 0x1000, xm_handy = 16, xm_buf = replicate 16 0\<rparr>;
       (ok, s') = xdrmem_setpos 0x80000000 s
   in ok \<and> xm_handy s' = 0x80000010 \<and> xm_off s' = 0x80000000 \<and> \<not> xm_ok s'"
  by (simp add: xdrmem_setpos_def xm_off_def xm_ok_def Let_def)

end
