(* ===== verification/Xdr_Sizeof.thy ===== *)
theory Xdr_Sizeof
  imports Xdr_Mem
begin

text \<open>
  \<open>libsrc/xdr_sizeof.c\<close>: the stream that only counts. Its private state is the count \<open>x_handy\<close>,
  the scratch block that \<open>x_inline\<close> lends out, the block's size kept in \<open>x_base\<close>, and the number
  of times \<open>malloc\<close> still succeeds. It is an interpretation of \<open>xdr_sink\<close>, so \<open>xdr_sizeof\<close> is the
  length of whatever a filter encodes.
\<close>

record xdr_size =
  sz_handy :: u32
  sz_base :: u32
  sz_priv :: "byte list option"
  sz_heap :: nat

definition sizeof_putlong :: "u32 \<Rightarrow> xdr_size \<Rightarrow> bool \<times> xdr_size" where
  "sizeof_putlong w s = (True, s\<lparr>sz_handy := sz_handy s + 4\<rparr>)"

definition sizeof_putbytes :: "byte list \<Rightarrow> xdr_size \<Rightarrow> bool \<times> xdr_size" where
  "sizeof_putbytes bs s = (True, s\<lparr>sz_handy := sz_handy s + of_nat (length bs)\<rparr>)"

definition sizeof_getpostn :: "xdr_size \<Rightarrow> u32" where
  "sizeof_getpostn s = sz_handy s"

definition sizeof_setpostn :: "u32 \<Rightarrow> xdr_size \<Rightarrow> bool \<times> xdr_size" where
  "sizeof_setpostn pos s = (False, s)"

definition sizeof_inline :: "xdr_op \<Rightarrow> u32 \<Rightarrow> xdr_size \<Rightarrow> nat option \<times> xdr_size" where
  "sizeof_inline op len s =
     (if len = 0 then (None, s)
      else if op \<noteq> XDR_ENCODE then (None, s)
      else if len < sz_base s then (Some 0, s\<lparr>sz_handy := sz_handy s + len\<rparr>)
      else let heap = sz_heap s + (if sz_priv s = None then 0 else 1) in
        if heap = 0 then (None, s\<lparr>sz_priv := None, sz_base := 0, sz_heap := heap\<rparr>)
        else (Some 0, s\<lparr>sz_priv := Some (zeros (unat len)), sz_base := len,
                        sz_heap := heap - 1, sz_handy := sz_handy s + len\<rparr>))"

text \<open>\<open>harmless\<close> answers \<open>x_getlong\<close> and \<open>x_getbytes\<close>.\<close>

definition harmless :: "xdr_size \<Rightarrow> 'b option \<times> xdr_size" where
  "harmless s = (None, s)"

definition sizeof_destroy :: "xdr_size \<Rightarrow> xdr_size" where
  "sizeof_destroy s =
     s\<lparr>sz_handy := 0, sz_base := 0, sz_priv := None,
       sz_heap := sz_heap s + (if sz_priv s = None then 0 else 1)\<rparr>"

definition sizeof_ops :: "xdr_size xdr_ops" where
  "sizeof_ops =
     \<lparr>x_getlong = harmless, x_putlong = sizeof_putlong, x_getbytes = (\<lambda>_. harmless),
      x_putbytes = sizeof_putbytes, x_getpostn = (\<lambda>_. sizeof_getpostn),
      x_setpostn = (\<lambda>_. sizeof_setpostn), x_inline = sizeof_inline,
      x_load = (\<lambda>_ p n s. load p n (case sz_priv s of None \<Rightarrow> [] | Some b \<Rightarrow> b)),
      x_store = (\<lambda>p bs s. s\<lparr>sz_priv := map_option (store p bs) (sz_priv s)\<rparr>)\<rparr>"

definition xdr_sizeof :: "(xdr_size, 'a) xdrproc \<Rightarrow> 'a \<Rightarrow> nat \<Rightarrow> nat \<Rightarrow> u32" where
  "xdr_sizeof func data heap m =
     (case func data (mkXDR XDR_ENCODE sizeof_ops
          \<lparr>sz_handy = 0, sz_base = 0, sz_priv = None, sz_heap = heap\<rparr> m) of
        (stat, _, x) \<Rightarrow> if stat then sz_handy (x_private x) else 0)"

section \<open>The counting stream is a sink\<close>

definition sz_ok :: "xdr_size \<Rightarrow> bool" where
  "sz_ok s \<longleftrightarrow> (case sz_priv s of None \<Rightarrow> sz_base s = 0 | Some b \<Rightarrow> length b = unat (sz_base s))"

definition sz_fits :: "xdr_size \<Rightarrow> nat \<Rightarrow> bool" where
  "sz_fits s n \<longleftrightarrow> sz_ok s"

definition sz_wrote :: "xdr_size \<Rightarrow> byte list \<Rightarrow> xdr_size \<Rightarrow> bool" where
  "sz_wrote s bs s' \<longleftrightarrow> sz_handy s' = sz_handy s + of_nat (length bs)"

lemma sizeof_inline_Some:
  assumes "sz_ok s" and "sizeof_inline XDR_ENCODE len s = (Some p, s1)"
  obtains b where "p = 0" "sz_priv s1 = Some b" "unat len \<le> length b" "length b = unat (sz_base s1)"
    "sz_handy s1 = sz_handy s + len"
proof (cases "len < sz_base s")
  case True
  then have "sz_base s \<noteq> 0" by auto
  with assms(1) obtain b where "sz_priv s = Some b" "length b = unat (sz_base s)"
    by (auto simp: sz_ok_def split: option.splits)
  with True assms(2) show ?thesis
    by (intro that [of b]) (auto simp: sizeof_inline_def word_less_nat_alt split: if_splits)
next
  case False
  with assms(2) show ?thesis
    by (intro that [of "zeros (unat len)"]) (auto simp: sizeof_inline_def Let_def split: if_splits)
qed

interpretation sizeof: xdr_sink sizeof_ops sz_fits sz_wrote
proof (unfold_locales, goal_cases)
  case (4 s n w)
  then show ?case
    by (simp add: sizeof_ops_def sizeof_putlong_def sz_fits_def sz_wrote_def sz_ok_def
        split: option.splits)
next
  case (5 s bs n)
  then show ?case
    by (simp add: sizeof_ops_def sizeof_putbytes_def sz_fits_def sz_wrote_def sz_ok_def
        split: option.splits)
next
  case (6 s len n s')
  then show ?case
    by (auto simp: sizeof_ops_def sizeof_inline_def sz_fits_def sz_wrote_def sz_ok_def Let_def
        split: if_splits)
next
  case (7 s len n p s1)
  then have "sz_ok s" "sizeof_inline XDR_ENCODE len s = (Some p, s1)"
    by (simp_all add: sz_fits_def sizeof_ops_def)
  then obtain b where "p = 0" "sz_priv s1 = Some b" "unat len \<le> length b"
    "length b = unat (sz_base s1)" "sz_handy s1 = sz_handy s + len"
    by (rule sizeof_inline_Some)
  then show ?case
    by (simp add: sizeof_ops_def sz_fits_def sz_wrote_def sz_ok_def block_simps)
qed (auto simp: sz_fits_def sz_wrote_def)

lemma xdr_sizeof_encodes:
  assumes "sizeof.encodes p v v' bs"
  shows "xdr_sizeof p v heap m = of_nat (length bs)"
proof -
  have "sz_fits \<lparr>sz_handy = 0, sz_base = 0, sz_priv = None, sz_heap = heap\<rparr> (length bs + 0)"
    by (simp add: sz_fits_def sz_ok_def)
  then obtain s' where
    "p v (mkXDR XDR_ENCODE sizeof_ops \<lparr>sz_handy = 0, sz_base = 0, sz_priv = None, sz_heap = heap\<rparr> m)
       = (True, v', mkXDR XDR_ENCODE sizeof_ops s' m)"
    and "sz_wrote \<lparr>sz_handy = 0, sz_base = 0, sz_priv = None, sz_heap = heap\<rparr> bs s'"
    by (rule sizeof.encodesE [OF assms])
  then show ?thesis
    by (simp add: xdr_sizeof_def sz_wrote_def)
qed

end
