(* ===== verification/Rpc_Msg.thy ===== *)
theory Rpc_Msg
  imports Xdr_Sizeof
begin

text \<open>
  \<open>libsrc/rpc_prot.c\<close>, \<open>libsrc/rpc_callmsg.c\<close>, \<open>include/rpc/rpc_msg.h\<close>: RPC call and reply messages,
  their filters (with the inline fast paths of \<open>xdr_callmsg\<close>) and the translation of a reply into
  the client's error. An enumeration of the C code is the 32-bit integer it is stored in; the
  members of a C union are separate fields, of which the code only reads the one it has written.
\<close>

section \<open>Constants\<close>

abbreviation (input) MAX_AUTH_BYTES :: u32 where "MAX_AUTH_BYTES \<equiv> 400"
abbreviation (input) RPC_MSG_VERSION :: u32 where "RPC_MSG_VERSION \<equiv> 2"

abbreviation (input) CALL :: u32 where "CALL \<equiv> 0"
abbreviation (input) REPLY :: u32 where "REPLY \<equiv> 1"

abbreviation (input) MSG_ACCEPTED :: u32 where "MSG_ACCEPTED \<equiv> 0"
abbreviation (input) MSG_DENIED :: u32 where "MSG_DENIED \<equiv> 1"

abbreviation (input) SUCCESS :: u32 where "SUCCESS \<equiv> 0"
abbreviation (input) PROG_UNAVAIL :: u32 where "PROG_UNAVAIL \<equiv> 1"
abbreviation (input) PROG_MISMATCH :: u32 where "PROG_MISMATCH \<equiv> 2"
abbreviation (input) PROC_UNAVAIL :: u32 where "PROC_UNAVAIL \<equiv> 3"
abbreviation (input) GARBAGE_ARGS :: u32 where "GARBAGE_ARGS \<equiv> 4"
abbreviation (input) SYSTEM_ERR :: u32 where "SYSTEM_ERR \<equiv> 5"

abbreviation (input) RPC_MISMATCH :: u32 where "RPC_MISMATCH \<equiv> 0"
abbreviation (input) AUTH_ERROR :: u32 where "AUTH_ERROR \<equiv> 1"

datatype clnt_stat = RPC_SUCCESS | RPC_CANTENCODEARGS | RPC_CANTDECODERES | RPC_CANTSEND
  | RPC_CANTRECV | RPC_TIMEDOUT | RPC_VERSMISMATCH | RPC_AUTHERROR | RPC_PROGUNAVAIL
  | RPC_PROGVERSMISMATCH | RPC_PROCUNAVAIL | RPC_CANTDECODEARGS | RPC_SYSTEMERROR
  | RPC_UNKNOWNHOST | RPC_UNKNOWNPROTO | RPC_UNKNOWNADDR | RPC_NOBROADCAST | RPC_RPCBFAILURE
  | RPC_PROGNOTREGISTERED | RPC_N2AXLATEFAILURE | RPC_TLIERROR | RPC_FAILED | RPC_INPROGRESS
  | RPC_STALERACHANDLE

section \<open>Messages\<close>

record opaque_auth =
  oa_flavor :: u32
  oa_base :: "byte list option"
  oa_length :: u32

text \<open>The results of an accepted call: the object at \<open>where\<close> and the filter for it.\<close>

record ('s, 'r) accepted_reply =
  ar_verf :: opaque_auth
  ar_stat :: u32
  ar_vers_low :: u32
  ar_vers_high :: u32
  ar_results_where :: 'r
  ar_results_proc :: "('s, 'r) xdrproc"

record rejected_reply =
  rj_stat :: u32
  rj_vers_low :: u32
  rj_vers_high :: u32
  rj_why :: u32

record ('s, 'r) reply_body =
  rp_stat :: u32
  rp_acpt :: "('s, 'r) accepted_reply"
  rp_rjct :: rejected_reply

record call_body =
  cb_rpcvers :: u32
  cb_prog :: u32
  cb_vers :: u32
  cb_proc :: u32
  cb_cred :: opaque_auth
  cb_verf :: opaque_auth

record ('s, 'r) rpc_msg =
  rm_xid :: u32
  rm_direction :: u32
  rm_call :: call_body
  rm_reply :: "('s, 'r) reply_body"

section \<open>Filters\<close>

definition oa_bytes_update ::
  "(byte list option \<times> u32 \<Rightarrow> byte list option \<times> u32) \<Rightarrow> opaque_auth \<Rightarrow> opaque_auth" where
  "oa_bytes_update f a = (case f (oa_base a, oa_length a) of (b, n) \<Rightarrow> a\<lparr>oa_base := b, oa_length := n\<rparr>)"

definition xdr_opaque_auth :: "('s, opaque_auth) xdrproc" where
  "xdr_opaque_auth =
     xdr_seq [xdr_field oa_flavor oa_flavor_update xdr_enum,
              xdr_field (\<lambda>a. (oa_base a, oa_length a)) oa_bytes_update (xdr_bytes MAX_AUTH_BYTES)]"

definition xdr_des_block :: "('s, byte list) xdrproc" where
  "xdr_des_block = xdr_opaque 8"

definition xdr_accepted_reply :: "('s, ('s, 'r) accepted_reply) xdrproc" where
  "xdr_accepted_reply ar x =
     (case xdr_seq [xdr_field ar_verf ar_verf_update xdr_opaque_auth,
                    xdr_field ar_stat ar_stat_update xdr_enum] ar x of
        (ok, ar, x) \<Rightarrow>
      if \<not> ok then (False, ar, x)
      else if ar_stat ar = SUCCESS then
        xdr_field ar_results_where ar_results_where_update (ar_results_proc ar) ar x
      else if ar_stat ar = PROG_MISMATCH then
        xdr_seq [xdr_field ar_vers_low ar_vers_low_update xdr_u_int32_t,
                 xdr_field ar_vers_high ar_vers_high_update xdr_u_int32_t] ar x
      else (True, ar, x))"

definition xdr_rejected_reply :: "('s, rejected_reply) xdrproc" where
  "xdr_rejected_reply rr x =
     (case xdr_field rj_stat rj_stat_update xdr_enum rr x of
        (ok, rr, x) \<Rightarrow>
      if \<not> ok then (False, rr, x)
      else if rj_stat rr = RPC_MISMATCH then
        xdr_seq [xdr_field rj_vers_low rj_vers_low_update xdr_u_int32_t,
                 xdr_field rj_vers_high rj_vers_high_update xdr_u_int32_t] rr x
      else if rj_stat rr = AUTH_ERROR then
        xdr_field rj_why rj_why_update xdr_enum rr x
      else (False, rr, x))"

definition reply_dscrm :: "(u32 \<times> ('s, ('s, 'r) accepted_reply \<times> rejected_reply) xdrproc) list" where
  "reply_dscrm =
     [(MSG_ACCEPTED, xdr_field fst apfst xdr_accepted_reply),
      (MSG_DENIED, xdr_field snd apsnd xdr_rejected_reply)]"

definition reply_union :: "('s, 'r) reply_body \<Rightarrow> u32 \<times> ('s, 'r) accepted_reply \<times> rejected_reply" where
  "reply_union r = (rp_stat r, rp_acpt r, rp_rjct r)"

definition reply_union_update ::
  "(u32 \<times> ('s, 'r) accepted_reply \<times> rejected_reply \<Rightarrow> u32 \<times> ('s, 'r) accepted_reply \<times> rejected_reply) \<Rightarrow>
   ('s, 'r) reply_body \<Rightarrow> ('s, 'r) reply_body" where
  "reply_union_update f r =
     (case f (reply_union r) of (d, a, j) \<Rightarrow> r\<lparr>rp_stat := d, rp_acpt := a, rp_rjct := j\<rparr>)"

definition xdr_replymsg :: "('s, ('s, 'r) rpc_msg) xdrproc" where
  "xdr_replymsg =
     xdr_seq [xdr_field rm_xid rm_xid_update xdr_u_int32_t,
              xdr_field rm_direction rm_direction_update xdr_enum,
              xdr_check (\<lambda>m. rm_direction m = REPLY),
              xdr_field (\<lambda>m. reply_union (rm_reply m)) (\<lambda>f. rm_reply_update (reply_union_update f))
                (xdr_union reply_dscrm None)]"

definition xdr_callhdr :: "('s, ('s, 'r) rpc_msg) xdrproc" where
  "xdr_callhdr cmsg x =
     (let cmsg = cmsg\<lparr>rm_direction := CALL, rm_call := (rm_call cmsg)\<lparr>cb_rpcvers := RPC_MSG_VERSION\<rparr>\<rparr>
      in if x_op x \<noteq> XDR_ENCODE then (False, cmsg, x)
         else xdr_seq [xdr_field rm_xid rm_xid_update xdr_u_int32_t,
                xdr_field rm_direction rm_direction_update xdr_enum,
                xdr_field (\<lambda>m. cb_rpcvers (rm_call m)) (\<lambda>f. rm_call_update (cb_rpcvers_update f)) xdr_u_int32_t,
                xdr_field (\<lambda>m. cb_prog (rm_call m)) (\<lambda>f. rm_call_update (cb_prog_update f)) xdr_u_int32_t,
                xdr_field (\<lambda>m. cb_vers (rm_call m)) (\<lambda>f. rm_call_update (cb_vers_update f)) xdr_u_int32_t]
                cmsg x)"

section \<open>Call messages\<close>

text \<open>
  The fast paths work on the block an \<open>XDR_INLINE\<close> has returned. The block is loaded, the
  \<open>IXDR_PUT_*\<close> macros and \<open>memmove\<close> change it at the word they have got to, and it is stored back
  at every exit, the early ones included.
\<close>

definition IXDR_PUT :: "nat \<Rightarrow> u32 \<Rightarrow> byte list \<Rightarrow> byte list" where
  "IXDR_PUT k w blk = store (4 * k) (be32 w) blk"

definition callmsg_put :: "('s, 'r) rpc_msg \<Rightarrow> byte list \<Rightarrow> bool \<times> byte list" where
  "callmsg_put cmsg blk =
     (let blk = IXDR_PUT 1 (rm_direction cmsg) (IXDR_PUT 0 (rm_xid cmsg) blk)
      in if rm_direction cmsg \<noteq> CALL then (False, blk)
         else let c = rm_call cmsg; blk = IXDR_PUT 2 (cb_rpcvers c) blk
         in if cb_rpcvers c \<noteq> RPC_MSG_VERSION then (False, blk)
            else let blk = IXDR_PUT 5 (cb_proc c) (IXDR_PUT 4 (cb_vers c) (IXDR_PUT 3 (cb_prog c) blk));
                     oa = cb_cred c;
                     blk = IXDR_PUT 7 (oa_length oa) (IXDR_PUT 6 (oa_flavor oa) blk);
                     blk = (if oa_length oa = 0 then blk
                            else store 32 (take (unat (oa_length oa)) (deref (oa_base oa))) blk);
                     k = (if oa_length oa = 0 then 8 else 8 + unat (rndup (oa_length oa)) div 4);
                     oa = cb_verf c;
                     blk = IXDR_PUT (k + 1) (oa_length oa) (IXDR_PUT k (oa_flavor oa) blk);
                     blk = (if oa_length oa = 0 then blk
                            else store (4 * (k + 2)) (take (unat (oa_length oa)) (deref (oa_base oa))) blk)
            in (True, blk))"

text \<open>The body of a credential or a verifier, once its length is known.\<close>

definition callmsg_body :: "('s, opaque_auth) xdrproc" where
  "callmsg_body oa x =
     (if oa_length oa = 0 then (True, oa, x)
      else if oa_length oa > MAX_AUTH_BYTES then (False, oa, x)
      else case (case oa_base oa of
                   Some b \<Rightarrow> (True, b, x)
                 | None \<Rightarrow> (case mem_alloc x of (ok, x) \<Rightarrow> (ok, zeros (unat (oa_length oa)), x))) of
        (ok, b, x) \<Rightarrow>
      if \<not> ok then (False, oa, x)
      else case XDR_INLINE x (rndup (oa_length oa)) of
        (None, x) \<Rightarrow>
          (case xdr_opaque (oa_length oa) b x of (ok, b, x) \<Rightarrow> (ok, oa\<lparr>oa_base := Some b\<rparr>, x))
      | (Some p, x) \<Rightarrow>
          (True, oa\<lparr>oa_base := Some (store 0
             (take (unat (oa_length oa)) (ixdr_load x p (unat (rndup (oa_length oa))))) b)\<rparr>, x))"

text \<open>The two words before the verifier's body, inline or through the filters.\<close>

definition callmsg_verf_head :: "('s, opaque_auth) xdrproc" where
  "callmsg_verf_head oa x =
     (case XDR_INLINE x 8 of
        (None, x) \<Rightarrow>
          xdr_seq [xdr_field oa_flavor oa_flavor_update xdr_enum,
                   xdr_field oa_length oa_length_update xdr_u_int] oa x
      | (Some p, x) \<Rightarrow>
          (let blk = ixdr_load x p 8
           in (True, oa\<lparr>oa_flavor := IXDR_GET blk 0, oa_length := IXDR_GET blk 1\<rparr>, x)))"

definition callmsg_get :: "byte list \<Rightarrow> ('s, ('s, 'r) rpc_msg) xdrproc" where
  "callmsg_get blk cmsg x =
     (let cmsg = cmsg\<lparr>rm_xid := IXDR_GET blk 0, rm_direction := IXDR_GET blk 1\<rparr>
      in if rm_direction cmsg \<noteq> CALL then (False, cmsg, x)
         else let cmsg = cmsg\<lparr>rm_call := (rm_call cmsg)\<lparr>cb_rpcvers := IXDR_GET blk 2\<rparr>\<rparr>
         in if cb_rpcvers (rm_call cmsg) \<noteq> RPC_MSG_VERSION then (False, cmsg, x)
            else let c = (rm_call cmsg)\<lparr>cb_prog := IXDR_GET blk 3, cb_vers := IXDR_GET blk 4,
                                        cb_proc := IXDR_GET blk 5\<rparr>;
                     c = c\<lparr>cb_cred := (cb_cred c)\<lparr>oa_flavor := IXDR_GET blk 6, oa_length := IXDR_GET blk 7\<rparr>\<rparr>
            in xdr_seq [xdr_field (\<lambda>m. cb_cred (rm_call m)) (\<lambda>f. rm_call_update (cb_cred_update f)) callmsg_body,
                 xdr_field (\<lambda>m. cb_verf (rm_call m)) (\<lambda>f. rm_call_update (cb_verf_update f)) callmsg_verf_head,
                 xdr_field (\<lambda>m. cb_verf (rm_call m)) (\<lambda>f. rm_call_update (cb_verf_update f)) callmsg_body]
                 (cmsg\<lparr>rm_call := c\<rparr>) x)"

definition callmsg_fields :: "('s, ('s, 'r) rpc_msg) xdrproc" where
  "callmsg_fields =
     xdr_seq [xdr_field rm_xid rm_xid_update xdr_u_int32_t,
       xdr_field rm_direction rm_direction_update xdr_enum,
       xdr_check (\<lambda>m. rm_direction m = CALL),
       xdr_field (\<lambda>m. cb_rpcvers (rm_call m)) (\<lambda>f. rm_call_update (cb_rpcvers_update f)) xdr_u_int32_t,
       xdr_check (\<lambda>m. cb_rpcvers (rm_call m) = RPC_MSG_VERSION),
       xdr_field (\<lambda>m. cb_prog (rm_call m)) (\<lambda>f. rm_call_update (cb_prog_update f)) xdr_u_int32_t,
       xdr_field (\<lambda>m. cb_vers (rm_call m)) (\<lambda>f. rm_call_update (cb_vers_update f)) xdr_u_int32_t,
       xdr_field (\<lambda>m. cb_proc (rm_call m)) (\<lambda>f. rm_call_update (cb_proc_update f)) xdr_u_int32_t,
       xdr_field (\<lambda>m. cb_cred (rm_call m)) (\<lambda>f. rm_call_update (cb_cred_update f)) xdr_opaque_auth,
       xdr_field (\<lambda>m. cb_verf (rm_call m)) (\<lambda>f. rm_call_update (cb_verf_update f)) xdr_opaque_auth]"

definition xdr_callmsg :: "('s, ('s, 'r) rpc_msg) xdrproc" where
  "xdr_callmsg cmsg x =
     (case x_op x of
        XDR_ENCODE \<Rightarrow>
          (let cl = oa_length (cb_cred (rm_call cmsg)); vl = oa_length (cb_verf (rm_call cmsg)) in
           if cl > MAX_AUTH_BYTES then (False, cmsg, x)
           else if vl > MAX_AUTH_BYTES then (False, cmsg, x)
           else let len = 8 * 4 + rndup cl + 2 * 4 + rndup vl in
           (case XDR_INLINE x len of
              (Some p, x) \<Rightarrow>
                (case callmsg_put cmsg (ixdr_load x p (unat len)) of
                   (ok, blk) \<Rightarrow> (ok, cmsg, ixdr_store x p blk))
            | (None, x) \<Rightarrow> callmsg_fields cmsg x))
      | XDR_DECODE \<Rightarrow>
          (case XDR_INLINE x (8 * 4) of
             (Some p, x) \<Rightarrow> callmsg_get (ixdr_load x p 32) cmsg x
           | (None, x) \<Rightarrow> callmsg_fields cmsg x)
      | XDR_FREE \<Rightarrow> callmsg_fields cmsg x)"

section \<open>Errors\<close>

record rpc_err =
  re_status :: clnt_stat
  re_errno :: int
  re_vers_low :: u32
  re_vers_high :: u32
  re_why :: u32
  re_s1 :: u32
  re_s2 :: u32

definition accepted :: "u32 \<Rightarrow> rpc_err \<Rightarrow> rpc_err" where
  "accepted acpt_stat error =
     (if acpt_stat = PROG_UNAVAIL then error\<lparr>re_status := RPC_PROGUNAVAIL\<rparr>
      else if acpt_stat = PROG_MISMATCH then error\<lparr>re_status := RPC_PROGVERSMISMATCH\<rparr>
      else if acpt_stat = PROC_UNAVAIL then error\<lparr>re_status := RPC_PROCUNAVAIL\<rparr>
      else if acpt_stat = GARBAGE_ARGS then error\<lparr>re_status := RPC_CANTDECODEARGS\<rparr>
      else if acpt_stat = SYSTEM_ERR then error\<lparr>re_status := RPC_SYSTEMERROR\<rparr>
      else if acpt_stat = SUCCESS then error\<lparr>re_status := RPC_SUCCESS\<rparr>
      else error\<lparr>re_status := RPC_FAILED, re_s1 := MSG_ACCEPTED, re_s2 := acpt_stat\<rparr>)"

definition rejected :: "u32 \<Rightarrow> rpc_err \<Rightarrow> rpc_err" where
  "rejected rjct_stat error =
     (if rjct_stat = RPC_MISMATCH then error\<lparr>re_status := RPC_VERSMISMATCH\<rparr>
      else if rjct_stat = AUTH_ERROR then error\<lparr>re_status := RPC_AUTHERROR\<rparr>
      else error\<lparr>re_status := RPC_FAILED, re_s1 := MSG_DENIED, re_s2 := rjct_stat\<rparr>)"

definition seterr_reply :: "('s, 'r) rpc_msg \<Rightarrow> rpc_err \<Rightarrow> rpc_err" where
  "seterr_reply msg error =
     (let rm = rm_reply msg; ar = rp_acpt rm; rj = rp_rjct rm in
      if rp_stat rm = MSG_ACCEPTED \<and> ar_stat ar = SUCCESS then error\<lparr>re_status := RPC_SUCCESS\<rparr>
      else let error =
             (if rp_stat rm = MSG_ACCEPTED then accepted (ar_stat ar) error
              else if rp_stat rm = MSG_DENIED then rejected (rj_stat rj) error
              else error\<lparr>re_status := RPC_FAILED, re_s1 := rp_stat rm\<rparr>)
      in case re_status error of
           RPC_VERSMISMATCH \<Rightarrow> error\<lparr>re_vers_low := rj_vers_low rj, re_vers_high := rj_vers_high rj\<rparr>
         | RPC_AUTHERROR \<Rightarrow> error\<lparr>re_why := rj_why rj\<rparr>
         | RPC_PROGVERSMISMATCH \<Rightarrow> error\<lparr>re_vers_low := ar_vers_low ar, re_vers_high := ar_vers_high ar\<rparr>
         | _ \<Rightarrow> error)"

section \<open>Authenticators on the wire\<close>

text \<open>The bytes an authenticator carries, and the images it may have: the padding is left open.\<close>

definition auth_bytes :: "opaque_auth \<Rightarrow> byte list" where
  "auth_bytes a = take (unat (oa_length a)) (deref (oa_base a))"

definition auth_ok :: "opaque_auth \<Rightarrow> bool" where
  "auth_ok a \<longleftrightarrow> oa_length a \<le> MAX_AUTH_BYTES \<and> length (auth_bytes a) = unat (oa_length a)"

definition enc_auth :: "opaque_auth \<Rightarrow> byte list" where
  "enc_auth a = be32 (oa_flavor a) @ enc_counted (auth_bytes a)"

definition auth_image :: "opaque_auth \<Rightarrow> byte list \<Rightarrow> bool" where
  "auth_image a img \<longleftrightarrow> (\<exists>pad. length pad = xdr_pad (length (auth_bytes a)) \<and>
     img = be32 (oa_flavor a) @ be32 (oa_length a) @ auth_bytes a @ pad)"

definition auth_into :: "opaque_auth \<Rightarrow> opaque_auth \<Rightarrow> opaque_auth" where
  "auth_into z a = \<lparr>oa_flavor = oa_flavor a, oa_base = counted_into (oa_base z) (auth_bytes a),
     oa_length = oa_length a\<rparr>"

definition auth_blocks :: "opaque_auth \<Rightarrow> opaque_auth \<Rightarrow> nat" where
  "auth_blocks z a = counted_blocks (oa_base z) (auth_bytes a)"

lemma auth_ok_length:
  assumes "auth_ok a"
  shows "of_nat (length (auth_bytes a)) = oa_length a" "unat (oa_length a) = length (auth_bytes a)"
    and "length (auth_bytes a) \<le> 400"
  using assms by (simp_all add: auth_ok_def word_le_nat_alt)

lemma auth_ok_rndup:
  "auth_ok a \<Longrightarrow> unat (rndup (oa_length a)) = length (auth_bytes a) + xdr_pad (length (auth_bytes a))"
  using unat_rndup [of "oa_length a"] auth_ok_length [of a] by simp

lemma auth_image_enc: "auth_ok a \<Longrightarrow> auth_image a (enc_auth a)"
  by (auto simp: auth_image_def enc_auth_def enc_counted_def enc_opaque_def auth_ok_length)

lemma length_auth_image:
  "auth_image a img \<Longrightarrow> length img = 8 + length (auth_bytes a) + xdr_pad (length (auth_bytes a))"
  by (auto simp: auth_image_def)

context xdr_sink
begin

lemma encodes_opaque_auth [codec]:
  assumes "auth_ok a"
  shows "encodes xdr_opaque_auth a a (enc_auth a)"
proof -
  have "take (length (auth_bytes a)) (deref (oa_base a)) = auth_bytes a"
    by (simp add: auth_bytes_def min_def)
  with encodes_counted [of "auth_bytes a" MAX_AUTH_BYTES "oa_base a"] auth_ok_length [OF assms]
  have body: "encodes (xdr_bytes MAX_AUTH_BYTES) (oa_base a, oa_length a) (oa_base a, oa_length a)
      (enc_counted (auth_bytes a))"
    by simp
  show ?thesis
    unfolding xdr_opaque_auth_def
    by (rule encodes_eq, (rule codec body | simp)+)
      (simp_all add: enc_auth_def oa_bytes_update_def)
qed

end

context xdr_source
begin

lemma decodes_opaque_auth [codec]:
  assumes "auth_ok a" and "auth_image a img"
  shows "decodes xdr_opaque_auth z (auth_into z a) img (auth_blocks z a)"
proof -
  from assms(2) obtain pad where pad: "length pad = xdr_pad (length (auth_bytes a))"
    "img = be32 (oa_flavor a) @ be32 (oa_length a) @ auth_bytes a @ pad"
    by (auto simp: auth_image_def)
  note len = auth_ok_length [OF assms(1)]
  have body: "decodes (xdr_bytes MAX_AUTH_BYTES) (oa_base z, oa_length z)
      (counted_into (oa_base z) (auth_bytes a), oa_length a)
      (be32 (oa_length a) @ auth_bytes a @ pad) (counted_blocks (oa_base z) (auth_bytes a))"
    using decodes_counted_pad [of "auth_bytes a" MAX_AUTH_BYTES pad "oa_base z" "oa_length z"] pad len
    by simp
  show ?thesis
    unfolding xdr_opaque_auth_def
      pad(2)
    by (rule decodes_eq, rule decodes_Cons, rule decodes_field, rule decodes_ints(7),
        rule decodes_last, rule decodes_field, simp, rule body)
      (simp_all add: auth_into_def auth_blocks_def oa_bytes_update_def)
qed

end

lemma frees_opaque_auth [codec]:
  "frees xdr_opaque_auth a (a\<lparr>oa_base := None\<rparr>) (if oa_base a = None then 0 else 1)"
  unfolding xdr_opaque_auth_def
  by (rule frees_eq, rule frees_Cons, rule frees_field, rule frees_scalars, rule frees_Cons,
      rule frees_field, simp, rule frees_bytes, rule frees_Nil) (simp_all add: oa_bytes_update_def)

section \<open>Call messages on the wire\<close>

definition callmsg_ok :: "('s, 'r) rpc_msg \<Rightarrow> bool" where
  "callmsg_ok m \<longleftrightarrow> rm_direction m = CALL \<and> cb_rpcvers (rm_call m) = RPC_MSG_VERSION \<and>
     auth_ok (cb_cred (rm_call m)) \<and> auth_ok (cb_verf (rm_call m))"

definition call_words :: "('s, 'r) rpc_msg \<Rightarrow> byte list" where
  "call_words m = be32 (rm_xid m) @ be32 (rm_direction m) @ be32 (cb_rpcvers (rm_call m)) @
     be32 (cb_prog (rm_call m)) @ be32 (cb_vers (rm_call m)) @ be32 (cb_proc (rm_call m))"

definition call_image :: "('s, 'r) rpc_msg \<Rightarrow> byte list \<Rightarrow> bool" where
  "call_image m img \<longleftrightarrow> (\<exists>i1 i2. auth_image (cb_cred (rm_call m)) i1 \<and>
     auth_image (cb_verf (rm_call m)) i2 \<and> img = call_words m @ i1 @ i2)"

definition enc_callmsg :: "('s, 'r) rpc_msg \<Rightarrow> byte list" where
  "enc_callmsg m = call_words m @ enc_auth (cb_cred (rm_call m)) @ enc_auth (cb_verf (rm_call m))"

definition callmsg_size :: "('s, 'r) rpc_msg \<Rightarrow> nat" where
  "callmsg_size m = 40 +
     (length (auth_bytes (cb_cred (rm_call m))) + xdr_pad (length (auth_bytes (cb_cred (rm_call m))))) +
     (length (auth_bytes (cb_verf (rm_call m))) + xdr_pad (length (auth_bytes (cb_verf (rm_call m)))))"

lemma length_call_image: "call_image m img \<Longrightarrow> length img = callmsg_size m"
  by (auto simp: call_image_def call_words_def callmsg_size_def dest!: length_auth_image)

lemma call_image_enc: "callmsg_ok m \<Longrightarrow> call_image m (enc_callmsg m)"
  by (auto simp: callmsg_ok_def call_image_def enc_callmsg_def intro: auth_image_enc)

lemma callmsg_size_le: "callmsg_ok m \<Longrightarrow> callmsg_size m \<le> 846"
  using auth_ok_length(3) [of "cb_cred (rm_call m)"] auth_ok_length(3) [of "cb_verf (rm_call m)"]
    xdr_pad_less [of "length (auth_bytes (cb_cred (rm_call m)))"]
    xdr_pad_less [of "length (auth_bytes (cb_verf (rm_call m)))"]
  by (simp add: callmsg_ok_def callmsg_size_def)

text \<open>The size the fast path asks for.\<close>

lemma callmsg_inline_len:
  assumes "callmsg_ok m"
  shows "unat (8 * 4 + rndup (oa_length (cb_cred (rm_call m))) + 2 * 4
    + rndup (oa_length (cb_verf (rm_call m)))) = callmsg_size m"
proof -
  let ?c = "rndup (oa_length (cb_cred (rm_call m)))" and ?v = "rndup (oa_length (cb_verf (rm_call m)))"
  have a: "auth_ok (cb_cred (rm_call m))" "auth_ok (cb_verf (rm_call m))"
    using assms by (simp_all add: callmsg_ok_def)
  note r = auth_ok_rndup [OF a(1)] auth_ok_rndup [OF a(2)]
  have small: "callmsg_size m < 2 ^ 32"
    using callmsg_size_le [OF assms] by simp
  have "(8 * 4 + ?c + 2 * 4 + ?v :: u32) = of_nat (callmsg_size m)"
    by (simp add: callmsg_size_def r [symmetric])
  then show ?thesis
    using small by (simp add: unat_of_nat)
qed

text \<open>What the fast path leaves in the block it was given.\<close>

lemma begins_put:
  "begins pre n blk \<Longrightarrow> length pre = 4 * k \<Longrightarrow> 4 * k + 4 \<le> n \<Longrightarrow> begins (pre @ be32 w) n (IXDR_PUT k w blk)"
  unfolding IXDR_PUT_def by (rule begins_store) simp_all

lemma callmsg_put_image:
  assumes "callmsg_ok m" and "length blk = callmsg_size m"
  obtains img where "callmsg_put m blk = (True, img)" and "call_image m img"
proof -
  let ?c = "rm_call m" and ?n = "callmsg_size m"
  let ?oa = "cb_cred ?c" and ?ov = "cb_verf ?c"
  have ok: "rm_direction m = CALL" "cb_rpcvers ?c = RPC_MSG_VERSION" "auth_ok ?oa" "auth_ok ?ov"
    using assms(1) by (simp_all add: callmsg_ok_def)
  let ?b = "auth_bytes ?oa" and ?w = "auth_bytes ?ov"
  have n: "?n = 40 + (length ?b + xdr_pad (length ?b)) + (length ?w + xdr_pad (length ?w))"
    by (simp add: callmsg_size_def)
  let ?b3 = "IXDR_PUT 5 (cb_proc ?c) (IXDR_PUT 4 (cb_vers ?c) (IXDR_PUT 3 (cb_prog ?c)
    (IXDR_PUT 2 (cb_rpcvers ?c) (IXDR_PUT 1 (rm_direction m) (IXDR_PUT 0 (rm_xid m) blk)))))"
  let ?b4 = "IXDR_PUT 7 (oa_length ?oa) (IXDR_PUT 6 (oa_flavor ?oa) ?b3)"
  let ?pre4 = "call_words m @ be32 (oa_flavor ?oa) @ be32 (oa_length ?oa)"
  have "begins (((((((([] @ be32 (rm_xid m)) @ be32 (rm_direction m)) @ be32 (cb_rpcvers ?c)) @
      be32 (cb_prog ?c)) @ be32 (cb_vers ?c)) @ be32 (cb_proc ?c)) @ be32 (oa_flavor ?oa)) @
      be32 (oa_length ?oa)) ?n ?b4"
    using assms(2) n by (intro begins_put begins_Nil) simp_all
  then have b4: "begins ?pre4 ?n ?b4"
    by (simp add: call_words_def)
  have l4: "length ?pre4 = 32" by (simp add: call_words_def)
  let ?b5 = "if oa_length ?oa = 0 then ?b4 else store 32 ?b ?b4"
  let ?k = "if oa_length ?oa = 0 then 8 else 8 + unat (rndup (oa_length ?oa)) div 4"
  have "begins (?pre4 @ ?b) ?n ?b5"
    using begins_store [OF b4 l4, of ?b] b4 n auth_ok_length(2) [OF ok(3)] by auto
  moreover have "length (?pre4 @ ?b) + xdr_pad (length ?b) \<le> ?n"
    using n l4 by simp
  ultimately obtain pad1 where pad1: "length pad1 = xdr_pad (length ?b)"
    and b5: "begins ((?pre4 @ ?b) @ pad1) ?n ?b5"
    by (rule begins_gap)
  have k: "4 * ?k = 32 + length ?b + xdr_pad (length ?b)"
    using auth_ok_length(2) [OF ok(3)] auth_ok_rndup [OF ok(3)] xdr_pad_aligned [of "length ?b"]
    by (auto simp: xdr_pad_def)
  let ?b6 = "IXDR_PUT (?k + 1) (oa_length ?ov) (IXDR_PUT ?k (oa_flavor ?ov) ?b5)"
  let ?pre6 = "(((?pre4 @ ?b) @ pad1) @ be32 (oa_flavor ?ov)) @ be32 (oa_length ?ov)"
  have b6: "begins ?pre6 ?n ?b6"
    using b5 k l4 pad1 n by (intro begins_put) simp_all
  have l6: "length ?pre6 = 4 * (?k + 2)"
    using k l4 pad1 by simp
  let ?b7 = "if oa_length ?ov = 0 then ?b6 else store (4 * (?k + 2)) ?w ?b6"
  have "begins (?pre6 @ ?w) ?n ?b7"
    using begins_store [OF b6 l6, of ?w] b6 n k auth_ok_length(2) [OF ok(4)] by auto
  moreover have "length (?pre6 @ ?w) + xdr_pad (length ?w) \<le> ?n"
    using l6 k n by simp
  ultimately obtain pad2 where pad2: "length pad2 = xdr_pad (length ?w)"
    and b7: "begins ((?pre6 @ ?w) @ pad2) ?n ?b7"
    by (rule begins_gap)
  have "?b7 = (?pre6 @ ?w) @ pad2"
    using b7 by (rule begins_all) (use l6 k n pad2 in simp)
  then have "call_image m ?b7"
    using pad1 pad2 by (auto simp: call_image_def auth_image_def)
  moreover have "callmsg_put m blk = (True, ?b7)"
    unfolding callmsg_put_def Let_def using ok(1,2) by (simp add: auth_bytes_def)
  ultimately show ?thesis by (rule that [rotated])
qed

context xdr_sink
begin

lemma encodes_callmsg_fields:
  assumes "callmsg_ok m"
  shows "encodes callmsg_fields m m (enc_callmsg m)"
  unfolding callmsg_fields_def
  by (rule encodes_eq, (rule encodes_seq encodes_ints encodes_opaque_auth
        | use assms in \<open>simp add: callmsg_ok_def; fail\<close>)+)
    (simp_all add: enc_callmsg_def call_words_def)

text \<open>
  Whether the stream grants the inline block or not, the bytes written are an image of the call;
  with the inline block the padding is whatever the block held.
\<close>

lemma callmsg_encodes:
  assumes "callmsg_ok m" and "fits s (callmsg_size m + n)"
  obtains s' img where "xdr_callmsg m (mkXDR XDR_ENCODE ops s h) = (True, m, mkXDR XDR_ENCODE ops s' h)"
    and "wrote s img s'" and "fits s' n" and "call_image m img"
proof -
  let ?len = "8 * 4 + rndup (oa_length (cb_cred (rm_call m))) + 2 * 4
    + rndup (oa_length (cb_verf (rm_call m)))"
  note len = callmsg_inline_len [OF assms(1)]
  have fits: "fits s (unat ?len + n)"
    using assms(2) unfolding len .
  have small: "\<not> MAX_AUTH_BYTES < oa_length (cb_cred (rm_call m))"
    "\<not> MAX_AUTH_BYTES < oa_length (cb_verf (rm_call m))"
    using assms(1) by (simp_all add: callmsg_ok_def auth_ok_def linorder_not_less)
  have run: "xdr_callmsg m (mkXDR XDR_ENCODE ops s h) =
      (case x_inline ops XDR_ENCODE ?len s of
         (Some p, s1) \<Rightarrow>
           (case callmsg_put m (x_load ops XDR_ENCODE p (unat ?len) s1) of
              (ok, blk) \<Rightarrow> (ok, m, mkXDR XDR_ENCODE ops (x_store ops p blk s1) h))
       | (None, s1) \<Rightarrow> callmsg_fields m (mkXDR XDR_ENCODE ops s1 h))"
    using small by (simp add: xdr_callmsg_def xdr_access_defs Let_def split: prod.splits option.splits)
  obtain r s1 where inline: "x_inline ops XDR_ENCODE ?len s = (r, s1)"
    by (cases "x_inline ops XDR_ENCODE ?len s")
  show thesis
  proof (cases r)
    case None
    with inline inline_enc_None [OF fits] have s1: "wrote s [] s1" "fits s1 (unat ?len + n)"
      by simp_all
    have "length (enc_callmsg m) = unat ?len"
      unfolding len using call_image_enc [OF assms(1)] by (rule length_call_image)
    with s1(2) have "fits s1 (length (enc_callmsg m) + n)" by simp
    then obtain s2 where
      "callmsg_fields m (mkXDR XDR_ENCODE ops s1 h) = (True, m, mkXDR XDR_ENCODE ops s2 h)"
      "wrote s1 (enc_callmsg m) s2" "fits s2 n"
      by (rule encodesE [OF encodes_callmsg_fields [OF assms(1)]])
    with wrote_append [OF s1(1), of "enc_callmsg m" s2] show thesis
      by (intro that [of s2 "enc_callmsg m"])
        (simp_all only: run inline None prod.case option.case append_Nil call_image_enc [OF assms(1)])
  next
    case (Some p)
    with inline inline_enc_Some [OF fits] have
      load: "length (x_load ops XDR_ENCODE p (unat ?len) s1) = unat ?len" and
      store: "\<And>bs. length bs = unat ?len \<Longrightarrow> wrote s bs (x_store ops p bs s1) \<and> fits (x_store ops p bs s1) n"
      by simp_all
    from callmsg_put_image [OF assms(1) load [unfolded len]] obtain img where
      img: "callmsg_put m (x_load ops XDR_ENCODE p (callmsg_size m) s1) = (True, img)" "call_image m img" .
    have "length img = unat ?len"
      unfolding len using img(2) by (rule length_call_image)
    note st = store [OF this]
    have "xdr_callmsg m (mkXDR XDR_ENCODE ops s h)
        = (True, m, mkXDR XDR_ENCODE ops (x_store ops p img s1) h)"
      by (simp only: run inline Some prod.case option.case len img(1))
    then show thesis
      using st img(2) by (intro that [of "x_store ops p img s1" img]) simp_all
  qed
qed

end

section \<open>Decoding call messages\<close>

definition callmsg_into :: "('s, 'r) rpc_msg \<Rightarrow> ('t, 'q) rpc_msg \<Rightarrow> ('s, 'r) rpc_msg" where
  "callmsg_into z m = z\<lparr>rm_xid := rm_xid m, rm_direction := rm_direction m, rm_call :=
     \<lparr>cb_rpcvers = cb_rpcvers (rm_call m), cb_prog = cb_prog (rm_call m), cb_vers = cb_vers (rm_call m),
      cb_proc = cb_proc (rm_call m), cb_cred = auth_into (cb_cred (rm_call z)) (cb_cred (rm_call m)),
      cb_verf = auth_into (cb_verf (rm_call z)) (cb_verf (rm_call m))\<rparr>\<rparr>"

definition callmsg_blocks :: "('s, 'r) rpc_msg \<Rightarrow> ('t, 'q) rpc_msg \<Rightarrow> nat" where
  "callmsg_blocks z m = auth_blocks (cb_cred (rm_call z)) (cb_cred (rm_call m)) +
     auth_blocks (cb_verf (rm_call z)) (cb_verf (rm_call m))"

context xdr_source
begin

lemma decodes_callmsg_fields:
  assumes "callmsg_ok m" and "call_image m img"
  shows "decodes callmsg_fields z (callmsg_into z m) img (callmsg_blocks z m)"
proof -
  from assms obtain i1 i2 where img: "img = call_words m @ i1 @ i2"
    and a: "auth_ok (cb_cred (rm_call m))" "auth_ok (cb_verf (rm_call m))"
      "auth_image (cb_cred (rm_call m)) i1" "auth_image (cb_verf (rm_call m)) i2"
    by (auto simp: callmsg_ok_def call_image_def)
  have ok: "rm_direction m = CALL" "cb_rpcvers (rm_call m) = RPC_MSG_VERSION"
    using assms(1) by (simp_all add: callmsg_ok_def)
  show ?thesis
    unfolding callmsg_fields_def
      img call_words_def append_assoc
    by (rule decodes_eq, (rule decodes_seq decodes_ints decodes_opaque_auth [OF a(1,3)]
          decodes_opaque_auth [OF a(2,4)] | simp add: ok; fail)+)
      (simp_all add: callmsg_into_def callmsg_blocks_def)
qed

lemma decodes_callmsg_body:
  assumes "length bs \<le> 400" and "length pad = xdr_pad (length bs)" and "oa_length oa = of_nat (length bs)"
  shows "decodes callmsg_body oa (oa\<lparr>oa_base := counted_into (oa_base oa) bs\<rparr>) (bs @ pad)
    (counted_blocks (oa_base oa) bs)"
proof (cases "bs = []")
  case True
  with assms show ?thesis
    by (cases "oa_base oa") (auto simp: callmsg_body_def counted_into_def counted_blocks_def xdr_pad_def
        intro!: decodes_nothing)
next
  case False
  let ?n = "of_nat (length bs) :: u32"
  have n: "unat ?n = length bs" "?n \<noteq> 0" "\<not> MAX_AUTH_BYTES < ?n"
    using assms(1) False handy_le [of "length bs" MAX_AUTH_BYTES] of_nat_length_neq_0 [of "length bs"]
    by (simp_all add: unat_of_nat linorder_not_less)
  have r2: "unat (rndup ?n) = length (bs @ pad)"
    using unat_rndup [of ?n] n(1) assms(1,2) by simp
  then have r1: "rndup ?n = of_nat (length (bs @ pad))"
    by (simp only: r2 [symmetric]) simp
  have r3: "length (bs @ pad) < 2 ^ 32"
    using assms(1,2) xdr_pad_less [of "length bs"] by simp
  note r = r1 r2 r3
  have opq: "decodes (xdr_opaque ?n) b (store 0 bs b) (bs @ pad) 0" for b
    by (rule decodes_opaque_pad) (use assms in simp_all)
  let ?b = "case oa_base oa of Some b \<Rightarrow> b | None \<Rightarrow> zeros (length bs)"
  have run: "callmsg_body oa (mkXDR XDR_DECODE ops s (m + counted_blocks (oa_base oa) bs)) =
      (case XDR_INLINE (mkXDR XDR_DECODE ops s m) (rndup ?n) of
        (None, x) \<Rightarrow> (case xdr_opaque ?n ?b x of (ok, b, x) \<Rightarrow> (ok, oa\<lparr>oa_base := Some b\<rparr>, x))
      | (Some p, x) \<Rightarrow> (True, oa\<lparr>oa_base := Some (store 0
            (take (length bs) (ixdr_load x p (length (bs @ pad)))) ?b)\<rparr>, x))" for s m
    using n r2 assms(3) False
    by (cases "oa_base oa") (simp_all add: callmsg_body_def counted_blocks_def split: option.split prod.split)
  have into: "Some (store 0 bs ?b) = counted_into (oa_base oa) bs"
    using False by (cases "oa_base oa") (simp_all add: counted_into_def store_def zeros_def)
  show ?thesis
  proof (rule decodesI)
    fix s rest m
    assume ready: "ready s ((bs @ pad) @ rest)"
    obtain r s1 where inline: "x_inline ops XDR_DECODE (rndup ?n) s = (r, s1)"
      by (cases "x_inline ops XDR_DECODE (rndup ?n) s")
    show "\<exists>s'. callmsg_body oa (mkXDR XDR_DECODE ops s (m + counted_blocks (oa_base oa) bs))
        = (True, oa\<lparr>oa_base := counted_into (oa_base oa) bs\<rparr>, mkXDR XDR_DECODE ops s' m) \<and> ready s' rest"
    proof (cases r)
      case None
      from inline_dec_None [OF ready r3, of s1] have "ready s1 ((bs @ pad) @ rest)"
        using inline None by (simp add: r1)
      then obtain s2 where
        "xdr_opaque ?n ?b (mkXDR XDR_DECODE ops s1 (m + 0)) = (True, store 0 bs ?b, mkXDR XDR_DECODE ops s2 m)"
        "ready s2 rest"
        by (rule decodesE [OF opq])
      then show ?thesis
        unfolding run into [symmetric] XDR_INLINE_def using inline None by simp
    next
      case (Some p)
      from inline_dec_Some [OF ready r3, of p s1] have
        "x_load ops XDR_DECODE p (length (bs @ pad)) s1 = bs @ pad" "ready s1 rest"
        using inline Some by (simp_all add: r1)
      then show ?thesis
        unfolding run into [symmetric] XDR_INLINE_def ixdr_load_def using inline Some by simp
    qed
  qed
qed

lemma decodes_callmsg_verf_head:
  "decodes callmsg_verf_head oa (oa\<lparr>oa_flavor := f, oa_length := l\<rparr>) (be32 f @ be32 l) 0"
proof (rule decodesI)
  fix s rest m
  assume ready: "ready s ((be32 f @ be32 l) @ rest)"
  have eight: "of_nat (length (be32 f @ be32 l)) = (8 :: u32)" "length (be32 f @ be32 l) < 2 ^ 32"
    by simp_all
  let ?slow = "xdr_seq [xdr_field oa_flavor oa_flavor_update xdr_enum,
      xdr_field oa_length oa_length_update xdr_u_int]"
  have slow: "decodes ?slow oa (oa\<lparr>oa_flavor := f, oa_length := l\<rparr>) (be32 f @ be32 l) 0"
    by (rule decodes_eq, (rule decodes_seq decodes_ints)+) simp_all
  show "\<exists>s'. callmsg_verf_head oa (mkXDR XDR_DECODE ops s (m + 0))
      = (True, oa\<lparr>oa_flavor := f, oa_length := l\<rparr>, mkXDR XDR_DECODE ops s' m) \<and> ready s' rest"
  proof (cases "x_inline ops XDR_DECODE 8 s")
    case (Pair r s1)
    show ?thesis
    proof (cases r)
      case None
      with Pair inline_dec_None [OF ready eight(2)] eight(1) have "ready s1 ((be32 f @ be32 l) @ rest)"
        by simp
      with slow obtain s2 where
        "?slow oa (mkXDR XDR_DECODE ops s1 (m + 0)) = (True, oa\<lparr>oa_flavor := f, oa_length := l\<rparr>,
           mkXDR XDR_DECODE ops s2 m)" "ready s2 rest"
        by (rule decodesE)
      then show ?thesis
        by (simp add: callmsg_verf_head_def xdr_access_defs Pair None del: xdr_seq.simps)
    next
      case (Some p)
      with Pair inline_dec_Some [OF ready eight(2)] eight(1) show ?thesis
        by (simp add: callmsg_verf_head_def xdr_access_defs Let_def)
    qed
  qed
qed

lemma decodes_callmsg_get:
  assumes "callmsg_ok m" and "auth_image (cb_cred (rm_call m)) i1" and "auth_image (cb_verf (rm_call m)) i2"
    and "blk = call_words m @ take 8 i1"
  shows "decodes (callmsg_get blk) z (callmsg_into z m) (drop 8 i1 @ i2) (callmsg_blocks z m)"
proof -
  let ?oa = "cb_cred (rm_call m)" and ?ov = "cb_verf (rm_call m)"
  have ok: "rm_direction m = CALL" "cb_rpcvers (rm_call m) = RPC_MSG_VERSION" "auth_ok ?oa" "auth_ok ?ov"
    using assms(1) by (simp_all add: callmsg_ok_def)
  obtain pad1 where pad1: "length pad1 = xdr_pad (length (auth_bytes ?oa))"
    "i1 = be32 (oa_flavor ?oa) @ be32 (oa_length ?oa) @ auth_bytes ?oa @ pad1"
    using assms(2) by (auto simp: auth_image_def)
  obtain pad2 where pad2: "length pad2 = xdr_pad (length (auth_bytes ?ov))"
    "i2 = be32 (oa_flavor ?ov) @ be32 (oa_length ?ov) @ auth_bytes ?ov @ pad2"
    using assms(3) by (auto simp: auth_image_def)
  have blk: "blk = be32 (rm_xid m) @ be32 (rm_direction m) @ be32 (cb_rpcvers (rm_call m)) @
      be32 (cb_prog (rm_call m)) @ be32 (cb_vers (rm_call m)) @ be32 (cb_proc (rm_call m)) @
      be32 (oa_flavor ?oa) @ be32 (oa_length ?oa)"
    using assms(4) pad1(2) by (simp add: call_words_def)
  note body1 = decodes_callmsg_body [OF auth_ok_length(3) [OF ok(3)] pad1(1)]
  note body2 = decodes_callmsg_body [OF auth_ok_length(3) [OF ok(4)] pad2(1)]
  note len = auth_ok_length(1) [OF ok(3)] auth_ok_length(1) [OF ok(4)]
  have bytes: "drop 8 i1 @ i2 = (auth_bytes ?oa @ pad1) @ (be32 (oa_flavor ?ov) @ be32 (oa_length ?ov)) @
      (auth_bytes ?ov @ pad2)"
    by (simp add: pad1(2) pad2(2))
  let ?c = "(rm_call z)\<lparr>cb_rpcvers := cb_rpcvers (rm_call m), cb_prog := cb_prog (rm_call m),
      cb_vers := cb_vers (rm_call m), cb_proc := cb_proc (rm_call m),
      cb_cred := (cb_cred (rm_call z))\<lparr>oa_flavor := oa_flavor ?oa, oa_length := oa_length ?oa\<rparr>\<rparr>"
  let ?z = "z\<lparr>rm_xid := rm_xid m, rm_direction := rm_direction m, rm_call := ?c\<rparr>"
  let ?seq = "xdr_seq [xdr_field (\<lambda>m. cb_cred (rm_call m)) (\<lambda>f. rm_call_update (cb_cred_update f)) callmsg_body,
      xdr_field (\<lambda>m. cb_verf (rm_call m)) (\<lambda>f. rm_call_update (cb_verf_update f)) callmsg_verf_head,
      xdr_field (\<lambda>m. cb_verf (rm_call m)) (\<lambda>f. rm_call_update (cb_verf_update f)) callmsg_body]"
  have seq: "decodes ?seq ?z (callmsg_into z m) (drop 8 i1 @ i2) (callmsg_blocks z m)"
    unfolding bytes
    by (rule decodes_eq, (rule decodes_seq body1 body2 decodes_callmsg_verf_head | simp add: len; fail)+)
      (simp_all add: callmsg_into_def callmsg_blocks_def auth_into_def auth_blocks_def)
  show ?thesis
    using seq
    by (rule decodes_via) (use ok in \<open>simp add: callmsg_get_def Let_def blk\<close>)
qed

text \<open>Any image of a call is decoded to the call, through the inline blocks or through the filters.\<close>

lemma decodes_callmsg [codec]:
  assumes "callmsg_ok m" and "call_image m img"
  shows "decodes xdr_callmsg z (callmsg_into z m) img (callmsg_blocks z m)"
proof (rule decodesI)
  fix s rest h
  assume ready: "ready s (img @ rest)"
  obtain i1 i2 where img: "img = call_words m @ i1 @ i2"
    "auth_image (cb_cred (rm_call m)) i1" "auth_image (cb_verf (rm_call m)) i2"
    using assms(2) by (auto simp: call_image_def)
  let ?blk = "call_words m @ take 8 i1"
  have "8 \<le> length i1"
    using length_auth_image [OF img(2)] by simp
  then have blk: "length ?blk = 32" "img = ?blk @ drop 8 i1 @ i2"
    by (simp_all add: call_words_def img(1))
  then have ready': "ready s (?blk @ ((drop 8 i1 @ i2) @ rest))"
    using ready by simp
  have len: "of_nat (length ?blk) = (8 * 4 :: u32)" "length ?blk < 2 ^ 32"
    by (simp_all add: blk(1) del: length_append)
  show "\<exists>s'. xdr_callmsg z (mkXDR XDR_DECODE ops s (h + callmsg_blocks z m))
      = (True, callmsg_into z m, mkXDR XDR_DECODE ops s' h) \<and> ready s' rest"
  proof (cases "x_inline ops XDR_DECODE (8 * 4) s")
    case (Pair r s1)
    show ?thesis
    proof (cases r)
      case None
      with Pair inline_dec_None [OF ready' len(2)] have "ready s1 (img @ rest)"
        unfolding len(1) by (simp add: blk(2))
      then obtain s2 where
        "callmsg_fields z (mkXDR XDR_DECODE ops s1 (h + callmsg_blocks z m))
           = (True, callmsg_into z m, mkXDR XDR_DECODE ops s2 h)" "ready s2 rest"
        by (rule decodesE [OF decodes_callmsg_fields [OF assms]])
      then show ?thesis
        using Pair None by (simp add: xdr_callmsg_def xdr_access_defs)
    next
      case (Some p)
      with Pair inline_dec_Some [OF ready' len(2)] have
        s1: "x_load ops XDR_DECODE p (length ?blk) s1 = ?blk" "ready s1 ((drop 8 i1 @ i2) @ rest)"
        unfolding len(1) by simp_all
      obtain s2 where
        "callmsg_get ?blk z (mkXDR XDR_DECODE ops s1 (h + callmsg_blocks z m))
           = (True, callmsg_into z m, mkXDR XDR_DECODE ops s2 h)" "ready s2 rest"
        by (rule decodesE [OF decodes_callmsg_get [OF assms(1) img(2,3) refl] s1(2)])
      moreover have "x_load ops XDR_DECODE p 32 s1 = ?blk"
        using s1(1) by (simp only: blk(1))
      ultimately show ?thesis
        using Pair Some by (simp add: xdr_callmsg_def xdr_access_defs)
    qed
  qed
qed

end

section \<open>Reply messages on the wire\<close>

definition enc_accepted_reply :: "byte list \<Rightarrow> ('s, 'r) accepted_reply \<Rightarrow> byte list" where
  "enc_accepted_reply rbs ar = enc_auth (ar_verf ar) @ be32 (ar_stat ar) @
     (if ar_stat ar = SUCCESS then rbs
      else if ar_stat ar = PROG_MISMATCH then be32 (ar_vers_low ar) @ be32 (ar_vers_high ar) else [])"

definition enc_rejected_reply :: "rejected_reply \<Rightarrow> byte list" where
  "enc_rejected_reply rr = be32 (rj_stat rr) @
     (if rj_stat rr = RPC_MISMATCH then be32 (rj_vers_low rr) @ be32 (rj_vers_high rr)
      else be32 (rj_why rr))"

definition enc_replymsg :: "byte list \<Rightarrow> ('s, 'r) rpc_msg \<Rightarrow> byte list" where
  "enc_replymsg rbs m = be32 (rm_xid m) @ be32 (rm_direction m) @ be32 (rp_stat (rm_reply m)) @
     (if rp_stat (rm_reply m) = MSG_ACCEPTED then enc_accepted_reply rbs (rp_acpt (rm_reply m))
      else enc_rejected_reply (rp_rjct (rm_reply m)))"

definition replymsg_ok :: "('s, 'r) rpc_msg \<Rightarrow> bool" where
  "replymsg_ok m \<longleftrightarrow> rm_direction m = REPLY \<and>
     (rp_stat (rm_reply m) = MSG_ACCEPTED \<and> auth_ok (ar_verf (rp_acpt (rm_reply m))) \<or>
      rp_stat (rm_reply m) = MSG_DENIED \<and>
        (rj_stat (rp_rjct (rm_reply m)) = RPC_MISMATCH \<or> rj_stat (rp_rjct (rm_reply m)) = AUTH_ERROR))"

text \<open>The reply carries results: they are then the object \<open>where\<close>, through the filter \<open>proc\<close>.\<close>

definition has_results :: "('s, 'r) rpc_msg \<Rightarrow> bool" where
  "has_results m \<longleftrightarrow> rp_stat (rm_reply m) = MSG_ACCEPTED \<and> ar_stat (rp_acpt (rm_reply m)) = SUCCESS"

context xdr_sink
begin

lemma encodes_accepted_reply:
  assumes "auth_ok (ar_verf ar)"
    and "ar_stat ar = SUCCESS \<Longrightarrow>
      encodes (ar_results_proc ar) (ar_results_where ar) (ar_results_where ar) rbs"
  shows "encodes xdr_accepted_reply ar ar (enc_accepted_reply rbs ar)"
proof -
  let ?head = "xdr_seq [xdr_field ar_verf ar_verf_update xdr_opaque_auth,
    xdr_field ar_stat ar_stat_update xdr_enum]"
  have head: "encodes ?head ar ar (enc_auth (ar_verf ar) @ be32 (ar_stat ar))"
    by (rule encodes_eq, (rule encodes_seq encodes_ints encodes_opaque_auth assms(1))+) simp_all
  consider "ar_stat ar = SUCCESS" | "ar_stat ar = PROG_MISMATCH"
    | "ar_stat ar \<noteq> SUCCESS" "ar_stat ar \<noteq> PROG_MISMATCH" by auto
  then show ?thesis
  proof cases
    case 1
    have "encodes (xdr_field ar_results_where ar_results_where_update (ar_results_proc ar)) ar ar rbs"
      by (rule encodes_eq, rule encodes_field, rule assms(2) [OF 1]) simp_all
    with head have "encodes xdr_accepted_reply ar ar ((enc_auth (ar_verf ar) @ be32 (ar_stat ar)) @ rbs)"
      by (rule encodes_bind) (simp add: xdr_accepted_reply_def 1 del: xdr_seq.simps)
    then show ?thesis by (simp add: enc_accepted_reply_def 1)
  next
    case 2
    let ?vers = "xdr_seq [xdr_field ar_vers_low ar_vers_low_update xdr_u_int32_t,
      xdr_field ar_vers_high ar_vers_high_update xdr_u_int32_t]"
    have "encodes ?vers ar ar (be32 (ar_vers_low ar) @ be32 (ar_vers_high ar))"
      by (rule encodes_eq, (rule encodes_seq encodes_ints)+) simp_all
    with head have "encodes xdr_accepted_reply ar ar ((enc_auth (ar_verf ar) @ be32 (ar_stat ar)) @
        (be32 (ar_vers_low ar) @ be32 (ar_vers_high ar)))"
      by (rule encodes_bind) (simp add: xdr_accepted_reply_def 2 del: xdr_seq.simps)
    then show ?thesis by (simp add: enc_accepted_reply_def 2)
  next
    case 3
    from head have "encodes xdr_accepted_reply ar ar (enc_auth (ar_verf ar) @ be32 (ar_stat ar))"
      by (rule encodes_via) (simp add: xdr_accepted_reply_def 3 del: xdr_seq.simps)
    with 3 show ?thesis by (simp add: enc_accepted_reply_def)
  qed
qed

lemma encodes_rejected_reply:
  assumes "rj_stat rr = RPC_MISMATCH \<or> rj_stat rr = AUTH_ERROR"
  shows "encodes xdr_rejected_reply rr rr (enc_rejected_reply rr)"
proof -
  have head: "encodes (xdr_field rj_stat rj_stat_update xdr_enum) rr rr (be32 (rj_stat rr))"
    by (rule encodes_eq, (rule encodes_seq encodes_ints)+) simp_all
  let ?vers = "xdr_seq [xdr_field rj_vers_low rj_vers_low_update xdr_u_int32_t,
      xdr_field rj_vers_high rj_vers_high_update xdr_u_int32_t]"
  have vers: "encodes ?vers rr rr (be32 (rj_vers_low rr) @ be32 (rj_vers_high rr))"
    by (rule encodes_eq, (rule encodes_seq encodes_ints)+) simp_all
  have why: "encodes (xdr_field rj_why rj_why_update xdr_enum) rr rr (be32 (rj_why rr))"
    by (rule encodes_eq, (rule encodes_seq encodes_ints)+) simp_all
  from assms show ?thesis
  proof
    assume s: "rj_stat rr = RPC_MISMATCH"
    have "encodes xdr_rejected_reply rr rr (be32 (rj_stat rr) @ (be32 (rj_vers_low rr) @ be32 (rj_vers_high rr)))"
      using head vers by (rule encodes_bind) (simp add: xdr_rejected_reply_def s del: xdr_seq.simps)
    then show ?thesis by (simp add: enc_rejected_reply_def s)
  next
    assume s: "rj_stat rr = AUTH_ERROR"
    have "encodes xdr_rejected_reply rr rr (be32 (rj_stat rr) @ be32 (rj_why rr))"
      using head why by (rule encodes_bind) (simp add: xdr_rejected_reply_def s del: xdr_seq.simps)
    then show ?thesis by (simp add: enc_rejected_reply_def s)
  qed
qed

lemma encodes_replymsg [codec]:
  assumes "replymsg_ok m"
    and "has_results m \<Longrightarrow> encodes (ar_results_proc (rp_acpt (rm_reply m)))
      (ar_results_where (rp_acpt (rm_reply m))) (ar_results_where (rp_acpt (rm_reply m))) rbs"
  shows "encodes xdr_replymsg m m (enc_replymsg rbs m)"
proof -
  let ?r = "rm_reply m"
  have dir: "rm_direction m = REPLY" using assms(1) by (simp add: replymsg_ok_def)
  have "encodes (xdr_union reply_dscrm None) (reply_union ?r) (reply_union ?r) (be32 (rp_stat ?r) @
      (if rp_stat ?r = MSG_ACCEPTED then enc_accepted_reply rbs (rp_acpt ?r)
       else enc_rejected_reply (rp_rjct ?r)))"
  proof (cases "rp_stat ?r = MSG_ACCEPTED")
    case True
    have "encodes xdr_accepted_reply (rp_acpt ?r) (rp_acpt ?r) (enc_accepted_reply rbs (rp_acpt ?r))"
      using assms True by (intro encodes_accepted_reply) (auto simp: replymsg_ok_def has_results_def)
    then have "encodes (xdr_field fst apfst xdr_accepted_reply) (rp_acpt ?r, rp_rjct ?r)
        (rp_acpt ?r, rp_rjct ?r) (enc_accepted_reply rbs (rp_acpt ?r))"
      by (intro encodes_eq [OF encodes_field]) auto
    from encodes_union [of reply_dscrm None MSG_ACCEPTED, OF _ this] show ?thesis
      by (simp add: reply_union_def True) (simp add: reply_dscrm_def)
  next
    case False
    then have d: "rp_stat ?r = MSG_DENIED" using assms(1) by (auto simp: replymsg_ok_def)
    have "encodes xdr_rejected_reply (rp_rjct ?r) (rp_rjct ?r) (enc_rejected_reply (rp_rjct ?r))"
      using assms d by (intro encodes_rejected_reply) (auto simp: replymsg_ok_def)
    then have "encodes (xdr_field snd apsnd xdr_rejected_reply) (rp_acpt ?r, rp_rjct ?r)
        (rp_acpt ?r, rp_rjct ?r) (enc_rejected_reply (rp_rjct ?r))"
      by (intro encodes_eq [OF encodes_field]) auto
    from encodes_union [of reply_dscrm None MSG_DENIED, OF _ this] show ?thesis
      by (simp add: reply_union_def d) (simp add: reply_dscrm_def)
  qed
  note union = this
  show ?thesis
    unfolding xdr_replymsg_def
    by (rule encodes_eq, (rule encodes_seq encodes_ints | simp add: dir; fail
        | simp, rule union)+) (simp_all add: enc_replymsg_def reply_union_update_def reply_union_def)
qed

end

section \<open>Decoding replies\<close>

definition accepted_into ::
  "('s, 'r) accepted_reply \<Rightarrow> ('t, 'q) accepted_reply \<Rightarrow> 'r \<Rightarrow> ('s, 'r) accepted_reply" where
  "accepted_into z a w =
     (let z = z\<lparr>ar_verf := auth_into (ar_verf z) (ar_verf a), ar_stat := ar_stat a\<rparr> in
      if ar_stat a = SUCCESS then z\<lparr>ar_results_where := w\<rparr>
      else if ar_stat a = PROG_MISMATCH
      then z\<lparr>ar_vers_low := ar_vers_low a, ar_vers_high := ar_vers_high a\<rparr> else z)"

definition rejected_into :: "rejected_reply \<Rightarrow> rejected_reply \<Rightarrow> rejected_reply" where
  "rejected_into z r =
     (let z = z\<lparr>rj_stat := rj_stat r\<rparr> in
      if rj_stat r = RPC_MISMATCH then z\<lparr>rj_vers_low := rj_vers_low r, rj_vers_high := rj_vers_high r\<rparr>
      else z\<lparr>rj_why := rj_why r\<rparr>)"

definition reply_into ::
  "('s, 'r) rpc_msg \<Rightarrow> ('t, 'q) rpc_msg \<Rightarrow> 'r \<Rightarrow> ('s, 'r) rpc_msg" where
  "reply_into z m w =
     (let r = rm_reply z; r = r\<lparr>rp_stat := rp_stat (rm_reply m)\<rparr> in
      z\<lparr>rm_xid := rm_xid m, rm_direction := rm_direction m, rm_reply :=
        (if rp_stat (rm_reply m) = MSG_ACCEPTED
         then r\<lparr>rp_acpt := accepted_into (rp_acpt r) (rp_acpt (rm_reply m)) w\<rparr>
         else r\<lparr>rp_rjct := rejected_into (rp_rjct r) (rp_rjct (rm_reply m))\<rparr>)\<rparr>)"

definition reply_blocks :: "('s, 'r) rpc_msg \<Rightarrow> ('t, 'q) rpc_msg \<Rightarrow> nat \<Rightarrow> nat" where
  "reply_blocks z m k =
     (if rp_stat (rm_reply m) = MSG_ACCEPTED
      then auth_blocks (ar_verf (rp_acpt (rm_reply z))) (ar_verf (rp_acpt (rm_reply m))) +
        (if has_results m then k else 0)
      else 0)"

context xdr_source
begin

lemma decodes_accepted_reply:
  assumes "auth_ok (ar_verf a)"
    and "ar_stat a = SUCCESS \<Longrightarrow> decodes (ar_results_proc z) (ar_results_where z) w rbs k"
  shows "decodes xdr_accepted_reply z (accepted_into z a w) (enc_accepted_reply rbs a)
    (auth_blocks (ar_verf z) (ar_verf a) + (if ar_stat a = SUCCESS then k else 0))"
proof -
  let ?head = "xdr_seq [xdr_field ar_verf ar_verf_update xdr_opaque_auth,
    xdr_field ar_stat ar_stat_update xdr_enum]"
  let ?z = "z\<lparr>ar_verf := auth_into (ar_verf z) (ar_verf a), ar_stat := ar_stat a\<rparr>"
  have head: "decodes ?head z ?z (enc_auth (ar_verf a) @ be32 (ar_stat a)) (auth_blocks (ar_verf z) (ar_verf a))"
    by (rule decodes_eq, (rule decodes_seq decodes_ints decodes_opaque_auth auth_image_enc assms(1))+) simp_all
  consider "ar_stat a = SUCCESS" | "ar_stat a = PROG_MISMATCH"
    | "ar_stat a \<noteq> SUCCESS" "ar_stat a \<noteq> PROG_MISMATCH" by auto
  then show ?thesis
  proof cases
    case 1
    have "decodes (xdr_field ar_results_where ar_results_where_update (ar_results_proc ?z)) ?z
        (?z\<lparr>ar_results_where := w\<rparr>) rbs k"
      by (rule decodes_eq, rule decodes_field, simp, rule assms(2) [OF 1]) simp_all
    with head have "decodes xdr_accepted_reply z (?z\<lparr>ar_results_where := w\<rparr>)
        ((enc_auth (ar_verf a) @ be32 (ar_stat a)) @ rbs) (auth_blocks (ar_verf z) (ar_verf a) + k)"
      by (rule decodes_bind) (simp add: xdr_accepted_reply_def 1 ac_simps del: xdr_seq.simps)
    then show ?thesis by (simp add: enc_accepted_reply_def accepted_into_def 1 Let_def)
  next
    case 2
    let ?vers = "xdr_seq [xdr_field ar_vers_low ar_vers_low_update xdr_u_int32_t,
      xdr_field ar_vers_high ar_vers_high_update xdr_u_int32_t]"
    have "decodes ?vers ?z (?z\<lparr>ar_vers_low := ar_vers_low a, ar_vers_high := ar_vers_high a\<rparr>)
        (be32 (ar_vers_low a) @ be32 (ar_vers_high a)) 0"
      by (rule decodes_eq, (rule decodes_seq decodes_ints)+) simp_all
    with head have "decodes xdr_accepted_reply z
        (?z\<lparr>ar_vers_low := ar_vers_low a, ar_vers_high := ar_vers_high a\<rparr>)
        ((enc_auth (ar_verf a) @ be32 (ar_stat a)) @ (be32 (ar_vers_low a) @ be32 (ar_vers_high a)))
        (auth_blocks (ar_verf z) (ar_verf a))"
      by (rule decodes_bind) (simp add: xdr_accepted_reply_def 2 del: xdr_seq.simps)
    then show ?thesis by (simp add: enc_accepted_reply_def accepted_into_def 2 Let_def)
  next
    case 3
    from head have "decodes xdr_accepted_reply z ?z (enc_auth (ar_verf a) @ be32 (ar_stat a))
        (auth_blocks (ar_verf z) (ar_verf a))"
      by (rule decodes_via) (simp add: xdr_accepted_reply_def 3 del: xdr_seq.simps)
    with 3 show ?thesis by (simp add: enc_accepted_reply_def accepted_into_def Let_def)
  qed
qed

lemma decodes_rejected_reply:
  assumes "rj_stat r = RPC_MISMATCH \<or> rj_stat r = AUTH_ERROR"
  shows "decodes xdr_rejected_reply z (rejected_into z r) (enc_rejected_reply r) 0"
proof -
  let ?z = "z\<lparr>rj_stat := rj_stat r\<rparr>"
  have head: "decodes (xdr_field rj_stat rj_stat_update xdr_enum) z ?z (be32 (rj_stat r)) 0"
    by (rule decodes_eq, (rule decodes_seq decodes_ints)+) simp_all
  let ?vers = "xdr_seq [xdr_field rj_vers_low rj_vers_low_update xdr_u_int32_t,
      xdr_field rj_vers_high rj_vers_high_update xdr_u_int32_t]"
  have vers: "decodes ?vers ?z (?z\<lparr>rj_vers_low := rj_vers_low r, rj_vers_high := rj_vers_high r\<rparr>)
      (be32 (rj_vers_low r) @ be32 (rj_vers_high r)) 0"
    by (rule decodes_eq, (rule decodes_seq decodes_ints)+) simp_all
  have why: "decodes (xdr_field rj_why rj_why_update xdr_enum) ?z (?z\<lparr>rj_why := rj_why r\<rparr>) (be32 (rj_why r)) 0"
    by (rule decodes_eq, (rule decodes_seq decodes_ints)+) simp_all
  from assms show ?thesis
  proof
    assume s: "rj_stat r = RPC_MISMATCH"
    have "decodes xdr_rejected_reply z (?z\<lparr>rj_vers_low := rj_vers_low r, rj_vers_high := rj_vers_high r\<rparr>)
        (be32 (rj_stat r) @ (be32 (rj_vers_low r) @ be32 (rj_vers_high r))) 0"
      using head vers by (rule decodes_bind) (simp add: xdr_rejected_reply_def s del: xdr_seq.simps)
    then show ?thesis by (simp add: enc_rejected_reply_def rejected_into_def s Let_def)
  next
    assume s: "rj_stat r = AUTH_ERROR"
    have "decodes xdr_rejected_reply z (?z\<lparr>rj_why := rj_why r\<rparr>) (be32 (rj_stat r) @ be32 (rj_why r)) 0"
      using head why by (rule decodes_bind) (simp add: xdr_rejected_reply_def s del: xdr_seq.simps)
    then show ?thesis by (simp add: enc_rejected_reply_def rejected_into_def s Let_def)
  qed
qed

lemma decodes_replymsg [codec]:
  assumes "replymsg_ok m"
    and "has_results m \<Longrightarrow> decodes (ar_results_proc (rp_acpt (rm_reply z)))
      (ar_results_where (rp_acpt (rm_reply z))) w rbs k"
  shows "decodes xdr_replymsg z (reply_into z m w) (enc_replymsg rbs m) (reply_blocks z m k)"
proof -
  let ?r = "rm_reply m" and ?y = "rm_reply z"
  have dir: "rm_direction m = REPLY" using assms(1) by (simp add: replymsg_ok_def)
  have union: "decodes (xdr_union reply_dscrm None) (reply_union ?y) (reply_union (rm_reply (reply_into z m w)))
      (be32 (rp_stat ?r) @ (if rp_stat ?r = MSG_ACCEPTED then enc_accepted_reply rbs (rp_acpt ?r)
       else enc_rejected_reply (rp_rjct ?r))) (reply_blocks z m k)"
  proof (cases "rp_stat ?r = MSG_ACCEPTED")
    case True
    have "decodes xdr_accepted_reply (rp_acpt ?y) (accepted_into (rp_acpt ?y) (rp_acpt ?r) w)
        (enc_accepted_reply rbs (rp_acpt ?r)) (reply_blocks z m k)"
      using decodes_accepted_reply [of "rp_acpt ?r" "rp_acpt ?y" w rbs k] assms True
      by (simp add: replymsg_ok_def has_results_def reply_blocks_def)
    then have "decodes (xdr_field fst apfst xdr_accepted_reply) (rp_acpt ?y, rp_rjct ?y)
        (accepted_into (rp_acpt ?y) (rp_acpt ?r) w, rp_rjct ?y) (enc_accepted_reply rbs (rp_acpt ?r))
        (reply_blocks z m k)"
      by (intro decodes_eq [OF decodes_field]) auto
    from decodes_union [of reply_dscrm None MSG_ACCEPTED, OF _ this] show ?thesis
      by (simp add: reply_union_def reply_into_def True Let_def) (simp add: reply_dscrm_def)
  next
    case False
    then have d: "rp_stat ?r = MSG_DENIED" using assms(1) by (auto simp: replymsg_ok_def)
    have "decodes xdr_rejected_reply (rp_rjct ?y) (rejected_into (rp_rjct ?y) (rp_rjct ?r))
        (enc_rejected_reply (rp_rjct ?r)) 0"
      using assms d by (intro decodes_rejected_reply) (auto simp: replymsg_ok_def)
    then have "decodes (xdr_field snd apsnd xdr_rejected_reply) (rp_acpt ?y, rp_rjct ?y)
        (rp_acpt ?y, rejected_into (rp_rjct ?y) (rp_rjct ?r)) (enc_rejected_reply (rp_rjct ?r)) 0"
      by (intro decodes_eq [OF decodes_field]) auto
    from decodes_union [of reply_dscrm None MSG_DENIED, OF _ this] show ?thesis
      by (simp add: reply_union_def reply_into_def reply_blocks_def d Let_def) (simp add: reply_dscrm_def)
  qed
  let ?pay = "be32 (rp_stat ?r) @ (if rp_stat ?r = MSG_ACCEPTED then enc_accepted_reply rbs (rp_acpt ?r)
       else enc_rejected_reply (rp_rjct ?r))"
  let ?z = "z\<lparr>rm_xid := rm_xid m, rm_direction := rm_direction m\<rparr>"
  let ?upd = "\<lambda>f. rm_reply_update (reply_union_update f)"
  have reply: "rm_reply ?z = ?y" by simp
  have upd: "?upd (\<lambda>_. reply_union (rm_reply (reply_into z m w))) ?z = reply_into z m w"
    by (simp add: reply_into_def reply_union_update_def reply_union_def Let_def)
  have "decodes (xdr_field (\<lambda>m. reply_union (rm_reply m)) ?upd (xdr_union reply_dscrm None)) ?z
      (reply_into z m w) ?pay (reply_blocks z m k)"
    by (rule decodes_eq, rule decodes_field, unfold reply, rule union, rule upd, rule refl)
  then show ?thesis
    unfolding xdr_replymsg_def enc_replymsg_def
    by (intro decodes_eq [OF decodes_Cons [OF decodes_field [OF decodes_ints(6)]
          decodes_Cons [OF decodes_field [OF decodes_ints(7)] decodes_check_Cons [OF _ decodes_last]]]])
      (use dir in \<open>simp_all add: dir\<close>)
qed

end

section \<open>Call headers\<close>

text \<open>
  \<open>xdr_callhdr\<close> serialises the first five words of the call, so that \<open>clnt_vc\<close> and \<open>clnt_dg\<close> can keep
  them and append the rest; it forces the direction and the version, and refuses to decode.
\<close>

context xdr_sink
begin

lemma encodes_callhdr:
  assumes "rm_direction m = CALL" and "cb_rpcvers (rm_call m) = RPC_MSG_VERSION"
  shows "encodes xdr_callhdr m m (take 20 (enc_callmsg m))"
proof -
  have m: "m\<lparr>rm_direction := CALL, rm_call := (rm_call m)\<lparr>cb_rpcvers := RPC_MSG_VERSION\<rparr>\<rparr> = m"
    using assms by simp
  let ?seq = "xdr_seq [xdr_field rm_xid rm_xid_update xdr_u_int32_t,
    xdr_field rm_direction rm_direction_update xdr_enum,
    xdr_field (\<lambda>m. cb_rpcvers (rm_call m)) (\<lambda>f. rm_call_update (cb_rpcvers_update f)) xdr_u_int32_t,
    xdr_field (\<lambda>m. cb_prog (rm_call m)) (\<lambda>f. rm_call_update (cb_prog_update f)) xdr_u_int32_t,
    xdr_field (\<lambda>m. cb_vers (rm_call m)) (\<lambda>f. rm_call_update (cb_vers_update f)) xdr_u_int32_t]"
  have "encodes ?seq m m (take 20 (enc_callmsg m))"
    by (rule encodes_eq, (rule encodes_seq encodes_ints)+)
      (simp_all add: enc_callmsg_def call_words_def)
  then show ?thesis
    by (rule encodes_via) (simp add: xdr_callhdr_def m Let_def del: xdr_seq.simps)
qed

end

section \<open>Messages in memory buffers\<close>

lemma callmsg_mem_encodes:
  fixes c :: "(xdr_mem, 'r) rpc_msg"
  assumes "callmsg_ok c" and "callmsg_size c \<le> unat sz" and "unat sz \<le> length buf" and "length buf < 2 ^ 63"
  obtains x img where "xdr_callmsg c (xdrmem_create addr buf sz XDR_ENCODE m) = (True, c, x)"
    and "call_image c img" and "xm_buf (x_private x) = store 0 img buf"
    and "XDR_GETPOS x = of_nat (callmsg_size c)" and "x_mem x = m"
proof -
  let ?s = "\<lparr>xm_base = addr, xm_priv = addr, xm_handy = sz, xm_buf = buf\<rparr>"
  note start = xm_start [OF assms(3,4), of addr]
  have fits: "xm_fits ?s (callmsg_size c + 0)"
    using assms(2) start by (simp add: xm_fits_def)
  have wrote: "xm_buf s' = store 0 img buf \<and> xdrmem_getpos s' = of_nat (callmsg_size c)"
    if "xm_wrote ?s img s'" and "call_image c img" for s' img
    using that start xm_getpos_skip [of "length img" ?s] length_call_image [OF that(2)]
    by (simp add: xm_wrote_def xm_write_def xdrmem_getpos_def)
  consider "xdrmem_create addr buf sz XDR_ENCODE m = mkXDR XDR_ENCODE xdrmem_ops_aligned ?s m"
    | "xdrmem_create addr buf sz XDR_ENCODE m = mkXDR XDR_ENCODE xdrmem_ops_unaligned ?s m"
    by (rule xdrmem_create_ops)
  then show thesis
  proof cases
    case 1
    obtain s' img where
      "xdr_callmsg c (mkXDR XDR_ENCODE xdrmem_ops_aligned ?s m) = (True, c, mkXDR XDR_ENCODE xdrmem_ops_aligned s' m)"
      "xm_wrote ?s img s'" "call_image c img"
      by (rule mem_aligned.callmsg_encodes [OF assms(1) fits])
    with wrote show thesis
      by (intro that [of "mkXDR XDR_ENCODE xdrmem_ops_aligned s' m" img])
        (simp_all add: 1 XDR_GETPOS_def xdrmem_getpostn)
  next
    case 2
    obtain s' img where
      "xdr_callmsg c (mkXDR XDR_ENCODE xdrmem_ops_unaligned ?s m) = (True, c, mkXDR XDR_ENCODE xdrmem_ops_unaligned s' m)"
      "xm_wrote ?s img s'" "call_image c img"
      by (rule mem_unaligned.callmsg_encodes [OF assms(1) fits])
    with wrote show thesis
      by (intro that [of "mkXDR XDR_ENCODE xdrmem_ops_unaligned s' m" img])
        (simp_all add: 2 XDR_GETPOS_def xdrmem_getpostn)
  qed
qed

text \<open>
  C5: a well-formed call message encoded by \<open>xdr_callmsg\<close> into a buffer, aligned or not, takes
  \<open>callmsg_size\<close> bytes, and decoding that buffer yields the same message (header, flavours,
  credential and verifier bytes), taking one heap block per authenticator body without a buffer.
\<close>

theorem callmsg_roundtrip:
  fixes c z :: "(xdr_mem, 'r) rpc_msg"
  assumes "callmsg_ok c" and "callmsg_size c \<le> unat sz" and "unat sz \<le> length buf" and "length buf < 2 ^ 63"
  shows "case xdr_callmsg c (xdrmem_create addr buf sz XDR_ENCODE m) of (ok, c', x) \<Rightarrow>
    ok \<and> c' = c \<and> x_mem x = m \<and> XDR_GETPOS x = of_nat (callmsg_size c) \<and>
    (case xdr_callmsg z (xdrmem_create addr' (xm_buf (x_private x)) sz XDR_DECODE (h + callmsg_blocks z c)) of
       (ok', z', y) \<Rightarrow> ok' \<and> z' = callmsg_into z c \<and> x_mem y = h)"
proof -
  obtain x img where x: "xdr_callmsg c (xdrmem_create addr buf sz XDR_ENCODE m) = (True, c, x)"
    "call_image c img" "xm_buf (x_private x) = store 0 img buf"
    "XDR_GETPOS x = of_nat (callmsg_size c)" "x_mem x = m"
    by (rule callmsg_mem_encodes [OF assms])
  have len: "length img = callmsg_size c"
    using x(2) by (rule length_call_image)
  then have buf: "length (store 0 img buf) = length buf" "take (length img) (store 0 img buf) = img"
    using assms(2,3) by (simp_all add: store_def)
  obtain y where "xdr_callmsg z (xdrmem_create addr' (store 0 img buf) sz XDR_DECODE (h + callmsg_blocks z c))
      = (True, callmsg_into z c, y)" "x_mem y = h"
    by (rule xdrmem_decode [OF mem_aligned.decodes_callmsg [OF assms(1) x(2)]
          mem_unaligned.decodes_callmsg [OF assms(1) x(2)], of sz "store 0 img buf"])
      (use assms len buf in simp_all)
  with x show ?thesis by simp
qed

text \<open>A call with a five-byte credential, decoded into an empty message.\<close>

definition sample_call :: "('s, unit) rpc_msg" where
  "sample_call =
     \<lparr>rm_xid = 7, rm_direction = CALL,
      rm_call = \<lparr>cb_rpcvers = 2, cb_prog = 100000, cb_vers = 2, cb_proc = 3,
        cb_cred = \<lparr>oa_flavor = 1, oa_base = Some [1, 2, 3, 4, 5], oa_length = 5\<rparr>,
        cb_verf = \<lparr>oa_flavor = 0, oa_base = None, oa_length = 0\<rparr>\<rparr>,
      rm_reply = \<lparr>rp_stat = 0, rp_acpt = \<lparr>ar_verf = \<lparr>oa_flavor = 0, oa_base = None, oa_length = 0\<rparr>,
        ar_stat = 0, ar_vers_low = 0, ar_vers_high = 0, ar_results_where = (), ar_results_proc = xdr_void\<rparr>,
        rp_rjct = \<lparr>rj_stat = 0, rj_vers_low = 0, rj_vers_high = 0, rj_why = 0\<rparr>\<rparr>\<rparr>"

lemma sample_call_ok: "callmsg_ok sample_call" "callmsg_size sample_call = 48"
  by (simp_all add: callmsg_ok_def auth_ok_def auth_bytes_def sample_call_def callmsg_size_def xdr_pad_def)

theorem callmsg_roundtrip_witness:
  "case xdr_callmsg (sample_call :: (xdr_mem, unit) rpc_msg)
      (xdrmem_create 0x1001 (replicate 100 0xAA) 100 XDR_ENCODE 0) of (ok, c', x) \<Rightarrow>
    ok \<and> c' = sample_call \<and> x_mem x = 0 \<and> XDR_GETPOS x = of_nat (callmsg_size (sample_call :: (xdr_mem, unit) rpc_msg)) \<and>
    (case xdr_callmsg (sample_call\<lparr>rm_xid := 0\<rparr>) (xdrmem_create 0x2000 (xm_buf (x_private x)) 100 XDR_DECODE
        (3 + callmsg_blocks (sample_call\<lparr>rm_xid := 0\<rparr> :: (xdr_mem, unit) rpc_msg)
          (sample_call :: (xdr_mem, unit) rpc_msg))) of
       (ok', z', y) \<Rightarrow> ok' \<and> z' = callmsg_into (sample_call\<lparr>rm_xid := 0\<rparr>)
         (sample_call :: (xdr_mem, unit) rpc_msg) \<and> x_mem y = 3)"
  by (rule callmsg_roundtrip) (simp_all add: sample_call_ok)

text \<open>
  C6: \<open>xdr_sizeof\<close> of \<open>xdr_callmsg\<close> is the number of bytes the message takes in a buffer, whether or
  not \<open>malloc\<close> gives the counting stream a scratch block.
\<close>

theorem xdr_sizeof_callmsg:
  assumes "callmsg_ok c"
  shows "xdr_sizeof xdr_callmsg c heap m = of_nat (callmsg_size c)"
proof -
  let ?s = "\<lparr>sz_handy = 0, sz_base = 0, sz_priv = None, sz_heap = heap\<rparr>"
  have "sz_fits ?s (callmsg_size c + 0)"
    by (simp add: sz_fits_def sz_ok_def)
  then obtain s' img where
    "xdr_callmsg c (mkXDR XDR_ENCODE sizeof_ops ?s m) = (True, c, mkXDR XDR_ENCODE sizeof_ops s' m)"
    "sz_wrote ?s img s'" "call_image c img"
    by (rule sizeof.callmsg_encodes [OF assms])
  then show ?thesis
    using length_call_image [of c img] by (simp add: xdr_sizeof_def sz_wrote_def)
qed

theorem xdr_sizeof_callmsg_witness:
  "xdr_sizeof xdr_callmsg sample_call 0 0 = 48"
  using xdr_sizeof_callmsg [of "sample_call" 0 0] by (simp add: sample_call_ok)

text \<open>
  C7: a reply message encoded by \<open>xdr_replymsg\<close> is decoded to the same verdict, verifier, mismatch
  range or results, when the results' own filter does that for the results.
\<close>

theorem replymsg_roundtrip:
  fixes r z :: "(xdr_mem, 'r) rpc_msg"
  assumes "replymsg_ok r" and "length (enc_replymsg rbs r) \<le> unat sz" and "unat sz \<le> length buf"
    and "length buf < 2 ^ 63"
    and "has_results r \<Longrightarrow> mem_aligned.encodes (ar_results_proc (rp_acpt (rm_reply r)))
      (ar_results_where (rp_acpt (rm_reply r))) (ar_results_where (rp_acpt (rm_reply r))) rbs"
    and "has_results r \<Longrightarrow> mem_unaligned.encodes (ar_results_proc (rp_acpt (rm_reply r)))
      (ar_results_where (rp_acpt (rm_reply r))) (ar_results_where (rp_acpt (rm_reply r))) rbs"
    and "has_results r \<Longrightarrow> mem_aligned.decodes (ar_results_proc (rp_acpt (rm_reply z)))
      (ar_results_where (rp_acpt (rm_reply z))) w rbs k"
    and "has_results r \<Longrightarrow> mem_unaligned.decodes (ar_results_proc (rp_acpt (rm_reply z)))
      (ar_results_where (rp_acpt (rm_reply z))) w rbs k"
  shows "case xdr_replymsg r (xdrmem_create addr buf sz XDR_ENCODE m) of (ok, r', x) \<Rightarrow>
    ok \<and> r' = r \<and> XDR_GETPOS x = of_nat (length (enc_replymsg rbs r)) \<and>
    (case xdr_replymsg z (xdrmem_create addr' (xm_buf (x_private x)) sz XDR_DECODE (h + reply_blocks z r k)) of
       (ok', z', y) \<Rightarrow> ok' \<and> z' = reply_into z r w \<and> x_mem y = h)"
proof -
  let ?bs = "enc_replymsg rbs r"
  obtain x where x: "xdr_replymsg r (xdrmem_create addr buf sz XDR_ENCODE m) = (True, r, x)"
    "xm_buf (x_private x) = store 0 ?bs buf" "XDR_GETPOS x = of_nat (length ?bs)"
    by (rule xdrmem_encode [OF mem_aligned.encodes_replymsg [OF assms(1,5)]
          mem_unaligned.encodes_replymsg [OF assms(1,6)] assms(2-4)])
  have buf: "length (store 0 ?bs buf) = length buf" "take (length ?bs) (store 0 ?bs buf) = ?bs"
    using assms(2,3) by (simp_all add: store_def)
  obtain y where "xdr_replymsg z (xdrmem_create addr' (store 0 ?bs buf) sz XDR_DECODE (h + reply_blocks z r k))
      = (True, reply_into z r w, y)" "x_mem y = h"
    by (rule xdrmem_decode [OF mem_aligned.decodes_replymsg [OF assms(1,7)]
          mem_unaligned.decodes_replymsg [OF assms(1,8)], of sz "store 0 ?bs buf"])
      (use assms(2-4) buf in simp_all)
  with x show ?thesis by simp
qed

text \<open>A successful reply whose result is one integer.\<close>

definition sample_reply :: "u32 \<Rightarrow> (xdr_mem, u32) rpc_msg" where
  "sample_reply w =
     \<lparr>rm_xid = 7, rm_direction = REPLY,
      rm_call = \<lparr>cb_rpcvers = 0, cb_prog = 0, cb_vers = 0, cb_proc = 0,
        cb_cred = \<lparr>oa_flavor = 0, oa_base = None, oa_length = 0\<rparr>,
        cb_verf = \<lparr>oa_flavor = 0, oa_base = None, oa_length = 0\<rparr>\<rparr>,
      rm_reply = \<lparr>rp_stat = MSG_ACCEPTED, rp_acpt = \<lparr>ar_verf = \<lparr>oa_flavor = 0, oa_base = None, oa_length = 0\<rparr>,
        ar_stat = SUCCESS, ar_vers_low = 0, ar_vers_high = 0, ar_results_where = w, ar_results_proc = xdr_u_int\<rparr>,
        rp_rjct = \<lparr>rj_stat = 0, rj_vers_low = 0, rj_vers_high = 0, rj_why = 0\<rparr>\<rparr>\<rparr>"

theorem replymsg_roundtrip_witness:
  "case xdr_replymsg (sample_reply 42) (xdrmem_create 0x1000 (replicate 64 0) 64 XDR_ENCODE 0) of (ok, r', x) \<Rightarrow>
    ok \<and> r' = sample_reply 42 \<and> XDR_GETPOS x = of_nat (length (enc_replymsg (be32 42) (sample_reply 42))) \<and>
    (case xdr_replymsg (sample_reply 0) (xdrmem_create 0x1002 (xm_buf (x_private x)) 64 XDR_DECODE
        (1 + reply_blocks (sample_reply 0) (sample_reply 42) 0)) of
       (ok', z', y) \<Rightarrow> ok' \<and> z' = reply_into (sample_reply 0) (sample_reply 42) 42 \<and> x_mem y = 1)"
  by (rule replymsg_roundtrip)
    (simp_all add: sample_reply_def replymsg_ok_def auth_ok_def auth_bytes_def enc_replymsg_def
      enc_accepted_reply_def enc_auth_def enc_counted_def mem_aligned.encodes_ints
      mem_unaligned.encodes_ints mem_aligned.decodes_ints mem_unaligned.decodes_ints)

text \<open>
  The inline encoding path never writes the bytes that pad a credential: with a five-byte credential
  three bytes of whatever the buffer held before (here \<open>0xAA\<close>) go out, where the filters send zeros.
\<close>

lemma xdr_callmsg_stale_padding:
  "load 32 8 (snd (callmsg_put (sample_call :: (xdr_mem, unit) rpc_msg) (replicate 48 0xAA)))
     = [1, 2, 3, 4, 5, 0xAA, 0xAA, 0xAA] \<and>
   load 32 8 (enc_callmsg (sample_call :: (xdr_mem, unit) rpc_msg)) = [1, 2, 3, 4, 5, 0, 0, 0]"
  by code_simp

section \<open>The client's view of a reply\<close>


end
