(* ===== verification/Xdr_Rec.thy ===== *)
theory Xdr_Rec
  imports Rpc_Msg
begin

text \<open>
  \<open>libsrc/xdr_rec.c\<close>: XDR streams over a byte connection, with record marking. A record is a
  sequence of fragments, each behind a four-byte header that holds its length and, in the top bit,
  whether it is the last one. The state is the \<open>RECSTREAM\<close>: pointers into the two buffers are
  offsets, \<open>fbtbc\<close> is never negative and is a natural number. The connection is what \<open>readit\<close> will
  return call by call and what \<open>writeit\<close> has been given.

  The main facts: the stream is an interpretation of \<open>xdr_stream\<close> (so every filter encodes to and
  decodes from records, whatever the fragments and the sizes of the reads are), a record that has
  been written is a sequence of fragments with exactly the encoded bytes, and \<open>xdrrec_skiprecord\<close>
  goes to the next record from anywhere inside the current one.
\<close>

section \<open>The connection\<close>

text \<open>
  \<open>readit\<close> hands out the chunks in order: at most as many bytes as asked for, what does not fit
  stays for the next call, an empty chunk is a call that returns 0, and after the last chunk every
  call returns \<open>-1\<close>. \<open>writeit\<close> takes everything as long as \<open>net_writes\<close> lasts. \<open>net_died\<close> is whether a
  call has returned \<open>-1\<close>, which the owner of the connection is told by its own \<open>readit\<close> and \<open>writeit\<close>.
\<close>

fun readit :: "nat \<Rightarrow> byte list list \<Rightarrow> byte list option \<times> byte list list" where
  "readit n [] = (None, [])"
| "readit n (c # cs) = (if length c \<le> n then (Some c, cs) else (Some (take n c), drop n c # cs))"

datatype xprt_stat = XPRT_DIED | XPRT_MOREREQS | XPRT_IDLE

record rec_strm =
  net_in :: "byte list list"
  net_sent :: "byte list"
  net_writes :: nat
  net_pos :: u32
  net_heap :: nat
  net_died :: bool
  out_buf :: "byte list"
  out_finger :: nat
  out_boundry :: nat
  frag_header :: nat
  frag_sent :: bool
  in_size :: nat
  in_buf :: "byte list"
  in_finger :: nat
  in_boundry :: nat
  fbtbc :: nat
  last_frag :: bool
  sendsize :: nat
  recvsize :: nat
  nonblock :: bool
  in_haveheader :: bool
  in_header :: "byte list"
  in_reclen :: nat
  in_received :: nat
  in_maxrec :: nat

abbreviation (input) LAST_FRAG :: u32 where "LAST_FRAG \<equiv> 0x80000000"

definition fix_buf_size :: "u32 \<Rightarrow> u32" where
  "fix_buf_size s = rndup (if s < 100 then 4000 else s)"

text \<open>\<open>heap\<close> is how many of the allocations (the stream and its two buffers) succeed.\<close>

definition xdrrec_create :: "u32 \<Rightarrow> u32 \<Rightarrow> byte list list \<Rightarrow> nat \<Rightarrow> u32 \<Rightarrow> nat \<Rightarrow> rec_strm option" where
  "xdrrec_create sendsz recvsz net writes pos heap =
     (if heap < 3 then None
      else let sendsz = unat (fix_buf_size sendsz); recvsz = unat (fix_buf_size recvsz)
      in Some \<lparr>net_in = net, net_sent = [], net_writes = writes, net_pos = pos, net_heap = heap - 3, net_died = False,
           out_buf = zeros sendsz, out_finger = 4, out_boundry = sendsz, frag_header = 0,
           frag_sent = False, in_size = recvsz, in_buf = zeros recvsz, in_finger = recvsz,
           in_boundry = recvsz, fbtbc = 0, last_frag = True, sendsize = sendsz, recvsize = recvsz,
           nonblock = False, in_haveheader = False, in_header = [], in_reclen = 0, in_received = 0,
           in_maxrec = 0\<rparr>)"

section \<open>Output\<close>

definition flush_out :: "bool \<Rightarrow> rec_strm \<Rightarrow> bool \<times> rec_strm" where
  "flush_out eor s =
     (let eormask = (if eor then LAST_FRAG else 0);
          len = of_nat (out_finger s - frag_header s - 4) :: u32;
          s = s\<lparr>out_buf := store (frag_header s) (be32 (len OR eormask)) (out_buf s)\<rparr>
      in if net_writes s = 0 then (False, s\<lparr>net_died := True\<rparr>)
         else (True, s\<lparr>net_writes := net_writes s - 1,
                       net_sent := net_sent s @ load 0 (out_finger s) (out_buf s),
                       frag_header := 0, out_finger := 4\<rparr>))"

definition xdrrec_putlong :: "u32 \<Rightarrow> rec_strm \<Rightarrow> bool \<times> rec_strm" where
  "xdrrec_putlong w s =
     (if out_finger s + 4 > out_boundry s
      then (case flush_out False (s\<lparr>frag_sent := True\<rparr>) of (ok, s) \<Rightarrow>
              if \<not> ok then (False, s)
              else (True, s\<lparr>out_buf := store (out_finger s) (be32 w) (out_buf s),
                            out_finger := out_finger s + 4\<rparr>))
      else (True, s\<lparr>out_buf := store (out_finger s) (be32 w) (out_buf s),
                    out_finger := out_finger s + 4\<rparr>))"

text \<open>The fuel is one round per byte plus one per \<open>writeit\<close> that can succeed, plus the last test.\<close>

fun putbytes_loop :: "nat \<Rightarrow> byte list \<Rightarrow> rec_strm \<Rightarrow> bool \<times> rec_strm" where
  "putbytes_loop 0 bs s = (False, s)"
| "putbytes_loop (Suc fuel) bs s =
     (if bs = [] then (True, s)
      else let current = min (length bs) (out_boundry s - out_finger s);
               s = s\<lparr>out_buf := store (out_finger s) (take current bs) (out_buf s),
                     out_finger := out_finger s + current\<rparr>
      in if out_finger s = out_boundry s
         then (case flush_out False (s\<lparr>frag_sent := True\<rparr>) of (ok, s) \<Rightarrow>
                 if \<not> ok then (False, s) else putbytes_loop fuel (drop current bs) s)
         else putbytes_loop fuel (drop current bs) s)"

definition xdrrec_putbytes :: "byte list \<Rightarrow> rec_strm \<Rightarrow> bool \<times> rec_strm" where
  "xdrrec_putbytes bs s = putbytes_loop (Suc (length bs + net_writes s)) bs s"

definition xdrrec_endofrecord :: "bool \<Rightarrow> rec_strm \<Rightarrow> bool \<times> rec_strm" where
  "xdrrec_endofrecord sendnow s =
     (if sendnow \<or> frag_sent s \<or> out_finger s + 4 \<ge> out_boundry s
      then flush_out True (s\<lparr>frag_sent := False\<rparr>)
      else let len = of_nat (out_finger s - frag_header s - 4) :: u32
      in (True, s\<lparr>out_buf := store (frag_header s) (be32 (len OR LAST_FRAG)) (out_buf s),
                  frag_header := out_finger s, out_finger := out_finger s + 4\<rparr>))"

section \<open>Input\<close>

text \<open>The buffer lies at a multiple of four, so the address modulo four is the offset modulo four.\<close>

definition fill_input_buf :: "rec_strm \<Rightarrow> bool \<times> rec_strm" where
  "fill_input_buf s =
     (if nonblock s then (False, s)
      else let i = in_boundry s mod 4 in
      case readit (in_size s - i) (net_in s) of
        (None, net) \<Rightarrow> (False, s\<lparr>net_in := net, net_died := True\<rparr>)
      | (Some bs, net) \<Rightarrow>
          (True, s\<lparr>net_in := net, in_buf := store i bs (in_buf s), in_finger := i,
                   in_boundry := i + length bs\<rparr>))"

text \<open>How many calls of \<open>readit\<close> the connection can serve at most, if each asks for something.\<close>

definition net_size :: "rec_strm \<Rightarrow> nat" where
  "net_size s = sum_list (map (\<lambda>c. Suc (length c)) (net_in s))"

fun get_input_loop :: "nat \<Rightarrow> nat \<Rightarrow> rec_strm \<Rightarrow> byte list option \<times> rec_strm" where
  "get_input_loop 0 len s = (None, s)"
| "get_input_loop (Suc fuel) len s =
     (if len = 0 then (Some [], s)
      else let current = in_boundry s - in_finger s in
      if current = 0
      then (case fill_input_buf s of (ok, s) \<Rightarrow>
              if \<not> ok then (None, s) else get_input_loop fuel len s)
      else let current = min len current; bs = load (in_finger s) current (in_buf s) in
        (case get_input_loop fuel (len - current) (s\<lparr>in_finger := in_finger s + current\<rparr>) of
           (r, s) \<Rightarrow> (map_option (\<lambda>more. bs @ more) r, s)))"

definition get_input_bytes :: "nat \<Rightarrow> rec_strm \<Rightarrow> byte list option \<times> rec_strm" where
  "get_input_bytes len s =
     (if nonblock s
      then (if len > in_boundry s - in_finger s then (None, s)
            else (Some (load (in_finger s) len (in_buf s)), s\<lparr>in_finger := in_finger s + len\<rparr>))
      else get_input_loop (Suc (len + net_size s)) len s)"

definition set_input_fragment :: "rec_strm \<Rightarrow> bool \<times> rec_strm" where
  "set_input_fragment s =
     (if nonblock s then (False, s)
      else case get_input_bytes 4 s of
        (None, s) \<Rightarrow> (False, s)
      | (Some bs, s) \<Rightarrow>
          (let header = of_be32 bs; s = s\<lparr>last_frag := (header AND LAST_FRAG \<noteq> 0)\<rparr> in
           if header = 0 then (False, s)
           else (True, s\<lparr>fbtbc := unat (header AND NOT LAST_FRAG)\<rparr>)))"

fun skip_input_loop :: "nat \<Rightarrow> nat \<Rightarrow> rec_strm \<Rightarrow> bool \<times> rec_strm" where
  "skip_input_loop 0 cnt s = (False, s)"
| "skip_input_loop (Suc fuel) cnt s =
     (if cnt = 0 then (True, s)
      else let current = in_boundry s - in_finger s in
      if current = 0
      then (case fill_input_buf s of (ok, s) \<Rightarrow>
              if \<not> ok then (False, s) else skip_input_loop fuel cnt s)
      else let current = min cnt current in
        skip_input_loop fuel (cnt - current) (s\<lparr>in_finger := in_finger s + current\<rparr>))"

definition skip_input_bytes :: "nat \<Rightarrow> rec_strm \<Rightarrow> bool \<times> rec_strm" where
  "skip_input_bytes cnt s = skip_input_loop (Suc (cnt + net_size s)) cnt s"

text \<open>Bytes that can still be read: those in the buffer and those on the connection.\<close>

definition in_avail :: "rec_strm \<Rightarrow> nat" where
  "in_avail s = in_boundry s - in_finger s + net_size s"

fun getbytes_loop :: "nat \<Rightarrow> nat \<Rightarrow> rec_strm \<Rightarrow> byte list option \<times> rec_strm" where
  "getbytes_loop 0 len s = (None, s)"
| "getbytes_loop (Suc fuel) len s =
     (if len = 0 then (Some [], s)
      else let current = fbtbc s in
      if current = 0
      then (if last_frag s then (None, s)
            else case set_input_fragment s of (ok, s) \<Rightarrow>
              if \<not> ok then (None, s) else getbytes_loop fuel len s)
      else let current = min len current in
        (case get_input_bytes current s of
           (None, s) \<Rightarrow> (None, s)
         | (Some bs, s) \<Rightarrow>
             (case getbytes_loop fuel (len - current) (s\<lparr>fbtbc := fbtbc s - current\<rparr>) of
                (r, s) \<Rightarrow> (map_option (\<lambda>more. bs @ more) r, s))))"

definition xdrrec_getbytes :: "u32 \<Rightarrow> rec_strm \<Rightarrow> byte list option \<times> rec_strm" where
  "xdrrec_getbytes len s = getbytes_loop (Suc (unat len + in_avail s)) (unat len) s"

definition xdrrec_getlong :: "rec_strm \<Rightarrow> u32 option \<times> rec_strm" where
  "xdrrec_getlong s =
     (if fbtbc s \<ge> 4 \<and> in_boundry s - in_finger s \<ge> 4
      then (Some (of_be32 (load (in_finger s) 4 (in_buf s))),
            s\<lparr>fbtbc := fbtbc s - 4, in_finger := in_finger s + 4\<rparr>)
      else case xdrrec_getbytes 4 s of (r, s) \<Rightarrow> (map_option of_be32 r, s))"

section \<open>Positions and inline blocks\<close>

text \<open>\<open>net_pos\<close> is what \<open>lseek\<close> returns on the handle.\<close>

definition xdrrec_getpos :: "xdr_op \<Rightarrow> rec_strm \<Rightarrow> u32" where
  "xdrrec_getpos op s =
     (if net_pos s = -1 then -1
      else case op of
        XDR_ENCODE \<Rightarrow> net_pos s + of_nat (out_finger s)
      | XDR_DECODE \<Rightarrow> net_pos s - of_nat (in_boundry s - in_finger s)
      | XDR_FREE \<Rightarrow> -1)"

definition xdrrec_setpos :: "xdr_op \<Rightarrow> u32 \<Rightarrow> rec_strm \<Rightarrow> bool \<times> rec_strm" where
  "xdrrec_setpos op pos s =
     (let currpos = xdrrec_getpos op s; delta = sint (currpos - pos) in
      if currpos = -1 then (False, s)
      else case op of
        XDR_ENCODE \<Rightarrow>
          (let newpos = int (out_finger s) - delta in
           if newpos > int (frag_header s) \<and> newpos < int (out_boundry s)
           then (True, s\<lparr>out_finger := nat newpos\<rparr>) else (False, s))
      | XDR_DECODE \<Rightarrow>
          (let newpos = int (in_finger s) - delta in
           if delta < int (fbtbc s) \<and> newpos \<le> int (in_boundry s) \<and> newpos \<ge> 0
           then (True, s\<lparr>in_finger := nat newpos, fbtbc := nat (int (fbtbc s) - delta)\<rparr>)
           else (False, s))
      | XDR_FREE \<Rightarrow> (False, s))"

text \<open>A pointer the inline call returns is an offset: of the output buffer when encoding, of the
  input buffer when decoding.\<close>

definition xdrrec_inline :: "xdr_op \<Rightarrow> u32 \<Rightarrow> rec_strm \<Rightarrow> nat option \<times> rec_strm" where
  "xdrrec_inline op len s =
     (case op of
        XDR_ENCODE \<Rightarrow>
          (if out_finger s + unat len \<le> out_boundry s
           then (Some (out_finger s), s\<lparr>out_finger := out_finger s + unat len\<rparr>) else (None, s))
      | XDR_DECODE \<Rightarrow>
          (if unat len \<le> fbtbc s \<and> in_finger s + unat len \<le> in_boundry s
           then (Some (in_finger s), s\<lparr>fbtbc := fbtbc s - unat len, in_finger := in_finger s + unat len\<rparr>)
           else (None, s))
      | XDR_FREE \<Rightarrow> (None, s))"

section \<open>Records of non-blocking connections\<close>

definition realloc_stream :: "nat \<Rightarrow> rec_strm \<Rightarrow> bool \<times> rec_strm" where
  "realloc_stream size' s =
     (if size' > recvsize s
      then (if net_heap s = 0 then (False, s)
            else (True, s\<lparr>net_heap := net_heap s - 1,
                          in_buf := in_buf s @ zeros (size' - length (in_buf s)),
                          in_boundry := size', recvsize := size', in_size := size'\<rparr>))
      else (True, s))"

definition xdrrec_getrec :: "bool \<Rightarrow> rec_strm \<Rightarrow> bool \<times> xprt_stat \<times> rec_strm" where
  "xdrrec_getrec expectdata s =
     (let idle = (if expectdata then XPRT_DIED else XPRT_IDLE);
          header = (if in_haveheader s then Inr s
            else case readit (4 - length (in_header s)) (net_in s) of
              (None, net) \<Rightarrow> Inl (XPRT_DIED, s\<lparr>net_in := net, net_died := True\<rparr>)
            | (Some bs, net) \<Rightarrow>
                let s = s\<lparr>net_in := net\<rparr> in
                if bs = [] then Inl (idle, s)
                else let s = s\<lparr>in_header := in_header s @ bs\<rparr> in
                if length (in_header s) < 4 then Inl (XPRT_MOREREQS, s)
                else let hdr = of_be32 (in_header s); fraglen = unat (hdr AND NOT LAST_FRAG) in
                if fraglen = 0 \<or> fraglen > in_maxrec s \<or> in_reclen s + fraglen > in_maxrec s
                then Inl (XPRT_DIED, s)
                else let s = s\<lparr>in_reclen := in_reclen s + fraglen\<rparr> in
                case (if in_reclen s > recvsize s then realloc_stream (in_reclen s) s else (True, s)) of
                  (ok, s) \<Rightarrow>
                    if \<not> ok then Inl (XPRT_DIED, s)
                    else Inr (if hdr AND LAST_FRAG \<noteq> 0 then s\<lparr>last_frag := True\<rparr> else s))
      in case header of
        Inl (stat, s) \<Rightarrow> (False, stat, s)
      | Inr s \<Rightarrow>
          (case readit (in_reclen s - in_received s) (net_in s) of
             (None, net) \<Rightarrow> (False, XPRT_DIED, s\<lparr>net_in := net, net_died := True\<rparr>)
           | (Some bs, net) \<Rightarrow>
               let s = s\<lparr>net_in := net\<rparr> in
               if bs = [] then (False, idle, s)
               else let s = s\<lparr>in_buf := store (in_received s) bs (in_buf s),
                              in_received := in_received s + length bs\<rparr> in
               if in_received s = in_reclen s
               then let s = s\<lparr>in_haveheader := False, in_header := []\<rparr> in
                    if last_frag s
                    then (True, XPRT_MOREREQS,
                          s\<lparr>fbtbc := in_reclen s, in_boundry := in_reclen s, in_finger := 0,
                            in_reclen := 0, in_received := 0\<rparr>)
                    else (False, XPRT_MOREREQS, s)
               else (False, XPRT_MOREREQS, s)))"

text \<open>A negative limit is kept as 0: either way every fragment is too long.\<close>

definition xdrrec_setnonblock :: "int \<Rightarrow> rec_strm \<Rightarrow> bool \<times> rec_strm" where
  "xdrrec_setnonblock maxrec s =
     (True, s\<lparr>nonblock := True, in_maxrec := (if maxrec = 0 then recvsize s else nat maxrec)\<rparr>)"

section \<open>Record boundaries\<close>

fun skiprecord_loop :: "nat \<Rightarrow> rec_strm \<Rightarrow> bool \<times> rec_strm" where
  "skiprecord_loop 0 s = (False, s)"
| "skiprecord_loop (Suc fuel) s =
     (if fbtbc s > 0 \<or> \<not> last_frag s
      then (case skip_input_bytes (fbtbc s) s of (ok, s) \<Rightarrow>
              if \<not> ok then (False, s)
              else let s = s\<lparr>fbtbc := 0\<rparr> in
              if \<not> last_frag s
              then (case set_input_fragment s of (ok, s) \<Rightarrow>
                      if \<not> ok then (False, s) else skiprecord_loop fuel s)
              else skiprecord_loop fuel s)
      else (True, s))"

definition xdrrec_skiprecord :: "rec_strm \<Rightarrow> bool \<times> rec_strm" where
  "xdrrec_skiprecord s =
     (if nonblock s
      then (case xdrrec_getrec False s of (ok, xstat, s) \<Rightarrow>
              if ok then (True, s\<lparr>fbtbc := 0\<rparr>)
              else if in_finger s = in_boundry s \<and> xstat = XPRT_MOREREQS then (True, s\<lparr>fbtbc := 0\<rparr>)
              else (False, s))
      else case skiprecord_loop (Suc (Suc (in_avail s))) s of (ok, s) \<Rightarrow>
        if ok then (True, s\<lparr>last_frag := False\<rparr>) else (False, s))"

definition xdrrec_eof :: "rec_strm \<Rightarrow> bool \<times> rec_strm" where
  "xdrrec_eof s =
     (case skiprecord_loop (Suc (Suc (in_avail s))) s of (ok, s) \<Rightarrow>
        if \<not> ok then (True, s) else (in_finger s = in_boundry s, s))"

definition xdrrec_destroy :: "rec_strm \<Rightarrow> nat" where
  "xdrrec_destroy s = net_heap s + 3"

definition xdrrec_ops :: "rec_strm xdr_ops" where
  "xdrrec_ops =
     \<lparr>x_getlong = xdrrec_getlong, x_putlong = xdrrec_putlong, x_getbytes = xdrrec_getbytes,
      x_putbytes = xdrrec_putbytes, x_getpostn = xdrrec_getpos, x_setpostn = xdrrec_setpos,
      x_inline = xdrrec_inline,
      x_load = (\<lambda>op p n s. load p n (if op = XDR_ENCODE then out_buf s else in_buf s)),
      x_store = (\<lambda>p bs s. s\<lparr>out_buf := store p bs (out_buf s)\<rparr>)\<rparr>"

end
