(* ===== verification/Rec_Marking.thy ===== *)
theory Rec_Marking
  imports Xdr_Rec
begin

text \<open>
  What the record stream of \<open>Xdr_Rec\<close> promises: the fragments on the wire, the bytes that are still
  to come on the input side, the bytes that have gone out on the output side, and the stream as an
  interpretation of \<open>xdr_stream\<close>.
\<close>

section \<open>Fragments and records on the wire\<close>

definition frag_word :: "bool \<Rightarrow> nat \<Rightarrow> u32" where
  "frag_word lst n = of_nat n OR (if lst then LAST_FRAG else 0)"

definition frag :: "bool \<Rightarrow> byte list \<Rightarrow> byte list" where
  "frag lst p = be32 (frag_word lst (length p)) @ p"

fun enc_frags :: "byte list list \<Rightarrow> byte list" where
  "enc_frags [] = []"
| "enc_frags [p] = frag True p"
| "enc_frags (p # q # ps) = frag False p @ enc_frags (q # ps)"

text \<open>Fragments are below 2^31 bytes and only the last one of a record may be empty.\<close>

definition frags_ok :: "byte list list \<Rightarrow> bool" where
  "frags_ok ps \<longleftrightarrow> (\<forall>p \<in> set ps. length p < 2 ^ 31) \<and> (\<forall>p \<in> set (butlast ps). p \<noteq> [])"

lemma bit_LAST_FRAG: "bit LAST_FRAG k \<longleftrightarrow> k = 31"
proof -
  have "LAST_FRAG = 2 ^ 31" by simp
  then show ?thesis by (simp only: bit_exp_iff possible_bit_word) auto
qed

lemma mask_top_bit:
  assumes "\<And>k. bit (L :: u32) k \<longleftrightarrow> k = 31" and "\<And>k. 31 \<le> k \<Longrightarrow> \<not> bit (w :: u32) k"
  shows "(w OR (if lst then L else 0)) AND L = (if lst then L else 0)"
    and "(w OR (if lst then L else 0)) AND NOT L = w"
  by (rule bit_word_eqI; use assms in \<open>auto simp: bit_and_iff bit_or_iff bit_not_iff\<close>)+

lemma frag_word_bits:
  assumes "n < 2 ^ 31"
  shows "(frag_word lst n AND LAST_FRAG \<noteq> 0) = lst"
    and "unat (frag_word lst n AND NOT LAST_FRAG) = n"
    and "frag_word lst n = 0 \<longleftrightarrow> \<not> lst \<and> n = 0"
proof -
  let ?w = "of_nat n :: u32"
  have n: "unat ?w = n" using assms by (simp add: unat_of_nat)
  have small: "\<not> bit ?w k" if "31 \<le> k" for k
  proof -
    have "take_bit 31 ?w = ?w"
      using assms n by (simp add: word_unat_eq_iff unsigned_take_bit_eq take_bit_nat_eq_self)
    then show ?thesis using that by (metis bit_take_bit_iff not_less)
  qed
  note b = mask_top_bit [OF bit_LAST_FRAG small, of lst, folded frag_word_def]
  have a: "frag_word lst n AND LAST_FRAG = (if lst then LAST_FRAG else 0)"
    by (rule b(1))
  then show "(frag_word lst n AND LAST_FRAG \<noteq> 0) = lst" by simp
  have "frag_word lst n AND NOT LAST_FRAG = ?w"
    by (rule b(2))
  then show m: "unat (frag_word lst n AND NOT LAST_FRAG) = n"
    using n by simp
  show "frag_word lst n = 0 \<longleftrightarrow> \<not> lst \<and> n = 0"
    using a m by (auto simp: frag_word_def split: if_splits)
qed

lemma length_frag [simp]: "length (frag lst p) = 4 + length p"
  by (simp add: frag_def)

lemma enc_frags_Cons: "enc_frags (p # ps) = frag (ps = []) p @ enc_frags ps"
  by (cases ps) simp_all

lemma enc_frags_snoc: "enc_frags (ps @ [p]) = concat (map (frag False) ps) @ frag True p"
proof (induction ps)
  case (Cons q ps)
  then show ?case by (cases ps) simp_all
qed simp

lemma length_enc_frags: "length (enc_frags ps) = 4 * length ps + length (concat ps)"
  by (induction ps) (simp_all add: enc_frags_Cons)

lemma frags_ok_Cons:
  "frags_ok (p # ps) \<longleftrightarrow> length p < 2 ^ 31 \<and> (ps \<noteq> [] \<longrightarrow> p \<noteq> []) \<and> frags_ok ps"
  by (auto simp: frags_ok_def)

section \<open>Reading\<close>

text \<open>The bytes the stream has yet to consume, and the state it keeps of its input buffer.\<close>

definition pending :: "rec_strm \<Rightarrow> byte list" where
  "pending s = load (in_finger s) (in_boundry s - in_finger s) (in_buf s) @ concat (net_in s)"

definition in_ok :: "rec_strm \<Rightarrow> bool" where
  "in_ok s \<longleftrightarrow> \<not> nonblock s \<and> in_finger s \<le> in_boundry s \<and> in_boundry s \<le> in_size s \<and>
     length (in_buf s) = in_size s \<and> 4 \<le> in_size s"

definition same_frag :: "rec_strm \<Rightarrow> rec_strm \<Rightarrow> bool" where
  "same_frag s s' \<longleftrightarrow> fbtbc s' = fbtbc s \<and> last_frag s' = last_frag s"

lemma same_frag_refl [simp]: "same_frag s s"
  by (simp add: same_frag_def)

lemma same_frag_trans: "same_frag s s1 \<Longrightarrow> same_frag s1 s2 \<Longrightarrow> same_frag s s2"
  by (simp add: same_frag_def)

lemma length_pending: "in_ok s \<Longrightarrow> length (pending s) \<le> in_avail s"
proof -
  have "length (concat cs) \<le> sum_list (map (\<lambda>c. Suc (length c)) cs)" for cs :: "byte list list"
    by (induction cs) simp_all
  from add_left_mono [OF this [of "net_in s"], of "in_boundry s - in_finger s"]
  show "in_ok s \<Longrightarrow> length (pending s) \<le> in_avail s"
    by (simp add: pending_def in_avail_def net_size_def in_ok_def length_load)
qed

lemma readit_Some:
  assumes "readit n net = (Some bs, net')" and "0 < n"
  shows "length bs \<le> n" "bs @ concat net' = concat net"
    and "sum_list (map (\<lambda>c. Suc (length c)) net') < sum_list (map (\<lambda>c. Suc (length c)) net)"
  using assms by (cases net; force split: if_splits)+

lemma fill_input_buf_spec:
  assumes "in_ok s" and "in_finger s = in_boundry s"
  shows "net_in s = [] \<Longrightarrow> fill_input_buf s = (False, s\<lparr>net_died := True\<rparr>)"
    and "net_in s \<noteq> [] \<Longrightarrow> \<exists>s'. fill_input_buf s = (True, s') \<and> in_ok s' \<and> pending s' = pending s
      \<and> net_size s' < net_size s \<and> same_frag s s'"
proof -
  show "net_in s = [] \<Longrightarrow> fill_input_buf s = (False, s\<lparr>net_died := True\<rparr>)"
    using assms(1) by (simp add: fill_input_buf_def in_ok_def)
next
  assume "net_in s \<noteq> []"
  let ?i = "in_boundry s mod 4"
  have i: "?i < 4" by simp
  have "4 \<le> in_size s" using assms(1) by (simp add: in_ok_def)
  with i have room: "0 < in_size s - ?i" by linarith
  obtain bs net where r: "readit (in_size s - ?i) (net_in s) = (Some bs, net)"
    using \<open>net_in s \<noteq> []\<close> by (cases "readit (in_size s - ?i) (net_in s)"; cases "net_in s")
      (auto split: if_splits)
  note n = readit_Some [OF r room]
  let ?s = "s\<lparr>net_in := net, in_buf := store ?i bs (in_buf s), in_finger := ?i, in_boundry := ?i + length bs\<rparr>"
  have fit: "?i + length bs \<le> in_size s"
    using n(1) room by linarith
  have "fill_input_buf s = (True, ?s)"
    using assms(1) by (simp add: fill_input_buf_def in_ok_def r Let_def)
  moreover have "in_ok ?s"
    using assms(1) fit by (simp add: in_ok_def block_simps)
  moreover have "pending ?s = pending s"
    using n(2) assms fit by (simp add: pending_def in_ok_def block_simps)
  moreover have "net_size ?s < net_size s"
    using n(3) by (simp add: net_size_def)
  ultimately show "\<exists>s'. fill_input_buf s = (True, s') \<and> in_ok s' \<and> pending s' = pending s
      \<and> net_size s' < net_size s \<and> same_frag s s'"
    by (intro exI [of _ ?s]) (simp add: same_frag_def)
qed

text \<open>Consuming from the buffer.\<close>

lemma advance_in:
  assumes "in_ok s" and "c \<le> in_boundry s - in_finger s"
  shows "in_ok (s\<lparr>in_finger := in_finger s + c\<rparr>)"
    and "load (in_finger s) c (in_buf s) = take c (pending s)"
    and "pending (s\<lparr>in_finger := in_finger s + c\<rparr>) = drop c (pending s)"
proof -
  have len: "length (load (in_finger s) (in_boundry s - in_finger s) (in_buf s)) = in_boundry s - in_finger s"
    using assms(1) by (simp add: in_ok_def block_simps)
  show "in_ok (s\<lparr>in_finger := in_finger s + c\<rparr>)"
    using assms by (auto simp: in_ok_def)
  have "load (in_finger s) c (in_buf s) = take c (load (in_finger s) (in_boundry s - in_finger s) (in_buf s))"
    using assms(2) by (intro load_take_eq) simp_all
  then show "load (in_finger s) c (in_buf s) = take c (pending s)"
    using assms(2) len by (simp add: pending_def)
  have "load (in_finger s + c) (in_boundry s - in_finger s - c) (in_buf s)
      = drop c (load (in_finger s) (in_boundry s - in_finger s) (in_buf s))"
    using assms(2) by (intro load_shift) simp_all
  then show "pending (s\<lparr>in_finger := in_finger s + c\<rparr>) = drop c (pending s)"
    using assms(2) len by (simp add: pending_def)
qed

lemma net_size_finger [simp]: "net_size (s\<lparr>in_finger := p\<rparr>) = net_size s"
  by (simp add: net_size_def)

lemma get_input_loop_spec:
  assumes "in_ok s" and "len + net_size s < fuel" and "len \<le> length (pending s)"
  shows "\<exists>s'. get_input_loop fuel len s = (Some (take len (pending s)), s') \<and> in_ok s' \<and>
    pending s' = drop len (pending s) \<and> same_frag s s'"
  using assms
proof (induction fuel arbitrary: len s)
  case (Suc fuel)
  consider "len = 0" | "0 < len" "in_finger s = in_boundry s" | "0 < len" "in_finger s < in_boundry s"
    using Suc.prems(1) by (cases "len = 0"; cases "in_finger s = in_boundry s") (auto simp: in_ok_def)
  then show ?case
  proof cases
    case 1
    with Suc.prems show ?thesis by simp
  next
    case 2
    then have "net_in s \<noteq> []"
      using Suc.prems(3) by (auto simp: pending_def)
    with fill_input_buf_spec(2) [OF Suc.prems(1) 2(2)] obtain s1 where
      s1: "fill_input_buf s = (True, s1)" "in_ok s1" "pending s1 = pending s" "net_size s1 < net_size s"
        "same_frag s s1"
      by blast
    from Suc.IH [OF s1(2), of len] s1 Suc.prems obtain s2 where
      "get_input_loop fuel len s1 = (Some (take len (pending s)), s2)" "in_ok s2"
      "pending s2 = drop len (pending s)" "same_frag s1 s2"
      by auto
    with 2 s1 show ?thesis by (auto intro: same_frag_trans)
  next
    case 3
    let ?c = "min len (in_boundry s - in_finger s)"
    have c: "?c \<le> in_boundry s - in_finger s" "0 < ?c" "?c \<le> len" using 3 by auto
    note a = advance_in [OF Suc.prems(1) c(1)]
    let ?s1 = "s\<lparr>in_finger := in_finger s + ?c\<rparr>"
    have "len - ?c < len" using c by simp
    then have f: "len - ?c + net_size ?s1 < fuel"
      unfolding net_size_finger using Suc.prems(2) by linarith
    have l: "len - ?c \<le> length (pending ?s1)"
      unfolding a(3) length_drop using Suc.prems(3) by (rule diff_le_mono)
    from Suc.IH [OF a(1) f l] c a(3) obtain s2 where
      s2: "get_input_loop fuel (len - ?c) ?s1 = (Some (take (len - ?c) (drop ?c (pending s))), s2)"
        "in_ok s2" "pending s2 = drop len (pending s)" "same_frag ?s1 s2"
      by auto
    have "take ?c (pending s) @ take (len - ?c) (drop ?c (pending s)) = take len (pending s)"
      using c(3) by (metis le_add_diff_inverse take_add)
    with 3 s2 a(2) show ?thesis
      by (simp add: Let_def same_frag_def)
  qed
qed simp

lemma get_input_bytes_spec:
  assumes "in_ok s" and "len \<le> length (pending s)"
  obtains s' where "get_input_bytes len s = (Some (take len (pending s)), s')" and "in_ok s'"
    and "pending s' = drop len (pending s)" and "same_frag s s'"
proof -
  have "\<not> nonblock s" using assms(1) by (simp add: in_ok_def)
  then show thesis
    using get_input_loop_spec [OF assms(1) _ assms(2), of "Suc (len + net_size s)"] that
    by (auto simp: get_input_bytes_def simp del: get_input_loop.simps)
qed

lemma skip_input_loop_get:
  "skip_input_loop fuel cnt s = (case get_input_loop fuel cnt s of (r, s') \<Rightarrow> (r \<noteq> None, s'))"
  by (induction fuel arbitrary: cnt s) (auto simp: Let_def split: prod.splits)

lemma skip_input_bytes_spec:
  assumes "in_ok s" and "cnt \<le> length (pending s)"
  obtains s' where "skip_input_bytes cnt s = (True, s')" and "in_ok s'"
    and "pending s' = drop cnt (pending s)" and "same_frag s s'"
  using get_input_loop_spec [OF assms(1) _ assms(2), of "Suc (cnt + net_size s)"] that
  by (auto simp: skip_input_bytes_def skip_input_loop_get simp del: get_input_loop.simps skip_input_loop.simps)

lemma set_input_fragment_spec:
  assumes "in_ok s" and "pending s = frag lst p @ rest" and "length p < 2 ^ 31" and "lst \<or> p \<noteq> []"
  obtains s' where "set_input_fragment s = (True, s')" and "in_ok s'" and "pending s' = p @ rest"
    and "fbtbc s' = length p" and "last_frag s' = lst"
proof -
  have "4 \<le> length (pending s)" by (simp add: assms(2))
  then obtain s1 where s1: "get_input_bytes 4 s = (Some (take 4 (pending s)), s1)" "in_ok s1"
    "pending s1 = drop 4 (pending s)"
    using get_input_bytes_spec [OF assms(1)] by metis
  let ?s = "s1\<lparr>last_frag := lst, fbtbc := length p\<rparr>"
  note w = frag_word_bits [OF assms(3), of lst]
  have "set_input_fragment s = (True, ?s)"
    using s1 w assms(1,2,4) by (simp add: set_input_fragment_def frag_def Let_def in_ok_def)
  moreover have "pending ?s = pending s1"
    by (simp add: pending_def)
  then have "pending ?s = p @ rest"
    using s1(3) assms(2) by (simp add: frag_def)
  moreover have "in_ok ?s"
    using s1(2) by (simp add: in_ok_def)
  ultimately show thesis by (intro that [of ?s]) simp_all
qed

section \<open>Where the stream is in its record\<close>

text \<open>
  \<open>c\<close> is left of the current fragment, \<open>ps\<close> are the fragments of the record that follow it, and
  \<open>tail\<close> is what comes after the record.
\<close>

definition at_record :: "rec_strm \<Rightarrow> byte list \<Rightarrow> byte list list \<Rightarrow> byte list \<Rightarrow> bool" where
  "at_record s c ps tail \<longleftrightarrow> in_ok s \<and> fbtbc s = length c \<and> (last_frag s \<longleftrightarrow> ps = []) \<and> frags_ok ps \<and>
     pending s = c @ enc_frags ps @ tail"

lemma next_fragment:
  assumes "at_record s [] (p # ps) tail"
  obtains s' where "set_input_fragment s = (True, s')" and "at_record s' p ps tail"
    and "length (pending s') < length (pending s)"
proof -
  have p: "in_ok s" "pending s = frag (ps = []) p @ (enc_frags ps @ tail)" "length p < 2 ^ 31"
    "ps = [] \<or> p \<noteq> []" "frags_ok ps"
    using assms by (auto simp: at_record_def frags_ok_Cons enc_frags_Cons)
  obtain s' where s': "set_input_fragment s = (True, s')" "in_ok s'"
    "pending s' = p @ (enc_frags ps @ tail)" "fbtbc s' = length p" "last_frag s' = (ps = [])"
    using set_input_fragment_spec [OF p(1-4)] by metis
  show thesis
    by (rule that [OF s'(1)]) (use s' p in \<open>simp_all add: at_record_def\<close>)
qed

lemma getbytes_loop_spec:
  assumes "at_record s c ps tail" and "len + length (pending s) < fuel" and "len \<le> length (c @ concat ps)"
  shows "\<exists>s' c' ps'. getbytes_loop fuel len s = (Some (take len (c @ concat ps)), s') \<and>
    at_record s' c' ps' tail \<and> c' @ concat ps' = drop len (c @ concat ps)"
  using assms
proof (induction fuel arbitrary: len s c ps)
  case (Suc fuel)
  consider "len = 0" | "0 < len" "c = []" | "0 < len" "c \<noteq> []" by blast
  then show ?case
  proof cases
    case 1
    with Suc.prems(1) show ?thesis by auto
  next
    case 2
    then obtain p ps' where ps: "ps = p # ps'"
      using Suc.prems(3) by (cases ps) auto
    then obtain s1 where s1: "set_input_fragment s = (True, s1)" "at_record s1 p ps' tail"
      "length (pending s1) < length (pending s)"
      using next_fragment Suc.prems(1) 2(2) by metis
    have "\<not> last_frag s" "fbtbc s = 0"
      using Suc.prems(1) 2(2) ps by (simp_all add: at_record_def)
    moreover from Suc.IH [OF s1(2), of len] s1(3) Suc.prems(2,3) 2(2) ps obtain s' c' qs where
      "getbytes_loop fuel len s1 = (Some (take len (p @ concat ps')), s')" "at_record s' c' qs tail"
      "c' @ concat qs = drop len (p @ concat ps')"
      by auto
    ultimately show ?thesis using 2 ps s1(1) by auto
  next
    case 3
    let ?n = "min len (length c)"
    have n: "0 < ?n" "?n \<le> length (pending s)" "?n \<le> len" "take ?n (pending s) = take len c"
      using 3 Suc.prems(1) by (auto simp: at_record_def min_def)
    obtain s1 where s1: "get_input_bytes ?n s = (Some (take ?n (pending s)), s1)" "in_ok s1"
      "pending s1 = drop ?n (pending s)" "same_frag s s1"
      using get_input_bytes_spec [of s ?n] n(2) Suc.prems(1) by (auto simp: at_record_def)
    let ?s2 = "s1\<lparr>fbtbc := fbtbc s1 - ?n\<rparr>"
    have s2: "pending ?s2 = pending s1" "in_ok ?s2"
      using s1(2) by (simp_all add: pending_def in_ok_def)
    then have rec2: "at_record ?s2 (drop len c) ps tail"
      using s1(3,4) Suc.prems(1) by (auto simp: at_record_def same_frag_def min_def)
    have "len - ?n < len" "length (pending ?s2) \<le> length (pending s)"
      using n(1,3) s1(3) s2(1) by simp_all
    then have "len - ?n + length (pending ?s2) < fuel"
      using Suc.prems(2) by linarith
    moreover have "len - ?n \<le> length (drop len c @ concat ps)"
      using Suc.prems(3) by auto
    ultimately obtain s' c' qs where
      s': "getbytes_loop fuel (len - ?n) ?s2 = (Some (take (len - ?n) (drop len c @ concat ps)), s')"
        "at_record s' c' qs tail" "c' @ concat qs = drop (len - ?n) (drop len c @ concat ps)"
      using Suc.IH [OF rec2] by blast
    have fb: "fbtbc s = length c" "fbtbc s1 = length c"
      using Suc.prems(1) s1(4) by (simp_all add: at_record_def same_frag_def)
    have "getbytes_loop (Suc fuel) len s
        = (Some (take len c @ take (len - ?n) (drop len c @ concat ps)), s')"
      using 3 s1(1) s'(1) n(4) fb by (simp add: Let_def)
    moreover have "take len c @ take (len - ?n) (drop len c @ concat ps) = take len (c @ concat ps)"
      "drop (len - ?n) (drop len c @ concat ps) = drop len (c @ concat ps)"
      by (auto simp: min_def)
    ultimately show ?thesis using s'(2,3) by auto
  qed
qed simp

lemma xdrrec_getbytes_spec:
  assumes "at_record s c ps tail" and "unat len \<le> length (c @ concat ps)"
  obtains s' c' ps' where "xdrrec_getbytes len s = (Some (take (unat len) (c @ concat ps)), s')"
    and "at_record s' c' ps' tail" and "c' @ concat ps' = drop (unat len) (c @ concat ps)"
proof -
  have "unat len + length (pending s) < Suc (unat len + in_avail s)"
    using length_pending [of s] assms(1) by (simp add: at_record_def)
  from getbytes_loop_spec [OF assms(1) this assms(2)] that show thesis
    by (auto simp: xdrrec_getbytes_def simp del: getbytes_loop.simps)
qed


text \<open>Consuming inside the current fragment and the buffer, which is what the fast paths do.\<close>

lemma at_record_advance:
  assumes "at_record s c ps tail" and "n \<le> fbtbc s" and "n \<le> in_boundry s - in_finger s"
  shows "load (in_finger s) n (in_buf s) = take n c"
    and "at_record (s\<lparr>fbtbc := fbtbc s - n, in_finger := in_finger s + n\<rparr>) (drop n c) ps tail"
proof -
  have ok: "in_ok s" using assms(1) by (simp add: at_record_def)
  note a = advance_in [OF ok assms(3)]
  have n: "n \<le> length c" using assms(1,2) by (simp add: at_record_def)
  then show "load (in_finger s) n (in_buf s) = take n c"
    using a(2) assms(1) by (simp add: at_record_def)
  let ?s = "s\<lparr>fbtbc := fbtbc s - n, in_finger := in_finger s + n\<rparr>"
  have "pending ?s = pending (s\<lparr>in_finger := in_finger s + n\<rparr>)"
    by (simp add: pending_def)
  moreover have "in_ok ?s"
    using a(1) by (simp add: in_ok_def)
  ultimately show "at_record ?s (drop n c) ps tail"
    using a(3) n assms(1) by (simp add: at_record_def)
qed

lemma skiprecord_loop_spec:
  assumes "at_record s c ps tail" and "Suc (length ps) < fuel"
  shows "\<exists>s'. skiprecord_loop fuel s = (True, s') \<and> in_ok s' \<and> pending s' = tail \<and> fbtbc s' = 0 \<and> last_frag s'"
  using assms
proof (induction ps arbitrary: fuel s c)
  case Nil
  then obtain k where k: "fuel = Suc (Suc k)" by (cases fuel; cases "fuel - 1") auto
  have s: "in_ok s" "fbtbc s = length c" "last_frag s" "pending s = c @ tail"
    using Nil.prems(1) by (simp_all add: at_record_def)
  show ?case
  proof (cases "c = []")
    case True
    with s k show ?thesis by simp
  next
    case False
    obtain s1 where s1: "skip_input_bytes (fbtbc s) s = (True, s1)" "in_ok s1"
      "pending s1 = drop (fbtbc s) (pending s)" "same_frag s s1"
      using skip_input_bytes_spec [OF s(1), of "fbtbc s"] s(2,4) by auto
    have "in_ok (s1\<lparr>fbtbc := 0\<rparr>)" "pending (s1\<lparr>fbtbc := 0\<rparr>) = tail"
      using s1 s by (simp_all add: in_ok_def) (simp add: pending_def)
    then show ?thesis
      using False s s1 by (auto simp: k same_frag_def)
  qed
next
  case (Cons p ps)
  then obtain k where k: "fuel = Suc k" "Suc (length ps) < k" by (cases fuel) auto
  have s: "in_ok s" "fbtbc s = length c" "\<not> last_frag s" "pending s = c @ enc_frags (p # ps) @ tail"
    "frags_ok (p # ps)"
    using Cons.prems(1) by (simp_all add: at_record_def)
  obtain s1 where s1: "skip_input_bytes (fbtbc s) s = (True, s1)" "in_ok s1"
    "pending s1 = drop (fbtbc s) (pending s)" "same_frag s s1"
    using skip_input_bytes_spec [OF s(1), of "fbtbc s"] s(2,4) by auto
  let ?s1 = "s1\<lparr>fbtbc := 0\<rparr>"
  have "pending ?s1 = pending s1" "in_ok ?s1"
    using s1(2) by (simp_all add: pending_def in_ok_def)
  then have "at_record ?s1 [] (p # ps) tail"
    using s s1 by (simp add: at_record_def same_frag_def)
  then obtain s2 where s2: "set_input_fragment ?s1 = (True, s2)" "at_record s2 p ps tail"
    using next_fragment by metis
  from Cons.IH [OF s2(2) k(2)] s2(1) s1 s(3) show ?case
    by (auto simp: k(1) same_frag_def)
qed

text \<open>Whatever is left of the record, \<open>xdrrec_skiprecord\<close> goes to the start of the next one.\<close>

lemma xdrrec_skiprecord_spec:
  assumes "at_record s c ps (enc_frags qs @ tail)" and "qs \<noteq> []" and "frags_ok qs"
  obtains s' where "xdrrec_skiprecord s = (True, s')" and "at_record s' [] qs tail"
proof -
  have ok: "in_ok s" using assms(1) by (simp add: at_record_def)
  have "length ps \<le> length (pending s)"
    using assms(1) by (simp add: at_record_def length_enc_frags)
  then have "Suc (length ps) < Suc (Suc (in_avail s))"
    using length_pending [OF ok] by simp
  from skiprecord_loop_spec [OF assms(1) this] obtain s1 where
    s1: "skiprecord_loop (Suc (Suc (in_avail s))) s = (True, s1)" "in_ok s1"
      "pending s1 = enc_frags qs @ tail" "fbtbc s1 = 0"
    by auto
  have "pending (s1\<lparr>last_frag := False\<rparr>) = pending s1" "in_ok (s1\<lparr>last_frag := False\<rparr>)"
    using s1(2) by (simp_all add: pending_def in_ok_def)
  then show thesis
    using s1 ok assms(2,3)
    by (intro that [of "s1\<lparr>last_frag := False\<rparr>"])
      (simp_all add: xdrrec_skiprecord_def at_record_def in_ok_def del: skiprecord_loop.simps)
qed

lemma xdrrec_eof_spec:
  assumes "at_record s c ps tail"
  obtains s' where "xdrrec_eof s = (in_finger s' = in_boundry s', s')" and "at_record s' [] [] tail"
proof -
  have ok: "in_ok s" using assms(1) by (simp add: at_record_def)
  have "length ps \<le> length (pending s)"
    using assms(1) by (simp add: at_record_def length_enc_frags)
  then have "Suc (length ps) < Suc (Suc (in_avail s))"
    using length_pending [OF ok] by simp
  from skiprecord_loop_spec [OF assms(1) this] obtain s1 where
    s1: "skiprecord_loop (Suc (Suc (in_avail s))) s = (True, s1)" "in_ok s1" "pending s1 = tail"
      "fbtbc s1 = 0" "last_frag s1"
    by auto
  then show thesis
    by (intro that [of s1]) (simp_all add: xdrrec_eof_def at_record_def frags_ok_def del: skiprecord_loop.simps)
qed

section \<open>The two directions do not touch each other\<close>

definition out_part :: "rec_strm \<Rightarrow> byte list \<times> nat \<times> nat \<times> nat \<times> byte list \<times> nat" where
  "out_part s = (out_buf s, out_finger s, out_boundry s, frag_header s, net_sent s, net_writes s)"

definition in_part ::
  "rec_strm \<Rightarrow> byte list list \<times> nat \<times> byte list \<times> nat \<times> nat \<times> nat \<times> bool \<times> bool" where
  "in_part s = (net_in s, in_size s, in_buf s, in_finger s, in_boundry s, fbtbc s, last_frag s, nonblock s)"

lemma at_record_in_part: "in_part s = in_part s' \<Longrightarrow> at_record s = at_record s'"
  by (intro ext) (simp add: in_part_def at_record_def in_ok_def pending_def)

lemma fill_input_buf_out: "fill_input_buf s = (ok, s') \<Longrightarrow> out_part s' = out_part s"
  by (auto simp: fill_input_buf_def Let_def out_part_def split: if_splits prod.splits option.splits)

lemma get_input_loop_out: "get_input_loop fuel len s = (r, s') \<Longrightarrow> out_part s' = out_part s"
proof (induction fuel len s arbitrary: r s' rule: get_input_loop.induct)
  case (2 fuel len s)
  show ?case
  proof (cases "in_boundry s - in_finger s = 0")
    case True
    then show ?thesis
      using 2 by (cases "fill_input_buf s") (auto simp: fill_input_buf_out split: if_splits)
  next
    case False
    have "out_part (s\<lparr>in_finger := p\<rparr>) = out_part s" for p by (simp add: out_part_def)
    with False 2(2) [OF _ refl False refl refl] 2(3) show ?thesis
      by (auto simp: Let_def split: if_splits prod.splits)
  qed
qed simp

lemma get_input_bytes_out: "get_input_bytes len s = (r, s') \<Longrightarrow> out_part s' = out_part s"
  by (auto simp: get_input_bytes_def out_part_def split: if_splits
      dest!: get_input_loop_out simp del: get_input_loop.simps)

lemma skip_input_bytes_out: "skip_input_bytes n s = (ok, s') \<Longrightarrow> out_part s' = out_part s"
  by (auto simp: skip_input_bytes_def skip_input_loop_get split: prod.splits
      dest!: get_input_loop_out simp del: get_input_loop.simps skip_input_loop.simps)

lemma set_input_fragment_out: "set_input_fragment s = (ok, s') \<Longrightarrow> out_part s' = out_part s"
  by (auto simp: set_input_fragment_def Let_def out_part_def [of "_\<lparr>last_frag := _\<rparr>"]
      out_part_def [of "_\<lparr>last_frag := _, fbtbc := _\<rparr>"] split: if_splits prod.splits option.splits
      dest!: get_input_bytes_out) (simp_all add: out_part_def)

lemma getbytes_loop_out: "getbytes_loop fuel len s = (r, s') \<Longrightarrow> out_part s' = out_part s"
proof (induction fuel arbitrary: len s r s')
  case (Suc fuel)
  have upd: "out_part (s\<lparr>fbtbc := n\<rparr>) = out_part s" for s n by (simp add: out_part_def)
  from Suc.prems show ?case
    by (auto simp: Let_def upd split: if_splits prod.splits option.splits
        dest!: Suc.IH get_input_bytes_out set_input_fragment_out)
qed simp

lemma skiprecord_loop_out: "skiprecord_loop fuel s = (ok, s') \<Longrightarrow> out_part s' = out_part s"
proof (induction fuel arbitrary: s ok s')
  case (Suc fuel)
  have upd: "out_part (s\<lparr>fbtbc := n\<rparr>) = out_part s" for s n by (simp add: out_part_def)
  from Suc.prems show ?case
    by (auto simp: Let_def upd split: if_splits prod.splits
        dest!: Suc.IH skip_input_bytes_out set_input_fragment_out)
qed simp

lemma xdrrec_skiprecord_out:
  "\<not> nonblock s \<Longrightarrow> xdrrec_skiprecord s = (ok, s') \<Longrightarrow> out_part s' = out_part s"
  by (auto simp: xdrrec_skiprecord_def out_part_def [of "_\<lparr>last_frag := _\<rparr>"] split: prod.splits if_splits
      dest!: skiprecord_loop_out simp del: skiprecord_loop.simps) (simp_all add: out_part_def)

lemma flush_out_in: "flush_out eor s = (ok, s') \<Longrightarrow> in_part s' = in_part s"
  by (auto simp: flush_out_def Let_def in_part_def split: if_splits)

lemma xdrrec_endofrecord_in: "xdrrec_endofrecord now s = (ok, s') \<Longrightarrow> in_part s' = in_part s"
  by (auto simp: xdrrec_endofrecord_def Let_def split: if_splits dest!: flush_out_in) (simp_all add: in_part_def)

section \<open>The record stream as a source\<close>

text \<open>\<open>nxt\<close> is what follows the record, \<open>out\<close> the output side, which reading leaves alone.\<close>

definition rec_ready ::
  "byte list \<Rightarrow> byte list \<times> nat \<times> nat \<times> nat \<times> byte list \<times> nat \<Rightarrow> rec_strm \<Rightarrow> byte list \<Rightarrow> bool" where
  "rec_ready nxt out s bs \<longleftrightarrow> out_part s = out \<and> (\<exists>c ps rst. at_record s c ps nxt \<and> c @ concat ps = bs @ rst)"

lemma rec_readyI:
  "at_record s c ps nxt \<Longrightarrow> c @ concat ps = bs @ rst \<Longrightarrow> out_part s = out \<Longrightarrow> rec_ready nxt out s bs"
  by (auto simp: rec_ready_def)

lemma rec_getbytes_ready:
  assumes "rec_ready nxt out s (xs @ bs)" and "unat len = length xs"
  obtains s' where "xdrrec_getbytes len s = (Some xs, s')" and "rec_ready nxt out s' bs"
proof -
  obtain c ps rst where r: "at_record s c ps nxt" "c @ concat ps = (xs @ bs) @ rst" "out_part s = out"
    using assms(1) by (auto simp: rec_ready_def)
  have n: "unat len \<le> length (c @ concat ps)"
    using r(2) assms(2) by simp
  obtain s' c' ps' where s': "xdrrec_getbytes len s = (Some (take (unat len) (c @ concat ps)), s')"
    "at_record s' c' ps' nxt" "c' @ concat ps' = drop (unat len) (c @ concat ps)"
    by (rule xdrrec_getbytes_spec [OF r(1) n])
  show thesis
  proof (rule that)
    show "xdrrec_getbytes len s = (Some xs, s')"
      using s'(1) unfolding r(2) assms(2) by simp
    have "c' @ concat ps' = bs @ rst"
      using s'(3) unfolding r(2) assms(2) by simp
    then show "rec_ready nxt out s' bs"
      using s'(2) getbytes_loop_out [OF s'(1) [unfolded xdrrec_getbytes_def]] r(3)
      by (intro rec_readyI [OF s'(2)]) simp_all
  qed
qed

lemma rec_fast_ready:
  assumes "rec_ready nxt out s (xs @ bs)" and "length xs \<le> fbtbc s" and "length xs \<le> in_boundry s - in_finger s"
  shows "load (in_finger s) (length xs) (in_buf s) = xs"
    and "rec_ready nxt out (s\<lparr>fbtbc := fbtbc s - length xs, in_finger := in_finger s + length xs\<rparr>) bs"
proof -
  obtain c ps rst where r: "at_record s c ps nxt" "c @ concat ps = (xs @ bs) @ rst" "out_part s = out"
    using assms(1) by (auto simp: rec_ready_def)
  note a = at_record_advance [OF r(1) assms(2,3)]
  have n: "length xs \<le> length c" using r(1) assms(2) by (simp add: at_record_def)
  have "take (length xs) (c @ concat ps) = xs" "drop (length xs) (c @ concat ps) = bs @ rst"
    unfolding r(2) by simp_all
  with n have c: "take (length xs) c = xs" "drop (length xs) c @ concat ps = bs @ rst"
    by simp_all
  show "load (in_finger s) (length xs) (in_buf s) = xs"
    using a(1) c(1) by simp
  show "rec_ready nxt out (s\<lparr>fbtbc := fbtbc s - length xs, in_finger := in_finger s + length xs\<rparr>) bs"
    using a(2) c(2) r(3) by (intro rec_readyI [OF a(2)]) (simp_all add: out_part_def)
qed

lemma rec_getlong_ready:
  assumes "rec_ready nxt out s (be32 w @ bs)"
  shows "\<exists>s'. xdrrec_getlong s = (Some w, s') \<and> rec_ready nxt out s' bs"
proof (cases "4 \<le> fbtbc s \<and> 4 \<le> in_boundry s - in_finger s")
  case True
  then show ?thesis
    using rec_fast_ready [OF assms] by (simp add: xdrrec_getlong_def)
next
  case False
  obtain s' where "xdrrec_getbytes 4 s = (Some (be32 w), s')" "rec_ready nxt out s' bs"
    using rec_getbytes_ready [OF assms, of 4] by auto
  with False show ?thesis by (auto simp: xdrrec_getlong_def)
qed

lemma rec_getbytes_source:
  assumes "rec_ready nxt out s (xs @ bs)" and "length xs < 2 ^ 32"
  shows "\<exists>s'. xdrrec_getbytes (of_nat (length xs)) s = (Some xs, s') \<and> rec_ready nxt out s' bs"
proof -
  have "unat (of_nat (length xs) :: u32) = length xs" using assms(2) by (simp add: unat_of_nat)
  from rec_getbytes_ready [OF assms(1) this] show ?thesis by metis
qed

lemma rec_inline_source:
  assumes "rec_ready nxt out s (xs @ bs)" and "length xs < 2 ^ 32"
  shows "xdrrec_inline XDR_DECODE (of_nat (length xs)) s = (None, s') \<Longrightarrow> rec_ready nxt out s' (xs @ bs)"
    and "xdrrec_inline XDR_DECODE (of_nat (length xs)) s = (Some p, s') \<Longrightarrow>
      load p (length xs) (in_buf s') = xs \<and> rec_ready nxt out s' bs"
proof -
  have n: "unat (of_nat (length xs) :: u32) = length xs" using assms(2) by (simp add: unat_of_nat)
  show "xdrrec_inline XDR_DECODE (of_nat (length xs)) s = (None, s') \<Longrightarrow> rec_ready nxt out s' (xs @ bs)"
    using assms(1) by (simp add: xdrrec_inline_def split: if_splits)
  assume "xdrrec_inline XDR_DECODE (of_nat (length xs)) s = (Some p, s')"
  then have "length xs \<le> fbtbc s" "length xs \<le> in_boundry s - in_finger s" "p = in_finger s"
    "s' = s\<lparr>fbtbc := fbtbc s - length xs, in_finger := in_finger s + length xs\<rparr>"
    unfolding xdrrec_inline_def n by (auto split: if_splits)
  with rec_fast_ready [OF assms(1)] show "load p (length xs) (in_buf s') = xs \<and> rec_ready nxt out s' bs"
    by simp
qed

lemma xdrrec_ops_simps [simp]:
  "x_getlong xdrrec_ops = xdrrec_getlong" "x_putlong xdrrec_ops = xdrrec_putlong"
  "x_getbytes xdrrec_ops = xdrrec_getbytes" "x_putbytes xdrrec_ops = xdrrec_putbytes"
  "x_inline xdrrec_ops = xdrrec_inline"
  "x_load xdrrec_ops XDR_ENCODE p n s = load p n (out_buf s)"
  "x_load xdrrec_ops XDR_DECODE p n s = load p n (in_buf s)"
  "x_store xdrrec_ops p bs s = s\<lparr>out_buf := store p bs (out_buf s)\<rparr>"
  by (simp_all add: xdrrec_ops_def)

lemma rec_source: "xdr_source xdrrec_ops (rec_ready nxt out)"
proof (unfold_locales, goal_cases)
  case (1 s w bs)
  then show ?case using rec_getlong_ready by simp
next
  case (2 s xs bs)
  then show ?case using rec_getbytes_source by simp
next
  case (3 s xs bs s')
  then show ?case using rec_inline_source(1) [OF 3(1,2)] by simp
next
  case (4 s xs bs p s')
  then show ?case using rec_inline_source(2) [OF 4(1,2)] by simp
qed

section \<open>Writing\<close>

text \<open>Fragments that are complete, sent or not, and the payload of the current one.\<close>

definition out_done :: "rec_strm \<Rightarrow> byte list" where
  "out_done s = net_sent s @ take (frag_header s) (out_buf s)"

definition out_cur :: "rec_strm \<Rightarrow> byte list" where
  "out_cur s = load (frag_header s + 4) (out_finger s - frag_header s - 4) (out_buf s)"

definition out_ok :: "rec_strm \<Rightarrow> bool" where
  "out_ok s \<longleftrightarrow> frag_header s + 4 \<le> out_finger s \<and> out_finger s \<le> out_boundry s \<and>
     length (out_buf s) = out_boundry s \<and> out_boundry s < 2 ^ 31 \<and> frag_header s + 8 \<le> out_boundry s \<and>
     frag_header s mod 4 = 0 \<and> out_boundry s mod 4 = 0"

lemma length_out_cur: "out_ok s \<Longrightarrow> length (out_cur s) = out_finger s - frag_header s - 4"
  by (simp add: out_ok_def out_cur_def length_load)

text \<open>Appending to the current fragment, in the room the buffer has.\<close>

definition out_append :: "byte list \<Rightarrow> rec_strm \<Rightarrow> rec_strm" where
  "out_append bs s = s\<lparr>out_buf := store (out_finger s) bs (out_buf s), out_finger := out_finger s + length bs\<rparr>"

lemma out_append_spec:
  assumes "out_ok s" and "out_finger s + length bs \<le> out_boundry s"
  shows "out_ok (out_append bs s)" and "out_done (out_append bs s) = out_done s"
    and "out_cur (out_append bs s) = out_cur s @ bs" and "net_writes (out_append bs s) = net_writes s"
    and "out_finger (out_append bs s) = out_finger s + length bs"
    and "out_boundry (out_append bs s) = out_boundry s"
proof -
  have ok: "frag_header s + 4 \<le> out_finger s" "out_finger s \<le> length (out_buf s)"
    "out_finger s + length bs \<le> length (out_buf s)"
    using assms by (simp_all add: out_ok_def)
  show "out_ok (out_append bs s)"
    using assms ok by (simp add: out_ok_def out_append_def length_store)
  show "out_done (out_append bs s) = out_done s"
    using ok by (simp add: out_done_def out_append_def take_store)
  let ?n = "out_finger s - frag_header s - 4"
  have e: "out_finger s + length bs - frag_header s - 4 = ?n + length bs"
    "frag_header s + 4 + ?n = out_finger s"
    using ok by simp_all
  have "load (frag_header s + 4) ?n (store (out_finger s) bs (out_buf s)) = out_cur s"
    unfolding out_cur_def using ok e(2) by (intro load_store_before) simp_all
  moreover have "load (out_finger s) (length bs) (store (out_finger s) bs (out_buf s)) = bs"
    using ok(2) by (rule load_store_same)
  moreover have "out_cur (out_append bs s) = load (frag_header s + 4)
      (out_finger s + length bs - frag_header s - 4) (store (out_finger s) bs (out_buf s))"
    by (simp add: out_cur_def out_append_def)
  ultimately show "out_cur (out_append bs s) = out_cur s @ bs"
    unfolding e(1) load_append e(2) by simp
qed (simp_all add: out_append_def)

text \<open>Sending the buffer: the current fragment gets its header and everything buffered goes out.\<close>

lemma flush_out_spec:
  assumes "out_ok s" and "0 < net_writes s"
  obtains s' where "flush_out eor s = (True, s')" and "out_ok s'" and "out_cur s' = []"
    and "out_done s' = out_done s @ frag eor (out_cur s)" and "net_sent s' = out_done s'"
    and "net_writes s' = net_writes s - 1" and "out_finger s' = 4" and "out_boundry s' = out_boundry s"
proof -
  let ?n = "out_finger s - frag_header s - 4"
  let ?b = "store (frag_header s) (be32 (frag_word eor ?n)) (out_buf s)"
  let ?s = "s\<lparr>out_buf := ?b, net_writes := net_writes s - 1,
    net_sent := net_sent s @ load 0 (out_finger s) ?b, frag_header := 0, out_finger := 4\<rparr>"
  have ok: "frag_header s + 4 \<le> out_finger s" "out_finger s \<le> length (out_buf s)"
    using assms(1) by (simp_all add: out_ok_def)
  have run: "flush_out eor s = (True, ?s)"
    using assms(2) by (simp add: flush_out_def frag_word_def Let_def)
  have len: "length ?b = length (out_buf s)"
    using ok by (simp add: length_store)
  have split: "out_finger s = frag_header s + (4 + ?n)"
    using ok by simp
  have "load 0 (out_finger s) ?b = load 0 (frag_header s) ?b @ load (frag_header s) 4 ?b
      @ load (frag_header s + 4) ?n ?b"
    by (subst split) (simp only: load_append add_0)
  moreover have "load 0 (frag_header s) ?b = take (frag_header s) (out_buf s)"
    using ok by (simp add: load_def take_store)
  moreover have "load (frag_header s) 4 ?b = be32 (frag_word eor ?n)"
    using load_store_same [of "frag_header s" "out_buf s" "be32 (frag_word eor ?n)"] ok by simp
  moreover have "load (frag_header s + 4) ?n ?b = out_cur s"
    using ok by (simp add: out_cur_def load_def store_def)
  ultimately have sent: "load 0 (out_finger s) ?b = take (frag_header s) (out_buf s) @ frag eor (out_cur s)"
    using length_out_cur [OF assms(1)] by (simp add: frag_def)
  show thesis
    by (rule that [OF run])
      (use assms(1) len sent in \<open>simp_all add: out_ok_def out_cur_def out_done_def\<close>)
qed

definition rec_fits :: "rec_strm \<Rightarrow> nat \<Rightarrow> bool" where
  "rec_fits s n \<longleftrightarrow> out_ok s \<and> 2 * n \<le> net_writes s"

definition rec_wrote :: "rec_strm \<Rightarrow> byte list \<Rightarrow> rec_strm \<Rightarrow> bool" where
  "rec_wrote s bs s' \<longleftrightarrow> in_part s' = in_part s \<and> out_ok s' \<and> (\<exists>ps. (\<forall>p \<in> set ps. p \<noteq> [] \<and> length p < 2 ^ 31) \<and>
     out_done s' = out_done s @ concat (map (frag False) ps) \<and> concat ps @ out_cur s' = out_cur s @ bs)"

lemma rec_wrote_Nil: "out_ok s \<Longrightarrow> rec_wrote s [] s"
  by (auto simp: rec_wrote_def intro: exI [of _ "[]"])

lemma rec_wrote_append:
  assumes "rec_wrote s as s1" and "rec_wrote s1 bs s2"
  shows "rec_wrote s (as @ bs) s2"
proof -
  from assms(1) obtain ps where ps: "\<forall>p \<in> set ps. p \<noteq> [] \<and> length p < 2 ^ 31"
    "out_done s1 = out_done s @ concat (map (frag False) ps)" "concat ps @ out_cur s1 = out_cur s @ as"
    "in_part s1 = in_part s"
    by (auto simp: rec_wrote_def)
  from assms(2) obtain qs where qs: "out_ok s2" "\<forall>p \<in> set qs. p \<noteq> [] \<and> length p < 2 ^ 31"
    "out_done s2 = out_done s1 @ concat (map (frag False) qs)" "concat qs @ out_cur s2 = out_cur s1 @ bs"
    "in_part s2 = in_part s1"
    by (auto simp: rec_wrote_def)
  have "concat (ps @ qs) @ out_cur s2 = concat ps @ out_cur s1 @ bs"
    using qs(4) by simp
  also have "\<dots> = (concat ps @ out_cur s1) @ bs" by simp
  also have "\<dots> = out_cur s @ (as @ bs)"
    unfolding ps(3) by simp
  finally have "concat (ps @ qs) @ out_cur s2 = out_cur s @ (as @ bs)" .
  then show ?thesis
    using ps(1,2,4) qs(1-3,5) unfolding rec_wrote_def by (intro conjI exI [of _ "ps @ qs"]) auto
qed

lemma rec_wrote_out_append:
  "out_ok s \<Longrightarrow> out_finger s + length bs \<le> out_boundry s \<Longrightarrow> rec_wrote s bs (out_append bs s)"
  using out_append_spec [of s bs]
  by (auto simp: rec_wrote_def in_part_def out_append_def intro: exI [of _ "[]"])

text \<open>A flush in the middle of a record, which the stream makes only when the fragment is not empty.\<close>

lemma frag_sent_irrelevant [simp]:
  "out_ok (s\<lparr>frag_sent := b\<rparr>) = out_ok s" "out_done (s\<lparr>frag_sent := b\<rparr>) = out_done s"
  "out_cur (s\<lparr>frag_sent := b\<rparr>) = out_cur s"
  by (simp_all add: out_ok_def out_done_def out_cur_def)

lemma flush_middle:
  assumes "out_ok s" and "0 < net_writes s" and "out_boundry s < out_finger s + 4"
  obtains s' where "flush_out False (s\<lparr>frag_sent := True\<rparr>) = (True, s')" and "rec_wrote s [] s'"
    and "out_ok s'" and "net_writes s' = net_writes s - 1" and "out_finger s' = 4"
    and "out_boundry s' = out_boundry s"
proof -
  let ?s = "s\<lparr>frag_sent := True\<rparr>"
  have "out_ok ?s" "0 < net_writes ?s" using assms by simp_all
  then obtain s' where s': "flush_out False ?s = (True, s')" "out_ok s'" "out_cur s' = []"
    "out_done s' = out_done s @ frag False (out_cur s)" "net_writes s' = net_writes s - 1"
    "out_finger s' = 4" "out_boundry s' = out_boundry s"
    by (rule flush_out_spec [where eor = False]) simp
  have "0 < length (out_cur s)" "length (out_cur s) < 2 ^ 31"
    using assms length_out_cur [OF assms(1)] unfolding out_ok_def by linarith+
  then have "out_cur s \<noteq> []" by auto
  moreover have "in_part s' = in_part s"
    using flush_out_in [OF s'(1)] by (simp add: in_part_def)
  ultimately have "rec_wrote s [] s'"
    using s' \<open>length (out_cur s) < 2 ^ 31\<close>
    unfolding rec_wrote_def by (intro conjI exI [of _ "[out_cur s]"]) simp_all
  then show thesis using s' by (intro that)
qed

lemma xdrrec_putlong_wrote:
  assumes "rec_fits s (4 + n)"
  shows "\<exists>s'. xdrrec_putlong w s = (True, s') \<and> rec_wrote s (be32 w) s' \<and> rec_fits s' n"
proof (cases "out_boundry s < out_finger s + 4")
  case True
  have ok: "out_ok s" "0 < net_writes s" using assms by (simp_all add: rec_fits_def)
  obtain s1 where s1: "flush_out False (s\<lparr>frag_sent := True\<rparr>) = (True, s1)" "rec_wrote s [] s1"
    "out_ok s1" "net_writes s1 = net_writes s - 1" "out_finger s1 = 4" "out_boundry s1 = out_boundry s"
    by (rule flush_middle [OF ok True])
  have room: "out_finger s1 + length (be32 w) \<le> out_boundry s1"
    using s1(5,6) ok(1) by (simp add: out_ok_def)
  have "xdrrec_putlong w s = (True, out_append (be32 w) s1)"
    using True s1(1) by (simp add: xdrrec_putlong_def out_append_def)
  moreover have "rec_wrote s (be32 w) (out_append (be32 w) s1)"
    using rec_wrote_append [OF s1(2) rec_wrote_out_append [OF s1(3) room]] by simp
  moreover have "2 * (4 + n) \<le> net_writes s" using assms by (simp add: rec_fits_def)
  then have "2 * n \<le> net_writes s1"
    unfolding s1(4) by presburger
  then have "rec_fits (out_append (be32 w) s1) n"
    using out_append_spec [OF s1(3) room] by (simp add: rec_fits_def)
  ultimately show ?thesis by blast
next
  case False
  then have room: "out_finger s + length (be32 w) \<le> out_boundry s" by simp
  have ok: "out_ok s" using assms by (simp add: rec_fits_def)
  have "xdrrec_putlong w s = (True, out_append (be32 w) s)"
    using False by (simp add: xdrrec_putlong_def out_append_def)
  then show ?thesis
    using rec_wrote_out_append [OF ok room] out_append_spec [OF ok room] assms
    by (auto simp: rec_fits_def)
qed

definition out_full :: "rec_strm \<Rightarrow> nat" where
  "out_full s = (if out_finger s = out_boundry s then 1 else 0)"

lemma putbytes_loop_spec:
  assumes "out_ok s" and "bs \<noteq> []" and "length bs + out_full s < fuel"
    and "length bs + out_full s \<le> net_writes s"
  shows "\<exists>s'. putbytes_loop fuel bs s = (True, s') \<and> rec_wrote s bs s' \<and> out_ok s' \<and>
    net_writes s \<le> net_writes s' + length bs + out_full s"
  using assms
proof (induction fuel arbitrary: bs s)
  case (Suc fuel)
  let ?c = "min (length bs) (out_boundry s - out_finger s)"
  let ?s1 = "out_append (take ?c bs) s"
  note [simp del] = putbytes_loop.simps
  have room: "out_finger s + length (take ?c bs) \<le> out_boundry s"
    using Suc.prems(1) by (auto simp: out_ok_def)
  note a = out_append_spec [OF Suc.prems(1) room]
  note w1 = rec_wrote_out_append [OF Suc.prems(1) room]
  have step: "putbytes_loop (Suc fuel) bs s =
      (if out_finger ?s1 = out_boundry ?s1
       then (case flush_out False (?s1\<lparr>frag_sent := True\<rparr>) of (ok, s) \<Rightarrow>
               if \<not> ok then (False, s) else putbytes_loop fuel (drop ?c bs) s)
       else putbytes_loop fuel (drop ?c bs) ?s1)"
    using Suc.prems(2) by (simp add: putbytes_loop.simps(2) out_append_def Let_def)
  show ?case
  proof (cases "out_finger ?s1 = out_boundry ?s1")
    case False
    then have c: "?c = length bs" "out_full s = 0"
      using a(5,6) room by (auto simp: out_full_def split: if_splits)
    obtain k where k: "fuel = Suc k" using Suc.prems(2,3) by (cases fuel) auto
    have "putbytes_loop (Suc fuel) bs s = (True, ?s1)"
      using step False c(1) by (simp add: k putbytes_loop.simps(2))
    moreover have "take ?c bs = bs" using c(1) by simp
    ultimately show ?thesis
      using a w1 c(2) by (intro exI [of _ ?s1]) simp
  next
    case True
    have wr: "0 < net_writes ?s1"
      using a(4) Suc.prems(2,4) by (cases bs) simp_all
    have full: "out_boundry ?s1 < out_finger ?s1 + 4" using True by simp
    obtain s2 where s2: "flush_out False (?s1\<lparr>frag_sent := True\<rparr>) = (True, s2)" "rec_wrote ?s1 [] s2"
      "out_ok s2" "net_writes s2 = net_writes ?s1 - 1" "out_finger s2 = 4" "out_boundry s2 = out_boundry ?s1"
      by (rule flush_middle [OF a(1) wr full])
    have nf: "out_full s2 = 0"
      using s2(3,5,6) by (auto simp: out_full_def out_ok_def)
    have run: "putbytes_loop (Suc fuel) bs s = putbytes_loop fuel (drop ?c bs) s2"
      using step True s2(1) by simp
    have w2: "rec_wrote s (take ?c bs) s2"
      using rec_wrote_append [OF w1 s2(2)] by simp
    have used: "length (drop ?c bs) + 1 \<le> length bs + out_full s"
    proof (cases "out_finger s = out_boundry s")
      case False
      then have "0 < ?c" using Suc.prems(1,2) by (auto simp: out_ok_def)
      moreover have "?c \<le> length bs" by simp
      ultimately show ?thesis unfolding length_drop by linarith
    qed (simp add: out_full_def)
    show ?thesis
    proof (cases "drop ?c bs = []")
      case True
      obtain k where k: "fuel = Suc k" using Suc.prems(2,3) by (cases fuel; cases bs) auto
      have "take ?c bs = bs" using True by simp
      moreover have "putbytes_loop (Suc fuel) bs s = (True, s2)"
        using run True by (simp add: k putbytes_loop.simps(2))
      ultimately show ?thesis
        using w2 s2(3,4) a(4) used True by auto
    next
      case False
      have fuel: "length (drop ?c bs) + out_full s2 < fuel"
        using used nf Suc.prems(3) by linarith
      have writes: "length (drop ?c bs) + out_full s2 \<le> net_writes s2"
        using used nf Suc.prems(4) s2(4) a(4) by linarith
      from Suc.IH [OF s2(3) False fuel writes] obtain s3 where
        s3: "putbytes_loop fuel (drop ?c bs) s2 = (True, s3)" "rec_wrote s2 (drop ?c bs) s3" "out_ok s3"
          "net_writes s2 \<le> net_writes s3 + length (drop ?c bs) + out_full s2"
        by blast
      have "rec_wrote s bs s3"
        using rec_wrote_append [OF w2 s3(2)] by simp
      moreover have "net_writes s \<le> net_writes s3 + length bs + out_full s"
        using s3(4) nf used s2(4) a(4) by linarith
      ultimately show ?thesis
        using run s3(1,3) by auto
    qed
  qed
qed simp

lemma xdrrec_putbytes_wrote:
  assumes "rec_fits s (length bs + n)"
  shows "\<exists>s'. xdrrec_putbytes bs s = (True, s') \<and> rec_wrote s bs s' \<and> rec_fits s' n"
proof (cases "bs = []")
  case True
  with assms show ?thesis by (simp add: xdrrec_putbytes_def rec_fits_def rec_wrote_Nil)
next
  case False
  then have 1: "1 \<le> length bs" by (cases bs) simp_all
  have ok: "out_ok s" "2 * (length bs + n) \<le> net_writes s" using assms by (simp_all add: rec_fits_def)
  have full: "out_full s \<le> 1" by (simp add: out_full_def)
  have ok2: "length bs + length bs + n + n \<le> net_writes s" using ok(2) by simp
  have writes: "length bs + out_full s \<le> net_writes s"
    using 1 ok2 full by linarith
  then have fuel: "length bs + out_full s < Suc (length bs + net_writes s)"
    by linarith
  from putbytes_loop_spec [OF ok(1) False fuel writes] obtain s' where
    "putbytes_loop (Suc (length bs + net_writes s)) bs s = (True, s')" "rec_wrote s bs s'" "out_ok s'"
    "net_writes s \<le> net_writes s' + length bs + out_full s"
    by blast
  moreover from this(4) have "2 * n \<le> net_writes s'"
    using ok2 1 full by linarith
  ultimately show ?thesis
    by (auto simp: xdrrec_putbytes_def rec_fits_def simp del: putbytes_loop.simps)
qed

interpretation rec_stream: xdr_stream xdrrec_ops rec_fits rec_wrote "rec_ready nxt out" for nxt out
proof (intro xdr_stream.intro rec_source, unfold_locales, goal_cases)
  case (4 s n w)
  then show ?case using xdrrec_putlong_wrote [OF 4] by simp
next
  case (5 s bs n)
  then show ?case using xdrrec_putbytes_wrote [OF 5(1)] by simp
next
  case (6 s len n s')
  then show ?case
    by (auto simp: xdrrec_inline_def rec_fits_def rec_wrote_Nil split: if_splits)
next
  case (7 s len n p s1)
  then have p: "p = out_finger s" "s1 = s\<lparr>out_finger := out_finger s + unat len\<rparr>"
    "out_finger s + unat len \<le> out_boundry s" "out_ok s" "2 * n \<le> net_writes s"
    by (auto simp: xdrrec_inline_def rec_fits_def split: if_splits)
  have "length (load p (unat len) (out_buf s1)) = unat len"
    using p by (simp add: out_ok_def length_load)
  moreover have "x_store xdrrec_ops p bs s1 = out_append bs s" if "length bs = unat len" for bs
    using p that by (simp add: out_append_def)
  ultimately show ?case
    using p(3-5) rec_wrote_out_append [OF p(4)] out_append_spec [OF p(4)]
    by (auto simp: rec_fits_def)
qed (auto simp: rec_fits_def rec_wrote_Nil intro: rec_wrote_append)

section \<open>Ending a record\<close>

text \<open>
  Whatever was written since the record began goes on the wire as the fragments of one record; with
  \<open>sendnow\<close> it is sent, without it the record may stay in the buffer behind those before it.
\<close>

lemma xdrrec_endofrecord_spec:
  assumes "out_ok s" and "0 < net_writes s" and "sendnow \<or> out_finger s mod 4 = 0"
  obtains s' where "xdrrec_endofrecord sendnow s = (True, s')" and "out_ok s'" and "out_cur s' = []"
    and "out_done s' = out_done s @ frag True (out_cur s)" and "sendnow \<Longrightarrow> net_sent s' = out_done s'"
    and "net_writes s \<le> net_writes s' + 1"
proof (cases "sendnow \<or> frag_sent s \<or> out_boundry s \<le> out_finger s + 4")
  case True
  have "out_ok (s\<lparr>frag_sent := False\<rparr>)" "0 < net_writes (s\<lparr>frag_sent := False\<rparr>)"
    using assms by simp_all
  then obtain s' where "flush_out True (s\<lparr>frag_sent := False\<rparr>) = (True, s')" "out_ok s'" "out_cur s' = []"
    "out_done s' = out_done s @ frag True (out_cur s)" "net_sent s' = out_done s'"
    "net_writes s' = net_writes s - 1"
    by (rule flush_out_spec [where eor = True]) simp
  with True show thesis by (intro that [of s']) (simp_all add: xdrrec_endofrecord_def)
next
  case False
  let ?n = "out_finger s - frag_header s - 4"
  let ?b = "store (frag_header s) (be32 (frag_word True ?n)) (out_buf s)"
  let ?s = "s\<lparr>out_buf := ?b, frag_header := out_finger s, out_finger := out_finger s + 4\<rparr>"
  have ok: "frag_header s + 4 \<le> out_finger s" "out_finger s \<le> length (out_buf s)"
    "out_finger s mod 4 = 0" "out_boundry s mod 4 = 0" "length (out_buf s) = out_boundry s"
    using assms(1,3) False by (simp_all add: out_ok_def)
  have "out_finger s + 4 < out_boundry s" using False by simp
  with ok(3,4) have room: "out_finger s + 8 \<le> out_boundry s"
    by presburger
  have run: "xdrrec_endofrecord sendnow s = (True, ?s)"
    using False by (simp add: xdrrec_endofrecord_def frag_word_def Let_def)
  have split: "out_finger s = frag_header s + (4 + ?n)"
    using ok by simp
  have "load 0 (out_finger s) ?b = load 0 (frag_header s) ?b @ load (frag_header s) 4 ?b
      @ load (frag_header s + 4) ?n ?b"
    by (subst split) (simp only: load_append add_0)
  moreover have "load 0 (out_finger s) ?b = take (out_finger s) ?b"
    by (simp add: load_def)
  moreover have "load 0 (frag_header s) ?b = take (frag_header s) (out_buf s)"
    using ok by (simp add: load_def take_store)
  moreover have "load (frag_header s) 4 ?b = be32 (frag_word True ?n)"
    using load_store_same [of "frag_header s" "out_buf s" "be32 (frag_word True ?n)"] ok by simp
  moreover have "load (frag_header s + 4) ?n ?b = out_cur s"
    using ok by (simp add: out_cur_def load_def store_def)
  ultimately have whole: "take (out_finger s) ?b = take (frag_header s) (out_buf s) @ frag True (out_cur s)"
    using length_out_cur [OF assms(1)] by (simp add: frag_def)
  show thesis
    by (rule that [OF run])
      (use assms(1) ok room whole False in \<open>simp_all add: out_ok_def out_cur_def out_done_def length_store\<close>)
qed

text \<open>A record from its first byte: on the wire it is a list of fragments with exactly its bytes.\<close>

lemma xdrrec_record_sent:
  assumes "rec_wrote s bs s1" and "out_cur s = []" and "0 < net_writes s1"
  obtains s2 ps where "xdrrec_endofrecord True s1 = (True, s2)" and "out_ok s2" and "out_cur s2 = []"
    and "net_sent s2 = out_done s @ enc_frags ps" and "out_done s2 = net_sent s2" and "ps \<noteq> []"
    and "frags_ok ps" and "concat ps = bs" and "net_writes s1 \<le> net_writes s2 + 1"
    and "in_part s2 = in_part s"
proof -
  from assms(1) obtain ps where ps: "out_ok s1" "\<forall>p \<in> set ps. p \<noteq> [] \<and> length p < 2 ^ 31"
    "out_done s1 = out_done s @ concat (map (frag False) ps)" "concat ps @ out_cur s1 = out_cur s @ bs"
    "in_part s1 = in_part s"
    by (auto simp: rec_wrote_def)
  obtain s2 where s2: "xdrrec_endofrecord True s1 = (True, s2)" "out_ok s2" "out_cur s2 = []"
    "out_done s2 = out_done s1 @ frag True (out_cur s1)" "net_sent s2 = out_done s2"
    "net_writes s1 \<le> net_writes s2 + 1"
    by (rule xdrrec_endofrecord_spec [OF ps(1) assms(3), of True]) simp_all
  have "length (out_cur s1) < 2 ^ 31"
    using length_out_cur [OF ps(1)] ps(1) unfolding out_ok_def by linarith
  then have "frags_ok (ps @ [out_cur s1])"
    using ps(2) by (auto simp: frags_ok_def)
  then show thesis
    using s2 ps(3-5) assms(2) xdrrec_endofrecord_in [OF s2(1)] by (intro that [of s2 "ps @ [out_cur s1]"]) (simp_all add: enc_frags_snoc)
qed

lemma xdrrec_create_ok:
  assumes "xdrrec_create sendsz recvsz net writes pos heap = Some s" and "unat sendsz < 2 ^ 30"
    and "unat recvsz < 2 ^ 30"
  shows "rec_fits s (writes div 2)" and "out_cur s = []" and "out_done s = []" and "net_writes s = writes"
    and "at_record s [] [] (concat net)"
proof -
  have bnd: "100 \<le> unat (fix_buf_size w) \<and> unat (fix_buf_size w) < 2 ^ 31 \<and> unat (fix_buf_size w) mod 4 = 0"
    if "unat w < 2 ^ 30" for w
  proof -
    let ?w = "if w < 100 then 4000 else w"
    have w: "100 \<le> unat ?w" "unat ?w < 2 ^ 30"
      using that by (auto simp: word_less_nat_alt not_less)
    have r: "unat (fix_buf_size w) = unat ?w + xdr_pad (unat ?w)"
      unfolding fix_buf_size_def using w(2) by (intro unat_rndup) simp
    show ?thesis
      unfolding r using w xdr_pad_less [of "unat ?w"] xdr_pad_aligned [of "unat ?w"]
      by (intro conjI) (linarith, simp, assumption)
  qed
  note f = bnd [OF assms(2)] bnd [OF assms(3)]
  have s: "heap \<ge> 3" using assms(1) by (auto simp: xdrrec_create_def split: if_splits)
  show "rec_fits s (writes div 2)" "out_cur s = []" "out_done s = []" "net_writes s = writes"
    "at_record s [] [] (concat net)"
    using assms(1) f s
    by (auto simp: xdrrec_create_def Let_def rec_fits_def out_ok_def out_cur_def out_done_def
        at_record_def in_ok_def pending_def frags_ok_def)
qed

end
