(* ===== verification/Rec_Calls.thy ===== *)
theory Rec_Calls
  imports Rec_Marking
begin

text \<open>
  Messages over record streams, from the call of the client to the dispatcher of the server: any
  number of calls, each a record of its own, through two buffers and a connection that cuts the
  bytes wherever it likes. And what \<open>__xdrrec_getrec\<close>, which the server uses on non-blocking
  connections, does with a record that arrives whole and with one that does not.
\<close>

section \<open>Sequences of calls\<close>

text \<open>
  What \<open>clnt_vc_call\<close> does with the stream (encode, end the record, send), and what \<open>svc_vc_recv\<close>
  does (skip to the next record, decode), over a list of messages.
\<close>

fun send_calls :: "(rec_strm, 'r) rpc_msg list \<Rightarrow> rec_strm \<Rightarrow> bool \<times> rec_strm" where
  "send_calls [] s = (True, s)"
| "send_calls (c # cs) s =
     (case xdr_callmsg c (mkXDR XDR_ENCODE xdrrec_ops s 0) of (ok, c, x) \<Rightarrow>
        if \<not> ok then (False, x_private x)
        else case xdrrec_endofrecord True (x_private x) of (ok, s) \<Rightarrow>
          if \<not> ok then (False, s) else send_calls cs s)"

fun recv_calls :: "(rec_strm, 'r) rpc_msg list \<Rightarrow> rec_strm \<Rightarrow> nat \<Rightarrow> (rec_strm, 'r) rpc_msg list option" where
  "recv_calls [] s m = Some []"
| "recv_calls (z # zs) s m =
     (case xdrrec_skiprecord s of (ok, s) \<Rightarrow>
        if \<not> ok then None
        else case xdr_callmsg z (mkXDR XDR_DECODE xdrrec_ops s m) of (ok, c, x) \<Rightarrow>
          if \<not> ok then None
          else map_option (\<lambda>cs. c # cs) (recv_calls zs (x_private x) (x_mem x)))"

fun recs_of :: "byte list list list \<Rightarrow> byte list" where
  "recs_of [] = []"
| "recs_of (ps # pss) = enc_frags ps @ recs_of pss"

definition calls_size :: "('s, 'r) rpc_msg list \<Rightarrow> nat" where
  "calls_size cs = sum_list (map (\<lambda>c. callmsg_size c + 1) cs)"

lemma calls_size_Cons: "calls_size (c # cs) = callmsg_size c + (1 + calls_size cs)"
  by (simp add: calls_size_def)

lemma send_calls_spec:
  assumes "\<forall>c \<in> set cs. callmsg_ok c" and "rec_fits s (calls_size cs)" and "out_cur s = []"
    and "net_sent s = out_done s"
  shows "\<exists>s' pss. send_calls cs s = (True, s') \<and> net_sent s' = net_sent s @ recs_of pss \<and>
    list_all2 (\<lambda>c ps. ps \<noteq> [] \<and> frags_ok ps \<and> call_image c (concat ps)) cs pss"
  using assms
proof (induction cs arbitrary: s)
  case Nil
  then show ?case by (auto intro: exI [of _ "[]"])
next
  case (Cons c cs)
  obtain s1 img where s1:
    "xdr_callmsg c (mkXDR XDR_ENCODE xdrrec_ops s 0) = (True, c, mkXDR XDR_ENCODE xdrrec_ops s1 0)"
    "rec_wrote s img s1" "rec_fits s1 (1 + calls_size cs)" "call_image c img"
    by (rule rec_stream.callmsg_encodes [of c s "1 + calls_size cs" 0])
      (use Cons.prems in \<open>simp_all add: calls_size_Cons\<close>)
  have "0 < net_writes s1" using s1(3) by (simp add: rec_fits_def)
  then obtain s2 ps where s2: "xdrrec_endofrecord True s1 = (True, s2)" "out_ok s2" "out_cur s2 = []"
    "net_sent s2 = out_done s @ enc_frags ps" "out_done s2 = net_sent s2" "ps \<noteq> []" "frags_ok ps"
    "concat ps = img" "net_writes s1 \<le> net_writes s2 + 1"
    by (rule xdrrec_record_sent [OF s1(2) Cons.prems(3)])
  have "rec_fits s2 (calls_size cs)"
    using s1(3) s2(2,9) by (simp add: rec_fits_def)
  from Cons.IH [OF _ this s2(3)] Cons.prems(1) s2(5) obtain s' pss where
    "send_calls cs s2 = (True, s')" "net_sent s' = net_sent s2 @ recs_of pss"
    "list_all2 (\<lambda>c ps. ps \<noteq> [] \<and> frags_ok ps \<and> call_image c (concat ps)) cs pss"
    by auto
  then show ?case
    using s1(1,4) s2 Cons.prems(4) by (intro exI [of _ s'] exI [of _ "ps # pss"]) simp
qed

definition calls_blocks :: "('s, 'r) rpc_msg list \<Rightarrow> ('t, 'q) rpc_msg list \<Rightarrow> nat" where
  "calls_blocks zs cs = sum_list (map2 callmsg_blocks zs cs)"

lemma recv_calls_spec:
  assumes "list_all2 (\<lambda>c ps. ps \<noteq> [] \<and> frags_ok ps \<and> call_image c (concat ps)) cs pss"
    and "\<forall>c \<in> set cs. callmsg_ok c" and "length zs = length cs" and "at_record s c0 ps0 (recs_of pss @ rest)"
  shows "recv_calls zs s (calls_blocks zs cs + m) = Some (map2 callmsg_into zs cs)"
  using assms
proof (induction cs pss arbitrary: zs s c0 ps0 rule: list_all2_induct)
  case Nil
  then show ?case by simp
next
  case (Cons c cs ps pss)
  then obtain z zs' where zs: "zs = z # zs'" "length zs' = length cs" by (cases zs) auto
  have "at_record s c0 ps0 (enc_frags ps @ (recs_of pss @ rest))"
    using Cons.prems(3) by simp
  then obtain s1 where s1: "xdrrec_skiprecord s = (True, s1)" "at_record s1 [] ps (recs_of pss @ rest)"
    using Cons.hyps by (elim xdrrec_skiprecord_spec) auto
  then have "rec_ready (recs_of pss @ rest) (out_part s1) s1 (concat ps @ [])"
    by (intro rec_readyI [of s1 "[]" ps _ "concat ps @ []" "[]"]) simp_all
  from rec_stream.decodesE [OF rec_stream.decodes_callmsg this, of c z "calls_blocks zs' cs + m"] Cons
  obtain s2 where s2:
    "xdr_callmsg z (mkXDR XDR_DECODE xdrrec_ops s1 (calls_blocks zs' cs + m + callmsg_blocks z c))
      = (True, callmsg_into z c, mkXDR XDR_DECODE xdrrec_ops s2 (calls_blocks zs' cs + m))"
    "rec_ready (recs_of pss @ rest) (out_part s1) s2 []"
    by auto
  then obtain c1 ps1 where "at_record s2 c1 ps1 (recs_of pss @ rest)"
    by (auto simp: rec_ready_def)
  from Cons.IH [OF _ zs(2) this] Cons.prems(1) s1(1) s2(1) show ?case
    by (simp add: zs calls_blocks_def ac_simps)
qed

text \<open>
  C9: any number of well-formed calls written to a record stream, each ended as a record, arrive as
  the same calls at a record stream on the other end, whatever the sizes of the two buffers are,
  wherever the connection cuts the bytes, and whatever follows them.
\<close>

theorem record_calls_roundtrip:
  fixes cs zs :: "(rec_strm, 'r) rpc_msg list"
  assumes "\<forall>c \<in> set cs. callmsg_ok c" and "length zs = length cs"
    and "xdrrec_create sendsz recvsz [] writes pos 3 = Some s" and "unat sendsz < 2 ^ 30" and "unat recvsz < 2 ^ 30"
    and "2 * calls_size cs \<le> writes"
    and "concat chunks = net_sent (snd (send_calls cs s)) @ rest"
    and "xdrrec_create sendsz' recvsz' chunks writes' pos' 3 = Some r" and "unat sendsz' < 2 ^ 30"
    and "unat recvsz' < 2 ^ 30"
  shows "fst (send_calls cs s) \<and>
    recv_calls zs r (calls_blocks zs cs + m) = Some (map2 callmsg_into zs cs)"
proof -
  note s = xdrrec_create_ok [OF assms(3-5)]
  note r = xdrrec_create_ok [OF assms(8-10)]
  have "rec_fits s (calls_size cs)" "net_sent s = out_done s"
    using s assms(3,6) by (auto simp: rec_fits_def out_done_def)
  from send_calls_spec [OF assms(1) this(1) s(2) this(2)] obtain s' pss where
    "send_calls cs s = (True, s')" "net_sent s' = recs_of pss"
    "list_all2 (\<lambda>c ps. ps \<noteq> [] \<and> frags_ok ps \<and> call_image c (concat ps)) cs pss"
    using s(3) \<open>net_sent s = out_done s\<close> by auto
  then show ?thesis
    using recv_calls_spec [OF _ assms(1,2), of pss r] r(5) assms(7) by simp
qed

definition sample_stream :: "byte list list \<Rightarrow> rec_strm" where
  "sample_stream net = the (xdrrec_create 100 100 net 1000 0 3)"

theorem record_calls_roundtrip_witness:
  "fst (send_calls [sample_call, sample_call :: (rec_strm, unit) rpc_msg] (sample_stream [])) \<and>
   recv_calls [sample_call, sample_call :: (rec_strm, unit) rpc_msg]
     (sample_stream (map (\<lambda>b. [b]) (net_sent (snd (send_calls [sample_call, sample_call :: (rec_strm, unit) rpc_msg] (sample_stream []))))))
     (calls_blocks [sample_call, sample_call :: (rec_strm, unit) rpc_msg] [sample_call, sample_call :: (rec_strm, unit) rpc_msg] + 0)
   = Some (map2 callmsg_into [sample_call, sample_call :: (rec_strm, unit) rpc_msg] [sample_call, sample_call :: (rec_strm, unit) rpc_msg])"
proof (rule record_calls_roundtrip)
  show "xdrrec_create 100 100 [] 1000 0 3 = Some (sample_stream [])"
    by (simp add: sample_stream_def xdrrec_create_def Let_def)
  show "xdrrec_create 100 100 (map (\<lambda>b. [b]) (net_sent (snd (send_calls [sample_call, sample_call :: (rec_strm, unit) rpc_msg] (sample_stream [])))))
      1000 0 3 = Some (sample_stream (map (\<lambda>b. [b]) (net_sent (snd (send_calls [sample_call, sample_call :: (rec_strm, unit) rpc_msg] (sample_stream []))))))"
    by (simp add: sample_stream_def xdrrec_create_def Let_def)
  show "concat (map (\<lambda>b. [b]) (net_sent (snd (send_calls [sample_call, sample_call :: (rec_strm, unit) rpc_msg] (sample_stream [])))))
      = net_sent (snd (send_calls [sample_call, sample_call :: (rec_strm, unit) rpc_msg] (sample_stream []))) @ []"
    by (simp only: concat_map_singleton) simp
qed (simp_all add: sample_call_ok calls_size_def)

section \<open>Records of non-blocking connections\<close>

text \<open>
  C10: a record that is one fragment and arrives in one piece is delivered by one call of
  \<open>__xdrrec_getrec\<close>, which asks for a larger buffer if it must and leaves the next record alone.
\<close>

theorem xdrrec_getrec_whole:
  assumes "net_in s = frag True p # net" and "\<not> in_haveheader s" and "in_header s = []"
    and "in_reclen s = 0" and "in_received s = 0" and "p \<noteq> []" and "length p \<le> in_maxrec s"
    and "length p < 2 ^ 31" and "length p \<le> recvsize s \<or> 0 < net_heap s" and "length (in_buf s) = recvsize s"
  shows "\<exists>s'. xdrrec_getrec e s = (True, XPRT_MOREREQS, s') \<and> net_in s' = net \<and> last_frag s' \<and>
    fbtbc s' = length p \<and> in_finger s' = 0 \<and> in_boundry s' = length p \<and>
    load 0 (length p) (in_buf s') = p \<and> length p \<le> recvsize s' \<and> in_header s' = [] \<and> in_reclen s' = 0"
proof -
  note w = frag_word_bits [OF assms(8), of True]
  have ne: "be32 (frag_word True (length p)) \<noteq> []" by (simp add: be32_def)
  have hdr: "readit 4 (net_in s) = (Some (be32 (frag_word True (length p))), p # net)"
    using assms(1,6) by (simp add: frag_def)
  show ?thesis
  proof (cases "recvsize s < length p")
    case True
    then show ?thesis
      using assms w hdr ne by (simp add: xdrrec_getrec_def realloc_stream_def Let_def load_store_same)
  next
    case False
    then show ?thesis
      using assms w hdr ne by (simp add: xdrrec_getrec_def Let_def load_store_same)
  qed
qed

theorem xdrrec_getrec_whole_witness:
  "\<exists>s'. xdrrec_getrec True (the (xdrrec_create 100 100 [frag True [1, 2, 3], [7]] 0 0 3)\<lparr>nonblock := True, in_maxrec := 100\<rparr>)
      = (True, XPRT_MOREREQS, s') \<and> net_in s' = [[7]] \<and> last_frag s' \<and> fbtbc s' = length [1, 2, 3 :: byte] \<and>
    in_finger s' = 0 \<and> in_boundry s' = length [1, 2, 3 :: byte] \<and>
    load 0 (length [1, 2, 3 :: byte]) (in_buf s') = [1, 2, 3] \<and> length [1, 2, 3 :: byte] \<le> recvsize s' \<and>
    in_header s' = [] \<and> in_reclen s' = 0"
  by (rule xdrrec_getrec_whole) (simp_all add: xdrrec_create_def Let_def fix_buf_size_def rndup_def)

text \<open>
  Once the four bytes of a header are there and the record is not, it never will be: the flag
  \<open>in_haveheader\<close> is tested and cleared and never set, so each further call asks the connection
  for no bytes and takes the answer for the end of the data.
\<close>

lemma xdrrec_getrec_stuck:
  assumes "\<not> in_haveheader s" and "length (in_header s) = 4"
  shows "case xdrrec_getrec e s of (ok, stat, s') \<Rightarrow> \<not> ok \<and> stat \<noteq> XPRT_MOREREQS \<and>
     (\<exists>net. s' = s\<lparr>net_in := net\<rparr> \<or> s' = s\<lparr>net_in := net, net_died := True\<rparr>)"
  using assms by (cases "net_in s") (auto simp: xdrrec_getrec_def Let_def split: if_splits)

text \<open>It takes one record in two pieces: the first call reads the header and half of it.\<close>

lemma xdrrec_getrec_in_two_pieces:
  "case xdrrec_getrec True (the (xdrrec_create 100 100 [take 6 (frag True [1, 2, 3, 4]), [3, 4]] 0 0 3)
      \<lparr>nonblock := True, in_maxrec := 100\<rparr>) of
     (ok, stat, s) \<Rightarrow> \<not> ok \<and> stat = XPRT_MOREREQS \<and> net_in s = [[3, 4]] \<and> \<not> in_haveheader s \<and>
       length (in_header s) = 4 \<and> in_received s = 2 \<and> in_reclen s = 4"
  by code_simp

end
