(* ===== verification/Auth.thy ===== *)
theory Auth
  imports Rec_Calls
begin

text \<open>
  Authentication: the Unix credentials and their filter (\<open>libsrc/authunix_prot.c\<close>), the client's
  authenticators (\<open>libsrc/auth_unix.c\<close>, \<open>libsrc/auth_none.c\<close>) and the server's
  (\<open>libsrc/svc_auth.c\<close>, \<open>libsrc/svc_auth_unix.c\<close>). The main facts: the bytes a client handle sends
  are always those of its current credential, whatever the server answers, as long as the
  short-hand credentials it hands out fit; and the server's hand-written decoder of the Unix
  credential reads what the client's filter wrote.
\<close>

section \<open>Unix credentials\<close>

abbreviation (input) MAX_MACHINE_NAME :: u32 where "MAX_MACHINE_NAME \<equiv> 255"
abbreviation (input) NGRPS :: u32 where "NGRPS \<equiv> 16"

abbreviation (input) AUTH_NULL :: u32 where "AUTH_NULL \<equiv> 0"
abbreviation (input) AUTH_SYS :: u32 where "AUTH_SYS \<equiv> 1"
abbreviation (input) AUTH_SHORT :: u32 where "AUTH_SHORT \<equiv> 2"

abbreviation (input) AUTH_OK :: u32 where "AUTH_OK \<equiv> 0"
abbreviation (input) AUTH_BADCRED :: u32 where "AUTH_BADCRED \<equiv> 1"
abbreviation (input) AUTH_REJECTEDCRED :: u32 where "AUTH_REJECTEDCRED \<equiv> 2"
abbreviation (input) AUTH_TOOWEAK :: u32 where "AUTH_TOOWEAK \<equiv> 5"

record authunix_parms =
  aup_time :: u32
  aup_machname :: "byte list option"
  aup_uid :: u32
  aup_gid :: u32
  aup_len :: u32
  aup_gids :: "u32 list option"

definition aup_gids_len_update ::
  "(u32 list option \<times> u32 \<Rightarrow> u32 list option \<times> u32) \<Rightarrow> authunix_parms \<Rightarrow> authunix_parms" where
  "aup_gids_len_update f p = (case f (aup_gids p, aup_len p) of (g, n) \<Rightarrow> p\<lparr>aup_gids := g, aup_len := n\<rparr>)"

definition xdr_authunix_parms :: "('s, authunix_parms) xdrproc" where
  "xdr_authunix_parms =
     xdr_seq [xdr_field aup_time aup_time_update xdr_u_long,
              xdr_field aup_machname aup_machname_update (xdr_string MAX_MACHINE_NAME),
              xdr_field aup_uid aup_uid_update xdr_int,
              xdr_field aup_gid aup_gid_update xdr_int,
              xdr_field (\<lambda>p. (aup_gids p, aup_len p)) aup_gids_len_update (xdr_array xdr_int 0 NGRPS 4)]"

definition null_auth :: opaque_auth where
  "null_auth = \<lparr>oa_flavor = AUTH_NULL, oa_base = None, oa_length = 0\<rparr>"

section \<open>The client's Unix authenticator\<close>

text \<open>
  \<open>ah_cred\<close> is a copy of one of the two credentials, with the same pointer; \<open>ah_orig\<close> is which one.
  \<open>au_heap\<close> counts the blocks that can still be allocated.
\<close>

record auth =
  ah_cred :: opaque_auth
  ah_verf :: opaque_auth
  ah_orig :: bool
  au_origcred :: opaque_auth
  au_shcred :: opaque_auth
  au_shfaults :: u32
  au_marshed :: "byte list"
  au_mpos :: u32
  au_heap :: nat

text \<open>\<open>marsh\<close> is the address of \<open>au_marshed\<close>, on which the choice of the stream's operations depends.\<close>

definition marshal_new_auth :: "u64 \<Rightarrow> auth \<Rightarrow> auth" where
  "marshal_new_auth marsh a =
     (case xdr_opaque_auth (ah_cred a)
        (xdrmem_create marsh (au_marshed a) MAX_AUTH_BYTES XDR_ENCODE (au_heap a)) of (ok, _, x) \<Rightarrow>
      if \<not> ok then a\<lparr>au_marshed := xm_buf (x_private x)\<rparr>
      else case xdr_opaque_auth (ah_verf a) x of (ok, _, x) \<Rightarrow>
        if \<not> ok then a\<lparr>au_marshed := xm_buf (x_private x)\<rparr>
        else a\<lparr>au_marshed := xm_buf (x_private x), au_mpos := XDR_GETPOS x\<rparr>)"

datatype 'a created = Created 'a | Out_of_memory nat | Aborted

text \<open>
  \<open>mymem\<close> is what the local buffer holds at entry. The three allocations are the handle, its
  private part and the credential; a failure gives back those before it.
\<close>

definition authunix_create ::
  "u64 \<Rightarrow> u64 \<Rightarrow> byte list \<Rightarrow> u32 \<Rightarrow> byte list \<Rightarrow> u32 \<Rightarrow> u32 \<Rightarrow> u32 \<Rightarrow> u32 list \<Rightarrow> nat \<Rightarrow> auth created" where
  "authunix_create addr marsh mymem now machname uid gid len gids heap =
     (if heap < 2 then Out_of_memory heap
      else let aup = \<lparr>aup_time = now, aup_machname = Some machname, aup_uid = uid, aup_gid = gid,
                      aup_len = len, aup_gids = Some gids\<rparr>
      in case xdr_authunix_parms aup (xdrmem_create addr mymem MAX_AUTH_BYTES XDR_ENCODE (heap - 2)) of
           (ok, _, x) \<Rightarrow>
         if \<not> ok then Aborted
         else let len = XDR_GETPOS x in
         if heap < 3 then Out_of_memory heap
         else let orig = \<lparr>oa_flavor = AUTH_SYS,
                          oa_base = Some (take (unat len) (xm_buf (x_private x))), oa_length = len\<rparr>
         in Created (marshal_new_auth marsh
              \<lparr>ah_cred = orig, ah_verf = null_auth, ah_orig = True, au_origcred = orig,
               au_shcred = null_auth, au_shfaults = 0, au_marshed = zeros 400, au_mpos = 0,
               au_heap = heap - 3\<rparr>))"

definition authunix_marshal :: "auth \<Rightarrow> 's XDR \<Rightarrow> bool \<times> 's XDR" where
  "authunix_marshal a x = XDR_PUTBYTES x (take (unat (au_mpos a)) (au_marshed a))"

text \<open>\<open>addr\<close> is the address of the verifier's body.\<close>

definition authunix_validate :: "u64 \<Rightarrow> u64 \<Rightarrow> auth \<Rightarrow> opaque_auth \<Rightarrow> bool \<times> auth" where
  "authunix_validate addr marsh a verf =
     (if oa_flavor verf = AUTH_SHORT
      then let x = xdrmem_create addr (deref (oa_base verf)) (oa_length verf) XDR_DECODE
                     (au_heap a + (if oa_base (au_shcred a) = None then 0 else 1));
               sh = (au_shcred a)\<lparr>oa_base := None\<rparr>
      in (case xdr_opaque_auth sh x of (ok, sh, x) \<Rightarrow>
          (True, marshal_new_auth marsh
            (if ok then a\<lparr>au_shcred := sh, ah_cred := sh, ah_orig := False, au_heap := x_mem x\<rparr>
             else case xdr_free xdr_opaque_auth sh x of (sh, x) \<Rightarrow>
               a\<lparr>au_shcred := sh\<lparr>oa_base := None\<rparr>, ah_cred := au_origcred a, ah_orig := True,
                 au_heap := x_mem x\<rparr>)))
      else (True, a))"

definition authunix_refresh :: "u64 \<Rightarrow> u64 \<Rightarrow> u32 \<Rightarrow> auth \<Rightarrow> bool \<times> auth" where
  "authunix_refresh addr marsh now a =
     (if ah_orig a then (False, a)
      else let a = a\<lparr>au_shfaults := au_shfaults a + 1\<rparr>;
               aup = \<lparr>aup_time = 0, aup_machname = None, aup_uid = 0, aup_gid = 0, aup_len = 0, aup_gids = None\<rparr>
      in case xdr_authunix_parms aup (xdrmem_create addr (deref (oa_base (au_origcred a)))
                (oa_length (au_origcred a)) XDR_DECODE (au_heap a)) of
           (stat, aup, x) \<Rightarrow>
         (case (if \<not> stat then (False, a, aup, x)
                else case xdr_authunix_parms (aup\<lparr>aup_time := now\<rparr>)
                  (snd (XDR_SETPOS (x\<lparr>x_op := XDR_ENCODE\<rparr>) 0)) of (stat, aup, x) \<Rightarrow>
                  let a = a\<lparr>au_origcred := (au_origcred a)\<lparr>oa_base := Some (xm_buf (x_private x))\<rparr>\<rparr> in
                  if \<not> stat then (False, a, aup, x)
                  else (True, marshal_new_auth marsh (a\<lparr>ah_cred := au_origcred a, ah_orig := True\<rparr>), aup, x)) of
            (stat, a, aup, x) \<Rightarrow>
              (case xdr_free xdr_authunix_parms aup x of (aup, x) \<Rightarrow> (stat, a\<lparr>au_heap := x_mem x\<rparr>))))"

text \<open>The blocks \<open>authunix_destroy\<close> gives back: the credential, the short hand, the two structures.\<close>

definition authunix_destroy :: "auth \<Rightarrow> nat" where
  "authunix_destroy a = au_heap a + 1 + (if oa_base (au_shcred a) = None then 0 else 1) + 1 +
     (if oa_base (ah_verf a) = None then 0 else 1) + 1"

section \<open>The null authenticator\<close>

record authnone = marshalled_client :: "byte list"  mcnt :: u32

definition authnone_create :: "u64 \<Rightarrow> bool \<Rightarrow> authnone option \<Rightarrow> authnone option" where
  "authnone_create addr alloc ap =
     (case (case ap of Some ap \<Rightarrow> Some ap
            | None \<Rightarrow> if alloc then Some \<lparr>marshalled_client = zeros 20, mcnt = 0\<rparr> else None) of
        None \<Rightarrow> None
      | Some ap \<Rightarrow>
          if mcnt ap \<noteq> 0 then Some ap
          else case xdr_opaque_auth null_auth (xdrmem_create addr (marshalled_client ap) 20 XDR_ENCODE 0) of
            (_, _, x) \<Rightarrow>
            (case xdr_opaque_auth null_auth x of
              (_, _, x) \<Rightarrow> Some \<lparr>marshalled_client = xm_buf (x_private x), mcnt = XDR_GETPOS x\<rparr>))"

definition authnone_marshal :: "authnone option \<Rightarrow> 's XDR \<Rightarrow> bool \<times> 's XDR" where
  "authnone_marshal ap x =
     (case ap of None \<Rightarrow> (False, x)
      | Some ap \<Rightarrow> XDR_PUTBYTES x (take (unat (mcnt ap)) (marshalled_client ap)))"

section \<open>The server's side\<close>

text \<open>
  The cooked credential lives in the area behind \<open>rq_clntcred\<close>: the name and the groups are arrays
  in it. Of the transport only the response verifier matters here.
\<close>

definition svcauth_null :: u32 where
  "svcauth_null = AUTH_OK"

definition svcauth_short :: u32 where
  "svcauth_short = AUTH_REJECTEDCRED"

definition svcauth_unix_inline :: "u32 \<Rightarrow> byte list \<Rightarrow> authunix_parms \<Rightarrow> u32 \<times> authunix_parms" where
  "svcauth_unix_inline auth_len buf aup =
     (let aup = aup\<lparr>aup_time := IXDR_GET buf 0\<rparr>; str_len = IXDR_GET buf 1 in
      if str_len > MAX_MACHINE_NAME then (AUTH_BADCRED, aup)
      else let name = store 0 (load 8 (unat str_len) buf) (deref (aup_machname aup));
               aup = aup\<lparr>aup_machname := Some (store (unat str_len) [0] name)\<rparr>;
               str_len = rndup str_len;
               k = 2 + unat str_len div 4;
               aup = aup\<lparr>aup_uid := IXDR_GET buf k, aup_gid := IXDR_GET buf (k + 1)\<rparr>;
               gid_len = IXDR_GET buf (k + 2)
      in if gid_len > NGRPS then (AUTH_BADCRED, aup)
         else let gids = (case aup_gids aup of None \<Rightarrow> [] | Some g \<Rightarrow> g);
                  aup = aup\<lparr>aup_len := gid_len,
                    aup_gids := Some (store 0 (map (\<lambda>i. IXDR_GET buf (k + 3 + i)) [0..<unat gid_len]) gids)\<rparr>
         in if (5 + gid_len) * 4 + str_len > auth_len then (AUTH_BADCRED, aup) else (AUTH_OK, aup))"

definition svcauth_unix ::
  "u64 \<Rightarrow> nat \<Rightarrow> opaque_auth \<Rightarrow> authunix_parms \<Rightarrow> opaque_auth \<Rightarrow> u32 \<times> authunix_parms \<times> opaque_auth \<times> nat" where
  "svcauth_unix addr heap cred aup verf =
     (let auth_len = oa_length cred;
          x = xdrmem_create addr (deref (oa_base cred)) auth_len XDR_DECODE heap
      in case XDR_INLINE x auth_len of (buf, x) \<Rightarrow>
         (case (case buf of
              Some p \<Rightarrow> (case svcauth_unix_inline auth_len (ixdr_load x p 400) aup of (stat, aup) \<Rightarrow> (stat, aup, x))
            | None \<Rightarrow>
                (case xdr_authunix_parms aup x of (ok, aup, x) \<Rightarrow>
                   if ok then (AUTH_OK, aup, x)
                   else case xdr_free xdr_authunix_parms aup x of (aup, x) \<Rightarrow> (AUTH_BADCRED, aup, x))) of
            (stat, aup, x) \<Rightarrow>
              (stat, aup, (if stat = AUTH_OK then verf\<lparr>oa_flavor := AUTH_NULL, oa_length := 0\<rparr> else verf),
               x_mem x)))"

text \<open>
  The registered flavours (\<open>Auths\<close>): a handler is a number, and what handler \<open>h\<close> answers is the
  parameter \<open>run h\<close>.
\<close>

record authsvc = as_flavor :: u32  as_handler :: nat

fun auths_find :: "u32 \<Rightarrow> authsvc list \<Rightarrow> nat option" where
  "auths_find fl [] = None"
| "auths_find fl (a # as) = (if as_flavor a = fl then Some (as_handler a) else auths_find fl as)"

definition svc_auth_reg :: "u32 \<Rightarrow> nat \<Rightarrow> bool \<Rightarrow> authsvc list \<Rightarrow> int \<times> authsvc list" where
  "svc_auth_reg fl handler alloc auths =
     (if fl = AUTH_NULL \<or> fl = AUTH_SYS \<or> fl = AUTH_SHORT then (1, auths)
      else if auths_find fl auths \<noteq> None then (1, auths)
      else if \<not> alloc then (- 1, auths)
      else (0, \<lparr>as_flavor = fl, as_handler = handler\<rparr> # auths))"

definition authenticate ::
  "(nat \<Rightarrow> opaque_auth \<Rightarrow> u32) \<Rightarrow> authsvc list \<Rightarrow> u64 \<Rightarrow> nat \<Rightarrow> opaque_auth \<Rightarrow> authunix_parms \<Rightarrow> opaque_auth \<Rightarrow>
     u32 \<times> authunix_parms \<times> opaque_auth \<times> nat" where
  "authenticate run auths addr heap cred aup verf =
     (let verf = verf\<lparr>oa_flavor := AUTH_NULL, oa_length := 0\<rparr>; fl = oa_flavor cred in
      if fl = AUTH_NULL then (svcauth_null, aup, verf, heap)
      else if fl = AUTH_SYS then svcauth_unix addr heap cred aup verf
      else if fl = AUTH_SHORT then (svcauth_short, aup, verf, heap)
      else case auths_find fl auths of
        Some h \<Rightarrow> (run h cred, aup, verf, heap)
      | None \<Rightarrow> (AUTH_REJECTEDCRED, aup, verf, heap))"

section \<open>What the Unix credential is on the wire\<close>

definition authunix_ok :: "authunix_parms \<Rightarrow> bool" where
  "authunix_ok p \<longleftrightarrow> (\<exists>b g. aup_machname p = Some b \<and> strlen b \<le> 255 \<and>
     aup_gids p = Some g \<and> length g = unat (aup_len p) \<and> length g \<le> 16)"

definition enc_authunix :: "authunix_parms \<Rightarrow> byte list" where
  "enc_authunix p = be32 (aup_time p) @ enc_counted (cstr (deref (aup_machname p))) @
     be32 (aup_uid p) @ be32 (aup_gid p) @ enc_array be32 (the (aup_gids p))"

lemma length_enc_seq_be32 [simp]: "length (enc_seq be32 g) = 4 * length g"
  by (induction g) simp_all

lemma length_enc_authunix:
  assumes "authunix_ok p"
  shows "length (enc_authunix p) \<le> 340"
    and "length (enc_authunix p) = 20 + length (enc_opaque (cstr (deref (aup_machname p)))) + 4 * unat (aup_len p)"
proof -
  obtain b g where p: "aup_machname p = Some b" "length (cstr b) \<le> 255" "aup_gids p = Some g"
    "length g = unat (aup_len p)" "unat (aup_len p) \<le> 16"
    using assms by (auto simp: authunix_ok_def strlen_def)
  show e: "length (enc_authunix p) = 20 + length (enc_opaque (cstr (deref (aup_machname p)))) + 4 * unat (aup_len p)"
    using p by (simp add: enc_authunix_def enc_counted_def enc_array_def)
  have "length (cstr b) + xdr_pad (length (cstr b)) \<le> 256"
    using p(2) xdr_pad_less [of "length (cstr b)"] xdr_pad_aligned [of "length (cstr b)"] by presburger
  then show "length (enc_authunix p) \<le> 340"
    unfolding e using p by (simp add: length_enc_opaque)
qed

lemma IXDR_GET_skip: "length xs = 4 * n \<Longrightarrow> IXDR_GET (xs @ ys) (n + k) = IXDR_GET ys k"
  by (simp add: IXDR_GET_def load_def algebra_simps)

lemma IXDR_GET_seq:
  "k < length g \<Longrightarrow> IXDR_GET (enc_seq be32 g @ ys) k = g ! k"
proof (induction g arbitrary: k)
  case (Cons w g)
  then show ?case by (cases k) simp_all
qed simp

lemma map_IXDR_GET_seq: "map (IXDR_GET (enc_seq be32 g @ ys)) [0..<length g] = g"
  by (intro nth_equalityI) (simp_all add: IXDR_GET_seq)

context xdr_sink
begin

lemma encodes_authunix [codec]:
  assumes "authunix_ok p"
  shows "encodes xdr_authunix_parms p p (enc_authunix p)"
proof -
  obtain b g where p: "aup_machname p = Some b" "length (cstr b) \<le> 255" "aup_gids p = Some g"
    "length g = unat (aup_len p)" "unat (aup_len p) \<le> 16"
    using assms by (auto simp: authunix_ok_def strlen_def)
  have "encodes (xdr_array xdr_int 0 NGRPS 4) (Some g, of_nat (length g)) (Some g, of_nat (length g))
      (enc_array be32 g)"
    by (intro encodes_array encodes_ints) (use p(4,5) in simp_all)
  then have gids: "encodes (xdr_array xdr_int 0 NGRPS 4) (aup_gids p, aup_len p) (Some g, aup_len p)
      (enc_array be32 g)"
    using p(3,4) by simp
  have name: "encodes (xdr_string MAX_MACHINE_NAME) (aup_machname p) (Some b) (enc_counted (cstr b))"
    unfolding p(1) by (rule encodes_string) (use p(2) in simp_all)
  show ?thesis
    unfolding xdr_authunix_parms_def
    by (rule encodes_eq, (rule encodes_seq encodes_ints gids name | simp, rule gids name)+)
      (use p in \<open>simp_all add: enc_authunix_def aup_gids_len_update_def\<close>)
qed

end

text \<open>Decoding into the arrays of the area, which are longer than what arrives.\<close>

lemma xdr_elems_append:
  "xdr_elems p (length zs) (zs @ r) x = (case xdr_elems p (length zs) zs x of (ok, ts, x) \<Rightarrow> (ok, ts @ r, x))"
  by (induction zs arbitrary: x) (auto split: prod.splits)

definition authunix_into :: "authunix_parms \<Rightarrow> authunix_parms \<Rightarrow> authunix_parms" where
  "authunix_into z p =
     (let t = cstr (deref (aup_machname p)); g = the (aup_gids p) in
      \<lparr>aup_time = aup_time p,
       aup_machname = Some (store 0 t (store (length t) [0] (the (aup_machname z)))),
       aup_uid = aup_uid p, aup_gid = aup_gid p, aup_len = aup_len p,
       aup_gids = Some (store 0 g (the (aup_gids z)))\<rparr>)"

definition area_ok :: "authunix_parms \<Rightarrow> bool" where
  "area_ok z \<longleftrightarrow> (\<exists>a g. aup_machname z = Some a \<and> length a = 256 \<and> aup_gids z = Some g \<and> length g = 16)"

context xdr_source
begin

lemma decodes_authunix_area:
  assumes "authunix_ok p" and "area_ok z"
  shows "decodes xdr_authunix_parms z (authunix_into z p) (enc_authunix p) 0"
proof -
  obtain b g where p: "aup_machname p = Some b" "length (cstr b) \<le> 255" "aup_gids p = Some g"
    "length g = unat (aup_len p)" "unat (aup_len p) \<le> 16"
    using assms(1) by (auto simp: authunix_ok_def strlen_def)
  obtain a h where z: "aup_machname z = Some a" "aup_gids z = Some h" "length h = 16"
    using assms(2) by (auto simp: area_ok_def)
  let ?n = "length g"
  have h: "h = take ?n h @ drop ?n h" "length (take ?n h) = ?n"
    using z(3) p(4,5) by simp_all
  have elems: "decodes (xdr_elems xdr_int ?n) (take ?n h) g (enc_seq be32 g) 0"
    using decodes_elems [of "take ?n h" g xdr_int be32 "\<lambda>_. 0"] h(2) by (simp add: decodes_ints)
  have elems: "decodes (xdr_elems xdr_int ?n) h (g @ drop ?n h) (enc_seq be32 g) 0"
  proof (rule decodesI)
    fix s rest m
    assume "ready s (enc_seq be32 g @ rest)"
    then obtain s' where "xdr_elems xdr_int ?n (take ?n h) (mkXDR XDR_DECODE ops s (m + 0))
        = (True, g, mkXDR XDR_DECODE ops s' m)" "ready s' rest"
      by (rule decodesE [OF elems])
    then show "\<exists>s'. xdr_elems xdr_int ?n h (mkXDR XDR_DECODE ops s (m + 0))
        = (True, g @ drop ?n h, mkXDR XDR_DECODE ops s' m) \<and> ready s' rest"
      using xdr_elems_append [of xdr_int "take ?n h" "drop ?n h" "mkXDR XDR_DECODE ops s m"] h by simp
  qed
  have le: "\<not> NGRPS < aup_len p" "\<not> 1073741823 < aup_len p"
    using p(4,5) by (simp_all add: word_less_nat_alt)
  have gids: "decodes (xdr_array xdr_int 0 NGRPS 4) (aup_gids z, aup_len z) (Some (store 0 g h), aup_len p)
      (enc_array be32 g) 0"
    unfolding enc_array_def
    by (rule decodes_eq, rule decodes_bind [OF decodes_ints(4) [where z = "aup_len z"] elems])
      (use p(3,4) z le in \<open>auto simp: xdr_array_def store_def\<close>)
  have name: "decodes (xdr_string MAX_MACHINE_NAME) (aup_machname z)
      (Some (store 0 (cstr b) (store (length (cstr b)) [0] a))) (enc_counted (cstr b)) 0"
    unfolding z(1) by (rule decodes_string_into) (use p(2) in simp_all)
  show ?thesis
    unfolding xdr_authunix_parms_def enc_authunix_def
    by (rule decodes_eq, (rule decodes_seq decodes_ints | simp, rule gids name
        | simp add: p, rule gids name)+)
      (use p z in \<open>simp_all add: authunix_into_def aup_gids_len_update_def Let_def\<close>)
qed

end

section \<open>The server reads what the client wrote\<close>

lemma svcauth_unix_inline_reads:
  assumes "authunix_ok p" and "area_ok z"
  shows "svcauth_unix_inline (of_nat (length (enc_authunix p))) (enc_authunix p @ rest) z
    = (AUTH_OK, authunix_into z p)"
proof -
  obtain b g where p: "aup_machname p = Some b" "length (cstr b) \<le> 255" "aup_gids p = Some g"
    "length g = unat (aup_len p)" "unat (aup_len p) \<le> 16"
    using assms(1) by (auto simp: authunix_ok_def strlen_def)
  obtain a h where z: "aup_machname z = Some a" "aup_gids z = Some h" "length a = 256"
    using assms(2) by (auto simp: area_ok_def)
  have stored: "store (length (cstr b)) [0] (store 0 (cstr b) a) = store 0 (cstr b) (store (length (cstr b)) [0] a)"
    using z(3) p(2) by (simp add: store_def)
  let ?t = "cstr b" and ?n = "of_nat (length (cstr b)) :: u32"
  let ?q = "(length ?t + xdr_pad (length ?t)) div 4"
  have n: "unat ?n = length ?t" "\<not> 255 < ?n"
    using p(2) by (simp_all add: unat_of_nat word_less_nat_alt)
  have q: "4 * ?q = length (enc_opaque ?t)"
    using enc_opaque_aligned [of ?t] unfolding length_enc_opaque by presburger
  have r: "unat (rndup ?n) = length (enc_opaque ?t)"
    using unat_rndup [of ?n] n p(2) by (simp add: length_enc_opaque)
  then have r4: "unat (rndup ?n) div 4 = ?q"
    by (simp add: length_enc_opaque)
  let ?tail = "be32 (aup_uid p) @ be32 (aup_gid p) @ be32 (aup_len p) @ enc_seq be32 g @ rest"
  let ?pre = "be32 (aup_time p) @ be32 ?n @ enc_opaque ?t"
  have buf: "enc_authunix p @ rest = ?pre @ ?tail"
    using p by (simp add: enc_authunix_def enc_counted_def enc_array_def)
  have skip: "IXDR_GET (?pre @ ?tail) (2 + ?q + k) = IXDR_GET ?tail k" for k
    by (rule IXDR_GET_skip) (use q in simp)
  have gids: "map (\<lambda>i. IXDR_GET (?pre @ ?tail) (2 + ?q + 3 + i)) [0..<unat (aup_len p)] = g"
    using map_IXDR_GET_seq [of g rest] p(4) skip [of "3 + _"]
    by (simp add: add.assoc numeral_3_eq_3)
  have name: "load 8 (unat ?n) (?pre @ ?tail) = ?t"
    using n by (simp add: load_def enc_opaque_def)
  have le: "\<not> NGRPS < aup_len p" using p(5) by (simp add: word_less_nat_alt)
  have total: "(5 + aup_len p) * 4 + rndup ?n = of_nat (length (enc_authunix p))"
  proof -
    have "rndup ?n = of_nat (length (enc_opaque ?t))"
      using r by (metis of_nat_unat ucast_id)
    moreover have "of_nat (4 * unat (aup_len p)) = 4 * aup_len p" by simp
    ultimately show ?thesis
      using length_enc_authunix(2) [OF assms(1)] p(1) by (simp add: algebra_simps)
  qed
  have heads: "IXDR_GET (?pre @ ?tail) 0 = aup_time p" "IXDR_GET (?pre @ ?tail) 1 = ?n"
    "IXDR_GET (?pre @ ?tail) (2 + ?q) = aup_uid p" "IXDR_GET (?pre @ ?tail) (2 + ?q + 1) = aup_gid p"
    "IXDR_GET (?pre @ ?tail) (2 + ?q + 2) = aup_len p"
    using skip [of 0] skip [of 1] skip [of 2] by (simp_all add: numeral_2_eq_2)
  show ?thesis
    unfolding buf svcauth_unix_inline_def Let_def heads r4
    using n(2) le p z
    by (simp only: heads r4 if_False gids name total less_irrefl) (simp add: authunix_into_def stored n(1) Let_def)
qed

text \<open>Whatever the alignment of the credential is, inline or through the filter.\<close>

lemma svcauth_unix_reads:
  assumes "authunix_ok p" and "area_ok z" and "oa_base cred = Some (enc_authunix p @ rest)"
    and "oa_length cred = of_nat (length (enc_authunix p))" and "length rest < 2 ^ 62"
  shows "svcauth_unix addr h cred z verf
    = (AUTH_OK, authunix_into z p, verf\<lparr>oa_flavor := AUTH_NULL, oa_length := 0\<rparr>, h)"
proof -
  let ?e = "enc_authunix p" and ?n = "of_nat (length (enc_authunix p)) :: u32"
  have n: "length ?e \<le> 340" "unat ?n = length ?e"
    using length_enc_authunix(1) [OF assms(1)] by (simp_all add: unat_of_nat)
  let ?s = "\<lparr>xm_base = addr, xm_priv = addr, xm_handy = ?n, xm_buf = ?e @ rest\<rparr>"
  let ?x = "xdrmem_create addr (?e @ rest) ?n XDR_DECODE h"
  consider "?x = mkXDR XDR_DECODE xdrmem_ops_aligned ?s h" | "?x = mkXDR XDR_DECODE xdrmem_ops_unaligned ?s h"
    by (rule xdrmem_create_ops)
  then show ?thesis
  proof cases
    case 1
    have "take 400 (?e @ rest) = ?e @ take (400 - length ?e) rest"
      using n(1) by simp
    then have "svcauth_unix_inline ?n (load 0 400 (?e @ rest)) z = (AUTH_OK, authunix_into z p)"
      using svcauth_unix_inline_reads [OF assms(1,2)] by (simp add: load_def)
    then show ?thesis
      using 1 assms(3,4)
      by (simp add: svcauth_unix_def XDR_INLINE_def ixdr_load_def xdrmem_ops_aligned_def
          xdrmem_inline_aligned_def xm_off_def Let_def)
  next
    case 2
    obtain x' where "xdr_authunix_parms z (xdrmem_create addr (?e @ rest) ?n XDR_DECODE (h + 0))
        = (True, authunix_into z p, x')" "x_mem x' = h"
      by (rule xdrmem_decode [OF mem_aligned.decodes_authunix_area [OF assms(1,2)]
            mem_unaligned.decodes_authunix_area [OF assms(1,2)], of ?n "?e @ rest"])
        (use n assms(5) in simp_all)
    with 2 assms(3,4) show ?thesis
      by (simp add: svcauth_unix_def XDR_INLINE_def xdrmem_ops_unaligned_def
          xdrmem_inline_unaligned_def Let_def)
  qed
qed

text \<open>A handle's marshalled bytes, once its two authenticators fit.\<close>

definition two_auths :: "('s, opaque_auth \<times> opaque_auth) xdrproc" where
  "two_auths = xdr_seq [xdr_field fst apfst xdr_opaque_auth, xdr_field snd apsnd xdr_opaque_auth]"

context xdr_sink
begin

lemma encodes_two_auths:
  "auth_ok c \<Longrightarrow> auth_ok v \<Longrightarrow> encodes two_auths (c, v) (c, v) (enc_auth c @ enc_auth v)"
  unfolding two_auths_def
  by (rule encodes_eq, (rule encodes_seq | simp, rule encodes_opaque_auth, assumption)+) simp_all

end

definition marshalled :: "auth \<Rightarrow> bool" where
  "marshalled a \<longleftrightarrow> take (unat (au_mpos a)) (au_marshed a) = enc_auth (ah_cred a) @ enc_auth (ah_verf a)"

lemma marshal_new_auth_spec:
  assumes "auth_ok (ah_cred a)" and "auth_ok (ah_verf a)" and "length (au_marshed a) = 400"
    and "length (enc_auth (ah_cred a) @ enc_auth (ah_verf a)) \<le> 400"
  obtains b n where "marshal_new_auth marsh a = a\<lparr>au_marshed := b, au_mpos := n\<rparr>" and "length b = 400"
    and "marshalled (a\<lparr>au_marshed := b, au_mpos := n\<rparr>)"
proof -
  let ?bs = "enc_auth (ah_cred a) @ enc_auth (ah_verf a)"
  let ?x = "xdrmem_create marsh (au_marshed a) MAX_AUTH_BYTES XDR_ENCODE (au_heap a)"
  obtain x where x: "two_auths (ah_cred a, ah_verf a) ?x = (True, (ah_cred a, ah_verf a), x)"
    "xm_buf (x_private x) = store 0 ?bs (au_marshed a)" "XDR_GETPOS x = of_nat (length ?bs)"
    by (rule xdrmem_encode [OF mem_aligned.encodes_two_auths [OF assms(1,2)]
          mem_unaligned.encodes_two_auths [OF assms(1,2)], of MAX_AUTH_BYTES "au_marshed a"])
      (use assms(3,4) in simp_all)
  obtain ok c x1 where c: "xdr_opaque_auth (ah_cred a) ?x = (ok, c, x1)"
    by (cases "xdr_opaque_auth (ah_cred a) ?x")
  obtain ok2 v x2 where v: "xdr_opaque_auth (ah_verf a) x1 = (ok2, v, x2)"
    by (cases "xdr_opaque_auth (ah_verf a) x1")
  have run: "ok" "ok2" "x2 = x"
    using x(1) c v by (auto simp: two_auths_def xdr_field_def split: if_splits)
  have "unat (of_nat (length ?bs) :: u32) = length ?bs"
    using assms(4) by (intro unat_of_nat_handy [of _ MAX_AUTH_BYTES]) simp
  with run c v x(2,3) assms(3,4) show thesis
    by (intro that [of "of_nat (length ?bs)" "store 0 ?bs (au_marshed a)"])
      (simp_all add: marshal_new_auth_def marshalled_def store_def)
qed

lemma authunix_create_spec:
  fixes now uid gid len :: u32 and gids :: "u32 list" and name :: "byte list"
  assumes "strlen name \<le> 255" and "length gids = unat len" and "unat len \<le> 16" and "length mymem = 400"
    and "3 \<le> heap"
  defines "p \<equiv> \<lparr>aup_time = now, aup_machname = Some name, aup_uid = uid, aup_gid = gid, aup_len = len,
    aup_gids = Some gids\<rparr>"
  obtains a where "authunix_create addr marsh mymem now name uid gid len gids heap = Created a"
    and "ah_cred a = \<lparr>oa_flavor = AUTH_SYS, oa_base = Some (enc_authunix p), oa_length = of_nat (length (enc_authunix p))\<rparr>"
    and "ah_verf a = null_auth" and "ah_orig a" and "au_origcred a = ah_cred a" and "au_shcred a = null_auth"
    and "au_heap a = heap - 3" and "length (au_marshed a) = 400" and "marshalled a"
proof -
  let ?e = "enc_authunix p"
  have ok: "authunix_ok p"
    using assms(1-3) by (simp add: authunix_ok_def p_def)
  have len: "length ?e \<le> 340" using length_enc_authunix(1) [OF ok] .
  then have n: "unat (of_nat (length ?e) :: u32) = length ?e" by (simp add: unat_of_nat)
  obtain x where x: "xdr_authunix_parms p (xdrmem_create addr mymem MAX_AUTH_BYTES XDR_ENCODE (heap - 2)) = (True, p, x)"
    "xm_buf (x_private x) = store 0 ?e mymem" "XDR_GETPOS x = of_nat (length ?e)"
    by (rule xdrmem_encode [OF mem_aligned.encodes_authunix [OF ok] mem_unaligned.encodes_authunix [OF ok],
          of MAX_AUTH_BYTES mymem]) (use len assms(4) in simp_all)
  let ?c = "\<lparr>oa_flavor = AUTH_SYS, oa_base = Some ?e, oa_length = of_nat (length ?e)\<rparr>"
  let ?a = "\<lparr>ah_cred = ?c, ah_verf = null_auth, ah_orig = True, au_origcred = ?c,
    au_shcred = null_auth, au_shfaults = 0, au_marshed = zeros 400, au_mpos = 0, au_heap = heap - 3\<rparr>"
  have create: "authunix_create addr marsh mymem now name uid gid len gids heap = Created (marshal_new_auth marsh ?a)"
    using x assms(4,5) len n by (simp add: authunix_create_def p_def store_def Let_def)
  have auth: "auth_ok ?c" "auth_ok null_auth"
    using len n by (simp_all add: auth_ok_def auth_bytes_def null_auth_def word_le_nat_alt)
  have "length (enc_auth ?c @ enc_auth null_auth) \<le> 400"
    using len n xdr_pad_less [of "length ?e"]
    by (simp add: enc_auth_def enc_counted_def length_enc_opaque auth_bytes_def null_auth_def)
  then have fit: "length (enc_auth (ah_cred ?a) @ enc_auth (ah_verf ?a)) \<le> 400" by simp
  have auth': "auth_ok (ah_cred ?a)" "auth_ok (ah_verf ?a)" "length (au_marshed ?a) = 400"
    using auth by simp_all
  obtain b m where "marshal_new_auth marsh ?a = ?a\<lparr>au_marshed := b, au_mpos := m\<rparr>" "length b = 400"
    "marshalled (?a\<lparr>au_marshed := b, au_mpos := m\<rparr>)"
    by (rule marshal_new_auth_spec [OF auth' fit])
  then show thesis
    using create by (intro that) simp_all
qed

text \<open>
  C11: the credential of a fresh client handle, once it has reached the server's call header, is
  accepted by the server's authenticator, which cooks it to the time, name, ids and groups the
  handle was created with and sets a null response verifier; and the handle's marshalled bytes are
  the credential and a null verifier.
\<close>

theorem unix_credential_roundtrip:
  fixes now uid gid len :: u32 and gids :: "u32 list" and name :: "byte list"
  assumes "strlen name \<le> 255" and "length gids = unat len" and "unat len \<le> 16" and "length mymem = 400"
    and "3 \<le> heap" and "area_ok z" and "oa_base c = Some area" and "length area = 400"
  shows "\<exists>a. authunix_create addr marsh mymem now name uid gid len gids heap = Created a \<and> marshalled a \<and>
    auth_ok (ah_cred a) \<and> auth_ok (ah_verf a) \<and>
    (\<exists>aup. authenticate run auths addr' h (auth_into c (ah_cred a)) z verf
        = (AUTH_OK, aup, verf\<lparr>oa_flavor := AUTH_NULL, oa_length := 0\<rparr>, h) \<and>
      aup_time aup = now \<and> cstr (the (aup_machname aup)) = cstr name \<and> aup_uid aup = uid \<and> aup_gid aup = gid \<and>
      aup_len aup = len \<and> take (unat len) (the (aup_gids aup)) = gids)"
proof -
  let ?p = "\<lparr>aup_time = now, aup_machname = Some name, aup_uid = uid, aup_gid = gid, aup_len = len,
    aup_gids = Some gids\<rparr>"
  let ?e = "enc_authunix ?p"
  have ok: "authunix_ok ?p"
    using assms(1-3) by (simp add: authunix_ok_def)
  have len: "length ?e \<le> 340" "unat (of_nat (length ?e) :: u32) = length ?e"
    using length_enc_authunix(1) [OF ok] by (simp_all add: unat_of_nat)
  obtain a where a: "authunix_create addr marsh mymem now name uid gid len gids heap = Created a"
    "ah_cred a = \<lparr>oa_flavor = AUTH_SYS, oa_base = Some ?e, oa_length = of_nat (length ?e)\<rparr>"
    "ah_verf a = null_auth" "marshalled a"
    by (rule authunix_create_spec [OF assms(1-5)])
  have auth: "auth_ok (ah_cred a)" "auth_ok (ah_verf a)"
    using len a(2,3) by (simp_all add: auth_ok_def auth_bytes_def null_auth_def word_le_nat_alt)
  have "auth_into c (ah_cred a) = \<lparr>oa_flavor = AUTH_SYS, oa_base = Some (?e @ drop (length ?e) area),
      oa_length = of_nat (length ?e)\<rparr>"
    using a(2) assms(7) len(2) by (simp add: auth_into_def auth_bytes_def counted_into_def store_def)
  then have "authenticate run auths addr' h (auth_into c (ah_cred a)) z verf
      = (AUTH_OK, authunix_into z ?p, verf\<lparr>oa_flavor := AUTH_NULL, oa_length := 0\<rparr>, h)"
    using svcauth_unix_reads [OF ok assms(6), of "auth_into c (ah_cred a)" "drop (length ?e) area"] assms(8)
    by (simp add: authenticate_def)
  moreover obtain ar g where z: "aup_machname z = Some ar" "length ar = 256" "aup_gids z = Some g"
    using assms(6) by (auto simp: area_ok_def)
  have "cstr (store 0 (cstr name) (store (length (cstr name)) [0] ar)) = cstr name"
  proof -
    have "\<forall>c \<in> set (cstr name). c \<noteq> 0" by (auto simp: cstr_def dest: set_takeWhileD)
    then show ?thesis
      using z(2) assms(1) by (simp add: store_def cstr_def strlen_def)
  qed
  then have "cstr (the (aup_machname (authunix_into z ?p))) = cstr name"
    using z(1) by (simp add: authunix_into_def Let_def)
  moreover have "take (unat len) (the (aup_gids (authunix_into z ?p))) = gids"
    using z(3) assms(2) by (simp add: authunix_into_def store_def Let_def)
  ultimately show ?thesis
    using a(1,4) auth by (intro exI [of _ a]) (simp add: authunix_into_def Let_def)
qed

definition sample_area :: authunix_parms where
  "sample_area = \<lparr>aup_time = 0, aup_machname = Some (replicate 256 0), aup_uid = 0, aup_gid = 0, aup_len = 0,
     aup_gids = Some (replicate 16 0)\<rparr>"

theorem unix_credential_roundtrip_witness:
  "\<exists>a. authunix_create 0x1001 0x2002 (replicate 400 7) 99 [65, 66, 0] 10 20 2 [5, 6] 3 = Created a \<and> marshalled a \<and>
    auth_ok (ah_cred a) \<and> auth_ok (ah_verf a) \<and>
    (\<exists>aup. authenticate (\<lambda>_ _. 0) [] 0x3000 4
        (auth_into \<lparr>oa_flavor = 0, oa_base = Some (replicate 400 0), oa_length = 0\<rparr> (ah_cred a)) sample_area null_auth
        = (AUTH_OK, aup, null_auth\<lparr>oa_flavor := AUTH_NULL, oa_length := 0\<rparr>, 4) \<and>
      aup_time aup = 99 \<and> cstr (the (aup_machname aup)) = cstr [65, 66, 0] \<and> aup_uid aup = 10 \<and> aup_gid aup = 20 \<and>
      aup_len aup = 2 \<and> take (unat (2 :: u32)) (the (aup_gids aup)) = [5, 6])"
  by (rule unix_credential_roundtrip [where area = "replicate 400 0"])
    (simp_all add: strlen_def cstr_def area_ok_def sample_area_def)

text \<open>
  When the area is not aligned and the filter fails, \<open>XDR_FREE\<close> gives the name and the group array
  to the heap, although both lie in the caller's stack frame: two blocks appear that nobody allocated.
\<close>

lemma svcauth_unix_frees_the_area:
  "case svcauth_unix 0x1001 3 \<lparr>oa_flavor = AUTH_SYS, oa_base = Some [], oa_length = 0\<rparr> sample_area null_auth of
     (stat, aup, verf', h') \<Rightarrow> stat = AUTH_BADCRED \<and> h' = 5"
  by code_simp

text \<open>
  A server may hand out a short-hand credential that does not fit behind a verifier in \<open>au_marshed\<close>:
  the handle then keeps the old length over half-overwritten bytes, and says the answer was valid.
\<close>

lemma authunix_validate_overflow:
  "case authunix_create 0 0 (replicate 400 0) 1 [] 0 0 0 [] 4 of
     Created a \<Rightarrow>
       (case authunix_validate 0 0 a \<lparr>oa_flavor = AUTH_SHORT,
            oa_base = Some (be32 9 @ be32 388 @ replicate 388 1), oa_length = 396\<rparr> of
          (ok, a') \<Rightarrow> ok \<and> \<not> marshalled a' \<and> au_mpos a' = au_mpos a \<and> take 4 (au_marshed a') = be32 9)
   | _ \<Rightarrow> False"
  by code_simp

end
