(* ===== verification/Svc_Fdset.thy ===== *)
theory Svc_Fdset
  imports Auth "HOL-Library.Multiset"
begin

text \<open>
  \<open>libsrc/svc_fdset.c\<close>, as it is built for Windows and used from one thread: the descriptors the
  server waits for, as a socket set for \<open>select\<close> and as an array for \<open>poll\<close>. The main fact is that
  both always hold the set of descriptors that were added and not removed, and that \<open>fdmax\<close> is the
  largest of them. Assertions are compiled out; \<open>None\<close> is a null pointer dereference.
\<close>

section \<open>The socket set\<close>

text \<open>\<open>FD_SETSIZE\<close> is the 64 of the system's headers, on which \<open>win32_socket.c\<close> relies.\<close>

abbreviation FD_SETSIZE :: nat where "FD_SETSIZE \<equiv> 64"

text \<open>The macros of \<open>winsock\<close> on the array of an \<open>fd_set\<close>.\<close>

definition FD_SET :: "int \<Rightarrow> int list \<Rightarrow> int list" where
  "FD_SET fd l = (if fd \<in> set l then l else if length l < FD_SETSIZE then l @ [fd] else l)"

definition FD_CLR :: "int \<Rightarrow> int list \<Rightarrow> int list" where
  "FD_CLR fd l = remove1 fd l"

definition FD_ISSET :: "int \<Rightarrow> int list \<Rightarrow> bool" where
  "FD_ISSET fd l = (fd \<in> set l)"

text \<open>A free entry of the poll array holds \<open>-1\<close>. \<open>fd_heap\<close> is how many allocations still succeed.\<close>

record svc_fdset =
  fd_set :: "int list option"
  fdmax :: int
  fdsize :: nat
  fdp :: "int list option"
  fdused :: nat
  fd_heap :: nat

definition svc_fdset_initial :: "nat \<Rightarrow> svc_fdset" where
  "svc_fdset_initial heap =
     \<lparr>fd_set = None, fdmax = 0, fdsize = 0, fdp = None, fdused = 0, fd_heap = heap\<rparr>"

section \<open>Operations\<close>

fun sanitize_loop :: "nat \<Rightarrow> int list \<Rightarrow> int" where
  "sanitize_loop 0 l = - 1"
| "sanitize_loop (Suc n) l = (if FD_ISSET (int n) l then int n else sanitize_loop n l)"

definition svc_fdset_sanitize :: "svc_fdset \<Rightarrow> svc_fdset option" where
  "svc_fdset_sanitize s =
     (if fdmax s < 0 then Some s
      else case fd_set s of None \<Rightarrow> None
        | Some l \<Rightarrow> Some (s\<lparr>fdmax := sanitize_loop (nat (fdmax s + 1)) l\<rparr>))"

definition svc_pollfd_alloc :: "svc_fdset \<Rightarrow> int list option \<times> svc_fdset" where
  "svc_pollfd_alloc s =
     (case fdp s of Some p \<Rightarrow> (Some p, s)
      | None \<Rightarrow>
          if fd_heap s = 0 then (None, s)
          else let p = replicate FD_SETSIZE (- 1) in (Some p, s\<lparr>fdp := Some p, fd_heap := fd_heap s - 1\<rparr>))"

fun fd_index :: "int \<Rightarrow> int list \<Rightarrow> nat option" where
  "fd_index fd [] = None"
| "fd_index fd (p # ps) = (if p = fd then Some 0 else map_option Suc (fd_index fd ps))"

definition svc_pollfd_add :: "int \<Rightarrow> svc_fdset \<Rightarrow> bool \<times> svc_fdset" where
  "svc_pollfd_add fd s =
     (case svc_pollfd_alloc s of
        (None, s) \<Rightarrow> (False, s)
      | (Some p, s) \<Rightarrow>
          (case fd_index (- 1) p of
             Some i \<Rightarrow> (True, s\<lparr>fdp := Some (p[i := fd]), fdused := max (fdused s) (i + 1)\<rparr>)
           | None \<Rightarrow>
               if fd_heap s = 0 then (False, s)
               else (True, s\<lparr>fdp := Some (p @ fd # replicate (FD_SETSIZE - 1) (- 1)),
                             fdused := length p + 1, fd_heap := fd_heap s - 1\<rparr>)))"

text \<open>The last entry in use is looked for downwards from the one that was removed.\<close>

fun pollfd_trim :: "nat \<Rightarrow> int list \<Rightarrow> nat" where
  "pollfd_trim 0 p = 0"
| "pollfd_trim (Suc i) p = (if p ! i \<noteq> - 1 then Suc i else pollfd_trim i p)"

definition svc_pollfd_del :: "int \<Rightarrow> svc_fdset \<Rightarrow> bool \<times> svc_fdset" where
  "svc_pollfd_del fd s =
     (case svc_pollfd_alloc s of
        (None, s) \<Rightarrow> (False, s)
      | (Some p, s) \<Rightarrow>
          (case fd_index fd p of
             None \<Rightarrow> (False, s)
           | Some i \<Rightarrow>
               let p = p[i := - 1]; s = s\<lparr>fdp := Some p\<rparr> in
               if int i \<noteq> int (fdused s) - 1 then (True, s)
               else (True, s\<lparr>fdused := pollfd_trim (i + 1) p\<rparr>)))"

text \<open>\<open>fdsize\<close> grows by whole units until it is no longer below the descriptor.\<close>

definition grow :: "int \<Rightarrow> nat \<Rightarrow> nat" where
  "grow fd n = (if fd \<le> int n then n else n + FD_SETSIZE * ((nat fd - n + (FD_SETSIZE - 1)) div FD_SETSIZE))"

definition svc_fdset_resize :: "int \<Rightarrow> svc_fdset \<Rightarrow> svc_fdset" where
  "svc_fdset_resize fd s =
     (if fd_set s = None \<and> fd_heap s > 0
      then s\<lparr>fd_set := Some [], fdsize := FD_SETSIZE, fd_heap := fd_heap s - 1\<rparr>
      else s\<lparr>fdsize := grow fd (fdsize s)\<rparr>)"

definition svc_fdset_alloc :: "int \<Rightarrow> svc_fdset \<Rightarrow> svc_fdset" where
  "svc_fdset_alloc fd s = svc_fdset_resize fd s"

definition svc_fdset_zero :: "svc_fdset \<Rightarrow> svc_fdset" where
  "svc_fdset_zero s =
     (let s = svc_fdset_alloc 0 s in
      s\<lparr>fd_set := map_option (\<lambda>_. []) (fd_set s), fdmax := - 1, fdp := None, fdused := 0,
        fd_heap := fd_heap s + (if fdp s = None then 0 else 1)\<rparr>)"

definition svc_fdset_set :: "int \<Rightarrow> svc_fdset \<Rightarrow> (int \<times> svc_fdset) option" where
  "svc_fdset_set fd s =
     (let s = svc_fdset_alloc fd s in
      case fd_set s of None \<Rightarrow> None
      | Some l \<Rightarrow>
          if length l \<ge> FD_SETSIZE then Some (- 1, s)
          else let s = s\<lparr>fd_set := Some (FD_SET fd l), fdmax := max fd (fdmax s)\<rparr> in
          (case svc_pollfd_add fd s of (ok, s) \<Rightarrow>
             map_option (\<lambda>s. (if ok then 0 else - 1, s)) (svc_fdset_sanitize s)))"

definition svc_fdset_isset :: "int \<Rightarrow> svc_fdset \<Rightarrow> (int \<times> svc_fdset) option" where
  "svc_fdset_isset fd s =
     (let s = svc_fdset_alloc fd s in
      case fd_set s of None \<Rightarrow> None | Some l \<Rightarrow> Some (if FD_ISSET fd l then 1 else 0, s))"

definition svc_fdset_clr :: "int \<Rightarrow> svc_fdset \<Rightarrow> (int \<times> svc_fdset) option" where
  "svc_fdset_clr fd s =
     (let s = svc_fdset_alloc fd s in
      case fd_set s of None \<Rightarrow> None
      | Some l \<Rightarrow>
          (case svc_pollfd_del fd (s\<lparr>fd_set := Some (FD_CLR fd l)\<rparr>) of (ok, s) \<Rightarrow>
             map_option (\<lambda>s. (if ok then 0 else - 1, s)) (svc_fdset_sanitize s)))"

definition svc_fdset_get :: "svc_fdset \<Rightarrow> (int list \<times> svc_fdset) option" where
  "svc_fdset_get s =
     (case svc_fdset_sanitize (svc_fdset_alloc 0 s) of None \<Rightarrow> None
      | Some s \<Rightarrow> (case fd_set s of None \<Rightarrow> None | Some l \<Rightarrow> Some (l, s)))"

text \<open>\<open>svc_fdset_getmax\<close> hands out the address of \<open>fdmax\<close>; the caller's stores are updates of it.\<close>

definition svc_fdset_getmax :: "svc_fdset \<Rightarrow> svc_fdset option" where
  "svc_fdset_getmax s = svc_fdset_sanitize (svc_fdset_alloc 0 s)"

definition svc_fdset_getsize :: "int \<Rightarrow> svc_fdset \<Rightarrow> nat \<times> svc_fdset" where
  "svc_fdset_getsize fd s = (let s = svc_fdset_alloc fd s in (fdsize s, s))"

definition svc_pollfd_get :: "svc_fdset \<Rightarrow> int list option \<times> svc_fdset" where
  "svc_pollfd_get s = (let s = svc_fdset_alloc 0 s in (fdp s, s))"

definition svc_pollfd_getmax :: "svc_fdset \<Rightarrow> nat \<times> svc_fdset" where
  "svc_pollfd_getmax s = (let s = svc_fdset_alloc 0 s in (fdused s, s))"

definition svc_pollfd_getsize :: "int \<Rightarrow> svc_fdset \<Rightarrow> nat \<times> svc_fdset" where
  "svc_pollfd_getsize fd s =
     (let s = svc_fdset_alloc fd s in (case fdp s of None \<Rightarrow> 0 | Some p \<Rightarrow> length p, s))"

text \<open>The copies. \<open>svc_pollfd_copy\<close> reads as many entries of its argument as the set reports for its size.\<close>

definition svc_fdset_copy :: "int list option \<Rightarrow> svc_fdset \<Rightarrow> int list option \<times> svc_fdset" where
  "svc_fdset_copy orig s =
     (case svc_fdset_getsize 0 s of (n, s) \<Rightarrow>
      if fd_heap s = 0 then (None, s)
      else (Some (case orig of None \<Rightarrow> [] | Some l \<Rightarrow> l), s\<lparr>fd_heap := fd_heap s - 1\<rparr>))"

definition svc_pollfd_copy :: "int list option \<Rightarrow> svc_fdset \<Rightarrow> (int list option \<times> svc_fdset) option" where
  "svc_pollfd_copy orig s =
     (case svc_fdset_getsize 0 s of (n, s) \<Rightarrow>
      if fd_heap s = 0 then Some (None, s)
      else let s = s\<lparr>fd_heap := fd_heap s - 1\<rparr> in
        case orig of None \<Rightarrow> Some (Some (replicate n 0), s)
        | Some p \<Rightarrow> if length p < n then None else Some (Some (take n p), s))"

section \<open>The invariant\<close>

definition fds_of :: "svc_fdset \<Rightarrow> int set" where
  "fds_of s = set (case fd_set s of None \<Rightarrow> [] | Some l \<Rightarrow> l)"

definition polled :: "svc_fdset \<Rightarrow> int list" where
  "polled s = filter (\<lambda>fd. fd \<noteq> - 1) (case fdp s of None \<Rightarrow> [] | Some p \<Rightarrow> p)"

lemma polled_Some: "fdp s = Some p \<Longrightarrow> polled s = filter (\<lambda>fd. fd \<noteq> - 1) p"
  by (simp add: polled_def)

definition poll_ok :: "svc_fdset \<Rightarrow> bool" where
  "poll_ok s \<longleftrightarrow> (case fdp s of None \<Rightarrow> fdused s = 0
     | Some p \<Rightarrow> FD_SETSIZE \<le> length p \<and> fdused s \<le> length p \<and> (\<forall>i < length p. fdused s \<le> i \<longrightarrow> p ! i = - 1))"

definition fdset_ok :: "svc_fdset \<Rightarrow> bool" where
  "fdset_ok s \<longleftrightarrow> (\<exists>l. fd_set s = Some l \<and> distinct l \<and> length l \<le> FD_SETSIZE \<and> (\<forall>fd \<in> set l. 0 \<le> fd \<and> fd \<le> fdmax s)
     \<and> mset (polled s) = mset l) \<and> poll_ok s"

definition fdmax_of :: "int set \<Rightarrow> int" where
  "fdmax_of S = (if S = {} then - 1 else Max S)"

lemma sanitize_loop_max:
  assumes "\<forall>fd \<in> set l. 0 \<le> fd \<and> fd < int n"
  shows "sanitize_loop n l = fdmax_of (set l)"
  using assms
proof (induction n)
  case 0
  then have "set l = {}" by (cases l) auto
  then show ?case by (simp add: fdmax_of_def)
next
  case (Suc n)
  show ?case
  proof (cases "int n \<in> set l")
    case True
    then have "Max (set l) = int n"
      using Suc.prems by (intro Max_eqI) auto
    with True show ?thesis by (auto simp: FD_ISSET_def fdmax_of_def)
  next
    case False
    then have "\<forall>fd \<in> set l. 0 \<le> fd \<and> fd < int n"
      using Suc.prems by (metis linorder_not_less nless_le of_nat_Suc zless_add1_eq add.commute)
    with Suc.IH False show ?thesis by (simp add: FD_ISSET_def)
  qed
qed

lemma fd_index_Some:
  "fd_index fd p = Some i \<Longrightarrow> i < length p \<and> p ! i = fd \<and> fd \<notin> set (take i p)"
  by (induction p arbitrary: i) (auto split: if_splits)

lemma fd_index_None: "fd_index fd p = None \<longleftrightarrow> fd \<notin> set p"
  by (induction p) auto

lemma pollfd_trim_spec:
  assumes "n \<le> length p"
  shows "pollfd_trim n p \<le> n" and "\<forall>i < n. pollfd_trim n p \<le> i \<longrightarrow> p ! i = - 1"
  using assms by (induction n) (auto simp: less_Suc_eq)

lemma polled_update:
  assumes "i < length p"
  shows "p ! i = - 1 \<Longrightarrow> x \<noteq> - 1 \<Longrightarrow> mset (filter (\<lambda>fd. fd \<noteq> - 1) (p[i := x]))
      = add_mset x (mset (filter (\<lambda>fd. fd \<noteq> - 1) (p :: int list)))"
    and "p ! i \<noteq> - 1 \<Longrightarrow> mset (filter (\<lambda>fd. fd \<noteq> - 1) (p[i := - 1]))
      = mset (filter (\<lambda>fd. fd \<noteq> - 1) p) - {# p ! i #}"
proof -
  note u = upd_conv_take_nth_drop [OF assms]
  have p: "filter (\<lambda>fd. fd \<noteq> - 1) p = filter (\<lambda>fd. fd \<noteq> - 1) (take i p) @
      filter (\<lambda>fd. fd \<noteq> - 1) [p ! i] @ filter (\<lambda>fd. fd \<noteq> - 1) (drop (Suc i) p)"
    by (subst id_take_nth_drop [OF assms]) simp
  show "p ! i = - 1 \<Longrightarrow> x \<noteq> - 1 \<Longrightarrow> mset (filter (\<lambda>fd. fd \<noteq> - 1) (p[i := x]))
      = add_mset x (mset (filter (\<lambda>fd. fd \<noteq> - 1) p))"
    unfolding p u by simp
  show "p ! i \<noteq> - 1 \<Longrightarrow> mset (filter (\<lambda>fd. fd \<noteq> - 1) (p[i := - 1]))
      = mset (filter (\<lambda>fd. fd \<noteq> - 1) p) - {# p ! i #}"
    unfolding p u by simp
qed

lemma poll_ok_cong: "fdp s' = fdp s \<Longrightarrow> fdused s' = fdused s \<Longrightarrow> poll_ok s' = poll_ok s"
  by (simp add: poll_ok_def split: option.split)

lemma svc_pollfd_alloc_spec:
  assumes "poll_ok s" and "fdp s = None \<Longrightarrow> 0 < fd_heap s"
  obtains p s' where "svc_pollfd_alloc s = (Some p, s')" and "fdp s' = Some p" and "poll_ok s'"
    and "polled s' = polled s" and "fd_set s' = fd_set s" and "fdmax s' = fdmax s"
proof (cases "fdp s")
  case None
  then show thesis
    using assms
    by (intro that [of "replicate FD_SETSIZE (- 1)" "s\<lparr>fdp := Some (replicate FD_SETSIZE (- 1)), fd_heap := fd_heap s - 1\<rparr>"])
      (simp_all add: svc_pollfd_alloc_def poll_ok_def polled_def Let_def)
next
  case (Some p)
  then show thesis
    using assms by (intro that [of p s]) (simp_all add: svc_pollfd_alloc_def)
qed

lemma svc_pollfd_add_spec:
  assumes "poll_ok s" and "fdp s = None \<Longrightarrow> 0 < fd_heap s" and "fd \<noteq> - 1" and "length (polled s) < FD_SETSIZE"
  obtains s' where "svc_pollfd_add fd s = (True, s')" and "poll_ok s'" and "fdp s' \<noteq> None"
    and "mset (polled s') = add_mset fd (mset (polled s))" and "fd_set s' = fd_set s" and "fdmax s' = fdmax s"
proof -
  obtain p s1 where s1: "svc_pollfd_alloc s = (Some p, s1)" "fdp s1 = Some p" "poll_ok s1"
    "polled s1 = polled s" "fd_set s1 = fd_set s" "fdmax s1 = fdmax s"
    by (rule svc_pollfd_alloc_spec [OF assms(1,2)])
  have pl: "polled s = filter (\<lambda>fd. fd \<noteq> - 1) p" using s1(2,4) by (simp add: polled_def)
  have p: "FD_SETSIZE \<le> length p" "fdused s1 \<le> length p" "\<forall>i < length p. fdused s1 \<le> i \<longrightarrow> p ! i = - 1"
    using s1(2,3) by (simp_all add: poll_ok_def)
  have "- 1 \<in> set p"
  proof (rule ccontr)
    assume "- 1 \<notin> set p"
    then have "filter (\<lambda>fd. fd \<noteq> - 1) p = p" by (intro filter_True) auto
    then show False using assms(4) p(1) pl by simp
  qed
  then obtain i where idx: "fd_index (- 1) p = Some i"
    using fd_index_None [of "- 1" p] by (cases "fd_index (- 1) p") simp_all
  note i = fd_index_Some [OF idx]
  let ?s = "s1\<lparr>fdp := Some (p[i := fd]), fdused := max (fdused s1) (Suc i)\<rparr>"
  have "svc_pollfd_add fd s = (True, ?s)"
    using s1(1) idx by (simp add: svc_pollfd_add_def)
  moreover have "poll_ok ?s"
    using p i by (simp add: poll_ok_def nth_list_update)
  moreover have "mset (polled ?s) = add_mset fd (mset (polled s))"
    using polled_update(1) [of i p fd] i assms(3) by (simp add: polled_def [of ?s] pl)
  ultimately show thesis using s1 by (intro that [of ?s]) simp_all
qed

lemma svc_pollfd_del_spec:
  assumes "poll_ok s" and "fd \<in> set (polled s)"
  obtains s' where "svc_pollfd_del fd s = (True, s')" and "poll_ok s'"
    and "mset (polled s') = mset (polled s) - {# fd #}" and "fd_set s' = fd_set s" and "fdmax s' = fdmax s"
    and "fdp s' \<noteq> None"
proof -
  obtain p where p: "fdp s = Some p" "fd \<in> set p" "fd \<noteq> - 1" "polled s = filter (\<lambda>fd. fd \<noteq> - 1) p"
    using assms(2) by (cases "fdp s") (auto simp: polled_def)
  then obtain i where idx: "fd_index fd p = Some i" by (cases "fd_index fd p") (auto simp: fd_index_None)
  note i = fd_index_Some [OF idx]
  let ?q = "p[i := - 1]"
  have ok: "FD_SETSIZE \<le> length p" "fdused s \<le> length p" "\<forall>i < length p. fdused s \<le> i \<longrightarrow> p ! i = - 1"
    using assms(1) p(1) by (simp_all add: poll_ok_def)
  have "p ! i \<noteq> - 1" using i p(3) by simp
  then have pl: "mset (filter (\<lambda>fd. fd \<noteq> - 1) ?q) = mset (polled s) - {# fd #}"
    using polled_update(2) [of i p] i unfolding p(4) by simp
  have run: "svc_pollfd_del fd s = (True, s\<lparr>fdp := Some ?q, fdused :=
      (if int i \<noteq> int (fdused s) - 1 then fdused s else pollfd_trim (i + 1) ?q)\<rparr>)"
    using p(1) idx by (simp add: svc_pollfd_del_def svc_pollfd_alloc_def Let_def del: pollfd_trim.simps)
  show thesis
  proof (cases "int i = int (fdused s) - 1")
    case False
    let ?s = "s\<lparr>fdp := Some ?q\<rparr>"
    have "poll_ok ?s"
      using ok i by (auto simp: poll_ok_def nth_list_update)
    moreover have "mset (polled ?s) = mset (polled s) - {# fd #}"
      by (subst polled_Some [where p = ?q]) (simp, rule pl)
    ultimately show thesis
      using run False by (intro that [of ?s]) simp_all
  next
    case True
    let ?s = "s\<lparr>fdp := Some ?q, fdused := pollfd_trim (i + 1) ?q\<rparr>"
    have u: "fdused s = i + 1" using True by simp
    have len: "i + 1 \<le> length ?q" using i by simp
    note tr = pollfd_trim_spec [OF len]
    have "?q ! k = - 1" if "k < length ?q" "pollfd_trim (i + 1) ?q \<le> k" for k
    proof (cases "k < i + 1")
      case True
      with tr(2) that(2) show ?thesis by blast
    next
      case False
      with ok(3) u that(1) show ?thesis by simp
    qed
    then have "poll_ok ?s"
      using ok(1) tr(1) len by (simp add: poll_ok_def del: pollfd_trim.simps)
    moreover have "mset (polled ?s) = mset (polled s) - {# fd #}"
      by (subst polled_Some [where p = ?q]) (simp, rule pl)
    ultimately show thesis
      using run True by (intro that [of ?s]) (simp_all del: pollfd_trim.simps)
  qed
qed

lemma svc_fdset_sanitize_spec:
  assumes "fd_set s = Some l" and "\<forall>fd \<in> set l. 0 \<le> fd \<and> fd \<le> fdmax s"
  shows "svc_fdset_sanitize s = Some (s\<lparr>fdmax := (if fdmax s < 0 then fdmax s else fdmax_of (set l))\<rparr>)"
proof (cases "fdmax s < 0")
  case False
  then have "\<forall>fd \<in> set l. 0 \<le> fd \<and> fd < int (nat (fdmax s + 1))"
    using assms(2) by auto
  from sanitize_loop_max [OF this] False assms(1) show ?thesis
    by (simp add: svc_fdset_sanitize_def)
qed (simp add: svc_fdset_sanitize_def)

lemma fdmax_of_upper: "finite S \<Longrightarrow> fd \<in> S \<Longrightarrow> fd \<le> fdmax_of S"
  by (auto simp: fdmax_of_def)

lemma fdmax_of_lower:
  assumes "finite S" and "\<forall>x \<in> S. 0 \<le> x"
  shows "- 1 \<le> fdmax_of S"
proof (cases "S = {}")
  case False
  then have "0 \<le> Max S" using assms Max_in by blast
  with False show ?thesis by (simp add: fdmax_of_def)
qed (simp add: fdmax_of_def)

text \<open>Ready for the next operation: initialised, or with the two allocations it will ask for.\<close>

definition fdset_ready :: "svc_fdset \<Rightarrow> bool" where
  "fdset_ready s \<longleftrightarrow> fdset_ok s \<and> (fdp s = None \<longrightarrow> 0 < fd_heap s) \<and> - 1 \<le> fdmax s \<or>
     fd_set s = None \<and> fdp s = None \<and> fdused s = 0 \<and> 2 \<le> fd_heap s \<and> fdmax s = 0"

lemma svc_fdset_set_spec:
  assumes "fdset_ready s" and "0 \<le> fd" and "fd \<notin> fds_of s" and "card (fds_of s) < FD_SETSIZE"
  obtains s' where "svc_fdset_set fd s = Some (0, s')" and "fdset_ready s'" and "fds_of s' = insert fd (fds_of s)"
    and "fdmax s' = fdmax_of (fds_of s')" and "mset (polled s') = add_mset fd (mset (polled s))"
    and "fd_set s' \<noteq> None"
proof -
  obtain l where l: "fd_set (svc_fdset_alloc fd s) = Some l" "distinct l" "set l = fds_of s"
    "\<forall>fd \<in> set l. 0 \<le> fd \<and> fd \<le> fdmax s" "mset (polled s) = mset l" "poll_ok s" "- 1 \<le> fdmax s"
    using assms(1)
    by (auto simp: fdset_ready_def fdset_ok_def svc_fdset_alloc_def svc_fdset_resize_def fds_of_def polled_def poll_ok_def)
  have len: "length l < FD_SETSIZE"
    using assms(4) l(2,3) distinct_card by metis
  let ?s0 = "svc_fdset_alloc fd s"
  let ?s1 = "?s0\<lparr>fd_set := Some (l @ [fd]), fdmax := max fd (fdmax s)\<rparr>"
  have same: "polled ?s1 = polled s" "fdp ?s1 = fdp s" "fdused ?s1 = fdused s" "fdmax ?s0 = fdmax s"
    by (simp_all add: polled_def svc_fdset_alloc_def svc_fdset_resize_def)
  have ok: "poll_ok ?s1" using poll_ok_cong [OF same(2,3)] l(6) by simp
  have heap: "fdp ?s1 = None \<Longrightarrow> 0 < fd_heap ?s1"
    using assms(1) same(2) by (auto simp: fdset_ready_def fdset_ok_def svc_fdset_alloc_def svc_fdset_resize_def)
  have "length (polled s) = length l" using l(5) by (rule mset_eq_length)
  then have room: "length (polled ?s1) < FD_SETSIZE" using len same(1) by simp
  have "fd \<noteq> - 1" using assms(2) by simp
  then obtain s2 where s2: "svc_pollfd_add fd ?s1 = (True, s2)" "poll_ok s2" "fdp s2 \<noteq> None"
    "mset (polled s2) = add_mset fd (mset (polled s))" "fd_set s2 = Some (l @ [fd])" "fdmax s2 = max fd (fdmax s)"
    using svc_pollfd_add_spec [OF ok heap _ room] same(1) by force
  let ?s3 = "s2\<lparr>fdmax := fdmax_of (insert fd (set l))\<rparr>"
  have "\<forall>x \<in> set (l @ [fd]). 0 \<le> x \<and> x \<le> fdmax s2" using l(4) s2(6) assms(2) by auto
  from svc_fdset_sanitize_spec [OF s2(5) this] have san: "svc_fdset_sanitize s2 = Some ?s3"
    using s2(6) assms(2) by simp
  have run: "svc_fdset_set fd s = Some (0, ?s3)"
    using l(1) len assms(3) l(3) same(4) s2(1) san
    by (simp add: svc_fdset_set_def FD_SET_def Let_def)
  have fds: "fds_of ?s3 = insert fd (fds_of s)" using s2(5) l(3) by (simp add: fds_of_def)
  have pl: "polled ?s3 = polled s2" "poll_ok ?s3"
    using s2(2) poll_ok_cong [of ?s3 s2] by (simp_all add: polled_def)
  have mx: "\<forall>x \<in> set (l @ [fd]). 0 \<le> x \<and> x \<le> fdmax_of (insert fd (set l))"
    using l(4) assms(2) by (auto intro: fdmax_of_upper)
  then have "0 \<le> fdmax_of (insert fd (set l))" using assms(2) by force
  then have "fdset_ready ?s3"
    using s2 l assms(3) len pl mx by (auto simp: fdset_ready_def fdset_ok_def)
  then show thesis
    using run fds s2 pl l(3) by (intro that [of ?s3]) simp_all
qed

lemma svc_fdset_clr_below:
  assumes "fdset_ready s" and "fd \<in> fds_of s" and "\<forall>x \<in> fds_of s - {fd}. x \<le> m" and "- 1 \<le> m"
  obtains s' where "svc_fdset_clr fd (s\<lparr>fdmax := m\<rparr>) = Some (0, s')" and "fdset_ready s'" and "fds_of s' = fds_of s - {fd}"
    and "fdmax s' = fdmax_of (fds_of s')" and "mset (polled s') = mset (polled s) - {# fd #}"
    and "fd_set s' \<noteq> None"
proof -
  obtain l where l: "fd_set s = Some l" "distinct l" "set l = fds_of s" "length l \<le> FD_SETSIZE"
    "\<forall>fd \<in> set l. 0 \<le> fd \<and> fd \<le> fdmax s" "mset (polled s) = mset l" "poll_ok s"
    using assms(1,2) by (auto simp: fdset_ready_def fdset_ok_def fds_of_def)
  let ?s0 = "svc_fdset_alloc fd (s\<lparr>fdmax := m\<rparr>)"
  let ?s1 = "?s0\<lparr>fd_set := Some (remove1 fd l)\<rparr>"
  have same: "polled ?s1 = polled s" "fdmax ?s1 = m" "fd_set ?s0 = Some l"
    using l(1) by (simp_all add: polled_def svc_fdset_alloc_def svc_fdset_resize_def)
  have ok: "poll_ok ?s1" 
    using l(1,7) by (subst poll_ok_cong [of _ s]) (simp_all add: svc_fdset_alloc_def svc_fdset_resize_def)
  have "fd \<in> set l" using assms(2) l(3) by simp
  then have "fd \<in> set (polled ?s1)" using l(6) same(1) by (metis set_mset_mset)
  then obtain s2 where s2: "svc_pollfd_del fd ?s1 = (True, s2)" "poll_ok s2" "fdp s2 \<noteq> None"
    "mset (polled s2) = mset (polled s) - {# fd #}" "fd_set s2 = Some (remove1 fd l)" "fdmax s2 = m"
    using svc_pollfd_del_spec [OF ok] same by force
  have rem: "set (remove1 fd l) = set l - {fd}" using l(2) by simp
  have empty: "set l - {fd} = {}" if "m < 0"
    using assms(3) l(3,5) that by force
  let ?s3 = "s2\<lparr>fdmax := fdmax_of (set l - {fd})\<rparr>"
  have "\<forall>x \<in> set (remove1 fd l). 0 \<le> x \<and> x \<le> fdmax s2" using l(3,5) s2(6) rem assms(3) by auto
  from svc_fdset_sanitize_spec [OF s2(5) this] have san: "svc_fdset_sanitize s2 = Some ?s3"
    using s2(6) rem empty assms(4) by (cases "m < 0") (auto simp: fdmax_of_def)
  have run: "svc_fdset_clr fd (s\<lparr>fdmax := m\<rparr>) = Some (0, ?s3)"
    using same(3) s2(1) san by (simp add: svc_fdset_clr_def FD_CLR_def Let_def)
  have fds: "fds_of ?s3 = fds_of s - {fd}" using s2(5) l(3) rem by (simp add: fds_of_def)
  have pl: "polled ?s3 = polled s2" "poll_ok ?s3"
    using s2(2) poll_ok_cong [of ?s3 s2] by (simp_all add: polled_def)
  have mx: "\<forall>x \<in> set (remove1 fd l). 0 \<le> x \<and> x \<le> fdmax_of (set l - {fd})"
    using l(5) rem by (auto intro: fdmax_of_upper)
  have "- 1 \<le> fdmax_of (set l - {fd})"
    using mx rem by (intro fdmax_of_lower) auto
  moreover have "mset (polled s2) = mset (remove1 fd l)" using s2(4) l(6) by simp
  moreover have "length (remove1 fd l) \<le> FD_SETSIZE" using l(4) by (auto simp: length_remove1)
  ultimately have "fdset_ready ?s3"
    using s2 l(2) pl mx by (auto simp: fdset_ready_def fdset_ok_def)
  then show thesis
    using run fds s2 pl l(3) by (intro that [of ?s3]) simp_all
qed

lemma svc_fdset_clr_spec:
  assumes "fdset_ready s" and "fd \<in> fds_of s"
  obtains s' where "svc_fdset_clr fd s = Some (0, s')" and "fdset_ready s'" and "fds_of s' = fds_of s - {fd}"
    and "fdmax s' = fdmax_of (fds_of s')" and "mset (polled s') = mset (polled s) - {# fd #}"
    and "fd_set s' \<noteq> None"
proof -
  have "\<forall>x \<in> fds_of s - {fd}. x \<le> fdmax s" "- 1 \<le> fdmax s"
    using assms by (auto simp: fdset_ready_def fdset_ok_def fds_of_def)
  then obtain s' where "svc_fdset_clr fd (s\<lparr>fdmax := fdmax s\<rparr>) = Some (0, s')" "fdset_ready s'"
    "fds_of s' = fds_of s - {fd}" "fdmax s' = fdmax_of (fds_of s')"
    "mset (polled s') = mset (polled s) - {# fd #}" "fd_set s' \<noteq> None"
    by (rule svc_fdset_clr_below [OF assms])
  then show thesis by (intro that [of s']) simp_all
qed

text \<open>Asking for the size keeps the descriptors and makes the state ready for any later operation.\<close>

lemma svc_fdset_alloc_ready:
  assumes "fdset_ready s"
  shows "fdset_ready (svc_fdset_alloc fd s)" and "fds_of (svc_fdset_alloc fd s) = fds_of s"
    and "fdmax (svc_fdset_alloc fd s) = fdmax s" and "fd_set (svc_fdset_alloc fd s) \<noteq> None"
proof -
  show "fds_of (svc_fdset_alloc fd s) = fds_of s" "fdmax (svc_fdset_alloc fd s) = fdmax s"
    by (simp_all add: svc_fdset_alloc_def svc_fdset_resize_def fds_of_def)
  show "fd_set (svc_fdset_alloc fd s) \<noteq> None"
    using assms by (auto simp: fdset_ready_def fdset_ok_def svc_fdset_alloc_def svc_fdset_resize_def)
  show "fdset_ready (svc_fdset_alloc fd s)"
  proof (cases "fd_set s")
    case None
    then show ?thesis
      using assms
      by (auto simp: fdset_ready_def fdset_ok_def svc_fdset_alloc_def svc_fdset_resize_def polled_def poll_ok_def)
  next
    case (Some l)
    have "poll_ok (s\<lparr>fdsize := n\<rparr>) = poll_ok s" "polled (s\<lparr>fdsize := n\<rparr>) = polled s" for n
      using poll_ok_cong [of "s\<lparr>fdsize := n\<rparr>" s] by (simp_all add: polled_def)
    with Some assms show ?thesis
      by (auto simp: fdset_ready_def fdset_ok_def svc_fdset_alloc_def svc_fdset_resize_def)
  qed
qed

lemma svc_fdset_isset_spec:
  assumes "fdset_ready s"
  shows "\<exists>s'. svc_fdset_isset fd s = Some (if fd \<in> fds_of s then 1 else 0, s') \<and> fds_of s' = fds_of s"
  using assms
  by (auto simp: fdset_ready_def fdset_ok_def svc_fdset_isset_def svc_fdset_alloc_def svc_fdset_resize_def
      fds_of_def FD_ISSET_def Let_def)

section \<open>Sequences of operations\<close>

text \<open>
  What the server asks for: descriptors that are not there yet and fit, or that are there, are added
  and removed. The specification keeps a set.
\<close>

datatype fd_op = Add int | Del int

fun fd_spec :: "fd_op list \<Rightarrow> int set \<Rightarrow> int set option" where
  "fd_spec [] S = Some S"
| "fd_spec (Add fd # ops) S =
     (if 0 \<le> fd \<and> fd \<notin> S \<and> card S < FD_SETSIZE then fd_spec ops (insert fd S) else None)"
| "fd_spec (Del fd # ops) S = (if fd \<in> S then fd_spec ops (S - {fd}) else None)"

fun fd_run :: "fd_op list \<Rightarrow> svc_fdset \<Rightarrow> svc_fdset option" where
  "fd_run [] s = Some s"
| "fd_run (Add fd # ops) s =
     (case svc_fdset_set fd s of Some (r, s) \<Rightarrow> if r = 0 then fd_run ops s else None | None \<Rightarrow> None)"
| "fd_run (Del fd # ops) s =
     (case svc_fdset_clr fd s of Some (r, s) \<Rightarrow> if r = 0 then fd_run ops s else None | None \<Rightarrow> None)"

definition fd_refines :: "svc_fdset \<Rightarrow> int set \<Rightarrow> bool" where
  "fd_refines s S \<longleftrightarrow> fds_of s = S \<and> finite S \<and> mset (polled s) = mset_set S \<and> (fd_set s \<noteq> None \<longrightarrow> fdmax s = fdmax_of S)"

lemma fd_run_refines:
  assumes "fdset_ready s" and "fd_refines s S" and "fd_spec ops S = Some S'"
  shows "\<exists>s'. fd_run ops s = Some s' \<and> fdset_ready s' \<and> fd_refines s' S' \<and>
    (ops \<noteq> [] \<or> fd_set s \<noteq> None \<longrightarrow> fd_set s' \<noteq> None)"
  using assms
proof (induction ops S arbitrary: s rule: fd_spec.induct)
  case (2 fd ops S)
  then have fd: "0 \<le> fd" "fd \<notin> S" "card S < FD_SETSIZE" "fd_spec ops (insert fd S) = Some S'"
    by (auto split: if_splits)
  from 2(3) have S: "fds_of s = S" "finite S" "mset (polled s) = mset_set S" by (simp_all add: fd_refines_def)
  obtain s1 where s1: "svc_fdset_set fd s = Some (0, s1)" "fdset_ready s1" "fds_of s1 = insert fd S"
    "fdmax s1 = fdmax_of (fds_of s1)" "mset (polled s1) = add_mset fd (mset (polled s))"
    "fd_set s1 \<noteq> None"
    using svc_fdset_set_spec [OF 2(2) fd(1)] fd(2,3) S(1) by metis
  then have "fd_refines s1 (insert fd S)" using S fd(2) by (simp add: fd_refines_def)
  with 2(1) [OF _ s1(2)] fd s1(1,6) show ?case by auto
next
  case (3 fd ops S)
  then have fd: "fd \<in> S" "fd_spec ops (S - {fd}) = Some S'"
    by (auto split: if_splits)
  from 3(3) have S: "fds_of s = S" "finite S" "mset (polled s) = mset_set S" by (simp_all add: fd_refines_def)
  obtain s1 where s1: "svc_fdset_clr fd s = Some (0, s1)" "fdset_ready s1" "fds_of s1 = S - {fd}"
    "fdmax s1 = fdmax_of (fds_of s1)" "mset (polled s1) = mset (polled s) - {# fd #}"
    "fd_set s1 \<noteq> None"
    using svc_fdset_clr_spec [OF 3(2)] fd(1) S(1) by metis
  then have "fd_refines s1 (S - {fd})" using S fd(1) by (simp add: fd_refines_def mset_set_Diff)
  with 3(1) [OF _ s1(2)] fd s1(1,6) show ?case by auto
qed auto

lemma svc_fdset_initial_ready:
  "2 \<le> heap \<Longrightarrow> fdset_ready (svc_fdset_initial heap) \<and> fd_refines (svc_fdset_initial heap) {}"
  by (simp add: fdset_ready_def fd_refines_def svc_fdset_initial_def fds_of_def polled_def)

text \<open>
  C12: whatever descriptors the server adds and removes, at most 64 at a time, every operation
  succeeds with the two allocations of the first one, and the descriptors tested by \<open>select\<close>, those
  in the poll array (each once) and \<open>fdmax\<close> are those of the abstract set and its maximum.
\<close>

theorem svc_fdset_refines_set:
  assumes "fd_spec ops {} = Some S" and "2 \<le> heap"
  shows "\<exists>s. fd_run ops (svc_fdset_initial heap) = Some s \<and> fds_of s = S \<and> mset (polled s) = mset_set S \<and>
    (ops \<noteq> [] \<longrightarrow> fdmax s = fdmax_of S) \<and>
    (\<forall>fd. \<exists>s'. svc_fdset_isset fd s = Some (if fd \<in> S then 1 else 0, s'))"
proof -
  note init = svc_fdset_initial_ready [OF assms(2)]
  obtain s where s: "fd_run ops (svc_fdset_initial heap) = Some s" "fdset_ready s" "fd_refines s S"
    "ops \<noteq> [] \<longrightarrow> fd_set s \<noteq> None"
    using fd_run_refines [OF conjunct1 [OF init] conjunct2 [OF init] assms(1)] by blast
  have S: "fds_of s = S" "mset (polled s) = mset_set S" "ops \<noteq> [] \<longrightarrow> fdmax s = fdmax_of S"
    using s(3,4) by (simp_all add: fd_refines_def)
  have "\<exists>s'. svc_fdset_isset fd s = Some (if fd \<in> S then 1 else 0, s')" for fd
    using svc_fdset_isset_spec [OF s(2), of fd] unfolding S(1) by blast
  then show ?thesis
    using s(1) S by (intro exI [of _ s]) simp
qed

theorem svc_fdset_refines_set_witness:
  "\<exists>s. fd_run [Add 7, Add 3, Del 7] (svc_fdset_initial 2) = Some s \<and> fds_of s = {3} \<and> mset (polled s) = mset_set {3} \<and>
    ([Add 7, Add 3, Del 7] \<noteq> [] \<longrightarrow> fdmax s = fdmax_of {3}) \<and>
    (\<forall>fd. \<exists>s'. svc_fdset_isset fd s = Some (if fd \<in> {3} then 1 else 0, s'))"
  by (rule svc_fdset_refines_set) (auto intro: arg_cong [where f = Some])

text \<open>
  The first call of \<open>svc_fdset_alloc\<close> returns before it has grown the set to the descriptor: the size
  it reports is 64 whatever was asked for, where every later call reports at least the descriptor.
\<close>

lemma svc_fdset_first_size:
  "0 < heap \<Longrightarrow> fst (svc_fdset_getsize fd (svc_fdset_initial heap)) = 64"
  by (simp add: svc_fdset_getsize_def svc_fdset_alloc_def svc_fdset_resize_def svc_fdset_initial_def)

lemma grow_reaches: "fd \<le> int (grow fd n)"
proof (cases "fd \<le> int n")
  case False
  then have "n < nat fd" by simp
  moreover have "x \<le> 64 * ((x + 63) div 64)" for x :: nat
    using div_mult_mod_eq [of "x + 63" 64] mod_less_divisor [of 64 "x + 63"] by linarith
  from this [of "nat fd - n"] have "nat fd - n \<le> 64 * ((nat fd - n + 63) div 64)" .
  ultimately have "nat fd \<le> n + 64 * ((nat fd - n + 63) div 64)" by linarith
  then have "nat fd \<le> grow fd n" using False by (simp add: grow_def)
  then show ?thesis by linarith
qed (simp add: grow_def)

lemma svc_fdset_later_size:
  "fd_set s \<noteq> None \<Longrightarrow> fd \<le> int (fst (svc_fdset_getsize fd s))"
  using grow_reaches [of fd "fdsize s"]
  by (auto simp: svc_fdset_getsize_def svc_fdset_alloc_def svc_fdset_resize_def)

text \<open>
  The poll array has 64 entries for the first 64 descriptors, and the size the set reports follows the
  largest descriptor: once a descriptor above 64 is in, \<open>svc_pollfd_copy\<close> of the server's own array
  reads past its end.
\<close>

lemma svc_pollfd_copy_overreads:
  "case fd_run [Add 3, Add 65] (svc_fdset_initial 3) of
     None \<Rightarrow> False
   | Some s \<Rightarrow> (case svc_pollfd_get s of (p, s) \<Rightarrow> svc_pollfd_copy p s = None)"
  by code_simp

end
