(* ===== verification/Svc.thy ===== *)
theory Svc
  imports Svc_Fdset
begin

text \<open>
  \<open>libsrc/svc.c\<close>: the server. Its state is the list of services (\<open>svc_head\<close>), the table of
  transports by descriptor (\<open>__svc_xports\<close>), the descriptors waited for and the transports
  themselves. A transport handle is an address in \<open>svc_mem\<close>; what a kind of transport does is the
  record \<open>xp_ops\<close>. A dispatch routine is a number; what routine \<open>d\<close> does to the server's state is a
  parameter. A read or write outside the table, and an access to a handle that has been freed, is
  \<open>Fault\<close>.

  The main facts: registering and unregistering keep the table, the descriptors waited for and the
  handles consistent; a request is dispatched to the first service with its program and version, and
  otherwise answered with the lowest and highest version of the program, or with its absence.
\<close>

section \<open>State\<close>

record callout =
  sc_prog :: u32
  sc_vers :: u32
  sc_netid :: "byte list option"
  sc_dispatch :: nat

record 't svcxprt =
  xp_fd :: int
  xp_port :: u32
  xp_tp :: "byte list option"
  xp_netid :: "byte list option"
  xp_ltaddr :: "byte list option"
  xp_rtaddr :: "byte list option"
  xp_verf :: opaque_auth
  xp_p1 :: 't

record svc_req =
  rq_prog :: u32
  rq_vers :: u32
  rq_proc :: u32
  rq_cred :: opaque_auth
  rq_clntcred :: authunix_parms
  rq_xprt :: nat

text \<open>
  The table has a slot for the descriptor \<open>-1\<close> in front; \<open>None\<close> is a table not yet allocated.
  \<open>svc_fd_locked\<close> is whether \<open>svc_fd_lock\<close> is held for writing, \<open>svc_heap\<close> how many allocations
  still succeed, \<open>svc_closed\<close> the descriptors \<open>close\<close> has been called on.
\<close>

record 't svc =
  svc_head :: "callout list"
  svc_xports :: "nat option list option"
  svc_maxxports :: int
  svc_maxrec :: int
  svc_fds :: svc_fdset
  svc_fd_locked :: bool
  svc_mem :: "nat \<Rightarrow> 't svcxprt option"
  svc_auths :: "authsvc list"
  svc_heap :: nat
  svc_closed :: "int list"

datatype 'a run = Ret 'a | Fault | Out_of_fuel

fun run_bind :: "'a run \<Rightarrow> ('a \<Rightarrow> 'b run) \<Rightarrow> 'b run" where
  "run_bind (Ret a) k = k a"
| "run_bind Fault k = Fault"
| "run_bind Out_of_fuel k = Out_of_fuel"

definition of_option :: "'a option \<Rightarrow> 'a run" where
  "of_option r = (case r of None \<Rightarrow> Fault | Some a \<Rightarrow> Ret a)"

lemma of_option_simps [simp]: "of_option None = Fault" "of_option (Some a) = Ret a"
  by (simp_all add: of_option_def)

text \<open>Receiving may register further transports and destroying frees one, so both act on the server.\<close>

record ('t, 's, 'r) xp_ops =
  xp_recv :: "nat \<Rightarrow> ('s, 'r) rpc_msg \<Rightarrow> 't svc \<Rightarrow> (bool \<times> ('s, 'r) rpc_msg \<times> 't svc) run"
  xp_stat :: "'t \<Rightarrow> xprt_stat \<times> 't"
  xp_reply :: "'t svcxprt \<Rightarrow> ('s, 'r) rpc_msg \<Rightarrow> (bool \<times> 't) run"
  xp_destroy :: "nat \<Rightarrow> 't svc \<Rightarrow> 't svc run"

section \<open>The transport table\<close>

definition tab_get :: "int \<Rightarrow> 't svc \<Rightarrow> nat option run" where
  "tab_get fd s =
     (case svc_xports s of None \<Rightarrow> Fault
      | Some tab \<Rightarrow> if - 1 \<le> fd \<and> fd + 1 < int (length tab) then Ret (tab ! nat (fd + 1)) else Fault)"

definition tab_put :: "int \<Rightarrow> nat option \<Rightarrow> 't svc \<Rightarrow> 't svc run" where
  "tab_put fd p s =
     (case svc_xports s of None \<Rightarrow> Fault
      | Some tab \<Rightarrow> if - 1 \<le> fd \<and> fd + 1 < int (length tab)
                    then Ret (s\<lparr>svc_xports := Some (tab[nat (fd + 1) := p])\<rparr>) else Fault)"

definition xprt_alloc :: "int \<Rightarrow> 't svc \<Rightarrow> bool \<times> 't svc" where
  "xprt_alloc sock s =
     (if sock + 1 < 0 then (False, s)
      else case svc_fdset_getsize (sock + 1) (svc_fds s) of (newmax, fds) \<Rightarrow>
        let s = s\<lparr>svc_fds := fds\<rparr> in
        if svc_xports s \<noteq> None \<and> int newmax < svc_maxxports s then (True, s)
        else if svc_heap s = 0 then (False, s)
        else let old = (case svc_xports s of None \<Rightarrow> [] | Some tab \<Rightarrow> tab) in
          (True, s\<lparr>svc_xports := Some (old @ replicate (Suc newmax - length old) None),
                   svc_maxxports := int newmax, svc_heap := svc_heap s - 1\<rparr>))"

definition xprt_register :: "nat \<Rightarrow> 't svc \<Rightarrow> (bool \<times> 't svc) run" where
  "xprt_register xprt s =
     (case svc_mem s xprt of None \<Rightarrow> Fault
      | Some x \<Rightarrow>
          let s = s\<lparr>svc_fd_locked := True\<rparr>; sock = xp_fd x in
          case xprt_alloc sock s of (ok, s) \<Rightarrow>
          if \<not> ok then Ret (False, s\<lparr>svc_fd_locked := False\<rparr>)
          else run_bind (tab_put sock (Some xprt) s) (\<lambda>s.
            if sock \<noteq> - 1
            then run_bind (of_option (svc_fdset_set sock (svc_fds s))) (\<lambda>(r, fds).
              let s = s\<lparr>svc_fds := fds\<rparr> in
              if r = - 1 then Ret (False, s) else Ret (True, s\<lparr>svc_fd_locked := False\<rparr>))
            else Ret (True, s\<lparr>svc_fd_locked := False\<rparr>)))"

text \<open>\<open>*fdmax\<close> is lowered to the next descriptor with a transport.\<close>

fun lower_max :: "nat \<Rightarrow> nat option list \<Rightarrow> int" where
  "lower_max 0 tab = - 1"
| "lower_max (Suc n) tab = (if tab ! (n + 1) \<noteq> None then int n else lower_max n tab)"

definition xprt_do_unregister :: "nat \<Rightarrow> bool \<Rightarrow> 't svc \<Rightarrow> 't svc run" where
  "xprt_do_unregister xprt dolock s =
     (case svc_mem s xprt of None \<Rightarrow> Fault
      | Some x \<Rightarrow>
          let s = (if dolock then s\<lparr>svc_fd_locked := True\<rparr> else s); sock = xp_fd x;
              unlock = (\<lambda>s. if dolock then s\<lparr>svc_fd_locked := False\<rparr> else s) in
          if sock \<ge> svc_maxxports s then Ret (unlock s)
          else run_bind (tab_get sock s) (\<lambda>p.
            if p \<noteq> Some xprt then Ret (unlock s)
            else run_bind (tab_put sock None s) (\<lambda>s.
              if sock = - 1 then Ret (unlock s)
              else run_bind (of_option (svc_fdset_getmax (svc_fds s))) (\<lambda>fds.
                let fds = (if sock < fdmax fds then fds
                           else fds\<lparr>fdmax := (if fdmax fds < 0 then fdmax fds - 1 else
                             lower_max (nat (fdmax fds)) (the (svc_xports s)))\<rparr>) in
                run_bind (of_option (svc_fdset_clr sock fds)) (\<lambda>(_, fds).
                  Ret (unlock (s\<lparr>svc_fds := fds\<rparr>)))))))"

definition xprt_unregister :: "nat \<Rightarrow> 't svc \<Rightarrow> 't svc run" where
  "xprt_unregister xprt s = xprt_do_unregister xprt True s"

definition xprt_unregister_unlocked :: "nat \<Rightarrow> 't svc \<Rightarrow> 't svc run" where
  "xprt_unregister_unlocked xprt s = xprt_do_unregister xprt False s"

section \<open>Services\<close>

definition sc_matches :: "u32 \<Rightarrow> u32 \<Rightarrow> byte list option \<Rightarrow> callout \<Rightarrow> bool" where
  "sc_matches prog vers netid s \<longleftrightarrow> sc_prog s = prog \<and> sc_vers s = vers \<and>
     (netid = None \<or> sc_netid s = None \<or> cstr (the netid) = cstr (the (sc_netid s)))"

text \<open>The position of the service; the element before it is the \<open>prev\<close> of the C code.\<close>

fun svc_find :: "u32 \<Rightarrow> u32 \<Rightarrow> byte list option \<Rightarrow> callout list \<Rightarrow> nat option" where
  "svc_find prog vers netid [] = None"
| "svc_find prog vers netid (s # ss) =
     (if sc_matches prog vers netid s then Some 0 else map_option Suc (svc_find prog vers netid ss))"

text \<open>Taking an element out of the list through \<open>prev\<close>, or through \<open>svc_head\<close> when there is none.\<close>

definition unlink :: "nat \<Rightarrow> 'a list \<Rightarrow> 'a list" where
  "unlink i xs = take i xs @ drop (Suc i) xs"

text \<open>
  \<open>nconf\<close> is the \<open>nc_netid\<close> of the argument (\<open>None\<close> for a null pointer, \<open>Some None\<close> when it has no
  name), \<open>gettp fd\<close> the network id \<open>__rpcgettp\<close> finds for a descriptor, and \<open>rpcb_set\<close> the answer of
  the binder. A duplicated name costs an allocation.
\<close>

definition svc_reg_netid :: "byte list option \<Rightarrow> byte list option option \<Rightarrow> byte list option \<Rightarrow> byte list option" where
  "svc_reg_netid xnetid nconf tp =
     (case xnetid of Some n \<Rightarrow> Some n
      | None \<Rightarrow> (case nconf of Some (Some n) \<Rightarrow> Some n | _ \<Rightarrow> tp))"

definition svc_reg ::
  "(int \<Rightarrow> byte list option) \<Rightarrow> bool \<Rightarrow> nat \<Rightarrow> u32 \<Rightarrow> u32 \<Rightarrow> nat \<Rightarrow> byte list option option \<Rightarrow> 't svc \<Rightarrow>
     (bool \<times> 't svc) run" where
  "svc_reg gettp rpcb_set xprt prog vers dispatch nconf s =
     (case svc_mem s xprt of None \<Rightarrow> Fault
      | Some x \<Rightarrow>
          let src = svc_reg_netid (xp_netid x) nconf (gettp (xp_fd x));
              flag = (src \<noteq> None);
              rpcb_it = (\<lambda>s. if nconf \<noteq> None then (rpcb_set, s) else (True, s)) in
          if flag \<and> svc_heap s = 0 then Ret (False, s)
          else let netid = src; s = (if flag then s\<lparr>svc_heap := svc_heap s - 1\<rparr> else s);
                   free = (\<lambda>s. if netid \<noteq> None then s\<lparr>svc_heap := svc_heap s + 1\<rparr> else s) in
          case svc_find prog vers netid (svc_head s) of
            Some i \<Rightarrow>
              (let s = free s in
               if sc_dispatch (svc_head s ! i) = dispatch then Ret (rpcb_it s) else Ret (False, s))
          | None \<Rightarrow>
              if svc_heap s = 0 then Ret (False, free s)
              else let s = s\<lparr>svc_heap := svc_heap s - 1\<rparr> in
              if xp_netid x = None \<and> flag \<and> svc_heap s = 0
              then Ret (False, s\<lparr>svc_heap := svc_heap s + 1\<rparr>)
              else let s = (if xp_netid x = None \<and> flag
                            then s\<lparr>svc_heap := svc_heap s - 1, svc_mem := (svc_mem s)(xprt \<mapsto> x\<lparr>xp_netid := netid\<rparr>)\<rparr>
                            else s)
              in Ret (rpcb_it (s\<lparr>svc_head := \<lparr>sc_prog = prog, sc_vers = vers, sc_netid = netid,
                                   sc_dispatch = dispatch\<rparr> # svc_head s\<rparr>)))"

lemma svc_find_less: "svc_find prog vers netid ss = Some i \<Longrightarrow> i < length ss"
  by (induction ss arbitrary: i) (auto split: if_splits)

function unreg_loop :: "u32 \<Rightarrow> u32 \<Rightarrow> callout list \<Rightarrow> callout list" where
  "unreg_loop prog vers ss =
     (case svc_find prog vers None ss of
        Some i \<Rightarrow> unreg_loop prog vers (unlink i ss)
      | None \<Rightarrow> ss)"
  by auto
termination
  by (relation "measure (\<lambda>(_, _, ss). length ss)") (auto simp: unlink_def dest: svc_find_less)

definition svc_unreg :: "u32 \<Rightarrow> u32 \<Rightarrow> 't svc \<Rightarrow> 't svc" where
  "svc_unreg prog vers s =
     (let gone = filter (sc_matches prog vers None) (svc_head s) in
      s\<lparr>svc_head := unreg_loop prog vers (svc_head s),
        svc_heap := svc_heap s + sum_list (map (\<lambda>c. 1 + (if sc_netid c = None then 0 else 1)) gone)\<rparr>)"

definition svc_register :: "bool \<Rightarrow> u32 \<Rightarrow> u32 \<Rightarrow> nat \<Rightarrow> int \<Rightarrow> 't svc \<Rightarrow> bool \<times> 't svc" where
  "svc_register pmap_set prog vers dispatch protocol s =
     (let pmap_it = (\<lambda>s. if protocol \<noteq> 0 then (pmap_set, s) else (True, s)) in
      case svc_find prog vers None (svc_head s) of
        Some i \<Rightarrow> if sc_dispatch (svc_head s ! i) = dispatch then pmap_it s else (False, s)
      | None \<Rightarrow>
          if svc_heap s = 0 then (False, s)
          else pmap_it (s\<lparr>svc_heap := svc_heap s - 1, svc_head := \<lparr>sc_prog = prog, sc_vers = vers,
            sc_netid = None, sc_dispatch = dispatch\<rparr> # svc_head s\<rparr>))"

definition svc_unregister :: "u32 \<Rightarrow> u32 \<Rightarrow> 't svc \<Rightarrow> 't svc" where
  "svc_unregister prog vers s =
     (case svc_find prog vers None (svc_head s) of
        None \<Rightarrow> s
      | Some i \<Rightarrow> s\<lparr>svc_head := unlink i (svc_head s), svc_heap := svc_heap s + 1\<rparr>)"

section \<open>Replies\<close>

text \<open>\<open>junk\<close> is what the reply on the stack holds before its fields are assigned.\<close>

definition accepted_msg :: "('s, 'r) rpc_msg \<Rightarrow> opaque_auth \<Rightarrow> u32 \<Rightarrow> ('s, 'r) rpc_msg" where
  "accepted_msg junk verf stat =
     junk\<lparr>rm_direction := REPLY, rm_reply := (rm_reply junk)\<lparr>rp_stat := MSG_ACCEPTED,
       rp_acpt := (rp_acpt (rm_reply junk))\<lparr>ar_verf := verf, ar_stat := stat\<rparr>\<rparr>\<rparr>"

definition mismatch_msg :: "('s, 'r) rpc_msg \<Rightarrow> opaque_auth \<Rightarrow> u32 \<Rightarrow> u32 \<Rightarrow> ('s, 'r) rpc_msg" where
  "mismatch_msg junk verf low high =
     (let m = accepted_msg junk verf PROG_MISMATCH in
      m\<lparr>rm_reply := (rm_reply m)\<lparr>rp_acpt := (rp_acpt (rm_reply m))\<lparr>ar_vers_low := low, ar_vers_high := high\<rparr>\<rparr>\<rparr>)"

definition results_msg :: "('s, 'r) rpc_msg \<Rightarrow> opaque_auth \<Rightarrow> ('s, 'r) xdrproc \<Rightarrow> 'r \<Rightarrow> ('s, 'r) rpc_msg" where
  "results_msg junk verf proc loc =
     (let m = accepted_msg junk verf SUCCESS in
      m\<lparr>rm_reply := (rm_reply m)\<lparr>rp_acpt := (rp_acpt (rm_reply m))\<lparr>ar_results_where := loc, ar_results_proc := proc\<rparr>\<rparr>\<rparr>)"

definition denied_msg :: "('s, 'r) rpc_msg \<Rightarrow> u32 \<Rightarrow> ('s, 'r) rpc_msg" where
  "denied_msg junk why =
     junk\<lparr>rm_direction := REPLY, rm_reply := (rm_reply junk)\<lparr>rp_stat := MSG_DENIED,
       rp_rjct := (rp_rjct (rm_reply junk))\<lparr>rj_stat := AUTH_ERROR, rj_why := why\<rparr>\<rparr>\<rparr>"

definition xprt_reply ::
  "('t, 's, 'r) xp_ops \<Rightarrow> ('s, 'r) rpc_msg \<Rightarrow> 't svcxprt \<Rightarrow> (bool \<times> 't svcxprt) run" where
  "xprt_reply xo m x = run_bind (xp_reply xo x m) (\<lambda>(ok, t). Ret (ok, x\<lparr>xp_p1 := t\<rparr>))"

definition xprt_error ::
  "('t, 's, 'r) xp_ops \<Rightarrow> ('s, 'r) rpc_msg \<Rightarrow> 't svcxprt \<Rightarrow> 't svcxprt run" where
  "xprt_error xo m x = run_bind (xprt_reply xo m x) (\<lambda>(_, x). Ret x)"

definition svc_sendreply ::
  "('t, 's, 'r) xp_ops \<Rightarrow> ('s, 'r) rpc_msg \<Rightarrow> ('s, 'r) xdrproc \<Rightarrow> 'r \<Rightarrow> 't svcxprt \<Rightarrow> (bool \<times> 't svcxprt) run" where
  "svc_sendreply xo junk proc loc x = xprt_reply xo (results_msg junk (xp_verf x) proc loc) x"

definition svcerr_noproc :: "('t, 's, 'r) xp_ops \<Rightarrow> ('s, 'r) rpc_msg \<Rightarrow> 't svcxprt \<Rightarrow> 't svcxprt run" where
  "svcerr_noproc xo junk x = xprt_error xo (accepted_msg junk (xp_verf x) PROC_UNAVAIL) x"

definition svcerr_decode :: "('t, 's, 'r) xp_ops \<Rightarrow> ('s, 'r) rpc_msg \<Rightarrow> 't svcxprt \<Rightarrow> 't svcxprt run" where
  "svcerr_decode xo junk x = xprt_error xo (accepted_msg junk (xp_verf x) GARBAGE_ARGS) x"

definition svcerr_systemerr :: "('t, 's, 'r) xp_ops \<Rightarrow> ('s, 'r) rpc_msg \<Rightarrow> 't svcxprt \<Rightarrow> 't svcxprt run" where
  "svcerr_systemerr xo junk x = xprt_error xo (accepted_msg junk (xp_verf x) SYSTEM_ERR) x"

definition svcerr_auth :: "('t, 's, 'r) xp_ops \<Rightarrow> ('s, 'r) rpc_msg \<Rightarrow> u32 \<Rightarrow> 't svcxprt \<Rightarrow> 't svcxprt run" where
  "svcerr_auth xo junk why x = xprt_error xo (denied_msg junk why) x"

definition svcerr_weakauth :: "('t, 's, 'r) xp_ops \<Rightarrow> ('s, 'r) rpc_msg \<Rightarrow> 't svcxprt \<Rightarrow> 't svcxprt run" where
  "svcerr_weakauth xo junk x = svcerr_auth xo junk AUTH_TOOWEAK x"

definition svcerr_noprog :: "('t, 's, 'r) xp_ops \<Rightarrow> ('s, 'r) rpc_msg \<Rightarrow> 't svcxprt \<Rightarrow> 't svcxprt run" where
  "svcerr_noprog xo junk x = xprt_error xo (accepted_msg junk (xp_verf x) PROG_UNAVAIL) x"

definition svcerr_progvers :: "('t, 's, 'r) xp_ops \<Rightarrow> ('s, 'r) rpc_msg \<Rightarrow> u32 \<Rightarrow> u32 \<Rightarrow> 't svcxprt \<Rightarrow> 't svcxprt run" where
  "svcerr_progvers xo junk low high x = xprt_error xo (mismatch_msg junk (xp_verf x) low high) x"

section \<open>Requests\<close>

text \<open>The walk over the services: the routine of the version asked for, or what was seen instead.\<close>

datatype found = Found nat | Not_found bool u32 u32

fun svc_search :: "u32 \<Rightarrow> u32 \<Rightarrow> callout list \<Rightarrow> bool \<Rightarrow> u32 \<Rightarrow> u32 \<Rightarrow> found" where
  "svc_search prog vers [] pf low high = Not_found pf low high"
| "svc_search prog vers (s # ss) pf low high =
     (if sc_prog s = prog
      then if sc_vers s = vers then Found (sc_dispatch s)
           else svc_search prog vers ss True (if sc_vers s < low then sc_vers s else low)
                  (if sc_vers s > high then sc_vers s else high)
      else svc_search prog vers ss pf low high)"

text \<open>
  What the server is run with: the kind of transport, the dispatch routines, the registered
  authenticators' answers, the address and the area of the credentials on the stack, and the junk a
  reply starts from.
\<close>

record ('t, 's, 'r) server =
  sv_ops :: "('t, 's, 'r) xp_ops"
  sv_dispatch :: "nat \<Rightarrow> svc_req \<Rightarrow> 't svc \<Rightarrow> 't svc"
  sv_auth :: "nat \<Rightarrow> opaque_auth \<Rightarrow> u32"
  sv_addr :: u64
  sv_area :: authunix_parms
  sv_junk :: "('s, 'r) rpc_msg"

definition upd_xprt :: "nat \<Rightarrow> ('t svcxprt \<Rightarrow> 't svcxprt run) \<Rightarrow> 't svc \<Rightarrow> 't svc run" where
  "upd_xprt xprt f s =
     (case svc_mem s xprt of None \<Rightarrow> Fault | Some x \<Rightarrow> run_bind (f x) (\<lambda>x. Ret (s\<lparr>svc_mem := (svc_mem s)(xprt \<mapsto> x)\<rparr>)))"

text \<open>
  What happens to a request that has been received: \<open>True\<close> when the code goes to \<open>call_done\<close>, past
  the test whether the transport is still registered.
\<close>

definition svc_request ::
  "('t, 's, 'r) server \<Rightarrow> nat \<Rightarrow> ('s, 'r) rpc_msg \<Rightarrow> 't svc \<Rightarrow> (bool \<times> 't svc) run" where
  "svc_request sv xprt msg s =
     (case svc_mem s xprt of None \<Rightarrow> Fault
      | Some x \<Rightarrow>
          let cb = rm_call msg; xo = sv_ops sv; junk = sv_junk sv in
          case authenticate (sv_auth sv) (svc_auths s) (sv_addr sv) (svc_heap s) (cb_cred cb) (sv_area sv) (xp_verf x) of
            (why, clntcred, verf, heap) \<Rightarrow>
          let r = \<lparr>rq_prog = cb_prog cb, rq_vers = cb_vers cb, rq_proc = cb_proc cb, rq_cred = cb_cred cb,
                   rq_clntcred = clntcred, rq_xprt = xprt\<rparr>;
              s = s\<lparr>svc_heap := heap, svc_mem := (svc_mem s)(xprt \<mapsto> x\<lparr>xp_verf := verf\<rparr>)\<rparr>
          in if why \<noteq> AUTH_OK
             then run_bind (upd_xprt xprt (svcerr_auth xo junk why) s) (\<lambda>s. Ret (True, s))
             else case svc_search (rq_prog r) (rq_vers r) (svc_head s) False (- 1) 0 of
               Found d \<Rightarrow> Ret (True, sv_dispatch sv d r s)
             | Not_found pf low high \<Rightarrow>
                 run_bind (upd_xprt xprt (if pf then svcerr_progvers xo junk low high else svcerr_noprog xo junk) s)
                   (\<lambda>s. Ret (False, s)))"

text \<open>
  One round of the loop; the state is returned with the message (whose buffers the next round
  reuses) and whether there is another round.
\<close>

definition svc_getreq_round ::
  "('t, 's, 'r) server \<Rightarrow> int \<Rightarrow> nat \<Rightarrow> ('s, 'r) rpc_msg \<Rightarrow> 't svc \<Rightarrow> (bool \<times> ('s, 'r) rpc_msg \<times> 't svc) run" where
  "svc_getreq_round sv fd xprt msg s =
     run_bind (xp_recv (sv_ops sv) xprt msg s) (\<lambda>(ok, msg, s).
       let call_done = (\<lambda>s. case svc_mem s xprt of None \<Rightarrow> Fault
             | Some x \<Rightarrow>
                 case xp_stat (sv_ops sv) (xp_p1 x) of (stat, t) \<Rightarrow>
                 let s = s\<lparr>svc_mem := (svc_mem s)(xprt \<mapsto> x\<lparr>xp_p1 := t\<rparr>)\<rparr> in
                 if stat = XPRT_DIED then run_bind (xp_destroy (sv_ops sv) xprt s) (\<lambda>s. Ret (False, msg, s))
                 else Ret (stat = XPRT_MOREREQS, msg, s))
       in run_bind (if ok then svc_request sv xprt msg s else Ret (False, s)) (\<lambda>(done, s).
            if done then call_done s
            else run_bind (tab_get fd s) (\<lambda>p.
              if p \<noteq> Some xprt then Ret (False, msg, s) else call_done s)))"

fun svc_getreq_loop ::
  "nat \<Rightarrow> ('t, 's, 'r) server \<Rightarrow> int \<Rightarrow> nat \<Rightarrow> ('s, 'r) rpc_msg \<Rightarrow> 't svc \<Rightarrow> 't svc run" where
  "svc_getreq_loop 0 sv fd xprt msg s = Out_of_fuel"
| "svc_getreq_loop (Suc fuel) sv fd xprt msg s =
     run_bind (svc_getreq_round sv fd xprt msg s) (\<lambda>(more, msg, s).
       if more then svc_getreq_loop fuel sv fd xprt msg s else Ret s)"

definition svc_getreq_common ::
  "nat \<Rightarrow> ('t, 's, 'r) server \<Rightarrow> int \<Rightarrow> ('s, 'r) rpc_msg \<Rightarrow> 't svc \<Rightarrow> 't svc run" where
  "svc_getreq_common fuel sv fd msg s =
     run_bind (tab_get fd s) (\<lambda>p. case p of None \<Rightarrow> Ret s | Some xprt \<Rightarrow> svc_getreq_loop fuel sv fd xprt msg s)"

fun svc_getreqset2 ::
  "nat \<Rightarrow> ('t, 's, 'r) server \<Rightarrow> int list \<Rightarrow> ('s, 'r) rpc_msg \<Rightarrow> 't svc \<Rightarrow> 't svc run" where
  "svc_getreqset2 fuel sv [] msg s = Ret s"
| "svc_getreqset2 fuel sv (fd # fds) msg s =
     run_bind (svc_getreq_common fuel sv fd msg s) (svc_getreqset2 fuel sv fds msg)"

definition svc_getreqset ::
  "nat \<Rightarrow> ('t, 's, 'r) server \<Rightarrow> int list \<Rightarrow> ('s, 'r) rpc_msg \<Rightarrow> 't svc \<Rightarrow> 't svc run" where
  "svc_getreqset fuel sv readfds msg s = svc_getreqset2 fuel sv readfds msg s"

text \<open>\<open>pfdp\<close> are the descriptors with their \<open>revents\<close>; running off the array is a fault.\<close>

abbreviation (input) POLLNVAL :: u32 where "POLLNVAL \<equiv> 4"

fun svc_getreq_poll ::
  "nat \<Rightarrow> ('t, 's, 'r) server \<Rightarrow> (int \<times> u32) list \<Rightarrow> int \<Rightarrow> ('s, 'r) rpc_msg \<Rightarrow> 't svc \<Rightarrow> 't svc run" where
  "svc_getreq_poll fuel sv [] pollretval msg s = (if 0 < pollretval then Fault else Ret s)"
| "svc_getreq_poll fuel sv ((fd, revents) # ps) pollretval msg s =
     (if \<not> 0 < pollretval then Ret s
      else if revents = 0 then svc_getreq_poll fuel sv ps pollretval msg s
      else run_bind
        (if revents AND POLLNVAL \<noteq> 0
         then run_bind (of_option (svc_fdset_clr fd (svc_fds s))) (\<lambda>(_, fds). Ret (s\<lparr>svc_fds := fds\<rparr>))
         else svc_getreq_common fuel sv fd msg s)
        (svc_getreq_poll fuel sv ps (pollretval - 1) msg))"

text \<open>\<open>RPC_SVC_CONNMAXREC_SET\<close> is 0, \<open>RPC_SVC_CONNMAXREC_GET\<close> is 1; the result holds \<open>*arg\<close> afterwards.\<close>

definition rpc_control :: "int \<Rightarrow> int \<Rightarrow> 't svc \<Rightarrow> bool \<times> int \<times> 't svc" where
  "rpc_control what arg s =
     (if what = 0 then (if arg \<le> 0 then (False, arg, s) else (True, arg, s\<lparr>svc_maxrec := arg\<rparr>))
      else if what = 1 then (True, svc_maxrec s, s)
      else (False, arg, s))"

section \<open>Which service a request finds\<close>

definition versions :: "u32 \<Rightarrow> callout list \<Rightarrow> u32 list" where
  "versions prog ss = map sc_vers (filter (\<lambda>c. sc_prog c = prog) ss)"

lemma svc_search_fold:
  "svc_search prog vers ss pf low high =
     (case List.find (\<lambda>c. sc_prog c = prog \<and> sc_vers c = vers) ss of
        Some c \<Rightarrow> Found (sc_dispatch c)
      | None \<Rightarrow> Not_found (pf \<or> versions prog ss \<noteq> []) (fold min (versions prog ss) low)
                  (fold max (versions prog ss) high))"
proof (induction ss arbitrary: pf low high)
  case (Cons c ss)
  have "(if v < low then v else low) = min v low" "(if high < v then v else high) = max v high" for v :: u32
    by (auto simp: min_def max_def)
  with Cons.IH show ?case by (auto simp: versions_def split: option.split)
qed (simp add: versions_def)

lemma fold_min_max_word:
  fixes vs :: "u32 list"
  assumes "vs \<noteq> []"
  shows "fold min vs (- 1) = Min (set vs)" and "fold max vs 0 = Max (set vs)"
proof -
  have "fold min vs (- 1) = Min (set (- 1 # vs))" by (simp only: Min.set_eq_fold)
  also have "\<dots> = Min (set vs)"
    using assms by (simp add: min_absorb2)
  finally show "fold min vs (- 1) = Min (set vs)" .
  have "fold max vs 0 = Max (set (0 # vs))" by (simp only: Max.set_eq_fold)
  also have "\<dots> = Max (set vs)"
    using assms by (simp add: max_absorb2)
  finally show "fold max vs 0 = Max (set vs)" .
qed

text \<open>
  C13: the walk over the services finds the first one with the program and version asked for;
  otherwise it reports whether the program is there at all, and if so its lowest and its highest
  version.
\<close>

theorem svc_search_answers:
  "svc_search prog vers ss False (- 1) 0 =
     (case List.find (\<lambda>c. sc_prog c = prog \<and> sc_vers c = vers) ss of
        Some c \<Rightarrow> Found (sc_dispatch c)
      | None \<Rightarrow>
          if versions prog ss = [] then Not_found False (- 1) 0
          else Not_found True (Min (set (versions prog ss))) (Max (set (versions prog ss))))"
  by (simp add: svc_search_fold fold_min_max_word split: option.split)

section \<open>The list of services\<close>

lemma svc_find_Some:
  "svc_find prog vers netid ss = Some i \<Longrightarrow>
     i < length ss \<and> sc_matches prog vers netid (ss ! i) \<and> (\<forall>c \<in> set (take i ss). \<not> sc_matches prog vers netid c)"
  by (induction ss arbitrary: i) (auto split: if_splits)

lemma svc_find_None: "svc_find prog vers netid ss = None \<longleftrightarrow> (\<forall>c \<in> set ss. \<not> sc_matches prog vers netid c)"
  by (induction ss) auto

lemma filter_unlink:
  assumes "i < length ss" and "\<not> P (ss ! i)"
  shows "filter P (unlink i ss) = filter P ss"
proof -
  have "filter P ss = filter P (take i ss @ ss ! i # drop (Suc i) ss)"
    using id_take_nth_drop [OF assms(1)] by simp
  then show ?thesis using assms(2) by (simp add: unlink_def)
qed

declare unreg_loop.simps [simp del]

lemma unreg_loop_filter: "unreg_loop prog vers ss = filter (\<lambda>c. \<not> sc_matches prog vers None c) ss"
proof (induction prog vers ss rule: unreg_loop.induct)
  case (1 prog vers ss)
  show ?case
  proof (cases "svc_find prog vers None ss")
    case None
    then have "\<forall>c \<in> set ss. \<not> sc_matches prog vers None c" by (simp add: svc_find_None)
    then show ?thesis
      by (subst unreg_loop.simps) (simp add: None)
  next
    case (Some i)
    note i = svc_find_Some [OF Some]
    have "unreg_loop prog vers ss = unreg_loop prog vers (unlink i ss)"
      by (subst unreg_loop.simps) (simp add: Some)
    also have "\<dots> = filter (\<lambda>c. \<not> sc_matches prog vers None c) (unlink i ss)"
      by (rule 1 [OF Some])
    also have "\<dots> = filter (\<lambda>c. \<not> sc_matches prog vers None c) ss"
      using i by (intro filter_unlink) simp_all
    finally show ?thesis .
  qed
qed

text \<open>
  C14: \<open>svc_unreg\<close> removes every service of the program and version, whatever its network, keeps the
  others in their order, and gives back the memory of those it removed; a request for the version is
  no longer dispatched.
\<close>

theorem svc_unreg_removes:
  "svc_head (svc_unreg prog vers s) = filter (\<lambda>c. \<not> (sc_prog c = prog \<and> sc_vers c = vers)) (svc_head s) \<and>
   svc_heap (svc_unreg prog vers s) + length (svc_head (svc_unreg prog vers s)) +
     length (filter (\<lambda>c. sc_netid c \<noteq> None) (svc_head (svc_unreg prog vers s)))
   = svc_heap s + length (svc_head s) + length (filter (\<lambda>c. sc_netid c \<noteq> None) (svc_head s)) \<and>
   (\<forall>d. svc_search prog vers (svc_head (svc_unreg prog vers s)) False (- 1) 0 \<noteq> Found d)"
proof -
  have m: "sc_matches prog vers None = (\<lambda>c. sc_prog c = prog \<and> sc_vers c = vers)"
    by (simp add: fun_eq_iff sc_matches_def)
  have heads: "svc_head (svc_unreg prog vers s) = filter (\<lambda>c. \<not> (sc_prog c = prog \<and> sc_vers c = vers)) (svc_head s)"
    by (simp add: svc_unreg_def unreg_loop_filter m Let_def)
  have count: "sum_list (map (\<lambda>c. 1 + (if sc_netid c = None then 0 else 1)) (filter P cs)) +
      length (filter (\<lambda>c. \<not> P c) cs) + length (filter (\<lambda>c. sc_netid c \<noteq> None) (filter (\<lambda>c. \<not> P c) cs))
      = length cs + length (filter (\<lambda>c. sc_netid c \<noteq> None) cs)" for P and cs :: "callout list"
    by (induction cs) auto
  have heap: "svc_heap (svc_unreg prog vers s) = svc_heap s + sum_list (map (\<lambda>c. 1 + (if sc_netid c = None then 0 else 1))
      (filter (\<lambda>c. sc_prog c = prog \<and> sc_vers c = vers) (svc_head s)))"
    by (simp add: svc_unreg_def m Let_def)
  have "List.find (\<lambda>c. sc_prog c = prog \<and> sc_vers c = vers) (svc_head (svc_unreg prog vers s)) = None"
    by (auto simp: heads find_None_iff)
  then show ?thesis
    using count [of "\<lambda>c. sc_prog c = prog \<and> sc_vers c = vers" "svc_head s"]
    by (simp add: heads heap svc_search_fold)
qed

section \<open>Transports: the invariant\<close>

definition tab_of :: "'t svc \<Rightarrow> nat option list" where
  "tab_of s = (case svc_xports s of None \<Rightarrow> [] | Some tab \<Rightarrow> tab)"

text \<open>The descriptors with a transport, as the table has them.\<close>

definition tab_fds :: "nat option list \<Rightarrow> int set" where
  "tab_fds tab = {fd. 0 \<le> fd \<and> fd + 1 < int (length tab) \<and> tab ! nat (fd + 1) \<noteq> None}"

definition svc_inv :: "'t svc \<Rightarrow> bool" where
  "svc_inv s \<longleftrightarrow> fdset_ready (svc_fds s) \<and> \<not> svc_fd_locked s \<and>
     (svc_xports s \<noteq> None \<longrightarrow> int (length (tab_of s)) = svc_maxxports s + 1 \<and> fd_set (svc_fds s) \<noteq> None) \<and>
     (svc_xports s = None \<longrightarrow> svc_maxxports s = 0) \<and>
     fds_of (svc_fds s) = tab_fds (tab_of s) \<and>
     (\<forall>i < length (tab_of s). \<forall>p. tab_of s ! i = Some p \<longrightarrow> (\<exists>x. svc_mem s p = Some x \<and> xp_fd x = int i - 1))"

lemma nth_append_None:
  "i < length tab + n \<Longrightarrow> (tab @ replicate n None) ! i = Some p \<longleftrightarrow> i < length tab \<and> tab ! i = Some p"
  by (auto simp: nth_append)

lemma tab_fds_append_None: "tab_fds (tab @ replicate n None) = tab_fds tab"
proof -
  have "(nat (fd + 1) < length tab + n \<and> (\<exists>p. (tab @ replicate n None) ! nat (fd + 1) = Some p)) =
      (nat (fd + 1) < length tab \<and> (\<exists>p. tab ! nat (fd + 1) = Some p))" for fd
    using nth_append_None [of "nat (fd + 1)" tab n] by (metis trans_less_add1)
  moreover have "nat (fd + 1) < m \<longleftrightarrow> fd + 1 < int m" if "0 \<le> fd" for fd m
    using that by auto
  ultimately show ?thesis by (fastforce simp: tab_fds_def)
qed

lemma tab_fds_update:
  assumes "0 \<le> fd" and "fd + 1 < int (length tab)"
  shows "tab_fds (tab[nat (fd + 1) := p]) = (if p = None then tab_fds tab - {fd} else insert fd (tab_fds tab))"
proof -
  have "nat (fd' + 1) = nat (fd + 1) \<longleftrightarrow> fd' = fd" if "0 \<le> fd'" for fd'
    using that assms(1) by auto
  then show ?thesis
    using assms by (auto simp: tab_fds_def nth_list_update)
qed

lemma xprt_alloc_spec:
  assumes "svc_inv s" and "0 \<le> fd" and "fd_set (svc_fds s) \<noteq> None \<or> fd < 64"
  obtains ok s' where "xprt_alloc fd s = (ok, s')" and "svc_inv s'" and "ok \<longrightarrow> fd + 1 < int (length (tab_of s'))"
    and "fds_of (svc_fds s') = fds_of (svc_fds s)" and "svc_mem s' = svc_mem s" and "fd_set (svc_fds s') \<noteq> None"
    and "ok \<longrightarrow> svc_xports s' \<noteq> None" and "svc_head s' = svc_head s" and "length (tab_of s) \<le> length (tab_of s')"
    and "0 < svc_heap s \<longrightarrow> ok" and "\<not> ok \<longrightarrow> tab_of s' = tab_of s"
proof -
  let ?f = "svc_fdset_alloc (fd + 1) (svc_fds s)"
  have ready: "fdset_ready (svc_fds s)" using assms(1) by (simp add: svc_inv_def)
  note f = svc_fdset_alloc_ready [OF ready, of "fd + 1"]
  have size: "fd + 1 \<le> int (fdsize ?f)"
  proof (cases "fd_set (svc_fds s)")
    case None
    then show ?thesis
      using assms(3) ready
      by (auto simp: fdset_ready_def fdset_ok_def svc_fdset_alloc_def svc_fdset_resize_def)
  next
    case (Some l)
    then show ?thesis
      using svc_fdset_later_size [of "svc_fds s" "fd + 1"] by (simp add: svc_fdset_getsize_def Let_def)
  qed
  let ?s0 = "s\<lparr>svc_fds := ?f\<rparr>"
  have inv: "svc_inv ?s0"
    using assms(1) f by (simp add: svc_inv_def tab_of_def)
  have tab0: "tab_of ?s0 = tab_of s" by (simp add: tab_of_def)
  consider (enough) "svc_xports s \<noteq> None" "int (fdsize ?f) < svc_maxxports s"
    | (fail) "\<not> (svc_xports s \<noteq> None \<and> int (fdsize ?f) < svc_maxxports s)" "svc_heap s = 0"
    | (grow) "\<not> (svc_xports s \<noteq> None \<and> int (fdsize ?f) < svc_maxxports s)" "0 < svc_heap s"
    by blast
  then show thesis
  proof cases
    case enough
    have "xprt_alloc fd s = (True, ?s0)"
      using enough assms(2) by (simp add: xprt_alloc_def svc_fdset_getsize_def Let_def)
    moreover have "int (length (tab_of s)) = svc_maxxports s + 1"
      using enough assms(1) by (simp add: svc_inv_def)
    ultimately show thesis
      using enough inv f size by (intro that [of True ?s0]) (auto simp: tab0)
  next
    case fail
    have "xprt_alloc fd s = (False, ?s0)"
      using fail assms(2) by (auto simp: xprt_alloc_def svc_fdset_getsize_def Let_def)
    then show thesis
      using fail inv f by (intro that [of False ?s0]) (simp_all add: tab0)
  next
    case grow
    let ?tab = "tab_of s @ replicate (Suc (fdsize ?f) - length (tab_of s)) None"
    let ?s = "s\<lparr>svc_fds := ?f, svc_xports := Some ?tab, svc_maxxports := int (fdsize ?f), svc_heap := svc_heap s - 1\<rparr>"
    have run: "xprt_alloc fd s = (True, ?s)"
      using grow assms(2) by (auto simp: xprt_alloc_def svc_fdset_getsize_def tab_of_def Let_def)
    have old: "length (tab_of s) \<le> Suc (fdsize ?f)"
      using grow assms(1) by (auto simp: svc_inv_def tab_of_def)
    have tab: "tab_of ?s = ?tab" by (simp add: tab_of_def)
    have len: "length ?tab = Suc (fdsize ?f)" using old by simp
    have "svc_inv ?s"
      using assms(1) f len unfolding svc_inv_def tab
      by (auto simp: tab_fds_append_None nth_append_None)
    moreover have "fd + 1 < int (length (tab_of ?s))"
      unfolding tab len using size by simp
    moreover have "length (tab_of s) \<le> length (tab_of ?s)"
      unfolding tab len by (rule old)
    ultimately show thesis
      using run f by (intro that [of True ?s]) simp_all
  qed
qed

text \<open>Registering a handle on a free descriptor either succeeds or leaves the table as it is.\<close>

lemma xprt_register_spec:
  assumes "svc_inv s" and "svc_mem s p = Some x" and "0 \<le> xp_fd x" and "xp_fd x \<notin> fds_of (svc_fds s)"
    and "card (fds_of (svc_fds s)) < FD_SETSIZE" and "fd_set (svc_fds s) \<noteq> None \<or> xp_fd x < 64"
  obtains ok s' where "xprt_register p s = Ret (ok, s')" and "svc_inv s'"
    and "fds_of (svc_fds s') = (if ok then insert (xp_fd x) (fds_of (svc_fds s)) else fds_of (svc_fds s))"
    and "ok \<longrightarrow> tab_get (xp_fd x) s' = Ret (Some p)"
    and "svc_mem s' = svc_mem s" and "svc_head s' = svc_head s" and "length (tab_of s) \<le> length (tab_of s')"
    and "0 < svc_heap s \<longrightarrow> ok" and "\<not> ok \<longrightarrow> tab_of s' = tab_of s" and "fd_set (svc_fds s') \<noteq> None"
proof -
  let ?fd = "xp_fd x" and ?l = "s\<lparr>svc_fd_locked := True\<rparr>"
  obtain ok s1 where s1: "xprt_alloc ?fd s = (ok, s1)" "svc_inv s1" "ok \<longrightarrow> ?fd + 1 < int (length (tab_of s1))"
    "fds_of (svc_fds s1) = fds_of (svc_fds s)" "svc_mem s1 = svc_mem s" "fd_set (svc_fds s1) \<noteq> None"
    "ok \<longrightarrow> svc_xports s1 \<noteq> None" "svc_head s1 = svc_head s" "length (tab_of s) \<le> length (tab_of s1)"
    "0 < svc_heap s \<longrightarrow> ok" "\<not> ok \<longrightarrow> tab_of s1 = tab_of s"
    by (rule xprt_alloc_spec [OF assms(1,3,6)])
  have lock: "xprt_alloc ?fd ?l = (ok, s1\<lparr>svc_fd_locked := True\<rparr>)"
    using s1(1) by (auto simp: xprt_alloc_def Let_def split: prod.splits if_splits)
  have unl: "\<not> svc_fd_locked s1" using s1(2) by (simp add: svc_inv_def)
  show thesis
  proof (cases ok)
    case False
    have "xprt_register p s = Ret (False, s1)"
      using assms(2) lock False unl by (simp add: xprt_register_def Let_def)
    with False s1 show thesis by (intro that [of False s1]) simp_all
  next
    case True
    let ?tab = "(tab_of s1)[nat (?fd + 1) := Some p]"
    let ?s2 = "s1\<lparr>svc_fd_locked := True, svc_xports := Some ?tab\<rparr>"
    have put: "tab_put ?fd (Some p) (s1\<lparr>svc_fd_locked := True\<rparr>) = Ret ?s2"
      using s1(3,7) True assms(3) by (auto simp: tab_put_def tab_of_def)
    have ready: "fdset_ready (svc_fds s1)" using s1(2) by (simp add: svc_inv_def)
    obtain f where f: "svc_fdset_set ?fd (svc_fds s1) = Some (0, f)" "fdset_ready f"
      "fds_of f = insert ?fd (fds_of (svc_fds s))" "fd_set f \<noteq> None"
      using svc_fdset_set_spec [OF ready assms(3)] assms(4,5) s1(4) by metis
    let ?s3 = "s1\<lparr>svc_xports := Some ?tab, svc_fds := f\<rparr>"
    have "xprt_register p s = Ret (True, ?s2\<lparr>svc_fds := f, svc_fd_locked := False\<rparr>)"
      using assms(2,3) lock put f(1) True by (simp add: xprt_register_def Let_def)
    also have "?s2\<lparr>svc_fds := f, svc_fd_locked := False\<rparr> = ?s3"
      using unl by simp
    finally have run: "xprt_register p s = Ret (True, ?s3)" .
    have tab: "tab_of ?s3 = ?tab" by (simp add: tab_of_def)
    have "svc_inv ?s3"
      using s1(2,4,5) mp [OF s1(3) True] mp [OF s1(7) True] f assms(2,3) unfolding svc_inv_def tab
      by (auto simp: tab_fds_update nth_list_update split: if_splits)
    moreover have "tab_get ?fd ?s3 = Ret (Some p)"
      using mp [OF s1(3) True] assms(3) by (simp add: tab_get_def)
    ultimately show thesis
      using run f(3,4) s1(5,8,9) True by (intro that [of True ?s3]) (simp_all add: tab)
  qed
qed

lemma svc_fdset_getmax_spec:
  assumes "fdset_ready f" and "fds_of f \<noteq> {}"
  shows "\<exists>f'. svc_fdset_getmax f = Some (f'\<lparr>fdmax := Max (fds_of f)\<rparr>) \<and> fdset_ready f' \<and> fds_of f' = fds_of f"
proof -
  let ?f = "svc_fdset_alloc 0 f"
  note a = svc_fdset_alloc_ready [OF assms(1), of 0]
  obtain l where l: "fd_set ?f = Some l" using a(4) by auto
  then have set: "set l = fds_of f" using a(2) by (simp add: fds_of_def)
  have bounds: "\<forall>fd \<in> set l. 0 \<le> fd \<and> fd \<le> fdmax ?f"
    using a(1) l by (auto simp: fdset_ready_def fdset_ok_def)
  moreover have "\<exists>fd. fd \<in> set l" using set assms(2) by auto
  ultimately have "\<not> fdmax ?f < 0" by force
  then have "svc_fdset_getmax f = Some (?f\<lparr>fdmax := Max (fds_of f)\<rparr>)"
    using svc_fdset_sanitize_spec [OF l bounds] set assms(2) by (simp add: svc_fdset_getmax_def fdmax_of_def)
  with a(1,2) show ?thesis by blast
qed

lemma lower_max_spec:
  "- 1 \<le> lower_max n tab \<and> (\<forall>fd. 0 \<le> fd \<and> fd < int n \<and> tab ! nat (fd + 1) \<noteq> None \<longrightarrow> fd \<le> lower_max n tab)"
proof (induction n)
  case (Suc n)
  show ?case
  proof (cases "tab ! (n + 1) = None")
    case False
    then show ?thesis by simp
  next
    case True
    have "fd \<noteq> int n" if "0 \<le> fd" "tab ! nat (fd + 1) \<noteq> None" for fd
    proof
      assume "fd = int n"
      then have "nat (fd + 1) = n + 1" by simp
      with that True show False by simp
    qed
    then have "fd < int n" if "0 \<le> fd" "fd < int (Suc n)" "tab ! nat (fd + 1) \<noteq> None" for fd
      using that by force
    with True Suc.IH show ?thesis by simp
  qed
qed simp

text \<open>
  Unregistering: the entry is gone, the descriptor is no longer waited for, and nothing else has
  changed. A transport that is not in the table is left alone.
\<close>

lemma xprt_unregister_spec:
  assumes "svc_inv s" and "svc_mem s p = Some x" and "0 \<le> xp_fd x"
  obtains s' where "xprt_unregister p s = Ret s'" and "svc_inv s'" and "Some p \<notin> set (tab_of s')"
    and "svc_mem s' = svc_mem s" and "svc_head s' = svc_head s" and "length (tab_of s') = length (tab_of s)"
    and "tab_fds (tab_of s') = (if Some p \<in> set (tab_of s) then tab_fds (tab_of s) - {xp_fd x} else tab_fds (tab_of s))"
    and "tab_of s' = (if Some p \<in> set (tab_of s) then (tab_of s)[nat (xp_fd x + 1) := None] else tab_of s)"
    and "fdmax (svc_fds s') \<le> fdmax (svc_fds s)"
proof -
  let ?fd = "xp_fd x"
  have unl: "\<not> svc_fd_locked s" using assms(1) by (simp add: svc_inv_def)
  have at: "?fd + 1 = int i" if "i < length (tab_of s)" "tab_of s ! i = Some p" for i
    using assms(1,2) that by (force simp: svc_inv_def)
  show thesis
  proof (cases "Some p \<in> set (tab_of s)")
    case False
    have "xprt_unregister p s = Ret s"
    proof (cases "?fd \<ge> svc_maxxports s")
      case True
      then show ?thesis using assms(2) unl by (simp add: xprt_unregister_def xprt_do_unregister_def Let_def)
    next
      case less: False
      with assms(1,3) have tab: "svc_xports s = Some (tab_of s)" "?fd + 1 < int (length (tab_of s))"
        by (auto simp: svc_inv_def tab_of_def split: option.splits)
      with False assms(3) have "tab_of s ! nat (?fd + 1) \<noteq> Some p"
        by (metis nth_mem zless_nat_eq_int_zless nat_less_iff add_nonneg_nonneg zero_le_one)
      then show ?thesis
        using less assms(2,3) unl tab by (simp add: xprt_unregister_def xprt_do_unregister_def tab_get_def Let_def)
    qed
    with False assms(1) show thesis by (intro that [of s]) simp_all
  next
    case True
    then obtain i where i: "i < length (tab_of s)" "tab_of s ! i = Some p" by (auto simp: in_set_conv_nth)
    then have fd: "tab_of s ! nat (?fd + 1) = Some p" "?fd + 1 < int (length (tab_of s))"
      using at [OF i] by simp_all
    have idx: "nat (?fd + 1) < length (tab_of s)" using fd(2) i(1) by simp
    have tab: "svc_xports s = Some (tab_of s)" using i(1) by (auto simp: tab_of_def split: option.splits)
    have inv: "fdset_ready (svc_fds s)" "fds_of (svc_fds s) = tab_fds (tab_of s)" "int (length (tab_of s)) = svc_maxxports s + 1"
      using assms(1) tab by (auto simp: svc_inv_def)
    have mem: "?fd \<in> fds_of (svc_fds s)" using fd assms(3) by (simp add: inv(2) tab_fds_def)
    then have ne: "fds_of (svc_fds s) \<noteq> {}" by auto
    obtain f where f: "svc_fdset_getmax (svc_fds s) = Some (f\<lparr>fdmax := Max (fds_of (svc_fds s))\<rparr>)" "fdset_ready f"
      "fds_of f = fds_of (svc_fds s)"
      using svc_fdset_getmax_spec [OF inv(1) ne] by blast
    let ?M = "Max (fds_of (svc_fds s))" and ?tab = "(tab_of s)[nat (?fd + 1) := None]"
    have fin: "finite (fds_of (svc_fds s))" unfolding fds_of_def by (rule finite_set)
    have M: "0 \<le> y \<and> y \<le> ?M" if "y \<in> fds_of (svc_fds s)" for y
      using that Max_ge [OF fin that] inv(2) by (simp add: tab_fds_def)
    have M0: "?fd \<le> ?M" "0 \<le> ?M" using M [OF mem] assms(3) by auto
    define m where "m = (if ?fd < ?M then ?M else lower_max (nat ?M) ?tab)"
    have low: "\<forall>y \<in> fds_of f - {?fd}. y \<le> m"
    proof
      fix y assume y: "y \<in> fds_of f - {?fd}"
      then have "0 \<le> y" "y \<le> ?M" "y \<in> tab_fds (tab_of s)" using M [of y] f(3) inv(2) by auto
      moreover have "nat (?fd + 1) \<noteq> nat (y + 1)" using y \<open>0 \<le> y\<close> assms(3) by auto
      ultimately show "y \<le> m"
        using y M0(1) lower_max_spec [of "nat ?M" ?tab] by (auto simp: m_def tab_fds_def)
    qed
    have "- 1 \<le> m" using M0(2) lower_max_spec [of "nat ?M" ?tab] by (auto simp: m_def)
    then obtain f' where f': "svc_fdset_clr ?fd (f\<lparr>fdmax := m\<rparr>) = Some (0, f')" "fdset_ready f'"
      "fds_of f' = fds_of (svc_fds s) - {?fd}" "fd_set f' \<noteq> None" "fdmax f' = fdmax_of (fds_of f')"
      using svc_fdset_clr_below [OF f(2) _ low] mem f(3) by metis
    have "\<forall>y \<in> fds_of (svc_fds s). 0 \<le> y \<and> y \<le> fdmax (svc_fds s)"
      using inv(1) ne by (auto simp: fdset_ready_def fdset_ok_def fds_of_def)
    then have max: "fdmax f' \<le> fdmax (svc_fds s)"
      using f'(3,5) mem fin by (auto simp: fdmax_of_def intro: order_trans [of "- 1" 0])
    let ?s = "s\<lparr>svc_xports := Some ?tab, svc_fds := f'\<rparr>"
    have "xprt_unregister p s = Ret (?s\<lparr>svc_fd_locked := False\<rparr>)"
      using assms(2,3) fd tab inv(3) f(1) f'(1) M0(2)
      by (simp add: xprt_unregister_def xprt_do_unregister_def tab_get_def tab_put_def Let_def m_def split: if_splits)
    also have "?s\<lparr>svc_fd_locked := False\<rparr> = ?s" using unl by simp
    finally have run: "xprt_unregister p s = Ret ?s" .
    have tab': "tab_of ?s = ?tab" by (simp add: tab_of_def)
    have fds': "tab_fds ?tab = tab_fds (tab_of s) - {?fd}"
      using tab_fds_update [OF assms(3) fd(2), of None] by simp
    have "svc_inv ?s"
      using assms(1) f'(2-4) tab inv(2) unfolding svc_inv_def tab' fds'
      by (auto simp: nth_list_update [OF idx] split: if_splits)
    moreover have "Some p \<notin> set ?tab"
      using at by (auto simp: in_set_conv_nth nth_list_update [OF idx] split: if_splits)
    ultimately show thesis
      using run True fds' max by (intro that [of ?s]) (simp_all add: tab')
  qed
qed

section \<open>The server as a state machine\<close>

text \<open>
  The steps a program makes between requests, or in a dispatch routine: creating a handle,
  registering one whose descriptor is free (the first descriptor being below 64), unregistering,
  freeing a handle that is not registered, reading and writing on a transport, and the services. The handles in \<open>keep\<close> are not freed.
\<close>

definition can_register :: "int \<Rightarrow> 't svc \<Rightarrow> bool" where
  "can_register fd s \<longleftrightarrow> fd \<notin> fds_of (svc_fds s) \<and> card (fds_of (svc_fds s)) < FD_SETSIZE \<and>
     (fd_set (svc_fds s) \<noteq> None \<or> fd < 64)"

inductive svc_step :: "nat set \<Rightarrow> 't svc \<Rightarrow> 't svc \<Rightarrow> bool" for keep where
  handle: "svc_mem s p = None \<Longrightarrow> 0 \<le> xp_fd x \<Longrightarrow> svc_step keep s (s\<lparr>svc_mem := (svc_mem s)(p \<mapsto> x)\<rparr>)"
| register: "svc_mem s p = Some x \<Longrightarrow> can_register (xp_fd x) s \<Longrightarrow> xprt_register p s = Ret (ok, s') \<Longrightarrow> svc_step keep s s'"
| unregister: "svc_mem s p = Some x \<Longrightarrow> xprt_unregister p s = Ret s' \<Longrightarrow> svc_step keep s s'"
| free: "p \<notin> keep \<Longrightarrow> Some p \<notin> set (tab_of s) \<Longrightarrow> svc_step keep s (s\<lparr>svc_mem := (svc_mem s)(p := None)\<rparr>)"
| io: "svc_mem s p = Some x \<Longrightarrow> xp_fd x' = xp_fd x \<Longrightarrow>
    svc_step keep s (s\<lparr>svc_heap := n, svc_closed := c, svc_mem := (svc_mem s)(p \<mapsto> x')\<rparr>)"
| reg: "svc_reg gettp rpcb_set p prog vers d nconf s = Ret (ok, s') \<Longrightarrow> svc_step keep s s'"
| unreg: "svc_step keep s (svc_unreg prog vers s)"

inductive_cases svc_stepE: "svc_step keep s s'"

definition svc_ok :: "'t svc \<Rightarrow> bool" where
  "svc_ok s \<longleftrightarrow> svc_inv s \<and> (\<forall>p x. svc_mem s p = Some x \<longrightarrow> 0 \<le> xp_fd x)"

lemma svc_ok_mem: "svc_ok s \<Longrightarrow> svc_mem s p = Some x \<Longrightarrow> 0 \<le> xp_fd x"
  by (auto simp: svc_ok_def)

text \<open>What every step keeps: the handles of \<open>keep\<close>, and a table that does not shrink.\<close>

definition keeps :: "nat set \<Rightarrow> 't svc \<Rightarrow> 't svc \<Rightarrow> bool" where
  "keeps keep s s' \<longleftrightarrow> svc_ok s' \<and> (\<forall>p \<in> keep. svc_mem s p \<noteq> None \<longrightarrow> svc_mem s' p \<noteq> None) \<and>
     length (tab_of s) \<le> length (tab_of s')"

text \<open>The invariant sees of a handle only its descriptor.\<close>

lemma svc_ok_cong:
  assumes "svc_xports s' = svc_xports s" and "svc_maxxports s' = svc_maxxports s" and "svc_fds s' = svc_fds s"
    and "svc_fd_locked s' = svc_fd_locked s" and "\<And>p. map_option xp_fd (svc_mem s' p) = map_option xp_fd (svc_mem s p)"
  shows "svc_ok s' = svc_ok s"
proof -
  have tab: "tab_of s' = tab_of s" using assms(1) by (simp add: tab_of_def)
  have fd: "(\<exists>x. svc_mem s' p = Some x \<and> P (xp_fd x)) \<longleftrightarrow> (\<exists>x. svc_mem s p = Some x \<and> P (xp_fd x))" for p P
    using assms(5) [of p] by (cases "svc_mem s p"; cases "svc_mem s' p") auto
  have "(\<forall>x. svc_mem s' p = Some x \<longrightarrow> 0 \<le> xp_fd x) \<longleftrightarrow> (\<forall>x. svc_mem s p = Some x \<longrightarrow> 0 \<le> xp_fd x)" for p
    using fd [of p "\<lambda>fd. \<not> 0 \<le> fd"] by blast
  then show ?thesis
    by (simp add: svc_ok_def svc_inv_def assms(1-4) tab fd [where P = "\<lambda>fd. fd = int i - 1" for i])
qed

lemma svc_reg_keeps:
  assumes "svc_reg gettp rpcb_set p prog vers d nconf s = Ret (ok, s')"
  shows "svc_xports s' = svc_xports s" and "svc_maxxports s' = svc_maxxports s" and "svc_fds s' = svc_fds s"
    and "svc_fd_locked s' = svc_fd_locked s" and "map_option xp_fd (svc_mem s' q) = map_option xp_fd (svc_mem s q)"
  using assms by (auto simp: svc_reg_def Let_def split: option.splits if_splits)

lemma keeps_cong:
  assumes "svc_xports s' = svc_xports s" and "svc_maxxports s' = svc_maxxports s" and "svc_fds s' = svc_fds s"
    and "svc_fd_locked s' = svc_fd_locked s" and "\<And>p. map_option xp_fd (svc_mem s' p) = map_option xp_fd (svc_mem s p)"
    and "svc_ok s"
  shows "keeps keep s s'"
proof -
  have "svc_mem s' p \<noteq> None" if "svc_mem s p \<noteq> None" for p
    using assms(5) [of p] that by (cases "svc_mem s' p") auto
  then show ?thesis
    using svc_ok_cong [OF assms(1-5)] assms(1,6) by (simp add: keeps_def tab_of_def)
qed

lemma keeps_refl: "svc_ok s \<Longrightarrow> keeps keep s s"
  by (simp add: keeps_def)

lemma keeps_trans: "keeps keep s s' \<Longrightarrow> keeps keep s' s'' \<Longrightarrow> keeps keep s s''"
  by (auto simp: keeps_def intro: le_trans)

lemma io_keeps:
  assumes "svc_ok s" and "svc_mem s p = Some x" and "xp_fd x' = xp_fd x"
  shows "keeps keep s (s\<lparr>svc_heap := n, svc_closed := c, svc_mem := (svc_mem s)(p \<mapsto> x')\<rparr>)"
  using assms by (intro keeps_cong) auto

lemma svc_step_keeps: "svc_step keep s s' \<Longrightarrow> svc_ok s \<Longrightarrow> keeps keep s s'"
proof (induction rule: svc_step.induct)
  case (handle s p x)
  have "p \<notin> {q. Some q \<in> set (tab_of s)}"
    using handle by (force simp: svc_ok_def svc_inv_def in_set_conv_nth)
  then have "tab_of s ! i \<noteq> Some p" if "i < length (tab_of s)" for i
    using that nth_mem by fastforce
  then show ?case
    using handle unfolding keeps_def svc_ok_def svc_inv_def tab_of_def by simp
next
  case (register s p x ok s')
  then have "0 \<le> xp_fd x" "svc_inv s" by (auto simp: svc_ok_def)
  with register(1,2) obtain r s1 where "xprt_register p s = Ret (r, s1)" "svc_inv s1" "svc_mem s1 = svc_mem s"
    "length (tab_of s) \<le> length (tab_of s1)"
    using xprt_register_spec [of s p x] unfolding can_register_def by metis
  with register show ?case by (auto simp: keeps_def svc_ok_def)
next
  case (unregister s p x s')
  then have "0 \<le> xp_fd x" "svc_inv s" by (auto simp: svc_ok_def)
  with unregister(1) obtain s1 where "xprt_unregister p s = Ret s1" "svc_inv s1" "svc_mem s1 = svc_mem s"
    "length (tab_of s1) = length (tab_of s)"
    using xprt_unregister_spec [of s p x] by metis
  with unregister show ?case by (auto simp: keeps_def svc_ok_def)
next
  case (free p s)
  then have "tab_of s ! i \<noteq> Some p" if "i < length (tab_of s)" for i
    using that nth_mem by fastforce
  with free show ?case unfolding keeps_def svc_ok_def svc_inv_def tab_of_def by auto
next
  case (io s p x x' n c)
  then show ?case by (intro io_keeps)
next
  case (reg gettp rpcb_set p prog vers d nconf s ok s')
  then show ?case by (intro keeps_cong svc_reg_keeps [OF reg(1)])
next
  case (unreg s prog vers)
  then show ?case by (intro keeps_cong) (simp_all add: svc_unreg_def Let_def)
qed

lemma svc_steps_keep: "(svc_step keep)\<^sup>*\<^sup>* s s' \<Longrightarrow> svc_ok s \<Longrightarrow> keeps keep s s'"
proof (induction rule: rtranclp_induct)
  case base
  then show ?case by (rule keeps_refl)
next
  case (step s' s'')
  then have "keeps keep s s'" by simp
  moreover from this have "svc_ok s'" by (simp add: keeps_def)
  ultimately show ?case using svc_step_keeps [OF step(2)] keeps_trans by blast
qed

definition svc_start :: "nat \<Rightarrow> nat \<Rightarrow> authsvc list \<Rightarrow> 't svc" where
  "svc_start heap fheap auths =
     \<lparr>svc_head = [], svc_xports = None, svc_maxxports = 0, svc_maxrec = 0, svc_fds = svc_fdset_initial fheap,
      svc_fd_locked = False, svc_mem = (\<lambda>_. None), svc_auths = auths, svc_heap = heap, svc_closed = []\<rparr>"

lemma svc_start_ok: "2 \<le> fheap \<Longrightarrow> svc_ok (svc_start heap fheap auths)"
  using svc_fdset_initial_ready [of fheap]
  by (simp add: svc_ok_def svc_inv_def svc_start_def tab_of_def tab_fds_def fd_refines_def)


definition demo_xprt :: "int \<Rightarrow> unit svcxprt" where
  "demo_xprt fd = \<lparr>xp_fd = fd, xp_port = 0, xp_tp = None, xp_netid = None, xp_ltaddr = None, xp_rtaddr = None, xp_verf = \<lparr>oa_flavor = 0, oa_base = None, oa_length = 0\<rparr>, xp_p1 = ()\<rparr>"

definition demo_start :: "unit svc" where
  "demo_start = (svc_start 5 2 [])\<lparr>svc_mem := [9 \<mapsto> demo_xprt 7]\<rparr>"

definition demo_server :: "unit svc" where
  "demo_server = (case xprt_register 9 demo_start of Ret (_, s) \<Rightarrow> s | _ \<Rightarrow> demo_start)"

lemma demo_registers: "xprt_register 9 demo_start = Ret (True, demo_server)"
proof -
  have "(case xprt_register 9 demo_start of Ret (ok, _) \<Rightarrow> ok | _ \<Rightarrow> False)" by code_simp
  then show ?thesis by (simp add: demo_server_def split: run.splits prod.splits)
qed

lemma demo_reachable: "(svc_step {})\<^sup>*\<^sup>* (svc_start 5 2 []) demo_server"
proof -
  have "svc_step {} (svc_start 5 2 []) demo_start"
    using svc_step.handle [of "svc_start 5 2 []" 9 "demo_xprt 7" "{}"]
    by (simp add: demo_start_def svc_start_def demo_xprt_def)
  moreover have "svc_step {} demo_start demo_server"
    by (rule svc_step.register [OF _ _ demo_registers, of "demo_xprt 7"])
      (simp_all add: demo_start_def svc_start_def demo_xprt_def can_register_def svc_fdset_initial_def fds_of_def)
  ultimately show ?thesis by simp
qed


section \<open>Answering requests\<close>

text \<open>
  What the server relies on while it answers. A dispatch routine makes steps of the machine and does
  not free the transport it answers on. Receiving on a transport keeps it and the table, and so does
  destroying it, but for the transport itself; the private data of every transport stays \<open>valid\<close>; and
  a transport that has received a call \<open>answers\<close> it without a fault: that is the contract of a kind of
  transport, which may rest on the system behaving as documented (\<open>sound\<close>).
\<close>

definition dispatches :: "('t, 's, 'r) server \<Rightarrow> bool" where
  "dispatches sv \<longleftrightarrow> (\<forall>d r s. (svc_step {rq_xprt r})\<^sup>*\<^sup>* s (sv_dispatch sv d r s))"

definition run_keeps :: "nat set \<Rightarrow> 't svc \<Rightarrow> ('a \<Rightarrow> 't svc) \<Rightarrow> 'a run \<Rightarrow> bool" where
  "run_keeps keep s st r = (case r of Ret a \<Rightarrow> keeps keep s (st a) | Fault \<Rightarrow> False | Out_of_fuel \<Rightarrow> True)"

lemma run_keeps_simps [simp]:
  "run_keeps keep s st (Ret a) = keeps keep s (st a)" "\<not> run_keeps keep s st Fault" "run_keeps keep s st Out_of_fuel"
  by (simp_all add: run_keeps_def)

lemma run_keeps_bind:
  assumes "run_keeps keep s st r" and "\<And>a. r = Ret a \<Longrightarrow> keeps keep s (st a) \<Longrightarrow> run_keeps keep' s st' (k a)"
  shows "run_keeps keep' s st' (run_bind r k)"
  using assms by (cases r) simp_all

definition valid_all :: "('t \<Rightarrow> bool) \<Rightarrow> 't svc \<Rightarrow> bool" where
  "valid_all valid s \<longleftrightarrow> (\<forall>p x. svc_mem s p = Some x \<longrightarrow> valid (xp_p1 x))"

definition run_valid :: "('t \<Rightarrow> bool) \<Rightarrow> ('a \<Rightarrow> 't svc) \<Rightarrow> 'a run \<Rightarrow> bool" where
  "run_valid valid st r = (case r of Ret a \<Rightarrow> valid_all valid (st a) | _ \<Rightarrow> True)"

lemma run_valid_simps [simp]:
  "run_valid valid st (Ret a) = valid_all valid (st a)" "run_valid valid st Fault" "run_valid valid st Out_of_fuel"
  by (simp_all add: run_valid_def)

lemma valid_all_True [simp]: "valid_all (\<lambda>_. True) s" "run_valid (\<lambda>_. True) st r"
  by (simp_all add: valid_all_def run_valid_def split: run.split)

lemma valid_all_upd:
  "valid_all valid s \<Longrightarrow> valid (xp_p1 x) \<Longrightarrow> svc_mem s' = (svc_mem s)(p \<mapsto> x) \<Longrightarrow> valid_all valid s'"
  by (simp add: valid_all_def)

definition keeps_valid :: "('t \<Rightarrow> bool) \<Rightarrow> ('t, 's, 'r) server \<Rightarrow> bool" where
  "keeps_valid valid sv \<longleftrightarrow> (\<forall>d r s. valid_all valid s \<longrightarrow> valid_all valid (sv_dispatch sv d r s))"

lemma keeps_valid_True [simp]: "keeps_valid (\<lambda>_. True) sv"
  by (simp add: keeps_valid_def)

locale transport =
  fixes ops :: "('t, 's, 'r) xp_ops"
    and valid :: "'t \<Rightarrow> bool"
    and answers :: "'t \<Rightarrow> bool"
    and sound :: bool
  assumes recv_keeps: "sound \<Longrightarrow> svc_ok s \<Longrightarrow> valid_all valid s \<Longrightarrow> svc_mem s p \<noteq> None \<Longrightarrow> tab_of s \<noteq> [] \<Longrightarrow>
      run_keeps {p} s (\<lambda>(ok, msg, s). s) (xp_recv ops p msg s)"
    and recv_valid: "sound \<Longrightarrow> valid_all valid s \<Longrightarrow> run_valid valid (\<lambda>(ok, msg, s). s) (xp_recv ops p msg s)"
    and recv_answers: "sound \<Longrightarrow> valid_all valid s \<Longrightarrow> xp_recv ops p msg s = Ret (True, msg', s') \<Longrightarrow>
      \<exists>x. svc_mem s' p = Some x \<and> answers (xp_p1 x)"
    and reply_returns: "sound \<Longrightarrow> answers (xp_p1 x) \<Longrightarrow> \<exists>ok t. xp_reply ops x m = Ret (ok, t) \<and> valid t"
    and stat_valid: "valid t \<Longrightarrow> valid (snd (xp_stat ops t))"
    and destroy_keeps: "svc_ok s \<Longrightarrow> svc_mem s p \<noteq> None \<Longrightarrow> run_keeps {} s id (xp_destroy ops p s)"
    and destroy_valid: "valid_all valid s \<Longrightarrow> run_valid valid id (xp_destroy ops p s)"

lemma upd_xprt_keeps:
  assumes "svc_ok s" and "svc_mem s p = Some x" and "f x = Ret x'" and "xp_fd x' = xp_fd x"
  shows "\<exists>s'. upd_xprt p f s = Ret s' \<and> keeps {p} s s'"
  using io_keeps [OF assms(1,2,4), of "{p}" "svc_closed s" "svc_heap s"] assms(2,3) by (simp add: upd_xprt_def)

lemma keeps_mem: "keeps {p} s s' \<Longrightarrow> svc_mem s p = Some x \<Longrightarrow> \<exists>x'. svc_mem s' p = Some x'"
  by (auto simp: keeps_def)

lemma svc_request_keeps:
  assumes "svc_ok s" and "svc_mem s p = Some x" and "dispatches sv"
    and "\<And>y m. xp_p1 y = xp_p1 x \<Longrightarrow> \<exists>ok t. xp_reply (sv_ops sv) y m = Ret (ok, t) \<and> valid t"
    and "valid_all valid s" and "keeps_valid valid sv"
  shows "\<exists>b s'. svc_request sv p msg s = Ret (b, s') \<and> keeps {p} s s' \<and> valid_all valid s'"
proof -
  obtain why cc verf heap where au: "authenticate (sv_auth sv) (svc_auths s) (sv_addr sv) (svc_heap s) (cb_cred (rm_call msg))
    (sv_area sv) (xp_verf x) = (why, cc, verf, heap)" by (metis prod_cases4)
  let ?x = "x\<lparr>xp_verf := verf\<rparr>"
  let ?s = "s\<lparr>svc_heap := heap, svc_mem := (svc_mem s)(p \<mapsto> ?x)\<rparr>"
  have k: "keeps {p} s ?s"
    using io_keeps [OF assms(1,2), of ?x "{p}" "svc_closed s" heap] by simp
  then have ok: "svc_ok ?s" by (simp add: keeps_def)
  have v: "valid_all valid ?s" using assms(2,5) by (auto simp: valid_all_def)
  have err: "\<exists>s'. upd_xprt p f ?s = Ret s' \<and> keeps {p} s s' \<and> valid_all valid s'" if f: "f ?x = xprt_error (sv_ops sv) m ?x" for f m
  proof -
    obtain r t where "xp_reply (sv_ops sv) ?x m = Ret (r, t)" and t: "valid t" using assms(4) [of ?x m] by auto
    then have e: "xprt_error (sv_ops sv) m ?x = Ret (?x\<lparr>xp_p1 := t\<rparr>)" by (simp add: xprt_error_def xprt_reply_def)
    then obtain s' where "upd_xprt p f ?s = Ret s'" "keeps {p} ?s s'"
      using upd_xprt_keeps [of ?s p ?x f "?x\<lparr>xp_p1 := t\<rparr>"] ok f by auto
    moreover from this e f have "s' = ?s\<lparr>svc_mem := (svc_mem ?s)(p \<mapsto> ?x\<lparr>xp_p1 := t\<rparr>)\<rparr>"
      by (simp add: upd_xprt_def)
    then have "valid_all valid s'" using valid_all_upd [OF v, of "?x\<lparr>xp_p1 := t\<rparr>" s' p] t by simp
    ultimately show ?thesis using keeps_trans [OF k] by auto
  qed
  have disp: "keeps {p} s (sv_dispatch sv d r ?s) \<and> valid_all valid (sv_dispatch sv d r ?s)" if "rq_xprt r = p" for d r
  proof
    show "keeps {p} s (sv_dispatch sv d r ?s)"
      using assms(3) svc_steps_keep [OF _ ok] keeps_trans [OF k] that unfolding dispatches_def by metis
    show "valid_all valid (sv_dispatch sv d r ?s)" using assms(6) v by (simp add: keeps_valid_def)
  qed
  show ?thesis
  proof (cases "why = AUTH_OK")
    case False
    obtain s' where "upd_xprt p (svcerr_auth (sv_ops sv) (sv_junk sv) why) ?s = Ret s'" "keeps {p} s s'" "valid_all valid s'"
      using err [of "svcerr_auth (sv_ops sv) (sv_junk sv) why"] by (auto simp: svcerr_auth_def)
    with False show ?thesis using assms(2) by (auto simp: svc_request_def au Let_def)
  next
    case True
    show ?thesis
    proof (cases "svc_search (cb_prog (rm_call msg)) (cb_vers (rm_call msg)) (svc_head s) False (- 1) 0")
      case (Found d)
      with True disp show ?thesis using assms(2) by (auto simp: svc_request_def au Let_def)
    next
      case (Not_found pf low high)
      let ?f = "if pf then svcerr_progvers (sv_ops sv) (sv_junk sv) low high
          else svcerr_noprog (sv_ops sv) (sv_junk sv)"
      obtain s' where "upd_xprt p ?f ?s = Ret s'" "keeps {p} s s'" "valid_all valid s'"
        using err [of ?f] by (cases pf) (auto simp: svcerr_progvers_def svcerr_noprog_def)
      with True Not_found show ?thesis using assms(2) by (auto simp: svc_request_def au Let_def)
    qed
  qed
qed

lemma keeps_weaken: "keeps keep s s' \<Longrightarrow> keeps {} s s'"
  by (simp add: keeps_def)

lemma tab_get_in:
  assumes "- 1 \<le> fd" and "fd + 1 < int (length (tab_of s))"
  shows "tab_get fd s = Ret (tab_of s ! nat (fd + 1))"
  using assms by (cases "svc_xports s") (simp_all add: tab_get_def tab_of_def)

context transport
begin

lemma round_keeps:
  assumes sound and "svc_ok s" and "valid_all valid s" and "svc_mem s p \<noteq> None" and "dispatches sv"
    and "keeps_valid valid sv" and "sv_ops sv = ops" and "- 1 \<le> fd" and "fd + 1 < int (length (tab_of s))"
  shows "run_keeps {} s (\<lambda>(m, msg, s). s) (svc_getreq_round sv fd p msg s) \<and>
    run_valid valid (\<lambda>(m, msg, s). s) (svc_getreq_round sv fd p msg s) \<and>
    (\<forall>msg' s'. svc_getreq_round sv fd p msg s = Ret (True, msg', s') \<longrightarrow> svc_mem s' p \<noteq> None)"
proof -
  define call_done where "call_done = (\<lambda>(msg' :: ('s, 'r) rpc_msg) s. case svc_mem s p of None \<Rightarrow> Fault
    | Some x \<Rightarrow> case xp_stat ops (xp_p1 x) of (stat, t) \<Rightarrow>
        let s = s\<lparr>svc_mem := (svc_mem s)(p \<mapsto> x\<lparr>xp_p1 := t\<rparr>)\<rparr> in
        if stat = XPRT_DIED then run_bind (xp_destroy ops p s) (\<lambda>s. Ret (False, msg', s))
        else Ret (stat = XPRT_MOREREQS, msg', s))"
  let ?st = "\<lambda>(m, msg, s). s"
  obtain x where x: "svc_mem s p = Some x" using assms(4) by auto
  have fin: "run_keeps {} s ?st (call_done msg' s1) \<and> run_valid valid ?st (call_done msg' s1) \<and>
      (\<forall>m s2. call_done msg' s1 = Ret (True, m, s2) \<longrightarrow> svc_mem s2 p \<noteq> None)"
    if s1: "keeps {p} s s1" "valid_all valid s1" for msg' s1
  proof -
    obtain x1 where x1: "svc_mem s1 p = Some x1" using keeps_mem [OF s1(1) x] by auto
    obtain stat t1 where st: "xp_stat ops (xp_p1 x1) = (stat, t1)" by (metis surj_pair)
    let ?s1 = "s1\<lparr>svc_mem := (svc_mem s1)(p \<mapsto> x1\<lparr>xp_p1 := t1\<rparr>)\<rparr>"
    have "valid (xp_p1 x1)" using s1(2) x1 by (auto simp: valid_all_def)
    then have v1: "valid_all valid ?s1" using stat_valid [of "xp_p1 x1"] st s1(2) by (auto simp: valid_all_def)
    have "svc_ok s1" using s1 by (simp add: keeps_def)
    then have "keeps {p} s1 ?s1"
      using io_keeps [OF _ x1, of "x1\<lparr>xp_p1 := t1\<rparr>" "{p}" "svc_closed s1" "svc_heap s1"] by simp
    with s1(1) have k1: "keeps {p} s ?s1" by (rule keeps_trans)
    then have ok1: "svc_ok ?s1" by (simp add: keeps_def)
    have "run_keeps {} ?s1 id (xp_destroy ops p ?s1)" using ok1 by (intro destroy_keeps) simp_all
    moreover have "run_valid valid id (xp_destroy ops p ?s1)" using v1 by (rule destroy_valid)
    ultimately show ?thesis
      using x1 st v1 keeps_weaken [OF k1] keeps_trans [OF keeps_weaken [OF k1]]
      by (cases "xp_destroy ops p ?s1") (simp_all add: call_done_def Let_def)
  qed
  have ne: "tab_of s \<noteq> []" using assms(8,9) by auto
  show ?thesis
  proof (cases "xp_recv ops p msg s")
    case (Ret a)
    obtain ok msg' s0 where a: "a = (ok, msg', s0)" by (metis prod_cases3)
    have k: "keeps {p} s s0" using recv_keeps [OF assms(1,2,3,4) ne, of msg] Ret a by simp
    have v0: "valid_all valid s0" using recv_valid [OF assms(1,3), of p msg] Ret a by simp
    obtain b s1 where s1: "(if ok then svc_request sv p msg' s0 else Ret (False, s0)) = Ret (b, s1)"
      "keeps {p} s s1" "valid_all valid s1"
    proof (cases ok)
      case True
      have "svc_ok s0" using k by (simp add: keeps_def)
      moreover obtain x1 where "svc_mem s0 p = Some x1" "answers (xp_p1 x1)"
        using recv_answers [OF assms(1,3), of p msg msg' s0] Ret a True by auto
      ultimately obtain b s1 where "svc_request sv p msg' s0 = Ret (b, s1)" "keeps {p} s0 s1" "valid_all valid s1"
        using svc_request_keeps [OF _ _ assms(5), of s0 p x1 valid msg'] reply_returns [OF assms(1)] assms(6,7) v0 by fastforce
      with True keeps_trans [OF k] show thesis by (intro that [of b s1]) auto
    qed (use k v0 that in auto)
    then have "length (tab_of s) \<le> length (tab_of s1)" by (simp add: keeps_def)
    then have get: "tab_get fd s1 = Ret (tab_of s1 ! nat (fd + 1))" using assms(8,9) by (intro tab_get_in) simp_all
    have "svc_getreq_round sv fd p msg s = (if b then call_done msg' s1
        else if tab_of s1 ! nat (fd + 1) \<noteq> Some p then Ret (False, msg', s1) else call_done msg' s1)"
      unfolding svc_getreq_round_def assms(7) call_done_def using Ret a s1(1) get by (simp add: Let_def)
    then show ?thesis using fin [OF s1(2,3)] keeps_weaken [OF s1(2)] s1(3) by simp
  next
    case Fault
    then show ?thesis using recv_keeps [OF assms(1,2,3,4) ne, of msg] by simp
  next
    case Out_of_fuel
    then show ?thesis by (simp add: svc_getreq_round_def assms(7))
  qed
qed

lemma loop_keeps:
  assumes sound and "svc_ok s" and "valid_all valid s" and "svc_mem s p \<noteq> None" and "dispatches sv"
    and "keeps_valid valid sv" and "sv_ops sv = ops" and "- 1 \<le> fd" and "fd + 1 < int (length (tab_of s))"
  shows "run_keeps {} s id (svc_getreq_loop fuel sv fd p msg s) \<and> run_valid valid id (svc_getreq_loop fuel sv fd p msg s)"
  using assms(2,3,4,9)
proof (induction fuel arbitrary: msg s)
  case (Suc fuel)
  note r = round_keeps [OF assms(1) Suc.prems(1,2,3) assms(5,6,7,8) Suc.prems(4), of msg]
  show ?case
  proof (cases "svc_getreq_round sv fd p msg s")
    case (Ret a)
    obtain m msg' s1 where s1: "a = (m, msg', s1)" by (metis prod_cases3)
    with r Ret have k: "keeps {} s s1" and v: "valid_all valid s1" by simp_all
    then have "svc_ok s1" "fd + 1 < int (length (tab_of s1))" using Suc.prems by (simp_all add: keeps_def)
    with v have "run_keeps {} s1 id (svc_getreq_loop fuel sv fd p msg' s1) \<and> run_valid valid id (svc_getreq_loop fuel sv fd p msg' s1)" if m
      using r Ret s1 that by (intro Suc.IH) simp_all
    then show ?thesis
      using s1 k v Ret keeps_trans [OF k] by (cases "svc_getreq_loop fuel sv fd p msg' s1") auto
  qed (use r in simp_all)
qed simp

lemma getreqset_keeps:
  assumes sound and "svc_ok s" and "valid_all valid s" and "dispatches sv" and "keeps_valid valid sv" and "sv_ops sv = ops"
    and "\<forall>fd \<in> set fds. - 1 \<le> fd \<and> fd + 1 < int (length (tab_of s))"
  shows "run_keeps {} s id (svc_getreqset fuel sv fds msg s) \<and> run_valid valid id (svc_getreqset fuel sv fds msg s)"
  unfolding svc_getreqset_def using assms(2,3,7)
proof (induction fds arbitrary: s)
  case Nil
  then show ?case by (simp add: keeps_refl)
next
  case (Cons fd fds)
  then have fd: "- 1 \<le> fd" "fd + 1 < int (length (tab_of s))" by simp_all
  then have get: "tab_get fd s = Ret (tab_of s ! nat (fd + 1))" by (rule tab_get_in)
  have one: "run_keeps {} s id (svc_getreq_common fuel sv fd msg s) \<and> run_valid valid id (svc_getreq_common fuel sv fd msg s)"
  proof (cases "tab_of s ! nat (fd + 1)")
    case None
    then show ?thesis using get Cons.prems keeps_refl by (simp add: svc_getreq_common_def)
  next
    case (Some p)
    have "nat (fd + 1) < length (tab_of s)" using fd by (auto simp: nat_less_iff)
    with Some Cons.prems(1) have "svc_mem s p \<noteq> None" by (force simp: svc_ok_def svc_inv_def)
    with Some get loop_keeps [OF assms(1) Cons.prems(1,2) _ assms(4,5,6) fd] show ?thesis
      by (simp add: svc_getreq_common_def)
  qed
  show ?case
  proof (cases "svc_getreq_common fuel sv fd msg s")
    case (Ret s1)
    with one have k: "keeps {} s s1" and v: "valid_all valid s1" by simp_all
    then have "svc_ok s1" "length (tab_of s) \<le> length (tab_of s1)" by (simp_all add: keeps_def)
    with Cons.IH [of s1] v Cons.prems(3)
    have "run_keeps {} s1 id (svc_getreqset2 fuel sv fds msg s1) \<and> run_valid valid id (svc_getreqset2 fuel sv fds msg s1)"
      by fastforce
    with keeps_trans [OF k] Ret show ?thesis
      by (cases "svc_getreqset2 fuel sv fds msg s1") simp_all
  qed (use one in simp_all)
qed

end

text \<open>
  After a dispatch routine the code jumps past the test whether the transport has been disconnected:
  a routine that destroys it, which the comment on the test allows for, leaves \<open>SVC_STAT\<close> on a freed handle.
\<close>

lemma dispatch_destroys_faults:
  assumes "xp_recv (sv_ops sv) p msg s = Ret (True, m, s1)" and "svc_request sv p m s1 = Ret (True, s2)"
    and "svc_mem s2 p = None"
  shows "svc_getreq_round sv fd p msg s = Fault"
  using assms by (simp add: svc_getreq_round_def)

text \<open>
  The table is sized from the first answer of \<open>svc_fdset_getsize\<close>, which is 64 whatever descriptor it is
  asked for (\<open>svc_fdset_first_size\<close>): registering a first transport on a higher one writes outside it.
\<close>

lemma first_descriptor_overflows:
  assumes "svc_mem s p = Some x" and "64 \<le> xp_fd x" and "svc_xports s = None" and "svc_fds s = svc_fdset_initial fheap"
    and "0 < fheap" and "0 < svc_heap s"
  shows "xprt_register p s = Fault"
  using assms
  by (simp add: xprt_register_def xprt_alloc_def svc_fdset_getsize_def svc_fdset_alloc_def svc_fdset_resize_def
      svc_fdset_initial_def tab_put_def Let_def)

text \<open>When the poll array cannot be allocated, \<open>xprt_register\<close> fails with the lock still held.\<close>

lemma register_keeps_lock:
  "case xprt_register 9 (demo_start\<lparr>svc_fds := svc_fdset_initial 1\<rparr>) of Ret (ok, s) \<Rightarrow> \<not> ok \<and> svc_fd_locked s | _ \<Rightarrow> False"
  by code_simp

end
