(* ===== verification/Svc_Vc.thy ===== *)
theory Svc_Vc
  imports Svc
begin

text \<open>
  \<open>libsrc/svc_vc.c\<close>: transports over connections. A rendezvouser accepts connections and registers a
  transport for each; a connection reads calls from a record stream and writes the replies to it;
  idle connections are destroyed. The contract \<open>transport\<close> of the server is interpreted on these
  operations.

  The main facts: the server with such transports stays consistent and never touches a freed
  transport; a call for a version that is not served is answered, on the wire, with a reply from
  which the client learns the versions that are; \<open>__svc_clean_idle\<close> removes exactly the connections
  that have been idle for too long.
\<close>

section \<open>State\<close>

record timeval = tv_sec :: int  tv_usec :: int

record cf_rendezvous =
  rz_sendsize :: u32
  rz_recvsize :: u32
  rz_maxrec :: int

record cf_conn =
  strm_stat :: xprt_stat
  x_id :: u32
  cf_xdrs :: "rec_strm XDR"
  cf_sendsize :: u32
  cf_recvsize :: u32
  cf_maxrec :: int
  cf_nonblock :: bool
  last_recv_time :: timeval

datatype vc_private = Rendezvous cf_rendezvous | Conn cf_conn

type_synonym vc_server = "vc_private svc"

text \<open>
  What the system answers: the outcome of the \<open>k\<close>-th \<open>accept\<close> of a request, the address of the next transport to be allocated,
  the time of day, the network id of a socket, and the connection behind an accepted socket: the
  answers of \<open>read_vc\<close>, how many calls of \<open>write_vc\<close> succeed, the answer of \<open>lseek\<close> and the allocations
  of its stream.
\<close>

datatype accept_event = Accepted int "byte list" bool | Interrupted | Out_of_descriptors | Accept_error

record vc_env =
  ev_accept :: "nat \<Rightarrow> vc_server \<Rightarrow> accept_event"
  ev_fresh :: "vc_server \<Rightarrow> nat"
  ev_now :: "vc_server \<Rightarrow> timeval"
  ev_netid :: "int \<Rightarrow> byte list option"
  ev_net :: "int \<Rightarrow> byte list list \<times> nat \<times> u32 \<times> nat"

section \<open>Reading and writing\<close>

text \<open>
  The events of a socket. \<open>read_vc\<close> returns at most \<open>n\<close> bytes, \<open>Some []\<close> for 0, or \<open>None\<close> for \<open>-1\<close>; a
  blocking connection waits at most 35 seconds for \<open>POLLIN\<close>, is interrupted and goes on waiting. Nothing
  is read after an error.
\<close>

datatype sock_event = Arrived "byte list" | Again | Eintr | Closed | Timed_out | Sock_error

fun read_vc :: "bool \<Rightarrow> nat \<Rightarrow> sock_event list \<Rightarrow> byte list option \<times> sock_event list" where
  "read_vc nb n [] = (None, [])"
| "read_vc nb n (Arrived bs # es) =
     (if length bs \<le> n then (Some bs, es) else (Some (take n bs), Arrived (drop n bs) # es))"
| "read_vc nb n (Again # es) = (if nb then (Some [], es) else (None, []))"
| "read_vc nb n (Eintr # es) = (if nb then (None, []) else read_vc nb n es)"
| "read_vc nb n (Closed # es) = (if nb then (Some [], es) else (None, []))"
| "read_vc nb n (Timed_out # es) = (if nb then read_vc nb n es else (None, []))"
| "read_vc nb n (Sock_error # es) = (None, [])"

text \<open>The chunks that \<open>readit\<close> of the record stream sees of such events.\<close>

fun vc_chunks :: "bool \<Rightarrow> sock_event list \<Rightarrow> byte list list" where
  "vc_chunks nb [] = []"
| "vc_chunks nb (Arrived bs # es) = bs # vc_chunks nb es"
| "vc_chunks nb (Again # es) = (if nb then [] # vc_chunks nb es else [])"
| "vc_chunks nb (Eintr # es) = (if nb then [] else vc_chunks nb es)"
| "vc_chunks nb (Closed # es) = (if nb then [] # vc_chunks nb es else [])"
| "vc_chunks nb (Timed_out # es) = (if nb then vc_chunks nb es else [])"
| "vc_chunks nb (Sock_error # es) = []"

text \<open>
  \<open>write_vc\<close>: each call of \<open>write\<close> takes some bytes, or would block at a time in seconds, or fails.
  \<open>None\<close> is that the call does not return.
\<close>

datatype write_event = Wrote nat | Would_block int | Write_error

fun write_vc :: "bool \<Rightarrow> int \<Rightarrow> write_event list \<Rightarrow> nat \<Rightarrow> bool option" where
  "write_vc nb tv0 es 0 = Some True"
| "write_vc nb tv0 [] (Suc cnt) = None"
| "write_vc nb tv0 (Wrote i # es) (Suc cnt) = write_vc nb tv0 es (Suc cnt - i)"
| "write_vc nb tv0 (Would_block tv1 # es) (Suc cnt) =
     (if \<not> nb then Some False
      else if tv1 - tv0 \<ge> 2 then Some False
      else write_vc nb tv0 es (Suc cnt))"
| "write_vc nb tv0 (Write_error # es) (Suc cnt) = Some False"

text \<open>What the two have noted in the connection while an operation used the stream.\<close>

definition vc_io :: "timeval \<Rightarrow> rec_strm XDR \<Rightarrow> cf_conn \<Rightarrow> cf_conn" where
  "vc_io now x cd =
     cd\<lparr>cf_xdrs := x,
        strm_stat := (if net_died (x_private x) then XPRT_DIED else strm_stat cd),
        last_recv_time := (if concat (net_in (x_private x)) = concat (net_in (x_private (cf_xdrs cd)))
                           then last_recv_time cd else now)\<rparr>"

section \<open>Operations on a connection\<close>

definition svc_vc_stat :: "timeval \<Rightarrow> cf_conn \<Rightarrow> xprt_stat \<times> cf_conn" where
  "svc_vc_stat now cd =
     (if strm_stat cd = XPRT_DIED then (XPRT_DIED, cd)
      else case xdrrec_eof (x_private (cf_xdrs cd)) of (eof, s) \<Rightarrow>
        (if eof then XPRT_IDLE else XPRT_MOREREQS, vc_io now ((cf_xdrs cd)\<lparr>x_private := s\<rparr>) cd))"

definition svc_vc_recv ::
  "timeval \<Rightarrow> cf_conn \<Rightarrow> (rec_strm, 'r) rpc_msg \<Rightarrow> bool \<times> (rec_strm, 'r) rpc_msg \<times> cf_conn" where
  "svc_vc_recv now cd msg =
     (let (have, cd) =
        (if cf_nonblock cd
         then (case xdrrec_getrec True (x_private (cf_xdrs cd)) of (ok, stat, s) \<Rightarrow>
                 (ok, (vc_io now ((cf_xdrs cd)\<lparr>x_private := s\<rparr>) cd)\<lparr>strm_stat := stat\<rparr>))
         else (True, cd))
      in if \<not> have then (False, msg, cd)
         else case xdrrec_skiprecord (x_private (cf_xdrs cd)) of (_, s) \<Rightarrow>
           (case xdr_callmsg msg ((cf_xdrs cd)\<lparr>x_op := XDR_DECODE, x_private := s\<rparr>) of (ok, msg, x) \<Rightarrow>
              let cd = vc_io now x cd in
              if ok then (True, msg, cd\<lparr>x_id := rm_xid msg\<rparr>)
              else (False, msg, cd\<lparr>strm_stat := XPRT_DIED\<rparr>)))"

definition svc_vc_getargs :: "timeval \<Rightarrow> (rec_strm, 'a) xdrproc \<Rightarrow> 'a \<Rightarrow> cf_conn \<Rightarrow> bool \<times> 'a \<times> cf_conn" where
  "svc_vc_getargs now xdr_args args cd =
     (case xdr_args args (cf_xdrs cd) of (ok, args, x) \<Rightarrow> (ok, args, vc_io now x cd))"

definition svc_vc_freeargs :: "timeval \<Rightarrow> (rec_strm, 'a) xdrproc \<Rightarrow> 'a \<Rightarrow> cf_conn \<Rightarrow> bool \<times> 'a \<times> cf_conn" where
  "svc_vc_freeargs now xdr_args args cd =
     (case xdr_args args ((cf_xdrs cd)\<lparr>x_op := XDR_FREE\<rparr>) of (ok, args, x) \<Rightarrow> (ok, args, vc_io now x cd))"

definition svc_vc_reply :: "timeval \<Rightarrow> cf_conn \<Rightarrow> (rec_strm, 'r) rpc_msg \<Rightarrow> bool \<times> cf_conn" where
  "svc_vc_reply now cd msg =
     (case xdr_replymsg (msg\<lparr>rm_xid := x_id cd\<rparr>) ((cf_xdrs cd)\<lparr>x_op := XDR_ENCODE\<rparr>) of (rstat, msg, x) \<Rightarrow>
        (case xdrrec_endofrecord True (x_private x) of (_, s) \<Rightarrow>
           (rstat, vc_io now (x\<lparr>x_private := s\<rparr>) cd)))"

definition svc_vc_control :: "u32 \<Rightarrow> int \<Rightarrow> bool \<times> int" where
  "svc_vc_control rq in_val = (False, in_val)"

text \<open>\<open>SVCGET_CONNMAXREC\<close> is 3, \<open>SVCSET_CONNMAXREC\<close> is 4; the result holds \<open>*in\<close> afterwards.\<close>

definition svc_vc_rendezvous_control :: "u32 \<Rightarrow> int \<Rightarrow> cf_rendezvous \<Rightarrow> bool \<times> int \<times> cf_rendezvous" where
  "svc_vc_rendezvous_control rq in_val cfp =
     (if rq = 3 then (True, rz_maxrec cfp, cfp)
      else if rq = 4 then (True, in_val, cfp\<lparr>rz_maxrec := in_val\<rparr>)
      else (False, in_val, cfp))"

section \<open>Creating and destroying\<close>

definition null_verf :: opaque_auth where
  "null_verf = \<lparr>oa_flavor = 0, oa_base = None, oa_length = 0\<rparr>"

text \<open>
  Allocations of the transports are taken from \<open>svc_heap\<close>. A record stream that cannot be allocated
  leaves a null operations vector behind, which the next call on the connection dereferences: the
  model faults at once.
\<close>

definition alloc :: "nat \<Rightarrow> 't svc \<Rightarrow> 't svc option" where
  "alloc n s = (if svc_heap s < n then None else Some (s\<lparr>svc_heap := svc_heap s - n\<rparr>))"

definition new_xprt :: "int \<Rightarrow> u32 \<Rightarrow> byte list option \<Rightarrow> 't \<Rightarrow> 't svcxprt" where
  "new_xprt fd port netid t =
     \<lparr>xp_fd = fd, xp_port = port, xp_tp = None, xp_netid = netid, xp_ltaddr = None, xp_rtaddr = None,
      xp_verf = null_verf, xp_p1 = t\<rparr>"

definition new_conn :: "rec_strm \<Rightarrow> nat \<Rightarrow> cf_conn" where
  "new_conn strm heap =
     \<lparr>strm_stat = XPRT_IDLE, x_id = 0, cf_xdrs = mkXDR XDR_ENCODE xdrrec_ops strm heap,
      cf_sendsize = 0, cf_recvsize = 0, cf_maxrec = 0, cf_nonblock = False,
      last_recv_time = \<lparr>tv_sec = 0, tv_usec = 0\<rparr>\<rparr>"

definition makefd_xprt :: "vc_env \<Rightarrow> int \<Rightarrow> u32 \<Rightarrow> u32 \<Rightarrow> vc_server \<Rightarrow> (nat option \<times> vc_server) run" where
  "makefd_xprt env fd sendsz recvsz s =
     (let p = ev_fresh env s in
      case alloc 1 s of None \<Rightarrow> Ret (None, s)
      | Some s \<Rightarrow>
      let out = (\<lambda>s. Ret (None, s\<lparr>svc_heap := svc_heap s + 1, svc_mem := (svc_mem s)(p := None)\<rparr>)) in
      case alloc 1 s of None \<Rightarrow> out s
      | Some s \<Rightarrow>
      (case ev_net env fd of (net, writes, pos, heap) \<Rightarrow>
       case xdrrec_create sendsz recvsz net writes pos heap of None \<Rightarrow> Fault
       | Some strm \<Rightarrow>
       let xprt = (new_xprt fd 0 None (Conn (new_conn strm heap)))\<lparr>xp_verf := null_verf\<lparr>oa_base := Some (zeros 400)\<rparr>\<rparr> in
       case (if ev_netid env fd = None then Some (xprt, s)
             else map_option (Pair (xprt\<lparr>xp_netid := ev_netid env fd\<rparr>)) (alloc 1 s)) of
         None \<Rightarrow> out s
       | Some (xprt, s) \<Rightarrow>
           run_bind (xprt_register p (s\<lparr>svc_mem := (svc_mem s)(p \<mapsto> xprt)\<rparr>)) (\<lambda>(ok, s).
             if ok then Ret (Some p, s) else out s)))"

definition vc_frees :: "vc_private svcxprt \<Rightarrow> nat" where
  "vc_frees x = 2 + (if xp_rtaddr x = None then 0 else 1) + (if xp_ltaddr x = None then 0 else 1) +
     (if xp_tp x = None then 0 else 1) + (if xp_netid x = None then 0 else 1)"

definition svc_vc_dodestroy :: "nat \<Rightarrow> vc_server \<Rightarrow> vc_server run" where
  "svc_vc_dodestroy p s =
     (case svc_mem s p of None \<Rightarrow> Fault
      | Some x \<Rightarrow>
          Ret (s\<lparr>svc_closed := (if xp_fd x = - 1 then [] else [xp_fd x]) @ svc_closed s,
                 svc_heap := svc_heap s + vc_frees x, svc_mem := (svc_mem s)(p := None)\<rparr>))"

definition svc_vc_destroy :: "nat \<Rightarrow> vc_server \<Rightarrow> vc_server run" where
  "svc_vc_destroy p s = run_bind (xprt_unregister p s) (svc_vc_dodestroy p)"

section \<open>Idle connections\<close>

definition timersub :: "timeval \<Rightarrow> timeval \<Rightarrow> timeval" where
  "timersub a b =
     (if tv_usec a - tv_usec b < 0
      then \<lparr>tv_sec = tv_sec a - tv_sec b - 1, tv_usec = tv_usec a - tv_usec b + 1000000\<rparr>
      else \<lparr>tv_sec = tv_sec a - tv_sec b, tv_usec = tv_usec a - tv_usec b\<rparr>)"

definition timer_gt :: "timeval \<Rightarrow> timeval \<Rightarrow> bool" where
  "timer_gt a b = (if tv_sec a = tv_sec b then tv_usec a > tv_usec b else tv_sec a > tv_sec b)"

text \<open>
  The walk over the descriptors \<open>i, i + 1, \<dots>\<close>, at most \<open>fuel\<close> of them; \<open>*fdmax\<close> is read again at every
  round, since unregistering lowers it. The state is returned with the least active connection and
  the number of connections destroyed.
\<close>

definition clean_conn ::
  "timeval \<Rightarrow> int \<Rightarrow> nat \<Rightarrow> cf_conn \<Rightarrow> (nat option \<times> timeval \<times> nat) \<Rightarrow> vc_server \<Rightarrow>
     ((nat option \<times> timeval \<times> nat) \<times> vc_server) run" where
  "clean_conn tv timeout p cd acc s =
     (case acc of (least, tmax, ncleaned) \<Rightarrow>
      if timeout = 0 then
        (let tdiff = timersub tv (last_recv_time cd) in
         Ret (if timer_gt tdiff tmax then ((Some p, tdiff, ncleaned), s) else (acc, s)))
      else if tv_sec tv - tv_sec (last_recv_time cd) > timeout
      then run_bind (xprt_unregister_unlocked p s) (\<lambda>s.
             run_bind (svc_vc_dodestroy p s) (\<lambda>s. Ret ((least, tmax, ncleaned + 1), s)))
      else Ret (acc, s))"

definition clean_one ::
  "timeval \<Rightarrow> int \<Rightarrow> bool \<Rightarrow> int \<Rightarrow> (nat option \<times> timeval \<times> nat) \<Rightarrow> vc_server \<Rightarrow>
     ((nat option \<times> timeval \<times> nat) \<times> vc_server) run" where
  "clean_one tv timeout cleanblock i acc s =
     run_bind (of_option (svc_fdset_isset i (svc_fds s))) (\<lambda>(r, fds).
       let s = s\<lparr>svc_fds := fds\<rparr> in
       if r = 0 \<or> r = - 1 then Ret (acc, s)
       else run_bind (tab_get i s) (\<lambda>e. case e of None \<Rightarrow> Ret (acc, s)
         | Some p \<Rightarrow>
             (case svc_mem s p of None \<Rightarrow> Fault
              | Some x \<Rightarrow>
                  (case xp_p1 x of Rendezvous _ \<Rightarrow> Ret (acc, s)
                   | Conn cd \<Rightarrow>
                       if \<not> cleanblock \<and> \<not> cf_nonblock cd then Ret (acc, s)
                       else clean_conn tv timeout p cd acc s))))"

fun clean_loop ::
  "nat \<Rightarrow> timeval \<Rightarrow> int \<Rightarrow> bool \<Rightarrow> int \<Rightarrow> (nat option \<times> timeval \<times> nat) \<Rightarrow> vc_server \<Rightarrow>
     ((nat option \<times> timeval \<times> nat) \<times> vc_server) run" where
  "clean_loop 0 tv timeout cleanblock i acc s = Out_of_fuel"
| "clean_loop (Suc fuel) tv timeout cleanblock i acc s =
     (if i > fdmax (svc_fds s) then Ret (acc, s)
      else run_bind (clean_one tv timeout cleanblock i acc s) (\<lambda>(acc, s).
        clean_loop fuel tv timeout cleanblock (i + 1) acc s))"

definition svc_clean_idle :: "timeval \<Rightarrow> int \<Rightarrow> bool \<Rightarrow> vc_server \<Rightarrow> (bool \<times> vc_server) run" where
  "svc_clean_idle tv timeout cleanblock s =
     (let s = s\<lparr>svc_fd_locked := True\<rparr> in
      run_bind (of_option (svc_fdset_getmax (svc_fds s))) (\<lambda>fds.
        let s = s\<lparr>svc_fds := fds\<rparr> in
        run_bind (clean_loop (nat (fdmax fds + 2)) tv timeout cleanblock 0
                    (None, \<lparr>tv_sec = 0, tv_usec = 0\<rparr>, 0) s) (\<lambda>((least, tmax, ncleaned), s).
          run_bind
            (case least of
               Some p \<Rightarrow> if timeout = 0
                 then run_bind (xprt_unregister_unlocked p s) (\<lambda>s.
                        run_bind (svc_vc_dodestroy p s) (\<lambda>s. Ret (ncleaned + 1, s)))
                 else Ret (ncleaned, s)
             | None \<Rightarrow> Ret (ncleaned, s))
            (\<lambda>(ncleaned, s). Ret (0 < ncleaned, s\<lparr>svc_fd_locked := False\<rparr>)))))"

section \<open>The rendezvouser\<close>

text \<open>
  The flag of \<open>Accepted\<close> is whether the socket can be set to non-blocking. \<open>fuel\<close> bounds how often the
  code goes back to \<open>again\<close>.
\<close>

definition rendezvous_accepted ::
  "vc_env \<Rightarrow> cf_rendezvous \<Rightarrow> int \<Rightarrow> byte list \<Rightarrow> bool \<Rightarrow> vc_server \<Rightarrow> (bool \<times> vc_server) run" where
  "rendezvous_accepted env r sock addr ioctl s =
     (let out = (\<lambda>s. Ret (False, s\<lparr>svc_closed := sock # svc_closed s\<rparr>)) in
      run_bind (makefd_xprt env sock (rz_sendsize r) (rz_recvsize r) s) (\<lambda>(newxprt, s).
        case newxprt of None \<Rightarrow> out s
        | Some q \<Rightarrow>
            (case alloc 1 s of None \<Rightarrow> out s
             | Some s \<Rightarrow>
             case svc_mem s q of None \<Rightarrow> Fault
             | Some x \<Rightarrow>
             (case xp_p1 x of Rendezvous _ \<Rightarrow> Fault
              | Conn cd \<Rightarrow>
                  let store = (\<lambda>cd. s\<lparr>svc_mem := (svc_mem s)(q \<mapsto> x\<lparr>xp_rtaddr := Some addr, xp_p1 := Conn cd\<rparr>)\<rparr>);
                      cd = cd\<lparr>cf_recvsize := rz_recvsize r, cf_sendsize := rz_sendsize r, cf_maxrec := rz_maxrec r\<rparr> in
                  if cf_maxrec cd \<noteq> 0 then
                    if \<not> ioctl then out (store cd)
                    else let cd = (if cf_recvsize cd > of_int (cf_maxrec cd) then cd\<lparr>cf_recvsize := of_int (cf_maxrec cd)\<rparr> else cd);
                             x = cf_xdrs cd;
                             cd = cd\<lparr>cf_nonblock := True,
                                     cf_xdrs := x\<lparr>x_private := snd (xdrrec_setnonblock (cf_maxrec cd) (x_private x))\<rparr>\<rparr>
                      in Ret (False, store (cd\<lparr>last_recv_time := ev_now env s\<rparr>))
                  else Ret (False, store (cd\<lparr>cf_nonblock := False, last_recv_time := ev_now env s\<rparr>))))))"

fun rendezvous_request :: "nat \<Rightarrow> nat \<Rightarrow> vc_env \<Rightarrow> cf_rendezvous \<Rightarrow> vc_server \<Rightarrow> (bool \<times> vc_server) run" where
  "rendezvous_request 0 k env r s = Out_of_fuel"
| "rendezvous_request (Suc fuel) k env r s =
     (case ev_accept env k s of
        Accepted sock addr ioctl \<Rightarrow> rendezvous_accepted env r sock addr ioctl s
      | Interrupted \<Rightarrow> rendezvous_request fuel (k + 1) env r s
      | Out_of_descriptors \<Rightarrow>
          run_bind (svc_clean_idle (ev_now env s) 0 False s) (\<lambda>(cleaned, s).
            if cleaned then rendezvous_request fuel (k + 1) env r s else Ret (False, s))
      | Accept_error \<Rightarrow> Ret (False, s))"

definition rendezvous_stat :: "xprt_stat" where
  "rendezvous_stat = XPRT_IDLE"

text \<open>
  \<open>si\<close> is whether the socket has a known kind with the two buffer sizes \<open>__rpc_get_t_size\<close> finds,
  \<open>addr\<close> the answer of \<open>getsockname\<close>.
\<close>

definition svc_vc_create ::
  "vc_env \<Rightarrow> (u32 \<times> u32) option \<Rightarrow> byte list option \<Rightarrow> int \<Rightarrow> vc_server \<Rightarrow> (nat option \<times> vc_server) run" where
  "svc_vc_create env si addr fd s =
     (case si of None \<Rightarrow> Ret (None, s)
      | Some (sendsz, recvsz) \<Rightarrow>
      let p = ev_fresh env s; r = \<lparr>rz_sendsize = sendsz, rz_recvsize = recvsz, rz_maxrec = svc_maxrec s\<rparr> in
      case alloc 1 s of None \<Rightarrow> Ret (None, s)
      | Some s \<Rightarrow>
      case alloc 1 s of None \<Rightarrow> Ret (None, s\<lparr>svc_heap := svc_heap s + 1\<rparr>)
      | Some s \<Rightarrow>
      let cleanup = (\<lambda>s. Ret (None, s\<lparr>svc_heap := svc_heap s + 2, svc_mem := (svc_mem s)(p := None)\<rparr>)) in
      case addr of None \<Rightarrow> cleanup s
      | Some a \<Rightarrow>
      case alloc 1 s of None \<Rightarrow> cleanup s
      | Some s \<Rightarrow>
          run_bind (xprt_register p (s\<lparr>svc_mem := (svc_mem s)(p \<mapsto>
            (new_xprt fd 0xFFFF None (Rendezvous r))\<lparr>xp_ltaddr := addr\<rparr>)\<rparr>)) (\<lambda>(ok, s).
            if ok then Ret (Some p, s) else cleanup s))"

text \<open>\<open>local\<close> and \<open>peer\<close> are the answers of \<open>getsockname\<close> and \<open>getpeername\<close>.\<close>

definition svc_fd_create ::
  "vc_env \<Rightarrow> byte list option \<Rightarrow> byte list option \<Rightarrow> int \<Rightarrow> u32 \<Rightarrow> u32 \<Rightarrow> vc_server \<Rightarrow> (nat option \<times> vc_server) run" where
  "svc_fd_create env loc peer fd sendsz recvsz s =
     run_bind (makefd_xprt env fd sendsz recvsz s) (\<lambda>(ret, s).
       case ret of None \<Rightarrow> Ret (None, s)
       | Some q \<Rightarrow>
       case svc_mem s q of None \<Rightarrow> Fault
       | Some x \<Rightarrow>
       case loc of None \<Rightarrow> Ret (None, s)
       | Some _ \<Rightarrow>
       case alloc 1 s of None \<Rightarrow> Ret (None, s)
       | Some s \<Rightarrow>
       let x = x\<lparr>xp_ltaddr := loc\<rparr>; s = s\<lparr>svc_mem := (svc_mem s)(q \<mapsto> x)\<rparr>;
           freedata = (\<lambda>s. Ret (None, s\<lparr>svc_heap := svc_heap s + 1\<rparr>)) in
       case peer of None \<Rightarrow> freedata s
       | Some _ \<Rightarrow>
       case alloc 1 s of None \<Rightarrow> freedata s
       | Some s \<Rightarrow> Ret (Some q, s\<lparr>svc_mem := (svc_mem s)(q \<mapsto> x\<lparr>xp_rtaddr := peer\<rparr>)\<rparr>))"

section \<open>The operations vectors\<close>

definition vc_recv ::
  "nat \<Rightarrow> vc_env \<Rightarrow> nat \<Rightarrow> (rec_strm, 'r) rpc_msg \<Rightarrow> vc_server \<Rightarrow> (bool \<times> (rec_strm, 'r) rpc_msg \<times> vc_server) run" where
  "vc_recv fuel env p msg s =
     (case svc_mem s p of None \<Rightarrow> Fault
      | Some x \<Rightarrow>
          (case xp_p1 x of
             Rendezvous r \<Rightarrow> run_bind (rendezvous_request fuel 0 env r s) (\<lambda>(ok, s). Ret (ok, msg, s))
           | Conn cd \<Rightarrow>
               (case svc_vc_recv (ev_now env s) cd msg of (ok, msg, cd) \<Rightarrow>
                  Ret (ok, msg, s\<lparr>svc_mem := (svc_mem s)(p \<mapsto> x\<lparr>xp_p1 := Conn cd\<rparr>)\<rparr>))))"

text \<open>
  \<open>svc_vc_ops\<close> and \<open>svc_vc_rendezvous_ops\<close> in one vector, told apart by the private data. \<open>now\<close> is the
  time at which the stream is used. A reply on a rendezvouser is \<open>abort\<close>, a \<open>Fault\<close> here; it never is asked
  for one, since \<open>rendezvous_request\<close> never returns \<open>TRUE\<close>.
\<close>

definition svc_vc_ops :: "nat \<Rightarrow> vc_env \<Rightarrow> timeval \<Rightarrow> (vc_private, rec_strm, 'r) xp_ops" where
  "svc_vc_ops fuel env now =
     \<lparr>xp_recv = vc_recv fuel env,
      xp_stat = (\<lambda>t. case t of Rendezvous r \<Rightarrow> (rendezvous_stat, t)
        | Conn cd \<Rightarrow> (case svc_vc_stat now cd of (st, cd) \<Rightarrow> (st, Conn cd))),
      xp_reply = (\<lambda>x msg. case xp_p1 x of Rendezvous r \<Rightarrow> Fault
        | Conn cd \<Rightarrow> (case svc_vc_reply now cd msg of (ok, cd) \<Rightarrow> Ret (ok, Conn cd))),
      xp_destroy = svc_vc_destroy\<rparr>"

section \<open>Refinement of the reader\<close>

text \<open>\<open>read_vc\<close> on the events of the socket is \<open>readit\<close> on the chunks of the record stream.\<close>

lemma read_vc_readit:
  "case read_vc nb n es of (r, es') \<Rightarrow> readit n (vc_chunks nb es) = (r, vc_chunks nb es')"
  by (induction nb n es rule: read_vc.induct) auto

text \<open>\<open>write_vc\<close> writes everything or reports the failure; on a blocking connection that is no failure of
  \<open>write\<close>, it writes everything once the connection has taken as many bytes.\<close>

lemma write_vc_all:
  assumes "\<forall>e \<in> set es. \<exists>i. e = Wrote i" and "len \<le> sum_list (map (\<lambda>e. case e of Wrote i \<Rightarrow> i | _ \<Rightarrow> 0) es)"
  shows "write_vc nb tv0 es len = Some True"
  using assms by (induction nb tv0 es len rule: write_vc.induct) auto

section \<open>The contract of the transport\<close>

lemma heap_keeps: "svc_ok s \<Longrightarrow> keeps keep s (s\<lparr>svc_heap := n\<rparr>)"
  by (intro keeps_cong) simp_all

lemma closed_keeps: "svc_ok s \<Longrightarrow> keeps keep s (s\<lparr>svc_closed := c\<rparr>)"
  by (intro keeps_cong) simp_all

lemma keepsD: "keeps keep s s' \<Longrightarrow> svc_ok s'"
  by (simp add: keeps_def)

lemma dodestroy_keeps:
  assumes "svc_ok s" and "svc_mem s p = Some x" and "Some p \<notin> set (tab_of s)" and "p \<notin> keep"
  obtains s' where "svc_vc_dodestroy p s = Ret s'" and "keeps keep s s'" and "tab_of s' = tab_of s"
    and "svc_mem s' = (svc_mem s)(p := None)" and "svc_fds s' = svc_fds s" and "svc_head s' = svc_head s"
proof -
  let ?s1 = "s\<lparr>svc_mem := (svc_mem s)(p := None)\<rparr>"
  let ?c = "(if xp_fd x = - 1 then [] else [xp_fd x]) @ svc_closed s"
  let ?s2 = "s\<lparr>svc_closed := ?c, svc_heap := svc_heap s + vc_frees x, svc_mem := (svc_mem s)(p := None)\<rparr>"
  have "svc_step keep s ?s1" using assms(3,4) by (intro svc_step.free)
  then have k: "keeps keep s ?s1" by (rule svc_step_keeps) (rule assms(1))
  have "keeps keep ?s1 ?s2"
    by (rule keeps_cong) (use keepsD [OF k] in simp_all)
  with k have "keeps keep s ?s2" by (rule keeps_trans)
  then show thesis
    using assms(2) by (intro that [of ?s2]) (simp_all add: svc_vc_dodestroy_def tab_of_def)
qed

lemma svc_vc_destroy_keeps:
  assumes "svc_ok s" and "svc_mem s p = Some x"
  shows "run_keeps {} s id (svc_vc_destroy p s)"
proof -
  have inv: "svc_inv s" using assms(1) by (simp add: svc_ok_def)
  obtain s1 where s1: "xprt_unregister p s = Ret s1" "Some p \<notin> set (tab_of s1)" "svc_mem s1 = svc_mem s"
    using xprt_unregister_spec [OF inv assms(2) svc_ok_mem [OF assms]] by metis
  have "svc_step {} s s1" using assms(2) s1(1) by (rule svc_step.unregister)
  then have k: "keeps {} s s1" by (rule svc_step_keeps) (rule assms(1))
  obtain s2 where "svc_vc_dodestroy p s1 = Ret s2" "keeps {} s1 s2"
    by (rule dodestroy_keeps [OF keepsD [OF k], of p x "{}"]) (use s1 assms(2) in simp_all)
  with s1(1) keeps_trans [OF k] show ?thesis by (simp add: svc_vc_destroy_def)
qed

text \<open>The operations under the lock, which \<open>svc_clean_idle\<close> uses, are those without it.\<close>

abbreviation locked :: "'t svc \<Rightarrow> 't svc" where
  "locked s \<equiv> s\<lparr>svc_fd_locked := True\<rparr>"

lemma unregister_unlocked:
  assumes "xprt_unregister p s = Ret s'"
  shows "xprt_unregister_unlocked p (locked s) = Ret (locked s')"
proof -
  have "xprt_unregister_unlocked p (locked s) = run_bind (xprt_unregister p s) (\<lambda>s. Ret (locked s))"
  proof (cases "svc_mem s p")
    case (Some x)
    show ?thesis
    proof (cases "svc_xports s")
      case None
      with Some show ?thesis
        by (simp add: xprt_unregister_def xprt_unregister_unlocked_def xprt_do_unregister_def tab_get_def Let_def)
    next
      case tab: (Some tab)
      show ?thesis
      proof (cases "svc_fdset_getmax (svc_fds s)")
        case None
        with Some tab show ?thesis
          by (simp add: xprt_unregister_def xprt_unregister_unlocked_def xprt_do_unregister_def tab_get_def tab_put_def Let_def)
      next
        case fds: (Some fds)
        with Some tab show ?thesis
          by (simp add: xprt_unregister_def xprt_unregister_unlocked_def xprt_do_unregister_def tab_get_def tab_put_def
              of_option_def Let_def split: option.split)
      qed
    qed
  qed (simp add: xprt_unregister_def xprt_unregister_unlocked_def xprt_do_unregister_def)
  with assms show ?thesis by simp
qed

lemma dodestroy_locked:
  assumes "svc_vc_dodestroy p s = Ret s'"
  shows "svc_vc_dodestroy p (locked s) = Ret (locked s')"
  using assms by (auto simp: svc_vc_dodestroy_def split: option.splits)

section \<open>Idle connections: what is destroyed\<close>

definition entry :: "int \<Rightarrow> vc_server \<Rightarrow> nat option" where
  "entry i s = (if 0 \<le> i \<and> i + 1 < int (length (tab_of s)) then tab_of s ! nat (i + 1) else None)"

text \<open>The connection at a descriptor that \<open>svc_clean_idle\<close> looks at, and whether it has been idle for too long.\<close>

definition candidate :: "bool \<Rightarrow> int \<Rightarrow> vc_server \<Rightarrow> (nat \<times> cf_conn) option" where
  "candidate cleanblock i s =
     (case entry i s of None \<Rightarrow> None
      | Some p \<Rightarrow> (case svc_mem s p of None \<Rightarrow> None
        | Some x \<Rightarrow> (case xp_p1 x of Rendezvous _ \<Rightarrow> None
          | Conn cd \<Rightarrow> if cleanblock \<or> cf_nonblock cd then Some (p, cd) else None)))"

lemma entry_mem:
  assumes "svc_ok s" and "entry i s = Some p"
  obtains x where "svc_mem s p = Some x" and "xp_fd x = i" and "0 \<le> i" and "i + 1 < int (length (tab_of s))"
    and "tab_of s ! nat (i + 1) = Some p"
proof -
  have i: "0 \<le> i" "i + 1 < int (length (tab_of s))" "tab_of s ! nat (i + 1) = Some p"
    using assms(2) by (auto simp: entry_def split: if_splits)
  then have "nat (i + 1) < length (tab_of s)" by simp
  with assms(1) i(3) obtain x where "svc_mem s p = Some x" "xp_fd x = int (nat (i + 1)) - 1"
    by (force simp: svc_ok_def svc_inv_def)
  with i show thesis by (intro that [of x]) simp_all
qed

lemma candidate_Some:
  assumes "candidate cleanblock i s = Some (p, cd)"
  obtains x where "entry i s = Some p" and "svc_mem s p = Some x" and "xp_p1 x = Conn cd" and "cleanblock \<or> cf_nonblock cd"
  using assms by (auto simp: candidate_def split: option.splits vc_private.splits if_splits)

lemma isset_entry:
  assumes "svc_ok s"
  obtains f where "svc_fdset_isset i (svc_fds s) = Some (if entry i s = None then 0 else 1, f)"
    and "svc_ok (s\<lparr>svc_fds := f\<rparr>)" and "fdmax f = fdmax (svc_fds s)" and "fds_of f = fds_of (svc_fds s)"
proof -
  have ready: "fdset_ready (svc_fds s)" using assms by (simp add: svc_ok_def svc_inv_def)
  let ?f = "svc_fdset_alloc i (svc_fds s)"
  note f = svc_fdset_alloc_ready [OF ready, of i]
  obtain l where l: "fd_set ?f = Some l" using f(4) by auto
  have "i \<in> set l \<longleftrightarrow> i \<in> tab_fds (tab_of s)"
    using f(2) l assms by (simp add: fds_of_def svc_ok_def svc_inv_def)
  then have "svc_fdset_isset i (svc_fds s) = Some (if entry i s = None then 0 else 1, ?f)"
    by (simp add: svc_fdset_isset_def l FD_ISSET_def Let_def entry_def tab_fds_def)
  moreover have "svc_ok (s\<lparr>svc_fds := ?f\<rparr>)"
    using assms f by (simp add: svc_ok_def svc_inv_def tab_of_def)
  ultimately show thesis using f(2,3) that by blast
qed

lemma clean_one_spec:
  assumes "svc_ok s"
  shows "\<exists>s'. svc_ok s' \<and> fdmax (svc_fds s') \<le> fdmax (svc_fds s) \<and> svc_head s' = svc_head s \<and>
    clean_one tv timeout cleanblock i (l, tm, n) (locked s) =
      Ret (case candidate cleanblock i s of None \<Rightarrow> (l, tm, n)
        | Some (p, cd) \<Rightarrow>
            if timeout = 0 then let d = timersub tv (last_recv_time cd) in if timer_gt d tm then (Some p, d, n) else (l, tm, n)
            else (l, tm, if timeout < tv_sec tv - tv_sec (last_recv_time cd) then n + 1 else n), locked s') \<and>
    (case candidate cleanblock i s of
       Some (p, cd) \<Rightarrow> if timeout \<noteq> 0 \<and> timeout < tv_sec tv - tv_sec (last_recv_time cd)
         then tab_of s' = (tab_of s)[nat (i + 1) := None] \<and> svc_mem s' = (svc_mem s)(p := None)
         else tab_of s' = tab_of s \<and> svc_mem s' = svc_mem s
     | None \<Rightarrow> tab_of s' = tab_of s \<and> svc_mem s' = svc_mem s)"
proof -
  obtain f where f: "svc_fdset_isset i (svc_fds s) = Some (if entry i s = None then 0 else 1, f)"
    "svc_ok (s\<lparr>svc_fds := f\<rparr>)" "fdmax f = fdmax (svc_fds s)"
    by (rule isset_entry [OF assms])
  let ?s = "s\<lparr>svc_fds := f\<rparr>"
  have tab: "tab_of ?s = tab_of s" by (simp add: tab_of_def)
  have lock: "(locked s)\<lparr>svc_fds := f\<rparr> = locked ?s" by simp
  show ?thesis
  proof (cases "entry i s")
    case None
    then have "candidate cleanblock i s = None" by (simp add: candidate_def)
    with None f tab show ?thesis by (intro exI [of _ ?s]) (simp add: clean_one_def)
  next
    case (Some p)
    from entry_mem [OF assms this] obtain x where x: "svc_mem s p = Some x" "xp_fd x = i" "0 \<le> i"
      "i + 1 < int (length (tab_of s))" "tab_of s ! nat (i + 1) = Some p" by blast
    have get: "tab_get i (locked ?s) = Ret (Some p)"
      using tab_get_in [of i "locked ?s"] x(3-5) by (simp add: tab_of_def)
    show ?thesis
    proof (cases "candidate cleanblock i s")
      case None
      have "clean_one tv timeout cleanblock i (l, tm, n) (locked s) = Ret ((l, tm, n), locked ?s)"
        using None Some f(1) x(1) get
        by (auto simp: clean_one_def lock candidate_def split: vc_private.splits if_splits)
      with None f tab show ?thesis by (intro exI [of _ ?s]) simp
    next
      case cand: (Some c)
      obtain cd where cd: "c = (p, cd)" "xp_p1 x = Conn cd" "cleanblock \<or> cf_nonblock cd"
        using cand Some x(1) by (auto simp: candidate_def split: vc_private.splits if_splits)
      have run: "clean_one tv timeout cleanblock i (l, tm, n) (locked s) = clean_conn tv timeout p cd (l, tm, n) (locked ?s)"
        using Some f(1) x(1) get cd(2,3) by (auto simp: clean_one_def lock)
      show ?thesis
      proof (cases "timeout \<noteq> 0 \<and> timeout < tv_sec tv - tv_sec (last_recv_time cd)")
        case False
        have "clean_conn tv timeout p cd (l, tm, n) (locked ?s) = Ret (if timeout = 0
            then let d = timersub tv (last_recv_time cd) in if timer_gt d tm then (Some p, d, n) else (l, tm, n)
            else (l, tm, n), locked ?s)"
          using False by (auto simp: clean_conn_def Let_def)
        with False run cand cd(1) f tab show ?thesis by (intro exI [of _ ?s]) (auto simp: Let_def)
      next
        case True
        have inv: "svc_inv ?s" using f(2) by (simp add: svc_ok_def)
        have mem: "svc_mem ?s p = Some x" "Some p \<in> set (tab_of ?s)"
          using x tab nth_mem [of "nat (i + 1)" "tab_of s"] by auto
        have fd0: "0 \<le> xp_fd x" using x by simp
        obtain s1 where s1: "xprt_unregister p ?s = Ret s1" "svc_inv s1" "Some p \<notin> set (tab_of s1)"
          "svc_mem s1 = svc_mem ?s" "svc_head s1 = svc_head ?s" "tab_of s1 = (tab_of ?s)[nat (xp_fd x + 1) := None]"
          "fdmax (svc_fds s1) \<le> fdmax (svc_fds ?s)"
          using xprt_unregister_spec [OF inv mem(1) fd0] mem(2) by metis
        have ok1: "svc_ok s1" using s1(2,4) f(2) by (simp add: svc_ok_def)
        have mem1: "svc_mem s1 p = Some x" using s1(4) mem(1) by simp
        obtain s2 where s2: "svc_vc_dodestroy p s1 = Ret s2" "keeps {} s1 s2" "tab_of s2 = tab_of s1"
          "svc_mem s2 = (svc_mem s1)(p := None)" "svc_fds s2 = svc_fds s1" "svc_head s2 = svc_head s1"
          by (rule dodestroy_keeps [OF ok1 mem1 s1(3), of "{}"]) simp_all
        have "clean_conn tv timeout p cd (l, tm, n) (locked ?s) = Ret ((l, tm, n + 1), locked s2)"
          using True unregister_unlocked [OF s1(1)] dodestroy_locked [OF s2(1)] by (simp add: clean_conn_def)
        with True run cand cd(1) f(3) s1 s2 keepsD [OF s2(2)] x(2) tab show ?thesis
          by (intro exI [of _ s2]) auto
      qed
    qed
  qed
qed

definition idle :: "timeval \<Rightarrow> int \<Rightarrow> bool \<Rightarrow> int \<Rightarrow> vc_server \<Rightarrow> bool" where
  "idle tv timeout cleanblock i s =
     (case candidate cleanblock i s of None \<Rightarrow> False
      | Some (p, cd) \<Rightarrow> timeout < tv_sec tv - tv_sec (last_recv_time cd))"

lemma entry_cong: "tab_of s' = tab_of s \<Longrightarrow> entry i s' = entry i s"
  by (simp add: entry_def)

lemma candidate_cong:
  assumes "tab_of s' = tab_of s" and "svc_mem s' = svc_mem s"
  shows "candidate cleanblock i s' = candidate cleanblock i s"
  unfolding candidate_def entry_def assms by (rule refl)

lemma entry_update:
  assumes "tab_of s' = (tab_of s)[nat (i + 1) := None]" and "0 \<le> i"
  shows "entry j s' = (if j = i then None else entry j s)"
proof -
  have "nat (j + 1) = nat (i + 1) \<longleftrightarrow> j = i" if "0 \<le> j" using that assms(2) by auto
  then show ?thesis using assms by (auto simp: entry_def nth_list_update)
qed

lemma entry_inj:
  assumes "svc_ok s" and "entry i s = Some p" and "entry j s = Some p"
  shows "i = j"
proof -
  obtain x where "svc_mem s p = Some x" "xp_fd x = i" by (rule entry_mem [OF assms(1,2)])
  moreover obtain y where "svc_mem s p = Some y" "xp_fd y = j" by (rule entry_mem [OF assms(1,3)])
  ultimately show ?thesis by simp
qed

lemma candidate_update:
  assumes "svc_ok s" and "tab_of s' = (tab_of s)[nat (i + 1) := None]" and "0 \<le> i" and "entry i s = Some p"
    and "svc_mem s' = (svc_mem s)(p := None)"
  shows "candidate cleanblock j s' = (if j = i then None else candidate cleanblock j s)"
  using entry_inj [OF assms(1,4), of j]
  by (auto simp: candidate_def entry_update [OF assms(2,3)] assms(5) split: option.split)

lemma entry_le_fdmax:
  assumes "svc_ok s" and "entry i s = Some p"
  shows "i \<le> fdmax (svc_fds s)"
proof -
  have "i \<in> tab_fds (tab_of s)"
    using assms(2) by (auto simp: entry_def tab_fds_def split: if_splits)
  then have "i \<in> fds_of (svc_fds s)" "fdset_ready (svc_fds s)"
    using assms(1) by (simp_all add: svc_ok_def svc_inv_def)
  then show ?thesis by (auto simp: fdset_ready_def fdset_ok_def fds_of_def)
qed

lemma candidate_None_above: "svc_ok s \<Longrightarrow> fdmax (svc_fds s) < i \<Longrightarrow> candidate cleanblock i s = None"
  using entry_le_fdmax by (cases "entry i s") (force simp: candidate_def)+

lemma candidate_entry: "candidate cleanblock i s = Some (p, cd) \<Longrightarrow> entry i s = Some p"
  by (auto elim: candidate_Some)

text \<open>With a positive or negative timeout, the walk destroys the idle connections from \<open>i\<close> on.\<close>

lemma clean_loop_idle:
  assumes "svc_ok s" and "0 \<le> i" and "timeout \<noteq> 0" and "fdmax (svc_fds s) + 1 < i + int fuel" and "0 < fuel"
  shows "\<exists>s' n'. clean_loop fuel tv timeout cleanblock i (l, tm, n) (locked s) = Ret ((l, tm, n'), locked s') \<and> svc_ok s' \<and>
    (\<forall>j. entry j s' = (if i \<le> j \<and> idle tv timeout cleanblock j s then None else entry j s)) \<and>
    (\<forall>p. svc_mem s' p = (if \<exists>j. i \<le> j \<and> idle tv timeout cleanblock j s \<and> entry j s = Some p then None else svc_mem s p)) \<and>
    n \<le> n' \<and> (n < n' \<longleftrightarrow> (\<exists>j. i \<le> j \<and> idle tv timeout cleanblock j s)) \<and> svc_head s' = svc_head s"
  using assms(1,2,4,5)
proof (induction fuel arbitrary: s i n)
  case 0
  then show ?case by simp
next
  case (Suc fuel)
  show ?case
  proof (cases "i > fdmax (svc_fds s)")
    case True
    have "\<not> idle tv timeout cleanblock j s" if "i \<le> j" for j
      using candidate_None_above [OF Suc.prems(1), of j cleanblock] True that by (simp add: idle_def)
    with True Suc.prems(1) show ?thesis by (intro exI [of _ s] exI [of _ n]) auto
  next
    case False
    let ?c = "candidate cleanblock i s"
    from clean_one_spec [OF Suc.prems(1), of tv timeout cleanblock i l tm n] obtain s1 where
      s1: "svc_ok s1" "fdmax (svc_fds s1) \<le> fdmax (svc_fds s)" "svc_head s1 = svc_head s" and
      run: "clean_one tv timeout cleanblock i (l, tm, n) (locked s) =
        Ret ((l, tm, if idle tv timeout cleanblock i s then n + 1 else n), locked s1)" and
      eff: "if idle tv timeout cleanblock i s
        then tab_of s1 = (tab_of s)[nat (i + 1) := None] \<and> (\<forall>p. entry i s = Some p \<longrightarrow> svc_mem s1 = (svc_mem s)(p := None))
        else tab_of s1 = tab_of s \<and> svc_mem s1 = svc_mem s"
      using assms(3) candidate_entry [of cleanblock i s] by (cases ?c) (auto simp: idle_def split: if_splits)
    let ?n = "if idle tv timeout cleanblock i s then n + 1 else n"
    have "0 \<le> i + 1" "fdmax (svc_fds s1) + 1 < i + 1 + int fuel" "0 < fuel"
      using Suc.prems(2,3) s1(2) False by simp_all
    from Suc.IH [OF s1(1) this, of ?n] obtain s' n' where
      s': "clean_loop fuel tv timeout cleanblock (i + 1) (l, tm, ?n) (locked s1) = Ret ((l, tm, n'), locked s')" "svc_ok s'"
        "\<forall>j. entry j s' = (if i + 1 \<le> j \<and> idle tv timeout cleanblock j s1 then None else entry j s1)"
        "\<forall>p. svc_mem s' p = (if \<exists>j. i + 1 \<le> j \<and> idle tv timeout cleanblock j s1 \<and> entry j s1 = Some p then None else svc_mem s1 p)"
        "?n \<le> n'" "?n < n' \<longleftrightarrow> (\<exists>j. i + 1 \<le> j \<and> idle tv timeout cleanblock j s1)" "svc_head s' = svc_head s1"
      by blast
    have go: "clean_loop (Suc fuel) tv timeout cleanblock i (l, tm, n) (locked s) = Ret ((l, tm, n'), locked s')"
      using False run s'(1) by simp
    have step: "i \<le> j \<longleftrightarrow> j = i \<or> i + 1 \<le> j" for j :: int by auto
    show ?thesis
    proof (cases "idle tv timeout cleanblock i s")
      case no: False
      then have "idle tv timeout cleanblock j s1 = idle tv timeout cleanblock j s" "entry j s1 = entry j s" for j
        using eff no by (simp_all add: idle_def candidate_cong [of s1 s] entry_cong [of s1 s])
      moreover have "i \<le> j \<and> idle tv timeout cleanblock j s \<longleftrightarrow> i + 1 \<le> j \<and> idle tv timeout cleanblock j s" for j
        using no step [of j] by auto
      then have "(\<exists>j. i \<le> j \<and> idle tv timeout cleanblock j s) \<longleftrightarrow> (\<exists>j. i + 1 \<le> j \<and> idle tv timeout cleanblock j s)"
        "(\<exists>j. i \<le> j \<and> idle tv timeout cleanblock j s \<and> P j) \<longleftrightarrow> (\<exists>j. i + 1 \<le> j \<and> idle tv timeout cleanblock j s \<and> P j)"
        "i \<le> j \<and> idle tv timeout cleanblock j s \<longleftrightarrow> i + 1 \<le> j \<and> idle tv timeout cleanblock j s" for P j
        by blast+
      ultimately show ?thesis
        using go s' no eff s1(3) by (intro exI [of _ s'] exI [of _ n']) (simp del: clean_loop.simps, blast)
    next
      case yes: True
      then obtain p where p: "entry i s = Some p"
        by (auto simp: idle_def split: option.splits dest: candidate_entry)
      have upd: "tab_of s1 = (tab_of s)[nat (i + 1) := None]" "svc_mem s1 = (svc_mem s)(p := None)"
        using eff yes p by auto
      have e1: "entry j s1 = (if j = i then None else entry j s)" for j
        by (rule entry_update [OF upd(1) Suc.prems(2)])
      have c1: "idle tv timeout cleanblock j s1 = (j \<noteq> i \<and> idle tv timeout cleanblock j s)" for j
        using candidate_update [OF Suc.prems(1) upd(1) Suc.prems(2) p upd(2), of cleanblock j] by (simp add: idle_def)
      have "n < n'" "n \<le> n'" using s'(5) yes by simp_all
      moreover have "entry j s' = (if i \<le> j \<and> idle tv timeout cleanblock j s then None else entry j s)" for j
        using s'(3) e1 c1 yes step by auto
      moreover have "svc_mem s' q = (if \<exists>j. i \<le> j \<and> idle tv timeout cleanblock j s \<and> entry j s = Some q then None else svc_mem s q)" for q
        using s'(4) e1 c1 yes step upd(2) p by auto
      ultimately show ?thesis
        using go s'(2,7) s1(3) yes by (intro exI [of _ s'] exI [of _ n']) auto
    qed
  qed
qed

lemma getmax_ok:
  assumes "svc_ok s"
  obtains f where "svc_fdset_getmax (svc_fds s) = Some f" and "svc_ok (s\<lparr>svc_fds := f\<rparr>)" and "- 1 \<le> fdmax f"
proof -
  let ?f = "svc_fdset_alloc 0 (svc_fds s)"
  have ready: "fdset_ready (svc_fds s)" using assms by (simp add: svc_ok_def svc_inv_def)
  note a = svc_fdset_alloc_ready [OF ready, of 0]
  obtain l where l: "fd_set ?f = Some l" using a(4) by auto
  have bounds: "\<forall>fd \<in> set l. 0 \<le> fd \<and> fd \<le> fdmax ?f" "- 1 \<le> fdmax ?f"
    using a(1) l by (auto simp: fdset_ready_def fdset_ok_def)
  let ?g = "?f\<lparr>fdmax := (if fdmax ?f < 0 then fdmax ?f else fdmax_of (set l))\<rparr>"
  have run: "svc_fdset_getmax (svc_fds s) = Some ?g"
    using svc_fdset_sanitize_spec [OF l bounds(1)] by (simp add: svc_fdset_getmax_def)
  have low: "- 1 \<le> fdmax ?g"
    using fdmax_of_lower [of "set l"] bounds by auto
  have upper: "fd \<le> fdmax ?g" if "fd \<in> set l" for fd
    using that fdmax_of_upper [of "set l"] bounds by force
  have same: "fds_of ?g = fds_of (svc_fds s)" using a(2) by (simp add: fds_of_def)
  have polls: "polled ?g = polled ?f" "poll_ok ?g = poll_ok ?f"
    using poll_ok_cong [of ?g ?f] by (simp_all add: polled_def)
  have "fdset_ready ?g"
    using a(1) l bounds low upper polls by (auto simp: fdset_ready_def fdset_ok_def)
  then have "svc_ok (s\<lparr>svc_fds := ?g\<rparr>)"
    using assms same a(4) by (simp add: svc_ok_def svc_inv_def tab_of_def)
  then show thesis using that run low by blast
qed

text \<open>
  C18: with a timeout that is not 0, \<open>__svc_clean_idle\<close> destroys exactly the connections that have
  received nothing for longer, blocking ones only when it is told to, leaves the rendezvousers and
  every other connection alone, reports whether it destroyed any, and leaves a consistent server.
\<close>

theorem svc_clean_idle_exact:
  assumes "svc_ok s" and "timeout \<noteq> 0"
  shows "\<exists>s'. svc_clean_idle tv timeout cleanblock s = Ret (\<exists>j. idle tv timeout cleanblock j s, s') \<and> svc_ok s' \<and>
    (\<forall>j. entry j s' = (if idle tv timeout cleanblock j s then None else entry j s)) \<and>
    (\<forall>p. svc_mem s' p = (if \<exists>j. idle tv timeout cleanblock j s \<and> entry j s = Some p then None else svc_mem s p)) \<and>
    svc_head s' = svc_head s"
proof -
  obtain f where f: "svc_fdset_getmax (svc_fds s) = Some f" "svc_ok (s\<lparr>svc_fds := f\<rparr>)" "- 1 \<le> fdmax f"
    by (rule getmax_ok [OF assms(1)])
  let ?s = "s\<lparr>svc_fds := f\<rparr>"
  have same: "tab_of ?s = tab_of s" "svc_mem ?s = svc_mem s" by (simp_all add: tab_of_def)
  have e: "entry j ?s = entry j s" "idle tv timeout cleanblock j ?s = idle tv timeout cleanblock j s" for j
    by (simp_all add: entry_cong [OF same(1)] idle_def candidate_cong [OF same])
  have pos: "0 \<le> j" if "idle tv timeout cleanblock j s" for j
    using that by (auto simp: idle_def candidate_def entry_def split: option.splits if_splits)
  have "fdmax (svc_fds ?s) + 1 < 0 + int (nat (fdmax f + 2))" "0 < nat (fdmax f + 2)" using f(3) by simp_all
  from clean_loop_idle [OF f(2) order_refl assms(2) this, of tv cleanblock None "\<lparr>tv_sec = 0, tv_usec = 0\<rparr>" 0]
  obtain s' n' where s': "clean_loop (nat (fdmax f + 2)) tv timeout cleanblock 0 (None, \<lparr>tv_sec = 0, tv_usec = 0\<rparr>, 0) (locked ?s)
      = Ret ((None, \<lparr>tv_sec = 0, tv_usec = 0\<rparr>, n'), locked s')" "svc_ok s'"
    "\<forall>j. entry j s' = (if 0 \<le> j \<and> idle tv timeout cleanblock j s then None else entry j s)"
    "\<forall>p. svc_mem s' p = (if \<exists>j. 0 \<le> j \<and> idle tv timeout cleanblock j s \<and> entry j s = Some p then None else svc_mem s p)"
    "0 < n' \<longleftrightarrow> (\<exists>j. 0 \<le> j \<and> idle tv timeout cleanblock j s)" "svc_head s' = svc_head s"
    unfolding e same by auto
  have unl: "\<not> svc_fd_locked s'" using s'(2) by (simp add: svc_ok_def svc_inv_def)
  then have unlock: "s'\<lparr>svc_fd_locked := False\<rparr> = s'" by simp
  have lock: "locked ?s = (locked s)\<lparr>svc_fds := f\<rparr>" by simp
  have "svc_clean_idle tv timeout cleanblock s = Ret (0 < n', s')"
    using f(1) s'(1) [unfolded lock] unlock by (simp add: svc_clean_idle_def Let_def)
  moreover have "0 < n' \<longleftrightarrow> (\<exists>j. idle tv timeout cleanblock j s)" using s'(5) pos by blast
  ultimately show ?thesis
    using s'(2-4,6) pos by (intro exI [of _ s']) (simp, blast)
qed

text \<open>With timeout 0 the walk changes nothing and finds the longest idle candidate.\<close>

lemma timer_gt_trans: "timer_gt a b \<Longrightarrow> timer_gt b c \<Longrightarrow> timer_gt a c"
  by (auto simp: timer_gt_def split: if_splits)

lemma timer_gt_linear: "\<not> timer_gt a b \<Longrightarrow> timer_gt a c \<Longrightarrow> timer_gt b c"
  by (auto simp: timer_gt_def split: if_splits)

lemma timer_gt_irrefl [simp]: "\<not> timer_gt a a"
  by (simp add: timer_gt_def)

lemma clean_loop_least:
  assumes "svc_ok s" and "fdmax (svc_fds s) + 1 < i + int fuel" and "0 < fuel"
  shows "\<exists>s' l' tm'. clean_loop fuel tv 0 cleanblock i (l, tm, n) (locked s) = Ret ((l', tm', n), locked s') \<and> svc_ok s' \<and>
    tab_of s' = tab_of s \<and> svc_mem s' = svc_mem s \<and> svc_head s' = svc_head s \<and>
    (\<forall>j p cd. i \<le> j \<and> candidate cleanblock j s = Some (p, cd) \<longrightarrow> \<not> timer_gt (timersub tv (last_recv_time cd)) tm') \<and>
    \<not> timer_gt tm tm' \<and>
    (l' = l \<and> tm' = tm \<or> (\<exists>j p cd. i \<le> j \<and> candidate cleanblock j s = Some (p, cd) \<and> l' = Some p \<and>
       tm' = timersub tv (last_recv_time cd) \<and> timer_gt tm' tm))"
  using assms
proof (induction fuel arbitrary: s i l tm)
  case 0
  then show ?case by simp
next
  case (Suc fuel)
  show ?case
  proof (cases "i > fdmax (svc_fds s)")
    case True
    have "candidate cleanblock j s = None" if "i \<le> j" for j
      using candidate_None_above [OF Suc.prems(1)] True that by simp
    with True Suc.prems(1) show ?thesis by (intro exI [of _ s] exI [of _ l] exI [of _ tm]) auto
  next
    case False
    let ?d = "\<lambda>cd. timersub tv (last_recv_time cd)"
    let ?acc = "case candidate cleanblock i s of None \<Rightarrow> (l, tm)
      | Some (p, cd) \<Rightarrow> if timer_gt (?d cd) tm then (Some p, ?d cd) else (l, tm)"
    obtain l1 tm1 where acc: "?acc = (l1, tm1)" by (rule prod.exhaust)
    from clean_one_spec [OF Suc.prems(1), of tv 0 cleanblock i l tm n] obtain s1 where
      s1: "svc_ok s1" "fdmax (svc_fds s1) \<le> fdmax (svc_fds s)" "svc_head s1 = svc_head s" and
      run: "clean_one tv 0 cleanblock i (l, tm, n) (locked s) = Ret ((l1, tm1, n), locked s1)" and
      same: "tab_of s1 = tab_of s" "svc_mem s1 = svc_mem s"
      using acc by (auto simp: Let_def split: option.splits if_splits)
    note cand = candidate_cong [OF same]
    have "fdmax (svc_fds s1) + 1 < i + 1 + int fuel" "0 < fuel"
      using Suc.prems(2) s1(2) False by simp_all
    from Suc.IH [OF s1(1) this, of l1 tm1] obtain s' l' tm' where
      s': "clean_loop fuel tv 0 cleanblock (i + 1) (l1, tm1, n) (locked s1) = Ret ((l', tm', n), locked s')" "svc_ok s'"
        "tab_of s' = tab_of s" "svc_mem s' = svc_mem s" "svc_head s' = svc_head s1" and
      max: "\<forall>j p cd. i + 1 \<le> j \<and> candidate cleanblock j s = Some (p, cd) \<longrightarrow> \<not> timer_gt (?d cd) tm'"
        "\<not> timer_gt tm1 tm'" and
      least: "l' = l1 \<and> tm' = tm1 \<or> (\<exists>j p cd. i + 1 \<le> j \<and> candidate cleanblock j s = Some (p, cd) \<and> l' = Some p \<and>
        tm' = ?d cd \<and> timer_gt tm' tm1)"
      unfolding cand same by blast
    have go: "clean_loop (Suc fuel) tv 0 cleanblock i (l, tm, n) (locked s) = Ret ((l', tm', n), locked s')"
      using False run s'(1) by simp
    have tm1: "\<not> timer_gt tm tm1" "l1 = l \<and> tm1 = tm \<or> (\<exists>p cd. candidate cleanblock i s = Some (p, cd) \<and> l1 = Some p \<and>
        tm1 = ?d cd \<and> timer_gt tm1 tm)"
      "\<And>p cd. candidate cleanblock i s = Some (p, cd) \<Longrightarrow> \<not> timer_gt (?d cd) tm1"
      using acc timer_gt_trans [of tm _ tm] by (auto split: option.splits if_splits)
    have a: "\<not> timer_gt (?d cd) tm'" if "i \<le> j" "candidate cleanblock j s = Some (p, cd)" for j p cd
    proof (cases "j = i")
      case True
      with that tm1(3) max(2) timer_gt_linear show ?thesis by blast
    next
      case False
      then have "i + 1 \<le> j" using that(1) by simp
      with that(2) max(1) show ?thesis by blast
    qed
    have b: "\<not> timer_gt tm tm'" using tm1(1) max(2) timer_gt_linear by blast
    have c: "l' = l \<and> tm' = tm \<or> (\<exists>j p cd. i \<le> j \<and> candidate cleanblock j s = Some (p, cd) \<and> l' = Some p \<and>
        tm' = ?d cd \<and> timer_gt tm' tm)"
      using least
    proof
      assume "l' = l1 \<and> tm' = tm1"
      with tm1(2) show ?thesis by auto
    next
      assume "\<exists>j p cd. i + 1 \<le> j \<and> candidate cleanblock j s = Some (p, cd) \<and> l' = Some p \<and> tm' = ?d cd \<and> timer_gt tm' tm1"
      then obtain j p cd where j: "i + 1 \<le> j" "candidate cleanblock j s = Some (p, cd)" "l' = Some p" "tm' = ?d cd"
        "timer_gt tm' tm1" by blast
      have "timer_gt tm' tm" using j(5) tm1(1,2) timer_gt_trans by blast
      with j show ?thesis by (intro disjI2 exI [of _ j] exI [of _ p] exI [of _ cd]) simp
    qed
    have "\<forall>j p cd. i \<le> j \<and> candidate cleanblock j s = Some (p, cd) \<longrightarrow> \<not> timer_gt (?d cd) tm'" using a by blast
    then show ?thesis
      using go s'(2-5) s1(3) b c by (intro exI [of _ s'] exI [of _ l'] exI [of _ tm']) (simp del: clean_loop.simps)
  qed
qed

lemma clean_idle_least:
  assumes "svc_ok s"
  shows "\<exists>b s'. svc_clean_idle tv 0 cleanblock s = Ret (b, s') \<and> svc_ok s' \<and> svc_head s' = svc_head s \<and>
    length (tab_of s') = length (tab_of s) \<and>
    (if b
     then \<exists>j p cd. candidate cleanblock j s = Some (p, cd) \<and>
       (\<forall>k q cd'. candidate cleanblock k s = Some (q, cd') \<longrightarrow>
          \<not> timer_gt (timersub tv (last_recv_time cd')) (timersub tv (last_recv_time cd))) \<and>
       (\<forall>k. entry k s' = (if k = j then None else entry k s)) \<and> svc_mem s' = (svc_mem s)(p := None)
     else (\<forall>j p cd. candidate cleanblock j s = Some (p, cd) \<longrightarrow>
       \<not> timer_gt (timersub tv (last_recv_time cd)) \<lparr>tv_sec = 0, tv_usec = 0\<rparr>) \<and>
       (\<forall>k. entry k s' = entry k s) \<and> svc_mem s' = svc_mem s)"
proof -
  let ?d = "\<lambda>cd. timersub tv (last_recv_time cd)" and ?z = "\<lparr>tv_sec = 0, tv_usec = 0\<rparr>"
  obtain f where f: "svc_fdset_getmax (svc_fds s) = Some f" "svc_ok (s\<lparr>svc_fds := f\<rparr>)" "- 1 \<le> fdmax f"
    by (rule getmax_ok [OF assms(1)])
  let ?s = "s\<lparr>svc_fds := f\<rparr>"
  have same: "tab_of ?s = tab_of s" "svc_mem ?s = svc_mem s" "svc_head ?s = svc_head s" by (simp_all add: tab_of_def)
  note cand = candidate_cong [OF same(1,2)]
  have pos: "0 \<le> j" if "candidate cleanblock j s = Some (p, cd)" for j p cd
    using that by (auto simp: candidate_def entry_def split: option.splits if_splits)
  have "fdmax (svc_fds ?s) + 1 < 0 + int (nat (fdmax f + 2))" "0 < nat (fdmax f + 2)" using f(3) by simp_all
  from clean_loop_least [OF f(2) this, of tv cleanblock None ?z 0]
  obtain s1 l tm where s1: "clean_loop (nat (fdmax f + 2)) tv 0 cleanblock 0 (None, ?z, 0) (locked ?s)
      = Ret ((l, tm, 0), locked s1)" "svc_ok s1" "tab_of s1 = tab_of s" "svc_mem s1 = svc_mem s" "svc_head s1 = svc_head s"
    "\<forall>j p cd. 0 \<le> j \<and> candidate cleanblock j s = Some (p, cd) \<longrightarrow> \<not> timer_gt (?d cd) tm"
    "l = None \<and> tm = ?z \<or> (\<exists>j p cd. 0 \<le> j \<and> candidate cleanblock j s = Some (p, cd) \<and> l = Some p \<and> tm = ?d cd \<and> timer_gt tm ?z)"
    unfolding cand same by blast
  have lock: "locked ?s = (locked s)\<lparr>svc_fds := f\<rparr>" by simp
  have max: "\<not> timer_gt (?d cd) tm" if "candidate cleanblock j s = Some (p, cd)" for j p cd
    using s1(6) that pos [OF that] by blast
  show ?thesis
    using s1(7)
  proof
    assume none: "l = None \<and> tm = ?z"
    have "s1\<lparr>svc_fd_locked := False\<rparr> = s1" using s1(2) by (simp add: svc_ok_def svc_inv_def)
    then have "svc_clean_idle tv 0 cleanblock s = Ret (False, s1)"
      using f(1) s1(1) [unfolded lock] none by (simp add: svc_clean_idle_def Let_def)
    then show ?thesis
      using s1(2-5) max none entry_cong [OF s1(3)] by (intro exI [of _ False] exI [of _ s1]) auto
  next
    assume "\<exists>j p cd. 0 \<le> j \<and> candidate cleanblock j s = Some (p, cd) \<and> l = Some p \<and> tm = ?d cd \<and> timer_gt tm ?z"
    then obtain j p cd where j: "0 \<le> j" "candidate cleanblock j s = Some (p, cd)" "l = Some p" "tm = ?d cd" by blast
    have e: "entry j s1 = Some p" using candidate_entry [OF j(2)] entry_cong [OF s1(3)] by simp
    from entry_mem [OF s1(2) this] obtain x where x: "svc_mem s1 p = Some x" "xp_fd x = j"
      "tab_of s1 ! nat (j + 1) = Some p" "j + 1 < int (length (tab_of s1))" by blast
    have inv: "svc_inv s1" using s1(2) by (simp add: svc_ok_def)
    have "Some p \<in> set (tab_of s1)" using x(3,4) j(1) nth_mem [of "nat (j + 1)" "tab_of s1"] by auto
    then obtain s2 where s2: "xprt_unregister p s1 = Ret s2" "svc_inv s2" "Some p \<notin> set (tab_of s2)"
      "svc_mem s2 = svc_mem s1" "svc_head s2 = svc_head s1" "tab_of s2 = (tab_of s1)[nat (xp_fd x + 1) := None]"
      using xprt_unregister_spec [OF inv x(1)] x(2) j(1) by metis
    have ok2: "svc_ok s2" using s2(2,4) s1(2) by (simp add: svc_ok_def)
    have mem2: "svc_mem s2 p = Some x" using s2(4) x(1) by simp
    obtain s3 where s3: "svc_vc_dodestroy p s2 = Ret s3" "keeps {} s2 s3" "tab_of s3 = tab_of s2"
      "svc_mem s3 = (svc_mem s2)(p := None)" "svc_head s3 = svc_head s2"
      by (rule dodestroy_keeps [OF ok2 mem2 s2(3), of "{}"]) simp_all
    have ok3: "svc_ok s3" using keepsD [OF s3(2)] .
    then have "s3\<lparr>svc_fd_locked := False\<rparr> = s3" by (simp add: svc_ok_def svc_inv_def)
    then have run: "svc_clean_idle tv 0 cleanblock s = Ret (True, s3)"
      using f(1) s1(1) [unfolded lock] j(3) unregister_unlocked [OF s2(1)] dodestroy_locked [OF s3(1)]
      by (simp add: svc_clean_idle_def Let_def)
    have "entry k s3 = (if k = j then None else entry k s)" for k
      using entry_update [of s3 s1 j k] s3(3) s2(6) x(2) j(1) entry_cong [OF s1(3)] by simp
    moreover have "svc_mem s3 = (svc_mem s)(p := None)" using s3(4) s2(4) s1(4) by simp
    moreover have "svc_head s3 = svc_head s" using s3(5) s2(5) s1(5) by simp
    moreover have "length (tab_of s3) = length (tab_of s)" using s3(3) s2(6) s1(3) by simp
    ultimately show ?thesis
      using run ok3 max j(2,4) by (intro exI [of _ True] exI [of _ s3]) auto
  qed
qed

text \<open>
  C19: with timeout 0, as it is called when descriptors run out, \<open>__svc_clean_idle\<close> destroys one
  connection that nothing else it may destroy has been idle for longer than, and nothing if there is
  none that has been idle.
\<close>

theorem svc_clean_idle_least_active:
  assumes "svc_ok s"
  shows "\<exists>b s'. svc_clean_idle tv 0 cleanblock s = Ret (b, s') \<and> svc_ok s' \<and> svc_head s' = svc_head s \<and>
    length (tab_of s') = length (tab_of s) \<and>
    (if b
     then \<exists>j p cd. candidate cleanblock j s = Some (p, cd) \<and>
       (\<forall>k q cd'. candidate cleanblock k s = Some (q, cd') \<longrightarrow>
          \<not> timer_gt (timersub tv (last_recv_time cd')) (timersub tv (last_recv_time cd))) \<and>
       (\<forall>k. entry k s' = (if k = j then None else entry k s)) \<and> svc_mem s' = (svc_mem s)(p := None)
     else (\<forall>j p cd. candidate cleanblock j s = Some (p, cd) \<longrightarrow>
       \<not> timer_gt (timersub tv (last_recv_time cd)) \<lparr>tv_sec = 0, tv_usec = 0\<rparr>) \<and>
       (\<forall>k. entry k s' = entry k s) \<and> svc_mem s' = svc_mem s)"
  by (rule clean_idle_least [OF assms])

section \<open>Accepting connections\<close>

text \<open>
  What is assumed of the system: \<open>accept\<close> returns a descriptor that is not registered, of which there
  are fewer than 64; memory that is allocated is not in use; the stream of a connection can be allocated.
\<close>

definition env_ok :: "vc_env \<Rightarrow> bool" where
  "env_ok env \<longleftrightarrow> (\<forall>k s sock addr b. svc_ok s \<and> ev_accept env k s = Accepted sock addr b \<longrightarrow>
     0 \<le> sock \<and> can_register sock s \<and> svc_mem s (ev_fresh env s) = None \<and>
     (case ev_net env sock of (net, writes, pos, heap) \<Rightarrow> 3 \<le> heap))"

lemma env_okD:
  assumes "env_ok env" and "svc_ok s" and "ev_accept env k s = Accepted sock addr b"
  shows "0 \<le> sock" and "can_register sock s" and "svc_mem s (ev_fresh env s) = None"
    and "case ev_net env sock of (net, writes, pos, heap) \<Rightarrow> 3 \<le> heap"
proof -
  have "0 \<le> sock \<and> can_register sock s \<and> svc_mem s (ev_fresh env s) = None \<and>
      (case ev_net env sock of (net, writes, pos, heap) \<Rightarrow> 3 \<le> heap)"
    using assms(1) [unfolded env_ok_def, rule_format, OF conjI, OF assms(2,3)] .
  then show "0 \<le> sock" "can_register sock s" "svc_mem s (ev_fresh env s) = None"
    "case ev_net env sock of (net, writes, pos, heap) \<Rightarrow> 3 \<le> heap"
    by simp_all
qed

lemma fresh_not_in_tab: "svc_ok s \<Longrightarrow> svc_mem s p = None \<Longrightarrow> Some p \<notin> set (tab_of s)"
  by (force simp: svc_ok_def svc_inv_def in_set_conv_nth)

lemma alloc_Some: "alloc n s = Some s' \<Longrightarrow> s' = s\<lparr>svc_heap := svc_heap s - n\<rparr>"
  by (auto simp: alloc_def split: if_splits)

lemma free_keeps:
  assumes "svc_ok s" and "Some p \<notin> set (tab_of s)" and "p \<notin> keep"
  shows "keeps keep s (s\<lparr>svc_heap := n, svc_mem := (svc_mem s)(p := None)\<rparr>)"
proof -
  let ?s = "s\<lparr>svc_mem := (svc_mem s)(p := None)\<rparr>"
  have "svc_step keep s ?s" using assms(2,3) by (intro svc_step.free)
  then have k: "keeps keep s ?s" by (rule svc_step_keeps) (rule assms(1))
  have "keeps keep ?s (?s\<lparr>svc_heap := n\<rparr>)" by (rule heap_keeps [OF keepsD [OF k]])
  with k have "keeps keep s (?s\<lparr>svc_heap := n\<rparr>)" by (rule keeps_trans)
  moreover have "?s\<lparr>svc_heap := n\<rparr> = s\<lparr>svc_heap := n, svc_mem := (svc_mem s)(p := None)\<rparr>" by simp
  ultimately show ?thesis by (simp only:)
qed

lemma can_register_cong: "svc_fds s' = svc_fds s \<Longrightarrow> can_register fd s' = can_register fd s"
  by (simp add: can_register_def)

text \<open>Registering a new handle, and taking it back when that fails.\<close>

lemma register_new:
  assumes "svc_ok s" and "svc_mem s p = None" and "p \<notin> keep" and "0 \<le> xp_fd x" and "can_register (xp_fd x) s"
  obtains ok s' where "xprt_register p (s\<lparr>svc_mem := (svc_mem s)(p \<mapsto> x)\<rparr>) = Ret (ok, s')" and "keeps keep s s'"
    and "svc_mem s' = (svc_mem s)(p \<mapsto> x)" and "\<not> ok \<longrightarrow> Some p \<notin> set (tab_of s')"
proof -
  let ?s = "s\<lparr>svc_mem := (svc_mem s)(p \<mapsto> x)\<rparr>"
  have "svc_step keep s ?s" using assms(2,4) by (intro svc_step.handle)
  then have k: "keeps keep s ?s" by (rule svc_step_keeps) (rule assms(1))
  have reg: "can_register (xp_fd x) ?s" using assms(5) by (simp add: can_register_def)
  have inv: "svc_inv ?s" using keepsD [OF k] by (simp add: svc_ok_def)
  have mem: "svc_mem ?s p = Some x" by simp
  obtain ok s' where s': "xprt_register p ?s = Ret (ok, s')" "svc_mem s' = svc_mem ?s" "\<not> ok \<longrightarrow> tab_of s' = tab_of ?s"
    using xprt_register_spec [OF inv mem assms(4)] reg unfolding can_register_def by metis
  have "svc_step keep ?s s'" using mem reg s'(1) by (rule svc_step.register)
  then have "keeps keep ?s s'" by (rule svc_step_keeps) (rule keepsD [OF k])
  with k have "keeps keep s s'" by (rule keeps_trans)
  moreover have "tab_of ?s = tab_of s" by (simp add: tab_of_def)
  ultimately show thesis
    using that s' fresh_not_in_tab [OF assms(1,2)] by simp
qed

lemma makefd_keeps:
  assumes "svc_ok s" and "0 \<le> fd" and "can_register fd s" and "svc_mem s (ev_fresh env s) = None" and "ev_fresh env s \<notin> keep"
    and "case ev_net env fd of (net, writes, pos, heap) \<Rightarrow> 3 \<le> heap"
  obtains r s' where "makefd_xprt env fd sendsz recvsz s = Ret (r, s')" and "keeps keep s s'"
    and "\<forall>q. r = Some q \<longrightarrow> (\<exists>x cd. svc_mem s' q = Some x \<and> xp_p1 x = Conn cd \<and> xp_fd x = fd)"
proof -
  let ?p = "ev_fresh env s"
  obtain net writes pos heap where net: "ev_net env fd = (net, writes, pos, heap)" by (metis prod_cases4)
  with assms(6) obtain strm where strm: "xdrrec_create sendsz recvsz net writes pos heap = Some strm"
    by (auto simp: xdrrec_create_def Let_def)
  let ?x = "(new_xprt fd 0 None (Conn (new_conn strm heap)))\<lparr>xp_verf := null_verf\<lparr>oa_base := Some (zeros 400)\<rparr>\<rparr>"
  have heap: "svc_ok (s\<lparr>svc_heap := n\<rparr>)" "keeps keep s (s\<lparr>svc_heap := n\<rparr>)" for n
    using heap_keeps [OF assms(1)] keepsD by blast+
  have out: "keeps keep s (s\<lparr>svc_heap := n, svc_mem := (svc_mem s)(?p := None)\<rparr>)" for n
    by (rule free_keeps [OF assms(1) fresh_not_in_tab [OF assms(1,4)] assms(5)])
  show thesis
  proof (cases "alloc 1 s")
    case None
    then show thesis using keeps_refl [OF assms(1)] by (intro that [of None s]) (simp_all add: makefd_xprt_def)
  next
    case s1: (Some s1)
    show thesis
    proof (cases "alloc 1 s1")
      case None
      show thesis
        by (rule that [of None "s\<lparr>svc_heap := svc_heap s1 + 1, svc_mem := (svc_mem s)(?p := None)\<rparr>"])
          (use s1 None out in \<open>simp_all add: makefd_xprt_def alloc_Some [OF s1]\<close>)
    next
      case s2: (Some s2)
      let ?r = "if ev_netid env fd = None then Some (?x, s2)
        else map_option (Pair (?x\<lparr>xp_netid := ev_netid env fd\<rparr>)) (alloc 1 s2)"
      show thesis
      proof (cases ?r)
        case None
        let ?s3 = "s2\<lparr>svc_heap := svc_heap s2 + 1, svc_mem := (svc_mem s2)(?p := None)\<rparr>"
        have "makefd_xprt env fd sendsz recvsz s = Ret (None, ?s3)"
          using s1 s2 None net strm by (simp add: makefd_xprt_def Let_def)
        moreover have "?s3 = s\<lparr>svc_heap := svc_heap s2 + 1, svc_mem := (svc_mem s)(?p := None)\<rparr>"
          using alloc_Some [OF s1] alloc_Some [OF s2] by simp
        ultimately show thesis using out by (intro that [of None ?s3]) (simp_all only:, simp)
      next
        case (Some xs)
        obtain x s3 where xs: "xs = (x, s3)" by (metis surj_pair)
        obtain n where s3: "s3 = s\<lparr>svc_heap := n\<rparr>"
          using Some xs alloc_Some [OF s1] alloc_Some [OF s2] by (auto simp: alloc_def split: if_splits)
        have x: "xp_fd x = fd" "xp_p1 x = Conn (new_conn strm heap)"
          using Some xs by (auto simp: new_xprt_def split: if_splits)
        have reg: "can_register (xp_fd x) s3" using assms(3) x(1) s3 by (simp add: can_register_def)
        have mem: "svc_mem s3 ?p = None" using assms(4) s3 by simp
        have ok3: "svc_ok s3" using heap(1) s3 by simp
        have fd0: "0 \<le> xp_fd x" using x(1) assms(2) by simp
        obtain ok s4 where s4: "xprt_register ?p (s3\<lparr>svc_mem := (svc_mem s3)(?p \<mapsto> x)\<rparr>) = Ret (ok, s4)"
          "keeps keep s3 s4" "svc_mem s4 = (svc_mem s3)(?p \<mapsto> x)" "\<not> ok \<longrightarrow> Some ?p \<notin> set (tab_of s4)"
          by (rule register_new [OF ok3 mem assms(5) fd0 reg])
        have k: "keeps keep s s4" using s4(2) heap(2) keeps_trans unfolding s3 by blast
        have run: "makefd_xprt env fd sendsz recvsz s = (if ok then Ret (Some ?p, s4)
            else Ret (None, s4\<lparr>svc_heap := svc_heap s4 + 1, svc_mem := (svc_mem s4)(?p := None)\<rparr>))"
          using s1 s2 Some xs net strm s4(1) by (simp add: makefd_xprt_def)
        show thesis
        proof (cases ok)
          case True
          with run k s4(3) x show thesis by (intro that [of "Some ?p" s4]) simp_all
        next
          case False
          let ?s5 = "s4\<lparr>svc_heap := svc_heap s4 + 1, svc_mem := (svc_mem s4)(?p := None)\<rparr>"
          have "keeps keep s4 ?s5" using s4(4) False assms(5) by (intro free_keeps keepsD [OF k]) simp_all
          with k have "keeps keep s ?s5" by (rule keeps_trans)
          with run False show thesis by (intro that [of None ?s5]) simp_all
        qed
      qed
    qed
  qed
qed

lemma conn_keeps:
  assumes "svc_ok s" and "svc_mem s p = Some x" and "xp_fd x' = xp_fd x"
  shows "keeps keep s (s\<lparr>svc_mem := (svc_mem s)(p \<mapsto> x')\<rparr>)"
  using io_keeps [OF assms, of keep "svc_closed s" "svc_heap s"] by simp

lemma rendezvous_accepted_keeps:
  assumes "svc_ok s" and "svc_mem s q \<noteq> None" and "0 \<le> sock" and "can_register sock s" and "svc_mem s (ev_fresh env s) = None"
    and "case ev_net env sock of (net, writes, pos, heap) \<Rightarrow> 3 \<le> heap"
  shows "\<exists>s'. rendezvous_accepted env r sock addr b s = Ret (False, s') \<and> keeps {q} s s'"
proof -
  have ne: "ev_fresh env s \<notin> {q}" using assms(2,5) by auto
  obtain n s1 where s1: "makefd_xprt env sock (rz_sendsize r) (rz_recvsize r) s = Ret (n, s1)" "keeps {q} s s1"
    "\<forall>p. n = Some p \<longrightarrow> (\<exists>x cd. svc_mem s1 p = Some x \<and> xp_p1 x = Conn cd \<and> xp_fd x = sock)"
    by (rule makefd_keeps [OF assms(1,3,4,5) ne assms(6)])
  have out: "keeps {q} s (t\<lparr>svc_closed := sock # svc_closed t\<rparr>)" if "keeps {q} s t" for t
    using that closed_keeps [OF keepsD [OF that]] by (rule keeps_trans)
  show ?thesis
  proof (cases n)
    case None
    with s1 out [OF s1(2)] show ?thesis by (simp add: rendezvous_accepted_def)
  next
    case (Some p)
    obtain x cd where x: "svc_mem s1 p = Some x" "xp_p1 x = Conn cd" using s1(3) Some by blast
    show ?thesis
    proof (cases "alloc 1 s1")
      case None
      with s1 Some out [OF s1(2)] show ?thesis by (simp add: rendezvous_accepted_def)
    next
      case s2: (Some s2)
      note a = alloc_Some [OF s2]
      have k2: "keeps {q} s s2" using s1(2) heap_keeps [OF keepsD [OF s1(2)]] keeps_trans unfolding a by blast
      have x2: "svc_mem s2 p = Some x" using x(1) a by simp
      have st: "keeps {q} s (s2\<lparr>svc_mem := (svc_mem s2)(p \<mapsto> x\<lparr>xp_rtaddr := A, xp_p1 := P\<rparr>)\<rparr>)" for A P
        by (rule keeps_trans [OF k2 conn_keeps [OF keepsD [OF k2] x2]]) simp
      show ?thesis
        using s1(1) Some s2 x(2) x2 st out [OF st]
        by (auto simp: rendezvous_accepted_def Let_def)
    qed
  qed
qed

text \<open>Cleaning idle connections leaves a rendezvouser alone.\<close>

lemma clean_idle_keeps:
  assumes "svc_ok s" and "svc_mem s q = Some y" and "xp_p1 y = Rendezvous r"
  shows "\<exists>b s'. svc_clean_idle tv 0 cleanblock s = Ret (b, s') \<and> keeps {q} s s' \<and> svc_mem s' q = Some y"
proof -
  obtain b s' where s': "svc_clean_idle tv 0 cleanblock s = Ret (b, s')" "svc_ok s'" "length (tab_of s') = length (tab_of s)"
    "if b then \<exists>j p cd. candidate cleanblock j s = Some (p, cd) \<and> svc_mem s' = (svc_mem s)(p := None)
     else svc_mem s' = svc_mem s"
  proof -
    assume *: "\<And>b s'. svc_clean_idle tv 0 cleanblock s = Ret (b, s') \<Longrightarrow> svc_ok s' \<Longrightarrow>
      length (tab_of s') = length (tab_of s) \<Longrightarrow> (if b then \<exists>j p cd. candidate cleanblock j s = Some (p, cd) \<and>
        svc_mem s' = (svc_mem s)(p := None) else svc_mem s' = svc_mem s) \<Longrightarrow> thesis"
    from clean_idle_least [OF assms(1), of tv cleanblock] show thesis
      by (elim exE conjE) (rule *, assumption+, auto split: if_splits)
  qed
  have "svc_mem s' q = Some y"
  proof (cases b)
    case True
    then obtain j p cd where "candidate cleanblock j s = Some (p, cd)" "svc_mem s' = (svc_mem s)(p := None)"
      using s'(4) by auto
    moreover from this(1) have "p \<noteq> q" using assms(2,3) by (auto elim!: candidate_Some)
    ultimately show ?thesis using assms(2) by simp
  qed (use s'(4) assms(2) in simp)
  then show ?thesis
    using s' by (intro exI [of _ b] exI [of _ s']) (simp add: keeps_def)
qed

lemma rendezvous_request_keeps:
  assumes "env_ok env" and "svc_ok s" and "svc_mem s q = Some y" and "xp_p1 y = Rendezvous r0"
  shows "run_keeps {q} s snd (rendezvous_request fuel k env r s) \<and>
    (\<forall>s'. rendezvous_request fuel k env r s \<noteq> Ret (True, s'))"
  using assms(2,3)
proof (induction fuel arbitrary: k s)
  case (Suc fuel)
  show ?case
  proof (cases "ev_accept env k s")
    case (Accepted sock addr b)
    have "svc_mem s q \<noteq> None" using Suc.prems(2) by simp
    from rendezvous_accepted_keeps [OF Suc.prems(1) this env_okD [OF assms(1) Suc.prems(1) Accepted]]
    obtain s' where "rendezvous_accepted env r sock addr b s = Ret (False, s')" "keeps {q} s s'"
      by blast
    with Accepted show ?thesis by simp
  next
    case Interrupted
    with Suc.IH [OF Suc.prems] show ?thesis by simp
  next
    case Out_of_descriptors
    obtain b s1 where s1: "svc_clean_idle (ev_now env s) 0 False s = Ret (b, s1)" "keeps {q} s s1" "svc_mem s1 q = Some y"
      using clean_idle_keeps [OF Suc.prems assms(4)] by metis
    have "run_keeps {q} s snd (rendezvous_request fuel (k + 1) env r s1)"
      using Suc.IH [OF keepsD [OF s1(2)] s1(3), of "k + 1"] keeps_trans [OF s1(2)]
      by (cases "rendezvous_request fuel (k + 1) env r s1") auto
    with Out_of_descriptors s1 Suc.IH [OF keepsD [OF s1(2)] s1(3)] show ?thesis by auto
  next
    case Accept_error
    with Suc.prems show ?thesis by (simp add: keeps_refl)
  qed
qed simp

text \<open>The contract of the server's transports, on the operations of this file.\<close>

lemma vc_recv_keeps:
  assumes "env_ok env" and "svc_ok s" and "svc_mem s p \<noteq> None"
  shows "run_keeps {p} s (\<lambda>(ok, msg, s). s) (vc_recv fuel env p msg s)"
proof -
  obtain x where x: "svc_mem s p = Some x" using assms(3) by auto
  show ?thesis
  proof (cases "xp_p1 x")
    case (Rendezvous r)
    have "run_keeps {p} s snd (rendezvous_request fuel 0 env r s)"
      using rendezvous_request_keeps [OF assms(1,2) x Rendezvous] by blast
    then show ?thesis
      using x Rendezvous by (cases "rendezvous_request fuel 0 env r s") (auto simp: vc_recv_def)
  next
    case (Conn cd)
    then show ?thesis
      using x conn_keeps [OF assms(2) x] by (simp add: vc_recv_def split: prod.split)
  qed
qed

text \<open>Only a connection is ever asked for a reply: a rendezvouser has no request to answer.\<close>

lemma rendezvous_request_False: "rendezvous_request fuel k env r s = Ret (ok, s') \<Longrightarrow> \<not> ok"
proof (induction fuel arbitrary: k s)
  case (Suc fuel)
  show ?case
  proof (cases "ev_accept env k s")
    case (Accepted sock addr ioctl)
    with Suc.prems show ?thesis
      by (cases "makefd_xprt env sock (rz_sendsize r) (rz_recvsize r) s")
        (auto simp: rendezvous_accepted_def Let_def split: prod.splits option.splits vc_private.splits if_splits)
  next
    case Interrupted
    with Suc show ?thesis by simp
  next
    case Out_of_descriptors
    with Suc show ?thesis
      by (cases "svc_clean_idle (ev_now env s) 0 False s") (auto split: prod.splits if_splits)
  qed (use Suc.prems in simp)
qed simp

definition is_conn :: "vc_private \<Rightarrow> bool" where
  "is_conn t = (case t of Conn _ \<Rightarrow> True | Rendezvous _ \<Rightarrow> False)"

lemma vc_recv_answers:
  assumes "vc_recv fuel env p msg s = Ret (True, msg', s')"
  shows "\<exists>x. svc_mem s' p = Some x \<and> is_conn (xp_p1 x)"
proof (cases "svc_mem s p")
  case (Some x)
  show ?thesis
  proof (cases "xp_p1 x")
    case (Rendezvous r)
    with Some assms rendezvous_request_False [of fuel 0 env r s] show ?thesis
      by (cases "rendezvous_request fuel 0 env r s") (auto simp: vc_recv_def)
  next
    case (Conn cd)
    with Some assms show ?thesis by (auto simp: vc_recv_def is_conn_def split: prod.splits)
  qed
qed (use assms in \<open>simp add: vc_recv_def\<close>)

interpretation vc: transport "svc_vc_ops fuel env now" "\<lambda>_. True" is_conn "env_ok env" for fuel env now
proof
  show "\<exists>ok t. xp_reply (svc_vc_ops fuel env now) x m = Ret (ok, t) \<and> True" if "is_conn (xp_p1 x)" for x m
    using that by (auto simp: svc_vc_ops_def is_conn_def split: vc_private.splits prod.splits)
qed (simp_all add: svc_vc_ops_def vc_recv_keeps vc_recv_answers, auto intro: svc_vc_destroy_keeps)


section \<open>A call and its reply on the wire\<close>

lemma svc_vc_recv_spec:
  assumes "cf_xdrs cd = mkXDR op xdrrec_ops r (m + callmsg_blocks z c)" and "\<not> cf_nonblock cd"
    and "at_record r c0 ps0 (enc_frags qs @ tail)" and "qs \<noteq> []" and "frags_ok qs" and "call_image c (concat qs)"
    and "callmsg_ok c"
  obtains r' cd' where "svc_vc_recv now cd z = (True, callmsg_into z c, cd')"
    and "cf_xdrs cd' = mkXDR XDR_DECODE xdrrec_ops r' m" and "out_part r' = out_part r" and "x_id cd' = rm_xid c"
    and "\<exists>c1 ps1. at_record r' c1 ps1 tail"
proof -
  obtain r1 where r1: "xdrrec_skiprecord r = (True, r1)" "at_record r1 [] qs tail"
    by (rule xdrrec_skiprecord_spec [OF assms(3,4,5)])
  have out: "out_part r1 = out_part r" by (rule xdrrec_skiprecord_out [OF _ r1(1)]) (use assms(3) in \<open>simp add: at_record_def in_ok_def\<close>)
  have "rec_ready tail (out_part r) r1 (concat qs @ [])"
    by (rule rec_readyI [OF r1(2) _ out]) simp
  then obtain r2 where r2: "xdr_callmsg z (mkXDR XDR_DECODE xdrrec_ops r1 (m + callmsg_blocks z c))
      = (True, callmsg_into z c, mkXDR XDR_DECODE xdrrec_ops r2 m)" "rec_ready tail (out_part r) r2 []"
    by (rule rec_stream.decodesE [OF rec_stream.decodes_callmsg [OF assms(7,6)]])
  let ?cd = "(vc_io now (mkXDR XDR_DECODE xdrrec_ops r2 m) cd)\<lparr>x_id := rm_xid c\<rparr>"
  have "svc_vc_recv now cd z = (True, callmsg_into z c, ?cd)"
    using assms(1,2) r1(1) r2(1) by (simp add: svc_vc_recv_def Let_def callmsg_into_def)
  moreover have "cf_xdrs ?cd = mkXDR XDR_DECODE xdrrec_ops r2 m" by (simp add: vc_io_def)
  ultimately show thesis using r2(2) by (intro that [of ?cd r2]) (auto simp: rec_ready_def)
qed

lemma svc_vc_reply_spec:
  assumes "cf_xdrs cd = mkXDR op xdrrec_ops r m" and "replymsg_ok msg" and "\<not> has_results msg"
    and "rec_fits r (length (enc_replymsg [] (msg\<lparr>rm_xid := x_id cd\<rparr>)) + 1)" and "out_cur r = []"
  obtains r' cd' ps where "svc_vc_reply now cd msg = (True, cd')" and "cf_xdrs cd' = mkXDR XDR_ENCODE xdrrec_ops r' m"
    and "net_sent r' = out_done r @ enc_frags ps" and "ps \<noteq> []" and "frags_ok ps"
    and "concat ps = enc_replymsg [] (msg\<lparr>rm_xid := x_id cd\<rparr>)"
proof -
  let ?m = "msg\<lparr>rm_xid := x_id cd\<rparr>"
  have ok: "replymsg_ok ?m" "\<not> has_results ?m" using assms(2,3) by (simp_all add: replymsg_ok_def has_results_def)
  have enc: "rec_stream.encodes xdr_replymsg ?m ?m (enc_replymsg [] ?m)"
    by (rule rec_stream.encodes_replymsg [OF ok(1)]) (use ok(2) in simp)
  obtain r1 where r1: "xdr_replymsg ?m (mkXDR XDR_ENCODE xdrrec_ops r m) = (True, ?m, mkXDR XDR_ENCODE xdrrec_ops r1 m)"
    "rec_wrote r (enc_replymsg [] ?m) r1" "rec_fits r1 1"
    by (rule rec_stream.encodesE [OF enc assms(4)])
  have "0 < net_writes r1" using r1(3) by (simp add: rec_fits_def)
  then obtain r2 ps where r2: "xdrrec_endofrecord True r1 = (True, r2)" "net_sent r2 = out_done r @ enc_frags ps" "ps \<noteq> []"
    "frags_ok ps" "concat ps = enc_replymsg [] ?m"
    by (rule xdrrec_record_sent [OF r1(2) assms(5)])
  let ?cd = "vc_io now (mkXDR XDR_ENCODE xdrrec_ops r2 m) cd"
  have "svc_vc_reply now cd msg = (True, ?cd)"
    using assms(1) r1(1) r2(1) by (simp add: svc_vc_reply_def)
  then show thesis using r2 by (intro that [of ?cd r2 ps]) (simp_all add: vc_io_def)
qed

text \<open>The client: a reply at the next record of its stream.\<close>

lemma reply_received:
  assumes "at_record s c0 ps0 (enc_frags ps @ tail)" and "ps \<noteq> []" and "frags_ok ps" and "concat ps = enc_replymsg [] m"
    and "replymsg_ok m" and "\<not> has_results m"
  obtains s1 s2 where "xdrrec_skiprecord s = (True, s1)"
    and "xdr_replymsg z (mkXDR XDR_DECODE xdrrec_ops s1 (k + reply_blocks z m 0)) =
      (True, reply_into z m (ar_results_where (rp_acpt (rm_reply z))), mkXDR XDR_DECODE xdrrec_ops s2 k)"
proof -
  let ?w = "ar_results_where (rp_acpt (rm_reply z))"
  obtain s1 where s1: "xdrrec_skiprecord s = (True, s1)" "at_record s1 [] ps tail"
    by (rule xdrrec_skiprecord_spec [OF assms(1-3)])
  have "rec_stream.decodes tail (out_part s1) xdr_replymsg z (reply_into z m ?w) (enc_replymsg [] m) (reply_blocks z m 0)"
    by (rule rec_stream.decodes_replymsg [OF assms(5)]) (use assms(6) in simp)
  moreover have "rec_ready tail (out_part s1) s1 (enc_replymsg [] m @ [])"
    by (rule rec_readyI [OF s1(2)]) (simp_all add: assms(4))
  ultimately obtain s2 where "xdr_replymsg z (mkXDR XDR_DECODE xdrrec_ops s1 (k + reply_blocks z m 0))
      = (True, reply_into z m ?w, mkXDR XDR_DECODE xdrrec_ops s2 k)"
    by (rule rec_stream.decodesE)
  with s1(1) show thesis by (rule that)
qed

text \<open>
  C16: a client sends a call of a version that is not served, of a program that is. However the
  connection cuts its bytes, the server receives the call, finds no service, and replies; and however
  the connection cuts the reply, the client decodes a reply to its call (the same transaction), from
  which \<open>_seterr_reply\<close> makes the error \<open>RPC_PROGVERSMISMATCH\<close> with the lowest and the highest version
  that is served.
\<close>

theorem version_mismatch_answered:
  fixes c z zr :: "(rec_strm, 'r) rpc_msg" and sv :: "(vc_private, rec_strm, 'r) server"
  assumes "callmsg_ok c" and "oa_flavor (cb_cred (rm_call c)) = AUTH_NULL"
    and "versions (cb_prog (rm_call c)) (svc_head s) \<noteq> []"
    and "cb_vers (rm_call c) \<notin> set (versions (cb_prog (rm_call c)) (svc_head s))"
    and "xdrrec_create 0 0 [] writes pos 3 = Some cl" and "2 * calls_size [c] \<le> writes"
    and "xdrrec_create sendsz recvsz chunks writes' pos' 3 = Some r" and "unat sendsz < 2 ^ 30" and "unat recvsz < 2 ^ 30"
    and "concat chunks = net_sent (snd (send_calls [c] cl)) @ rest" and "80 \<le> writes'"
    and "svc_mem s p = Some x" and "xp_p1 x = Conn cd" and "cf_xdrs cd = mkXDR op xdrrec_ops r (h + callmsg_blocks z c)"
    and "\<not> cf_nonblock cd" and "sv_ops sv = svc_vc_ops fuel env now"
  shows "\<exists>m s1 s2 x2 cd2. vc_recv fuel env p z s = Ret (True, m, s1) \<and> svc_request sv p m s1 = Ret (False, s2) \<and>
    svc_mem s2 p = Some x2 \<and> xp_p1 x2 = Conn cd2 \<and>
    (\<forall>chunks' rest' sendsz' recvsz' writes'' pos'' cl'.
      concat chunks' = net_sent (x_private (cf_xdrs cd2)) @ rest' \<and>
      xdrrec_create sendsz' recvsz' chunks' writes'' pos'' 3 = Some cl' \<and> unat sendsz' < 2 ^ 30 \<and> unat recvsz' < 2 ^ 30 \<longrightarrow>
      (case xdrrec_skiprecord cl' of (ok, cl'') \<Rightarrow> ok \<and>
        (case xdr_replymsg zr (mkXDR XDR_DECODE xdrrec_ops cl'' 0) of (ok, reply, _) \<Rightarrow> ok \<and>
          rm_xid reply = rm_xid c \<and> re_status (seterr_reply reply e) = RPC_PROGVERSMISMATCH \<and>
          re_vers_low (seterr_reply reply e) = Min (set (versions (cb_prog (rm_call c)) (svc_head s))) \<and>
          re_vers_high (seterr_reply reply e) = Max (set (versions (cb_prog (rm_call c)) (svc_head s))))))"
proof -
  let ?vs = "versions (cb_prog (rm_call c)) (svc_head s)"
  note cl = xdrrec_create_ok [OF assms(5), simplified]
  note r = xdrrec_create_ok [OF assms(7-9)]
  have cl0: "net_sent cl = out_done cl" "net_sent cl = []" using assms(5) by (auto simp: xdrrec_create_def Let_def out_done_def)
  have fits: "rec_fits cl (calls_size [c])" using cl(1,4) assms(6) by (auto simp: rec_fits_def)
  have "\<forall>c' \<in> set [c]. callmsg_ok c'" using assms(1) by simp
  from send_calls_spec [OF this fits cl(2) cl0(1)] obtain cl1 qs where
    sent: "net_sent (snd (send_calls [c] cl)) = enc_frags qs" "qs \<noteq> []" "frags_ok qs" "call_image c (concat qs)"
    using cl0(2) by (auto simp: list_all2_Cons1)
  have at: "at_record r [] [] (enc_frags qs @ rest)" using r(5) assms(10) sent(1) by simp
  obtain r1 cd1 where r1: "svc_vc_recv (ev_now env s) cd z = (True, callmsg_into z c, cd1)"
    "cf_xdrs cd1 = mkXDR XDR_DECODE xdrrec_ops r1 h" "out_part r1 = out_part r" "x_id cd1 = rm_xid c"
    by (rule svc_vc_recv_spec [OF assms(14,15) at sent(2-4) assms(1)])
  let ?m = "callmsg_into z c" and ?x1 = "x\<lparr>xp_p1 := Conn cd1\<rparr>"
  let ?s1 = "s\<lparr>svc_mem := (svc_mem s)(p \<mapsto> ?x1)\<rparr>"
  have recv: "vc_recv fuel env p z s = Ret (True, ?m, ?s1)"
    using assms(12,13) r1(1) by (simp add: vc_recv_def)
  let ?verf = "(xp_verf x)\<lparr>oa_flavor := AUTH_NULL, oa_length := 0\<rparr>"
  have auth: "authenticate (sv_auth sv) (svc_auths ?s1) (sv_addr sv) (svc_heap ?s1) (cb_cred (rm_call ?m)) (sv_area sv) (xp_verf ?x1)
      = (AUTH_OK, sv_area sv, ?verf, svc_heap s)"
    using assms(2) by (simp add: authenticate_def svcauth_null_def callmsg_into_def auth_into_def Let_def)
  have "List.find (\<lambda>c'. sc_prog c' = cb_prog (rm_call c) \<and> sc_vers c' = cb_vers (rm_call c)) (svc_head s) = None"
    using assms(4) by (fastforce simp: find_None_iff versions_def image_iff)
  then have search: "svc_search (cb_prog (rm_call ?m)) (cb_vers (rm_call ?m)) (svc_head s) False (- 1) 0
      = Not_found True (Min (set ?vs)) (Max (set ?vs))"
    using assms(3) by (simp add: svc_search_fold fold_min_max_word callmsg_into_def)
  let ?rep = "mismatch_msg (sv_junk sv) ?verf (Min (set ?vs)) (Max (set ?vs))"
  have rep: "replymsg_ok ?rep" "\<not> has_results ?rep" "length (enc_replymsg [] (?rep\<lparr>rm_xid := w\<rparr>)) = 32"
    "reply_blocks zr (?rep\<lparr>rm_xid := w\<rparr>) 0 = 0" for w
    by (simp_all add: replymsg_ok_def has_results_def mismatch_msg_def accepted_msg_def auth_ok_def auth_bytes_def Let_def
        enc_replymsg_def enc_accepted_reply_def enc_auth_def enc_counted_def enc_opaque_def reply_blocks_def auth_blocks_def
        counted_blocks_def xdr_pad_def)
  have r1': "rec_fits r1 33" "out_cur r1 = []" "out_done r1 = []"
    using r(1-4) r1(3) assms(11) by (auto simp: out_part_def rec_fits_def out_ok_def out_cur_def out_done_def)
  obtain r2 cd2 ps where r2: "svc_vc_reply now cd1 ?rep = (True, cd2)" "cf_xdrs cd2 = mkXDR XDR_ENCODE xdrrec_ops r2 h"
    "net_sent r2 = out_done r1 @ enc_frags ps" "ps \<noteq> []" "frags_ok ps" "concat ps = enc_replymsg [] (?rep\<lparr>rm_xid := x_id cd1\<rparr>)"
    by (rule svc_vc_reply_spec [OF r1(2) rep(1,2) _ r1'(2)]) (use rep(3) r1'(1) in simp_all)
  let ?s2 = "s\<lparr>svc_heap := svc_heap s, svc_mem := (svc_mem s)(p \<mapsto> ?x1\<lparr>xp_verf := ?verf, xp_p1 := Conn cd2\<rparr>)\<rparr>"
  have req: "svc_request sv p ?m ?s1 = Ret (False, ?s2)"
    using auth search r2(1)
    by (simp add: svc_request_def Let_def upd_xprt_def svcerr_progvers_def xprt_error_def xprt_reply_def assms(16) svc_vc_ops_def)
  let ?rep' = "?rep\<lparr>rm_xid := rm_xid c\<rparr>"
  have received: "case xdrrec_skiprecord cl' of (ok, cl'') \<Rightarrow> ok \<and>
      (case xdr_replymsg zr (mkXDR XDR_DECODE xdrrec_ops cl'' 0) of (ok, reply, _) \<Rightarrow> ok \<and>
        rm_xid reply = rm_xid c \<and> re_status (seterr_reply reply e) = RPC_PROGVERSMISMATCH \<and>
        re_vers_low (seterr_reply reply e) = Min (set ?vs) \<and> re_vers_high (seterr_reply reply e) = Max (set ?vs))"
    if "concat chunks' = net_sent (x_private (cf_xdrs cd2)) @ rest'"
      and cr: "xdrrec_create sendsz' recvsz' chunks' writes'' pos'' 3 = Some cl'" "unat sendsz' < 2 ^ 30" "unat recvsz' < 2 ^ 30"
    for chunks' rest' sendsz' recvsz' writes'' pos'' cl'
  proof -
    have "at_record cl' [] [] (enc_frags ps @ rest')"
      using xdrrec_create_ok(5) [OF cr] that(1) r2(2,3) r1'(3) by simp
    moreover have "concat ps = enc_replymsg [] ?rep'" using r2(6) r1(4) by simp
    moreover have "replymsg_ok ?rep'" "\<not> has_results ?rep'" using rep(1,2) by (simp_all add: replymsg_ok_def has_results_def)
    ultimately obtain t1 t2 where "xdrrec_skiprecord cl' = (True, t1)"
      "xdr_replymsg zr (mkXDR XDR_DECODE xdrrec_ops t1 (0 + reply_blocks zr ?rep' 0)) =
        (True, reply_into zr ?rep' (ar_results_where (rp_acpt (rm_reply zr))), mkXDR XDR_DECODE xdrrec_ops t2 0)"
      using reply_received [OF _ r2(4,5), of cl' "[]" "[]" rest' ?rep' zr 0] by blast
    then show ?thesis
      using rep(4) by (simp add: reply_into_def accepted_into_def seterr_reply_def accepted_def mismatch_msg_def
          accepted_msg_def Let_def)
  qed
  show ?thesis
    by (intro exI [of _ ?m] exI [of _ ?s1] exI [of _ ?s2] exI [of _ "?x1\<lparr>xp_verf := ?verf, xp_p1 := Conn cd2\<rparr>"] exI [of _ cd2]
        conjI allI impI recv req) (simp, simp, rule received, blast+)
qed

section \<open>A small server\<close>

text \<open>A call of version 2 with no credentials, to a server of versions 3 and 5.\<close>

definition ask :: "(rec_strm, unit) rpc_msg" where
  "ask = sample_call\<lparr>rm_call := (rm_call (sample_call :: (rec_strm, unit) rpc_msg))\<lparr>cb_cred := null_verf\<rparr>\<rparr>"

definition ask_stream :: rec_strm where
  "ask_stream = the (xdrrec_create 0 0 [] 200 0 3)"

definition serve_stream :: rec_strm where
  "serve_stream = the (xdrrec_create 100 100 [net_sent (snd (send_calls [ask] ask_stream))] 100 0 3)"

definition serve_state :: vc_server where
  "serve_state = (svc_start 5 2 [])\<lparr>
     svc_head := map (\<lambda>v. \<lparr>sc_prog = 100000, sc_vers = v, sc_netid = None, sc_dispatch = 0\<rparr>) [3, 5],
     svc_mem := [9 \<mapsto> new_xprt 7 0 None (Conn (new_conn serve_stream 0))]\<rparr>"

definition demo_env :: vc_env where
  "demo_env =
     \<lparr>ev_accept = (\<lambda>k s. Accept_error), ev_fresh = (\<lambda>s. 10), ev_now = (\<lambda>s. \<lparr>tv_sec = 0, tv_usec = 0\<rparr>),
      ev_netid = (\<lambda>fd. None), ev_net = (\<lambda>fd. ([], 0, 0, 3))\<rparr>"

definition demo_vc :: "(nat \<Rightarrow> svc_req \<Rightarrow> vc_server \<Rightarrow> vc_server) \<Rightarrow> (vc_private, rec_strm, unit) server" where
  "demo_vc dispatch =
     \<lparr>sv_ops = svc_vc_ops 3 demo_env \<lparr>tv_sec = 0, tv_usec = 0\<rparr>, sv_dispatch = dispatch, sv_auth = (\<lambda>h c. AUTH_OK), sv_addr = 0,
      sv_area = sample_area, sv_junk = sample_call\<rparr>"

theorem version_mismatch_answered_witness:
  "\<exists>m s1 s2 x2 cd2. vc_recv 3 demo_env 9 ask serve_state = Ret (True, m, s1) \<and>
    svc_request (demo_vc (\<lambda>_ _ s. s)) 9 m s1 = Ret (False, s2) \<and> svc_mem s2 9 = Some x2 \<and> xp_p1 x2 = Conn cd2 \<and>
    (\<forall>chunks' rest' sendsz' recvsz' writes'' pos'' cl'.
      concat chunks' = net_sent (x_private (cf_xdrs cd2)) @ rest' \<and>
      xdrrec_create sendsz' recvsz' chunks' writes'' pos'' 3 = Some cl' \<and> unat sendsz' < 2 ^ 30 \<and> unat recvsz' < 2 ^ 30 \<longrightarrow>
      (case xdrrec_skiprecord cl' of (ok, cl'') \<Rightarrow> ok \<and>
        (case xdr_replymsg ask (mkXDR XDR_DECODE xdrrec_ops cl'' 0) of (ok, reply, _) \<Rightarrow> ok \<and>
          rm_xid reply = rm_xid ask \<and> re_status (seterr_reply reply undefined) = RPC_PROGVERSMISMATCH \<and>
          re_vers_low (seterr_reply reply undefined) = Min (set (versions (cb_prog (rm_call ask)) (svc_head serve_state))) \<and>
          re_vers_high (seterr_reply reply undefined) = Max (set (versions (cb_prog (rm_call ask)) (svc_head serve_state))))))"
proof (rule version_mismatch_answered [where writes = 200 and pos = 0 and cl = ask_stream and sendsz = 100 and recvsz = 100
      and chunks = "[net_sent (snd (send_calls [ask] ask_stream))]" and writes' = 100 and pos' = 0 and r = serve_stream
      and rest = "[]" and h = 0 and op = XDR_ENCODE and cd = "new_conn serve_stream 0"
      and x = "new_xprt 7 0 None (Conn (new_conn serve_stream 0))"])
  show "xdrrec_create 0 0 [] 200 0 3 = Some ask_stream"
    by (simp add: ask_stream_def xdrrec_create_def Let_def)
  show "xdrrec_create 100 100 [net_sent (snd (send_calls [ask] ask_stream))] 100 0 3 = Some serve_stream"
    by (simp add: serve_stream_def xdrrec_create_def Let_def)
qed (simp_all add: ask_def sample_call_def callmsg_ok_def auth_ok_def auth_bytes_def null_verf_def calls_size_def callmsg_size_def
    serve_state_def svc_start_def versions_def new_xprt_def new_conn_def callmsg_blocks_def auth_blocks_def counted_blocks_def
    demo_vc_def xdr_pad_def)

text \<open>A server with one blocking connection, on descriptor 7, that has read nothing since time 0.\<close>

definition idle_start :: vc_server where
  "idle_start = (svc_start 5 2 [])\<lparr>svc_mem := [9 \<mapsto> new_xprt 7 0 None (Conn (new_conn (the (xdrrec_create 100 100 [] 0 0 3)) 0))]\<rparr>"

definition idle_server :: vc_server where
  "idle_server = (case xprt_register 9 idle_start of Ret (_, s) \<Rightarrow> s | _ \<Rightarrow> idle_start)"

lemma idle_registers: "xprt_register 9 idle_start = Ret (True, idle_server)"
proof -
  have "(case xprt_register 9 idle_start of Ret (ok, _) \<Rightarrow> ok | _ \<Rightarrow> False)"
    unfolding idle_start_def by code_simp
  then show ?thesis by (simp add: idle_server_def split: run.splits prod.splits)
qed

lemma idle_reachable: "(svc_step {})\<^sup>*\<^sup>* (svc_start 5 2 []) idle_server"
proof -
  have "svc_step {} (svc_start 5 2 []) idle_start"
    unfolding idle_start_def
    using svc_step.handle [of "svc_start 5 2 []" 9 "new_xprt 7 0 None (Conn (new_conn (the (xdrrec_create 100 100 [] 0 0 3)) 0))" "{}"]
    by (simp add: svc_start_def new_xprt_def)
  moreover have "svc_step {} idle_start idle_server"
    by (rule svc_step.register [OF _ _ idle_registers, of "new_xprt 7 0 None (Conn (new_conn (the (xdrrec_create 100 100 [] 0 0 3)) 0))"])
      (simp_all add: idle_start_def svc_start_def new_xprt_def can_register_def svc_fdset_initial_def fds_of_def)
  ultimately show ?thesis by simp
qed

lemma idle_ok: "svc_ok idle_server"
  by (rule keepsD [OF svc_steps_keep [OF idle_reachable svc_start_ok]]) simp

theorem svc_clean_idle_exact_witness:
  "\<exists>s'. svc_clean_idle \<lparr>tv_sec = 60, tv_usec = 0\<rparr> 30 True idle_server = Ret (True, s') \<and> entry 7 s' = None"
proof -
  have i: "idle \<lparr>tv_sec = 60, tv_usec = 0\<rparr> 30 True 7 idle_server"
    unfolding idle_server_def idle_start_def by code_simp
  from svc_clean_idle_exact [OF idle_ok, of 30 "\<lparr>tv_sec = 60, tv_usec = 0\<rparr>" True] obtain s' where
    "svc_clean_idle \<lparr>tv_sec = 60, tv_usec = 0\<rparr> 30 True idle_server =
      Ret (\<exists>j. idle \<lparr>tv_sec = 60, tv_usec = 0\<rparr> 30 True j idle_server, s')"
    "\<forall>j. entry j s' = (if idle \<lparr>tv_sec = 60, tv_usec = 0\<rparr> 30 True j idle_server then None else entry j idle_server)"
    by auto
  with i show ?thesis by (intro exI [of _ s']) auto
qed

theorem svc_clean_idle_least_active_witness:
  "\<exists>b s'. svc_clean_idle \<lparr>tv_sec = 60, tv_usec = 0\<rparr> 0 True idle_server = Ret (b, s') \<and> svc_ok s'"
  using svc_clean_idle_least_active [OF idle_ok, of "\<lparr>tv_sec = 60, tv_usec = 0\<rparr>" True] by blast

lemma demo_env_ok: "env_ok demo_env"
  by (simp add: env_ok_def demo_env_def)


section \<open>What goes wrong\<close>

text \<open>
  When the address of an accepted connection cannot be stored, the socket is closed and its transport
  stays: registered, on a closed descriptor.
\<close>

lemma rendezvous_leaves_transport:
  assumes "makefd_xprt env sock (rz_sendsize r) (rz_recvsize r) s = Ret (Some q, s1)" and "svc_heap s1 = 0"
  shows "rendezvous_accepted env r sock addr b s = Ret (False, s1\<lparr>svc_closed := sock # svc_closed s1\<rparr>)"
  using assms by (simp add: rendezvous_accepted_def alloc_def)

text \<open>\<open>svc_fd_create\<close> gives up without unregistering the transport; its local address is freed and still in it.\<close>

lemma svc_fd_create_leaves_transport:
  assumes "makefd_xprt env fd sendsz recvsz s = Ret (Some q, s1)" and "svc_mem s1 q = Some x" and "0 < svc_heap s1"
  shows "\<exists>s2. svc_fd_create env (Some a) None fd sendsz recvsz s = Ret (None, s2) \<and> svc_heap s2 = svc_heap s1 \<and>
    svc_xports s2 = svc_xports s1 \<and> svc_mem s2 q = Some (x\<lparr>xp_ltaddr := Some a\<rparr>)"
  using assms by (simp add: svc_fd_create_def alloc_def Let_def)

text \<open>
  On a non-blocking connection \<open>svc_vc_recv\<close> reads a record, and \<open>xdrrec_skiprecord\<close> then reads the next
  one over it: a call that has another one behind it kills the connection.
\<close>

definition nonblock_conn :: "byte list list \<Rightarrow> cf_conn" where
  "nonblock_conn net =
     (new_conn ((the (xdrrec_create 100 100 net 0 0 3))\<lparr>nonblock := True, in_maxrec := 100\<rparr>) 0)\<lparr>cf_nonblock := True\<rparr>"

definition ask_bytes :: "byte list" where
  "ask_bytes = be32 1 @ be32 CALL @ be32 2 @ be32 100000 @ be32 2 @ be32 0 @ be32 0 @ be32 0 @ be32 0 @ be32 0"

lemma nonblock_one_call:
  "case svc_vc_recv \<lparr>tv_sec = 0, tv_usec = 0\<rparr> (nonblock_conn [frag True ask_bytes, []]) ask of (ok, msg, cd) \<Rightarrow>
     ok \<and> rm_xid msg = 1"
  by code_simp

lemma nonblock_two_calls:
  "case svc_vc_recv \<lparr>tv_sec = 0, tv_usec = 0\<rparr> (nonblock_conn [frag True ask_bytes, frag True ask_bytes]) ask of (ok, msg, cd) \<Rightarrow>
     \<not> ok \<and> strm_stat cd = XPRT_DIED"
  by code_simp

end
