(* ===== verification/Rpcb_Prot.thy ===== *)
theory Rpcb_Prot
  imports Auth
begin

text \<open>
  The protocol of the port mapper: \<open>libsrc/rpcb_prot.c\<close> (versions 3 and 4), \<open>libsrc/pmap_prot.c\<close>,
  \<open>libsrc/pmap_prot2.c\<close> and \<open>libsrc/pmap_rmt.c\<close> (version 2), \<open>libsrc/rpcb_st_xdr.c\<close> (the statistics)
  and the filters of \<open>rpcbind/rpcb_svc_com.c\<close> for remote calls. A string of a registration is the
  contents of the buffer its \<open>char *\<close> points to, \<open>None\<close> for \<open>NULL\<close>.

  The main facts: the list of registrations and the statistics survive the wire and give back all
  their memory; the loop into which the list filters unwind a recursion does what the recursion does;
  the arguments of a remote call have their length written in front of them and arrive at the server.
\<close>

section \<open>Registrations\<close>

record RPCB =
  r_prog :: u32
  r_vers :: u32
  r_netid :: "byte list option"
  r_addr :: "byte list option"
  r_owner :: "byte list option"

definition xdr_rpcb :: "('s, RPCB) xdrproc" where
  "xdr_rpcb =
     xdr_seq [xdr_field r_prog r_prog_update xdr_u_int32_t,
              xdr_field r_vers r_vers_update xdr_u_int32_t,
              xdr_field r_netid r_netid_update (xdr_string RPC_MAXDATASIZE),
              xdr_field r_addr r_addr_update (xdr_string RPC_MAXDATASIZE),
              xdr_field r_owner r_owner_update (xdr_string RPC_MAXDATASIZE)]"

definition rpcb_zero :: RPCB where
  "rpcb_zero = \<lparr>r_prog = 0, r_vers = 0, r_netid = None, r_addr = None, r_owner = None\<rparr>"

text \<open>The walk saves the next node before it frees one, so it follows the list as it was.\<close>

definition xdr_rpcblist_ptr :: "('s, RPCB list) xdrproc" where
  "xdr_rpcblist_ptr = xdr_list (\<lambda>next. next) xdr_rpcb rpcb_zero"

definition xdr_rpcblist :: "('s, RPCB list) xdrproc" where
  "xdr_rpcblist rp x = xdr_rpcblist_ptr rp x"

record rpcb_entry =
  r_maddr :: "byte list option"
  r_nc_netid :: "byte list option"
  r_nc_semantics :: u32
  r_nc_protofmly :: "byte list option"
  r_nc_proto :: "byte list option"

definition xdr_rpcb_entry :: "('s, rpcb_entry) xdrproc" where
  "xdr_rpcb_entry =
     xdr_seq [xdr_field r_maddr r_maddr_update (xdr_string RPC_MAXDATASIZE),
              xdr_field r_nc_netid r_nc_netid_update (xdr_string RPC_MAXDATASIZE),
              xdr_field r_nc_semantics r_nc_semantics_update xdr_u_int32_t,
              xdr_field r_nc_protofmly r_nc_protofmly_update (xdr_string RPC_MAXDATASIZE),
              xdr_field r_nc_proto r_nc_proto_update (xdr_string RPC_MAXDATASIZE)]"

definition entry_zero :: rpcb_entry where
  "entry_zero = \<lparr>r_maddr = None, r_nc_netid = None, r_nc_semantics = 0, r_nc_protofmly = None, r_nc_proto = None\<rparr>"

definition xdr_rpcb_entry_list_ptr :: "('s, rpcb_entry list) xdrproc" where
  "xdr_rpcb_entry_list_ptr = xdr_list (\<lambda>next. next) xdr_rpcb_entry entry_zero"

record netbuf =
  nb_maxlen :: u32
  nb_len :: u32
  nb_buf :: "byte list option"

definition xdr_netbuf :: "('s, netbuf) xdrproc" where
  "xdr_netbuf b x =
     (case xdr_u_int32_t (nb_maxlen b) x of (ok, maxlen, x) \<Rightarrow>
      let b = b\<lparr>nb_maxlen := maxlen\<rparr> in
      if \<not> ok then (False, b, x)
      else if maxlen > RPC_MAXDATASIZE then (False, b, x)
      else case xdr_bytes maxlen (nb_buf b, nb_len b) x of (ok, (buf, len), x) \<Rightarrow>
        (ok, b\<lparr>nb_buf := buf, nb_len := len\<rparr>, x))"

section \<open>Version 2\<close>

record pmap =
  pm_prog :: u32
  pm_vers :: u32
  pm_prot :: u32
  pm_port :: u32

definition xdr_pmap :: "('s, pmap) xdrproc" where
  "xdr_pmap =
     xdr_seq [xdr_field pm_prog pm_prog_update xdr_u_long, xdr_field pm_vers pm_vers_update xdr_u_long,
              xdr_field pm_prot pm_prot_update xdr_u_long, xdr_field pm_port pm_port_update xdr_u_long]"

definition pmap_zero :: pmap where
  "pmap_zero = \<lparr>pm_prog = 0, pm_vers = 0, pm_prot = 0, pm_port = 0\<rparr>"

text \<open>
  Here the pointer the walk follows lies in the node that has just been freed: \<open>nxt\<close> is what is
  found there.
\<close>

definition xdr_pmaplist :: "(pmap list \<Rightarrow> pmap list) \<Rightarrow> ('s, pmap list) xdrproc" where
  "xdr_pmaplist nxt = xdr_list nxt xdr_pmap pmap_zero"

definition xdr_pmaplist_ptr :: "(pmap list \<Rightarrow> pmap list) \<Rightarrow> ('s, pmap list) xdrproc" where
  "xdr_pmaplist_ptr nxt rp x = xdr_pmaplist nxt rp x"

section \<open>Remote calls\<close>

record ('s, 'a) rmtcallargs =
  ra_prog :: u32
  ra_vers :: u32
  ra_proc :: u32
  ra_arglen :: u32
  ra_args :: 'a
  ra_xdr_args :: "('s, 'a) xdrproc"

text \<open>The length is written once as a place holder and again when the size of the arguments is known.\<close>

definition rmtcall_sized :: "('s, u32) xdrproc \<Rightarrow> ('s, ('s, 'a) rmtcallargs) xdrproc" where
  "rmtcall_sized xdr_len r x =
     (let lenposition = XDR_GETPOS x in
      case xdr_len (ra_arglen r) x of (ok, l, x) \<Rightarrow>
      let r = r\<lparr>ra_arglen := l\<rparr> in
      if \<not> ok then (False, r, x)
      else let argposition = XDR_GETPOS x in
      case ra_xdr_args r (ra_args r) x of (ok, a, x) \<Rightarrow>
      let r = r\<lparr>ra_args := a\<rparr> in
      if \<not> ok then (False, r, x)
      else let position = XDR_GETPOS x in
      case XDR_SETPOS x lenposition of (_, x) \<Rightarrow>
      case xdr_len (position - argposition) x of (ok, l, x) \<Rightarrow>
      let r = r\<lparr>ra_arglen := l\<rparr> in
      if \<not> ok then (False, r, x)
      else case XDR_SETPOS x position of (_, x) \<Rightarrow> (True, r, x))"

definition xdr_rmtcall_args :: "('s, ('s, 'a) rmtcallargs) xdrproc" where
  "xdr_rmtcall_args =
     xdr_seq [xdr_field ra_prog ra_prog_update xdr_u_long, xdr_field ra_vers ra_vers_update xdr_u_long,
              xdr_field ra_proc ra_proc_update xdr_u_long, rmtcall_sized xdr_u_long]"

text \<open>The three numbers through the inline block, whatever the direction, or through the filters.\<close>

definition rmtcall_numbers :: "('s, ('s, 'a) rmtcallargs) xdrproc" where
  "rmtcall_numbers =
     xdr_seq [xdr_field ra_prog ra_prog_update xdr_u_int32_t, xdr_field ra_vers ra_vers_update xdr_u_int32_t,
              xdr_field ra_proc ra_proc_update xdr_u_int32_t]"

definition rpcb_rmtcall_head :: "('s, ('s, 'a) rmtcallargs) xdrproc" where
  "rpcb_rmtcall_head r x =
     (case XDR_INLINE x 12 of
        (None, x) \<Rightarrow> rmtcall_numbers r x
      | (Some buf, x) \<Rightarrow> (True, r, ixdr_store x buf
          (IXDR_PUT 2 (ra_proc r) (IXDR_PUT 1 (ra_vers r) (IXDR_PUT 0 (ra_prog r) (ixdr_load x buf 12))))))"

definition xdr_rpcb_rmtcallargs :: "('s, ('s, 'a) rmtcallargs) xdrproc" where
  "xdr_rpcb_rmtcallargs = xdr_seq [rpcb_rmtcall_head, rmtcall_sized xdr_u_int]"

record ('s, 'a) rmtcallres =
  rr_port :: "u32 option"
  rr_addr :: "byte list option"
  rr_len :: u32
  rr_results :: 'a
  rr_xdr :: "('s, 'a) xdrproc"

definition xdr_results :: "('s, ('s, 'a) rmtcallres) xdrproc" where
  "xdr_results r = xdr_field rr_results rr_results_update (rr_xdr r) r"

definition xdr_rmtcallres :: "('s, ('s, 'a) rmtcallres) xdrproc" where
  "xdr_rmtcallres =
     xdr_seq [xdr_field rr_port rr_port_update (xdr_reference xdr_u_long 0),
              xdr_field rr_len rr_len_update xdr_u_long, xdr_results]"

definition xdr_rpcb_rmtcallres :: "('s, ('s, 'a) rmtcallres) xdrproc" where
  "xdr_rpcb_rmtcallres =
     xdr_seq [xdr_field rr_addr rr_addr_update (xdr_string RPC_MAXDATASIZE),
              xdr_field rr_len rr_len_update xdr_u_int, xdr_results]"

text \<open>The server's side: the arguments stay as they arrive.\<close>

record r_rmtcall_args =
  rmt_prog :: u32
  rmt_vers :: u32
  rmt_proc :: u32
  rmt_localvers :: int
  rmt_uaddr :: "byte list"
  rmt_args :: "byte list option \<times> u32"

definition xdr_encap_parms :: "('s, byte list option \<times> u32) xdrproc" where
  "xdr_encap_parms = xdr_bytes RPC_MAXDATASIZE"

definition svc_rmtcall_args :: "('s, r_rmtcall_args) xdrproc" where
  "svc_rmtcall_args =
     xdr_seq [xdr_field rmt_prog rmt_prog_update xdr_u_int32_t, xdr_field rmt_vers rmt_vers_update xdr_u_int32_t,
              xdr_field rmt_proc rmt_proc_update xdr_u_int32_t, xdr_field rmt_args rmt_args_update xdr_encap_parms]"

definition xdr_opaque_parms :: "('s, r_rmtcall_args) xdrproc" where
  "xdr_opaque_parms cap x =
     (case xdr_opaque (snd (rmt_args cap)) (deref (fst (rmt_args cap))) x of (ok, a, x) \<Rightarrow>
        (ok, cap\<lparr>rmt_args := (map_option (\<lambda>_. a) (fst (rmt_args cap)), snd (rmt_args cap))\<rparr>, x))"

section \<open>Statistics\<close>

record rpcbs_addr =
  al_prog :: u32
  al_vers :: u32
  al_success :: u32
  al_failure :: u32
  al_netid :: "byte list option"

record rpcbs_rmtcall =
  rl_prog :: u32
  rl_vers :: u32
  rl_proc :: u32
  rl_success :: u32
  rl_failure :: u32
  rl_indirect :: u32
  rl_netid :: "byte list option"

text \<open>
  These lists are translated by recursion: a node is its fields followed by \<open>xdr_pointer\<close> on the
  next node. \<open>xdr_node\<close> is the filter of a node whose pointer is translated by \<open>q\<close>; \<open>xdr_chain\<close> is
  the filter of a pointer to a node. A node is its fields and the nodes behind it. The depth of the
  recursion is bounded as the loop of \<open>xdr_list\<close> is.
\<close>

definition xdr_node :: "('s, 'a) xdrproc \<Rightarrow> ('s, 'a list) xdrproc \<Rightarrow> ('s, 'a \<times> 'a list) xdrproc" where
  "xdr_node p q obj x =
     (case p (fst obj) x of (ok, t, x) \<Rightarrow>
      if \<not> ok then (False, (t, snd obj), x)
      else case q (snd obj) x of (ok, ts, x) \<Rightarrow> (ok, (t, ts), x))"

definition to_node :: "'a list \<Rightarrow> ('a \<times> 'a list) option" where
  "to_node ts = (case ts of [] \<Rightarrow> None | t # ts \<Rightarrow> Some (t, ts))"

definition of_node :: "('a \<times> 'a list) option \<Rightarrow> 'a list" where
  "of_node n = (case n of None \<Rightarrow> [] | Some (t, ts) \<Rightarrow> t # ts)"

fun xdr_chain :: "('s, 'a) xdrproc \<Rightarrow> 'a \<Rightarrow> nat \<Rightarrow> ('s, 'a list) xdrproc" where
  "xdr_chain p zero 0 ts x = (False, ts, x)"
| "xdr_chain p zero (Suc fuel) ts x =
     (case xdr_pointer (xdr_node p (xdr_chain p zero fuel)) (zero, []) (to_node ts) x of
        (ok, n, x) \<Rightarrow> (ok, of_node n, x))"

definition rpcbs_addr_fields :: "('s, rpcbs_addr) xdrproc" where
  "rpcbs_addr_fields =
     xdr_seq [xdr_field al_prog al_prog_update xdr_u_int32_t, xdr_field al_vers al_vers_update xdr_u_int32_t,
              xdr_field al_success al_success_update xdr_int, xdr_field al_failure al_failure_update xdr_int,
              xdr_field al_netid al_netid_update (xdr_string RPC_MAXDATASIZE)]"

definition rpcbs_addr_zero :: rpcbs_addr where
  "rpcbs_addr_zero = \<lparr>al_prog = 0, al_vers = 0, al_success = 0, al_failure = 0, al_netid = None\<rparr>"

definition xdr_rpcbs_addrlist_ptr :: "('s, rpcbs_addr list) xdrproc" where
  "xdr_rpcbs_addrlist_ptr ts x = xdr_chain rpcbs_addr_fields rpcbs_addr_zero (Suc (length ts + x_mem x)) ts x"

definition xdr_rpcbs_addrlist :: "('s, rpcbs_addr \<times> rpcbs_addr list) xdrproc" where
  "xdr_rpcbs_addrlist obj x = xdr_node rpcbs_addr_fields xdr_rpcbs_addrlist_ptr obj x"

text \<open>Six words, through the inline block when there is one; \<open>XDR_FREE\<close> takes the filters.\<close>

definition rmtcall_words :: "('s, rpcbs_rmtcall) xdrproc" where
  "rmtcall_words =
     xdr_seq [xdr_field rl_prog rl_prog_update xdr_u_int32_t, xdr_field rl_vers rl_vers_update xdr_u_int32_t,
              xdr_field rl_proc rl_proc_update xdr_u_int32_t, xdr_field rl_success rl_success_update xdr_int,
              xdr_field rl_failure rl_failure_update xdr_int, xdr_field rl_indirect rl_indirect_update xdr_int]"

definition rmtcall_head :: "('s, rpcbs_rmtcall) xdrproc" where
  "rmtcall_head r x =
     (case x_op x of
        XDR_ENCODE \<Rightarrow>
          (case XDR_INLINE x 24 of
             (None, x) \<Rightarrow> rmtcall_words r x
           | (Some buf, x) \<Rightarrow> (True, r, ixdr_store x buf
               (IXDR_PUT 5 (rl_indirect r) (IXDR_PUT 4 (rl_failure r) (IXDR_PUT 3 (rl_success r)
               (IXDR_PUT 2 (rl_proc r) (IXDR_PUT 1 (rl_vers r) (IXDR_PUT 0 (rl_prog r) (ixdr_load x buf 24)))))))))
      | XDR_DECODE \<Rightarrow>
          (case XDR_INLINE x 24 of
             (None, x) \<Rightarrow> rmtcall_words r x
           | (Some buf, x) \<Rightarrow> let b = ixdr_load x buf 24 in
               (True, r\<lparr>rl_prog := IXDR_GET b 0, rl_vers := IXDR_GET b 1, rl_proc := IXDR_GET b 2,
                 rl_success := IXDR_GET b 3, rl_failure := IXDR_GET b 4, rl_indirect := IXDR_GET b 5\<rparr>, x))
      | XDR_FREE \<Rightarrow> rmtcall_words r x)"

definition rpcbs_rmtcall_fields :: "('s, rpcbs_rmtcall) xdrproc" where
  "rpcbs_rmtcall_fields =
     xdr_seq [rmtcall_head, xdr_field rl_netid rl_netid_update (xdr_string RPC_MAXDATASIZE)]"

definition rpcbs_rmtcall_zero :: rpcbs_rmtcall where
  "rpcbs_rmtcall_zero = \<lparr>rl_prog = 0, rl_vers = 0, rl_proc = 0, rl_success = 0, rl_failure = 0, rl_indirect = 0,
     rl_netid = None\<rparr>"

definition xdr_rpcbs_rmtcalllist_ptr :: "('s, rpcbs_rmtcall list) xdrproc" where
  "xdr_rpcbs_rmtcalllist_ptr ts x = xdr_chain rpcbs_rmtcall_fields rpcbs_rmtcall_zero (Suc (length ts + x_mem x)) ts x"

definition xdr_rpcbs_rmtcalllist :: "('s, rpcbs_rmtcall \<times> rpcbs_rmtcall list) xdrproc" where
  "xdr_rpcbs_rmtcalllist obj x = xdr_node rpcbs_rmtcall_fields xdr_rpcbs_rmtcalllist_ptr obj x"

definition xdr_rpcbs_proc :: "('s, u32 list) xdrproc" where
  "xdr_rpcbs_proc = xdr_vector xdr_int 13"

record rpcb_stat =
  st_info :: "u32 list"
  st_setinfo :: u32
  st_unsetinfo :: u32
  st_addrinfo :: "rpcbs_addr list"
  st_rmtinfo :: "rpcbs_rmtcall list"

definition xdr_rpcb_stat :: "('s, rpcb_stat) xdrproc" where
  "xdr_rpcb_stat =
     xdr_seq [xdr_field st_info st_info_update xdr_rpcbs_proc, xdr_field st_setinfo st_setinfo_update xdr_int,
              xdr_field st_unsetinfo st_unsetinfo_update xdr_int,
              xdr_field st_addrinfo st_addrinfo_update xdr_rpcbs_addrlist_ptr,
              xdr_field st_rmtinfo st_rmtinfo_update xdr_rpcbs_rmtcalllist_ptr]"

definition xdr_rpcb_stat_byvers :: "('s, rpcb_stat list) xdrproc" where
  "xdr_rpcb_stat_byvers = xdr_vector xdr_rpcb_stat 3"

section \<open>The recursion and the loop\<close>

text \<open>\<open>keeps_op\<close>: the filter leaves the operation of the handle alone.\<close>

definition keeps_op :: "('s, 'a) xdrproc \<Rightarrow> bool" where
  "keeps_op p \<longleftrightarrow> (\<forall>t x. x_op (snd (snd (p t x))) = x_op x)"

lemma keeps_opI: "(\<And>t x. x_op (snd (snd (p t x))) = x_op x) \<Longrightarrow> keeps_op p"
  by (simp add: keeps_op_def)

lemma keeps_opD: "keeps_op p \<Longrightarrow> p t x = (r, t', x') \<Longrightarrow> x_op x' = x_op x"
  by (metis keeps_op_def snd_conv)

lemma mem_alloc_op: "mem_alloc x = (ok, x') \<Longrightarrow> x_op x' = x_op x"
  by (auto simp: mem_alloc_def split: if_splits)

lemma keeps_op_seq: "\<forall>p \<in> set ps. keeps_op p \<Longrightarrow> keeps_op (xdr_seq ps)"
proof (induction ps)
  case (Cons p ps)
  have "x_op (snd (snd (xdr_seq (p # ps) t x))) = x_op x" for t x
  proof -
    obtain ok t' x' where p: "p t x = (ok, t', x')" by (rule prod_cases3)
    have "x_op x' = x_op x"
      using keeps_opD [of p t x ok t' x'] p Cons.prems by simp
    moreover have "x_op (snd (snd (xdr_seq ps t' x'))) = x_op x'"
      using Cons by (simp add: keeps_op_def)
    ultimately show ?thesis by (simp add: p)
  qed
  then show ?case by (simp add: keeps_op_def)
qed (simp add: keeps_op_def)

lemma keeps_op_field: "keeps_op p \<Longrightarrow> keeps_op (xdr_field get upd p)"
  by (auto simp: keeps_op_def xdr_field_def split: prod.split) (metis snd_conv)

lemma keeps_op_ints: "keeps_op xdr_u_long" "keeps_op xdr_u_int32_t" "keeps_op xdr_int" "keeps_op xdr_u_int"
  by (auto simp: keeps_op_def xdr_u_long_def xdr_u_int32_t_def xdr_int_def xdr_u_int_def xdr_access_defs
      split: xdr_op.splits prod.splits option.splits)

lemma keeps_op_opaque: "keeps_op (xdr_opaque n :: ('s, byte list) xdrproc)"
proof (rule keeps_opI)
  fix b and x :: "'s XDR"
  show "x_op (snd (snd (xdr_opaque n b x))) = x_op x"
    by (cases "x_op x")
      (auto simp: xdr_opaque_def xdr_access_defs Let_def split: prod.split option.split)
qed

lemma keeps_op_string: "keeps_op (xdr_string n :: ('s, byte list option) xdrproc)"
proof (rule keeps_opI)
  fix s and x :: "'s XDR"
  note u = keeps_opD [OF keeps_op_ints(4)] and o = keeps_opD [OF keeps_op_opaque]
  show "x_op (snd (snd (xdr_string n s x))) = x_op x"
    by (cases "x_op x"; cases s)
      (auto simp: xdr_string_def Let_def mem_alloc_def mem_free_def dest!: u o split: prod.split)
qed

lemma keeps_op_pmap: "keeps_op xdr_pmap"
  unfolding xdr_pmap_def by (auto intro!: keeps_op_seq keeps_op_field keeps_op_ints)

lemma keeps_op_addr: "keeps_op rpcbs_addr_fields"
  unfolding rpcbs_addr_fields_def
  by (auto intro!: keeps_op_seq keeps_op_field keeps_op_ints keeps_op_string)

lemma keeps_op_words: "keeps_op rmtcall_words"
  unfolding rmtcall_words_def by (auto intro!: keeps_op_seq keeps_op_field keeps_op_ints)

lemma keeps_op_head: "keeps_op (rmtcall_head :: ('s, rpcbs_rmtcall) xdrproc)"
proof (rule keeps_opI)
  fix t and x :: "'s XDR"
  note words = keeps_op_words [unfolded keeps_op_def, rule_format]
  show "x_op (snd (snd (rmtcall_head t x))) = x_op x"
    by (cases "x_op x") (simp_all add: words rmtcall_head_def xdr_access_defs Let_def
        split: prod.split option.split)
qed

lemma keeps_op_rmtcall: "keeps_op rpcbs_rmtcall_fields"
  unfolding rpcbs_rmtcall_fields_def
  by (auto intro!: keeps_op_seq keeps_op_field keeps_op_string keeps_op_head)

lemma chain_list_loop:
  assumes "keeps_op p" and "x_op x = XDR_ENCODE \<or> x_op x = XDR_DECODE \<and> ts = []"
  shows "xdr_chain p zero fuel ts x = xdr_list_loop nxt p zero fuel ts x"
  using assms(2)
proof (induction fuel arbitrary: ts x)
  case (Suc fuel)
  obtain ok more x1 where b: "xdr_bool (ts \<noteq> []) x = (ok, more, x1)" by (rule prod_cases3)
  then have op1: "x_op x1 = x_op x" using xdr_bool_keeps by blast
  show ?case
  proof (cases "ok \<and> more")
    case False
    moreover have "ts = []" if "ok" "\<not> more"
      using Suc.prems xdr_bool_encode_False [OF _ b] that by (cases "x_op x") auto
    ultimately show ?thesis
      using b by (cases ts) (auto simp: xdr_pointer_def of_node_def to_node_def)
  next
    case more: True
    show ?thesis
    proof (cases ts)
      case Nil
      then have op: "x_op x = XDR_DECODE"
        using Suc.prems xdr_bool_encode_False [OF _ b] more by (cases "x_op x") auto
      obtain got x2 where a: "mem_alloc x1 = (got, x2)" by (rule prod.exhaust)
      obtain ok' t' x3 where p: "p zero x2 = (ok', t', x3)" by (rule prod_cases3)
      have "x_op x3 = XDR_DECODE"
        using keeps_opD [OF assms(1) p] mem_alloc_op [OF a] op op1 by simp
      with Suc.IH [of x3 "[]"] show ?thesis
        using b more a p op op1 Nil
        by (auto simp: xdr_pointer_def to_node_def of_node_def xdr_reference_def xdr_node_def split: prod.splits)
    next
      case (Cons t us)
      then have op: "x_op x = XDR_ENCODE" using Suc.prems by simp
      obtain ok' t' x3 where p: "p t x1 = (ok', t', x3)" by (rule prod_cases3)
      have "x_op x3 = XDR_ENCODE"
        using keeps_opD [OF assms(1) p] op op1 by simp
      with Suc.IH [of x3 us] show ?thesis
        using b more p op op1 Cons
        by (auto simp: xdr_pointer_def to_node_def of_node_def xdr_reference_def xdr_node_def split: prod.splits)
    qed
  qed
qed simp

text \<open>
  C24: the loop into which \<open>xdr_rpcblist_ptr\<close> unwinds its recursion does what \<open>xdr_pointer\<close> called
  recursively on every node would do, for every filter of an element and every stream: encoding any
  list, and decoding into an empty one, with the same result, the same list and the same handle, at
  whatever point either of them fails.
\<close>

theorem xdr_chain_is_list_loop:
  assumes "keeps_op p" and "x_op x = XDR_ENCODE \<or> x_op x = XDR_DECODE \<and> ts = []"
  shows "xdr_chain p zero fuel ts x = xdr_list_loop nxt p zero fuel ts x"
  using assms by (rule chain_list_loop)

section \<open>What the filters do on every stream\<close>

text \<open>A string that may be sent, its bytes, and the block a decoded copy lies in.\<close>

definition str_ok :: "byte list option \<Rightarrow> bool" where
  "str_ok s \<longleftrightarrow> s \<noteq> None \<and> strlen (the s) \<le> 9000"

definition enc_str :: "byte list option \<Rightarrow> byte list" where
  "enc_str s = enc_counted (cstr (deref s))"

definition str_fresh :: "byte list option \<Rightarrow> byte list option" where
  "str_fresh s = Some (cstr (deref s) @ [0])"

definition rpcb_ok :: "RPCB \<Rightarrow> bool" where
  "rpcb_ok r \<longleftrightarrow> str_ok (r_netid r) \<and> str_ok (r_addr r) \<and> str_ok (r_owner r)"

definition enc_rpcb :: "RPCB \<Rightarrow> byte list" where
  "enc_rpcb r = be32 (r_prog r) @ be32 (r_vers r) @ enc_str (r_netid r) @ enc_str (r_addr r) @ enc_str (r_owner r)"

definition rpcb_fresh :: "RPCB \<Rightarrow> RPCB" where
  "rpcb_fresh r = r\<lparr>r_netid := str_fresh (r_netid r), r_addr := str_fresh (r_addr r), r_owner := str_fresh (r_owner r)\<rparr>"

definition rpcb_null :: "RPCB \<Rightarrow> RPCB" where
  "rpcb_null r = r\<lparr>r_netid := None, r_addr := None, r_owner := None\<rparr>"

definition entry_ok :: "rpcb_entry \<Rightarrow> bool" where
  "entry_ok e \<longleftrightarrow> str_ok (r_maddr e) \<and> str_ok (r_nc_netid e) \<and> str_ok (r_nc_protofmly e) \<and> str_ok (r_nc_proto e)"

definition enc_entry :: "rpcb_entry \<Rightarrow> byte list" where
  "enc_entry e = enc_str (r_maddr e) @ enc_str (r_nc_netid e) @ be32 (r_nc_semantics e) @
     enc_str (r_nc_protofmly e) @ enc_str (r_nc_proto e)"

definition entry_fresh :: "rpcb_entry \<Rightarrow> rpcb_entry" where
  "entry_fresh e = e\<lparr>r_maddr := str_fresh (r_maddr e), r_nc_netid := str_fresh (r_nc_netid e),
     r_nc_protofmly := str_fresh (r_nc_protofmly e), r_nc_proto := str_fresh (r_nc_proto e)\<rparr>"

definition enc_pmap :: "pmap \<Rightarrow> byte list" where
  "enc_pmap p = be32 (pm_prog p) @ be32 (pm_vers p) @ be32 (pm_prot p) @ be32 (pm_port p)"

definition enc_addr :: "rpcbs_addr \<Rightarrow> byte list" where
  "enc_addr a = be32 (al_prog a) @ be32 (al_vers a) @ be32 (al_success a) @ be32 (al_failure a) @ enc_str (al_netid a)"

definition addr_fresh :: "rpcbs_addr \<Rightarrow> rpcbs_addr" where
  "addr_fresh a = a\<lparr>al_netid := str_fresh (al_netid a)\<rparr>"

definition enc_rmtcall :: "rpcbs_rmtcall \<Rightarrow> byte list" where
  "enc_rmtcall r = (be32 (rl_prog r) @ be32 (rl_vers r) @ be32 (rl_proc r) @ be32 (rl_success r) @
     be32 (rl_failure r) @ be32 (rl_indirect r)) @ enc_str (rl_netid r)"

definition rmtcall_fresh :: "rpcbs_rmtcall \<Rightarrow> rpcbs_rmtcall" where
  "rmtcall_fresh r = r\<lparr>rl_netid := str_fresh (rl_netid r)\<rparr>"

lemma RPC_MAXDATASIZE_nat [simp]: "unat RPC_MAXDATASIZE = 9000"
  by (simp add: RPC_MAXDATASIZE_def)

lemma frees_str [codec]: "str_ok s \<Longrightarrow> frees (xdr_string RPC_MAXDATASIZE) s None 1"
  using frees_string [of "the s" RPC_MAXDATASIZE] by (auto simp: str_ok_def)

lemma cstr_fresh: "cstr (cstr b @ [0]) = cstr b"
  unfolding cstr_def by (subst takeWhile_append2) (auto dest: set_takeWhileD)

lemma enc_str_fresh [simp]: "s \<noteq> None \<Longrightarrow> enc_str (str_fresh s) = enc_str s"
  by (auto simp: enc_str_def str_fresh_def cstr_fresh)

lemma str_fresh_ok: "str_ok s \<Longrightarrow> str_ok (str_fresh s)"
  by (auto simp: str_ok_def str_fresh_def strlen_def cstr_fresh)

lemma rpcb_fresh_ok: "rpcb_ok r \<Longrightarrow> rpcb_ok (rpcb_fresh r)"
  by (simp add: rpcb_ok_def rpcb_fresh_def str_fresh_ok)

lemma begins_puts:
  "length blk = 24 \<Longrightarrow> IXDR_PUT 5 f (IXDR_PUT 4 e (IXDR_PUT 3 d (IXDR_PUT 2 c (IXDR_PUT 1 b (IXDR_PUT 0 a blk))))) =
     be32 a @ be32 b @ be32 c @ be32 d @ be32 e @ be32 f"
proof -
  assume "length blk = 24"
  then have "begins ((((((([] @ be32 a) @ be32 b) @ be32 c) @ be32 d) @ be32 e) @ be32 f)) 24
      (IXDR_PUT 5 f (IXDR_PUT 4 e (IXDR_PUT 3 d (IXDR_PUT 2 c (IXDR_PUT 1 b (IXDR_PUT 0 a blk))))))"
    by (intro begins_put begins_Nil) simp_all
  from begins_all [OF this] show ?thesis by simp
qed

lemma begins_three:
  "length blk = 12 \<Longrightarrow> IXDR_PUT 2 c (IXDR_PUT 1 b (IXDR_PUT 0 a blk)) = be32 a @ be32 b @ be32 c"
proof -
  assume "length blk = 12"
  then have "begins ((([] @ be32 a) @ be32 b) @ be32 c) 12 (IXDR_PUT 2 c (IXDR_PUT 1 b (IXDR_PUT 0 a blk)))"
    by (intro begins_put begins_Nil) simp_all
  from begins_all [OF this] show ?thesis by simp
qed

lemma frees_rpcb [codec]: "rpcb_ok r \<Longrightarrow> frees xdr_rpcb r (rpcb_null r) 3"
  unfolding xdr_rpcb_def
  by (rule frees_eq, (rule frees_seq frees_scalars | simp, rule frees_str, simp add: rpcb_ok_def)+)
    (simp_all add: rpcb_null_def)

context xdr_sink
begin

text \<open>A filter with an inline fast path and the filters it replaces.\<close>

lemma encodes_inline:
  assumes "encodes slow v v1 bs" and "unat len = length bs"
    and "\<And>s s1 m. x_inline ops XDR_ENCODE len s = (None, s1) \<Longrightarrow>
      p v (mkXDR XDR_ENCODE ops s m) = slow v (mkXDR XDR_ENCODE ops s1 m)"
    and "\<And>s s1 m q. x_inline ops XDR_ENCODE len s = (Some q, s1) \<Longrightarrow>
      length (x_load ops XDR_ENCODE q (unat len) s1) = length bs \<Longrightarrow>
      p v (mkXDR XDR_ENCODE ops s m) = (True, v1, mkXDR XDR_ENCODE ops (x_store ops q bs s1) m)"
  shows "encodes p v v1 bs"
proof (rule encodesI)
  fix s n m
  assume "fits s (length bs + n)"
  then have fits: "fits s (unat len + n)" using assms(2) by simp
  obtain r s1 where i: "x_inline ops XDR_ENCODE len s = (r, s1)" by (rule prod.exhaust)
  show "\<exists>s'. p v (mkXDR XDR_ENCODE ops s m) = (True, v1, mkXDR XDR_ENCODE ops s' m) \<and> wrote s bs s' \<and> fits s' n"
  proof (cases r)
    case None
    then have s1: "wrote s [] s1" "fits s1 (length bs + n)"
      using inline_enc_None [OF fits] i assms(2) by simp_all
    obtain s2 where "slow v (mkXDR XDR_ENCODE ops s1 m) = (True, v1, mkXDR XDR_ENCODE ops s2 m)"
      "wrote s1 bs s2" "fits s2 n"
      by (rule encodesE [OF assms(1) s1(2)])
    with wrote_append [OF s1(1), of bs s2] show ?thesis
      using assms(3) [of s s1 m] i None by simp
  next
    case (Some q)
    with inline_enc_Some [OF fits] i assms(2) assms(4) [of s q s1 m] show ?thesis by fastforce
  qed
qed

lemma encodes_rmtcall_head:
  "encodes rmtcall_head r r (be32 (rl_prog r) @ be32 (rl_vers r) @ be32 (rl_proc r) @ be32 (rl_success r) @
     be32 (rl_failure r) @ be32 (rl_indirect r))"
proof (rule encodes_inline [where slow = rmtcall_words and len = 24])
  show "encodes rmtcall_words r r (be32 (rl_prog r) @ be32 (rl_vers r) @ be32 (rl_proc r) @ be32 (rl_success r) @
     be32 (rl_failure r) @ be32 (rl_indirect r))"
    unfolding rmtcall_words_def by (rule encodes_eq, (rule encodes_seq encodes_ints)+) simp_all
qed (simp_all add: rmtcall_head_def xdr_access_defs begins_puts [simplified])

lemma encodes_rmtcall_numbers:
  "encodes (xdr_seq [xdr_field ra_prog ra_prog_update xdr_u_long, xdr_field ra_vers ra_vers_update xdr_u_long,
     xdr_field ra_proc ra_proc_update xdr_u_long]) r r (be32 (ra_prog r) @ be32 (ra_vers r) @ be32 (ra_proc r))"
  "encodes rmtcall_numbers r r (be32 (ra_prog r) @ be32 (ra_vers r) @ be32 (ra_proc r))"
  unfolding rmtcall_numbers_def by (rule encodes_eq, (rule encodes_seq encodes_ints)+; simp)+

lemma encodes_rpcb_rmtcall_head:
  "encodes rpcb_rmtcall_head r r (be32 (ra_prog r) @ be32 (ra_vers r) @ be32 (ra_proc r))"
  by (rule encodes_inline [where slow = rmtcall_numbers and len = 12])
    (simp_all add: encodes_rmtcall_numbers rpcb_rmtcall_head_def xdr_access_defs begins_three [simplified])

lemma encodes_str [codec]: "str_ok s \<Longrightarrow> encodes (xdr_string RPC_MAXDATASIZE) s s (enc_str s)"
  using encodes_string [OF refl, of "the s" RPC_MAXDATASIZE]
  by (auto simp: str_ok_def enc_str_def strlen_def)

lemma encodes_rpcb [codec]: "rpcb_ok r \<Longrightarrow> encodes xdr_rpcb r r (enc_rpcb r)"
  unfolding xdr_rpcb_def
  by (rule encodes_eq, (rule encodes_seq encodes_ints | rule encodes_str, simp add: rpcb_ok_def)+)
    (simp_all add: enc_rpcb_def)

lemma encodes_entry [codec]: "entry_ok e \<Longrightarrow> encodes xdr_rpcb_entry e e (enc_entry e)"
  unfolding xdr_rpcb_entry_def
  by (rule encodes_eq, (rule encodes_seq encodes_ints | rule encodes_str, simp add: entry_ok_def)+)
    (simp_all add: enc_entry_def)

lemma encodes_pmap [codec]: "encodes xdr_pmap p p (enc_pmap p)"
  unfolding xdr_pmap_def
  by (rule encodes_eq, (rule encodes_seq encodes_ints)+) (simp_all add: enc_pmap_def)

lemma encodes_addr [codec]: "str_ok (al_netid a) \<Longrightarrow> encodes rpcbs_addr_fields a a (enc_addr a)"
  unfolding rpcbs_addr_fields_def
  by (rule encodes_eq, (rule encodes_seq encodes_ints | rule encodes_str, simp)+)
    (simp_all add: enc_addr_def)

end

context xdr_source
begin

lemma decodes_str [codec]: "str_ok s \<Longrightarrow> decodes (xdr_string RPC_MAXDATASIZE) None (str_fresh s) (enc_str s) 1"
  using decodes_string_fresh [of "cstr (the s)" RPC_MAXDATASIZE]
  by (auto simp: str_ok_def enc_str_def strlen_def str_fresh_def)

lemma decodes_inline:
  assumes "decodes slow z v bs k" and "len = of_nat (length bs)" and "length bs < 2 ^ 32"
    and "\<And>s s1 m. x_inline ops XDR_DECODE len s = (None, s1) \<Longrightarrow>
      p z (mkXDR XDR_DECODE ops s (m + k)) = slow z (mkXDR XDR_DECODE ops s1 (m + k))"
    and "\<And>s s1 m q. x_inline ops XDR_DECODE len s = (Some q, s1) \<Longrightarrow> x_load ops XDR_DECODE q (length bs) s1 = bs \<Longrightarrow>
      p z (mkXDR XDR_DECODE ops s (m + k)) = (True, v, mkXDR XDR_DECODE ops s1 m)"
  shows "decodes p z v bs k"
proof (rule decodesI)
  fix s rest m
  assume ready: "ready s (bs @ rest)"
  obtain r s1 where i: "x_inline ops XDR_DECODE len s = (r, s1)" by (rule prod.exhaust)
  show "\<exists>s'. p z (mkXDR XDR_DECODE ops s (m + k)) = (True, v, mkXDR XDR_DECODE ops s' m) \<and> ready s' rest"
  proof (cases r)
    case None
    then have "ready s1 (bs @ rest)"
      using inline_dec_None [OF ready assms(3)] i assms(2) by simp
    from decodesE [OF assms(1) this] show ?thesis
      using assms(4) [of s s1 m] i None by metis
  next
    case (Some q)
    with inline_dec_Some [OF ready assms(3)] i assms(2) assms(5) [of s q s1 m] show ?thesis by fastforce
  qed
qed

text \<open>The bytes say what every field is decoded to.\<close>

lemma decodes_val: "decodes p z w bs l \<Longrightarrow> w = v \<Longrightarrow> l = k \<Longrightarrow> decodes p z v bs k"
  by simp

lemma decodes_str_at:
  "sp = None \<Longrightarrow> str_ok s \<Longrightarrow> decodes (xdr_string RPC_MAXDATASIZE) sp (str_fresh s) (enc_str s) 1"
  using decodes_str by blast

lemma decodes_rpcb [codec]: "rpcb_ok r \<Longrightarrow> decodes xdr_rpcb rpcb_zero (rpcb_fresh r) (enc_rpcb r) 3"
  unfolding xdr_rpcb_def enc_rpcb_def
  by (rule decodes_val, (rule decodes_seq decodes_ints | rule decodes_str_at, simp add: rpcb_zero_def,
        simp add: rpcb_ok_def)+)
    (simp_all add: rpcb_fresh_def rpcb_zero_def)

lemma decodes_entry [codec]: "entry_ok e \<Longrightarrow> decodes xdr_rpcb_entry entry_zero (entry_fresh e) (enc_entry e) 4"
  unfolding xdr_rpcb_entry_def enc_entry_def
  by (rule decodes_val, (rule decodes_seq decodes_ints | rule decodes_str_at, simp add: entry_zero_def,
        simp add: entry_ok_def)+)
    (simp_all add: entry_fresh_def entry_zero_def)

lemma decodes_pmap [codec]: "decodes xdr_pmap z p (enc_pmap p) 0"
  unfolding xdr_pmap_def enc_pmap_def
  by (rule decodes_val, (rule decodes_seq decodes_ints)+) simp_all

lemma decodes_addr [codec]:
  "str_ok (al_netid a) \<Longrightarrow> decodes rpcbs_addr_fields rpcbs_addr_zero (addr_fresh a) (enc_addr a) 1"
  unfolding rpcbs_addr_fields_def enc_addr_def
  by (rule decodes_val, (rule decodes_seq decodes_ints | rule decodes_str_at, simp add: rpcbs_addr_zero_def, assumption)+)
    (simp_all add: addr_fresh_def rpcbs_addr_zero_def)

lemma decodes_rmtcall [codec]:
  assumes "str_ok (rl_netid r)"
  shows "decodes rpcbs_rmtcall_fields rpcbs_rmtcall_zero (rmtcall_fresh r) (enc_rmtcall r) 1"
proof -
  let ?bs = "be32 (rl_prog r) @ be32 (rl_vers r) @ be32 (rl_proc r) @ be32 (rl_success r) @
     be32 (rl_failure r) @ be32 (rl_indirect r)"
  have words: "decodes rmtcall_words rpcbs_rmtcall_zero (r\<lparr>rl_netid := None\<rparr>) ?bs 0"
    unfolding rmtcall_words_def
    by (rule decodes_val, (rule decodes_seq decodes_ints)+) (simp_all add: rpcbs_rmtcall_zero_def)
  have head: "decodes rmtcall_head rpcbs_rmtcall_zero (r\<lparr>rl_netid := None\<rparr>) ?bs 0"
    by (rule decodes_inline [OF words, where len = 24])
      (simp_all add: rmtcall_head_def xdr_access_defs Let_def rpcbs_rmtcall_zero_def)
  show ?thesis
    unfolding rpcbs_rmtcall_fields_def enc_rmtcall_def
    by (rule decodes_val, rule decodes_Cons, rule head, rule decodes_last, rule decodes_field, rule decodes_str_at)
      (simp_all add: rmtcall_fresh_def assms)
qed

end

section \<open>Lists\<close>

lemma enc_fresh:
  "rpcb_ok r \<Longrightarrow> enc_rpcb (rpcb_fresh r) = enc_rpcb r"
  "entry_ok e \<Longrightarrow> enc_entry (entry_fresh e) = enc_entry e"
  "str_ok (al_netid a) \<Longrightarrow> enc_addr (addr_fresh a) = enc_addr a"
  "str_ok (rl_netid c) \<Longrightarrow> enc_rmtcall (rmtcall_fresh c) = enc_rmtcall c"
  by (auto simp: enc_rpcb_def rpcb_fresh_def rpcb_ok_def enc_entry_def entry_fresh_def entry_ok_def enc_addr_def
      addr_fresh_def enc_rmtcall_def rmtcall_fresh_def str_ok_def)

lemma enc_list_fresh: "(\<And>t. t \<in> set ts \<Longrightarrow> enc (f t) = enc t) \<Longrightarrow> enc_list enc (map f ts) = enc_list enc ts"
  by (induction ts) simp_all

lemma node_blocks_const [simp]: "node_blocks (\<lambda>_. k) ts = Suc k * length ts"
  by (induction ts) simp_all

context xdr_sink
begin

lemma encodes_rpcblist [codec]:
  "\<forall>r \<in> set rs. rpcb_ok r \<Longrightarrow> encodes xdr_rpcblist_ptr rs rs (enc_list enc_rpcb rs)"
  unfolding xdr_rpcblist_ptr_def by (rule encodes_list) (simp add: encodes_rpcb)

lemma encodes_entry_list [codec]:
  "\<forall>e \<in> set es. entry_ok e \<Longrightarrow> encodes xdr_rpcb_entry_list_ptr es es (enc_list enc_entry es)"
  unfolding xdr_rpcb_entry_list_ptr_def by (rule encodes_list) (simp add: encodes_entry)

lemma encodes_pmaplist [codec]: "encodes (xdr_pmaplist_ptr nxt) ps ps (enc_list enc_pmap ps)"
  unfolding xdr_pmaplist_ptr_def xdr_pmaplist_def by (rule encodes_list) (rule encodes_pmap)

end

context xdr_source
begin

lemma decodes_list_fresh:
  assumes "\<And>t. t \<in> set ts \<Longrightarrow> decodes p zero (f t) (enc t) k" and "\<And>t. t \<in> set ts \<Longrightarrow> enc (f t) = enc t"
  shows "decodes (xdr_list nxt p zero) [] (map f ts) (enc_list enc ts) (Suc k * length ts)"
proof -
  have "decodes (xdr_list nxt p zero) [] (map f ts) (enc_list enc (map f ts)) (node_blocks (\<lambda>_. k) (map f ts))"
    by (rule decodes_list) (use assms in auto)
  then show ?thesis
    using enc_list_fresh [of ts enc f] assms(2) by simp
qed

lemma decodes_rpcblist [codec]:
  "\<forall>r \<in> set rs. rpcb_ok r \<Longrightarrow>
   decodes xdr_rpcblist_ptr [] (map rpcb_fresh rs) (enc_list enc_rpcb rs) (4 * length rs)"
  unfolding xdr_rpcblist_ptr_def
  by (rule decodes_val, rule decodes_list_fresh [where k = 3 and f = rpcb_fresh]) (simp_all add: decodes_rpcb enc_fresh)

lemma decodes_entry_list [codec]:
  "\<forall>e \<in> set es. entry_ok e \<Longrightarrow>
   decodes xdr_rpcb_entry_list_ptr [] (map entry_fresh es) (enc_list enc_entry es) (5 * length es)"
  unfolding xdr_rpcb_entry_list_ptr_def
  by (rule decodes_val, rule decodes_list_fresh [where k = 4 and f = entry_fresh]) (simp_all add: decodes_entry enc_fresh)

lemma decodes_pmaplist [codec]:
  "decodes (xdr_pmaplist_ptr nxt) [] ps (enc_list enc_pmap ps) (length ps)"
  unfolding xdr_pmaplist_ptr_def xdr_pmaplist_def
  by (rule decodes_val, rule decodes_list [where blocks = "\<lambda>_. 0"]) (simp_all add: decodes_pmap)

end

lemma frees_rpcblist [codec]:
  assumes "\<forall>r \<in> set rs. rpcb_ok r"
  shows "frees xdr_rpcblist_ptr rs [] (4 * length rs)"
proof -
  have "frees xdr_rpcblist_ptr rs [] (node_blocks (\<lambda>_. 3) rs)"
    unfolding xdr_rpcblist_ptr_def by (rule frees_list [where z = rpcb_null]) (simp add: frees_rpcb assms)
  then show ?thesis by simp
qed

text \<open>
  C25: the list of registrations that answers \<open>RPCBPROC_DUMP\<close>, encoded by \<open>xdr_rpcblist_ptr\<close> into a
  buffer, is decoded to the same registrations in the same order, each string in a block of its own;
  \<open>XDR_FREE\<close> of the decoded list gives back all of the memory.
\<close>

theorem rpcblist_roundtrip:
  assumes "\<forall>r \<in> set rs. rpcb_ok r" and "length (enc_list enc_rpcb rs) \<le> unat sz" and "unat sz \<le> length buf"
    and "length buf < 2 ^ 63"
  shows "case xdr_rpcblist_ptr rs (xdrmem_create addr buf sz XDR_ENCODE m) of (ok, rs', x) \<Rightarrow>
    ok \<and> rs' = rs \<and> x_mem x = m \<and>
    (case xdr_rpcblist_ptr [] (xdrmem_create addr' (xm_buf (x_private x)) sz XDR_DECODE (h + 4 * length rs)) of
       (ok', ts, y) \<Rightarrow> ok' \<and> ts = map rpcb_fresh rs \<and> x_mem y = h \<and>
         (case xdr_free xdr_rpcblist_ptr ts y of (ts', z) \<Rightarrow> ts' = [] \<and> x_mem z = h + 4 * length rs))"
proof -
  obtain x where x: "xdr_rpcblist_ptr rs (xdrmem_create addr buf sz XDR_ENCODE m) = (True, rs, x)"
    "xm_buf (x_private x) = store 0 (enc_list enc_rpcb rs) buf" "x_mem x = m"
    by (rule xdrmem_encode [OF mem_aligned.encodes_rpcblist [OF assms(1)] mem_unaligned.encodes_rpcblist [OF assms(1)]
          assms(2,3,4)])
  let ?buf = "store 0 (enc_list enc_rpcb rs) buf"
  have buf: "length ?buf = length buf" "take (length (enc_list enc_rpcb rs)) ?buf = enc_list enc_rpcb rs"
    using assms(2,3) by (simp_all add: store_def)
  obtain y where y: "xdr_rpcblist_ptr [] (xdrmem_create addr' ?buf sz XDR_DECODE (h + 4 * length rs))
      = (True, map rpcb_fresh rs, y)" "x_mem y = h"
    by (rule xdrmem_decode [OF mem_aligned.decodes_rpcblist [OF assms(1)] mem_unaligned.decodes_rpcblist [OF assms(1)],
          of sz ?buf]) (use assms buf in simp_all)
  have f: "frees xdr_rpcblist_ptr (map rpcb_fresh rs) [] (4 * length (map rpcb_fresh rs))"
    by (rule frees_rpcblist) (use assms(1) rpcb_fresh_ok in auto)
  have y0: "y\<lparr>x_op := XDR_FREE\<rparr> = mkXDR XDR_FREE (x_ops y) (x_private y) (x_mem y)" by (cases y) simp
  then have "xdr_free xdr_rpcblist_ptr (map rpcb_fresh rs) y = ([], mkXDR XDR_FREE (x_ops y) (x_private y) (h + 4 * length rs))"
    using freesD [OF f, of "x_ops y" "x_private y" "x_mem y"] y(2) by (simp add: xdr_free_def y0)
  with x y show ?thesis by simp
qed

definition sample_rpcb :: "u32 \<Rightarrow> RPCB" where
  "sample_rpcb v = \<lparr>r_prog = 100003, r_vers = v, r_netid = Some [116, 99, 112, 0], r_addr = Some [49, 46, 48, 0, 7],
     r_owner = Some [0]\<rparr>"

theorem rpcblist_roundtrip_witness:
  "case xdr_rpcblist_ptr [sample_rpcb 2, sample_rpcb 3] (xdrmem_create 0x1002 (replicate 200 0xAA) 200 XDR_ENCODE 0) of
     (ok, rs', x) \<Rightarrow> ok \<and> rs' = [sample_rpcb 2, sample_rpcb 3] \<and> x_mem x = 0 \<and>
    (case xdr_rpcblist_ptr [] (xdrmem_create 0x2000 (xm_buf (x_private x)) 200 XDR_DECODE
        (1 + 4 * length [sample_rpcb 2, sample_rpcb 3])) of
       (ok', ts, y) \<Rightarrow> ok' \<and> ts = map rpcb_fresh [sample_rpcb 2, sample_rpcb 3] \<and> x_mem y = 1 \<and>
         (case xdr_free xdr_rpcblist_ptr ts y of (ts', z) \<Rightarrow>
            ts' = [] \<and> x_mem z = 1 + 4 * length [sample_rpcb 2, sample_rpcb 3]))"
  by (rule rpcblist_roundtrip)
    (simp_all add: sample_rpcb_def rpcb_ok_def str_ok_def strlen_def cstr_def enc_rpcb_def enc_str_def
      enc_counted_def length_enc_opaque xdr_pad_def enc_bool_def)

theorem xdr_chain_is_list_loop_witness:
  "xdr_chain xdr_pmap pmap_zero 4 [pmap_zero, pmap_zero] (xdrmem_create 0 (replicate 8 0) 8 XDR_ENCODE 0) =
   xdr_list_loop id xdr_pmap pmap_zero 4 [pmap_zero, pmap_zero] (xdrmem_create 0 (replicate 8 0) 8 XDR_ENCODE 0)"
  by (rule xdr_chain_is_list_loop) (simp_all add: keeps_op_pmap xdrmem_create_def)

section \<open>The statistics on the wire\<close>

lemma chain_is_list:
  assumes "keeps_op p" and "x_op x = XDR_ENCODE \<or> x_op x = XDR_DECODE \<and> ts = []"
  shows "xdr_chain p zero (Suc (length ts + x_mem x)) ts x = xdr_list (\<lambda>r. r) p zero ts x"
  unfolding xdr_list_def by (rule chain_list_loop [OF assms])

definition enc_stat :: "rpcb_stat \<Rightarrow> byte list" where
  "enc_stat st = enc_seq be32 (st_info st) @ be32 (st_setinfo st) @ be32 (st_unsetinfo st) @
     enc_list enc_addr (st_addrinfo st) @ enc_list enc_rmtcall (st_rmtinfo st)"

definition stat_ok :: "rpcb_stat \<Rightarrow> bool" where
  "stat_ok st \<longleftrightarrow> length (st_info st) = 13 \<and> (\<forall>a \<in> set (st_addrinfo st). str_ok (al_netid a)) \<and>
     (\<forall>c \<in> set (st_rmtinfo st). str_ok (rl_netid c))"

definition stat_fresh :: "rpcb_stat \<Rightarrow> rpcb_stat" where
  "stat_fresh st = st\<lparr>st_addrinfo := map addr_fresh (st_addrinfo st), st_rmtinfo := map rmtcall_fresh (st_rmtinfo st)\<rparr>"

definition stat_zero :: rpcb_stat where
  "stat_zero = \<lparr>st_info = replicate 13 0, st_setinfo = 0, st_unsetinfo = 0, st_addrinfo = [], st_rmtinfo = []\<rparr>"

definition stat_blocks :: "rpcb_stat \<Rightarrow> nat" where
  "stat_blocks st = 2 * length (st_addrinfo st) + 2 * length (st_rmtinfo st)"

context xdr_sink
begin

lemma encodes_rmtcall [codec]:
  assumes "str_ok (rl_netid r)"
  shows "encodes rpcbs_rmtcall_fields r r (enc_rmtcall r)"
  unfolding rpcbs_rmtcall_fields_def enc_rmtcall_def
  by (rule encodes_eq, rule encodes_Cons, rule encodes_rmtcall_head, rule encodes_last, rule encodes_field, rule encodes_str)
    (simp_all add: assms)

lemma encodes_stat_lists:
  "\<forall>a \<in> set as. str_ok (al_netid a) \<Longrightarrow> encodes xdr_rpcbs_addrlist_ptr as as (enc_list enc_addr as)"
  "\<forall>c \<in> set cs. str_ok (rl_netid c) \<Longrightarrow> encodes xdr_rpcbs_rmtcalllist_ptr cs cs (enc_list enc_rmtcall cs)"
proof -
  assume "\<forall>a \<in> set as. str_ok (al_netid a)"
  then have "encodes (xdr_list (\<lambda>r. r) rpcbs_addr_fields rpcbs_addr_zero) as as (enc_list enc_addr as)"
    by (intro encodes_list encodes_addr) simp
  then show "encodes xdr_rpcbs_addrlist_ptr as as (enc_list enc_addr as)"
    by (rule encodes_via) (subst xdr_rpcbs_addrlist_ptr_def, subst chain_is_list, simp_all add: keeps_op_addr)
next
  assume "\<forall>c \<in> set cs. str_ok (rl_netid c)"
  then have "encodes (xdr_list (\<lambda>r. r) rpcbs_rmtcall_fields rpcbs_rmtcall_zero) cs cs (enc_list enc_rmtcall cs)"
    by (intro encodes_list encodes_rmtcall) simp
  then show "encodes xdr_rpcbs_rmtcalllist_ptr cs cs (enc_list enc_rmtcall cs)"
    by (rule encodes_via) (subst xdr_rpcbs_rmtcalllist_ptr_def, subst chain_is_list, simp_all add: keeps_op_rmtcall)
qed

lemma encodes_stat: "stat_ok st \<Longrightarrow> encodes xdr_rpcb_stat st st (enc_stat st)"
  unfolding xdr_rpcb_stat_def enc_stat_def xdr_rpcbs_proc_def
  by (rule encodes_eq, (rule encodes_seq encodes_ints | rule encodes_vector encodes_stat_lists, simp add: stat_ok_def
        | rule encodes_ints)+) simp_all

lemma encodes_stats:
  "length sts = 3 \<Longrightarrow> \<forall>st \<in> set sts. stat_ok st \<Longrightarrow> encodes xdr_rpcb_stat_byvers sts sts (enc_seq enc_stat sts)"
  unfolding xdr_rpcb_stat_byvers_def by (rule encodes_vector) (simp_all add: encodes_stat)

end

context xdr_source
begin

lemma decodes_stat_lists:
  "\<forall>a \<in> set as. str_ok (al_netid a) \<Longrightarrow>
     decodes xdr_rpcbs_addrlist_ptr [] (map addr_fresh as) (enc_list enc_addr as) (2 * length as)"
  "\<forall>c \<in> set cs. str_ok (rl_netid c) \<Longrightarrow>
     decodes xdr_rpcbs_rmtcalllist_ptr [] (map rmtcall_fresh cs) (enc_list enc_rmtcall cs) (2 * length cs)"
proof -
  assume "\<forall>a \<in> set as. str_ok (al_netid a)"
  then have "decodes (xdr_list (\<lambda>r. r) rpcbs_addr_fields rpcbs_addr_zero) [] (map addr_fresh as)
      (enc_list enc_addr as) (2 * length as)"
    by (intro decodes_val [OF decodes_list_fresh [where k = 1 and f = addr_fresh]] decodes_addr) (simp_all add: enc_fresh)
  then show "decodes xdr_rpcbs_addrlist_ptr [] (map addr_fresh as) (enc_list enc_addr as) (2 * length as)"
    by (rule decodes_via) (subst xdr_rpcbs_addrlist_ptr_def, subst chain_is_list, simp_all add: keeps_op_addr)
next
  assume "\<forall>c \<in> set cs. str_ok (rl_netid c)"
  then have "decodes (xdr_list (\<lambda>r. r) rpcbs_rmtcall_fields rpcbs_rmtcall_zero) [] (map rmtcall_fresh cs)
      (enc_list enc_rmtcall cs) (2 * length cs)"
    by (intro decodes_val [OF decodes_list_fresh [where k = 1 and f = rmtcall_fresh]] decodes_rmtcall) (simp_all add: enc_fresh)
  then show "decodes xdr_rpcbs_rmtcalllist_ptr [] (map rmtcall_fresh cs) (enc_list enc_rmtcall cs) (2 * length cs)"
    by (rule decodes_via) (subst xdr_rpcbs_rmtcalllist_ptr_def, subst chain_is_list, simp_all add: keeps_op_rmtcall)
qed

lemma decodes_stat: "stat_ok st \<Longrightarrow> decodes xdr_rpcb_stat stat_zero (stat_fresh st) (enc_stat st) (stat_blocks st)"
proof -
  assume st: "stat_ok st"
  have info: "decodes xdr_rpcbs_proc (replicate 13 0) (st_info st) (enc_seq be32 (st_info st)) 0"
    using decodes_vector [of 13 "st_info st" "replicate 13 0" xdr_int be32 "\<lambda>_. 0"] st decodes_ints
    by (simp add: xdr_rpcbs_proc_def stat_ok_def)
  note lists = decodes_stat_lists(1) [of "st_addrinfo st"] decodes_stat_lists(2) [of "st_rmtinfo st"]
  show "decodes xdr_rpcb_stat stat_zero (stat_fresh st) (enc_stat st) (stat_blocks st)"
    unfolding xdr_rpcb_stat_def enc_stat_def
    by (rule decodes_val, (rule decodes_seq decodes_ints | simp add: stat_zero_def,
        rule info lists, use st in \<open>simp add: stat_ok_def\<close>
        | simp add: stat_zero_def, rule info)+)
      (simp_all add: stat_fresh_def stat_zero_def stat_blocks_def)
qed

lemma decodes_stats:
  assumes "length sts = 3" and "\<forall>st \<in> set sts. stat_ok st"
  shows "decodes xdr_rpcb_stat_byvers (replicate 3 stat_zero) (map stat_fresh sts) (enc_seq enc_stat sts)
    (sum_list (map stat_blocks sts))"
proof -
  have same: "enc_stat (stat_fresh st) = enc_stat st" "stat_blocks (stat_fresh st) = stat_blocks st" if "stat_ok st" for st
    using that by (simp_all add: enc_stat_def stat_fresh_def stat_ok_def enc_list_fresh enc_fresh stat_blocks_def)
  have "decodes xdr_rpcb_stat_byvers (replicate 3 stat_zero) (map stat_fresh sts) (enc_seq enc_stat (map stat_fresh sts))
      (sum_list (map stat_blocks (map stat_fresh sts)))"
    unfolding xdr_rpcb_stat_byvers_def
    by (rule decodes_vector) (use assms same decodes_stat in auto)
  moreover have "enc_seq enc_stat (map stat_fresh sts) = enc_seq enc_stat sts"
    "map stat_blocks (map stat_fresh sts) = map stat_blocks sts"
    using assms(2) same by (induction sts) auto
  ultimately show ?thesis by (simp only:)
qed

end

text \<open>
  C26: the statistics of the three versions that answer \<open>RPCBPROC_GETSTAT\<close>, encoded into a buffer,
  are decoded to the same counters and the same two lists of each version, with one block for each
  node and one for each network id.
\<close>

theorem rpcb_stats_roundtrip:
  assumes "length sts = 3" and "\<forall>st \<in> set sts. stat_ok st"
    and "length (enc_seq enc_stat sts) \<le> unat sz" and "unat sz \<le> length buf" and "length buf < 2 ^ 63"
  shows "case xdr_rpcb_stat_byvers sts (xdrmem_create addr buf sz XDR_ENCODE m) of (ok, sts', x) \<Rightarrow>
    ok \<and> sts' = sts \<and> x_mem x = m \<and>
    (case xdr_rpcb_stat_byvers (replicate 3 stat_zero) (xdrmem_create addr' (xm_buf (x_private x)) sz XDR_DECODE
        (h + sum_list (map stat_blocks sts))) of
       (ok', ts, y) \<Rightarrow> ok' \<and> ts = map stat_fresh sts \<and> x_mem y = h)"
proof -
  obtain x where x: "xdr_rpcb_stat_byvers sts (xdrmem_create addr buf sz XDR_ENCODE m) = (True, sts, x)"
    "xm_buf (x_private x) = store 0 (enc_seq enc_stat sts) buf" "x_mem x = m"
    by (rule xdrmem_encode [OF mem_aligned.encodes_stats [OF assms(1,2)] mem_unaligned.encodes_stats [OF assms(1,2)]
          assms(3-5)])
  let ?buf = "store 0 (enc_seq enc_stat sts) buf"
  have buf: "length ?buf = length buf" "take (length (enc_seq enc_stat sts)) ?buf = enc_seq enc_stat sts"
    using assms(3,4) by (simp_all add: store_def)
  obtain y where "xdr_rpcb_stat_byvers (replicate 3 stat_zero) (xdrmem_create addr' ?buf sz XDR_DECODE
      (h + sum_list (map stat_blocks sts))) = (True, map stat_fresh sts, y)" "x_mem y = h"
    by (rule xdrmem_decode [OF mem_aligned.decodes_stats [OF assms(1,2)] mem_unaligned.decodes_stats [OF assms(1,2)],
          of sz ?buf]) (use assms buf in simp_all)
  with x show ?thesis by simp
qed

definition sample_stat :: rpcb_stat where
  "sample_stat = stat_zero\<lparr>st_setinfo := 2,
     st_addrinfo := [\<lparr>al_prog = 100003, al_vers = 3, al_success = 1, al_failure = 0, al_netid = Some [117, 100, 112, 0]\<rparr>],
     st_rmtinfo := [\<lparr>rl_prog = 100003, rl_vers = 3, rl_proc = 0, rl_success = 0, rl_failure = 1, rl_indirect = 1,
       rl_netid = Some [117, 100, 112, 0]\<rparr>]\<rparr>"

theorem rpcb_stats_roundtrip_witness:
  "case xdr_rpcb_stat_byvers [stat_zero, sample_stat, stat_zero] (xdrmem_create 0x1001 (replicate 400 0) 400 XDR_ENCODE 0) of
     (ok, sts', x) \<Rightarrow> ok \<and> sts' = [stat_zero, sample_stat, stat_zero] \<and> x_mem x = 0 \<and>
    (case xdr_rpcb_stat_byvers (replicate 3 stat_zero) (xdrmem_create 0x1000 (xm_buf (x_private x)) 400 XDR_DECODE
        (0 + sum_list (map stat_blocks [stat_zero, sample_stat, stat_zero]))) of
       (ok', ts, y) \<Rightarrow> ok' \<and> ts = map stat_fresh [stat_zero, sample_stat, stat_zero] \<and> x_mem y = 0)"
  by (rule rpcb_stats_roundtrip)
    (simp_all add: sample_stat_def stat_zero_def stat_ok_def str_ok_def strlen_def cstr_def enc_stat_def enc_addr_def
      enc_rmtcall_def enc_str_def enc_counted_def length_enc_opaque xdr_pad_def enc_bool_def)

section \<open>The arguments of a remote call\<close>

text \<open>
  A memory stream \<open>k\<close> bytes into its buffer. \<open>xdrmem_setpos\<close> compares addresses as signed 32-bit
  numbers, so it moves within the buffer only if the low halves of the addresses do not overflow.
\<close>

definition mem_at :: "u64 \<Rightarrow> u32 \<Rightarrow> nat \<Rightarrow> byte list \<Rightarrow> xdr_mem" where
  "mem_at addr sz k buf = \<lparr>xm_base = addr, xm_priv = addr + of_nat k, xm_handy = sz - of_nat k, xm_buf = buf\<rparr>"

definition low_room :: "u64 \<Rightarrow> u32 \<Rightarrow> bool" where
  "low_room addr sz \<longleftrightarrow> sint (ucast addr :: u32) + int (unat sz) < 2 ^ 31"

lemma sint_plus_of_nat:
  fixes a :: u32
  assumes "sint a + int n < 2 ^ 31"
  shows "sint (a + of_nat n) = sint a + int n"
proof -
  have "a + of_nat n = of_int (sint a + int n)" by simp
  moreover have "- (2 ^ 31) \<le> sint a + int n"
    using sint_ge [of a] by simp
  ultimately show ?thesis
    using assms by (simp only: signed_of_int) (simp add: signed_take_bit_int_eq_self)
qed

lemma setpos_at:
  assumes "low_room addr sz" and "p \<le> unat sz"
  shows "xdrmem_setpos (of_nat p) (mem_at addr sz k buf) = (True, mem_at addr sz p buf)"
proof -
  let ?low = "ucast addr :: u32"
  have p: "ucast (of_nat p :: u32) = (of_nat p :: u64)" by (rule ucast_of_nat_handy [OF assms(2)])
  have new: "ucast (addr + (of_nat p :: u64)) = ?low + of_nat p"
    by (simp add: ucast_u64_add ucast_u64_of_nat)
  have last32: "ucast (addr + of_nat k + ucast (sz - of_nat k)) = ?low + sz"
    by (simp add: ucast_u64_add ucast_u64_of_nat)
  have le_p: "int p \<le> uint sz"
    using assms(2) by (metis of_nat_le_iff uint_nat)
  have le: "\<not> sint (?low + of_nat p) > sint (?low + sz)"
    using assms sint_plus_of_nat [of ?low p] sint_plus_of_nat [of ?low "unat sz"] le_p
    by (simp add: low_room_def)
  show ?thesis
    unfolding xdrmem_setpos_def Let_def mem_at_def
    using le by (simp add: new last32 p)
qed

lemma getpos_at: "xdrmem_getpos (mem_at addr sz k buf) = of_nat k"
  by (simp add: xdrmem_getpos_def mem_at_def ucast_u64_add ucast_u64_of_nat)

text \<open>What a filter does on a memory stream, aligned or not, \<open>k\<close> bytes into its buffer.\<close>

abbreviation mem_ops :: "xdr_mem xdr_ops \<Rightarrow> bool" where
  "mem_ops ops \<equiv> ops = xdrmem_ops_aligned \<or> ops = xdrmem_ops_unaligned"

abbreviation mem_encodes :: "(xdr_mem, 'a) xdrproc \<Rightarrow> 'a \<Rightarrow> 'a \<Rightarrow> byte list \<Rightarrow> bool" where
  "mem_encodes p v v' bs \<equiv> mem_aligned.encodes p v v' bs \<and> mem_unaligned.encodes p v v' bs"

lemma mem_at_ok:
  assumes "k \<le> unat sz" and "unat sz \<le> length buf" and "length buf < 2 ^ 63"
  shows "xm_ok (mem_at addr sz k buf)" and "xm_off (mem_at addr sz k buf) = k"
    and "unat (xm_handy (mem_at addr sz k buf)) = unat sz - k"
proof -
  have h: "unat (sz - of_nat k) = unat sz - k"
    using assms(1) by (simp add: unat_sub handy_le)
  have o: "xm_off (mem_at addr sz k buf) = k"
    using assms by (simp add: xm_off_def mem_at_def unat_of_nat)
  then show "xm_ok (mem_at addr sz k buf)" "xm_off (mem_at addr sz k buf) = k"
    "unat (xm_handy (mem_at addr sz k buf)) = unat sz - k"
    using assms h by (simp_all add: xm_ok_def) (simp_all add: mem_at_def)
qed

lemma mem_encodes_at:
  assumes "mem_ops ops" and "mem_encodes p v v' bs" and "k + length bs \<le> unat sz" and "unat sz \<le> length buf"
    and "length buf < 2 ^ 63"
  shows "p v (mkXDR XDR_ENCODE ops (mem_at addr sz k buf) m) =
    (True, v', mkXDR XDR_ENCODE ops (mem_at addr sz (k + length bs) (store k bs buf)) m)"
proof -
  let ?s = "mem_at addr sz k buf"
  have k: "k \<le> unat sz" using assms(3) by simp
  note at = mem_at_ok [OF k assms(4,5), of addr]
  have fits: "xm_fits ?s (length bs + 0)"
    using at assms(3) by (simp add: xm_fits_def)
  have wrote: "s' = mem_at addr sz (k + length bs) (store k bs buf)" if "xm_wrote ?s bs s'" for s'
    using that at by (simp add: xm_wrote_def xm_write_def xm_skip_def) (simp add: mem_at_def algebra_simps)
  from assms(1,2) show ?thesis
    by (elim disjE conjE; hypsubst)
      (rule mem_aligned.encodesE [OF _ fits, where m = m], assumption, use wrote in simp,
       rule mem_unaligned.encodesE [OF _ fits, where m = m], assumption, use wrote in simp)
qed

lemma mem_pos_at:
  assumes "mem_ops ops"
  shows "XDR_GETPOS (mkXDR op ops (mem_at addr sz k buf) m) = of_nat k"
    and "low_room addr sz \<Longrightarrow> q \<le> unat sz \<Longrightarrow>
      XDR_SETPOS (mkXDR op ops (mem_at addr sz k buf) m) (of_nat q) = (True, mkXDR op ops (mem_at addr sz q buf) m)"
  using assms setpos_at [of addr sz q k buf]
  by (auto simp: XDR_GETPOS_def XDR_SETPOS_def xdrmem_getpostn getpos_at xdrmem_ops_aligned_def xdrmem_ops_unaligned_def)

lemma store_again:
  "k + length xs + length ys \<le> length m \<Longrightarrow> length zs = length xs \<Longrightarrow>
   store k xs (store (k + length xs) ys (store k zs m)) = store k (xs @ ys) m"
  by (simp add: store_def ac_simps)

lemma rmtcall_sized_at:
  assumes "mem_ops ops" and "\<And>v. mem_encodes put v v (be32 v)" and "mem_encodes (ra_xdr_args r) (ra_args r) a bs"
    and "k + 4 + length bs \<le> unat sz" and "unat sz \<le> length buf" and "length buf < 2 ^ 63" and "low_room addr sz"
  shows "rmtcall_sized put r (mkXDR XDR_ENCODE ops (mem_at addr sz k buf) m) =
    (True, r\<lparr>ra_args := a, ra_arglen := of_nat (length bs)\<rparr>,
     mkXDR XDR_ENCODE ops (mem_at addr sz (k + 4 + length bs) (store k (be32 (of_nat (length bs)) @ bs) buf)) m)"
proof -
  let ?x = "\<lambda>k buf. mkXDR XDR_ENCODE ops (mem_at addr sz k buf) m"
  let ?n = "of_nat (length bs) :: u32"
  let ?b1 = "store k (be32 (ra_arglen r)) buf"
  let ?b2 = "store (k + 4) bs ?b1"
  have len: "length ?b1 = length buf" "length ?b2 = length buf"
    using assms(4,5) by (simp_all add: store_def)
  have p1: "put (ra_arglen r) (?x k buf) = (True, ra_arglen r, ?x (k + 4) ?b1)"
    using mem_encodes_at [OF assms(1) assms(2), where k = k and sz = sz and buf = buf] assms(4,5,6) by simp
  have p2: "ra_xdr_args r (ra_args r) (?x (k + 4) ?b1) = (True, a, ?x (k + 4 + length bs) ?b2)"
    using mem_encodes_at [OF assms(1) assms(3), where k = "k + 4" and sz = sz and buf = ?b1] assms(4,5,6) len by simp
  have p3: "put ?n (?x k ?b2) = (True, ?n, ?x (k + 4) (store k (be32 ?n) ?b2))"
    using mem_encodes_at [OF assms(1) assms(2), where k = k and sz = sz and buf = ?b2] assms(4,5,6) len by simp
  have b3: "store k (be32 ?n) ?b2 = store k (be32 ?n @ bs) buf"
    using store_again [of k "be32 ?n" bs buf "be32 (ra_arglen r)"] assms(4,5) by simp
  have n: "of_nat (k + 4 + length bs) - of_nat (k + 4) = ?n" by simp
  note pos = mem_pos_at [OF assms(1)]
  have set1: "XDR_SETPOS (?x (k + 4 + length bs) ?b2) (of_nat k) = (True, ?x k ?b2)"
    by (rule pos(2)) (use assms in simp_all)
  have set2: "XDR_SETPOS (?x (k + 4) buf) (of_nat (k + 4 + length bs)) = (True, ?x (k + 4 + length bs) buf)" for buf
    by (rule pos(2)) (use assms in simp_all)
  show ?thesis
    unfolding rmtcall_sized_def Let_def pos(1)
    by (simp add: p1 p2 p3 set1 set2 b3 n pos(1) del: of_nat_add)
qed

context xdr_source
begin

lemma decodes_svc_rmtcall_args:
  assumes "length bs \<le> 9000"
  shows "decodes svc_rmtcall_args z
    (z\<lparr>rmt_prog := p, rmt_vers := v, rmt_proc := c, rmt_args := (counted_into (fst (rmt_args z)) bs, of_nat (length bs))\<rparr>)
    ((be32 p @ be32 v @ be32 c) @ enc_counted bs) (counted_blocks (fst (rmt_args z)) bs)"
proof -
  obtain sp n where z: "rmt_args z = (sp, n)" by (rule prod.exhaust)
  have args: "decodes xdr_encap_parms (sp, n) (counted_into sp bs, of_nat (length bs)) (enc_counted bs) (counted_blocks sp bs)"
    unfolding xdr_encap_parms_def by (rule decodes_counted) (simp add: assms)
  show ?thesis
    unfolding svc_rmtcall_args_def append_assoc
    by (rule decodes_val, (rule decodes_seq decodes_ints | simp add: z, rule args)+) (simp_all add: z)
qed

end

text \<open>
  C23: the arguments of a remote call, encoded by \<open>xdr_rpcb_rmtcallargs\<close> (version 3 and 4) or
  \<open>xdr_rmtcall_args\<close> (version 2) into a buffer whose addresses do not pass 2^31: the length that was
  not known at first is the length of the arguments, the buffer holds the three numbers, the length
  and the arguments, and the port mapper reads from it the call and the untouched bytes of its
  arguments.
\<close>

theorem rmtcallargs_arrive:
  assumes "mem_encodes (ra_xdr_args r) (ra_args r) a bs" and "length bs mod 4 = 0" and "length bs \<le> 9000"
    and "16 + length bs \<le> unat sz" and "unat sz \<le> length buf" and "length buf < 2 ^ 63" and "low_room addr sz"
    and "send = xdr_rpcb_rmtcallargs \<or> send = xdr_rmtcall_args"
  shows "case send r (xdrmem_create addr buf sz XDR_ENCODE m) of (ok, r', x) \<Rightarrow>
    ok \<and> ra_arglen r' = of_nat (length bs) \<and> XDR_GETPOS x = of_nat (16 + length bs) \<and>
    xm_buf (x_private x) = store 0 (be32 (ra_prog r) @ be32 (ra_vers r) @ be32 (ra_proc r) @ enc_counted bs) buf \<and>
    (case svc_rmtcall_args z (xdrmem_create addr' (xm_buf (x_private x)) sz XDR_DECODE
        (h + counted_blocks (fst (rmt_args z)) bs)) of
       (ok', a', y) \<Rightarrow> ok' \<and> x_mem y = h \<and>
         a' = z\<lparr>rmt_prog := ra_prog r, rmt_vers := ra_vers r, rmt_proc := ra_proc r,
               rmt_args := (counted_into (fst (rmt_args z)) bs, of_nat (length bs))\<rparr>)"
proof -
  let ?x = "\<lambda>ops k buf. mkXDR XDR_ENCODE ops (mem_at addr sz k buf) m"
  let ?hd = "be32 (ra_prog r) @ be32 (ra_vers r) @ be32 (ra_proc r)"
  let ?r = "r\<lparr>ra_args := a, ra_arglen := of_nat (length bs)\<rparr>"
  let ?out = "?hd @ enc_counted bs"
  have opq: "enc_opaque bs = bs" using assms(2) by (simp add: enc_opaque_def xdr_pad_def)
  obtain ops where ops: "mem_ops ops" and start: "xdrmem_create addr buf sz XDR_ENCODE m = ?x ops 0 buf"
    by (rule xdrmem_create_ops [of addr buf sz XDR_ENCODE m]) (auto simp: mem_at_def)
  have len: "length (store 0 ?hd buf) = length buf"
    using assms(4,5) by (simp add: store_def)
  have out: "store 12 (be32 (of_nat (length bs)) @ bs) (store 0 ?hd buf) = store 0 ?out buf"
    using store_append [of 0 ?hd buf "be32 (of_nat (length bs)) @ bs"] assms(4,5) by (simp add: enc_counted_def opq)
  have sized: "rmtcall_sized put r (?x ops 12 (store 0 ?hd buf)) = (True, ?r, ?x ops (16 + length bs) (store 0 ?out buf))"
    if "\<And>v. mem_encodes put v v (be32 v)" for put
    using rmtcall_sized_at [OF ops that assms(1), where k = 12 and sz = sz and buf = "store 0 ?hd buf"] assms(4-7) len
    by (simp add: out ac_simps)
  have words: "p r (?x ops 0 buf) = (True, r, ?x ops 12 (store 0 ?hd buf))" if "mem_encodes p r r ?hd" for p
    using mem_encodes_at [OF ops that, where k = 0 and sz = sz and buf = buf and addr = addr and m = m] assms(4-6) by simp
  have sent: "send r (xdrmem_create addr buf sz XDR_ENCODE m) = (True, ?r, ?x ops (16 + length bs) (store 0 ?out buf))"
    using assms(8)
  proof
    assume "send = xdr_rpcb_rmtcallargs"
    then show ?thesis
      using words [OF conjI [OF mem_aligned.encodes_rpcb_rmtcall_head mem_unaligned.encodes_rpcb_rmtcall_head]]
        sized [of xdr_u_int] mem_aligned.encodes_ints(4) mem_unaligned.encodes_ints(4)
      by (simp add: xdr_rpcb_rmtcallargs_def start)
  next
    assume v2: "send = xdr_rmtcall_args"
    have "xdr_rmtcall_args r x = (case xdr_seq [xdr_field ra_prog ra_prog_update xdr_u_long,
        xdr_field ra_vers ra_vers_update xdr_u_long, xdr_field ra_proc ra_proc_update xdr_u_long] r x of
          (ok, r, x) \<Rightarrow> if ok then rmtcall_sized xdr_u_long r x else (False, r, x))" for x
      by (simp add: xdr_rmtcall_args_def split: prod.split)
    then show ?thesis
      using words [OF conjI [OF mem_aligned.encodes_rmtcall_numbers(1) mem_unaligned.encodes_rmtcall_numbers(1)]]
        sized [of xdr_u_long] mem_aligned.encodes_ints(2) mem_unaligned.encodes_ints(2)
      by (simp add: v2 start del: xdr_seq.simps(2))
  qed
  have buf: "length (store 0 ?out buf) = length buf" "take (length ?out) (store 0 ?out buf) = ?out" "length ?out = 16 + length bs"
    using assms(4,5) by (simp_all add: store_def enc_counted_def opq)
  obtain y where "svc_rmtcall_args z (xdrmem_create addr' (store 0 ?out buf) sz XDR_DECODE
      (h + counted_blocks (fst (rmt_args z)) bs)) =
      (True, z\<lparr>rmt_prog := ra_prog r, rmt_vers := ra_vers r, rmt_proc := ra_proc r,
         rmt_args := (counted_into (fst (rmt_args z)) bs, of_nat (length bs))\<rparr>, y)" "x_mem y = h"
    by (rule xdrmem_decode [OF mem_aligned.decodes_svc_rmtcall_args [OF assms(3)]
          mem_unaligned.decodes_svc_rmtcall_args [OF assms(3)], of "ra_prog r" "ra_vers r" "ra_proc r" sz])
      (use assms buf in simp_all)
  moreover have "xm_buf (mem_at addr sz k b) = b" for k b by (simp add: mem_at_def)
  ultimately show ?thesis
    using mem_pos_at(1) [OF ops, of XDR_ENCODE addr sz "16 + length bs" "store 0 ?out buf" m]
    by (simp add: sent del: of_nat_add)
qed

definition sample_rmtcall :: "(xdr_mem, u32) rmtcallargs" where
  "sample_rmtcall = \<lparr>ra_prog = 100003, ra_vers = 3, ra_proc = 1, ra_arglen = 0, ra_args = 77, ra_xdr_args = xdr_u_int\<rparr>"

definition sample_rmtcall_area :: r_rmtcall_args where
  "sample_rmtcall_area = \<lparr>rmt_prog = 0, rmt_vers = 0, rmt_proc = 0, rmt_localvers = 3, rmt_uaddr = [], rmt_args = (None, 0)\<rparr>"

theorem rmtcallargs_arrive_witness:
  "case xdr_rpcb_rmtcallargs sample_rmtcall (xdrmem_create 0x1000 (replicate 40 0) 40 XDR_ENCODE 0) of (ok, r', x) \<Rightarrow>
    ok \<and> ra_arglen r' = of_nat (length (be32 77)) \<and> XDR_GETPOS x = of_nat (16 + length (be32 77)) \<and>
    xm_buf (x_private x) = store 0 (be32 (ra_prog sample_rmtcall) @ be32 (ra_vers sample_rmtcall) @
      be32 (ra_proc sample_rmtcall) @ enc_counted (be32 77)) (replicate 40 0) \<and>
    (case svc_rmtcall_args sample_rmtcall_area (xdrmem_create 0x2000 (xm_buf (x_private x)) 40 XDR_DECODE
        (0 + counted_blocks (fst (rmt_args sample_rmtcall_area)) (be32 77))) of
       (ok', a', y) \<Rightarrow> ok' \<and> x_mem y = 0 \<and>
         a' = sample_rmtcall_area\<lparr>rmt_prog := ra_prog sample_rmtcall, rmt_vers := ra_vers sample_rmtcall,
           rmt_proc := ra_proc sample_rmtcall,
           rmt_args := (counted_into (fst (rmt_args sample_rmtcall_area)) (be32 77), of_nat (length (be32 77)))\<rparr>)"
  by (rule rmtcallargs_arrive [where a = 77])
    (simp_all add: sample_rmtcall_def mem_aligned.encodes_ints mem_unaligned.encodes_ints low_room_def)

text \<open>
  In a buffer whose addresses pass 2^31, \<open>XDR_SETPOS\<close> refuses to go back to the length. The filters
  do not look at what it returns: the place holder stays and the length follows the arguments.
\<close>

lemma rmtcallargs_high_buffer:
  "case xdr_rpcb_rmtcallargs sample_rmtcall (xdrmem_create 0x7ffffff0 (replicate 40 0) 40 XDR_ENCODE 0) of (ok, r', x) \<Rightarrow>
    ok \<and> load 12 12 (xm_buf (x_private x)) = be32 0 @ be32 77 @ be32 4"
  by code_simp

end
