(* ===== verification/Rpc_Uaddr.thy ===== *)
theory Rpc_Uaddr
  imports Rpcb_Prot
begin

text \<open>
  Universal addresses: \<open>taddr2uaddr\<close> and \<open>uaddr2taddr\<close> of \<open>libsrc/rpc_generic.c\<close>, with the parts of the
  C library they use (\<open>atoi\<close>, \<open>strrchr\<close>, \<open>inet_ntop\<close> and \<open>inet_pton\<close> for IPv4, and \<open>sscanf\<close> with
  \<open>%d\<close>, which the port mapper uses on the same addresses). A socket address is the block of bytes of
  its \<open>sockaddr\<close> structure. What \<open>inet_ntop\<close> and \<open>inet_pton\<close> do for IPv6 is a parameter.

  The main facts: with the condition that other systems compile, an IPv4 address and its port survive
  the conversion to a universal address and back; with the condition compiled on Windows no universal
  address of an IPv4 address is converted back.
\<close>

section \<open>Numerals\<close>

definition digit :: "nat \<Rightarrow> byte" where
  "digit d = of_nat (48 + d)"

fun dec :: "nat \<Rightarrow> byte list" where
  "dec n = (if n < 10 then [digit n] else dec (n div 10) @ [digit (n mod 10)])"

definition isdigit :: "byte \<Rightarrow> bool" where
  "isdigit c \<longleftrightarrow> 48 \<le> c \<and> c \<le> 57"

definition isspace :: "byte \<Rightarrow> bool" where
  "isspace c \<longleftrightarrow> c = 32 \<or> 9 \<le> c \<and> c \<le> 13"

definition digits_val :: "byte list \<Rightarrow> nat" where
  "digits_val ds = foldl (\<lambda>v d. 10 * v + (unat d - 48)) 0 ds"

text \<open>
  What \<open>%d\<close> takes from a text: white space, a sign and digits, of which there must be some; the
  number and the rest of the text. A number that does not fit into an \<open>int\<close> is undefined in C and only
  its value modulo 2^32 is used.
\<close>

definition scan_sign :: "byte list \<Rightarrow> bool \<times> byte list" where
  "scan_sign s = (case s of [] \<Rightarrow> (False, []) | c # r \<Rightarrow> if c = 45 then (True, r) else if c = 43 then (False, r) else (False, s))"

definition scan_int :: "byte list \<Rightarrow> (int \<times> byte list) option" where
  "scan_int s =
     (case scan_sign (dropWhile isspace s) of (neg, r) \<Rightarrow>
      let ds = takeWhile isdigit r; v = int (digits_val ds) in
      if ds = [] then None else Some (if neg then - v else v, dropWhile isdigit r))"

definition atoi :: "byte list \<Rightarrow> int" where
  "atoi s = (case scan_int s of None \<Rightarrow> 0 | Some (v, _) \<Rightarrow> v)"

text \<open>\<open>sscanf(s, "%d.%d. ... .%d", ...)\<close> with \<open>n\<close> numbers; \<open>None\<close> when not all were assigned.\<close>

fun scan_dots :: "nat \<Rightarrow> byte list \<Rightarrow> int list option" where
  "scan_dots 0 s = Some []"
| "scan_dots (Suc n) s =
     (case scan_int s of None \<Rightarrow> None
      | Some (v, r) \<Rightarrow>
          if n = 0 then Some [v]
          else case r of [] \<Rightarrow> None
            | c # r \<Rightarrow> if c = 46 then map_option ((#) v) (scan_dots n r) else None)"

text \<open>The text before the last dot and the text after it.\<close>

fun last_dot :: "byte list \<Rightarrow> (byte list \<times> byte list) option" where
  "last_dot [] = None"
| "last_dot (c # s) =
     (case last_dot s of Some (a, b) \<Rightarrow> Some (c # a, b)
      | None \<Rightarrow> if c = 46 then Some ([], s) else None)"

section \<open>Internet addresses\<close>

definition inet_ntop4 :: "byte list \<Rightarrow> byte list" where
  "inet_ntop4 a = dec (unat (a ! 0)) @ 46 # dec (unat (a ! 1)) @ 46 # dec (unat (a ! 2)) @ 46 # dec (unat (a ! 3))"

fun split_dots :: "byte list \<Rightarrow> byte list list" where
  "split_dots [] = [[]]"
| "split_dots (c # s) = (if c = 46 then [] # split_dots s else (c # hd (split_dots s)) # tl (split_dots s))"

definition inet_pton4 :: "byte list \<Rightarrow> byte list option" where
  "inet_pton4 s =
     (let fs = split_dots s in
      if length fs = 4 \<and> (\<forall>f \<in> set fs. f \<noteq> [] \<and> length f \<le> 3 \<and> list_all isdigit f \<and> digits_val f \<le> 255)
      then Some (map (\<lambda>f. of_nat (digits_val f)) fs) else None)"

text \<open>
  \<open>struct sockaddr_in\<close> and \<open>struct sockaddr_in6\<close>: the family in the byte order of the machine, the
  port in that of the network, and the address; \<open>struct sockaddr_un\<close> has its length after the family.
\<close>

datatype family = AF_INET | AF_INET6 | AF_LOCAL | AF_OTHER

fun af_bytes :: "family \<Rightarrow> byte list" where
  "af_bytes AF_INET = [2, 0]"
| "af_bytes AF_INET6 = [23, 0]"
| "af_bytes AF_LOCAL = [99, 0]"
| "af_bytes AF_OTHER = [0, 0]"

definition htons :: "u32 \<Rightarrow> byte list" where
  "htons p = [ucast (drop_bit 8 p), ucast p]"

definition ntohs :: "byte list \<Rightarrow> nat" where
  "ntohs b = unat (b ! 0) * 256 + unat (b ! 1)"

definition sockaddr_in :: "u32 \<Rightarrow> byte list \<Rightarrow> byte list" where
  "sockaddr_in port addr = af_bytes AF_INET @ htons port @ addr @ zeros 8"

definition sockaddr_in6 :: "u32 \<Rightarrow> byte list \<Rightarrow> byte list" where
  "sockaddr_in6 port addr = af_bytes AF_INET6 @ htons port @ zeros 4 @ addr @ zeros 4"

definition netbuf_of :: "byte list \<Rightarrow> netbuf" where
  "netbuf_of sa = \<lparr>nb_maxlen = of_nat (length sa), nb_len = of_nat (length sa), nb_buf = Some sa\<rparr>"

text \<open>
  \<open>struct sockaddr_un\<close> is 112 bytes; \<open>SUN_LEN\<close> counts the four bytes that are not the path, and the
  path is at most 107 bytes with a NUL after it.
\<close>

definition sockaddr_un :: "byte list \<Rightarrow> netbuf" where
  "sockaddr_un addrstr =
     (let path = take 107 addrstr; len = 4 + length path in
      \<lparr>nb_maxlen = of_nat len, nb_len = of_nat len,
       nb_buf = Some (af_bytes AF_LOCAL @ of_nat len # path @ zeros (109 - length path))\<rparr>)"

text \<open>\<open>taddr2uaddr\<close>; \<open>ntop6\<close> is \<open>inet_ntop\<close> for IPv6, and the heap counts the string.\<close>

definition taddr2uaddr_af :: "(byte list \<Rightarrow> byte list option) \<Rightarrow> family \<Rightarrow> netbuf \<Rightarrow> nat \<Rightarrow> byte list option \<times> nat" where
  "taddr2uaddr_af ntop6 af nb heap =
     (let sa = deref (nb_buf nb);
          asprintf = (\<lambda>namebuf. let port = ntohs (load 2 2 sa) in
            if heap = 0 then (None, heap)
            else (Some (namebuf @ 46 # dec (port div 256) @ 46 # dec (port mod 256) @ [0]), heap - 1)) in
      case af of
        AF_INET \<Rightarrow> if nb_len nb < 16 then (None, heap) else asprintf (inet_ntop4 (load 4 4 sa))
      | AF_INET6 \<Rightarrow> if nb_len nb < 28 then (None, heap)
          else (case ntop6 (load 8 16 sa) of None \<Rightarrow> (None, heap) | Some name \<Rightarrow> asprintf name)
      | AF_LOCAL \<Rightarrow> if heap = 0 then (None, heap) else (Some (cstr (load 3 107 sa) @ [0]), heap - 1)
      | AF_OTHER \<Rightarrow> (None, heap))"

text \<open>
  \<open>uaddr2taddr\<close>. \<open>win32\<close> is which of the two conditions before the port is compiled; past the end of
  the text the buffer is read as NUL. \<open>junk\<close> is what a block from \<open>malloc\<close> holds: a structure that was
  allocated but not filled is returned as it is.
\<close>

definition char_at :: "byte list \<Rightarrow> nat \<Rightarrow> byte" where
  "char_at s i = (if i < length s then s ! i else 0)"

definition has_port :: "bool \<Rightarrow> byte list \<Rightarrow> bool" where
  "has_port win32 s \<longleftrightarrow>
     (if win32 then char_at s 0 \<noteq> 47 \<and> char_at s 1 = 58 \<and> char_at s 2 \<noteq> 47 else char_at s 0 \<noteq> 47)"

definition split_port :: "byte list \<Rightarrow> (byte list \<times> u32) option" where
  "split_port s =
     (case last_dot s of None \<Rightarrow> None
      | Some (s, lo) \<Rightarrow>
          (case last_dot s of None \<Rightarrow> None
           | Some (s, hi) \<Rightarrow> Some (s, push_bit 8 (of_int (atoi hi)) OR of_int (atoi lo))))"

definition uaddr2taddr_af ::
  "bool \<Rightarrow> (byte list \<Rightarrow> byte list option) \<Rightarrow> netbuf \<Rightarrow> family \<Rightarrow> byte list option \<Rightarrow> nat \<Rightarrow> netbuf option \<times> nat" where
  "uaddr2taddr_af win32 pton6 junk af uaddr heap =
     (case uaddr of None \<Rightarrow> (None, heap)
      | Some u \<Rightarrow>
          if heap = 0 then (None, heap)
          else case (if has_port win32 (cstr u) then split_port (cstr u) else Some (cstr u, 0)) of
            None \<Rightarrow> (None, heap)
          | Some (addrstr, port) \<Rightarrow>
              if heap - 1 = 0 then (None, heap)
              else let fill = (\<lambda>sa. if heap - 2 = 0 then (Some junk, heap - 1)
                     else case sa of None \<Rightarrow> (None, heap) | Some sa \<Rightarrow> (Some (netbuf_of sa), heap - 2)) in
              case af of
                AF_INET \<Rightarrow> fill (map_option (sockaddr_in port) (inet_pton4 addrstr))
              | AF_INET6 \<Rightarrow> fill (map_option (sockaddr_in6 port) (pton6 addrstr))
              | AF_LOCAL \<Rightarrow>
                  (if heap - 2 = 0 then (Some junk, heap - 1)
                   else (Some (sockaddr_un addrstr), heap - 2))
              | AF_OTHER \<Rightarrow> (Some junk, heap - 1))"

section \<open>Network ids\<close>

definition na_cvt :: "(byte list \<times> family \<times> nat) list" where
  "na_cvt =
     [([117, 100, 112], AF_INET, 17), ([116, 99, 112], AF_INET, 6),
      ([117, 100, 112, 54], AF_INET6, 17), ([116, 99, 112, 54], AF_INET6, 6),
      ([108, 111, 99, 97, 108], AF_LOCAL, 0)]"

record netconfig =
  nc_netid :: "byte list"
  nc_semantics :: u32
  nc_protofmly :: "byte list"
  nc_proto :: "byte list"

text \<open>\<open>NC_TPI_CLTS\<close> is 1, \<open>NC_TPI_COTS_ORD\<close> 3 and \<open>NC_TPI_RAW\<close> 4; \<open>SOCK_STREAM\<close> is 1, \<open>SOCK_DGRAM\<close> 2 and \<open>SOCK_RAW\<close> 3.\<close>

definition seman2socktype :: "u32 \<Rightarrow> int" where
  "seman2socktype semantics = (if semantics = 1 then 2 else if semantics = 3 then 1 else if semantics = 4 then 3 else - 1)"

definition socktype2seman :: "int \<Rightarrow> int" where
  "socktype2seman socktype = (if socktype = 2 then 1 else if socktype = 1 then 3 else if socktype = 3 then 4 else - 1)"

definition get_a_size :: "family \<Rightarrow> nat" where
  "get_a_size af = (case af of AF_INET \<Rightarrow> 16 | AF_INET6 \<Rightarrow> 28 | AF_LOCAL \<Rightarrow> 112 | AF_OTHER \<Rightarrow> 1024)"

record sockinfo =
  si_af :: family
  si_proto :: nat
  si_socktype :: int
  si_alen :: nat

definition nconf2sockinfo :: "netconfig \<Rightarrow> sockinfo option" where
  "nconf2sockinfo nconf =
     (case List.find (\<lambda>(netid, _). netid = cstr (nc_netid nconf)) na_cvt of None \<Rightarrow> None
      | Some (_, af, proto) \<Rightarrow>
          let st = seman2socktype (nc_semantics nconf) in
          if st = - 1 then None
          else Some \<lparr>si_af = af, si_proto = proto, si_socktype = st, si_alen = get_a_size af\<rparr>)"

definition sockinfo2netid :: "sockinfo \<Rightarrow> byte list option" where
  "sockinfo2netid si = map_option fst (List.find (\<lambda>(_, af, proto). af = si_af si \<and> proto = si_proto si) na_cvt)"

definition taddr2uaddr :: "(byte list \<Rightarrow> byte list option) \<Rightarrow> netconfig \<Rightarrow> netbuf \<Rightarrow> nat \<Rightarrow> byte list option \<times> nat" where
  "taddr2uaddr ntop6 nconf nb heap =
     (case nconf2sockinfo nconf of None \<Rightarrow> (None, heap) | Some si \<Rightarrow> taddr2uaddr_af ntop6 (si_af si) nb heap)"

definition uaddr2taddr ::
  "bool \<Rightarrow> (byte list \<Rightarrow> byte list option) \<Rightarrow> netbuf \<Rightarrow> netconfig \<Rightarrow> byte list option \<Rightarrow> nat \<Rightarrow> netbuf option \<times> nat" where
  "uaddr2taddr win32 pton6 junk nconf uaddr heap =
     (case nconf2sockinfo nconf of None \<Rightarrow> (None, heap)
      | Some si \<Rightarrow> uaddr2taddr_af win32 pton6 junk (si_af si) uaddr heap)"


section \<open>Printed numbers and dotted texts\<close>

declare dec.simps [simp del]

lemma unat_digit [simp]: "d < 10 \<Longrightarrow> unat (digit d) = 48 + d"
  unfolding digit_def by (simp add: unsigned_of_nat take_bit_nat_eq_self del: of_nat_add)

lemma isdigit_unat: "isdigit c \<longleftrightarrow> 48 \<le> unat c \<and> unat c \<le> 57"
  unfolding isdigit_def by (simp add: word_le_nat_alt)

lemma isdigit_digit [simp]: "d < 10 \<Longrightarrow> isdigit (digit d)"
  by (simp add: isdigit_unat)

lemma digits_val_snoc [simp]: "digits_val (ds @ [d]) = 10 * digits_val ds + (unat d - 48)"
  by (simp add: digits_val_def)

lemma dec_ne [simp]: "dec n \<noteq> []"
  by (subst dec.simps) simp

lemma dec_digits: "list_all isdigit (dec n)"
proof (induction n rule: dec.induct)
  case (1 n)
  then show ?case by (cases "n < 10") (simp_all add: dec.simps [of n])
qed

lemma digits_val_dec [simp]: "digits_val (dec n) = n"
proof (induction n rule: dec.induct)
  case (1 n)
  then show ?case by (cases "n < 10") (simp_all add: dec.simps [of n] digits_val_def [of "[digit n]"])
qed

lemma dec_length: "n < 1000 \<Longrightarrow> length (dec n) \<le> 3"
  by (subst dec.simps, subst dec.simps, subst dec.simps) auto

lemma isdigit_in_dec: "c \<in> set (dec n) \<Longrightarrow> isdigit c"
  using dec_digits [of n] by (simp add: list_all_iff)

lemma dec_no_dot [simp]: "46 \<notin> set (dec n)" and dec_no_nul [simp]: "0 \<notin> set (dec n)"
  using isdigit_in_dec [of 46 n] isdigit_in_dec [of 0 n] by (auto simp: isdigit_unat)

text \<open>A digit is neither white space nor a sign.\<close>

lemma isdigit_plain: "isdigit c \<Longrightarrow> \<not> isspace c \<and> c \<noteq> 45 \<and> c \<noteq> 43"
  unfolding isspace_def isdigit_unat by (auto simp: word_le_nat_alt)

lemma takeWhile_digits: "list_all P ds \<Longrightarrow> (case r of [] \<Rightarrow> True | c # _ \<Rightarrow> \<not> P c) \<Longrightarrow> takeWhile P (ds @ r) = ds \<and> dropWhile P (ds @ r) = r"
  by (induction ds) (auto split: list.splits)

lemma scan_int_dec: "(case r of [] \<Rightarrow> True | c # _ \<Rightarrow> \<not> isdigit c) \<Longrightarrow> scan_int (dec n @ r) = Some (int n, r)"
proof -
  assume r: "case r of [] \<Rightarrow> True | c # _ \<Rightarrow> \<not> isdigit c"
  obtain d ds where d: "dec n = d # ds" by (cases "dec n") auto
  have "isdigit d" using isdigit_in_dec [of d n] d by simp
  then have "scan_sign (dropWhile isspace (dec n @ r)) = (False, dec n @ r)"
    using isdigit_plain [of d] by (simp add: d scan_sign_def)
  then show ?thesis
    using takeWhile_digits [OF dec_digits [of n] r] by (simp add: scan_int_def)
qed

lemma atoi_dec [simp]: "atoi (dec n) = int n"
  using scan_int_dec [of "[]" n] by (simp add: atoi_def)

lemma last_dot_none [simp]: "46 \<notin> set t \<Longrightarrow> last_dot t = None"
  by (induction t) auto

lemma last_dot_app [simp]: "46 \<notin> set t \<Longrightarrow> last_dot (s @ 46 # t) = Some (s, t)"
  by (induction s) auto

lemma split_dots_none [simp]: "46 \<notin> set t \<Longrightarrow> split_dots t = [t]"
  by (induction t) auto

lemma split_dots_app [simp]: "46 \<notin> set t \<Longrightarrow> split_dots (t @ 46 # s) = t # split_dots s"
  by (induction t) auto

section \<open>Printing an address and reading it back\<close>

lemma byte_bound: "unat (b :: byte) < 256"
proof -
  have "unat b < 2 ^ LENGTH(8)" by (rule unsigned_less)
  then show ?thesis by simp
qed

lemma inet_pton4_ntop4 [simp]: "length a = 4 \<Longrightarrow> inet_pton4 (inet_ntop4 a) = Some a"
proof -
  assume "length a = 4"
  then obtain p q r s where a: "a = [p, q, r, s]" by (auto simp: numeral_eq_Suc length_Suc_conv)
  have len: "length (dec (unat (b :: byte))) \<le> 3" for b
    using byte_bound [of b] by (intro dec_length) simp
  have le: "unat (b :: byte) \<le> 255" for b using byte_bound [of b] by simp
  show ?thesis
    unfolding inet_pton4_def inet_ntop4_def a by (simp add: Let_def len le dec_digits)
qed

text \<open>The text of an IPv4 universal address.\<close>

definition uaddr4 :: "byte list \<Rightarrow> u32 \<Rightarrow> byte list" where
  "uaddr4 addr port = inet_ntop4 addr @ 46 # dec (unat port div 256) @ 46 # dec (unat port mod 256)"

lemma uaddr4_no_nul [simp]: "0 \<notin> set (uaddr4 addr port)"
  by (simp add: uaddr4_def inet_ntop4_def)

lemma cstr_text [simp]: "0 \<notin> set s \<Longrightarrow> cstr (s @ [0]) = s"
  unfolding cstr_def by (induction s) auto

lemma ntohs_htons [simp]: "p < 65536 \<Longrightarrow> ntohs (htons p) = unat p"
proof -
  assume "p < 65536"
  then have "unat p < 65536" by (simp add: word_less_nat_alt)
  then show ?thesis
    unfolding ntohs_def htons_def
    by (simp add: unsigned_ucast_eq unsigned_drop_bit_eq drop_bit_eq_div take_bit_eq_mod unat_div_distrib)
qed

lemma taddr2uaddr_in:
  assumes "length addr = 4" "p < 65536"
  shows "taddr2uaddr_af ntop6 AF_INET (netbuf_of (sockaddr_in p addr)) heap =
           (if heap = 0 then (None, heap) else (Some (uaddr4 addr p @ [0]), heap - 1))"
proof -
  have "load 2 2 (sockaddr_in p addr) = htons p" "load 4 4 (sockaddr_in p addr) = addr" "length (sockaddr_in p addr) = 16"
    using assms(1) by (simp_all add: sockaddr_in_def load_def htons_def zeros_def)
  then show ?thesis
    using assms by (simp add: taddr2uaddr_af_def netbuf_of_def uaddr4_def Let_def)
qed

lemma split_port_uaddr4:
  assumes "p < 65536"
  shows "split_port (uaddr4 addr p) = Some (inet_ntop4 addr, p)"
proof -
  have u: "uaddr4 addr p = (inet_ntop4 addr @ 46 # dec (unat p div 256)) @ 46 # dec (unat p mod 256)"
    by (simp add: uaddr4_def)
  have lt: "unat p div 256 < 2 ^ 32" using assms by (simp add: word_less_nat_alt)
  have hi: "of_nat (unat p div 256) = drop_bit 8 p"
    using lt by (simp add: word_unat_eq_iff unsigned_drop_bit_eq drop_bit_eq_div unsigned_of_nat take_bit_nat_eq_self unat_div_distrib)
  have lo: "of_nat (unat p mod 256) = take_bit 8 p"
    by (simp add: word_unat_eq_iff unsigned_take_bit_eq take_bit_eq_mod unsigned_of_nat unat_mod_distrib)
  have "push_bit 8 (drop_bit 8 p) OR take_bit 8 p = p"
    by (rule bit_eqI) (auto simp: bit_simps)
  moreover have "last_dot (uaddr4 addr p) = Some (inet_ntop4 addr @ 46 # dec (unat p div 256), dec (unat p mod 256))"
    unfolding u by (rule last_dot_app) simp
  moreover have "last_dot (inet_ntop4 addr @ 46 # dec (unat p div 256)) = Some (inet_ntop4 addr, dec (unat p div 256))"
    by (rule last_dot_app) simp
  ultimately show ?thesis
    by (simp add: split_port_def hi lo del: of_nat_div of_nat_mod)
qed

lemma char_at_uaddr4: "char_at (uaddr4 addr p) 0 \<noteq> 47" "char_at (uaddr4 addr p) 1 \<noteq> 58"
proof -
  obtain d ds where d: "dec (unat (addr ! 0)) = d # ds" by (cases "dec (unat (addr ! 0))") auto
  have dig: "isdigit d" "\<forall>c \<in> set ds. isdigit c"
    using dec_digits [of "unat (addr ! 0)"] d by (auto simp: list_all_iff)
  have ne: "\<not> isdigit 47" "\<not> isdigit 58" by (simp_all add: isdigit_unat)
  show "char_at (uaddr4 addr p) 0 \<noteq> 47"
    using dig ne by (auto simp: char_at_def uaddr4_def inet_ntop4_def d)
  show "char_at (uaddr4 addr p) 1 \<noteq> 58"
    using dig ne by (cases ds) (auto simp: char_at_def uaddr4_def inet_ntop4_def d)
qed

lemma uaddr2taddr_in_win32:
  "uaddr2taddr_af True pton6 junk AF_INET (Some (uaddr4 addr p @ [0])) heap =
     (if heap = 2 then Some junk else None, if heap = 2 then 1 else heap)"
proof -
  have "inet_pton4 (uaddr4 addr p) = None"
    by (simp add: inet_pton4_def uaddr4_def inet_ntop4_def)
  then show ?thesis
    using char_at_uaddr4 [of addr p] by (auto simp: uaddr2taddr_af_def has_port_def Let_def)
qed

lemma uaddr2taddr_in:
  assumes "length addr = 4" "p < 65536" "3 \<le> heap"
  shows "uaddr2taddr_af False pton6 junk AF_INET (Some (uaddr4 addr p @ [0])) heap =
           (Some (netbuf_of (sockaddr_in p addr)), heap - 2)"
  using assms char_at_uaddr4 [of addr p] split_port_uaddr4 [of p addr]
  by (auto simp: uaddr2taddr_af_def has_port_def Let_def)

text \<open>
  C27: An IPv4 address and port survive the universal address where the condition of the other systems
  is compiled: \<open>taddr2uaddr\<close> prints the \<open>sockaddr_in\<close> and \<open>uaddr2taddr\<close> of the text is that very
  structure, zero padding included, with the two blocks it allocates.
\<close>

theorem uaddr_roundtrip:
  assumes "nconf2sockinfo nconf = Some si" "si_af si = AF_INET" "length addr = 4" "p < 65536" "0 < h1" "3 \<le> h2"
  shows "\<exists>u. taddr2uaddr ntop6 nconf (netbuf_of (sockaddr_in p addr)) h1 = (Some u, h1 - 1) \<and>
             uaddr2taddr False pton6 junk nconf (Some u) h2 = (Some (netbuf_of (sockaddr_in p addr)), h2 - 2)"
  using assms by (simp add: taddr2uaddr_def uaddr2taddr_def taddr2uaddr_in uaddr2taddr_in)

definition udp_nconf :: netconfig where
  "udp_nconf = \<lparr>nc_netid = [117, 100, 112, 0], nc_semantics = 1, nc_protofmly = [105, 110, 101, 116, 0], nc_proto = [117, 100, 112, 0]\<rparr>"

lemma uaddr_roundtrip_witness:
  "\<exists>u. taddr2uaddr (\<lambda>_. None) udp_nconf (netbuf_of (sockaddr_in 2049 [10, 0, 0, 7])) 9 = (Some u, 8) \<and>
       uaddr2taddr False (\<lambda>_. None) (netbuf_of []) udp_nconf (Some u) 9 = (Some (netbuf_of (sockaddr_in 2049 [10, 0, 0, 7])), 7)"
  using uaddr_roundtrip [of udp_nconf "\<lparr>si_af = AF_INET, si_proto = 17, si_socktype = 2, si_alen = 16\<rparr>"
      "[10, 0, 0, 7]" 2049 9 9 "\<lambda>_. None" "\<lambda>_. None" "netbuf_of []"]
  by (simp add: nconf2sockinfo_def udp_nconf_def cstr_def na_cvt_def seman2socktype_def get_a_size_def)

text \<open>
  C28: With the condition compiled on Windows, which reads a port only where the second character is a
  colon, the universal address that \<open>taddr2uaddr\<close> prints for an IPv4 address and port is never
  converted back: \<open>uaddr2taddr\<close> returns NULL and frees what it had allocated (two blocks left in the
  heap is the one exception: then the structure that was not filled is returned).
\<close>

theorem uaddr2taddr_win32_fails:
  assumes "nconf2sockinfo nconf = Some si" "si_af si = AF_INET" "length addr = 4" "p < 65536" "0 < h1" "h2 \<noteq> 2"
  shows "\<exists>u. taddr2uaddr ntop6 nconf (netbuf_of (sockaddr_in p addr)) h1 = (Some u, h1 - 1) \<and>
             uaddr2taddr True pton6 junk nconf (Some u) h2 = (None, h2)"
  using assms by (simp add: taddr2uaddr_def uaddr2taddr_def taddr2uaddr_in uaddr2taddr_in_win32)

lemma uaddr2taddr_win32_fails_witness:
  "\<exists>u. taddr2uaddr (\<lambda>_. None) udp_nconf (netbuf_of (sockaddr_in 111 [127, 0, 0, 1])) 9 = (Some u, 8) \<and>
       uaddr2taddr True (\<lambda>_. None) (netbuf_of []) udp_nconf (Some u) 9 = (None, 9)"
  using uaddr2taddr_win32_fails [of udp_nconf "\<lparr>si_af = AF_INET, si_proto = 17, si_socktype = 2, si_alen = 16\<rparr>"
      "[127, 0, 0, 1]" 111 9 9 "\<lambda>_. None" "\<lambda>_. None" "netbuf_of []"]
  by (simp add: nconf2sockinfo_def udp_nconf_def cstr_def na_cvt_def seman2socktype_def get_a_size_def)

end
