(* ===== verification/Rpcb_Db.thy ===== *)
theory Rpcb_Db
  imports Rpc_Uaddr Svc
begin

text \<open>
  The port mapper's lists and the operations on them: \<open>rpcbind/rpcb_svc_com.c\<close> (set, unset, lookup,
  the version 2 list), \<open>rpcbind/check_bound.c\<close>, \<open>addrmerge\<close> of \<open>rpcbind/util.c\<close>, the statistics of
  \<open>rpcbind/rpcb_stat.c\<close>, and the address list of \<open>rpcbind/rpcb_svc_4.c\<close>.

  A linked list is the list of its nodes' contents. \<open>db_heap\<close> is how many further allocations the
  port mapper is granted; every node and every string it owns is one block. What the library looks up
  for it (the network configuration, the interfaces, whether an address can be bound) is a parameter.
\<close>

section \<open>State\<close>

record ifaddr =
  ifa_addr :: "byte list"
  ifa_netmask :: "byte list"
  ifa_up :: bool
  ifa_loopback :: bool
  ifa_ptp :: bool

text \<open>
  The configuration: what is compiled (\<open>portmap\<close> is \<open>PORTMAP\<close>), what \<open>main\<close> has set up, and the
  library. \<open>bindable\<close> is what \<open>bind\<close> says on a fresh socket, \<open>None\<close> when there is no socket.
\<close>

record rpcb_env =
  portmap :: bool
  win32 :: bool
  iff_pointopoint :: bool
  ntop6 :: "byte list \<Rightarrow> byte list option"
  pton6 :: "byte list \<Rightarrow> byte list option"
  junk_netbuf :: netbuf
  udptrans :: "byte list"
  tcptrans :: "byte list"
  udp_uaddr :: "byte list option"
  tcp_uaddr :: "byte list option"
  insecure :: bool
  oldstyle_local :: bool
  getnetconfigent :: "byte list \<Rightarrow> netconfig option"
  bindable :: "netconfig \<Rightarrow> netbuf \<Rightarrow> bool option"
  ifaddrs :: "ifaddr list option"

record fdlist =
  fd_nconf :: netconfig
  check_binding :: bool

text \<open>The value of a static \<open>char *\<close>: \<open>NULL\<close>, a \<open>nullstring\<close> or a string in the heap.\<close>

datatype static_str = SNull | SEmpty | SHeap "byte list"

text \<open>
  A call that was forwarded and waits for its reply: the \<open>struct finfo\<close>, with the caller's address as
  the bytes of its \<open>netbuf\<close>. \<open>forwards\<close> holds the table \<open>FINFO\<close>, the counters of \<open>rpcb_svc_com.c\<close>, the
  transports to forward on (\<open>rmthead\<close>, each a descriptor, a network and a handle), the maximum that
  \<open>svc_fdset_getmax\<close> points to, and the datagrams that were forwarded, the last one first.
\<close>

record finfo =
  fi_active :: bool
  fi_caller_xid :: u32
  fi_caller_addr :: "byte list"
  fi_forward_xid :: u32
  fi_forward_fd :: int
  fi_uaddr :: "byte list option"
  fi_reply_type :: u32
  fi_versnum :: u32
  fi_time :: int

record forwards =
  fw_table :: "finfo list"
  fw_rmtcalls :: int
  fw_lastxid :: u32
  fw_rmthead :: "(int \<times> byte list option \<times> nat) list"
  fw_fdmax :: int
  fw_sent :: "(int \<times> byte list \<times> byte list) list"

record rpcb_db =
  list_rbl :: "RPCB list"
  list_pml :: "pmap list"
  fdhead :: "fdlist list"
  db_inf :: "rpcb_stat list"
  getaddr_uaddr :: static_str
  taddr2uaddr_uaddr :: static_str
  uaddr2taddr_taddr :: "netbuf option"
  addrlist_rlist :: "rpcb_entry list"
  db_heap :: nat
  db_fwd :: forwards

text \<open>Who calls: the transport's network, the address of the caller, and the user of its credentials.\<close>

record rpcb_caller =
  cl_netid :: "byte list"
  cl_rtaddr :: "byte list option"
  cl_uid :: "u32 option"

section \<open>Strings and memory\<close>

definition strcmp_eq :: "byte list \<Rightarrow> byte list \<Rightarrow> bool" where
  "strcmp_eq a b \<longleftrightarrow> cstr a = cstr b"

definition tolower :: "byte \<Rightarrow> byte" where
  "tolower c = (if 65 \<le> c \<and> c \<le> 90 then c + 32 else c)"

definition strcasecmp_eq :: "byte list \<Rightarrow> byte list \<Rightarrow> bool" where
  "strcasecmp_eq a b \<longleftrightarrow> map tolower (cstr a) = map tolower (cstr b)"

definition strdup :: "byte list \<Rightarrow> nat \<Rightarrow> byte list option \<times> nat" where
  "strdup s heap = (if heap = 0 then (None, heap) else (Some (cstr s @ [0]), heap - 1))"

definition freed :: "byte list option \<Rightarrow> nat" where
  "freed p = (case p of None \<Rightarrow> 0 | Some _ \<Rightarrow> 1)"

definition free_static :: "static_str \<Rightarrow> nat" where
  "free_static u = (case u of SHeap _ \<Rightarrow> 1 | _ \<Rightarrow> 0)"

section \<open>Registrations\<close>

definition superuser :: "byte list" where
  "superuser = [115, 117, 112, 101, 114, 117, 115, 101, 114]"

definition unknown_user :: "byte list" where
  "unknown_user = [117, 110, 107, 110, 111, 119, 110]"

definition sdec :: "int \<Rightarrow> byte list" where
  "sdec i = (if i < 0 then 45 # dec (nat (- i)) else dec (nat i))"

definition getowner :: "u32 option \<Rightarrow> byte list" where
  "getowner uid =
     (case uid of None \<Rightarrow> unknown_user
      | Some uid \<Rightarrow> if uid = 0 then superuser else sdec (sint uid)) @ [0]"

text \<open>The version asked for, or the last one of the program.\<close>

definition other_service :: "u32 \<Rightarrow> byte list \<Rightarrow> RPCB \<Rightarrow> bool" where
  "other_service prog netid rbl \<longleftrightarrow>
     r_prog rbl \<noteq> prog \<or> r_netid rbl \<noteq> None \<and> \<not> strcasecmp_eq (deref (r_netid rbl)) netid"

fun find_service_from :: "u32 \<Rightarrow> u32 \<Rightarrow> byte list \<Rightarrow> RPCB option \<Rightarrow> RPCB list \<Rightarrow> RPCB option" where
  "find_service_from prog vers netid hit [] = hit"
| "find_service_from prog vers netid hit (rbl # rbls) =
     (if other_service prog netid rbl then find_service_from prog vers netid hit rbls
      else if r_vers rbl = vers then Some rbl
      else find_service_from prog vers netid (Some rbl) rbls)"

definition find_service :: "u32 \<Rightarrow> u32 \<Rightarrow> byte list \<Rightarrow> RPCB list \<Rightarrow> RPCB option" where
  "find_service prog vers netid rbls = find_service_from prog vers netid None rbls"

fun find_versions_from :: "u32 \<Rightarrow> byte list \<Rightarrow> u32 \<Rightarrow> u32 \<Rightarrow> RPCB list \<Rightarrow> u32 \<times> u32" where
  "find_versions_from prog netid lowv highv [] = (lowv, highv)"
| "find_versions_from prog netid lowv highv (rbl # rbls) =
     (if other_service prog netid rbl then find_versions_from prog netid lowv highv rbls
      else if lowv = 0 then find_versions_from prog netid (r_vers rbl) (r_vers rbl) rbls
      else if r_vers rbl < lowv then find_versions_from prog netid (r_vers rbl) highv rbls
      else if r_vers rbl > highv then find_versions_from prog netid lowv (r_vers rbl) rbls
      else find_versions_from prog netid lowv highv rbls)"

definition find_versions :: "u32 \<Rightarrow> byte list \<Rightarrow> RPCB list \<Rightarrow> u32 \<times> u32" where
  "find_versions prog netid rbls = find_versions_from prog netid 0 0 rbls"

text \<open>The list of version 2; \<open>IPPROTO_UDP\<close> is 17 and \<open>IPPROTO_TCP\<close> 6.\<close>

definition pmap_prot :: "rpcb_env \<Rightarrow> byte list \<Rightarrow> u32 option" where
  "pmap_prot env netid =
     (if strcmp_eq netid (udptrans env) then Some 17
      else if strcmp_eq netid (tcptrans env) then Some 6 else None)"

definition uaddr_port :: "byte list \<Rightarrow> u32 option" where
  "uaddr_port uaddr =
     (case scan_dots 6 (cstr uaddr) of None \<Rightarrow> None
      | Some hs \<Rightarrow> Some (push_bit 8 (of_int (hs ! 4) AND 0xff) + (of_int (hs ! 5) AND 0xff)))"

definition add_pmaplist :: "rpcb_env \<Rightarrow> RPCB \<Rightarrow> rpcb_db \<Rightarrow> rpcb_db" where
  "add_pmaplist env regp s =
     (case pmap_prot env (deref (r_netid regp)) of None \<Rightarrow> s
      | Some prot \<Rightarrow>
          (case uaddr_port (deref (r_addr regp)) of None \<Rightarrow> s
           | Some port \<Rightarrow>
               if db_heap s = 0 then s
               else s\<lparr>db_heap := db_heap s - 1,
                      list_pml := list_pml s @
                        [\<lparr>pm_prog = r_prog regp, pm_vers = r_vers regp, pm_prot = prot, pm_port = port\<rparr>]\<rparr>))"

definition pml_kept :: "RPCB \<Rightarrow> u32 \<Rightarrow> pmap \<Rightarrow> bool" where
  "pml_kept regp prot p \<longleftrightarrow> pm_prog p \<noteq> r_prog regp \<or> pm_vers p \<noteq> r_vers regp \<or> prot \<noteq> 0 \<and> pm_prot p \<noteq> prot"

definition del_pmaplist :: "rpcb_env \<Rightarrow> RPCB \<Rightarrow> rpcb_db \<Rightarrow> rpcb_db" where
  "del_pmaplist env regp s =
     (case (case pmap_prot env (deref (r_netid regp)) of Some prot \<Rightarrow> Some prot
            | None \<Rightarrow> if cstr (deref (r_netid regp)) = [] then Some 0 else None) of
        None \<Rightarrow> s
      | Some prot \<Rightarrow>
          s\<lparr>list_pml := filter (pml_kept regp prot) (list_pml s),
            db_heap := db_heap s + length (filter (\<lambda>p. \<not> pml_kept regp prot p) (list_pml s))\<rparr>)"

definition rpcb_new :: "RPCB \<Rightarrow> byte list \<Rightarrow> nat \<Rightarrow> RPCB option \<times> nat" where
  "rpcb_new regp owner heap =
     (if heap = 0 then (None, heap)
      else case strdup (deref (r_netid regp)) (heap - 1) of (netid, heap) \<Rightarrow>
      case strdup (deref (r_addr regp)) heap of (addr, heap) \<Rightarrow>
      case strdup owner heap of (own, heap) \<Rightarrow>
      if addr = None \<or> netid = None \<or> own = None
      then (None, heap + freed netid + freed addr + freed own + 1)
      else (Some \<lparr>r_prog = r_prog regp, r_vers = r_vers regp, r_netid = netid, r_addr = addr, r_owner = own\<rparr>, heap))"

definition map_set :: "rpcb_env \<Rightarrow> RPCB \<Rightarrow> byte list \<Rightarrow> rpcb_db \<Rightarrow> bool \<times> rpcb_db" where
  "map_set env regp owner s =
     (let fnd = find_service (r_prog regp) (r_vers regp) (deref (r_netid regp)) (list_rbl s) in
      if fnd \<noteq> None \<and> r_vers (the fnd) = r_vers regp
      then (strcmp_eq (deref (r_addr (the fnd))) (deref (r_addr regp)), s)
      else case rpcb_new regp owner (db_heap s) of
        (None, heap) \<Rightarrow> (False, s\<lparr>db_heap := heap\<rparr>)
      | (Some rbl, heap) \<Rightarrow>
          let s = s\<lparr>db_heap := heap, list_rbl := list_rbl s @ [rbl]\<rparr> in
          (True, if portmap env then add_pmaplist env regp s else s))"

definition unset_match :: "RPCB \<Rightarrow> RPCB \<Rightarrow> bool" where
  "unset_match regp rbl \<longleftrightarrow>
     \<not> (r_prog rbl \<noteq> r_prog regp \<or> r_vers rbl \<noteq> r_vers regp \<or>
        cstr (deref (r_netid regp)) \<noteq> [] \<and> \<not> strcasecmp_eq (deref (r_netid regp)) (deref (r_netid rbl)))"

definition rpcb_blocks :: "RPCB \<Rightarrow> nat" where
  "rpcb_blocks rbl = freed (r_addr rbl) + freed (r_netid rbl) + freed (r_owner rbl) + 1"

text \<open>Whether the walk came to the end, \<open>ans\<close>, what is left of the list, and the blocks freed.\<close>

fun unset_loop :: "RPCB \<Rightarrow> byte list \<Rightarrow> bool \<Rightarrow> RPCB list \<Rightarrow> bool \<times> bool \<times> RPCB list \<times> nat" where
  "unset_loop regp owner ans [] = (True, ans, [], 0)"
| "unset_loop regp owner ans (rbl # rbls) =
     (if \<not> unset_match regp rbl
      then case unset_loop regp owner ans rbls of (end, ans, rest, n) \<Rightarrow> (end, ans, rbl # rest, n)
      else if \<not> strcmp_eq owner superuser \<and> \<not> strcmp_eq (deref (r_owner rbl)) owner
      then (False, ans, rbl # rbls, 0)
      else case unset_loop regp owner True rbls of (end, ans, rest, n) \<Rightarrow> (end, ans, rest, rpcb_blocks rbl + n))"

definition map_unset :: "rpcb_env \<Rightarrow> RPCB \<Rightarrow> byte list option \<Rightarrow> rpcb_db \<Rightarrow> bool \<times> rpcb_db" where
  "map_unset env regp owner s =
     (case owner of None \<Rightarrow> (False, s)
      | Some owner \<Rightarrow>
          (case unset_loop regp owner False (list_rbl s) of (end, ans, rest, n) \<Rightarrow>
           let s = s\<lparr>list_rbl := rest, db_heap := db_heap s + n\<rparr> in
           if \<not> end then (False, s)
           else (True, if portmap env \<and> ans then del_pmaplist env regp s else s)))"

section \<open>Whether an address is still bound\<close>

definition add_bndlist :: "rpcb_env \<Rightarrow> netconfig \<Rightarrow> rpcb_db \<Rightarrow> bool \<times> rpcb_db" where
  "add_bndlist env nconf s =
     (case getnetconfigent env (cstr (nc_netid nconf)) of None \<Rightarrow> (False, s)
      | Some newnconf \<Rightarrow>
          if db_heap s = 0 then (False, s)
          else (True, s\<lparr>db_heap := db_heap s - 1,
                        fdhead := fdhead s @ [\<lparr>fd_nconf = newnconf, check_binding = False\<rparr>]\<rparr>))"

definition find_fdlist :: "byte list \<Rightarrow> fdlist list \<Rightarrow> fdlist option" where
  "find_fdlist netid fdls = List.find (\<lambda>fdl. strcmp_eq (nc_netid (fd_nconf fdl)) netid) fdls"

definition check_bound :: "rpcb_env \<Rightarrow> fdlist \<Rightarrow> byte list option \<Rightarrow> nat \<Rightarrow> bool" where
  "check_bound env fdl uaddr heap =
     (if \<not> check_binding fdl then True
      else case fst (uaddr2taddr (win32 env) (pton6 env) (junk_netbuf env) (fd_nconf fdl) uaddr heap) of
        None \<Rightarrow> True
      | Some na \<Rightarrow> (case bindable env (fd_nconf fdl) na of None \<Rightarrow> True | Some ok \<Rightarrow> \<not> ok))"

definition is_bound :: "rpcb_env \<Rightarrow> byte list \<Rightarrow> byte list option \<Rightarrow> rpcb_db \<Rightarrow> bool" where
  "is_bound env netid uaddr s =
     (case find_fdlist netid (fdhead s) of None \<Rightarrow> True
      | Some fdl \<Rightarrow> check_bound env fdl uaddr (db_heap s))"

definition rpcbind_get_conf :: "byte list \<Rightarrow> rpcb_db \<Rightarrow> netconfig option" where
  "rpcbind_get_conf netid s = map_option fd_nconf (find_fdlist netid (fdhead s))"

text \<open>
  \<open>delete_prog\<close> walks the list and unsets entries on the way. An entry that \<open>map_unset\<close> has freed is
  the one the walk stands on, whose \<open>rpcb_next\<close> is read next.
\<close>

fun delete_prog_from :: "rpcb_env \<Rightarrow> u32 \<Rightarrow> RPCB list \<Rightarrow> rpcb_db \<Rightarrow> rpcb_db run" where
  "delete_prog_from env prog [] s = Ret s"
| "delete_prog_from env prog (rbl # rbls) s =
     (if r_prog rbl \<noteq> prog then delete_prog_from env prog rbls s
      else if is_bound env (deref (r_netid rbl)) (r_addr rbl) s then delete_prog_from env prog rbls s
      else case strdup (deref (r_netid rbl)) (db_heap s) of
        (None, _) \<Rightarrow> delete_prog_from env prog rbls s
      | (Some netid, heap) \<Rightarrow>
          let reg = \<lparr>r_prog = r_prog rbl, r_vers = r_vers rbl, r_netid = Some netid, r_addr = None, r_owner = None\<rparr>;
              s = snd (map_unset env reg (Some superuser) (s\<lparr>db_heap := heap\<rparr>));
              s = s\<lparr>db_heap := db_heap s + 1\<rparr>
          in if unset_match reg rbl then Fault else delete_prog_from env prog rbls s)"

definition delete_prog :: "rpcb_env \<Rightarrow> u32 \<Rightarrow> rpcb_db \<Rightarrow> rpcb_db run" where
  "delete_prog env prog s = delete_prog_from env prog (list_rbl s) s"

section \<open>Merging an address with that of the caller\<close>

definition bitmaskcmp :: "byte list \<Rightarrow> byte list \<Rightarrow> byte list \<Rightarrow> nat \<Rightarrow> bool" where
  "bitmaskcmp dst src netmask bytelen =
     list_ex (\<lambda>i. list_ex (\<lambda>j. bit (netmask ! i) j \<and> bit (dst ! i) j \<noteq> bit (src ! i) j) [0..<8]) [0..<bytelen]"

definition sa_family :: "byte list \<Rightarrow> family" where
  "sa_family sa =
     (if take 2 sa = af_bytes AF_INET then AF_INET else if take 2 sa = af_bytes AF_INET6 then AF_INET6
      else if take 2 sa = af_bytes AF_LOCAL then AF_LOCAL else AF_OTHER)"

definition socklen_sockaddr :: "byte list \<Rightarrow> nat" where
  "socklen_sockaddr sa = (if sa_family sa = AF_INET6 then 28 else 16)"

definition linklocal6 :: "byte list \<Rightarrow> bool" where
  "linklocal6 a \<longleftrightarrow> a ! 0 = 0xfe \<and> a ! 1 AND 0xc0 = 0x80"

text \<open>
  The walk over the interfaces: the one on the client's network; or the last one of the family that
  was looked at, into which the code's pointers still point; or a family it does not know.
\<close>

datatype picked = Picked ifaddr | Unpicked "ifaddr option" | Unknown_family

fun pick_if :: "byte list \<Rightarrow> byte list \<Rightarrow> ifaddr list \<Rightarrow> ifaddr option \<Rightarrow> picked" where
  "pick_if clnt clnt_sa [] seen = Unpicked seen"
| "pick_if clnt clnt_sa (i # is) seen =
     (if sa_family (ifa_addr i) \<noteq> sa_family clnt \<or> \<not> ifa_up i then pick_if clnt clnt_sa is seen
      else case sa_family clnt of
        AF_INET \<Rightarrow>
          if \<not> bitmaskcmp (load 4 4 (ifa_addr i)) (load 4 4 clnt_sa) (load 4 4 (ifa_netmask i)) 4 then Picked i
          else pick_if clnt clnt_sa is (Some i)
      | AF_INET6 \<Rightarrow>
          if linklocal6 (load 8 16 (ifa_addr i)) \<and> linklocal6 (load 8 16 clnt) \<and> linklocal6 (load 8 16 clnt_sa)
          then if load 24 4 (ifa_addr i) \<noteq> load 24 4 clnt then pick_if clnt clnt_sa is (Some i) else Picked i
          else if \<not> bitmaskcmp (load 8 16 (ifa_addr i)) (load 8 16 clnt_sa) (load 8 16 (ifa_netmask i)) 16 then Picked i
          else pick_if clnt clnt_sa is (Some i)
      | _ \<Rightarrow> Unknown_family)"

fun best_if :: "bool \<Rightarrow> byte list \<Rightarrow> ifaddr list \<Rightarrow> ifaddr option \<Rightarrow> ifaddr option" where
  "best_if ptp clnt [] bestif = bestif"
| "best_if ptp clnt (i # is) bestif =
     (if sa_family (ifa_addr i) \<noteq> sa_family clnt \<or> \<not> ifa_up i then best_if ptp clnt is bestif
      else if \<not> ifa_loopback i \<and> \<not> (ptp \<and> ifa_ptp i) then Some i
      else case bestif of None \<Rightarrow> best_if ptp clnt is (Some i)
      | Some b \<Rightarrow> best_if ptp clnt is (if ifa_loopback b \<and> \<not> ifa_loopback i then Some i else bestif))"

text \<open>
  The address of the interface with the port of the service. With no interface of the family, the
  code copies through pointers that were never set.
\<close>

definition merge_found :: "rpcb_env \<Rightarrow> netconfig \<Rightarrow> byte list \<Rightarrow> byte list \<Rightarrow> byte list \<Rightarrow> ifaddr list \<Rightarrow> nat \<Rightarrow> (byte list option \<times> nat) run" where
  "merge_found env nconf clnt clnt_sa serv_sa ifs heap =
     (let print = (\<lambda>ifaddr. Ret (taddr2uaddr (ntop6 env) nconf
            (netbuf_of (store 2 (load 2 2 serv_sa) (take (socklen_sockaddr clnt_sa) ifaddr))) heap)) in
      case pick_if clnt clnt_sa ifs None of
        Unknown_family \<Rightarrow> Ret (None, heap)
      | Picked i \<Rightarrow> print (ifa_addr i)
      | Unpicked seen \<Rightarrow>
          (case sa_family clnt of
             AF_INET \<Rightarrow> (case best_if (iff_pointopoint env) clnt ifs None of None \<Rightarrow> Fault | Some i \<Rightarrow> print (ifa_addr i))
           | AF_INET6 \<Rightarrow> (case seen of None \<Rightarrow> Fault | Some i \<Rightarrow> print (ifa_addr i))
           | _ \<Rightarrow> Ret (None, heap)))"

definition addrmerge ::
  "rpcb_env \<Rightarrow> byte list option \<Rightarrow> byte list \<Rightarrow> byte list option \<Rightarrow> byte list \<Rightarrow> nat \<Rightarrow> (byte list option \<times> nat) run" where
  "addrmerge env caller serv_uaddr clnt_uaddr netid heap =
     (let to_taddr = (\<lambda>nconf uaddr. uaddr2taddr (win32 env) (pton6 env) (junk_netbuf env) nconf (Some uaddr));
          merge = (\<lambda>nconf serv clnt_sa blocks heap.
            (case ifaddrs env of None \<Rightarrow> Ret (None, heap + (blocks - 1))
             | Some ifs \<Rightarrow>
                 (case caller of None \<Rightarrow> Fault
                  | Some clnt \<Rightarrow>
                      run_bind (merge_found env nconf clnt clnt_sa (deref (nb_buf serv)) ifs heap) (\<lambda>(ret, heap).
                        Ret (ret, heap + blocks))))) in
      case getnetconfigent env (cstr netid) of None \<Rightarrow> Ret (None, heap)
      | Some nconf \<Rightarrow>
          if clnt_uaddr \<noteq> None \<and> take 8 (cstr (deref clnt_uaddr)) = [48, 46, 48, 46, 48, 46, 48, 46]
          then Ret (strdup (deref clnt_uaddr) heap)
          else case to_taddr nconf serv_uaddr heap of (None, heap) \<Rightarrow> Ret (None, heap)
          | (Some serv, heap) \<Rightarrow>
              (case clnt_uaddr of
                 Some clnt_uaddr \<Rightarrow>
                   (case to_taddr nconf clnt_uaddr heap of (None, heap) \<Rightarrow> Ret (None, heap + 1)
                    | (Some clnt_nb, heap) \<Rightarrow>
                        if sa_family (deref (nb_buf clnt_nb)) = AF_LOCAL
                        then Ret (strdup serv_uaddr (heap + 3))
                        else merge nconf serv (deref (nb_buf clnt_nb)) 4 heap)
               | None \<Rightarrow>
                   (case caller of None \<Rightarrow> Fault
                    | Some clnt \<Rightarrow>
                        if heap = 0 then Ret (None, heap + 1)
                        else merge nconf serv (take (socklen_sockaddr clnt) clnt) 3 (heap - 1))))"

text \<open>
  Without an address of the caller and without a hint, \<open>taddr2uaddr\<close> is given an empty \<open>netbuf\<close>: it
  fails, or reads a \<open>sockaddr_un\<close> through NULL.
\<close>

definition mergeaddr :: "rpcb_env \<Rightarrow> rpcb_caller \<Rightarrow> byte list \<Rightarrow> byte list \<Rightarrow> byte list option \<Rightarrow> rpcb_db \<Rightarrow> (static_str \<times> rpcb_db) run" where
  "mergeaddr env cl netid uaddr saddr s =
     (case find_fdlist netid (fdhead s) of None \<Rightarrow> Ret (SNull, s)
      | Some fdl \<Rightarrow>
          if \<not> check_bound env fdl (Some uaddr) (db_heap s) then Ret (SEmpty, s)
          else run_bind (case cl_rtaddr cl of
                Some sa \<Rightarrow> (case taddr2uaddr (ntop6 env) (fd_nconf fdl) (netbuf_of sa) (db_heap s) of (c, heap) \<Rightarrow> Ret (c, freed c, heap))
              | None \<Rightarrow>
                  if saddr = None \<and> map_option si_af (nconf2sockinfo (fd_nconf fdl)) = Some AF_LOCAL then Fault
                  else Ret (saddr, 0, db_heap s)) (\<lambda>(c_uaddr, allocated, heap).
          case c_uaddr of None \<Rightarrow> Ret (SNull, s\<lparr>db_heap := heap\<rparr>)
          | Some c_uaddr \<Rightarrow>
              run_bind (addrmerge env (cl_rtaddr cl) uaddr (Some c_uaddr) netid heap) (\<lambda>(m, heap).
                Ret (case m of None \<Rightarrow> SNull | Some m \<Rightarrow> SHeap m, s\<lparr>db_heap := heap + allocated\<rparr>))))"

section \<open>Statistics\<close>

definition upd_stat :: "u32 \<Rightarrow> (rpcb_stat \<Rightarrow> rpcb_stat) \<Rightarrow> rpcb_db \<Rightarrow> rpcb_db" where
  "upd_stat rtype f s = s\<lparr>db_inf := (db_inf s)[unat rtype := f (db_inf s ! unat rtype)]\<rparr>"

abbreviation (input) RPCBVERS_STAT :: u32 where "RPCBVERS_STAT \<equiv> 3"

definition rpcbs_procinfo :: "rpcb_env \<Rightarrow> u32 \<Rightarrow> u32 \<Rightarrow> rpcb_db \<Rightarrow> rpcb_db" where
  "rpcbs_procinfo env rtype proc s =
     (let highproc = (if rtype + 2 = 2 \<and> portmap env then Some 5 else if rtype + 2 = 3 then Some 8
                      else if rtype + 2 = 4 then Some 12 else None) in
      case highproc of None \<Rightarrow> s
      | Some high \<Rightarrow>
          if proc > high then s
          else upd_stat rtype (\<lambda>st. st\<lparr>st_info := (st_info st)[unat proc := st_info st ! unat proc + 1]\<rparr>) s)"

definition rpcbs_set :: "u32 \<Rightarrow> bool \<Rightarrow> rpcb_db \<Rightarrow> rpcb_db" where
  "rpcbs_set rtype success s =
     (if rtype \<ge> RPCBVERS_STAT \<or> \<not> success then s
      else upd_stat rtype (\<lambda>st. st\<lparr>st_setinfo := st_setinfo st + 1\<rparr>) s)"

definition rpcbs_unset :: "u32 \<Rightarrow> bool \<Rightarrow> rpcb_db \<Rightarrow> rpcb_db" where
  "rpcbs_unset rtype success s =
     (if rtype \<ge> RPCBVERS_STAT \<or> \<not> success then s
      else upd_stat rtype (\<lambda>st. st\<lparr>st_unsetinfo := st_unsetinfo st + 1\<rparr>) s)"

text \<open>The entry counted, \<open>None\<close> when there is none, and whether the walk stopped at an entry without a network.\<close>

fun count_addr :: "u32 \<Rightarrow> u32 \<Rightarrow> byte list \<Rightarrow> bool \<Rightarrow> rpcbs_addr list \<Rightarrow> bool \<times> rpcbs_addr list" where
  "count_addr prog vers netid failed [] = (False, [])"
| "count_addr prog vers netid failed (al # als) =
     (case al_netid al of None \<Rightarrow> (True, al # als)
      | Some n \<Rightarrow>
          if al_prog al = prog \<and> al_vers al = vers \<and> strcmp_eq n netid
          then (True, (if failed then al\<lparr>al_failure := al_failure al + 1\<rparr> else al\<lparr>al_success := al_success al + 1\<rparr>) # als)
          else case count_addr prog vers netid failed als of (found, als) \<Rightarrow> (found, al # als))"

definition rpcbs_getaddr :: "u32 \<Rightarrow> u32 \<Rightarrow> u32 \<Rightarrow> byte list \<Rightarrow> byte list option \<Rightarrow> rpcb_db \<Rightarrow> rpcb_db" where
  "rpcbs_getaddr rtype prog vers netid uaddr s =
     (if rtype \<ge> RPCBVERS_STAT then s
      else let failed = (uaddr = None \<or> cstr (deref uaddr) = []) in
      case count_addr prog vers netid failed (st_addrinfo (db_inf s ! unat rtype)) of (found, als) \<Rightarrow>
      if found then upd_stat rtype (st_addrinfo_update (\<lambda>_. als)) s
      else case rpcbind_get_conf netid s of None \<Rightarrow> s
      | Some nconf \<Rightarrow>
          if db_heap s = 0 then s
          else upd_stat rtype (st_addrinfo_update ((#)
            \<lparr>al_prog = prog, al_vers = vers, al_success = if failed then 0 else 1,
             al_failure = if failed then 1 else 0, al_netid = Some (nc_netid nconf)\<rparr>)) (s\<lparr>db_heap := db_heap s - 1\<rparr>))"

fun count_rmtcall :: "u32 \<Rightarrow> u32 \<Rightarrow> u32 \<Rightarrow> byte list \<Rightarrow> bool \<Rightarrow> bool \<Rightarrow> rpcbs_rmtcall list \<Rightarrow> bool \<times> rpcbs_rmtcall list" where
  "count_rmtcall prog vers proc netid failed indirect [] = (False, [])"
| "count_rmtcall prog vers proc netid failed indirect (rl # rls) =
     (case rl_netid rl of None \<Rightarrow> (True, rl # rls)
      | Some n \<Rightarrow>
          if rl_prog rl = prog \<and> rl_vers rl = vers \<and> rl_proc rl = proc \<and> strcmp_eq n netid
          then let rl = (if failed then rl\<lparr>rl_failure := rl_failure rl + 1\<rparr> else rl\<lparr>rl_success := rl_success rl + 1\<rparr>);
                   rl = (if indirect then rl\<lparr>rl_indirect := rl_indirect rl + 1\<rparr> else rl)
               in (True, rl # rls)
          else case count_rmtcall prog vers proc netid failed indirect rls of (found, rls) \<Rightarrow> (found, rl # rls))"

text \<open>\<open>RPCBPROC_INDIRECT\<close> is 10; a new entry counts as indirect whatever the procedure.\<close>

definition rpcbs_rmtcall :: "u32 \<Rightarrow> u32 \<Rightarrow> u32 \<Rightarrow> u32 \<Rightarrow> u32 \<Rightarrow> byte list \<Rightarrow> RPCB option \<Rightarrow> rpcb_db \<Rightarrow> rpcb_db" where
  "rpcbs_rmtcall rtype rpcbproc prog vers proc netid rbl s =
     (if rtype \<ge> RPCBVERS_STAT then s
      else let failed = (rbl = None \<or> r_vers (the rbl) \<noteq> vers) in
      case count_rmtcall prog vers proc netid failed (rpcbproc = 10) (st_rmtinfo (db_inf s ! unat rtype)) of (found, rls) \<Rightarrow>
      if found then upd_stat rtype (st_rmtinfo_update (\<lambda>_. rls)) s
      else case rpcbind_get_conf netid s of None \<Rightarrow> s
      | Some nconf \<Rightarrow>
          if db_heap s = 0 then s
          else upd_stat rtype (st_rmtinfo_update ((#)
            \<lparr>rl_prog = prog, rl_vers = vers, rl_proc = proc, rl_success = if failed then 0 else 1,
             rl_failure = if failed then 1 else 0, rl_indirect = 1, rl_netid = Some (nc_netid nconf)\<rparr>))
            (s\<lparr>db_heap := db_heap s - 1\<rparr>))"

definition rpcbproc_getstat :: "rpcb_db \<Rightarrow> rpcb_stat list" where
  "rpcbproc_getstat s = db_inf s"

section \<open>The procedures of versions 3 and 4\<close>

definition rpcbproc_set_com :: "rpcb_env \<Rightarrow> RPCB \<Rightarrow> rpcb_caller \<Rightarrow> u32 \<Rightarrow> rpcb_db \<Rightarrow> bool \<times> rpcb_db" where
  "rpcbproc_set_com env regp cl rpcbversnum s =
     (case map_set env regp (getowner (cl_uid cl)) s of (ans, s) \<Rightarrow> (ans, rpcbs_set (rpcbversnum - 2) ans s))"

definition rpcbproc_unset_com :: "rpcb_env \<Rightarrow> RPCB \<Rightarrow> rpcb_caller \<Rightarrow> u32 \<Rightarrow> rpcb_db \<Rightarrow> bool \<times> rpcb_db" where
  "rpcbproc_unset_com env regp cl rpcbversnum s =
     (case map_unset env regp (Some (getowner (cl_uid cl))) s of (ans, s) \<Rightarrow> (ans, rpcbs_unset (rpcbversnum - 2) ans s))"

definition static_text :: "static_str \<Rightarrow> byte list option" where
  "static_text u = (case u of SNull \<Rightarrow> None | SEmpty \<Rightarrow> Some [0] | SHeap b \<Rightarrow> Some b)"

definition rpcbproc_getaddr_com ::
  "rpcb_env \<Rightarrow> RPCB \<Rightarrow> rpcb_caller \<Rightarrow> u32 \<Rightarrow> bool \<Rightarrow> rpcb_db \<Rightarrow> (byte list option \<times> rpcb_db) run" where
  "rpcbproc_getaddr_com env regp cl rpcbversnum allvers s =
     (let s = s\<lparr>db_heap := db_heap s + free_static (getaddr_uaddr s),
               getaddr_uaddr := case getaddr_uaddr s of SHeap _ \<Rightarrow> SNull | u \<Rightarrow> u\<rparr> in
      run_bind
        (case find_service (r_prog regp) (r_vers regp) (cl_netid cl) (list_rbl s) of
           None \<Rightarrow> Ret (SEmpty, s)
         | Some fnd \<Rightarrow>
             if \<not> (allvers \<or> r_vers regp = r_vers fnd) then Ret (SEmpty, s)
             else let saddr = (if cstr (deref (r_addr regp)) \<noteq> [] then r_addr regp else None) in
             run_bind (mergeaddr env cl (cl_netid cl) (deref (r_addr fnd)) saddr s) (\<lambda>(m, s).
               case m of
                 SNull \<Rightarrow> (case strdup (deref (r_addr fnd)) (db_heap s) of
                   (u, heap) \<Rightarrow> Ret (case u of None \<Rightarrow> SNull | Some u \<Rightarrow> SHeap u, s\<lparr>db_heap := heap\<rparr>))
               | SEmpty \<Rightarrow> run_bind (delete_prog env (r_prog regp) s) (\<lambda>s. Ret (SEmpty, s))
               | SHeap u \<Rightarrow>
                   if cstr u = [] then run_bind (delete_prog env (r_prog regp) s) (\<lambda>s. Ret (SEmpty, s))
                   else Ret (SHeap u, s)))
        (\<lambda>(u, s). Ret (static_text u,
           rpcbs_getaddr (rpcbversnum - 2) (r_prog regp) (r_vers regp) (cl_netid cl) (static_text u)
             (s\<lparr>getaddr_uaddr := u\<rparr>))))"

definition rpcbproc_uaddr2taddr_com :: "rpcb_env \<Rightarrow> byte list option \<Rightarrow> rpcb_caller \<Rightarrow> rpcb_db \<Rightarrow> netbuf \<times> rpcb_db" where
  "rpcbproc_uaddr2taddr_com env uaddr cl s =
     (let nbuf = \<lparr>nb_maxlen = 0, nb_len = 0, nb_buf = None\<rparr>;
          s = (case uaddr2taddr_taddr s of None \<Rightarrow> s
               | Some t \<Rightarrow> s\<lparr>db_heap := db_heap s + freed (nb_buf t) + 1, uaddr2taddr_taddr := None\<rparr>) in
      case rpcbind_get_conf (cl_netid cl) s of None \<Rightarrow> (nbuf, s)
      | Some nconf \<Rightarrow>
          (case uaddr2taddr (win32 env) (pton6 env) (junk_netbuf env) nconf uaddr (db_heap s) of
             (None, heap) \<Rightarrow> (nbuf, s\<lparr>db_heap := heap, uaddr2taddr_taddr := None\<rparr>)
           | (Some t, heap) \<Rightarrow> (t, s\<lparr>db_heap := heap, uaddr2taddr_taddr := Some t\<rparr>)))"

definition rpcbproc_taddr2uaddr_com :: "rpcb_env \<Rightarrow> netbuf \<Rightarrow> rpcb_caller \<Rightarrow> rpcb_db \<Rightarrow> byte list option \<times> rpcb_db" where
  "rpcbproc_taddr2uaddr_com env taddr cl s =
     (let s = s\<lparr>db_heap := db_heap s + free_static (taddr2uaddr_uaddr s)\<rparr> in
      case (case rpcbind_get_conf (cl_netid cl) s of None \<Rightarrow> (None, db_heap s)
            | Some nconf \<Rightarrow> taddr2uaddr (ntop6 env) nconf taddr (db_heap s)) of
        (u, heap) \<Rightarrow>
          let u = (case u of None \<Rightarrow> SEmpty | Some b \<Rightarrow> SHeap b) in
          (static_text u, s\<lparr>db_heap := heap, taddr2uaddr_uaddr := u\<rparr>))"

text \<open>
  The addresses of all transports of the caller's protocol family. \<open>None\<close> is no answer; the last
  merged address is kept for the statistics. \<open>delete_prog\<close> returns only when it freed nothing, so the
  walk goes on along the list as it was.
\<close>

definition free_rpcb_entry_list :: "rpcb_entry list \<Rightarrow> nat" where
  "free_rpcb_entry_list rlist = sum_list (map (\<lambda>e. freed (r_maddr e) + 1) rlist)"

fun getaddrlist_loop ::
  "rpcb_env \<Rightarrow> rpcb_caller \<Rightarrow> u32 \<Rightarrow> u32 \<Rightarrow> netconfig \<Rightarrow> byte list option \<Rightarrow> RPCB list \<Rightarrow> byte list option
     \<Rightarrow> rpcb_db \<Rightarrow> (byte list option option \<times> rpcb_db) run" where
  "getaddrlist_loop env cl prog vers reg_nconf saddr [] maddr s = Ret (Some maddr, s)"
| "getaddrlist_loop env cl prog vers reg_nconf saddr (rbl # rbls) maddr s =
     (let next = getaddrlist_loop env cl prog vers reg_nconf saddr rbls in
      if \<not> (r_prog rbl = prog \<and> r_vers rbl = vers) then next maddr s
      else case rpcbind_get_conf (deref (r_netid rbl)) s of None \<Rightarrow> Ret (None, s)
      | Some nconf \<Rightarrow>
          if \<not> strcmp_eq (nc_protofmly nconf) (nc_protofmly reg_nconf) then next maddr s
          else run_bind (mergeaddr env cl (deref (r_netid rbl)) (deref (r_addr rbl)) saddr s) (\<lambda>(m, s).
            case static_text m of None \<Rightarrow> next None s
            | Some text \<Rightarrow>
                if cstr text = [] then run_bind (delete_prog env prog s) (next (Some text))
                else if db_heap s = 0 then Ret (None, s)
                else next (Some text) (s\<lparr>db_heap := db_heap s - 1,
                  addrlist_rlist := addrlist_rlist s @
                    [\<lparr>r_maddr = Some text, r_nc_netid = Some (nc_netid nconf), r_nc_semantics = nc_semantics nconf,
                      r_nc_protofmly = Some (nc_protofmly nconf), r_nc_proto = Some (nc_proto nconf)\<rparr>]\<rparr>)))"

definition rpcbproc_getaddrlist_4 :: "rpcb_env \<Rightarrow> RPCB \<Rightarrow> rpcb_caller \<Rightarrow> rpcb_db \<Rightarrow> (rpcb_entry list option \<times> rpcb_db) run" where
  "rpcbproc_getaddrlist_4 env regp cl s =
     (let free = (\<lambda>s. s\<lparr>db_heap := db_heap s + free_rpcb_entry_list (addrlist_rlist s), addrlist_rlist := []\<rparr>);
          s = free s in
      case rpcbind_get_conf (cl_netid cl) s of None \<Rightarrow> Ret (None, s)
      | Some reg_nconf \<Rightarrow>
          let saddr = (if cstr (deref (r_addr regp)) \<noteq> [] then r_addr regp else None) in
          run_bind (getaddrlist_loop env cl (r_prog regp) (r_vers regp) reg_nconf saddr (list_rbl s) None s) (\<lambda>(r, s).
            case r of None \<Rightarrow> Ret (None, free s)
            | Some maddr \<Rightarrow>
                let s = rpcbs_getaddr 2 (r_prog regp) (r_vers regp) (cl_netid cl) maddr s in
                Ret (Some (addrlist_rlist s), s)))"

section \<open>What the port mapper registers of itself\<close>

definition rbllist_add :: "rpcb_env \<Rightarrow> u32 \<Rightarrow> u32 \<Rightarrow> netconfig \<Rightarrow> netbuf \<Rightarrow> rpcb_db \<Rightarrow> rpcb_db" where
  "rbllist_add env prog vers nconf addr s =
     (if db_heap s = 0 then s
      else case strdup (nc_netid nconf) (db_heap s - 1) of (netid, heap) \<Rightarrow>
      case taddr2uaddr (ntop6 env) nconf addr heap of (uaddr, heap) \<Rightarrow>
      case strdup superuser heap of (own, heap) \<Rightarrow>
      if netid = None \<or> uaddr = None \<or> own = None
      then s\<lparr>db_heap := heap + freed netid + freed uaddr + freed own + 1\<rparr>
      else s\<lparr>db_heap := heap,
             list_rbl := \<lparr>r_prog = prog, r_vers = vers, r_netid = netid, r_addr = uaddr, r_owner = own\<rparr> # list_rbl s\<rparr>)"

section \<open>What a lookup finds\<close>

lemma find_service_from_eq:
  "find_service_from prog vers netid hit rbls =
     (case List.find (\<lambda>r. \<not> other_service prog netid r \<and> r_vers r = vers) rbls of
        Some r \<Rightarrow> Some r
      | None \<Rightarrow> (case filter (\<lambda>r. \<not> other_service prog netid r) rbls of [] \<Rightarrow> hit | rs \<Rightarrow> Some (last rs)))"
  by (induction rbls arbitrary: hit) (auto split: list.splits option.splits)

text \<open>
  C29: a lookup finds the first registration with the program, the version and the network (compared
  without regard to case); without one it finds the last registration of the program on the network,
  and nothing when there is none.
\<close>

theorem find_service_finds:
  "find_service prog vers netid rbls =
     (case List.find (\<lambda>r. \<not> other_service prog netid r \<and> r_vers r = vers) rbls of
        Some r \<Rightarrow> Some r
      | None \<Rightarrow> (case filter (\<lambda>r. \<not> other_service prog netid r) rbls of [] \<Rightarrow> None | rs \<Rightarrow> Some (last rs)))"
  unfolding find_service_def by (rule find_service_from_eq)

text \<open>The lowest and the highest version, where no version is 0.\<close>

definition service_versions :: "u32 \<Rightarrow> byte list \<Rightarrow> RPCB list \<Rightarrow> u32 list" where
  "service_versions prog netid rbls = map r_vers (filter (\<lambda>r. \<not> other_service prog netid r) rbls)"

lemma find_versions_from_eq:
  assumes "lowv \<noteq> 0" "lowv \<le> highv" "0 \<notin> set (service_versions prog netid rbls)"
  shows "find_versions_from prog netid lowv highv rbls =
           (fold min (service_versions prog netid rbls) lowv, fold max (service_versions prog netid rbls) highv)"
  using assms
proof (induction rbls arbitrary: lowv highv)
  case (Cons r rbls)
  show ?case
  proof (cases "other_service prog netid r")
    case True
    with Cons show ?thesis by (simp add: service_versions_def)
  next
    case False
    have "min (r_vers r) lowv = (if r_vers r < lowv then r_vers r else lowv)"
      "max (r_vers r) highv = (if r_vers r > highv then r_vers r else highv)" by (auto simp: min_def max_def)
    moreover have "\<not> (r_vers r < lowv \<and> r_vers r > highv)" using Cons.prems(2) by auto
    ultimately show ?thesis
      using False Cons.prems Cons.IH [of "min (r_vers r) lowv" "max (r_vers r) highv"]
      by (auto simp: service_versions_def min_def max_def split: if_splits)
  qed
qed (simp add: service_versions_def)

section \<open>Keys\<close>

definition rpcb_key :: "RPCB \<Rightarrow> u32 \<times> u32 \<times> byte list" where
  "rpcb_key r = (r_prog r, r_vers r, map tolower (cstr (deref (r_netid r))))"

definition strings_set :: "RPCB \<Rightarrow> bool" where
  "strings_set r \<longleftrightarrow> r_netid r \<noteq> None \<and> r_addr r \<noteq> None \<and> r_owner r \<noteq> None"

definition registered :: "RPCB list \<Rightarrow> u32 \<times> u32 \<times> byte list \<Rightarrow> (byte list \<times> byte list) option" where
  "registered rbls k =
     map_option (\<lambda>r. (cstr (deref (r_addr r)), cstr (deref (r_owner r)))) (List.find (\<lambda>r. rpcb_key r = k) rbls)"

definition list_ok :: "RPCB list \<Rightarrow> bool" where
  "list_ok rbls \<longleftrightarrow> distinct (map rpcb_key rbls) \<and> list_all strings_set rbls"

lemma registered_map_of:
  "registered rbls = map_of (map (\<lambda>r. (rpcb_key r, cstr (deref (r_addr r)), cstr (deref (r_owner r)))) rbls)"
proof
  fix k
  show "registered rbls k = map_of (map (\<lambda>r. (rpcb_key r, cstr (deref (r_addr r)), cstr (deref (r_owner r)))) rbls) k"
    unfolding registered_def by (induction rbls) auto
qed

lemma registered_None: "registered rbls k = None \<longleftrightarrow> k \<notin> rpcb_key ` set rbls"
  by (auto simp: registered_def find_None_iff)

lemma find_snoc: "List.find P (xs @ [x]) = (case List.find P xs of Some y \<Rightarrow> Some y | None \<Rightarrow> if P x then Some x else None)"
  by (induction xs) auto

lemma registered_append: "rpcb_key r \<notin> rpcb_key ` set rbls \<Longrightarrow>
   registered (rbls @ [r]) = (registered rbls)(rpcb_key r \<mapsto> (cstr (deref (r_addr r)), cstr (deref (r_owner r))))"
  unfolding registered_None [symmetric]
  by (rule ext) (auto simp: registered_def find_snoc split: option.splits)

lemma find_exact:
  assumes "list_all strings_set rbls"
  shows "List.find (\<lambda>r. \<not> other_service prog netid r \<and> r_vers r = vers) rbls =
           List.find (\<lambda>r. rpcb_key r = (prog, vers, map tolower (cstr netid))) rbls"
  using assms by (induction rbls) (auto simp: other_service_def strcasecmp_eq_def rpcb_key_def strings_set_def)

text \<open>Whether the version asked for is what \<open>find_service\<close> found.\<close>

lemma find_service_exact:
  assumes "list_all strings_set rbls"
  shows "(case find_service prog vers netid rbls of
            Some r \<Rightarrow> if r_vers r = vers then Some r else None | None \<Rightarrow> None) =
         List.find (\<lambda>r. rpcb_key r = (prog, vers, map tolower (cstr netid))) rbls"
proof (cases "List.find (\<lambda>r. \<not> other_service prog netid r \<and> r_vers r = vers) rbls")
  case None
  have "r_vers (last rs) \<noteq> vers" if "filter (\<lambda>r. \<not> other_service prog netid r) rbls = rs" "rs \<noteq> []" for rs
  proof -
    have "last rs \<in> set (filter (\<lambda>r. \<not> other_service prog netid r) rbls)"
      using that last_in_set [of rs] by simp
    then show ?thesis using None by (auto simp: find_None_iff)
  qed
  then show ?thesis
    using None by (auto simp: find_service_finds simp flip: find_exact [OF assms] split: list.splits)
next
  case (Some r)
  then have "r_vers r = vers" by (auto simp: find_Some_iff)
  then show ?thesis
    using Some by (simp add: find_service_finds flip: find_exact [OF assms])
qed

section \<open>Setting and unsetting\<close>

lemma cstr_Nil [simp]: "cstr [] = []"
  by (simp add: cstr_def)

lemma cstr_idem [simp]: "cstr (cstr b @ [0]) = cstr b"
  unfolding cstr_def by (rule takeWhile_append2 [of _ _ "[0]", simplified, THEN trans]) (auto dest: set_takeWhileD)

definition copy_of :: "RPCB \<Rightarrow> byte list \<Rightarrow> RPCB" where
  "copy_of regp owner =
     \<lparr>r_prog = r_prog regp, r_vers = r_vers regp, r_netid = Some (cstr (deref (r_netid regp)) @ [0]),
      r_addr = Some (cstr (deref (r_addr regp)) @ [0]), r_owner = Some (cstr owner @ [0])\<rparr>"

lemma rpcb_new_eq:
  "rpcb_new regp owner heap = (if heap < 4 then (None, heap) else (Some (copy_of regp owner), heap - 4))"
  by (auto simp: rpcb_new_def strdup_def freed_def copy_of_def)

lemma copy_of_simps [simp]:
  "rpcb_key (copy_of regp owner) = rpcb_key regp" "strings_set (copy_of regp owner)"
  "rpcb_blocks (copy_of regp owner) = 4" "cstr (deref (r_addr (copy_of regp owner))) = cstr (deref (r_addr regp))"
  "cstr (deref (r_owner (copy_of regp owner))) = cstr owner"
  by (simp_all add: rpcb_key_def copy_of_def strings_set_def rpcb_blocks_def freed_def)

lemma pmaplist_simps [simp]:
  "list_rbl (add_pmaplist env regp s) = list_rbl s" "list_rbl (del_pmaplist env regp s) = list_rbl s"
  "fdhead (add_pmaplist env regp s) = fdhead s" "fdhead (del_pmaplist env regp s) = fdhead s"
  "db_inf (add_pmaplist env regp s) = db_inf s" "db_inf (del_pmaplist env regp s) = db_inf s"
  "db_heap (add_pmaplist env regp s) + length (list_pml (add_pmaplist env regp s)) = db_heap s + length (list_pml s)"
  by (auto simp: add_pmaplist_def del_pmaplist_def Let_def split: option.split)

lemma del_pmaplist_blocks [simp]:
  "db_heap (del_pmaplist env regp s) + length (list_pml (del_pmaplist env regp s)) = db_heap s + length (list_pml s)"
  using sum_length_filter_compl [of "pml_kept regp _" "list_pml s"]
  by (auto simp: del_pmaplist_def Let_def add.assoc add.commute [of "length (filter (\<lambda>p. \<not> _ p) _)"] split: option.split)

lemma map_set_eq:
  assumes "list_ok (list_rbl s)"
  shows "map_set env regp owner s =
    (case List.find (\<lambda>r. rpcb_key r = rpcb_key regp) (list_rbl s) of
       Some r \<Rightarrow> (strcmp_eq (deref (r_addr r)) (deref (r_addr regp)), s)
     | None \<Rightarrow>
         if db_heap s < 4 then (False, s)
         else let s = s\<lparr>db_heap := db_heap s - 4, list_rbl := list_rbl s @ [copy_of regp owner]\<rparr>
              in (True, if portmap env then add_pmaplist env regp s else s))"
proof -
  have "list_all strings_set (list_rbl s)" using assms by (simp add: list_ok_def)
  note e = find_service_exact [OF this, where prog = "r_prog regp" and vers = "r_vers regp" and netid = "deref (r_netid regp)"]
  show ?thesis
  proof (cases "find_service (r_prog regp) (r_vers regp) (deref (r_netid regp)) (list_rbl s)")
    case None
    then show ?thesis using e by (auto simp: map_set_def rpcb_key_def [of regp] rpcb_new_eq Let_def)
  next
    case (Some r)
    then show ?thesis using e [symmetric] by (auto simp: map_set_def rpcb_key_def [of regp] rpcb_new_eq Let_def)
  qed
qed

lemma cstr_superuser [simp]: "cstr superuser = superuser"
  by (simp add: superuser_def cstr_def)

text \<open>Whether the owner may take the entry away.\<close>

definition may_unset :: "byte list \<Rightarrow> RPCB \<Rightarrow> bool" where
  "may_unset owner r \<longleftrightarrow> strcmp_eq owner superuser \<or> strcmp_eq (deref (r_owner r)) owner"

lemma unset_loop_eq:
  "unset_loop regp owner ans rbls =
     (let seen = takeWhile (\<lambda>r. unset_match regp r \<longrightarrow> may_unset owner r) rbls;
          unseen = dropWhile (\<lambda>r. unset_match regp r \<longrightarrow> may_unset owner r) rbls
      in (unseen = [], ans \<or> list_ex (unset_match regp) seen,
          filter (\<lambda>r. \<not> unset_match regp r) seen @ unseen,
          sum_list (map rpcb_blocks (filter (unset_match regp) seen))))"
  by (induction rbls arbitrary: ans) (auto simp: Let_def may_unset_def split: prod.splits)

lemma registered_Some:
  assumes "list_ok rbls"
  shows "registered rbls k = Some v \<longleftrightarrow>
    (\<exists>r \<in> set rbls. rpcb_key r = k \<and> v = (cstr (deref (r_addr r)), cstr (deref (r_owner r))))"
proof -
  have "distinct (map fst (map (\<lambda>r. (rpcb_key r, cstr (deref (r_addr r)), cstr (deref (r_owner r)))) rbls))"
    using assms by (simp add: list_ok_def comp_def)
  then show ?thesis unfolding registered_map_of by (subst map_of_eq_Some_iff) auto
qed

lemma list_ok_part:
  assumes "list_ok rbls" and "rbls = xs @ ys"
  shows "list_ok (filter P xs @ ys)"
  using assms by (auto simp: list_ok_def list_all_iff distinct_map_filter)

lemma list_ok_snoc: "list_ok rbls \<Longrightarrow> registered rbls (rpcb_key r) = None \<Longrightarrow> strings_set r \<Longrightarrow> list_ok (rbls @ [r])"
  by (auto simp: list_ok_def registered_None)

lemma registered_part:
  assumes "list_ok rbls" and "rbls = xs @ ys"
  shows "registered (filter P xs @ ys) k =
    (if \<exists>r \<in> set xs. rpcb_key r = k \<and> \<not> P r then None else registered rbls k)"
proof -
  note ok = list_ok_part [OF assms, of P]
  have uniq: "r = r'" if "r \<in> set rbls" "r' \<in> set rbls" "rpcb_key r = rpcb_key r'" for r r'
    using assms(1) that by (auto simp: list_ok_def distinct_map inj_on_def)
  show ?thesis
  proof (cases "registered (filter P xs @ ys) k")
    case None
    then have k: "k \<notin> rpcb_key ` set (filter P xs @ ys)" by (rule registered_None [THEN iffD1])
    show ?thesis
    proof (cases "\<exists>r \<in> set xs. rpcb_key r = k \<and> \<not> P r")
      case True
      with None show ?thesis by simp
    next
      case False
      with k have "registered rbls k = None" unfolding assms(2) registered_None by auto
      with None False show ?thesis by simp
    qed
  next
    case (Some v)
    then obtain r where r: "r \<in> set (filter P xs @ ys)" "rpcb_key r = k" "v = (cstr (deref (r_addr r)), cstr (deref (r_owner r)))"
      using registered_Some [OF ok] by blast
    then have "registered rbls k = Some v" using registered_Some [OF assms(1), of k v] assms(2) by auto
    moreover have "\<not> (\<exists>r' \<in> set xs. rpcb_key r' = k \<and> \<not> P r')"
    proof
      assume "\<exists>r' \<in> set xs. rpcb_key r' = k \<and> \<not> P r'"
      then obtain r' where r': "r' \<in> set xs" "rpcb_key r' = k" "\<not> P r'" by blast
      then have "r = r'" using uniq [of r r'] r assms(2) by auto
      with r r' have "r \<in> set ys" by auto
      then show False using assms r' \<open>r = r'\<close> by (auto simp: list_ok_def)
    qed
    ultimately show ?thesis using Some by simp
  qed
qed

text \<open>The laws of one \<open>map_set\<close> and one \<open>map_unset\<close>, in terms of what is registered.\<close>

lemma registered_find: "registered rbls k =
    map_option (\<lambda>r. (cstr (deref (r_addr r)), cstr (deref (r_owner r)))) (List.find (\<lambda>r. rpcb_key r = k) rbls)"
  by (simp add: registered_def)

lemma map_set_new:
  assumes "list_ok (list_rbl s)" "registered (list_rbl s) (rpcb_key regp) = None"
  shows "map_set env regp owner s =
    (if db_heap s < 4 then (False, s)
     else let s = s\<lparr>db_heap := db_heap s - 4, list_rbl := list_rbl s @ [copy_of regp owner]\<rparr>
          in (True, if portmap env then add_pmaplist env regp s else s))"
  using assms by (simp add: map_set_eq registered_find)

lemma map_set_old:
  assumes "list_ok (list_rbl s)" "registered (list_rbl s) (rpcb_key regp) = Some (a, u)"
  shows "map_set env regp owner s = (a = cstr (deref (r_addr regp)), s)"
  using assms by (auto simp: map_set_eq registered_find strcmp_eq_def)

lemma map_set_registered:
  assumes "list_ok (list_rbl s)"
  shows "list_ok (list_rbl (snd (map_set env regp owner s)))"
    and "registered (list_rbl (snd (map_set env regp owner s))) = registered (list_rbl s) \<or>
         registered (list_rbl s) (rpcb_key regp) = None \<and>
         registered (list_rbl (snd (map_set env regp owner s))) =
           (registered (list_rbl s))(rpcb_key regp \<mapsto> (cstr (deref (r_addr regp)), cstr owner))"
proof -
  have "list_ok (list_rbl (snd (map_set env regp owner s))) \<and>
        (registered (list_rbl (snd (map_set env regp owner s))) = registered (list_rbl s) \<or>
         registered (list_rbl s) (rpcb_key regp) = None \<and>
         registered (list_rbl (snd (map_set env regp owner s))) =
           (registered (list_rbl s))(rpcb_key regp \<mapsto> (cstr (deref (r_addr regp)), cstr owner)))"
  proof (cases "registered (list_rbl s) (rpcb_key regp)")
    case None
    then have "rpcb_key (copy_of regp owner) \<notin> rpcb_key ` set (list_rbl s)"
      by (simp add: registered_None)
    from registered_append [OF this] None assms list_ok_snoc [OF assms, of "copy_of regp owner"] show ?thesis
      by (auto simp: map_set_new Let_def)
  next
    case (Some v)
    then show ?thesis using assms by (cases v) (simp add: map_set_old)
  qed
  then show "list_ok (list_rbl (snd (map_set env regp owner s)))"
    and "registered (list_rbl (snd (map_set env regp owner s))) = registered (list_rbl s) \<or>
         registered (list_rbl s) (rpcb_key regp) = None \<and>
         registered (list_rbl (snd (map_set env regp owner s))) =
           (registered (list_rbl s))(rpcb_key regp \<mapsto> (cstr (deref (r_addr regp)), cstr owner))"
    by auto
qed

lemma map_unset_list:
  "\<exists>xs ys. list_rbl s = xs @ ys \<and> (\<forall>r \<in> set xs. unset_match regp r \<longrightarrow> may_unset owner r) \<and>
     (ys \<noteq> [] \<longrightarrow> unset_match regp (hd ys) \<and> \<not> may_unset owner (hd ys)) \<and>
     fst (map_unset env regp (Some owner) s) = (ys = []) \<and>
     list_rbl (snd (map_unset env regp (Some owner) s)) = filter (\<lambda>r. \<not> unset_match regp r) xs @ ys"
proof (intro exI conjI)
  let ?P = "\<lambda>r. unset_match regp r \<longrightarrow> may_unset owner r"
  show "list_rbl s = takeWhile ?P (list_rbl s) @ dropWhile ?P (list_rbl s)" by simp
  show "\<forall>r \<in> set (takeWhile ?P (list_rbl s)). ?P r" by (auto dest: set_takeWhileD)
  show "dropWhile ?P (list_rbl s) \<noteq> [] \<longrightarrow>
      unset_match regp (hd (dropWhile ?P (list_rbl s))) \<and> \<not> may_unset owner (hd (dropWhile ?P (list_rbl s)))"
    using hd_dropWhile [of ?P "list_rbl s"] by blast
qed (auto simp: map_unset_def unset_loop_eq Let_def)

lemma map_unset_registered:
  assumes "list_ok (list_rbl s)"
  shows "list_ok (list_rbl (snd (map_unset env regp (Some owner) s)))"
    and "registered (list_rbl (snd (map_unset env regp (Some owner) s))) k = registered (list_rbl s) k \<or>
         (\<exists>r \<in> set (list_rbl s). rpcb_key r = k \<and> unset_match regp r \<and> may_unset owner r) \<and>
         registered (list_rbl (snd (map_unset env regp (Some owner) s))) k = None"
proof -
  obtain xs ys where l: "list_rbl s = xs @ ys" "\<forall>r \<in> set xs. unset_match regp r \<longrightarrow> may_unset owner r"
    "list_rbl (snd (map_unset env regp (Some owner) s)) = filter (\<lambda>r. \<not> unset_match regp r) xs @ ys"
    using map_unset_list by blast
  show "list_ok (list_rbl (snd (map_unset env regp (Some owner) s)))"
    unfolding l(3) by (rule list_ok_part [OF assms l(1)])
  show "registered (list_rbl (snd (map_unset env regp (Some owner) s))) k = registered (list_rbl s) k \<or>
         (\<exists>r \<in> set (list_rbl s). rpcb_key r = k \<and> unset_match regp r \<and> may_unset owner r) \<and>
         registered (list_rbl (snd (map_unset env regp (Some owner) s))) k = None"
    unfolding l(3) registered_part [OF assms l(1)] using l(1,2) by auto
qed

text \<open>With a network named, only the entry of that key matches.\<close>

lemma unset_match_key:
  assumes "cstr (deref (r_netid regp)) \<noteq> []"
  shows "unset_match regp r \<longleftrightarrow> rpcb_key r = rpcb_key regp"
  using assms by (auto simp: unset_match_def rpcb_key_def strcasecmp_eq_def)

lemma map_unset_one:
  assumes "list_ok (list_rbl s)" "cstr (deref (r_netid regp)) \<noteq> []"
  shows "(registered (list_rbl s) (rpcb_key regp) = None \<or> cstr owner = superuser \<or>
          (\<exists>a. registered (list_rbl s) (rpcb_key regp) = Some (a, cstr owner)) \<longrightarrow>
            fst (map_unset env regp (Some owner) s) \<and>
            registered (list_rbl (snd (map_unset env regp (Some owner) s))) = (registered (list_rbl s))(rpcb_key regp := None))"
proof
  assume may: "registered (list_rbl s) (rpcb_key regp) = None \<or> cstr owner = superuser \<or>
          (\<exists>a. registered (list_rbl s) (rpcb_key regp) = Some (a, cstr owner))"
  obtain xs ys where l: "list_rbl s = xs @ ys" "ys \<noteq> [] \<longrightarrow> unset_match regp (hd ys) \<and> \<not> may_unset owner (hd ys)"
    "fst (map_unset env regp (Some owner) s) = (ys = [])"
    "list_rbl (snd (map_unset env regp (Some owner) s)) = filter (\<lambda>r. \<not> unset_match regp r) xs @ ys"
    using map_unset_list by blast
  have "ys = []"
  proof (rule ccontr)
    assume "ys \<noteq> []"
    with l(2) have h: "rpcb_key (hd ys) = rpcb_key regp" "\<not> may_unset owner (hd ys)" "hd ys \<in> set (list_rbl s)"
      using l(1) by (simp_all add: unset_match_key [OF assms(2)])
    then have "registered (list_rbl s) (rpcb_key regp) =
        Some (cstr (deref (r_addr (hd ys))), cstr (deref (r_owner (hd ys))))"
      using registered_Some [OF assms(1)] by blast
    with may h(2) show False by (auto simp: may_unset_def strcmp_eq_def superuser_def cstr_def)
  qed
  moreover have "registered (filter (\<lambda>r. \<not> unset_match regp r) xs @ ys) = (registered (list_rbl s))(rpcb_key regp := None)"
  proof
    fix k
    show "registered (filter (\<lambda>r. \<not> unset_match regp r) xs @ ys) k = ((registered (list_rbl s))(rpcb_key regp := None)) k"
      unfolding registered_part [OF assms(1) l(1)] using l(1) \<open>ys = []\<close> registered_None [of "list_rbl s" k]
      by (auto simp: unset_match_key [OF assms(2)])
  qed
  ultimately show "fst (map_unset env regp (Some owner) s) \<and>
      registered (list_rbl (snd (map_unset env regp (Some owner) s))) = (registered (list_rbl s))(rpcb_key regp := None)"
    by (simp add: l(3,4))
qed

section \<open>The registry as a map\<close>

text \<open>
  What the clients of the port mapper rely on: a registry maps keys to addresses with their owners.
  Registering adds a free key, and answers for a taken one whether it has the same address;
  withdrawing takes away only what belongs to the user, unless it is the superuser.
\<close>

locale registry =
  fixes lookup :: "'db \<Rightarrow> 'k \<Rightarrow> ('a \<times> 'n) option"
    and keyof :: "'q \<Rightarrow> 'k"
    and address :: "'q \<Rightarrow> 'a"
    and single :: "'q \<Rightarrow> bool"
    and register :: "'u \<Rightarrow> 'q \<Rightarrow> 'db \<Rightarrow> bool \<times> 'db"
    and withdraw :: "'u \<Rightarrow> 'q \<Rightarrow> 'db \<Rightarrow> bool \<times> 'db"
    and ok :: "'db \<Rightarrow> bool"
    and room :: "'db \<Rightarrow> bool"
    and name :: "'u \<Rightarrow> 'n"
    and root :: 'n
  assumes register_ok: "ok db \<Longrightarrow> ok (snd (register u q db))"
    and withdraw_ok: "ok db \<Longrightarrow> ok (snd (withdraw u q db))"
    and register_new: "ok db \<Longrightarrow> room db \<Longrightarrow> lookup db (keyof q) = None \<Longrightarrow>
          fst (register u q db) \<and> lookup (snd (register u q db)) = (lookup db)(keyof q \<mapsto> (address q, name u))"
    and register_old: "ok db \<Longrightarrow> lookup db (keyof q) = Some (a, v) \<Longrightarrow> register u q db = (a = address q, db)"
    and register_frame: "ok db \<Longrightarrow> lookup (snd (register u q db)) = lookup db \<or>
          lookup db (keyof q) = None \<and> lookup (snd (register u q db)) = (lookup db)(keyof q \<mapsto> (address q, name u))"
    and withdraw_one: "ok db \<Longrightarrow> single q \<Longrightarrow>
          lookup db (keyof q) = None \<or> name u = root \<or> (\<exists>a. lookup db (keyof q) = Some (a, name u)) \<Longrightarrow>
          fst (withdraw u q db) \<and> lookup (snd (withdraw u q db)) = (lookup db)(keyof q := None)"
    and withdraw_frame: "ok db \<Longrightarrow> lookup (snd (withdraw u q db)) k = lookup db k \<or>
          lookup (snd (withdraw u q db)) k = None \<and> (name u = root \<or> (\<exists>a. lookup db k = Some (a, name u)))"
begin

lemma register_then_lookup:
  assumes "ok db" "room db" "lookup db (keyof q) = None"
  shows "lookup (snd (register u q db)) (keyof q) = Some (address q, name u)"
  using register_new [OF assms] by simp

lemma register_withdraw:
  assumes "ok db" "room db" "lookup db (keyof q) = None" "single q"
  shows "lookup (snd (withdraw u q (snd (register u q db)))) = lookup db"
  using register_new [OF assms(1-3)] withdraw_one [OF register_ok [OF assms(1)] assms(4)] assms(3)
  by (auto simp: fun_eq_iff)

lemma register_twice:
  assumes "ok db" "room db" "lookup db (keyof q) = None" "keyof q' = keyof q"
  shows "register v q' (snd (register u q db)) = (address q = address q', snd (register u q db))"
  by (rule register_old [OF register_ok [OF assms(1)]]) (simp add: register_then_lookup [OF assms(1-3)] assms(4))

text \<open>A sequence of requests: who asks, whether to register, and for what.\<close>

lemma requests_ok: "ok db \<Longrightarrow> ok (fold (\<lambda>(u, add, q) db. snd (if add then register u q db else withdraw u q db)) reqs db)"
  by (induction reqs arbitrary: db) (auto simp: register_ok withdraw_ok)

lemma entry_survives:
  assumes "ok db" "lookup db k = Some (a, v)" "\<And>u add q. (u, add, q) \<in> set reqs \<Longrightarrow> name u \<noteq> v \<and> name u \<noteq> root"
  shows "lookup (fold (\<lambda>(u, add, q) db. snd (if add then register u q db else withdraw u q db)) reqs db) k = Some (a, v)"
  using assms
proof (induction reqs arbitrary: db)
  case (Cons r reqs)
  obtain u add q where r: "r = (u, add, q)" by (cases r) auto
  let ?db = "snd (if add then register u q db else withdraw u q db)"
  have "name u \<noteq> v" "name u \<noteq> root" using Cons.prems(3) [of u add q] r by auto
  then have "lookup ?db k = Some (a, v)"
    using Cons.prems(1,2) register_frame [of db u q] withdraw_frame [of db u q k] by (auto split: if_splits)
  moreover have "ok ?db" using Cons.prems(1) by (simp add: register_ok withdraw_ok)
  moreover have "name u \<noteq> v \<and> name u \<noteq> root" if "(u, add, q) \<in> set reqs" for u add q
    using Cons.prems(3) [of u add q] that by simp
  ultimately have "lookup (fold (\<lambda>(u, add, q) db. snd (if add then register u q db else withdraw u q db)) reqs ?db) k = Some (a, v)"
    by (intro Cons.IH) blast+
  then show ?case by (simp add: r)
qed simp

end

definition room_for_entry :: "rpcb_db \<Rightarrow> bool" where
  "room_for_entry s \<longleftrightarrow> 4 \<le> db_heap s"

interpretation rpcb: registry
  "\<lambda>s. registered (list_rbl s)" rpcb_key "\<lambda>regp. cstr (deref (r_addr regp))" "\<lambda>regp. cstr (deref (r_netid regp)) \<noteq> []"
  "\<lambda>uid regp s. map_set env regp (getowner uid) s" "\<lambda>uid regp s. map_unset env regp (Some (getowner uid)) s"
  "\<lambda>s. list_ok (list_rbl s)" room_for_entry "\<lambda>uid. cstr (getowner uid)" superuser
  for env
proof
  fix s :: rpcb_db and uid regp
  assume ok: "list_ok (list_rbl s)"
  show "list_ok (list_rbl (snd (map_set env regp (getowner uid) s)))" by (rule map_set_registered [OF ok])
  show "list_ok (list_rbl (snd (map_unset env regp (Some (getowner uid)) s)))" by (rule map_unset_registered [OF ok])
  show "registered (list_rbl (snd (map_set env regp (getowner uid) s))) = registered (list_rbl s) \<or>
      registered (list_rbl s) (rpcb_key regp) = None \<and>
      registered (list_rbl (snd (map_set env regp (getowner uid) s))) =
        (registered (list_rbl s))(rpcb_key regp \<mapsto> (cstr (deref (r_addr regp)), cstr (getowner uid)))"
    by (rule map_set_registered [OF ok])
  show "map_set env regp (getowner uid) s = (a = cstr (deref (r_addr regp)), s)"
    if "registered (list_rbl s) (rpcb_key regp) = Some (a, v)" for a v
    by (rule map_set_old [OF ok that])
  show "fst (map_set env regp (getowner uid) s) \<and>
      registered (list_rbl (snd (map_set env regp (getowner uid) s))) =
        (registered (list_rbl s))(rpcb_key regp \<mapsto> (cstr (deref (r_addr regp)), cstr (getowner uid)))"
    if "room_for_entry s" "registered (list_rbl s) (rpcb_key regp) = None"
    using that ok registered_append [of "copy_of regp (getowner uid)" "list_rbl s"]
    by (simp add: map_set_new Let_def room_for_entry_def registered_None [symmetric])
  show "fst (map_unset env regp (Some (getowner uid)) s) \<and>
      registered (list_rbl (snd (map_unset env regp (Some (getowner uid)) s))) = (registered (list_rbl s))(rpcb_key regp := None)"
    if "cstr (deref (r_netid regp)) \<noteq> []" "registered (list_rbl s) (rpcb_key regp) = None \<or>
      cstr (getowner uid) = superuser \<or> (\<exists>a. registered (list_rbl s) (rpcb_key regp) = Some (a, cstr (getowner uid)))"
    using map_unset_one [OF ok that(1)] that(2) by blast
  show "registered (list_rbl (snd (map_unset env regp (Some (getowner uid)) s))) k = registered (list_rbl s) k \<or>
      registered (list_rbl (snd (map_unset env regp (Some (getowner uid)) s))) k = None \<and>
      (cstr (getowner uid) = superuser \<or> (\<exists>a. registered (list_rbl s) k = Some (a, cstr (getowner uid))))" for k
    using map_unset_registered(2) [OF ok, of env regp "getowner uid" k] registered_Some [OF ok, of k]
    by (fastforce simp: may_unset_def strcmp_eq_def cstr_superuser)
qed

section \<open>Who owns an entry\<close>

lemma dec_inject [simp]: "dec m = dec n \<longleftrightarrow> m = n"
  by (metis digits_val_dec)

lemma hd_dec: "isdigit (hd (dec n))"
  by (rule isdigit_in_dec [of _ n]) simp

lemma sdec_inject: "sdec i = sdec j \<Longrightarrow> i = j"
proof -
  have "dec n \<noteq> 45 # ds" for n ds using hd_dec [of n] by (auto simp: isdigit_unat)
  then show "sdec i = sdec j \<Longrightarrow> i = j" by (auto simp: sdec_def split: if_splits) (metis)+
qed

lemma sdec_hd: "hd (sdec i) \<noteq> 115" "hd (sdec i) \<noteq> 117"
  using hd_dec [of "nat i"] by (auto simp: sdec_def isdigit_unat)

lemma sdec_no_nul [simp]: "0 \<notin> set (sdec i)"
  by (simp add: sdec_def)

lemma getowner_text:
  "cstr (getowner uid) = (case uid of None \<Rightarrow> unknown_user | Some u \<Rightarrow> if u = 0 then superuser else sdec (sint u))"
  unfolding getowner_def by (rule cstr_text) (auto simp: unknown_user_def superuser_def split: option.split)

lemma getowner_inject: "cstr (getowner u) = cstr (getowner v) \<longleftrightarrow> u = v"
proof
  have hd: "hd superuser = 115" "hd unknown_user = 117" by (simp_all add: superuser_def unknown_user_def)
  assume "cstr (getowner u) = cstr (getowner v)"
  then show "u = v"
    using sdec_hd hd
    by (auto simp: getowner_text split: option.splits if_splits dest!: sdec_inject) (metis hd sdec_hd signed_word_eqI)+
qed simp

lemma getowner_superuser: "cstr (getowner u) = superuser \<longleftrightarrow> u = Some 0"
  using getowner_inject [of u "Some 0"] by (simp add: getowner_text [of "Some 0"])

section \<open>A concrete port mapper\<close>

definition demo_q :: RPCB where
  "demo_q = \<lparr>r_prog = 100003, r_vers = 3, r_netid = Some [117, 100, 112, 0],
     r_addr = Some (uaddr4 [10, 0, 0, 7] 2049 @ [0]), r_owner = None\<rparr>"

definition forwards_start :: forwards where
  "forwards_start = \<lparr>fw_table = replicate 64 \<lparr>fi_active = False, fi_caller_xid = 0, fi_caller_addr = [], fi_forward_xid = 0,
       fi_forward_fd = 0, fi_uaddr = None, fi_reply_type = 0, fi_versnum = 0, fi_time = 0\<rparr>,
     fw_rmtcalls = 0, fw_lastxid = 0, fw_rmthead = [], fw_fdmax = 0, fw_sent = []\<rparr>"

definition demo_db :: "RPCB list \<Rightarrow> rpcb_db" where
  "demo_db rbls = \<lparr>list_rbl = rbls, list_pml = [], fdhead = [\<lparr>fd_nconf = udp_nconf, check_binding = False\<rparr>],
     db_inf = replicate 3 \<lparr>st_info = replicate 13 0, st_setinfo = 0, st_unsetinfo = 0, st_addrinfo = [], st_rmtinfo = []\<rparr>,
     getaddr_uaddr = SNull, taddr2uaddr_uaddr = SNull, uaddr2taddr_taddr = None, addrlist_rlist = [], db_heap = 40, db_fwd = forwards_start\<rparr>"

definition demo_lo :: ifaddr where
  "demo_lo = \<lparr>ifa_addr = sockaddr_in 0 [127, 0, 0, 1], ifa_netmask = sockaddr_in 0 [255, 0, 0, 0], ifa_up = True,
     ifa_loopback = True, ifa_ptp = False\<rparr>"

definition demo_env :: "bool \<Rightarrow> rpcb_env" where
  "demo_env w = \<lparr>portmap = False, win32 = w, iff_pointopoint = False, ntop6 = \<lambda>_. None, pton6 = \<lambda>_. None,
     junk_netbuf = netbuf_of [], udptrans = [117, 100, 112, 0], tcptrans = [116, 99, 112, 0], udp_uaddr = None,
     tcp_uaddr = None, insecure = False, oldstyle_local = False, getnetconfigent = \<lambda>_. Some udp_nconf,
     bindable = \<lambda>_ _. None, ifaddrs = Some [demo_lo]\<rparr>"

lemma demo_ok [simp]: "list_ok [copy_of demo_q u]" "list_ok []" "list_ok (list_rbl (demo_db rbls)) = list_ok rbls"
  "list_rbl (demo_db rbls) = rbls" "list_pml (demo_db rbls) = []" "db_heap (demo_db rbls) = 40"
  by (simp_all add: list_ok_def demo_db_def)

lemma demo_simps [simp]:
  "r_addr demo_q = Some (uaddr4 [10, 0, 0, 7] 2049 @ [0])" "r_prog demo_q = 100003" "r_vers demo_q = 3"
  "r_netid demo_q = Some [117, 100, 112, 0]" "ifaddrs (demo_env w) = Some [demo_lo]" "ifa_addr demo_lo = sockaddr_in 0 [127, 0, 0, 1]"
  "getnetconfigent (demo_env w) = (\<lambda>_. Some udp_nconf)" "win32 (demo_env w) = w"
  by (simp_all add: demo_q_def demo_env_def demo_lo_def)

text \<open>
  C30: A registration survives any sequence of set and unset requests of other users than its owner
  and the superuser: neither is the entry taken away, nor can its address or its owner be changed.
\<close>

theorem registration_survives:
  assumes "list_ok (list_rbl s)" and "registered (list_rbl s) k = Some (a, cstr (getowner v))"
    and "\<And>u add q. (u, add, q) \<in> set reqs \<Longrightarrow> u \<noteq> v \<and> u \<noteq> Some 0"
  shows "registered (list_rbl (fold (\<lambda>(u, add, q) s.
      snd (if add then map_set env q (getowner u) s else map_unset env q (Some (getowner u)) s)) reqs s)) k =
    Some (a, cstr (getowner v))"
proof (rule rpcb.entry_survives [OF assms(1,2)])
  fix u add q assume "(u, add, q) \<in> set reqs"
  from assms(3) [OF this] show "cstr (getowner u) \<noteq> cstr (getowner v) \<and> cstr (getowner u) \<noteq> superuser"
    by (simp add: getowner_inject getowner_superuser)
qed

lemma registration_survives_witness:
  "registered (list_rbl (fold (\<lambda>(u, add, q) s.
      snd (if add then map_set (demo_env True) q (getowner u) s else map_unset (demo_env True) q (Some (getowner u)) s))
        [(Some 8, False, demo_q), (None, True, demo_q)] (demo_db [copy_of demo_q (getowner (Some 7))]))) (rpcb_key demo_q) =
    Some (uaddr4 [10, 0, 0, 7] 2049, cstr (getowner (Some 7)))"
  by (rule registration_survives) (auto simp: registered_def)


section \<open>The invariant\<close>

text \<open>Nothing asks for bindings to be checked, so \<open>is_bound\<close> holds and \<open>delete_prog\<close> leaves the list alone.\<close>

definition db_ok :: "rpcb_db \<Rightarrow> bool" where
  "db_ok s \<longleftrightarrow> list_ok (list_rbl s) \<and> list_all (\<lambda>f. \<not> check_binding f) (fdhead s) \<and>
     length (db_inf s) = 3 \<and> list_all (\<lambda>st. length (st_info st) = 13) (db_inf s)"

lemma demo_db_ok [simp]: "db_ok (demo_db rbls) = list_ok rbls"
  by (simp add: db_ok_def demo_db_def numeral_eq_Suc)

definition db_blocks :: "rpcb_db \<Rightarrow> nat" where
  "db_blocks s = db_heap s + sum_list (map rpcb_blocks (list_rbl s)) + length (list_pml s)"

lemma map_set_fields [simp]:
  "fdhead (snd (map_set env regp owner s)) = fdhead s" "db_inf (snd (map_set env regp owner s)) = db_inf s"
  by (auto simp: map_set_def Let_def split: prod.split option.split)

lemma map_unset_fields [simp]:
  "fdhead (snd (map_unset env regp owner s)) = fdhead s" "db_inf (snd (map_unset env regp owner s)) = db_inf s"
  by (auto simp: map_unset_def Let_def split: prod.split option.split)

lemma map_set_db_ok: "db_ok s \<Longrightarrow> db_ok (snd (map_set env regp owner s))"
  using map_set_registered(1) [of s env regp owner] by (simp add: db_ok_def)

lemma map_unset_db_ok: "db_ok s \<Longrightarrow> db_ok (snd (map_unset env regp owner s))"
proof (cases owner)
  case None
  then show "db_ok s \<Longrightarrow> ?thesis" by (simp add: map_unset_def)
next
  case (Some u)
  then show "db_ok s \<Longrightarrow> ?thesis" using map_unset_registered(1) [of s env regp u] by (simp add: db_ok_def)
qed

lemma sum_blocks_filter:
  "sum_list (map f (filter P xs)) + sum_list (map f (filter (\<lambda>x. \<not> P x) xs)) = (sum_list (map f xs) :: nat)"
  by (induction xs) auto

lemma pmaplist_blocks [simp]:
  "db_blocks (add_pmaplist env regp s) = db_blocks s" "db_blocks (del_pmaplist env regp s) = db_blocks s"
  using pmaplist_simps(7) [of env regp s] del_pmaplist_blocks [of env regp s] by (simp_all add: db_blocks_def)

lemma map_unset_blocks: "db_blocks (snd (map_unset env regp owner s)) = db_blocks s"
proof (cases owner)
  case None
  then show ?thesis by (simp add: map_unset_def)
next
  case (Some u)
  let ?P = "\<lambda>r. unset_match regp r \<longrightarrow> may_unset u r"
  let ?seen = "takeWhile ?P (list_rbl s)" and ?unseen = "dropWhile ?P (list_rbl s)"
  have "sum_list (map rpcb_blocks (list_rbl s)) = sum_list (map rpcb_blocks (?seen @ ?unseen))" by simp
  then have "sum_list (map rpcb_blocks (filter (unset_match regp) ?seen)) +
      sum_list (map rpcb_blocks (filter (\<lambda>r. \<not> unset_match regp r) ?seen @ ?unseen)) = sum_list (map rpcb_blocks (list_rbl s))"
    using sum_blocks_filter [of rpcb_blocks "unset_match regp" ?seen] by (simp only: map_append sum_list_append)
  then have "db_blocks (s\<lparr>list_rbl := filter (\<lambda>r. \<not> unset_match regp r) ?seen @ ?unseen,
      db_heap := db_heap s + sum_list (map rpcb_blocks (filter (unset_match regp) ?seen))\<rparr>) = db_blocks s"
    by (simp add: db_blocks_def)
  then show ?thesis by (simp add: Some map_unset_def unset_loop_eq Let_def)
qed

lemma map_set_blocks:
  assumes "list_ok (list_rbl s)"
  shows "db_blocks (snd (map_set env regp owner s)) = db_blocks s"
proof -
  have "db_blocks (s\<lparr>db_heap := db_heap s - 4, list_rbl := list_rbl s @ [copy_of regp owner]\<rparr>) = db_blocks s"
    if "\<not> db_heap s < 4"
    using that by (simp add: db_blocks_def)
  then show ?thesis by (auto simp: map_set_eq [OF assms] Let_def split: option.split)
qed

text \<open>
  C31: Setting and unsetting keep the invariant: no two registrations agree in program, version and
  network (up to case), every registration has its three strings; and they neither lose nor free twice
  a block: what the heap has left, the four blocks of each registration and the entries of version 2
  add up to the same.
\<close>

theorem registrations_invariant:
  assumes "db_ok s" and "\<And>r. r \<in> set (list_rbl s) \<Longrightarrow> rpcb_blocks r = 4"
  shows "db_ok (fold (\<lambda>(u, add, q) s. snd (if add then map_set env q u s else map_unset env q (Some u) s)) reqs s)
     \<and> db_blocks (fold (\<lambda>(u, add, q) s. snd (if add then map_set env q u s else map_unset env q (Some u) s)) reqs s)
       = db_heap s + 4 * length (list_rbl s) + length (list_pml s)"
proof -
  have "sum_list (map rpcb_blocks rbls) = 4 * length rbls" if "\<And>r. r \<in> set rbls \<Longrightarrow> rpcb_blocks r = 4" for rbls
    using that by (induction rbls) auto
  then have "db_blocks s = db_heap s + 4 * length (list_rbl s) + length (list_pml s)"
    using assms(2) by (simp add: db_blocks_def)
  moreover have "db_ok t \<Longrightarrow> db_ok (fold (\<lambda>(u, add, q) s. snd (if add then map_set env q u s else map_unset env q (Some u) s)) reqs t)
     \<and> db_blocks (fold (\<lambda>(u, add, q) s. snd (if add then map_set env q u s else map_unset env q (Some u) s)) reqs t) = db_blocks t" for t
    by (induction reqs arbitrary: t)
      (auto simp: map_set_db_ok map_unset_db_ok map_unset_blocks map_set_blocks db_ok_def [THEN iffD1])
  ultimately show ?thesis using assms(1) by simp
qed

lemma registrations_invariant_witness:
  "db_ok (fold (\<lambda>(u, add, q) s. snd (if add then map_set (demo_env True) q u s else map_unset (demo_env True) q (Some u) s))
      [(superuser, True, demo_q\<lparr>r_vers := 4\<rparr>), (superuser, False, demo_q)] (demo_db [copy_of demo_q superuser])) \<and>
   db_blocks (fold (\<lambda>(u, add, q) s. snd (if add then map_set (demo_env True) q u s else map_unset (demo_env True) q (Some u) s))
      [(superuser, True, demo_q\<lparr>r_vers := 4\<rparr>), (superuser, False, demo_q)] (demo_db [copy_of demo_q superuser])) = 44"
  using registrations_invariant [of "demo_db [copy_of demo_q superuser]" "demo_env True"
    "[(superuser, True, demo_q\<lparr>r_vers := 4\<rparr>), (superuser, False, demo_q)]"] by simp


section \<open>The specification: a map with owners\<close>

type_synonym spec_registry = "u32 \<times> u32 \<times> byte list \<Rightarrow> (byte list \<times> byte list) option"

definition spec_set :: "byte list \<Rightarrow> RPCB \<Rightarrow> spec_registry \<Rightarrow> bool \<times> spec_registry" where
  "spec_set u q m =
     (case m (rpcb_key q) of None \<Rightarrow> (True, m(rpcb_key q \<mapsto> (cstr (deref (r_addr q)), cstr u)))
      | Some (a, _) \<Rightarrow> (a = cstr (deref (r_addr q)), m))"

definition spec_unset :: "byte list \<Rightarrow> RPCB \<Rightarrow> spec_registry \<Rightarrow> bool \<times> spec_registry" where
  "spec_unset u q m =
     (if (case m (rpcb_key q) of None \<Rightarrow> True | Some (_, v) \<Rightarrow> cstr u = superuser \<or> v = cstr u)
      then (True, m(rpcb_key q := None)) else (False, m))"

text \<open>A sequence of requests is answered one after the other.\<close>

fun answers :: "('s \<Rightarrow> 'r \<Rightarrow> bool \<times> 's) \<Rightarrow> 's \<Rightarrow> 'r list \<Rightarrow> bool list \<times> 's" where
  "answers step s [] = ([], s)"
| "answers step s (r # rs) = (case step s r of (a, s) \<Rightarrow> (case answers step s rs of (as, s) \<Rightarrow> (a # as, s)))"

lemma map_set_refines:
  assumes "list_ok (list_rbl s)" "4 \<le> db_heap s"
  shows "fst (map_set env q u s) = fst (spec_set u q (registered (list_rbl s)))"
    and "registered (list_rbl (snd (map_set env q u s))) = snd (spec_set u q (registered (list_rbl s)))"
    and "db_heap s \<le> db_heap (snd (map_set env q u s)) + 5"
proof -
  have "fst (map_set env q u s) = fst (spec_set u q (registered (list_rbl s))) \<and>
    registered (list_rbl (snd (map_set env q u s))) = snd (spec_set u q (registered (list_rbl s))) \<and>
    db_heap s \<le> db_heap (snd (map_set env q u s)) + 5"
  proof (cases "registered (list_rbl s) (rpcb_key q)")
    case None
    then show ?thesis
      using assms registered_append [of "copy_of q u" "list_rbl s"]
      by (auto simp: map_set_new spec_set_def Let_def registered_None [symmetric] add_pmaplist_def split: option.split)
  next
    case (Some v)
    then show ?thesis using assms by (cases v) (simp add: map_set_old spec_set_def)
  qed
  then show "fst (map_set env q u s) = fst (spec_set u q (registered (list_rbl s)))"
    and "registered (list_rbl (snd (map_set env q u s))) = snd (spec_set u q (registered (list_rbl s)))"
    and "db_heap s \<le> db_heap (snd (map_set env q u s)) + 5" by auto
qed

lemma map_unset_denied:
  assumes ok: "list_ok (list_rbl s)" and "cstr (deref (r_netid q)) \<noteq> []"
    and v: "registered (list_rbl s) (rpcb_key q) = Some (a, v)" "cstr u \<noteq> superuser" "v \<noteq> cstr u"
  shows "\<not> fst (map_unset env q (Some u) s) \<and> registered (list_rbl (snd (map_unset env q (Some u) s))) = registered (list_rbl s)"
proof -
  note key = unset_match_key [OF assms(2)]
  have denied: "\<not> may_unset u r" if "r \<in> set (list_rbl s)" "rpcb_key r = rpcb_key q" for r
  proof -
    have "registered (list_rbl s) (rpcb_key q) = Some (cstr (deref (r_addr r)), cstr (deref (r_owner r)))"
      using that registered_Some [OF ok] by blast
    then show ?thesis using v by (simp add: may_unset_def strcmp_eq_def)
  qed
  obtain r where "r \<in> set (list_rbl s)" "rpcb_key r = rpcb_key q"
    using v(1) registered_Some [OF ok, of "rpcb_key q" "(a, v)"] by blast
  moreover obtain xs ys where "list_rbl s = xs @ ys" "\<forall>r \<in> set xs. unset_match q r \<longrightarrow> may_unset u r"
    "fst (map_unset env q (Some u) s) = (ys = [])"
    using map_unset_list by blast
  ultimately have "\<not> fst (map_unset env q (Some u) s)"
    using denied key by auto
  moreover have "registered (list_rbl (snd (map_unset env q (Some u) s))) k = registered (list_rbl s) k" for k
    using map_unset_registered(2) [OF ok, of env q u k] denied by (auto simp: key)
  ultimately show ?thesis by auto
qed

lemma map_unset_refines:
  assumes ok: "list_ok (list_rbl s)" and q: "cstr (deref (r_netid q)) \<noteq> []"
  shows "fst (map_unset env q (Some u) s) = fst (spec_unset u q (registered (list_rbl s)))"
    and "registered (list_rbl (snd (map_unset env q (Some u) s))) = snd (spec_unset u q (registered (list_rbl s)))"
    and "db_heap s \<le> db_heap (snd (map_unset env q (Some u) s))"
proof -
  show "db_heap s \<le> db_heap (snd (map_unset env q (Some u) s))"
    by (auto simp: map_unset_def Let_def del_pmaplist_def split: prod.split option.split)
  have "fst (map_unset env q (Some u) s) = fst (spec_unset u q (registered (list_rbl s))) \<and>
    registered (list_rbl (snd (map_unset env q (Some u) s))) = snd (spec_unset u q (registered (list_rbl s)))"
    using map_unset_one [OF ok q, of u env] map_unset_denied [OF ok q, of _ _ u env]
    by (auto simp: spec_unset_def split: option.split)
  then show "fst (map_unset env q (Some u) s) = fst (spec_unset u q (registered (list_rbl s)))"
    and "registered (list_rbl (snd (map_unset env q (Some u) s))) = snd (spec_unset u q (registered (list_rbl s)))" by auto
qed

text \<open>
  C32: The linked list of the port mapper implements a map from program, version and network (up to
  case) to an address and its owner. For every sequence of set requests and of unset requests that
  name a network, with memory for five blocks a request, the answers are those of the map, and so is
  what is registered in the end.
\<close>

theorem registrations_refine_map:
  assumes "list_ok (list_rbl s)" "5 * length reqs \<le> db_heap s"
    and "\<And>add u q. (add, u, q) \<in> set reqs \<Longrightarrow> \<not> add \<Longrightarrow> cstr (deref (r_netid q)) \<noteq> []"
  shows "(case answers (\<lambda>s (add, u, q). if add then map_set env q u s else map_unset env q (Some u) s) s reqs of
            (as, s) \<Rightarrow> (as, registered (list_rbl s))) =
         answers (\<lambda>m (add, u, q). if add then spec_set u q m else spec_unset u q m) (registered (list_rbl s)) reqs"
  using assms
proof (induction reqs arbitrary: s)
  case (Cons r reqs)
  obtain add u q where r: "r = (add, u, q)" by (cases r) auto
  define t where "t = (if add then map_set env q u s else map_unset env q (Some u) s)"
  have q: "\<not> add \<Longrightarrow> cstr (deref (r_netid q)) \<noteq> []" using Cons.prems(3) [of add u q] by (simp add: r)
  have "list_ok (list_rbl (snd t))"
    using map_set_registered(1) map_unset_registered(1) Cons.prems(1) by (simp add: t_def)
  moreover have h: "db_heap s \<le> db_heap (snd t) + 5"
    using map_set_refines(3) [OF Cons.prems(1), of env q u] map_unset_refines(3) [OF Cons.prems(1) q, of env u] Cons.prems(2)
    by (auto simp: t_def)
  moreover have "5 * length reqs \<le> db_heap (snd t)" using h Cons.prems(2) by simp
  ultimately have IH: "(case answers (\<lambda>s (add, u, q). if add then map_set env q u s else map_unset env q (Some u) s) (snd t) reqs of
            (as, s) \<Rightarrow> (as, registered (list_rbl s))) =
         answers (\<lambda>m (add, u, q). if add then spec_set u q m else spec_unset u q m) (registered (list_rbl (snd t))) reqs"
    using Cons.prems(3) by (intro Cons.IH) auto
  have "(if add then spec_set u q (registered (list_rbl s)) else spec_unset u q (registered (list_rbl s))) =
      (fst t, registered (list_rbl (snd t)))"
    using map_set_refines(1,2) [OF Cons.prems(1), of env q u] map_unset_refines(1,2) [OF Cons.prems(1) q, of env u] Cons.prems(2)
    by (auto simp: t_def prod_eq_iff)
  moreover obtain ok s' where t: "t = (ok, s')" by (cases t)
  ultimately show ?case
    using IH by (auto simp: r t_def [symmetric] split: prod.splits)
qed simp

lemma registrations_refine_map_witness:
  "(case answers (\<lambda>s (add, u, q). if add then map_set (demo_env True) q u s else map_unset (demo_env True) q (Some u) s)
       (demo_db []) [(True, superuser, demo_q), (False, unknown_user, demo_q)] of (as, s) \<Rightarrow> (as, registered (list_rbl s))) =
   answers (\<lambda>m (add, u, q). if add then spec_set u q m else spec_unset u q m) (registered [])
     [(True, superuser, demo_q), (False, unknown_user, demo_q)]"
  using registrations_refine_map [of "demo_db []" "[(True, superuser, demo_q), (False, unknown_user, demo_q)]" "demo_env True"]
  by (simp add: demo_q_def cstr_def)

section \<open>Answering with an address\<close>

lemma upd_stat_simps [simp]:
  "list_rbl (upd_stat t f s) = list_rbl s" "list_pml (upd_stat t f s) = list_pml s" "fdhead (upd_stat t f s) = fdhead s"
  "db_heap (upd_stat t f s) = db_heap s" "getaddr_uaddr (upd_stat t f s) = getaddr_uaddr s"
  by (simp_all add: upd_stat_def)

lemma upd_stat_ok:
  assumes "db_ok s" "unat t < 3" "\<And>st. length (st_info (f st)) = length (st_info st)"
  shows "db_ok (upd_stat t f s)"
  using assms by (auto simp: db_ok_def upd_stat_def list_all_length nth_list_update)

text \<open>What every procedure that only answers keeps.\<close>

definition same_lists :: "rpcb_db \<Rightarrow> rpcb_db \<Rightarrow> bool" where
  "same_lists s s' \<longleftrightarrow> list_rbl s' = list_rbl s \<and> list_pml s' = list_pml s \<and> fdhead s' = fdhead s \<and> (db_ok s \<longrightarrow> db_ok s')"

lemma same_lists_refl [simp]: "same_lists s s"
  by (simp add: same_lists_def)

lemma same_lists_trans: "same_lists s t \<Longrightarrow> same_lists t u \<Longrightarrow> same_lists s u"
  by (simp add: same_lists_def)

lemma same_lists_heap [simp]: "same_lists s (t\<lparr>db_heap := h\<rparr>) = same_lists s t"
  by (simp add: same_lists_def db_ok_def)

lemma same_lists_upd_stat:
  "unat t < 3 \<Longrightarrow> (\<And>st. length (st_info (f st)) = length (st_info st)) \<Longrightarrow> same_lists s (upd_stat t f s)"
  by (simp add: same_lists_def upd_stat_ok)

lemma lt_3: "\<not> 3 \<le> t \<Longrightarrow> unat (t :: u32) < 3"
  by (simp add: word_le_nat_alt)

lemma stat_same_lists:
  "same_lists s (rpcbs_set t b s)" "same_lists s (rpcbs_unset t b s)" "same_lists s (rpcbs_procinfo env t proc s)"
proof -
  show "same_lists s (rpcbs_set t b s)" "same_lists s (rpcbs_unset t b s)"
    by (auto simp: rpcbs_set_def rpcbs_unset_def lt_3 intro!: same_lists_upd_stat)
  have "unat t < 3" if "t + 2 = 2 \<or> t + 2 = 3 \<or> t + 2 = 4"
  proof -
    have "t + 2 = 0 + 2 \<or> t + 2 = 1 + 2 \<or> t + 2 = 2 + 2" using that by simp
    then have "t = 0 \<or> t = 1 \<or> t = 2" by (simp only: add_right_cancel)
    then show ?thesis by auto
  qed
  then show "same_lists s (rpcbs_procinfo env t proc s)"
    by (auto simp: rpcbs_procinfo_def Let_def split: option.split intro!: same_lists_upd_stat)
qed

lemma getaddr_stat_same_lists: "same_lists s (rpcbs_getaddr t prog vers netid u s)"
proof -
  have "same_lists s (upd_stat t f (s\<lparr>db_heap := h\<rparr>))" if "unat t < 3" "\<And>st. length (st_info (f st)) = length (st_info st)" for f h
    using same_lists_upd_stat [OF that, of "s\<lparr>db_heap := h\<rparr>"] by (auto simp: same_lists_def db_ok_def)
  then show ?thesis
    by (auto simp: rpcbs_getaddr_def Let_def lt_3 split: option.split prod.split intro!: same_lists_upd_stat)
qed

lemma is_bound_ok [simp]: "db_ok s \<Longrightarrow> is_bound env netid u s"
  by (auto simp: is_bound_def check_bound_def db_ok_def find_fdlist_def list_all_iff find_Some_iff split: option.split)

lemma delete_prog_ok: "db_ok s \<Longrightarrow> delete_prog env prog s = Ret s"
proof -
  have "db_ok s \<Longrightarrow> delete_prog_from env prog rbls s = Ret s" for rbls
    by (induction rbls) auto
  then show "db_ok s \<Longrightarrow> delete_prog env prog s = Ret s" by (simp add: delete_prog_def)
qed

text \<open>An interface of the caller's family that is up: there is always the loopback one.\<close>

definition usable_if :: "byte list \<Rightarrow> ifaddr \<Rightarrow> bool" where
  "usable_if clnt i \<longleftrightarrow> sa_family (ifa_addr i) = sa_family clnt \<and> ifa_up i"

lemma best_if_Some: "best_if ptp clnt is (Some b) \<noteq> None"
  by (induction "is" arbitrary: b) auto

lemma best_if_None: "best_if ptp clnt is None = None \<longleftrightarrow> \<not> list_ex (usable_if clnt) is"
  by (induction "is") (auto simp: usable_if_def best_if_Some [unfolded not_None_eq])

lemma best_if_from:
  "best_if ptp clnt is b = Some i \<Longrightarrow> b = Some i \<or> i \<in> set is \<and> usable_if clnt i"
proof (induction "is" arbitrary: b)
  case (Cons j "is")
  then show ?case by (fastforce simp: usable_if_def split: if_splits option.splits)
qed simp

lemma pick_if_from:
  "pick_if clnt cs is seen = Picked i \<Longrightarrow> i \<in> set is \<and> usable_if clnt i"
  "pick_if clnt cs is seen = Unpicked (Some i) \<Longrightarrow> seen = Some i \<or> i \<in> set is \<and> usable_if clnt i"
  by (induction "is" arbitrary: seen) (auto simp: usable_if_def split: if_splits family.splits)

lemma pick_if_None: "pick_if clnt cs is seen = Unpicked None \<Longrightarrow> seen = None \<and> \<not> list_ex (usable_if clnt) is"
proof (induction "is" arbitrary: seen)
  case (Cons j "is")
  then show ?case by (cases "sa_family clnt") (auto simp: usable_if_def split: if_splits dest: Cons.IH)
qed simp

lemma merge_found_ret:
  assumes "list_ex (usable_if clnt) ifs"
  shows "\<exists>u h. merge_found env nconf clnt cs serv ifs heap = Ret (u, h)"
proof -
  have "best_if (iff_pointopoint env) clnt ifs None \<noteq> None" using assms by (simp add: best_if_None)
  moreover have "pick_if clnt cs ifs None \<noteq> Unpicked None" using assms pick_if_None by blast
  ultimately show ?thesis
    by (auto simp: merge_found_def Let_def split: picked.split family.split option.split)
qed

definition has_if :: "rpcb_env \<Rightarrow> byte list \<Rightarrow> bool" where
  "has_if env clnt \<longleftrightarrow> (case ifaddrs env of None \<Rightarrow> True | Some ifs \<Rightarrow> list_ex (usable_if clnt) ifs)"

lemma run_bind_Ret: "(\<exists>a. m = Ret a) \<Longrightarrow> (\<And>a. m = Ret a \<Longrightarrow> \<exists>b. k a = Ret b) \<Longrightarrow> \<exists>b. run_bind m k = Ret b"
  by auto

lemma addrmerge_ret:
  assumes "caller = Some clnt" "has_if env clnt"
  shows "\<exists>u. addrmerge env caller serv c netid heap = Ret u"
proof -
  have "\<exists>v. run_bind (merge_found env nconf clnt cs sv ifs h) (\<lambda>(ret, h). Ret (ret, h + n)) = Ret v"
    if "ifaddrs env = Some ifs" for nconf cs sv ifs h n
    using merge_found_ret [of clnt ifs env nconf cs sv h] assms(2) that by (auto simp: has_if_def)
  then show ?thesis
    by (auto simp: addrmerge_def assms(1) Let_def split: option.split prod.split)
qed

lemma mergeaddr_ret:
  assumes "db_ok s" "cl_rtaddr cl = Some sa" "has_if env sa"
  shows "\<exists>m h. mergeaddr env cl netid u saddr s = Ret (m, s\<lparr>db_heap := h\<rparr>) \<and> m \<noteq> SEmpty"
proof (cases "find_fdlist netid (fdhead s)")
  case None
  then show ?thesis by (intro exI [of _ SNull] exI [of _ "db_heap s"]) (simp add: mergeaddr_def)
next
  case (Some fdl)
  then have b: "check_bound env fdl (Some u) (db_heap s)"
    using assms(1) by (auto simp: check_bound_def db_ok_def find_fdlist_def list_all_iff find_Some_iff)
  obtain c h where c: "taddr2uaddr (ntop6 env) (fd_nconf fdl) (netbuf_of sa) (db_heap s) = (c, h)" by fastforce
  show ?thesis
  proof (cases c)
    case None
    then show ?thesis using Some b c assms(2) by (auto simp: mergeaddr_def)
  next
    case c': (Some c')
    obtain m h' where "addrmerge env (Some sa) u (Some c') netid h = Ret (m, h')"
      using addrmerge_ret [OF refl assms(3)] by (metis prod.exhaust)
    then show ?thesis using Some b c c' assms(2) by (auto simp: mergeaddr_def split: option.split)
  qed
qed


definition demo_cl :: rpcb_caller where
  "demo_cl = \<lparr>cl_netid = [117, 100, 112, 0], cl_rtaddr = Some (sockaddr_in 1000 [127, 0, 0, 1]), cl_uid = None\<rparr>"

lemma demo_if: "has_if (demo_env w) (sockaddr_in cp [127, 0, 0, 1])"
  by (simp add: has_if_def demo_env_def usable_if_def demo_lo_def sa_family_def sockaddr_in_def)



text \<open>Now for IPv4: what is merged is the address of an interface, the port is the server's.\<close>

lemma taddr2uaddr_16:
  assumes "length sa = 16" "load 2 2 sa = htons p" "p < 65536"
  shows "taddr2uaddr_af n6 AF_INET (netbuf_of sa) heap =
           (if heap = 0 then (None, heap) else (Some (uaddr4 (load 4 4 sa) p @ [0]), heap - 1))"
  using assms by (simp add: taddr2uaddr_af_def netbuf_of_def uaddr4_def Let_def)

lemma sockaddr_in_simps [simp]:
  "length addr = 4 \<Longrightarrow> length (sockaddr_in p addr) = 16" "load 2 2 (sockaddr_in p addr) = htons p"
  "length addr = 4 \<Longrightarrow> load 4 4 (sockaddr_in p addr) = addr" "sa_family (sockaddr_in p addr) = AF_INET"
  by (simp_all add: sockaddr_in_def htons_def zeros_def load_def sa_family_def)

lemma merged_sa:
  assumes "length sa = 16"
  shows "length (store 2 (htons p) sa) = 16" "load 2 2 (store 2 (htons p) sa) = htons p"
    "load 4 4 (store 2 (htons p) sa) = load 4 4 sa"
  using assms by (simp_all add: store_def load_def htons_def)

lemma merge_found_port:
  assumes "nconf2sockinfo nconf = Some si" "si_af si = AF_INET" "sa_family clnt = AF_INET" "sa_family cs = AF_INET"
    and "\<And>i. i \<in> set ifs \<Longrightarrow> sa_family (ifa_addr i) = AF_INET \<Longrightarrow> length (ifa_addr i) = 16" "p < 65536"
    and "merge_found env nconf clnt cs (sockaddr_in p addr) ifs heap = Ret (Some u, h)"
  shows "\<exists>i \<in> set ifs. usable_if clnt i \<and> u = uaddr4 (load 4 4 (ifa_addr i)) p @ [0]"
proof -
  have e: "taddr2uaddr (ntop6 env) nconf (netbuf_of (store 2 (htons p) (take 16 (ifa_addr i)))) heap =
      (if heap = 0 then (None, heap) else (Some (uaddr4 (load 4 4 (ifa_addr i)) p @ [0]), heap - 1))"
    if "i \<in> set ifs" "usable_if clnt i" for i
    using assms(1,2,3,6) assms(5) [OF that(1)] that(2) by (simp add: taddr2uaddr_def taddr2uaddr_16 merged_sa usable_if_def)
  show ?thesis
    using assms(7) pick_if_from(1) [of clnt cs ifs None] best_if_from [of "iff_pointopoint env" clnt ifs None]
    by (auto simp: merge_found_def Let_def assms(3,4) socklen_sockaddr_def e split: picked.splits option.splits if_splits)
qed

lemma zero_addr:
  assumes "length addr = 4" "take 8 (uaddr4 addr p) = [48, 46, 48, 46, 48, 46, 48, 46]"
  shows "addr = [0, 0, 0, 0]"
proof -
  obtain a b c d where addr: "addr = [a, b, c, d]" using assms(1) by (auto simp: numeral_eq_Suc length_Suc_conv)
  obtain rest where r: "uaddr4 addr p = [48, 46, 48, 46, 48, 46, 48, 46] @ rest"
    by (metis append_take_drop_id assms(2))
  have l: "split_dots (uaddr4 addr p) = dec (unat a) # dec (unat b) # dec (unat c) # dec (unat d) # split_dots (dec (unat p div 256) @ 46 # dec (unat p mod 256))"
    by (simp add: uaddr4_def inet_ntop4_def addr)
  have "split_dots (uaddr4 addr p) = [48] # [48] # [48] # [48] # split_dots rest" unfolding r by simp
  then have "dec (unat a) = [48] \<and> dec (unat b) = [48] \<and> dec (unat c) = [48] \<and> dec (unat d) = [48]"
    unfolding l list.inject by blast
  moreover have z: "dec 0 = [48]" by (simp add: dec.simps digit_def)
  ultimately have "dec (unat a) = dec 0 \<and> dec (unat b) = dec 0 \<and> dec (unat c) = dec 0 \<and> dec (unat d) = dec 0"
    unfolding z by blast
  then show ?thesis unfolding dec_inject by (simp add: addr unat_eq_zero)
qed

definition inet_conf :: "netconfig \<Rightarrow> bool" where
  "inet_conf nconf \<longleftrightarrow> map_option si_af (nconf2sockinfo nconf) = Some AF_INET"

lemma uaddr2taddr_inet:
  assumes "inet_conf nconf" "length addr = 4" "p < 65536" "3 \<le> heap"
  shows "uaddr2taddr w p6 junk nconf (Some (uaddr4 addr p @ [0])) heap =
           (if w then (None, heap) else (Some (netbuf_of (sockaddr_in p addr)), heap - 2))"
  using assms by (auto simp: uaddr2taddr_def inet_conf_def uaddr2taddr_in uaddr2taddr_in_win32 map_option_case split: option.splits)

lemma taddr2uaddr_inet:
  assumes "inet_conf nconf" "length addr = 4" "p < 65536"
  shows "taddr2uaddr n6 nconf (netbuf_of (sockaddr_in p addr)) heap =
           (if heap = 0 then (None, heap) else (Some (uaddr4 addr p @ [0]), heap - 1))"
  using assms by (auto simp: taddr2uaddr_def inet_conf_def taddr2uaddr_in map_option_case split: option.splits)

lemma cstr_uaddr4 [simp]: "cstr (uaddr4 addr p @ [0]) = uaddr4 addr p"
  by (rule cstr_text) simp

lemma addrmerge_port:
  assumes conf: "getnetconfigent env (cstr netid) = Some nconf" "inet_conf nconf"
    and clnt: "length ca = 4" "ca \<noteq> [0, 0, 0, 0]" "cp < 65536"
    and serv: "length addr = 4" "p < 65536"
    and ifs: "\<And>is i. ifaddrs env = Some is \<Longrightarrow> i \<in> set is \<Longrightarrow> sa_family (ifa_addr i) = AF_INET \<Longrightarrow> length (ifa_addr i) = 16"
    and heap: "5 \<le> heap"
  shows "addrmerge env (Some (sockaddr_in cp ca)) (uaddr4 addr p @ [0]) (Some (uaddr4 ca cp @ [0])) netid heap = Ret (Some u, h) \<Longrightarrow>
    \<not> win32 env \<and> (\<exists>is i. ifaddrs env = Some is \<and> i \<in> set is \<and> ifa_up i \<and> u = uaddr4 (load 4 4 (ifa_addr i)) p @ [0])"
proof -
  assume m: "addrmerge env (Some (sockaddr_in cp ca)) (uaddr4 addr p @ [0]) (Some (uaddr4 ca cp @ [0])) netid heap = Ret (Some u, h)"
  have ne: "take 8 (uaddr4 ca cp) \<noteq> [48, 46, 48, 46, 48, 46, 48, 46]" using zero_addr clnt by blast
  show ?thesis
  proof (cases "win32 env \<or> ifaddrs env = None")
    case True
    then show ?thesis using m ne conf heap uaddr2taddr_inet [OF conf(2)] clnt serv
      by (auto simp: addrmerge_def Let_def netbuf_of_def split: if_splits)
  next
    case False
    then obtain "is" where "is": "ifaddrs env = Some is" by auto
    then obtain h' where "merge_found env nconf (sockaddr_in cp ca) (sockaddr_in cp ca) (sockaddr_in p addr) is (heap - 4) = Ret (Some u, h')"
      using m ne conf heap uaddr2taddr_inet [OF conf(2)] clnt serv False
      by (cases "merge_found env nconf (sockaddr_in cp ca) (sockaddr_in cp ca) (sockaddr_in p addr) is (heap - 4)")
        (auto simp: addrmerge_def Let_def netbuf_of_def split: if_splits prod.splits)
    moreover obtain si where "nconf2sockinfo nconf = Some si" "si_af si = AF_INET"
      using conf(2) by (auto simp: inet_conf_def)
    ultimately show ?thesis
      using merge_found_port [of nconf si "sockaddr_in cp ca" "sockaddr_in cp ca" "is" p env addr "heap - 4" u h'] ifs [OF "is"] serv "is" False
      by (auto simp: usable_if_def)
  qed
qed

lemma mergeaddr_port:
  assumes conf: "db_ok s" "rpcbind_get_conf netid s = Some fconf" "inet_conf fconf"
      "getnetconfigent env (cstr netid) = Some nconf" "inet_conf nconf"
    and clnt: "cl_rtaddr cl = Some (sockaddr_in cp ca)" "length ca = 4" "ca \<noteq> [0, 0, 0, 0]" "cp < 65536"
    and serv: "length addr = 4" "p < 65536"
    and ifs: "\<And>is i. ifaddrs env = Some is \<Longrightarrow> i \<in> set is \<Longrightarrow> sa_family (ifa_addr i) = AF_INET \<Longrightarrow> length (ifa_addr i) = 16"
    and heap: "6 \<le> db_heap s"
    and m: "mergeaddr env cl netid (uaddr4 addr p @ [0]) saddr s = Ret (SHeap u, s')"
  shows "\<not> win32 env \<and> (\<exists>is i. ifaddrs env = Some is \<and> i \<in> set is \<and> ifa_up i \<and> u = uaddr4 (load 4 4 (ifa_addr i)) p @ [0])"
proof -
  obtain fdl where fdl: "find_fdlist netid (fdhead s) = Some fdl" "fd_nconf fdl = fconf"
    using conf(2) by (auto simp: rpcbind_get_conf_def)
  have "check_bound env fdl (Some (uaddr4 addr p @ [0])) (db_heap s)"
    using conf(1) fdl(1) by (auto simp: check_bound_def db_ok_def find_fdlist_def list_all_iff find_Some_iff)
  then obtain h where "addrmerge env (Some (sockaddr_in cp ca)) (uaddr4 addr p @ [0]) (Some (uaddr4 ca cp @ [0])) netid (db_heap s - 1) = Ret (Some u, h)"
    using m fdl clnt heap conf(3)
    by (cases "addrmerge env (Some (sockaddr_in cp ca)) (uaddr4 addr p @ [0]) (Some (uaddr4 ca cp @ [0])) netid (db_heap s - 1)")
      (auto simp: mergeaddr_def taddr2uaddr_inet split: if_splits prod.splits option.splits)
  then show ?thesis
    by (rule addrmerge_port [OF conf(4,5) clnt(2,3,4) serv ifs, rotated -1]) (use heap in auto)
qed

lemma mergeaddr_win32:
  assumes conf: "db_ok s" "rpcbind_get_conf netid s = Some fconf" "inet_conf fconf"
      "getnetconfigent env (cstr netid) = Some nconf" "inet_conf nconf"
    and clnt: "cl_rtaddr cl = Some (sockaddr_in cp ca)" "length ca = 4" "ca \<noteq> [0, 0, 0, 0]" "cp < 65536"
    and serv: "length addr = 4" "p < 65536" and win: "win32 env" and heap: "6 \<le> db_heap s"
  shows "mergeaddr env cl netid (uaddr4 addr p @ [0]) saddr s = Ret (SNull, s)"
proof -
  obtain fdl where fdl: "find_fdlist netid (fdhead s) = Some fdl" "fd_nconf fdl = fconf"
    using conf(2) by (auto simp: rpcbind_get_conf_def)
  have ne: "take 8 (uaddr4 ca cp) \<noteq> [48, 46, 48, 46, 48, 46, 48, 46]" using zero_addr clnt by blast
  have "check_bound env fdl (Some (uaddr4 addr p @ [0])) (db_heap s)"
    using conf(1) fdl(1) by (auto simp: check_bound_def db_ok_def find_fdlist_def list_all_iff find_Some_iff)
  moreover have "addrmerge env (Some (sockaddr_in cp ca)) (uaddr4 addr p @ [0]) (Some (uaddr4 ca cp @ [0])) netid (db_heap s - 1) = Ret (None, db_heap s - 1)"
    using ne conf heap uaddr2taddr_inet [OF conf(5)] serv win by (auto simp: addrmerge_def Let_def)
  ultimately show ?thesis
    using fdl clnt conf(3) heap by (simp add: mergeaddr_def taddr2uaddr_inet freed_def)
qed

text \<open>The answer to a lookup that finds a registration of the version.\<close>

definition getaddr_start :: "rpcb_db \<Rightarrow> rpcb_db" where
  "getaddr_start s = s\<lparr>db_heap := db_heap s + free_static (getaddr_uaddr s),
     getaddr_uaddr := case getaddr_uaddr s of SHeap _ \<Rightarrow> SNull | u \<Rightarrow> u\<rparr>"

lemma getaddr_start_simps [simp]:
  "list_rbl (getaddr_start s) = list_rbl s" "db_ok (getaddr_start s) = db_ok s"
  "rpcbind_get_conf netid (getaddr_start s) = rpcbind_get_conf netid s"
  by (simp_all add: getaddr_start_def db_ok_def rpcbind_get_conf_def)

lemma getaddr_found:
  assumes "find_service (r_prog q) (r_vers q) (cl_netid cl) (list_rbl s) = Some r" "r_vers r = r_vers q" "db_ok s"
    and "mergeaddr env cl (cl_netid cl) (deref (r_addr r)) (if cstr (deref (r_addr q)) \<noteq> [] then r_addr q else None)
           (getaddr_start s) = Ret (m, (getaddr_start s)\<lparr>db_heap := g\<rparr>)"
  shows "\<exists>s'. rpcbproc_getaddr_com env q cl rpcbversnum allvers s = Ret
      (case m of SNull \<Rightarrow> fst (strdup (deref (r_addr r)) g) | SEmpty \<Rightarrow> Some [0]
       | SHeap u \<Rightarrow> if cstr u = [] then Some [0] else Some u, s')"
proof -
  have "db_ok (getaddr_start s\<lparr>db_heap := g\<rparr>)" using assms(3) by (simp add: db_ok_def getaddr_start_def)
  from delete_prog_ok [OF this] show ?thesis
    using assms
    by (auto simp: rpcbproc_getaddr_com_def Let_def static_text_def
        simp flip: getaddr_start_def split: static_str.split prod.split option.split)
qed

lemma map_set_finds:
  assumes "db_ok s" "registered (list_rbl s) (rpcb_key regp) = None" "4 \<le> db_heap s" "cstr netid = cstr (deref (r_netid regp))"
  shows "fst (map_set env regp owner s)"
    and "find_service (r_prog regp) (r_vers regp) netid (list_rbl (snd (map_set env regp owner s))) = Some (copy_of regp owner)"
proof -
  have ok: "list_ok (list_rbl s)" using assms(1) by (simp add: db_ok_def)
  have s: "fst (map_set env regp owner s)" "list_rbl (snd (map_set env regp owner s)) = list_rbl s @ [copy_of regp owner]"
    using assms(3) by (simp_all add: map_set_new [OF ok assms(2)] Let_def)
  then show "fst (map_set env regp owner s)" by simp
  have all: "list_all strings_set (list_rbl s @ [copy_of regp owner])" using ok by (simp add: list_ok_def)
  have "List.find (\<lambda>r. rpcb_key r = rpcb_key regp) (list_rbl s) = None"
    using assms(2) by (simp add: registered_find)
  then have "List.find (\<lambda>r. rpcb_key r = (r_prog regp, r_vers regp, map tolower (cstr netid))) (list_rbl s @ [copy_of regp owner]) = Some (copy_of regp owner)"
    using assms(4) by (simp add: find_snoc rpcb_key_def [of regp])
  then show "find_service (r_prog regp) (r_vers regp) netid (list_rbl (snd (map_set env regp owner s))) = Some (copy_of regp owner)"
    unfolding s(2)
    using find_service_exact [OF all, where prog = "r_prog regp" and vers = "r_vers regp" and netid = netid]
    by (auto split: option.splits if_splits)
qed

text \<open>
  C34: Setting a registration with an IPv4 address and asking for it from an IPv4 caller: the answer
  has the port that was registered, at the address that was registered or at that of an interface
  that is up; compiled for Windows it is the very address that was registered, since there
  \<open>uaddr2taddr\<close> cannot read one and nothing is merged.
\<close>

theorem set_then_getaddr:
  assumes s: "db_ok s" "registered (list_rbl s) (rpcb_key regp) = None" "11 \<le> db_heap s"
    and serv: "r_addr regp = Some (uaddr4 addr p @ [0])" "length addr = 4" "p < 65536"
    and q: "r_prog q = r_prog regp" "r_vers q = r_vers regp" "cstr (cl_netid cl) = cstr (deref (r_netid regp))"
    and clnt: "cl_rtaddr cl = Some (sockaddr_in cp ca)" "length ca = 4" "ca \<noteq> [0, 0, 0, 0]" "cp < 65536"
    and conf: "rpcbind_get_conf (cl_netid cl) s = Some fconf" "inet_conf fconf"
      "getnetconfigent env (cstr (cl_netid cl)) = Some nconf" "inet_conf nconf"
    and ifs: "\<And>is i. ifaddrs env = Some is \<Longrightarrow> i \<in> set is \<Longrightarrow> sa_family (ifa_addr i) = AF_INET \<Longrightarrow> length (ifa_addr i) = 16"
      "has_if env (sockaddr_in cp ca)"
    and set: "map_set env regp owner s = (ok, s1)"
  shows "ok \<and> (\<exists>u s2. rpcbproc_getaddr_com env q cl rpcbversnum allvers s1 = Ret (u, s2) \<and>
           (win32 env \<longrightarrow> u = Some (uaddr4 addr p @ [0])) \<and>
           (\<forall>t. u = Some t \<longrightarrow> (\<exists>a. t = uaddr4 a p @ [0] \<and>
              (a = addr \<or> (\<exists>is i. ifaddrs env = Some is \<and> i \<in> set is \<and> ifa_up i \<and> a = load 4 4 (ifa_addr i))))))"
proof -
  let ?r = "copy_of regp owner" and ?s = "getaddr_start s1"
  let ?saddr = "if cstr (deref (r_addr q)) \<noteq> [] then r_addr q else None"
  have s1: "snd (map_set env regp owner s) = s1" "fst (map_set env regp owner s) = ok" using set by simp_all
  have f: "find_service (r_prog q) (r_vers q) (cl_netid cl) (list_rbl s1) = Some ?r" "ok"
    using map_set_finds [OF s(1,2) _ q(3), of env owner] s(3) s1 q by auto
  have ok: "db_ok s1" using map_set_db_ok [OF s(1), of env regp owner] s1 by simp
  have conf1: "rpcbind_get_conf (cl_netid cl) ?s = Some fconf"
    using conf(1) map_set_fields(1) [of env regp owner s] s1 by (simp add: rpcbind_get_conf_def getaddr_start_def)
  have "db_heap s - 5 \<le> db_heap s1"
    using s1 s by (auto simp: map_set_new db_ok_def Let_def add_pmaplist_def split: option.splits)
  then have heap: "6 \<le> db_heap ?s" using s(3) by (simp add: getaddr_start_def)
  have v: "r_vers ?r = r_vers q" using q(2) by (simp add: copy_of_def)
  have addr: "deref (r_addr ?r) = uaddr4 addr p @ [0]" using serv(1) by (simp add: copy_of_def)
  obtain m g where m: "mergeaddr env cl (cl_netid cl) (uaddr4 addr p @ [0]) ?saddr ?s = Ret (m, ?s\<lparr>db_heap := g\<rparr>)" "m \<noteq> SEmpty"
    using mergeaddr_ret [of ?s cl "sockaddr_in cp ca" env "cl_netid cl" "uaddr4 addr p @ [0]" ?saddr] ok clnt(1) ifs(2) by auto
  obtain s2 where g: "rpcbproc_getaddr_com env q cl rpcbversnum allvers s1 = Ret
      (case m of SNull \<Rightarrow> fst (strdup (uaddr4 addr p @ [0]) g) | SEmpty \<Rightarrow> Some [0]
       | SHeap u \<Rightarrow> if cstr u = [] then Some [0] else Some u, s2)"
    using getaddr_found [OF f(1) v ok, unfolded addr, OF m(1)] by blast
  have ok': "db_ok ?s" using ok by simp
  have win: "m = SNull \<and> 6 \<le> g" if "win32 env"
    using mergeaddr_win32 [OF ok' conf1 conf(2-4) clnt serv(2,3) that heap, where saddr = ?saddr] m(1) heap
    by (auto dest: arg_cong [of _ _ db_heap])
  have u: "\<exists>is i. ifaddrs env = Some is \<and> i \<in> set is \<and> ifa_up i \<and> u = uaddr4 (load 4 4 (ifa_addr i)) p @ [0]" if "m = SHeap u" for u
  proof -
    have "mergeaddr env cl (cl_netid cl) (uaddr4 addr p @ [0]) ?saddr ?s = Ret (SHeap u, ?s\<lparr>db_heap := g\<rparr>)"
      using m(1) that by simp
    from mergeaddr_port [OF ok' conf1 conf(2-4) clnt serv(2,3) _ heap this] ifs(1) show ?thesis by blast
  qed
  have ne: "uaddr4 a p \<noteq> []" for a by (simp add: uaddr4_def inet_ntop4_def)
  show ?thesis
    using f(2) g m(2) win u ne by (cases m) (auto simp: strdup_def)
qed

lemma set_then_getaddr_witness:
  "\<exists>u s2. rpcbproc_getaddr_com (demo_env True) demo_q demo_cl 3 False (snd (map_set (demo_env True) demo_q superuser (demo_db []))) = Ret (u, s2) \<and>
     u = Some (uaddr4 [10, 0, 0, 7] 2049 @ [0])"
proof -
  obtain ok s1 where s1: "map_set (demo_env True) demo_q superuser (demo_db []) = (ok, s1)" by fastforce
  have "inet_conf udp_nconf"
    by (simp add: inet_conf_def nconf2sockinfo_def udp_nconf_def cstr_def na_cvt_def seman2socktype_def)
  moreover have "rpcbind_get_conf (cl_netid demo_cl) (demo_db []) = Some udp_nconf"
    by (simp add: rpcbind_get_conf_def find_fdlist_def demo_db_def strcmp_eq_def demo_cl_def udp_nconf_def)
  moreover have "length (ifa_addr i) = 16" if "ifaddrs (demo_env True) = Some is" "i \<in> set is" for "is" i
    using that by auto
  ultimately show ?thesis
    using set_then_getaddr [of "demo_db []" demo_q "[10, 0, 0, 7]" 2049 demo_q demo_cl 1000 "[127, 0, 0, 1]" udp_nconf
        "demo_env True" udp_nconf superuser ok s1 3 False] s1 demo_if [of True 1000]
    by (simp add: registered_def demo_cl_def)
qed


end
