(* ===== verification/Svc_Dg.thy ===== *)
theory Svc_Dg
  imports Svc_Vc
begin

text \<open>
  \<open>libsrc/svc_dg.c\<close>: transports over datagrams. A transport has one buffer for the call received and
  the reply sent, and may keep a cache of the last replies, by which a retransmitted call is answered
  again without being dispatched again. The contract \<open>transport\<close> of the server is interpreted on
  these operations.

  The main facts: the cache, a hash table threaded through a ring of nodes, behaves as the list of
  the last replies, the latest first; a call and its retransmission get the same reply.
\<close>

section \<open>State\<close>

text \<open>
  A node of the cache lives at an index of \<open>uc_nodes\<close>, a chain of the table is the list of its nodes,
  and a reply is kept as the address and the contents of the buffer it was sent from.
\<close>

record cache_node =
  cache_xid :: u32
  cache_proc :: u32
  cache_vers :: u32
  cache_prog :: u32
  cache_addr :: "byte list"
  cache_reply :: "u64 \<times> byte list"
  cache_replylen :: nat

record cl_cache =
  uc_size :: u32
  uc_entries :: "nat list list"
  uc_fifo :: "nat option list"
  uc_nextvictim :: u32
  uc_prog :: u32
  uc_vers :: u32
  uc_proc :: u32
  uc_nodes :: "cache_node list"

text \<open>\<open>rpc_buffer\<close> is the block under \<open>su_xdrs\<close>; \<open>dg_sent\<close> are the datagrams sent, the last one first.\<close>

record svc_dg_data =
  su_iosz :: u32
  su_xid :: u32
  su_xdrs :: "xdr_mem XDR"
  su_cache :: "cl_cache option"
  dg_sent :: "(byte list \<times> byte list) list"

type_synonym dg_server = "svc_dg_data svc"
type_synonym dg_xprt = "svc_dg_data svcxprt"

text \<open>
  What the system answers: the \<open>k\<close>-th \<open>recvfrom\<close> of a request, the value of \<open>sendto\<close>, the address of the
  next transport, and the allocations of a transport in a given state: a block for a peer's address,
  a node of the cache, and a block as large as the buffer, with what it holds.
\<close>

datatype dg_event = Datagram "byte list" "byte list" | Recv_intr | Recv_error

record dg_env =
  dv_recv :: "nat \<Rightarrow> dg_server \<Rightarrow> dg_event"
  dv_sendto :: "svc_dg_data \<Rightarrow> byte list \<Rightarrow> byte list \<Rightarrow> int"
  dv_fresh :: "dg_server \<Rightarrow> nat"
  dv_addr :: "svc_dg_data \<Rightarrow> bool"
  dv_node :: "svc_dg_data \<Rightarrow> bool"
  dv_block :: "svc_dg_data \<Rightarrow> (u64 \<times> byte list) option"

definition rpc_buffer :: "svc_dg_data \<Rightarrow> byte list" where
  "rpc_buffer su = xm_buf (x_private (su_xdrs su))"

definition set_rpc_buffer :: "byte list \<Rightarrow> svc_dg_data \<Rightarrow> svc_dg_data" where
  "set_rpc_buffer b su = su\<lparr>su_xdrs := (su_xdrs su)\<lparr>x_private := (x_private (su_xdrs su))\<lparr>xm_buf := b\<rparr>\<rparr>\<rparr>"

definition sent :: "byte list \<Rightarrow> byte list \<Rightarrow> svc_dg_data \<Rightarrow> svc_dg_data" where
  "sent bs to su = su\<lparr>dg_sent := (bs, to) # dg_sent su\<rparr>"

text \<open>The \<open>len\<close> bytes at \<open>buf\<close> of a \<open>netbuf\<close> that may be empty.\<close>

definition nb_bytes :: "byte list option \<Rightarrow> byte list" where
  "nb_bytes nb = (case nb of None \<Rightarrow> [] | Some bs \<Rightarrow> bs)"

section \<open>The cache\<close>

text \<open>\<open>SPARSENESS\<close> is 4; the hash divides by the size of the table, modulo 2^32.\<close>

definition cache_loc :: "cl_cache \<Rightarrow> u32 \<Rightarrow> nat run" where
  "cache_loc uc xid =
     (if 4 * uc_size uc = 0 then Fault
      else let loc = unat (xid mod (4 * uc_size uc)) in
        if loc < length (uc_entries uc) then Ret loc else Fault)"

text \<open>\<open>MEMZERO\<close> multiplies by an \<open>int\<close>: a count that is negative there overruns the block.\<close>

definition svc_dg_enablecache :: "u32 \<Rightarrow> nat \<Rightarrow> dg_server \<Rightarrow> (int \<times> dg_server) run" where
  "svc_dg_enablecache size' p s =
     (case svc_mem s p of None \<Rightarrow> Fault
      | Some x \<Rightarrow>
      if su_cache (xp_p1 x) \<noteq> None then Ret (0, s)
      else case alloc 1 s of None \<Rightarrow> Ret (0, s)
      | Some s1 \<Rightarrow>
      case alloc 1 s1 of None \<Rightarrow> Ret (0, s)
      | Some s2 \<Rightarrow>
      if sint (size' * 4) < 0 then Fault
      else case alloc 1 s2 of None \<Rightarrow> Ret (0, s)
      | Some s3 \<Rightarrow>
      if sint size' < 0 then Fault
      else let uc = \<lparr>uc_size = size', uc_entries = replicate (unat (size' * 4)) [],
                uc_fifo = replicate (unat size') None, uc_nextvictim = 0, uc_prog = 0, uc_vers = 0,
                uc_proc = 0, uc_nodes = []\<rparr> in
        Ret (1, s3\<lparr>svc_mem := (svc_mem s3)(p \<mapsto> x\<lparr>xp_p1 := (xp_p1 x)\<lparr>su_cache := Some uc\<rparr>\<rparr>)\<rparr>))"

definition cache_match :: "u32 \<Rightarrow> byte list \<Rightarrow> ('s, 'r) rpc_msg \<Rightarrow> cache_node \<Rightarrow> bool" where
  "cache_match xid addr msg ent \<longleftrightarrow>
     cache_xid ent = xid \<and> cache_proc ent = cb_proc (rm_call msg) \<and> cache_vers ent = cb_vers (rm_call msg) \<and>
     cache_prog ent = cb_prog (rm_call msg) \<and> length (cache_addr ent) = length addr \<and> cache_addr ent = addr"

fun cache_walk :: "(cache_node \<Rightarrow> bool) \<Rightarrow> cache_node list \<Rightarrow> nat list \<Rightarrow> cache_node option" where
  "cache_walk P nodes [] = None"
| "cache_walk P nodes (ent # chain) = (if P (nodes ! ent) then Some (nodes ! ent) else cache_walk P nodes chain)"

text \<open>The reply and its length, or the cache with what \<open>cache_set\<close> will need.\<close>

definition cache_get ::
  "u32 \<Rightarrow> byte list \<Rightarrow> ('s, 'r) rpc_msg \<Rightarrow> cl_cache \<Rightarrow> (byte list option \<times> cl_cache) run" where
  "cache_get xid addr msg uc =
     run_bind (cache_loc uc xid) (\<lambda>loc.
       case cache_walk (cache_match xid addr msg) (uc_nodes uc) (uc_entries uc ! loc) of
         Some ent \<Rightarrow> Ret (Some (take (cache_replylen ent) (snd (cache_reply ent))), uc)
       | None \<Rightarrow> Ret (None, uc\<lparr>uc_proc := cb_proc (rm_call msg), uc_vers := cb_vers (rm_call msg),
                               uc_prog := cb_prog (rm_call msg)\<rparr>))"

text \<open>
  The space for the new entry: a node taken out of the table with its old buffer, or a new one.
  \<open>None\<close> is an early return.
\<close>

definition cache_victim :: "dg_env \<Rightarrow> svc_dg_data \<Rightarrow> cl_cache \<Rightarrow> ((nat \<times> (u64 \<times> byte list) \<times> cl_cache) option) run" where
  "cache_victim env su uc =
     (if \<not> unat (uc_nextvictim uc) < length (uc_fifo uc) then Fault
      else case uc_fifo uc ! unat (uc_nextvictim uc) of
        Some v \<Rightarrow>
          if \<not> v < length (uc_nodes uc) then Fault
          else run_bind (cache_loc uc (cache_xid (uc_nodes uc ! v))) (\<lambda>loc.
            if v \<notin> set (uc_entries uc ! loc) then Ret None
            else Ret (Some (v, cache_reply (uc_nodes uc ! v),
              uc\<lparr>uc_entries := (uc_entries uc)[loc := remove1 v (uc_entries uc ! loc)]\<rparr>)))
      | None \<Rightarrow>
          if \<not> dv_node env su then Ret None
          else (case dv_block env su of None \<Rightarrow> Ret None
                | Some blk \<Rightarrow> Ret (Some (length (uc_nodes uc), blk, uc))))"

definition put_node :: "nat \<Rightarrow> cache_node \<Rightarrow> cache_node list \<Rightarrow> cache_node list" where
  "put_node v e nodes = (if v < length nodes then nodes[v := e] else nodes @ [e])"

definition cache_set :: "dg_env \<Rightarrow> nat \<Rightarrow> byte list \<Rightarrow> svc_dg_data \<Rightarrow> svc_dg_data run" where
  "cache_set env replylen addr su =
     (case su_cache su of None \<Rightarrow> Fault
      | Some uc \<Rightarrow>
      run_bind (cache_victim env su uc) (\<lambda>victim.
        case victim of None \<Rightarrow> Ret su
        | Some (v, newbuf, uc) \<Rightarrow>
        let ent = \<lparr>cache_xid = su_xid su, cache_proc = uc_proc uc, cache_vers = uc_vers uc,
                   cache_prog = uc_prog uc, cache_addr = addr,
                   cache_reply = (xm_base (x_private (su_xdrs su)), rpc_buffer su), cache_replylen = replylen\<rparr>;
            su = su\<lparr>su_xdrs := xdrmem_create (fst newbuf) (snd newbuf) (su_iosz su) XDR_ENCODE (x_mem (su_xdrs su))\<rparr>
        in if addr \<noteq> [] \<and> \<not> dv_addr env su then Fault
           else run_bind (cache_loc uc (cache_xid ent)) (\<lambda>loc.
             let uc = uc\<lparr>uc_nodes := put_node v ent (uc_nodes uc),
                         uc_entries := (uc_entries uc)[loc := v # uc_entries uc ! loc],
                         uc_fifo := (uc_fifo uc)[unat (uc_nextvictim uc) := Some v],
                         uc_nextvictim := (uc_nextvictim uc + 1) mod uc_size uc\<rparr>
             in Ret (su\<lparr>su_cache := Some uc\<rparr>))))"

section \<open>Operations\<close>

definition svc_dg_stat :: "svc_dg_data \<Rightarrow> xprt_stat \<times> svc_dg_data" where
  "svc_dg_stat su = (XPRT_IDLE, su)"

fun dg_recvfrom :: "nat \<Rightarrow> nat \<Rightarrow> (nat \<Rightarrow> dg_event) \<Rightarrow> dg_event run" where
  "dg_recvfrom 0 k ev = Out_of_fuel"
| "dg_recvfrom (Suc fuel) k ev = (if ev k = Recv_intr then dg_recvfrom fuel (k + 1) ev else Ret (ev k))"

text \<open>
  The peer's address is copied into \<open>xp_rtaddr\<close>, whose length never shrinks: behind a shorter address
  the rest of the longer one stays. The XDR handle spans the whole buffer, not only the bytes received.
\<close>

definition dg_peer :: "dg_env \<Rightarrow> byte list \<Rightarrow> dg_xprt \<Rightarrow> dg_xprt run" where
  "dg_peer env addr x =
     (let old = nb_bytes (xp_rtaddr x) in
      if length old < length addr \<and> \<not> dv_addr env (xp_p1 x) then Fault
      else Ret (x\<lparr>xp_rtaddr := (if addr = [] then xp_rtaddr x else Some (addr @ drop (length addr) old))\<rparr>))"

definition dg_received ::
  "dg_env \<Rightarrow> byte list \<Rightarrow> byte list \<Rightarrow> dg_xprt \<Rightarrow> (xdr_mem, 'r) rpc_msg \<Rightarrow> (bool \<times> (xdr_mem, 'r) rpc_msg \<times> dg_xprt) run" where
  "dg_received env bs addr x msg =
     (let su = xp_p1 x; bs = take (unat (su_iosz su)) bs;
          su = set_rpc_buffer (store 0 bs (rpc_buffer su)) su in
      if length bs < 16 then Ret (False, msg, x\<lparr>xp_p1 := su\<rparr>)
      else run_bind (dg_peer env addr (x\<lparr>xp_p1 := su\<rparr>)) (\<lambda>x.
        case XDR_SETPOS ((su_xdrs su)\<lparr>x_op := XDR_DECODE\<rparr>) 0 of (_, xdrs) \<Rightarrow>
        case xdr_callmsg msg xdrs of (ok, msg, xdrs) \<Rightarrow>
        let su = su\<lparr>su_xdrs := xdrs\<rparr> in
        if \<not> ok then Ret (False, msg, x\<lparr>xp_p1 := su\<rparr>)
        else let su = su\<lparr>su_xid := rm_xid msg\<rparr> in
        case su_cache su of None \<Rightarrow> Ret (True, msg, x\<lparr>xp_p1 := su\<rparr>)
        | Some uc \<Rightarrow>
          run_bind (cache_get (su_xid su) (nb_bytes (xp_rtaddr x)) msg uc) (\<lambda>(reply, uc).
            let su = su\<lparr>su_cache := Some uc\<rparr> in
            case reply of Some r \<Rightarrow> Ret (False, msg, x\<lparr>xp_p1 := sent r addr su\<rparr>)
            | None \<Rightarrow> Ret (True, msg, x\<lparr>xp_p1 := su\<rparr>))))"

definition svc_dg_recv ::
  "nat \<Rightarrow> dg_env \<Rightarrow> nat \<Rightarrow> (xdr_mem, 'r) rpc_msg \<Rightarrow> dg_server \<Rightarrow> (bool \<times> (xdr_mem, 'r) rpc_msg \<times> dg_server) run" where
  "svc_dg_recv fuel env p msg s =
     (case svc_mem s p of None \<Rightarrow> Fault
      | Some x \<Rightarrow>
      run_bind (dg_recvfrom fuel 0 (\<lambda>k. dv_recv env k s)) (\<lambda>ev. case ev of
        Datagram bs addr \<Rightarrow> run_bind (dg_received env bs addr x msg) (\<lambda>(ok, msg, x).
          Ret (ok, msg, s\<lparr>svc_mem := (svc_mem s)(p \<mapsto> x)\<rparr>))
      | _ \<Rightarrow> Ret (False, msg, s)))"

definition svc_dg_reply :: "dg_env \<Rightarrow> dg_xprt \<Rightarrow> (xdr_mem, 'r) rpc_msg \<Rightarrow> (bool \<times> svc_dg_data) run" where
  "svc_dg_reply env x msg =
     (let su = xp_p1 x; addr = nb_bytes (xp_rtaddr x) in
      case XDR_SETPOS ((su_xdrs su)\<lparr>x_op := XDR_ENCODE\<rparr>) 0 of (_, xdrs) \<Rightarrow>
      case xdr_replymsg (msg\<lparr>rm_xid := su_xid su\<rparr>) xdrs of (ok, _, xdrs) \<Rightarrow>
      let su = su\<lparr>su_xdrs := xdrs\<rparr> in
      if \<not> ok then Ret (False, su)
      else let slen = unat (XDR_GETPOS xdrs); bs = take slen (rpc_buffer su); n = dv_sendto env su bs addr;
               su = sent bs addr su in
        if n \<noteq> int slen then Ret (False, su)
        else if su_cache su = None then Ret (True, su)
        else run_bind (cache_set env slen addr su) (\<lambda>su. Ret (True, su)))"

definition svc_dg_getargs :: "(xdr_mem, 'a) xdrproc \<Rightarrow> 'a \<Rightarrow> svc_dg_data \<Rightarrow> bool \<times> 'a \<times> svc_dg_data" where
  "svc_dg_getargs xdr_args args su = (case xdr_args args (su_xdrs su) of (ok, args, x) \<Rightarrow> (ok, args, su\<lparr>su_xdrs := x\<rparr>))"

definition svc_dg_freeargs :: "(xdr_mem, 'a) xdrproc \<Rightarrow> 'a \<Rightarrow> svc_dg_data \<Rightarrow> bool \<times> 'a \<times> svc_dg_data" where
  "svc_dg_freeargs xdr_args args su =
     (case xdr_args args ((su_xdrs su)\<lparr>x_op := XDR_FREE\<rparr>) of (ok, args, x) \<Rightarrow> (ok, args, su\<lparr>su_xdrs := x\<rparr>))"

definition svc_dg_control :: "u32 \<Rightarrow> 'a \<Rightarrow> bool \<times> 'a" where
  "svc_dg_control rq in_val = (False, in_val)"

text \<open>The blocks given back: the buffer, the private data, the handle and what the handle points to.\<close>

definition dg_frees :: "dg_xprt \<Rightarrow> nat" where
  "dg_frees x = 3 + (if xp_rtaddr x = None then 0 else 1) + (if xp_ltaddr x = None then 0 else 1) +
     (if xp_tp x = None then 0 else 1)"

definition svc_dg_destroy :: "nat \<Rightarrow> dg_server \<Rightarrow> dg_server run" where
  "svc_dg_destroy p s =
     (case svc_mem s p of None \<Rightarrow> Fault
      | Some _ \<Rightarrow>
      run_bind (xprt_unregister p s) (\<lambda>s.
        case svc_mem s p of None \<Rightarrow> Fault
        | Some x \<Rightarrow>
            Ret (s\<lparr>svc_closed := (if xp_fd x = - 1 then [] else [xp_fd x]) @ svc_closed s,
                   svc_heap := svc_heap s + dg_frees x, svc_mem := (svc_mem s)(p := None)\<rparr>)))"

text \<open>
  \<open>__rpc_get_t_size\<close> of \<open>rpc_generic.c\<close>, for a protocol (TCP is 6, UDP is 17); a size that is negative as
  an \<open>int\<close> passes the test against the maximum.
\<close>

definition rpc_get_t_size :: "int \<Rightarrow> u32 \<Rightarrow> u32" where
  "rpc_get_t_size proto sz =
     (let maxsize = 256 * 1024;
          defsize = (if proto = 6 then 64 * 1024 else if proto = 17 then 8800 else 9000)
      in if sz = 0 then defsize else if sint sz > sint maxsize then maxsize else sz)"

text \<open>
  \<open>si\<close> is the protocol \<open>__rpc_fd2sockinfo\<close> finds, \<open>addr\<close> the answer of \<open>getsockname\<close>, and \<open>blk\<close> the
  address and contents of the buffer that is allocated.
\<close>

definition svc_dg_create ::
  "dg_env \<Rightarrow> int option \<Rightarrow> byte list option \<Rightarrow> (u64 \<times> byte list) \<Rightarrow> int \<Rightarrow> u32 \<Rightarrow> u32 \<Rightarrow> nat \<Rightarrow> dg_server \<Rightarrow>
     (nat option \<times> dg_server) run" where
  "svc_dg_create env si addr blk fd sendsz recvsz h s =
     (case si of None \<Rightarrow> Ret (None, s)
      | Some proto \<Rightarrow>
      let sendsz = rpc_get_t_size proto sendsz; recvsz = rpc_get_t_size proto recvsz; p = dv_fresh env s in
      if sendsz = 0 \<or> recvsz = 0 then Ret (None, s)
      else case alloc 1 s of None \<Rightarrow> Ret (None, s)
      | Some s1 \<Rightarrow>
      case alloc 1 s1 of None \<Rightarrow> Ret (None, s)
      | Some s2 \<Rightarrow>
      case alloc 1 s2 of None \<Rightarrow> Ret (None, s)
      | Some s3 \<Rightarrow>
      let iosz = ((max sendsz recvsz + 3) div 4) * 4;
          su = \<lparr>su_iosz = iosz, su_xid = 0, su_xdrs = xdrmem_create (fst blk) (snd blk) iosz XDR_DECODE h,
                su_cache = None, dg_sent = []\<rparr>;
          xprt = (new_xprt fd 0 None su)\<lparr>xp_verf := null_verf\<lparr>oa_base := Some (zeros 400)\<rparr>\<rparr>;
          freedata = (\<lambda>s. Ret (None, s\<lparr>svc_heap := svc_heap s + 2, svc_mem := (svc_mem s)(p := None)\<rparr>)) in
      case addr of None \<Rightarrow> freedata s3
      | Some a \<Rightarrow>
      case alloc 1 s3 of None \<Rightarrow> Fault
      | Some s4 \<Rightarrow>
          run_bind (xprt_register p (s4\<lparr>svc_mem := (svc_mem s4)(p \<mapsto> xprt\<lparr>xp_ltaddr := addr\<rparr>)\<rparr>)) (\<lambda>(ok, s).
            if ok then Ret (Some p, s) else freedata s))"

definition svc_dg_ops :: "nat \<Rightarrow> dg_env \<Rightarrow> (svc_dg_data, xdr_mem, 'r) xp_ops" where
  "svc_dg_ops fuel env =
     \<lparr>xp_recv = svc_dg_recv fuel env, xp_stat = svc_dg_stat, xp_reply = svc_dg_reply env,
      xp_destroy = svc_dg_destroy\<rparr>"

section \<open>The cache as the list of the last replies\<close>

text \<open>
  \<open>cache_order\<close>: the nodes in use, the one filled last first. They lie in the slots before the next
  victim, going down, and then in those behind it. The chain of a hash value is the part of that list
  with the value.
\<close>

definition cache_order :: "cl_cache \<Rightarrow> nat list" where
  "cache_order uc = rev [0..<unat (uc_nextvictim uc)] @ rev [unat (uc_nextvictim uc)..<length (uc_nodes uc)]"

definition cache_hash :: "cl_cache \<Rightarrow> u32 \<Rightarrow> nat" where
  "cache_hash uc xid = unat (xid mod (4 * uc_size uc))"

definition chain_of :: "cl_cache \<Rightarrow> nat \<Rightarrow> nat list" where
  "chain_of uc loc = filter (\<lambda>v. cache_hash uc (cache_xid (uc_nodes uc ! v)) = loc) (cache_order uc)"

definition cache_inv :: "cl_cache \<Rightarrow> bool" where
  "cache_inv uc \<longleftrightarrow> (let N = unat (uc_size uc); n = unat (uc_nextvictim uc); k = length (uc_nodes uc) in
     0 < N \<and> N < 2 ^ 29 \<and> length (uc_fifo uc) = N \<and> length (uc_entries uc) = 4 * N \<and>
     k \<le> N \<and> n < N \<and> (k < N \<longrightarrow> n = k) \<and>
     (\<forall>i < N. uc_fifo uc ! i = (if i < k then Some i else None)) \<and>
     (\<forall>loc < 4 * N. uc_entries uc ! loc = chain_of uc loc))"

definition cache_log :: "cl_cache \<Rightarrow> cache_node list" where
  "cache_log uc = map ((!) (uc_nodes uc)) (cache_order uc)"

lemma cache_order_set: "n = unat (uc_nextvictim uc) \<Longrightarrow> n \<le> length (uc_nodes uc) \<Longrightarrow> set (cache_order uc) = {..<length (uc_nodes uc)}"
  by (auto simp: cache_order_def)

lemma cache_inv_order:
  assumes "cache_inv uc"
  shows "set (cache_order uc) = {..<length (uc_nodes uc)}"
  using assms by (intro cache_order_set [OF refl]) (auto simp: cache_inv_def Let_def not_less)

lemma four_size:
  assumes "unat (N :: u32) < 2 ^ 29"
  shows "unat (4 * N) = 4 * unat N"
  using assms by (subst unat_mult_lem [THEN iffD1]) simp_all

lemma cache_loc_hash:
  assumes "cache_inv uc"
  shows "cache_loc uc xid = Ret (cache_hash uc xid)" and "cache_hash uc xid < length (uc_entries uc)"
proof -
  have N: "0 < unat (uc_size uc)" "unat (uc_size uc) < 2 ^ 29" "length (uc_entries uc) = 4 * unat (uc_size uc)"
    using assms by (simp_all add: cache_inv_def Let_def)
  have four: "unat (4 * uc_size uc) = 4 * unat (uc_size uc)" using N(2) by (rule four_size)
  then have "4 * uc_size uc \<noteq> 0" using N(1) by (metis unat_0 mult_eq_0_iff numeral_neq_zero not_gr_zero)
  moreover show less: "cache_hash uc xid < length (uc_entries uc)"
    using N(1) by (simp add: cache_hash_def unat_mod four N(3))
  ultimately show "cache_loc uc xid = Ret (cache_hash uc xid)"
    by (simp add: cache_loc_def cache_hash_def Let_def)
qed

lemma cache_walk_find: "cache_walk P nodes chain = List.find P (map ((!) nodes) chain)"
  by (induction chain) simp_all

lemma find_filter: "(\<And>x. x \<in> set xs \<Longrightarrow> P (f x) \<Longrightarrow> Q x) \<Longrightarrow> List.find P (map f (filter Q xs)) = List.find P (map f xs)"
  by (induction xs) auto

text \<open>Looking a call up finds the latest reply to a call with the same number, procedure and peer.\<close>

lemma cache_get_log:
  assumes "cache_inv uc"
  shows "cache_get xid addr msg uc = Ret
    (case List.find (cache_match xid addr msg) (cache_log uc) of
       Some ent \<Rightarrow> (Some (take (cache_replylen ent) (snd (cache_reply ent))), uc)
     | None \<Rightarrow> (None, uc\<lparr>uc_proc := cb_proc (rm_call msg), uc_vers := cb_vers (rm_call msg), uc_prog := cb_prog (rm_call msg)\<rparr>))"
proof -
  let ?loc = "cache_hash uc xid"
  have "uc_entries uc ! ?loc = chain_of uc ?loc"
    using assms cache_loc_hash(2) [OF assms, of xid] by (simp add: cache_inv_def Let_def)
  then have "cache_walk (cache_match xid addr msg) (uc_nodes uc) (uc_entries uc ! ?loc) =
      List.find (cache_match xid addr msg) (cache_log uc)"
    unfolding cache_walk_find chain_of_def cache_log_def by (simp, intro find_filter) (simp add: cache_match_def)
  then show ?thesis
    by (simp add: cache_get_def cache_loc_hash(1) [OF assms] split: option.split)
qed

lemma cache_inv_saved:
  "cache_inv (uc\<lparr>uc_proc := a, uc_vers := b, uc_prog := c\<rparr>) = cache_inv uc"
  "cache_log (uc\<lparr>uc_proc := a, uc_vers := b, uc_prog := c\<rparr>) = cache_log uc"
  by (simp_all add: cache_inv_def chain_of_def cache_order_def cache_hash_def cache_log_def)

lemma cache_get_inv:
  assumes "cache_inv uc"
  obtains r uc' where "cache_get xid addr msg uc = Ret (r, uc')" and "cache_inv uc'"
  using assms cache_get_log [OF assms, of xid addr msg]
  by (cases "List.find (cache_match xid addr msg) (cache_log uc)") (simp_all add: cache_inv_saved)

text \<open>The next slot, and the list of nodes after it has been filled.\<close>

lemma next_order:
  assumes "cache_inv uc"
  defines "n \<equiv> unat (uc_nextvictim uc)" and "k \<equiv> length (uc_nodes uc)"
  obtains rest where "cache_order uc = (if k < unat (uc_size uc) then rest else rest @ [n])" and "n \<notin> set rest"
    and "\<forall>uc'. uc_nextvictim uc' = (uc_nextvictim uc + 1) mod uc_size uc \<and>
      length (uc_nodes uc') = (if k < unat (uc_size uc) then k + 1 else k) \<longrightarrow> cache_order uc' = n # rest"
    and "length rest = (if k < unat (uc_size uc) then k else unat (uc_size uc) - 1)" and "set rest \<subseteq> {..<k}"
proof -
  let ?N = "unat (uc_size uc)"
  have inv: "0 < ?N" "?N < 2 ^ 29" "k \<le> ?N" "n < ?N" "k < ?N \<Longrightarrow> n = k"
    using assms(1) by (simp_all add: cache_inv_def n_def k_def Let_def)
  have n1: "unat ((uc_nextvictim uc + 1) mod uc_size uc) = (n + 1) mod ?N"
  proof -
    have "unat (uc_nextvictim uc + 1) = n + 1"
      using inv(2,4) by (subst unat_add_lem [THEN iffD1]) (simp_all add: n_def)
    then show ?thesis by (simp add: unat_mod)
  qed
  show thesis
  proof (cases "k < ?N")
    case True
    with inv have nk: "n = k" by simp
    have order: "cache_order uc = rev [0..<k]" using nk by (simp add: cache_order_def n_def [symmetric] k_def [symmetric])
    have "cache_order uc' = n # rev [0..<k]"
      if "uc_nextvictim uc' = (uc_nextvictim uc + 1) mod uc_size uc" "length (uc_nodes uc') = k + 1" for uc' :: cl_cache
    proof (cases "k + 1 < ?N")
      case True
      then show ?thesis using that n1 nk by (simp add: cache_order_def)
    next
      case False
      with \<open>k < ?N\<close> have "?N = Suc k" by simp
      then show ?thesis using that n1 nk by (simp add: cache_order_def)
    qed
    with True order nk show thesis by (intro that [of "rev [0..<k]"]) auto
  next
    case False
    with inv have k: "k = ?N" by simp
    let ?rest = "rev [0..<n] @ rev [n + 1..<?N]"
    have up: "[n..<?N] = n # [n + 1..<?N]" using inv(4) by (simp add: upt_conv_Cons)
    have order: "cache_order uc = ?rest @ [n]" using up by (simp add: cache_order_def n_def [symmetric] k_def [symmetric] k)
    have "cache_order uc' = n # ?rest"
      if "uc_nextvictim uc' = (uc_nextvictim uc + 1) mod uc_size uc" "length (uc_nodes uc') = k" for uc' :: cl_cache
    proof (cases "n + 1 < ?N")
      case True
      then show ?thesis using that n1 k by (simp add: cache_order_def)
    next
      case False
      with inv(4) have "?N = Suc n" by simp
      then show ?thesis using that n1 k by (simp add: cache_order_def)
    qed
    with False order k inv(4) show thesis by (intro that [of ?rest]) auto
  qed
qed

lemma nth_put_node: "v \<le> length nodes \<Longrightarrow> u < length nodes \<or> u = v \<Longrightarrow> put_node v e nodes ! u = (if u = v then e else nodes ! u)"
  by (auto simp: put_node_def nth_list_update nth_append)

lemma length_put_node: "v \<le> length nodes \<Longrightarrow> length (put_node v e nodes) = (if v < length nodes then length nodes else length nodes + 1)"
  by (simp add: put_node_def)

text \<open>What \<open>cache_set\<close> does to the table, once it has a node \<open>v\<close> to fill.\<close>

definition cache_fill :: "nat \<Rightarrow> cache_node \<Rightarrow> nat list list \<Rightarrow> cl_cache \<Rightarrow> cl_cache" where
  "cache_fill v ent entries uc = uc\<lparr>uc_nodes := put_node v ent (uc_nodes uc),
     uc_entries := entries[cache_hash uc (cache_xid ent) := v # entries ! cache_hash uc (cache_xid ent)],
     uc_fifo := (uc_fifo uc)[unat (uc_nextvictim uc) := Some v],
     uc_nextvictim := (uc_nextvictim uc + 1) mod uc_size uc\<rparr>"

lemma cache_fill_size [simp]: "uc_size (cache_fill v ent entries uc) = uc_size uc"
  by (simp add: cache_fill_def)

lemma cache_fill_spec:
  assumes inv: "cache_inv uc" and "unat (uc_nextvictim uc) = n" and len: "length entries = length (uc_entries uc)"
    and rest: "cache_order uc = (if length (uc_nodes uc) < unat (uc_size uc) then rest else rest @ [n])" "n \<notin> set rest"
      "\<forall>uc'. uc_nextvictim uc' = (uc_nextvictim uc + 1) mod uc_size uc \<and>
        length (uc_nodes uc') = (if length (uc_nodes uc) < unat (uc_size uc) then length (uc_nodes uc) + 1 else length (uc_nodes uc)) \<longrightarrow>
        cache_order uc' = n # rest" "set rest \<subseteq> {..<length (uc_nodes uc)}"
    and chains: "\<forall>loc < length entries. entries ! loc = filter (\<lambda>v. cache_hash uc (cache_xid (uc_nodes uc ! v)) = loc) rest"
  shows "cache_inv (cache_fill n ent entries uc)" and "cache_log (cache_fill n ent entries uc) = ent # map ((!) (uc_nodes uc)) rest"
proof -
  let ?N = "unat (uc_size uc)" and ?k = "length (uc_nodes uc)" and ?uc = "cache_fill n ent entries uc"
  have i: "0 < ?N" "?N < 2 ^ 29" "length (uc_fifo uc) = ?N" "length (uc_entries uc) = 4 * ?N" "?k \<le> ?N" "n < ?N"
    "?k < ?N \<Longrightarrow> n = ?k" "\<And>i. i < ?N \<Longrightarrow> uc_fifo uc ! i = (if i < ?k then Some i else None)"
    using inv assms(2) by (simp_all add: cache_inv_def Let_def)
  have nk: "n \<le> ?k" "n < ?k \<longleftrightarrow> \<not> ?k < ?N" using i(5,6,7) by (cases "?k < ?N"; simp)+
  have hash [simp]: "cache_hash ?uc xid = cache_hash uc xid" for xid by (simp add: cache_fill_def cache_hash_def)
  have klen: "length (uc_nodes ?uc) = (if ?k < ?N then ?k + 1 else ?k)"
    using nk by (simp add: cache_fill_def length_put_node)
  have order: "cache_order ?uc = n # rest" using klen rest(3) by (simp add: cache_fill_def)
  have nth: "uc_nodes ?uc ! n = ent" "\<And>u. u \<in> set rest \<Longrightarrow> uc_nodes ?uc ! u = uc_nodes uc ! u"
    using nk(1) rest(2,4) by (auto simp: cache_fill_def nth_put_node)
  show "cache_log ?uc = ent # map ((!) (uc_nodes uc)) rest"
    using nth by (simp add: cache_log_def order)
  have next_less: "unat (uc_nextvictim ?uc) < ?N"
    using i(1) by (simp add: cache_fill_def unat_mod)
  have next_k: "unat (uc_nextvictim ?uc) = length (uc_nodes ?uc)" if "length (uc_nodes ?uc) < ?N"
  proof -
    have "?k + 1 < ?N" "n = ?k" using that klen i(5,7) by (auto split: if_splits)
    moreover have "unat (uc_nextvictim uc + 1) = n + 1"
      using i(2,6) assms(2) by (subst unat_add_lem [THEN iffD1]) simp_all
    ultimately show ?thesis using klen by (simp add: cache_fill_def unat_mod)
  qed
  have chain: "uc_entries ?uc ! loc = chain_of ?uc loc" if "loc < 4 * ?N" for loc
  proof -
    have f: "filter (\<lambda>v. cache_hash uc (cache_xid (uc_nodes ?uc ! v)) = loc) rest =
        filter (\<lambda>v. cache_hash uc (cache_xid (uc_nodes uc ! v)) = loc) rest"
      using nth(2) by (intro filter_cong) auto
    have "uc_entries ?uc ! loc = (if loc = cache_hash uc (cache_xid ent) then [n] else []) @ entries ! loc"
      using that len i(4) by (simp add: cache_fill_def nth_list_update)
    with f show ?thesis
      using that len i(4) chains nth(1) unfolding chain_of_def order hash by simp
  qed
  have fifo: "uc_fifo ?uc ! j = (if j < length (uc_nodes ?uc) then Some j else None)" if "j < ?N" for j
    using that i(3,5,6,7,8) nk klen assms(2) by (auto simp: cache_fill_def nth_list_update)
  have "uc_size ?uc = uc_size uc" "length (uc_entries ?uc) = 4 * ?N" "length (uc_fifo ?uc) = ?N"
    using len i by (simp_all add: cache_fill_def)
  moreover have "length (uc_nodes ?uc) \<le> ?N" using klen i(5) by auto
  ultimately show "cache_inv ?uc"
    unfolding cache_inv_def Let_def using i(1,2) next_less next_k chain fifo by auto
qed

text \<open>
  Storing a reply. The victim is the node filled first, when every slot is in use; it is always found
  in its chain, and its buffer takes the place of the one kept with the reply.
\<close>

lemma cache_victim_spec:
  assumes inv: "cache_inv uc"
    and rest: "cache_order uc = (if length (uc_nodes uc) < unat (uc_size uc) then rest else rest @ [n])" "n \<notin> set rest"
    and n: "n = unat (uc_nextvictim uc)"
  shows "if length (uc_nodes uc) < unat (uc_size uc)
    then cache_victim env su uc = Ret (if dv_node env su then map_option (\<lambda>blk. (n, blk, uc)) (dv_block env su) else None) \<and>
      (\<forall>loc < length (uc_entries uc). uc_entries uc ! loc = filter (\<lambda>v. cache_hash uc (cache_xid (uc_nodes uc ! v)) = loc) rest)
    else \<exists>entries. cache_victim env su uc = Ret (Some (n, cache_reply (uc_nodes uc ! n), uc\<lparr>uc_entries := entries\<rparr>)) \<and>
      length entries = length (uc_entries uc) \<and>
      (\<forall>loc < length (uc_entries uc). entries ! loc = filter (\<lambda>v. cache_hash uc (cache_xid (uc_nodes uc ! v)) = loc) rest)"
proof -
  let ?N = "unat (uc_size uc)" and ?k = "length (uc_nodes uc)" and ?h = "\<lambda>v. cache_hash uc (cache_xid (uc_nodes uc ! v))"
  have i: "length (uc_fifo uc) = ?N" "length (uc_entries uc) = 4 * ?N" "?k \<le> ?N" "n < ?N"
    "?k < ?N \<Longrightarrow> n = ?k" "\<And>i. i < ?N \<Longrightarrow> uc_fifo uc ! i = (if i < ?k then Some i else None)"
    "\<And>loc. loc < 4 * ?N \<Longrightarrow> uc_entries uc ! loc = chain_of uc loc"
    using inv n by (simp_all add: cache_inv_def Let_def)
  show ?thesis
  proof (cases "?k < ?N")
    case True
    then have nk: "n = ?k" using i(5) by simp
    have "uc_fifo uc ! n = None" using i(4,6) nk by simp
    then have "cache_victim env su uc = Ret (if dv_node env su then map_option (\<lambda>blk. (n, blk, uc)) (dv_block env su) else None)"
      using i(1,4) n nk by (auto simp: cache_victim_def split: option.split)
    moreover have "chain_of uc loc = filter (\<lambda>v. ?h v = loc) rest" for loc using True rest(1) by (simp add: chain_of_def)
    ultimately show ?thesis using True i(2,7) by auto
  next
    case False
    then have k: "?k = ?N" using i(3) by simp
    let ?loc = "?h n"
    let ?e = "(uc_entries uc)[?loc := remove1 n (uc_entries uc ! ?loc)]"
    have order: "cache_order uc = rest @ [n]" using False rest(1) by simp
    have loc: "?loc < length (uc_entries uc)" by (rule cache_loc_hash(2) [OF inv])
    have chain: "uc_entries uc ! l = filter (\<lambda>v. ?h v = l) rest @ (if ?h n = l then [n] else [])" if "l < 4 * ?N" for l
      using i(7) [OF that] by (simp add: chain_of_def order)
    have "uc_fifo uc ! n = Some n" using i(4,6) k by simp
    moreover have "n \<in> set (uc_entries uc ! ?loc)" using chain [of ?loc] loc i(2) by simp
    ultimately have "cache_victim env su uc = Ret (Some (n, cache_reply (uc_nodes uc ! n), uc\<lparr>uc_entries := ?e\<rparr>))"
      using i(1,4) n k cache_loc_hash(1) [OF inv] by (simp add: cache_victim_def)
    moreover have "?e ! l = filter (\<lambda>v. ?h v = l) rest" if "l < length (uc_entries uc)" for l
    proof (cases "l = ?loc")
      case True
      then show ?thesis using chain [of l] that i(2) rest(2) by (simp add: remove1_append)
    next
      case False
      then show ?thesis using chain [of l] that i(2) by simp
    qed
    ultimately show ?thesis using False by auto
  qed
qed

definition reply_node :: "nat \<Rightarrow> byte list \<Rightarrow> svc_dg_data \<Rightarrow> cl_cache \<Rightarrow> cache_node" where
  "reply_node replylen addr su uc = \<lparr>cache_xid = su_xid su, cache_proc = uc_proc uc, cache_vers = uc_vers uc,
     cache_prog = uc_prog uc, cache_addr = addr,
     cache_reply = (xm_base (x_private (su_xdrs su)), rpc_buffer su), cache_replylen = replylen\<rparr>"

definition cache_room :: "dg_env \<Rightarrow> svc_dg_data \<Rightarrow> cl_cache \<Rightarrow> bool" where
  "cache_room env su uc \<longleftrightarrow> \<not> length (uc_nodes uc) < unat (uc_size uc) \<or> dv_node env su \<and> dv_block env su \<noteq> None"

lemma cache_set_log:
  assumes "su_cache su = Some uc" and inv: "cache_inv uc" and "\<And>t. dv_addr env t"
  obtains su' uc' where "cache_set env replylen addr su = Ret su'" and "su_cache su' = Some uc'" and "cache_inv uc'"
    and "cache_log uc' = (if cache_room env su uc then take (unat (uc_size uc)) (reply_node replylen addr su uc # cache_log uc) else cache_log uc)"
    and "uc_size uc' = uc_size uc" and "su_iosz su' = su_iosz su" and "su_xid su' = su_xid su" and "dg_sent su' = dg_sent su"
    and "su_xdrs su' = (if cache_room env su uc
      then let blk = (if length (uc_nodes uc) < unat (uc_size uc) then the (dv_block env su) else cache_reply (last (cache_log uc)))
        in xdrmem_create (fst blk) (snd blk) (su_iosz su) XDR_ENCODE (x_mem (su_xdrs su)) else su_xdrs su)"
proof -
  let ?N = "unat (uc_size uc)" and ?k = "length (uc_nodes uc)" and ?n = "unat (uc_nextvictim uc)"
  let ?ent = "reply_node replylen addr su uc"
  let ?new = "\<lambda>blk. xdrmem_create (fst blk) (snd blk) (su_iosz su) XDR_ENCODE (x_mem (su_xdrs su))"
  obtain rest where r: "cache_order uc = (if ?k < ?N then rest else rest @ [?n])" "?n \<notin> set rest"
    "\<forall>uc'. uc_nextvictim uc' = (uc_nextvictim uc + 1) mod uc_size uc \<and>
       length (uc_nodes uc') = (if ?k < ?N then ?k + 1 else ?k) \<longrightarrow> cache_order uc' = ?n # rest"
    "length rest = (if ?k < ?N then ?k else ?N - 1)" "set rest \<subseteq> {..<?k}"
    by (rule next_order [OF inv])
  have N: "0 < ?N" using inv by (simp add: cache_inv_def Let_def)
  note v = cache_victim_spec [OF inv r(1,2) refl, of env su]
  have fill: "cache_inv (cache_fill ?n ?ent entries uc)"
      "cache_log (cache_fill ?n ?ent entries uc) = ?ent # map ((!) (uc_nodes uc)) rest"
    if "length entries = length (uc_entries uc)"
      "\<forall>loc < length (uc_entries uc). entries ! loc = filter (\<lambda>v. cache_hash uc (cache_xid (uc_nodes uc ! v)) = loc) rest" for entries
    using cache_fill_spec [OF inv refl that(1) r(1,2,3,5), of ?ent] that(2) by (simp_all add: that(1))
  have run: "cache_set env replylen addr su = Ret (su\<lparr>su_xdrs := ?new blk, su_cache := Some (cache_fill ?n ?ent entries uc)\<rparr>)"
    if "cache_victim env su uc = Ret (Some (?n, blk, uc\<lparr>uc_entries := entries\<rparr>))" "length entries = length (uc_entries uc)" for blk entries
  proof -
    let ?uc = "uc\<lparr>uc_entries := entries\<rparr>"
    have "cache_loc ?uc xid = cache_loc uc xid" for xid using that(2) by (simp add: cache_loc_def)
    then have "cache_loc ?uc (cache_xid ?ent) = Ret (cache_hash uc (cache_xid ?ent))" using cache_loc_hash(1) [OF inv] by simp
    then show ?thesis
      using that(1) assms(1,3) by (simp add: cache_set_def Let_def cache_fill_def reply_node_def)
  qed
  show thesis
  proof (cases "?k < ?N")
    case True
    with v have vic: "cache_victim env su uc = Ret (if dv_node env su then map_option (\<lambda>blk. (?n, blk, uc)) (dv_block env su) else None)"
      and ch: "\<forall>loc < length (uc_entries uc). uc_entries uc ! loc = filter (\<lambda>v. cache_hash uc (cache_xid (uc_nodes uc ! v)) = loc) rest"
      by simp_all
    have log: "map ((!) (uc_nodes uc)) rest = cache_log uc" using True r(1) by (simp add: cache_log_def)
    then have "length (cache_log uc) = ?k" using True r(4) by (metis length_map)
    then have tk: "take ?N (?ent # cache_log uc) = ?ent # cache_log uc" using True by simp
    show thesis
    proof (cases "cache_room env su uc")
      case room: True
      then obtain blk where blk: "dv_node env su" "dv_block env su = Some blk" using True by (auto simp: cache_room_def)
      let ?su = "su\<lparr>su_xdrs := ?new blk, su_cache := Some (cache_fill ?n ?ent (uc_entries uc) uc)\<rparr>"
      have "cache_set env replylen addr su = Ret ?su" using run [of blk "uc_entries uc"] vic blk by simp
      then show thesis
        by (rule that [where uc' = "cache_fill ?n ?ent (uc_entries uc) uc"])
          (use fill [OF refl ch] log tk room True blk in \<open>simp_all add: Let_def\<close>)
    next
      case False
      then have "cache_victim env su uc = Ret None" using vic True by (cases "dv_block env su") (auto simp: cache_room_def)
      then have "cache_set env replylen addr su = Ret su" using assms(1) by (simp add: cache_set_def)
      then show thesis by (rule that) (use assms(1) inv False in simp_all)
    qed
  next
    case False
    with v obtain entries where e: "cache_victim env su uc = Ret (Some (?n, cache_reply (uc_nodes uc ! ?n), uc\<lparr>uc_entries := entries\<rparr>))"
      "length entries = length (uc_entries uc)"
      "\<forall>loc < length (uc_entries uc). entries ! loc = filter (\<lambda>v. cache_hash uc (cache_xid (uc_nodes uc ! v)) = loc) rest"
      by auto
    have log: "cache_log uc = map ((!) (uc_nodes uc)) rest @ [uc_nodes uc ! ?n]" using False r(1) by (simp add: cache_log_def)
    then have tk: "take ?N (?ent # cache_log uc) = ?ent # map ((!) (uc_nodes uc)) rest"
      using False r(4) N by (cases ?N) simp_all
    have room: "cache_room env su uc" using False by (simp add: cache_room_def)
    show thesis
      by (rule that [OF run [OF e(1,2)], where uc' = "cache_fill ?n ?ent entries uc"])
        (use fill [OF e(2,3)] log tk room False in \<open>simp_all add: Let_def\<close>)
  qed
qed

text \<open>A cache that has been enabled.\<close>

definition cache_start :: "u32 \<Rightarrow> cl_cache" where
  "cache_start size' = \<lparr>uc_size = size', uc_entries = replicate (unat (size' * 4)) [],
     uc_fifo = replicate (unat size') None, uc_nextvictim = 0, uc_prog = 0, uc_vers = 0, uc_proc = 0, uc_nodes = []\<rparr>"

lemma cache_start_inv:
  assumes "0 < size'" and "size' < 2 ^ 29"
  shows "cache_inv (cache_start size')" and "cache_log (cache_start size') = []"
proof -
  have sz: "unat size' < 2 ^ 29" "0 < unat size'"
    using assms by (simp_all add: word_less_nat_alt)
  then have "unat (size' * 4) = 4 * unat size'" using four_size [of size'] by (simp add: mult.commute)
  then show "cache_inv (cache_start size')" "cache_log (cache_start size') = []"
    using sz by (simp_all add: cache_inv_def cache_start_def chain_of_def cache_order_def cache_log_def Let_def)
qed

text \<open>Of size 0 it faults at the first call received.\<close>

lemma cache_start_0: "cache_get xid addr msg (cache_start 0) = Fault"
  by (simp add: cache_get_def cache_loc_def cache_start_def)

section \<open>The contract of the transport\<close>

definition dg_ok :: "svc_dg_data \<Rightarrow> bool" where
  "dg_ok su = (case su_cache su of None \<Rightarrow> True | Some uc \<Rightarrow> cache_inv uc)"

definition dg_env_ok :: "dg_env \<Rightarrow> bool" where
  "dg_env_ok env \<longleftrightarrow> (\<forall>t. dv_addr env t)"

lemma dg_ok_upd [simp]:
  "dg_ok (su\<lparr>su_xdrs := x\<rparr>) = dg_ok su" "dg_ok (su\<lparr>su_xid := i\<rparr>) = dg_ok su"
  "dg_ok (set_rpc_buffer b su) = dg_ok su" "dg_ok (sent bs addr su) = dg_ok su"
  by (simp_all add: dg_ok_def set_rpc_buffer_def sent_def)

lemma dg_peer_ok:
  assumes "dg_env_ok env"
  obtains x' where "dg_peer env addr x = Ret x'" and "xp_p1 x' = xp_p1 x" and "xp_fd x' = xp_fd x"
  using assms by (simp add: dg_peer_def dg_env_ok_def Let_def)

lemma dg_received_ok:
  assumes "dg_env_ok env" and "dg_ok (xp_p1 x)"
  obtains ok m x' where "dg_received env bs addr x msg = Ret (ok, m, x')" and "dg_ok (xp_p1 x')" and "xp_fd x' = xp_fd x"
proof -
  define bs' where "bs' = take (unat (su_iosz (xp_p1 x))) bs"
  define su where "su = set_rpc_buffer (store 0 bs' (rpc_buffer (xp_p1 x))) (xp_p1 x)"
  have su: "dg_ok su" using assms(2) by (simp add: su_def)
  note recv = dg_received_def [of env bs addr x msg, unfolded Let_def, folded bs'_def su_def]
  obtain x1 where x1: "dg_peer env addr (x\<lparr>xp_p1 := su\<rparr>) = Ret x1" "xp_p1 x1 = su" "xp_fd x1 = xp_fd x"
    using dg_peer_ok [OF assms(1), of addr "x\<lparr>xp_p1 := su\<rparr>"] by auto
  obtain b xdrs where xdrs: "XDR_SETPOS ((su_xdrs su)\<lparr>x_op := XDR_DECODE\<rparr>) 0 = (b, xdrs)" by (metis surj_pair)
  obtain ok m xd where m: "xdr_callmsg msg xdrs = (ok, m, xd)" by (metis prod_cases3)
  show thesis
  proof (cases "length bs' < 16")
    case True
    with recv su show thesis by (intro that [of False msg "x\<lparr>xp_p1 := su\<rparr>"]) simp_all
  next
    case long: False
    show thesis
    proof (cases ok)
      case False
      with long recv x1 xdrs m su show thesis
        by (intro that [of False m "x1\<lparr>xp_p1 := su\<lparr>su_xdrs := xd\<rparr>\<rparr>"]) simp_all
    next
      case ok: True
      show thesis
      proof (cases "su_cache su")
        case None
        with long ok recv x1 xdrs m su show thesis
          by (intro that [of True m "x1\<lparr>xp_p1 := su\<lparr>su_xdrs := xd, su_xid := rm_xid m\<rparr>\<rparr>"]) simp_all
      next
        case (Some uc)
        then have inv: "cache_inv uc" using su by (simp add: dg_ok_def)
        obtain r uc' where get: "cache_get (rm_xid m) (nb_bytes (xp_rtaddr x1)) m uc = Ret (r, uc')" "cache_inv uc'"
          by (rule cache_get_inv [OF inv])
        let ?su = "su\<lparr>su_xdrs := xd, su_xid := rm_xid m, su_cache := Some uc'\<rparr>"
        have "dg_ok ?su" using get(2) by (simp add: dg_ok_def)
        with long ok recv x1 xdrs m get(1) Some show thesis
          by (intro that [of "r = None" m "x1\<lparr>xp_p1 := (case r of Some r \<Rightarrow> sent r addr ?su | None \<Rightarrow> ?su)\<rparr>"])
            (simp_all split: option.split)
      qed
    qed
  qed
qed

lemma svc_dg_reply_ok:
  assumes "dg_env_ok env" and "dg_ok (xp_p1 x)"
  obtains ok t where "svc_dg_reply env x msg = Ret (ok, t)" and "dg_ok t"
proof -
  let ?su = "xp_p1 x" and ?addr = "nb_bytes (xp_rtaddr x)"
  obtain b xdrs where xdrs: "XDR_SETPOS ((su_xdrs ?su)\<lparr>x_op := XDR_ENCODE\<rparr>) 0 = (b, xdrs)" by (metis surj_pair)
  obtain ok m xd where m: "xdr_replymsg (msg\<lparr>rm_xid := su_xid ?su\<rparr>) xdrs = (ok, m, xd)" by (metis prod_cases3)
  let ?slen = "unat (XDR_GETPOS xd)" and ?su1 = "?su\<lparr>su_xdrs := xd\<rparr>"
  let ?bs = "take ?slen (rpc_buffer ?su1)"
  note reply = svc_dg_reply_def [of env x msg, unfolded Let_def xdrs prod.case m]
  show thesis
  proof (cases "ok \<and> dv_sendto env ?su1 ?bs ?addr = int ?slen")
    case False
    with reply assms(2) show thesis
      by (intro that [of False "if ok then sent ?bs ?addr ?su1 else ?su1"]) auto
  next
    case sent: True
    show thesis
    proof (cases "su_cache ?su")
      case None
      with sent reply assms(2) show thesis
        by (intro that [of True "sent ?bs ?addr ?su1"]) (simp_all add: sent_def dg_ok_def)
    next
      case (Some uc)
      then have "su_cache (Svc_Dg.sent ?bs ?addr ?su1) = Some uc" "cache_inv uc"
        using assms(2) by (simp_all add: sent_def dg_ok_def)
      then obtain su' uc' where su': "cache_set env ?slen ?addr (Svc_Dg.sent ?bs ?addr ?su1) = Ret su'"
        "su_cache su' = Some uc'" "cache_inv uc'"
        using assms(1) unfolding dg_env_ok_def by (metis cache_set_log)
      with sent Some reply show thesis
        by (intro that [of True su']) (simp_all add: dg_ok_def sent_def)
    qed
  qed
qed

lemma svc_dg_recv_ok:
  assumes "dg_env_ok env" and "valid_all dg_ok s" and "svc_mem s p = Some x"
  shows "(case svc_dg_recv fuel env p msg s of
     Ret (ok, m, s') \<Rightarrow> s' = s \<and> \<not> ok \<or>
       (\<exists>x'. s' = s\<lparr>svc_mem := (svc_mem s)(p \<mapsto> x')\<rparr> \<and> dg_ok (xp_p1 x') \<and> xp_fd x' = xp_fd x)
   | Fault \<Rightarrow> False | Out_of_fuel \<Rightarrow> True)"
proof -
  have ok: "dg_ok (xp_p1 x)" using assms(2,3) by (auto simp: valid_all_def)
  show ?thesis
  proof (cases "dg_recvfrom fuel 0 (\<lambda>k. dv_recv env k s)")
    case (Ret ev)
    show ?thesis
    proof (cases ev)
      case (Datagram bs addr)
      obtain r m x' where "dg_received env bs addr x msg = Ret (r, m, x')" "dg_ok (xp_p1 x')" "xp_fd x' = xp_fd x"
        by (rule dg_received_ok [OF assms(1) ok])
      with Ret Datagram assms(3) show ?thesis by (auto simp: svc_dg_recv_def)
    qed (use Ret assms(3) in \<open>simp_all add: svc_dg_recv_def\<close>)
  next
    case Fault
    moreover have "dg_recvfrom fuel k ev \<noteq> Fault" for k ev by (induction fuel k ev rule: dg_recvfrom.induct) simp_all
    ultimately show ?thesis by blast
  qed (use assms(3) in \<open>simp add: svc_dg_recv_def\<close>)
qed

lemma svc_dg_destroy_keeps:
  assumes "svc_ok s" and "svc_mem s p = Some x"
  obtains s' where "svc_dg_destroy p s = Ret s'" and "keeps {} s s'" and "svc_mem s' = (svc_mem s)(p := None)"
proof -
  have inv: "svc_inv s" using assms(1) by (simp add: svc_ok_def)
  obtain s1 where s1: "xprt_unregister p s = Ret s1" "Some p \<notin> set (tab_of s1)" "svc_mem s1 = svc_mem s"
    using xprt_unregister_spec [OF inv assms(2) svc_ok_mem [OF assms]] by metis
  have "svc_step {} s s1" using assms(2) s1(1) by (rule svc_step.unregister)
  then have k: "keeps {} s s1" by (rule svc_step_keeps) (rule assms(1))
  let ?s2 = "s1\<lparr>svc_heap := svc_heap s1 + dg_frees x, svc_mem := (svc_mem s1)(p := None)\<rparr>"
  let ?c = "(if xp_fd x = - 1 then [] else [xp_fd x]) @ svc_closed s1"
  have k2: "keeps {} s1 ?s2" by (rule free_keeps [OF keepsD [OF k] s1(2)]) simp
  have "keeps {} ?s2 (?s2\<lparr>svc_closed := ?c\<rparr>)" by (rule closed_keeps [OF keepsD [OF k2]])
  then show thesis
    using s1 assms(2) keeps_trans [OF keeps_trans [OF k k2]]
    by (intro that [of "?s2\<lparr>svc_closed := ?c\<rparr>"]) (simp_all add: svc_dg_destroy_def)
qed

lemma xprt_register_mem: "xprt_register p s = Ret (ok, s') \<Longrightarrow> svc_mem s' = svc_mem s"
  by (auto simp: xprt_register_def xprt_alloc_def svc_fdset_getsize_def tab_put_def of_option_def Let_def
      split: option.splits if_splits prod.splits)

lemma xprt_unregister_mem: "xprt_unregister p s = Ret s' \<Longrightarrow> svc_mem s' = svc_mem s"
  by (auto simp: xprt_unregister_def xprt_do_unregister_def tab_get_def tab_put_def of_option_def Let_def
      split: option.splits if_splits prod.splits)

lemma svc_dg_recv_valid:
  assumes "dg_env_ok env" and "valid_all dg_ok s"
  shows "run_valid dg_ok (\<lambda>(ok, msg, s). s) (svc_dg_recv fuel env p msg s)"
    and "svc_dg_recv fuel env p msg s = Ret (True, msg', s') \<Longrightarrow> \<exists>x. svc_mem s' p = Some x \<and> dg_ok (xp_p1 x)"
proof -
  show "run_valid dg_ok (\<lambda>(ok, msg, s). s) (svc_dg_recv fuel env p msg s)"
  proof (cases "svc_mem s p")
    case (Some x)
    show ?thesis
      using svc_dg_recv_ok [OF assms Some, of fuel msg] assms(2)
      by (cases "svc_dg_recv fuel env p msg s") (auto intro: valid_all_upd)
  qed (simp add: svc_dg_recv_def)
  show "\<exists>x. svc_mem s' p = Some x \<and> dg_ok (xp_p1 x)" if "svc_dg_recv fuel env p msg s = Ret (True, msg', s')"
  proof (cases "svc_mem s p")
    case (Some x)
    show ?thesis using svc_dg_recv_ok [OF assms Some, of fuel msg] that by auto
  qed (use that in \<open>simp add: svc_dg_recv_def\<close>)
qed

lemma svc_dg_recv_keeps:
  assumes "dg_env_ok env" and "valid_all dg_ok s" and "svc_ok s" and "svc_mem s p \<noteq> None"
  shows "run_keeps {p} s (\<lambda>(ok, msg, s). s) (svc_dg_recv fuel env p msg s)"
proof -
  obtain x where x: "svc_mem s p = Some x" using assms(4) by auto
  show ?thesis
    using svc_dg_recv_ok [OF assms(1,2) x, of fuel msg] keeps_refl [OF assms(3)]
      io_keeps [OF assms(3) x, of _ _ "svc_closed s" "svc_heap s"]
    by (cases "svc_dg_recv fuel env p msg s") auto
qed

lemma svc_dg_destroy_valid:
  assumes "valid_all dg_ok s"
  shows "run_valid dg_ok id (svc_dg_destroy p s)"
proof (cases "svc_dg_destroy p s")
  case (Ret s')
  then obtain s1 x where s1: "xprt_unregister p s = Ret s1" "svc_mem s' = (svc_mem s1)(p := None)"
    by (cases "xprt_unregister p s") (auto simp: svc_dg_destroy_def split: option.splits)
  then have "valid_all dg_ok s'" using assms by (simp add: valid_all_def xprt_unregister_mem [OF s1(1)])
  with Ret show ?thesis by simp
qed simp_all

interpretation dg: transport "svc_dg_ops fuel env" dg_ok dg_ok "dg_env_ok env" for fuel env
proof (unfold_locales, goal_cases)
  case (1 s p msg)
  then show ?case by (simp add: svc_dg_ops_def svc_dg_recv_keeps)
next
  case (2 s p msg)
  then show ?case by (simp add: svc_dg_ops_def svc_dg_recv_valid)
next
  case (3 s p msg msg' s')
  then show ?case using svc_dg_recv_valid(2) by (simp add: svc_dg_ops_def)
next
  case (4 x m)
  then obtain ok t where "svc_dg_reply env x m = Ret (ok, t)" "dg_ok t" by (rule svc_dg_reply_ok)
  then show ?case by (simp add: svc_dg_ops_def)
next
  case (5 t)
  then show ?case by (simp add: svc_dg_ops_def svc_dg_stat_def)
next
  case (6 s p)
  then obtain x where "svc_mem s p = Some x" by auto
  then obtain s' where "svc_dg_destroy p s = Ret s'" "keeps {} s s'" by (rule svc_dg_destroy_keeps [OF 6(1)])
  then show ?case by (simp add: svc_dg_ops_def)
next
  case (7 s p)
  then show ?case by (simp add: svc_dg_ops_def svc_dg_destroy_valid)
qed

section \<open>The buffer\<close>

text \<open>
  Reading leaves the buffer where it is. \<open>placed\<close>: a block as large as the transport's buffer that does
  not cross the middle of the addresses a 32-bit \<open>long\<close> holds, so that \<open>XDR_SETPOS\<close> can rewind in it.
\<close>

definition xm_from :: "u64 \<Rightarrow> byte list \<Rightarrow> xdr_mem \<Rightarrow> byte list \<Rightarrow> bool" where
  "xm_from b buf s bs \<longleftrightarrow> xm_ready s bs \<and> xm_base s = b \<and> xm_buf s = buf \<and> xm_off s + unat (xm_handy s) = length buf"

lemma xm_from_skip:
  assumes "xm_from b buf s (xs @ bs)"
  shows "xm_from b buf (xm_skip (length xs) s) bs"
proof -
  have r: "xm_ready s (xs @ bs)" using assms by (simp add: xm_from_def)
  then have "xm_ok s" "length xs \<le> unat (xm_handy s)" by (simp_all add: xm_ready_def)
  then have "xm_off (xm_skip (length xs) s) + unat (xm_handy (xm_skip (length xs) s)) = xm_off s + unat (xm_handy s)"
    by (simp add: xm_off_skip xm_handy_skip)
  with assms xm_ready_skip(2) [OF r] show ?thesis
    by (simp add: xm_from_def) (simp add: xm_skip_def)
qed

interpretation buf_aligned: xdr_source xdrmem_ops_aligned "xm_from b buf" for b buf
proof (unfold_locales, goal_cases)
  case (1 s w bs)
  then have r: "xm_ready s (be32 w @ bs)" by (simp add: xm_from_def)
  show ?case
    using xm_ready_skip [OF r] xm_ready_room [OF r] xm_from_skip [OF 1]
    by (simp add: xdrmem_ops_aligned_def xdrmem_getlong_room)
next
  case (2 s xs bs)
  then have r: "xm_ready s (xs @ bs)" by (simp add: xm_from_def)
  show ?case
    using xm_ready_skip [OF r] xm_ready_room [OF r] xm_from_skip [OF 2(1)]
    by (simp add: xdrmem_ops_aligned_def xdrmem_getbytes_room)
next
  case (3 s xs bs s')
  then have "xm_ready s (xs @ bs)" by (simp add: xm_from_def)
  with 3 show ?case by (simp add: xdrmem_ops_aligned_def xdrmem_inline_room xm_ready_room)
next
  case (4 s xs bs p s')
  then have r: "xm_ready s (xs @ bs)" by (simp add: xm_from_def)
  from 4 show ?case
    using xm_ready_skip [OF r] xm_ready_room [OF r] xm_from_skip [OF 4(1)]
    by (auto simp: xdrmem_ops_aligned_def xdrmem_inline_room)
qed

interpretation buf_unaligned: xdr_source xdrmem_ops_unaligned "xm_from b buf" for b buf
proof (unfold_locales, goal_cases)
  case (1 s w bs)
  then have r: "xm_ready s (be32 w @ bs)" by (simp add: xm_from_def)
  show ?case
    using xm_ready_skip [OF r] xm_ready_room [OF r] xm_from_skip [OF 1]
    by (simp add: xdrmem_ops_unaligned_def xdrmem_getlong_room)
next
  case (2 s xs bs)
  then have r: "xm_ready s (xs @ bs)" by (simp add: xm_from_def)
  show ?case
    using xm_ready_skip [OF r] xm_ready_room [OF r] xm_from_skip [OF 2(1)]
    by (simp add: xdrmem_ops_unaligned_def xdrmem_getbytes_room)
qed (simp_all add: xdrmem_ops_unaligned_def xdrmem_inline_unaligned_def)

definition placed :: "u32 \<Rightarrow> u64 \<times> byte list \<Rightarrow> bool" where
  "placed n blk \<longleftrightarrow> length (snd blk) = unat n \<and> unat n < 2 ^ 31 \<and> sint (ucast (fst blk) :: u32) + int (unat n) < 2 ^ 31"

definition dg_buffer_ok :: "svc_dg_data \<Rightarrow> bool" where
  "dg_buffer_ok su \<longleftrightarrow> (let m = x_private (su_xdrs su) in
     placed (su_iosz su) (xm_base m, xm_buf m) \<and>
     x_ops (su_xdrs su) = x_ops (xdrmem_create (xm_base m) [] 0 XDR_DECODE 0) \<and>
     xm_ok m \<and> xm_off m + unat (xm_handy m) = unat (su_iosz su))"

lemma placed_create:
  assumes "placed (su_iosz su) blk"
  shows "dg_buffer_ok (su\<lparr>su_xdrs := xdrmem_create (fst blk) (snd blk) (su_iosz su) op h\<rparr>)"
  using assms xm_start [of "su_iosz su" "snd blk" "fst blk"]
  by (simp add: dg_buffer_ok_def placed_def xdrmem_create_def Let_def)

lemma setpos_rewinds:
  assumes "dg_buffer_ok su"
  shows "XDR_SETPOS ((su_xdrs su)\<lparr>x_op := op\<rparr>) 0 = (True, xdrmem_create (xm_base (x_private (su_xdrs su)))
    (rpc_buffer su) (su_iosz su) op (x_mem (su_xdrs su)))"
proof -
  let ?m = "x_private (su_xdrs su)"
  have m: "xm_ok ?m" "xm_off ?m + unat (xm_handy ?m) = unat (su_iosz su)" "sint (ucast (xm_base ?m) :: u32) + int (unat (su_iosz su)) < 2 ^ 31"
    "x_ops (su_xdrs su) = x_ops (xdrmem_create (xm_base ?m) [] 0 XDR_DECODE 0)"
    using assms by (simp_all add: dg_buffer_ok_def placed_def Let_def)
  have "0 \<le> int (unat (su_iosz su))" by (rule of_nat_0_le_iff)
  with m(3) have "sint (ucast (xm_base ?m) :: u32) < 2 ^ 31" by linarith
  then have "sint (ucast (xm_base ?m) :: u32) + int (unat (0 :: u32)) < 2 ^ 31" by simp
  from xdrmem_setpos_accepts [OF m(1) _ this] m(2,3)
  have "xdrmem_setpos 0 ?m = (True, ?m\<lparr>xm_priv := xm_base ?m, xm_handy := su_iosz su\<rparr>)" by simp
  moreover have "x_setpostn (x_ops (su_xdrs su)) op' = xdrmem_setpos" for op'
    using m(4) by (simp add: xdrmem_create_def xdrmem_ops_aligned_def xdrmem_ops_unaligned_def)
  ultimately show ?thesis
    using m(4) by (simp add: XDR_SETPOS_def xdrmem_create_def rpc_buffer_def)
qed

lemma set_rpc_buffer_ok:
  assumes "dg_buffer_ok su" and "length b = unat (su_iosz su)"
  shows "dg_buffer_ok (set_rpc_buffer b su)"
  using assms by (simp add: dg_buffer_ok_def set_rpc_buffer_def placed_def xm_ok_def xm_off_def Let_def)

text \<open>A call at the beginning of the buffer.\<close>

lemma callmsg_from_buffer:
  assumes "placed n (b, buf)" and "callmsg_ok c" and "call_image c img" and "length img \<le> unat n"
    and "take (length img) buf = img"
  obtains x where "xdr_callmsg z (xdrmem_create b buf n XDR_DECODE (h + callmsg_blocks z c)) = (True, callmsg_into z c, x)"
    and "x_mem x = h" and "x_ops x = x_ops (xdrmem_create b [] 0 XDR_DECODE 0)" and "xm_base (x_private x) = b"
    and "xm_buf (x_private x) = buf" and "xm_ok (x_private x)" and "xm_off (x_private x) + unat (xm_handy (x_private x)) = unat n"
proof -
  let ?s = "\<lparr>xm_base = b, xm_priv = b, xm_handy = n, xm_buf = buf\<rparr>"
  have buf: "length buf = unat n" "unat n < 2 ^ 31" using assms(1) by (simp_all add: placed_def)
  have start: "xm_ok ?s" "xm_off ?s = 0" using buf xm_start [of n buf b] by simp_all
  have ready: "xm_from b buf ?s (img @ [])"
    using assms(4,5) start buf by (simp add: xm_from_def xm_ready_def load_def)
  note dec = xdr_source.decodes_callmsg [OF _ assms(2,3)]
  show thesis
  proof (cases "(ucast b :: u32) AND 3 \<noteq> 0")
    case True
    obtain s' where "xdr_callmsg z (mkXDR XDR_DECODE xdrmem_ops_unaligned ?s (h + callmsg_blocks z c)) =
        (True, callmsg_into z c, mkXDR XDR_DECODE xdrmem_ops_unaligned s' h)" "xm_from b buf s' []"
      by (rule buf_unaligned.decodesE [OF buf_unaligned.decodes_callmsg [OF assms(2,3)] ready])
    with True buf show thesis
      by (intro that [of "mkXDR XDR_DECODE xdrmem_ops_unaligned s' h"]) (simp_all add: xdrmem_create_def xm_from_def xm_ready_def)
  next
    case False
    obtain s' where "xdr_callmsg z (mkXDR XDR_DECODE xdrmem_ops_aligned ?s (h + callmsg_blocks z c)) =
        (True, callmsg_into z c, mkXDR XDR_DECODE xdrmem_ops_aligned s' h)" "xm_from b buf s' []"
      by (rule buf_aligned.decodesE [OF buf_aligned.decodes_callmsg [OF assms(2,3)] ready])
    with False buf show thesis
      by (intro that [of "mkXDR XDR_DECODE xdrmem_ops_aligned s' h"]) (simp_all add: xdrmem_create_def xm_from_def xm_ready_def)
  qed
qed

lemma cache_match_into [simp]: "cache_match xid addr (callmsg_into z c) = cache_match xid addr c"
  by (simp add: fun_eq_iff cache_match_def callmsg_into_def)

lemma callmsg_size_ge: "call_image c img \<Longrightarrow> 40 \<le> length img"
  by (simp add: length_call_image callmsg_size_def)

text \<open>
  A call arriving: it is answered from the cache when the cache has a reply to it, and accepted
  otherwise.
\<close>

lemma dg_received_call:
  assumes "dg_env_ok env" and "dg_buffer_ok (xp_p1 x)" and "su_cache (xp_p1 x) = Some uc" and "cache_inv uc"
    and "callmsg_ok c" and "call_image c img" and "length img \<le> unat (su_iosz (xp_p1 x))"
    and "x_mem (su_xdrs (xp_p1 x)) = h + callmsg_blocks z c"
    and "length (nb_bytes (xp_rtaddr x)) \<le> length addr" and "addr \<noteq> []"
  obtains su where "dg_received env img addr x z =
      Ret (List.find (cache_match (rm_xid c) addr c) (cache_log uc) = None, callmsg_into z c, x\<lparr>xp_rtaddr := Some addr, xp_p1 := su\<rparr>)"
    and "dg_buffer_ok su" and "su_xid su = rm_xid c" and "x_mem (su_xdrs su) = h" and "su_iosz su = su_iosz (xp_p1 x)"
    and "dg_sent su = (case List.find (cache_match (rm_xid c) addr c) (cache_log uc) of None \<Rightarrow> dg_sent (xp_p1 x)
      | Some ent \<Rightarrow> (take (cache_replylen ent) (snd (cache_reply ent)), addr) # dg_sent (xp_p1 x))"
    and "su_cache su = Some (if List.find (cache_match (rm_xid c) addr c) (cache_log uc) = None
      then uc\<lparr>uc_proc := cb_proc (rm_call c), uc_vers := cb_vers (rm_call c), uc_prog := cb_prog (rm_call c)\<rparr> else uc)"
proof -
  let ?old = "xp_p1 x" and ?f = "List.find (cache_match (rm_xid c) addr c) (cache_log uc)"
  let ?b = "xm_base (x_private (su_xdrs ?old))"
  have len: "length (rpc_buffer ?old) = unat (su_iosz ?old)"
    using assms(2) by (simp add: dg_buffer_ok_def placed_def rpc_buffer_def Let_def)
  define buf where "buf = store 0 img (rpc_buffer ?old)"
  have buf: "length buf = unat (su_iosz ?old)" "take (length img) buf = img"
    using len assms(7) by (simp_all add: buf_def block_simps) (simp add: store_def)
  define su where "su = set_rpc_buffer buf ?old"
  have su: "dg_buffer_ok su" "xm_base (x_private (su_xdrs su)) = ?b" "rpc_buffer su = buf" "su_iosz su = su_iosz ?old"
    "x_mem (su_xdrs su) = h + callmsg_blocks z c" "su_cache su = Some uc" "dg_sent su = dg_sent ?old"
    using set_rpc_buffer_ok [OF assms(2) buf(1)] assms(3,8)
    by (simp_all add: su_def) (simp_all add: set_rpc_buffer_def rpc_buffer_def)
  have peer: "dg_peer env addr (x\<lparr>xp_p1 := su\<rparr>) = Ret (x\<lparr>xp_p1 := su, xp_rtaddr := Some addr\<rparr>)"
    using assms(1,9,10) by (simp add: dg_peer_def dg_env_ok_def Let_def)
  have pl: "placed (su_iosz ?old) (?b, buf)"
    using su(1,2,3,4) by (simp add: dg_buffer_ok_def rpc_buffer_def Let_def)
  obtain xd where xd: "xdr_callmsg z (xdrmem_create ?b buf (su_iosz ?old) XDR_DECODE (h + callmsg_blocks z c)) = (True, callmsg_into z c, xd)"
    "x_mem xd = h" "x_ops xd = x_ops (xdrmem_create ?b [] 0 XDR_DECODE 0)" "xm_base (x_private xd) = ?b"
    "xm_buf (x_private xd) = buf" "xm_ok (x_private xd)" "xm_off (x_private xd) + unat (xm_handy (x_private xd)) = unat (su_iosz ?old)"
    by (rule callmsg_from_buffer [OF pl assms(5,6,7) buf(2)])
  have xid: "rm_xid (callmsg_into z c) = rm_xid c" and call: "cb_proc (rm_call (callmsg_into z c)) = cb_proc (rm_call c)"
    "cb_vers (rm_call (callmsg_into z c)) = cb_vers (rm_call c)" "cb_prog (rm_call (callmsg_into z c)) = cb_prog (rm_call c)"
    by (simp_all add: callmsg_into_def)
  let ?uc = "if ?f = None then uc\<lparr>uc_proc := cb_proc (rm_call c), uc_vers := cb_vers (rm_call c), uc_prog := cb_prog (rm_call c)\<rparr> else uc"
  let ?su1 = "su\<lparr>su_xdrs := xd, su_xid := rm_xid c, su_cache := Some ?uc\<rparr>"
  let ?su = "case ?f of None \<Rightarrow> ?su1 | Some ent \<Rightarrow> sent (take (cache_replylen ent) (snd (cache_reply ent))) addr ?su1"
  have "take (unat (su_iosz ?old)) img = img" using assms(7) by simp
  then have "dg_received env img addr x z = Ret (?f = None, callmsg_into z c, x\<lparr>xp_rtaddr := Some addr, xp_p1 := ?su\<rparr>)"
    unfolding dg_received_def Let_def
    using callmsg_size_ge [OF assms(6)] peer setpos_rewinds [OF su(1), of XDR_DECODE] xd(1) su(2-6)
    by (simp add: buf_def [symmetric] su_def [symmetric] xid call cache_get_log [OF assms(4)] nb_bytes_def split: option.split)
  moreover have "dg_buffer_ok ?su1"
    using pl xd su(4) by (simp add: dg_buffer_ok_def Let_def)
  then have "dg_buffer_ok ?su" by (simp add: dg_buffer_ok_def sent_def split: option.split)
  ultimately show thesis
    by (rule that) (use xd(2) su(4,7) in \<open>simp_all add: sent_def split: option.split\<close>)
qed

section \<open>A call and its retransmission\<close>

text \<open>
  Sending takes whole datagrams, memory does not run out, and every block that is or becomes the buffer
  is placed as \<open>placed\<close> wants it.
\<close>

definition dg_env_good :: "dg_env \<Rightarrow> bool" where
  "dg_env_good env \<longleftrightarrow> (\<forall>t. dv_addr env t \<and> dv_node env t \<and>
       (unat (su_iosz t) < 2 ^ 31 \<longrightarrow> (\<exists>blk. dv_block env t = Some blk \<and> placed (su_iosz t) blk))) \<and>
     (\<forall>t bs addr. dv_sendto env t bs addr = int (length bs))"

lemma enc_replymsg_xid: "length (enc_replymsg rbs (r\<lparr>rm_xid := i\<rparr>)) = length (enc_replymsg rbs r)"
  by (simp add: enc_replymsg_def)

lemma svc_dg_reply_sends:
  assumes env: "dg_env_good env" and "dg_buffer_ok (xp_p1 x)" and "su_cache (xp_p1 x) = Some uc" and "cache_inv uc"
    and "\<forall>e \<in> set (cache_log uc). placed (su_iosz (xp_p1 x)) (cache_reply e)"
    and "replymsg_ok r"
    and "has_results r \<Longrightarrow> mem_aligned.encodes (ar_results_proc (rp_acpt (rm_reply r)))
      (ar_results_where (rp_acpt (rm_reply r))) (ar_results_where (rp_acpt (rm_reply r))) rbs"
    and "has_results r \<Longrightarrow> mem_unaligned.encodes (ar_results_proc (rp_acpt (rm_reply r)))
      (ar_results_where (rp_acpt (rm_reply r))) (ar_results_where (rp_acpt (rm_reply r))) rbs"
    and "length (enc_replymsg rbs r) \<le> unat (su_iosz (xp_p1 x))"
  defines "bs \<equiv> enc_replymsg rbs (r\<lparr>rm_xid := su_xid (xp_p1 x)\<rparr>)"
  obtains su uc' e where "svc_dg_reply env x r = Ret (True, su)" and "dg_buffer_ok su"
    and "su_cache su = Some uc'" and "cache_inv uc'" and "cache_log uc' = take (unat (uc_size uc)) (e # cache_log uc)"
    and "cache_xid e = su_xid (xp_p1 x)" and "cache_proc e = uc_proc uc" and "cache_vers e = uc_vers uc" and "cache_prog e = uc_prog uc"
    and "cache_addr e = nb_bytes (xp_rtaddr x)" and "take (cache_replylen e) (snd (cache_reply e)) = bs"
    and "dg_sent su = (bs, nb_bytes (xp_rtaddr x)) # dg_sent (xp_p1 x)" and "su_iosz su = su_iosz (xp_p1 x)"
    and "x_mem (su_xdrs su) = x_mem (su_xdrs (xp_p1 x))"
proof -
  let ?s = "xp_p1 x" and ?addr = "nb_bytes (xp_rtaddr x)" and ?r = "r\<lparr>rm_xid := su_xid (xp_p1 x)\<rparr>"
  let ?b = "xm_base (x_private (su_xdrs ?s))" and ?N = "unat (uc_size uc)"
  have buf: "length (rpc_buffer ?s) = unat (su_iosz ?s)" "unat (su_iosz ?s) < 2 ^ 31"
    using assms(2) by (simp_all add: dg_buffer_ok_def placed_def rpc_buffer_def Let_def)
  have fits: "unat (su_iosz ?s) \<le> length (rpc_buffer ?s)" "length (rpc_buffer ?s) < 2 ^ 63" using buf by simp_all
  have len: "length bs \<le> unat (su_iosz ?s)" using assms(9) by (simp add: bs_def enc_replymsg_xid)
  have ok: "replymsg_ok ?r" "has_results ?r = has_results r" using assms(6) by (simp_all add: replymsg_ok_def has_results_def)
  have "mem_aligned.encodes xdr_replymsg ?r ?r bs"
    unfolding bs_def by (rule mem_aligned.encodes_replymsg [OF ok(1)]) (use ok(2) assms(7) in simp)
  moreover have "mem_unaligned.encodes xdr_replymsg ?r ?r bs"
    unfolding bs_def by (rule mem_unaligned.encodes_replymsg [OF ok(1)]) (use ok(2) assms(8) in simp)
  ultimately obtain xd where xd: "xdr_replymsg ?r (xdrmem_create ?b (rpc_buffer ?s) (su_iosz ?s) XDR_ENCODE (x_mem (su_xdrs ?s))) = (True, ?r, xd)"
    "xm_buf (x_private xd) = store 0 bs (rpc_buffer ?s)" "XDR_GETPOS xd = of_nat (length bs)" "x_mem xd = x_mem (su_xdrs ?s)"
    by (rule xdrmem_encode [OF _ _ len fits])
  have pos: "unat (XDR_GETPOS xd) = length bs" using xd(3) len by simp
  let ?t = "sent bs ?addr (?s\<lparr>su_xdrs := xd\<rparr>)"
  have t: "su_cache ?t = Some uc" "su_xid ?t = su_xid ?s" "su_iosz ?t = su_iosz ?s" "su_xdrs ?t = xd"
    "dg_sent ?t = (bs, ?addr) # dg_sent ?s" "rpc_buffer (?s\<lparr>su_xdrs := xd\<rparr>) = store 0 bs (rpc_buffer ?s)"
    "rpc_buffer ?t = store 0 bs (rpc_buffer ?s)"
    using assms(3) xd(2) by (simp_all add: sent_def rpc_buffer_def)
  have tk: "take (length bs) (store 0 bs (rpc_buffer ?s)) = bs" by (simp add: store_def)
  have mn: "min (length (store 0 bs (rpc_buffer ?s))) (length bs) = length bs" by (simp add: store_def min_def)
  have addr: "dv_addr env t" for t using env by (simp add: dg_env_good_def)
  have iosz: "unat (su_iosz ?t) < 2 ^ 31" using buf(2) t(3) by simp
  then obtain b where b: "dv_block env ?t = Some b" "placed (su_iosz ?t) b" using env unfolding dg_env_good_def by blast
  then have room: "cache_room env ?t uc" using env by (simp add: cache_room_def dg_env_good_def)
  obtain su' uc' where su': "cache_set env (length bs) ?addr ?t = Ret su'" "su_cache su' = Some uc'" "cache_inv uc'"
    "cache_log uc' = take ?N (reply_node (length bs) ?addr ?t uc # cache_log uc)"
    "su_iosz su' = su_iosz ?t" "dg_sent su' = dg_sent ?t"
    "su_xdrs su' = (let blk = (if length (uc_nodes uc) < ?N then the (dv_block env ?t) else cache_reply (last (cache_log uc)))
        in xdrmem_create (fst blk) (snd blk) (su_iosz ?t) XDR_ENCODE (x_mem (su_xdrs ?t)))"
    using cache_set_log [OF t(1) assms(4) addr, of "length bs" ?addr] room by (metis (no_types, lifting))
  define blk where "blk = (if length (uc_nodes uc) < ?N then the (dv_block env ?t) else cache_reply (last (cache_log uc)))"
  have "placed (su_iosz ?s) blk"
  proof (cases "length (uc_nodes uc) < ?N")
    case True
    with b show ?thesis by (simp add: blk_def t)
  next
    case False
    then have "set (cache_order uc) \<noteq> {}"
      using assms(4) cache_inv_order [OF assms(4)] by (auto simp: cache_inv_def Let_def)
    then have "last (cache_log uc) \<in> set (cache_log uc)" by (intro last_in_set) (auto simp: cache_log_def)
    with assms(5) False show ?thesis by (simp add: blk_def)
  qed
  then have "dg_buffer_ok su'"
    using placed_create [of su' blk XDR_ENCODE "x_mem xd"] su'(5,7) t(3,4)
    by (simp add: blk_def [symmetric] Let_def) (simp add: dg_buffer_ok_def)
  moreover have "svc_dg_reply env x r = Ret (True, su')"
    using setpos_rewinds [OF assms(2), of XDR_ENCODE] xd(1) pos assms(3) env su'(1) t(6) tk mn
    by (simp add: svc_dg_reply_def Let_def dg_env_good_def) (simp add: sent_def)
  ultimately show thesis
    using su' xd(4) t tk
    by (intro that [of su' uc' "reply_node (length bs) ?addr ?t uc"]) (simp_all add: reply_node_def Let_def blk_def [symmetric] xdrmem_create_def)
qed

text \<open>
  C20: a call that arrives again after it has been answered is not dispatched again: the transport
  reports no call, and sends the peer the very reply it sent before. In between, the arguments may have
  been read from the buffer and freed.
\<close>

theorem retransmission_gets_same_reply:
  assumes "dg_env_good env" and "dg_buffer_ok (xp_p1 x)" and "su_cache (xp_p1 x) = Some uc" and "cache_inv uc"
    and "\<forall>e \<in> set (cache_log uc). placed (su_iosz (xp_p1 x)) (cache_reply e)"
    and "callmsg_ok c" and "call_image c img" and "length img \<le> unat (su_iosz (xp_p1 x))"
    and "x_mem (su_xdrs (xp_p1 x)) = h + callmsg_blocks z c"
    and "length (nb_bytes (xp_rtaddr x)) \<le> length addr" and "addr \<noteq> []"
    and "dg_received env img addr x z = Ret (True, m, x1)"
    and "dg_buffer_ok ((xp_p1 x1)\<lparr>su_xdrs := xd\<rparr>)" and "x_mem xd = h' + callmsg_blocks z' c"
    and "replymsg_ok r" and "length (enc_replymsg rbs r) \<le> unat (su_iosz (xp_p1 x))"
    and "has_results r \<Longrightarrow> mem_aligned.encodes (ar_results_proc (rp_acpt (rm_reply r)))
      (ar_results_where (rp_acpt (rm_reply r))) (ar_results_where (rp_acpt (rm_reply r))) rbs"
    and "has_results r \<Longrightarrow> mem_unaligned.encodes (ar_results_proc (rp_acpt (rm_reply r)))
      (ar_results_where (rp_acpt (rm_reply r))) (ar_results_where (rp_acpt (rm_reply r))) rbs"
  shows "\<exists>su m' x3. svc_dg_reply env (x1\<lparr>xp_p1 := (xp_p1 x1)\<lparr>su_xdrs := xd\<rparr>\<rparr>) r = Ret (True, su) \<and>
    dg_received env img addr (x1\<lparr>xp_p1 := su\<rparr>) z' = Ret (False, m', x3) \<and>
    (let reply = (enc_replymsg rbs (r\<lparr>rm_xid := rm_xid c\<rparr>), addr) in
       dg_sent su = reply # dg_sent (xp_p1 x) \<and> dg_sent (xp_p1 x3) = reply # reply # dg_sent (xp_p1 x))"
proof -
  have env: "dg_env_ok env" using assms(1) by (simp add: dg_env_good_def dg_env_ok_def)
  let ?uc = "uc\<lparr>uc_proc := cb_proc (rm_call c), uc_vers := cb_vers (rm_call c), uc_prog := cb_prog (rm_call c)\<rparr>"
  obtain su where su: "dg_received env img addr x z =
      Ret (List.find (cache_match (rm_xid c) addr c) (cache_log uc) = None, callmsg_into z c, x\<lparr>xp_rtaddr := Some addr, xp_p1 := su\<rparr>)"
    "su_xid su = rm_xid c" "su_iosz su = su_iosz (xp_p1 x)"
    "dg_sent su = (case List.find (cache_match (rm_xid c) addr c) (cache_log uc) of None \<Rightarrow> dg_sent (xp_p1 x)
      | Some ent \<Rightarrow> (take (cache_replylen ent) (snd (cache_reply ent)), addr) # dg_sent (xp_p1 x))"
    "su_cache su = Some (if List.find (cache_match (rm_xid c) addr c) (cache_log uc) = None then ?uc else uc)"
    by (rule dg_received_call [OF env assms(2,3,4,6,7,8,9,10,11)])
  have x1: "x1 = x\<lparr>xp_rtaddr := Some addr, xp_p1 := su\<rparr>" and new: "List.find (cache_match (rm_xid c) addr c) (cache_log uc) = None"
    using su(1) assms(12) by simp_all
  let ?x2 = "x1\<lparr>xp_p1 := (xp_p1 x1)\<lparr>su_xdrs := xd\<rparr>\<rparr>" and ?bs = "enc_replymsg rbs (r\<lparr>rm_xid := rm_xid c\<rparr>)"
  have x2: "dg_buffer_ok (xp_p1 ?x2)" "su_cache (xp_p1 ?x2) = Some ?uc" "cache_inv ?uc" "su_xid (xp_p1 ?x2) = rm_xid c"
    "nb_bytes (xp_rtaddr ?x2) = addr" "su_iosz (xp_p1 ?x2) = su_iosz (xp_p1 x)" "x_mem (su_xdrs (xp_p1 ?x2)) = h' + callmsg_blocks z' c"
    "dg_sent (xp_p1 ?x2) = dg_sent (xp_p1 x)" "cache_log ?uc = cache_log uc"
    using assms(4,13,14) su new by (simp_all add: x1 cache_inv_saved nb_bytes_def)
  have blks: "\<forall>e \<in> set (cache_log ?uc). placed (su_iosz (xp_p1 ?x2)) (cache_reply e)"
    and room: "length (enc_replymsg rbs r) \<le> unat (su_iosz (xp_p1 ?x2))"
    using assms(5,16) x2(6,9) by simp_all
  obtain su2 uc2 e where s2: "svc_dg_reply env ?x2 r = Ret (True, su2)" "dg_buffer_ok su2" "su_cache su2 = Some uc2" "cache_inv uc2"
    "cache_log uc2 = take (unat (uc_size ?uc)) (e # cache_log ?uc)" "cache_xid e = su_xid (xp_p1 ?x2)" "cache_proc e = uc_proc ?uc"
    "cache_vers e = uc_vers ?uc" "cache_prog e = uc_prog ?uc" "cache_addr e = nb_bytes (xp_rtaddr ?x2)"
    "take (cache_replylen e) (snd (cache_reply e)) = enc_replymsg rbs (r\<lparr>rm_xid := su_xid (xp_p1 ?x2)\<rparr>)"
    "dg_sent su2 = (enc_replymsg rbs (r\<lparr>rm_xid := su_xid (xp_p1 ?x2)\<rparr>), nb_bytes (xp_rtaddr ?x2)) # dg_sent (xp_p1 ?x2)"
    "su_iosz su2 = su_iosz (xp_p1 ?x2)" "x_mem (su_xdrs su2) = x_mem (su_xdrs (xp_p1 ?x2))"
    by (rule svc_dg_reply_sends [OF assms(1) x2(1,2,3) blks assms(15,17,18) room])
  let ?x3 = "x1\<lparr>xp_p1 := su2\<rparr>"
  have "0 < unat (uc_size uc)" using assms(4) by (simp add: cache_inv_def Let_def)
  then have hit: "List.find (cache_match (rm_xid c) addr c) (cache_log uc2) = Some e"
    using s2(5-10) x2(4,5) by (cases "unat (uc_size uc)") (simp_all add: cache_match_def)
  have x3: "dg_buffer_ok (xp_p1 ?x3)" "su_cache (xp_p1 ?x3) = Some uc2" "length img \<le> unat (su_iosz (xp_p1 ?x3))"
    "x_mem (su_xdrs (xp_p1 ?x3)) = h' + callmsg_blocks z' c" "length (nb_bytes (xp_rtaddr ?x3)) \<le> length addr"
    using s2(2,3,13,14) x2(6,7) assms(8) by (simp_all add: x1 nb_bytes_def)
  obtain su3 where su3: "dg_received env img addr ?x3 z' =
      Ret (List.find (cache_match (rm_xid c) addr c) (cache_log uc2) = None, callmsg_into z' c, ?x3\<lparr>xp_rtaddr := Some addr, xp_p1 := su3\<rparr>)"
    "dg_sent su3 = (case List.find (cache_match (rm_xid c) addr c) (cache_log uc2) of None \<Rightarrow> dg_sent (xp_p1 ?x3)
      | Some ent \<Rightarrow> (take (cache_replylen ent) (snd (cache_reply ent)), addr) # dg_sent (xp_p1 ?x3))"
    by (rule dg_received_call [OF env x3(1,2) s2(4) assms(6,7) x3(3,4,5) assms(11)])
  then show ?thesis
    using s2(1,11,12) x2(4,5,8) hit by (simp add: Let_def)
qed

definition ping :: "(xdr_mem, unit) rpc_msg" where
  "ping = sample_call\<lparr>rm_call := (rm_call (sample_call :: (xdr_mem, unit) rpc_msg))\<lparr>cb_cred := null_verf\<rparr>\<rparr>"

definition good_env :: dg_env where
  "good_env = \<lparr>dv_recv = (\<lambda>k s. Datagram (enc_callmsg ping) [2, 0]), dv_sendto = (\<lambda>t bs addr. int (length bs)),
     dv_fresh = (\<lambda>s. 9), dv_addr = (\<lambda>t. True), dv_node = (\<lambda>t. True), dv_block = (\<lambda>t. Some (0, zeros (unat (su_iosz t))))\<rparr>"

lemma placed_0:
  assumes "unat n < 2 ^ 31"
  shows "placed n (0, zeros (unat n))"
proof -
  have "int (unat n) < int (2 ^ 31)" using assms by (simp only: of_nat_less_iff)
  with assms show ?thesis by (simp add: placed_def)
qed

lemma good_env_good: "dg_env_good good_env"
  using placed_0 by (simp add: dg_env_good_def good_env_def)

definition demo_dg :: svc_dg_data where
  "demo_dg = \<lparr>su_iosz = 64, su_xid = 0, su_xdrs = xdrmem_create 4096 (zeros 64) 64 XDR_DECODE 0,
     su_cache = Some (cache_start 2), dg_sent = []\<rparr>"

lemma demo_dg_ok: "dg_buffer_ok demo_dg"
  by (simp add: dg_buffer_ok_def demo_dg_def placed_def xdrmem_create_def xm_ok_def xm_off_def)

lemma demo_cache: "cache_inv (cache_start 2)" "cache_log (cache_start 2) = []"
  by (rule cache_start_inv; simp)+

definition demo_dg_xprt :: dg_xprt where
  "demo_dg_xprt = new_xprt 7 0 None demo_dg"

lemma ping_ok: "callmsg_ok ping" "length (enc_callmsg ping) = 40" "callmsg_blocks ping ping = 0"
  by (simp_all add: ping_def sample_call_def callmsg_ok_def auth_ok_def auth_bytes_def null_verf_def enc_callmsg_def
      call_words_def enc_auth_def enc_counted_def enc_opaque_def callmsg_blocks_def auth_blocks_def counted_blocks_def xdr_pad_def)

definition ping_reply :: "(xdr_mem, unit) rpc_msg" where
  "ping_reply = accepted_msg sample_call null_verf PROC_UNAVAIL"

lemma ping_reply_ok: "replymsg_ok ping_reply" "\<not> has_results ping_reply" "length (enc_replymsg [] ping_reply) = 24"
  by (simp_all add: ping_reply_def accepted_msg_def replymsg_ok_def has_results_def auth_ok_def auth_bytes_def null_verf_def
      enc_replymsg_def enc_accepted_reply_def enc_auth_def enc_counted_def enc_opaque_def xdr_pad_def)

theorem retransmission_gets_same_reply_witness:
  "\<exists>m x1 su m' x3. dg_received good_env (enc_callmsg ping) [2, 0] demo_dg_xprt ping = Ret (True, m, x1) \<and>
    svc_dg_reply good_env x1 ping_reply = Ret (True, su) \<and>
    dg_received good_env (enc_callmsg ping) [2, 0] (x1\<lparr>xp_p1 := su\<rparr>) ping = Ret (False, m', x3) \<and>
    dg_sent (xp_p1 x3) = replicate 2 (enc_replymsg [] (ping_reply\<lparr>rm_xid := rm_xid ping\<rparr>), [2, 0])"
proof -
  have img: "call_image ping (enc_callmsg ping)" by (rule call_image_enc [OF ping_ok(1)])
  have x: "dg_buffer_ok (xp_p1 demo_dg_xprt)" "su_cache (xp_p1 demo_dg_xprt) = Some (cache_start 2)" "su_iosz (xp_p1 demo_dg_xprt) = 64"
    "x_mem (su_xdrs (xp_p1 demo_dg_xprt)) = 0 + callmsg_blocks ping ping" "dg_sent (xp_p1 demo_dg_xprt) = []"
    "xp_rtaddr demo_dg_xprt = None"
    using demo_dg_ok by (simp_all add: demo_dg_xprt_def new_xprt_def demo_dg_def ping_ok xdrmem_create_def)
  have env: "dg_env_ok good_env" by (simp add: dg_env_ok_def good_env_def)
  have fits: "length (enc_callmsg ping) \<le> unat (su_iosz (xp_p1 demo_dg_xprt))" using x(3) ping_ok(2) by simp
  have rt: "length (nb_bytes (xp_rtaddr demo_dg_xprt)) \<le> length [2, 0 :: byte]" using x(6) by (simp add: nb_bytes_def)
  obtain su where su: "dg_received good_env (enc_callmsg ping) [2, 0] demo_dg_xprt ping =
      Ret (True, callmsg_into ping ping, demo_dg_xprt\<lparr>xp_rtaddr := Some [2, 0], xp_p1 := su\<rparr>)"
    "dg_buffer_ok su" "x_mem (su_xdrs su) = 0"
    using dg_received_call [OF env x(1,2) demo_cache(1) ping_ok(1) img fits x(4) rt] demo_cache(2) by auto
  let ?x1 = "demo_dg_xprt\<lparr>xp_rtaddr := Some [2, 0], xp_p1 := su\<rparr>"
  have "\<exists>s m' x3. svc_dg_reply good_env (?x1\<lparr>xp_p1 := (xp_p1 ?x1)\<lparr>su_xdrs := su_xdrs su\<rparr>\<rparr>) ping_reply = Ret (True, s) \<and>
      dg_received good_env (enc_callmsg ping) [2, 0] (?x1\<lparr>xp_p1 := s\<rparr>) ping = Ret (False, m', x3) \<and>
      (let reply = (enc_replymsg [] (ping_reply\<lparr>rm_xid := rm_xid ping\<rparr>), [2, 0]) in
       dg_sent s = reply # dg_sent (xp_p1 demo_dg_xprt) \<and> dg_sent (xp_p1 x3) = reply # reply # dg_sent (xp_p1 demo_dg_xprt))"
    by (rule retransmission_gets_same_reply [OF good_env_good x(1,2) demo_cache(1) _ ping_ok(1) img fits x(4) rt _ su(1)])
      (use su(2,3) ping_ok(3) ping_reply_ok demo_cache(2) x(3) in simp_all)
  with su(1) x(5) show ?thesis by (simp add: Let_def numeral_2_eq_2) blast
qed

text \<open>
  C21: the cache, a hash table threaded through a ring of nodes, is the list of the last replies. Looking
  a call up finds the latest reply to a call with its number, program, version, procedure and peer, and
  otherwise keeps what identifies the call for the reply; storing a reply puts it in front and, when all
  nodes are in use, drops the oldest; the structure stays consistent, and no victim is ever missing from
  its chain.
\<close>

theorem cache_is_last_replies:
  assumes "su_cache su = Some uc" and "cache_inv uc" and "dg_env_ok env"
  shows "cache_get xid addr msg uc = Ret
      (case List.find (cache_match xid addr msg) (cache_log uc) of
         Some ent \<Rightarrow> (Some (take (cache_replylen ent) (snd (cache_reply ent))), uc)
       | None \<Rightarrow> (None, uc\<lparr>uc_proc := cb_proc (rm_call msg), uc_vers := cb_vers (rm_call msg), uc_prog := cb_prog (rm_call msg)\<rparr>)) \<and>
    (\<exists>su' uc'. cache_set env replylen addr su = Ret su' \<and> su_cache su' = Some uc' \<and> cache_inv uc' \<and>
      cache_log uc' = (if cache_room env su uc then take (unat (uc_size uc)) (reply_node replylen addr su uc # cache_log uc)
        else cache_log uc))"
proof -
  have "dv_addr env t" for t using assms(3) by (simp add: dg_env_ok_def)
  then show ?thesis
    using cache_get_log [OF assms(2)] cache_set_log [OF assms(1,2), of env replylen addr] by metis
qed

theorem cache_is_last_replies_witness:
  "cache_get 7 [2, 0] ping (cache_start 2) = Ret (None, (cache_start 2)\<lparr>uc_proc := 3, uc_vers := 2, uc_prog := 100000\<rparr>) \<and>
   (\<exists>su' uc'. cache_set good_env 24 [2, 0] demo_dg = Ret su' \<and> su_cache su' = Some uc' \<and> cache_inv uc' \<and>
      cache_log uc' = [reply_node 24 [2, 0] demo_dg (cache_start 2)])"
proof -
  have c: "su_cache demo_dg = Some (cache_start 2)" by (simp add: demo_dg_def)
  have env: "dg_env_ok good_env" by (simp add: dg_env_ok_def good_env_def)
  have room: "cache_room good_env demo_dg (cache_start 2)" by (simp add: cache_room_def good_env_def)
  have two: "unat (uc_size (cache_start 2)) = Suc 1" by (simp add: cache_start_def)
  have p: "cb_proc (rm_call ping) = 3" "cb_vers (rm_call ping) = 2" "cb_prog (rm_call ping) = 100000"
    by (simp_all add: ping_def sample_call_def)
  note t = cache_is_last_replies [OF c demo_cache(1) env, where xid = 7 and addr = "[2, 0]" and msg = ping and replylen = 24, unfolded demo_cache(2) two p]
  from t show ?thesis by (simp add: room)
qed


definition dg_start :: dg_server where
  "dg_start = (svc_start 5 2 [])\<lparr>svc_mem := [9 \<mapsto> demo_dg_xprt]\<rparr>"

definition demo_dgs :: dg_server where
  "demo_dgs = (case xprt_register 9 dg_start of Ret (_, s) \<Rightarrow> s | _ \<Rightarrow> dg_start)"

lemma dg_registers: "xprt_register 9 dg_start = Ret (True, demo_dgs)"
proof -
  have "(case xprt_register 9 dg_start of Ret (ok, _) \<Rightarrow> ok | _ \<Rightarrow> False)"
    unfolding dg_start_def by code_simp
  then show ?thesis by (simp add: demo_dgs_def split: run.splits prod.splits)
qed

lemma dg_reachable: "(svc_step {})\<^sup>*\<^sup>* (svc_start 5 2 []) demo_dgs"
proof -
  have "svc_step {} (svc_start 5 2 []) dg_start"
    unfolding dg_start_def
    using svc_step.handle [of "svc_start 5 2 []" 9 demo_dg_xprt "{}"]
    by (simp add: svc_start_def new_xprt_def demo_dg_xprt_def)
  moreover have "svc_step {} dg_start demo_dgs"
    by (rule svc_step.register [OF _ _ dg_registers, of demo_dg_xprt])
      (simp_all add: dg_start_def svc_start_def new_xprt_def demo_dg_xprt_def can_register_def svc_fdset_initial_def fds_of_def)
  ultimately show ?thesis by simp
qed

definition dg_serve :: "(svc_dg_data, xdr_mem, unit) server" where
  "dg_serve = \<lparr>sv_ops = svc_dg_ops 3 good_env, sv_dispatch = (\<lambda>d r s. s), sv_auth = (\<lambda>h c. AUTH_OK), sv_addr = 0,
      sv_area = sample_area, sv_junk = sample_call\<rparr>"


end
