(* ===== verification/Rpcb_Serv.thy ===== *)
theory Rpcb_Serv
  imports Rpcb_Db Svc_Dg
begin

text \<open>
  The port mapper's services: \<open>pmap_service\<close> of \<open>rpcbind/pmap_svc.c\<close> (version 2), \<open>rpcb_service_3\<close> of
  \<open>rpcbind/rpcb_svc.c\<close> and \<open>rpcb_service_4\<close> of \<open>rpcbind/rpcb_svc_4.c\<close>, with the access checks of
  \<open>rpcbind/security.c\<close>. A service reads its arguments from the transport, looks at who asks, runs the
  operation on the lists and sends the result. The services are run without debugging output.

  The main facts: nothing but a request that the access check lets pass changes the registrations; a
  port registered through version 2 is the port version 2 finds.
\<close>

section \<open>Arguments and results\<close>

text \<open>
  The union \<open>argument\<close> and the results, one constructor for each filter. The C code chooses the filter
  by the procedure; here the procedure chooses the constructor, which chooses the filter.
\<close>

datatype rpcb_arg = Arg_void | Arg_rpcb RPCB | Arg_string "byte list option" | Arg_netbuf netbuf | Arg_pmap pmap
  | Arg_rmtcall r_rmtcall_args

datatype rpcb_result = Res_void | Res_bool bool | Res_string "byte list option" | Res_rpcblist "RPCB list" | Res_u_long u32
  | Res_netbuf netbuf | Res_entries "rpcb_entry list" | Res_stats "rpcb_stat list" | Res_long u32 | Res_pmaplist "pmap list"
  | Res_rmtcall r_rmtcall_args

text \<open>
  \<open>xdr_rmtcall_result\<close>: the answer to a forwarded call, with the port of the service for version 2 and
  its address for the others.
\<close>

definition xdr_rmtcall_result :: "('s, r_rmtcall_args) xdrproc" where
  "xdr_rmtcall_result cap x =
     (let parms = (\<lambda>ok x. if ok then xdr_field rmt_args rmt_args_update xdr_encap_parms cap x else (False, cap, x)) in
      if rmt_localvers cap = 2
      then (case scan_dots 6 (cstr (rmt_uaddr cap)) of None \<Rightarrow> (False, cap, x)
            | Some hs \<Rightarrow>
                (case xdr_u_long (push_bit 8 (of_int (hs ! 4) AND 0xff) + (of_int (hs ! 5) AND 0xff)) x of
                   (ok, _, x) \<Rightarrow> parms ok x))
      else if rmt_localvers cap = 3 \<or> rmt_localvers cap = 4
      then (case xdr_wrapstring (Some (rmt_uaddr cap)) x of (ok, _, x) \<Rightarrow> parms ok x)
      else (False, cap, x))"

definition via :: "('a \<Rightarrow> 'u) \<Rightarrow> ('s, 'a) xdrproc \<Rightarrow> 'a \<Rightarrow> 's XDR \<Rightarrow> bool \<times> 'u \<times> 's XDR" where
  "via con p v x = (case p v x of (ok, v, x) \<Rightarrow> (ok, con v, x))"

definition xdr_argument :: "('s, rpcb_arg) xdrproc" where
  "xdr_argument a = (case a of
       Arg_void \<Rightarrow> xdr_void a
     | Arg_rpcb r \<Rightarrow> via Arg_rpcb xdr_rpcb r
     | Arg_string u \<Rightarrow> via Arg_string xdr_wrapstring u
     | Arg_netbuf n \<Rightarrow> via Arg_netbuf xdr_netbuf n
     | Arg_pmap p \<Rightarrow> via Arg_pmap xdr_pmap p
     | Arg_rmtcall c \<Rightarrow> via Arg_rmtcall svc_rmtcall_args c)"

definition xdr_result :: "('s, rpcb_result) xdrproc" where
  "xdr_result r = (case r of
       Res_void \<Rightarrow> xdr_void r
     | Res_bool b \<Rightarrow> via Res_bool xdr_bool b
     | Res_string u \<Rightarrow> via Res_string xdr_wrapstring u
     | Res_rpcblist l \<Rightarrow> via Res_rpcblist xdr_rpcblist_ptr l
     | Res_u_long w \<Rightarrow> via Res_u_long xdr_u_long w
     | Res_netbuf n \<Rightarrow> via Res_netbuf xdr_netbuf n
     | Res_entries l \<Rightarrow> via Res_entries xdr_rpcb_entry_list_ptr l
     | Res_stats l \<Rightarrow> via Res_stats xdr_rpcb_stat_byvers l
     | Res_long w \<Rightarrow> via Res_long xdr_long w
     | Res_pmaplist l \<Rightarrow> via Res_pmaplist (xdr_pmaplist_ptr (\<lambda>next. next)) l
     | Res_rmtcall c \<Rightarrow> via Res_rmtcall xdr_rmtcall_result c)"

text \<open>
  What a service is run with: the transport's operations, with \<open>SVC_GETARGS\<close> and \<open>SVC_FREEARGS\<close> on its
  private data; whose credentials \<open>__svc_getcallercreds\<close> finds; the junk a reply starts from; the
  decision of \<open>hosts_access\<close> where the TCP wrappers are compiled and switched on; the time; and the
  forwarding of calls.
\<close>

record ('t, 's) rpcb_serv =
  rs_ops :: "('t, 's, rpcb_result) xp_ops"
  rs_getargs :: "('s, rpcb_arg) xdrproc \<Rightarrow> rpcb_arg \<Rightarrow> 't \<Rightarrow> bool \<times> rpcb_arg \<times> 't"
  rs_freeargs :: "('s, rpcb_arg) xdrproc \<Rightarrow> rpcb_arg \<Rightarrow> 't \<Rightarrow> bool \<times> rpcb_arg \<times> 't"
  rs_creds :: "'t \<Rightarrow> u32 option"
  rs_junk :: "('s, rpcb_result) rpc_msg"
  rs_hosts_access :: "(byte list \<Rightarrow> bool) option"
  rs_time :: u32
  rs_callit :: "u32 \<Rightarrow> u32 \<Rightarrow> 't svcxprt \<Rightarrow> rpcb_db \<Rightarrow> ('t svcxprt \<times> rpcb_db) run"

definition svc_getargs :: "('t, 's) rpcb_serv \<Rightarrow> rpcb_arg \<Rightarrow> 't svcxprt \<Rightarrow> bool \<times> rpcb_arg \<times> 't svcxprt" where
  "svc_getargs sv a x = (case rs_getargs sv xdr_argument a (xp_p1 x) of (ok, a, t) \<Rightarrow> (ok, a, x\<lparr>xp_p1 := t\<rparr>))"

definition svc_freeargs :: "('t, 's) rpcb_serv \<Rightarrow> rpcb_arg \<Rightarrow> 't svcxprt \<Rightarrow> bool \<times> 't svcxprt" where
  "svc_freeargs sv a x = (case rs_freeargs sv xdr_argument a (xp_p1 x) of (ok, _, t) \<Rightarrow> (ok, x\<lparr>xp_p1 := t\<rparr>))"

definition sendreply :: "('t, 's) rpcb_serv \<Rightarrow> rpcb_result \<Rightarrow> 't svcxprt \<Rightarrow> (bool \<times> 't svcxprt) run" where
  "sendreply sv r x = svc_sendreply (rs_ops sv) (rs_junk sv) xdr_result r x"

definition caller :: "('t, 's) rpcb_serv \<Rightarrow> 't svcxprt \<Rightarrow> rpcb_caller" where
  "caller sv x = \<lparr>cl_netid = deref (xp_netid x), cl_rtaddr = xp_rtaddr x, cl_uid = rs_creds sv (xp_p1 x)\<rparr>"

section \<open>Who may ask for what\<close>

abbreviation (input) RPCBPROC_SET :: u32 where "RPCBPROC_SET \<equiv> 1"
abbreviation (input) RPCBPROC_UNSET :: u32 where "RPCBPROC_UNSET \<equiv> 2"

text \<open>\<open>INADDR_LOOPBACK\<close> is 127.0.0.1, and ports below 1024 are reserved.\<close>

definition is_loopback :: "rpcb_env \<Rightarrow> byte list \<Rightarrow> bool" where
  "is_loopback env sa =
     (case sa_family sa of
        AF_INET \<Rightarrow> oldstyle_local env \<and> load 4 4 sa = [127, 0, 0, 1] \<and> ntohs (load 2 2 sa) < 1024
      | AF_INET6 \<Rightarrow> oldstyle_local env \<and> load 8 16 sa = replicate 15 0 @ [1] \<and> ntohs (load 2 2 sa) < 1024
      | AF_LOCAL \<Rightarrow> True
      | AF_OTHER \<Rightarrow> False)"

definition check_access :: "rpcb_env \<Rightarrow> ('t, 's) rpcb_serv \<Rightarrow> byte list option \<Rightarrow> u32 \<Rightarrow> bool run" where
  "check_access env sv addr proc =
     (let wrap = (case rs_hosts_access sv of None \<Rightarrow> Ret True
        | Some allowed \<Rightarrow> (case addr of None \<Rightarrow> Fault | Some sa \<Rightarrow> Ret (sa_family sa = AF_LOCAL \<or> allowed sa)))
      in if (proc = RPCBPROC_SET \<or> proc = RPCBPROC_UNSET) \<and> \<not> insecure env
         then (case addr of None \<Rightarrow> Fault | Some sa \<Rightarrow> if is_loopback env sa then wrap else Ret False)
         else wrap)"

text \<open>
  Which programs may be called through the port mapper: 100000 is itself, 100005 the mount service,
  100007 \<open>ypbind\<close>, 100009 \<open>yppasswd\<close>, 100003 NFS, 100011 \<open>rquota\<close>, 100004 \<open>ypserv\<close>.
\<close>

definition check_callit :: "rpcb_env \<Rightarrow> u32 \<Rightarrow> u32 \<Rightarrow> bool" where
  "check_callit env prog proc =
     (if proc = 0 then True
      else if prog = 100000 then insecure env
      else if prog = 100005 then \<not> (proc = 1 \<or> proc = 3)
      else if prog = 100007 then proc \<noteq> 2
      else if prog = 100009 \<or> prog = 100003 \<or> prog = 100011 then False
      else if prog = 100004 then \<not> (proc = 8 \<or> proc = 3 \<or> proc = 4 \<or> proc = 5)
      else True)"

section \<open>Versions 3 and 4\<close>

text \<open>A procedure: the constructor of its zeroed argument, and what it does; \<open>None\<close> is no result.\<close>

type_synonym local_proc = "rpcb_arg \<Rightarrow> rpcb_caller \<Rightarrow> rpcb_db \<Rightarrow> (rpcb_result option \<times> rpcb_db) run"

definition arg_rpcb :: "rpcb_arg \<Rightarrow> RPCB" where
  "arg_rpcb a = (case a of Arg_rpcb r \<Rightarrow> r | _ \<Rightarrow> rpcb_zero)"

definition arg_string :: "rpcb_arg \<Rightarrow> byte list option" where
  "arg_string a = (case a of Arg_string u \<Rightarrow> u | _ \<Rightarrow> None)"

definition netbuf_zero :: netbuf where
  "netbuf_zero = \<lparr>nb_maxlen = 0, nb_len = 0, nb_buf = None\<rparr>"

definition arg_netbuf :: "rpcb_arg \<Rightarrow> netbuf" where
  "arg_netbuf a = (case a of Arg_netbuf n \<Rightarrow> n | _ \<Rightarrow> netbuf_zero)"

definition local_set :: "rpcb_env \<Rightarrow> u32 \<Rightarrow> local_proc" where
  "local_set env vers a cl s = (case rpcbproc_set_com env (arg_rpcb a) cl vers s of (ok, s) \<Rightarrow> Ret (Some (Res_bool ok), s))"

definition local_unset :: "rpcb_env \<Rightarrow> u32 \<Rightarrow> local_proc" where
  "local_unset env vers a cl s = (case rpcbproc_unset_com env (arg_rpcb a) cl vers s of (ok, s) \<Rightarrow> Ret (Some (Res_bool ok), s))"

text \<open>The result of \<open>rpcbproc_getaddr_com\<close> is the address of its static pointer, never NULL itself.\<close>

definition local_getaddr :: "rpcb_env \<Rightarrow> u32 \<Rightarrow> bool \<Rightarrow> local_proc" where
  "local_getaddr env vers allvers a cl s =
     run_bind (rpcbproc_getaddr_com env (arg_rpcb a) cl vers allvers s) (\<lambda>(u, s). Ret (Some (Res_string u), s))"

definition local_dump :: local_proc where
  "local_dump a cl s = Ret (Some (Res_rpcblist (list_rbl s)), s)"

definition local_gettime :: "u32 \<Rightarrow> local_proc" where
  "local_gettime now a cl s = Ret (Some (Res_u_long now), s)"

definition local_uaddr2taddr :: "rpcb_env \<Rightarrow> local_proc" where
  "local_uaddr2taddr env a cl s = (case rpcbproc_uaddr2taddr_com env (arg_string a) cl s of (n, s) \<Rightarrow> Ret (Some (Res_netbuf n), s))"

definition local_taddr2uaddr :: "rpcb_env \<Rightarrow> local_proc" where
  "local_taddr2uaddr env a cl s = (case rpcbproc_taddr2uaddr_com env (arg_netbuf a) cl s of (u, s) \<Rightarrow> Ret (Some (Res_string u), s))"

definition local_getaddrlist :: "rpcb_env \<Rightarrow> local_proc" where
  "local_getaddrlist env a cl s =
     run_bind (rpcbproc_getaddrlist_4 env (arg_rpcb a) cl s) (\<lambda>(l, s). Ret (map_option Res_entries l, s))"

definition local_getstat :: local_proc where
  "local_getstat a cl s = Ret (Some (Res_stats (rpcbproc_getstat s)), s)"

text \<open>Arguments, access, operation, result: the part the two services share.\<close>

definition run_local ::
  "rpcb_env \<Rightarrow> ('t, 's) rpcb_serv \<Rightarrow> u32 \<Rightarrow> rpcb_arg \<Rightarrow> local_proc \<Rightarrow> 't svcxprt \<Rightarrow> rpcb_db \<Rightarrow> ('t svcxprt \<times> rpcb_db) run" where
  "run_local env sv proc zero loc x s =
     (case svc_getargs sv zero x of (ok, a, x) \<Rightarrow>
      if \<not> ok then run_bind (svcerr_decode (rs_ops sv) (rs_junk sv) x) (\<lambda>x. Ret (x, s))
      else run_bind (check_access env sv (xp_rtaddr x) proc) (\<lambda>ok.
        run_bind
          (if \<not> ok then run_bind (svcerr_weakauth (rs_ops sv) (rs_junk sv) x) (\<lambda>x. Ret (x, s))
           else run_bind (loc a (caller sv x) s) (\<lambda>(r, s).
             case r of None \<Rightarrow> Ret (x, s)
             | Some r \<Rightarrow>
                 run_bind (sendreply sv r x) (\<lambda>(ok, x).
                   if ok then Ret (x, s)
                   else run_bind (svcerr_systemerr (rs_ops sv) (rs_junk sv) x) (\<lambda>x. Ret (x, s)))))
          (\<lambda>(x, s). Ret (snd (svc_freeargs sv a x), s))))"

definition null_service :: "rpcb_env \<Rightarrow> ('t, 's) rpcb_serv \<Rightarrow> 't svcxprt \<Rightarrow> rpcb_db \<Rightarrow> ('t svcxprt \<times> rpcb_db) run" where
  "null_service env sv x s =
     run_bind (check_access env sv (xp_rtaddr x) 0) (\<lambda>_. run_bind (sendreply sv Res_void x) (\<lambda>(_, x). Ret (x, s)))"

definition rpcb_proc_3 :: "rpcb_env \<Rightarrow> ('t, 's) rpcb_serv \<Rightarrow> u32 \<Rightarrow> (rpcb_arg \<times> local_proc) option" where
  "rpcb_proc_3 env sv proc =
     (if proc = 1 then Some (Arg_rpcb rpcb_zero, local_set env 3)
      else if proc = 2 then Some (Arg_rpcb rpcb_zero, local_unset env 3)
      else if proc = 3 then Some (Arg_rpcb rpcb_zero, local_getaddr env 3 True)
      else if proc = 4 then Some (Arg_void, local_dump)
      else if proc = 6 then Some (Arg_void, local_gettime (rs_time sv))
      else if proc = 7 then Some (Arg_string None, local_uaddr2taddr env)
      else if proc = 8 then Some (Arg_netbuf netbuf_zero, local_taddr2uaddr env)
      else None)"

definition rpcb_service_3 ::
  "rpcb_env \<Rightarrow> ('t, 's) rpcb_serv \<Rightarrow> u32 \<Rightarrow> 't svcxprt \<Rightarrow> rpcb_db \<Rightarrow> ('t svcxprt \<times> rpcb_db) run" where
  "rpcb_service_3 env sv proc x s =
     (let s = rpcbs_procinfo env 1 proc s in
      if proc = 0 then null_service env sv x s
      else if proc = 5 then rs_callit sv proc 3 x s
      else case rpcb_proc_3 env sv proc of
        None \<Rightarrow> run_bind (svcerr_noproc (rs_ops sv) (rs_junk sv) x) (\<lambda>x. Ret (x, s))
      | Some (zero, loc) \<Rightarrow> run_local env sv proc zero loc x s)"

definition rpcb_proc_4 :: "rpcb_env \<Rightarrow> ('t, 's) rpcb_serv \<Rightarrow> u32 \<Rightarrow> (rpcb_arg \<times> local_proc) option" where
  "rpcb_proc_4 env sv proc =
     (if proc = 1 then Some (Arg_rpcb rpcb_zero, local_set env 4)
      else if proc = 2 then Some (Arg_rpcb rpcb_zero, local_unset env 4)
      else if proc = 3 then Some (Arg_rpcb rpcb_zero, local_getaddr env 4 True)
      else if proc = 9 then Some (Arg_rpcb rpcb_zero, local_getaddr env 4 False)
      else if proc = 4 then Some (Arg_void, local_dump)
      else if proc = 6 then Some (Arg_void, local_gettime (rs_time sv))
      else if proc = 7 then Some (Arg_string None, local_uaddr2taddr env)
      else if proc = 8 then Some (Arg_netbuf netbuf_zero, local_taddr2uaddr env)
      else if proc = 11 then Some (Arg_rpcb rpcb_zero, local_getaddrlist env)
      else if proc = 12 then Some (Arg_void, local_getstat)
      else None)"

definition rpcb_service_4 ::
  "rpcb_env \<Rightarrow> ('t, 's) rpcb_serv \<Rightarrow> u32 \<Rightarrow> 't svcxprt \<Rightarrow> rpcb_db \<Rightarrow> ('t svcxprt \<times> rpcb_db) run" where
  "rpcb_service_4 env sv proc x s =
     (let s = rpcbs_procinfo env 2 proc s in
      if proc = 0 then null_service env sv x s
      else if proc = 5 \<or> proc = 10 then rs_callit sv proc 4 x s
      else case rpcb_proc_4 env sv proc of
        None \<Rightarrow> run_bind (svcerr_noproc (rs_ops sv) (rs_junk sv) x) (\<lambda>x. Ret (x, s))
      | Some (zero, loc) \<Rightarrow> run_local env sv proc zero loc x s)"

section \<open>Version 2\<close>

fun find_service_pmap_from :: "u32 \<Rightarrow> u32 \<Rightarrow> u32 \<Rightarrow> pmap option \<Rightarrow> pmap list \<Rightarrow> pmap option" where
  "find_service_pmap_from prog vers prot hit [] = hit"
| "find_service_pmap_from prog vers prot hit (pml # pmls) =
     (if pm_prog pml \<noteq> prog \<or> pm_prot pml \<noteq> prot then find_service_pmap_from prog vers prot hit pmls
      else if pm_vers pml = vers then Some pml
      else find_service_pmap_from prog vers prot (Some pml) pmls)"

definition find_service_pmap :: "u32 \<Rightarrow> u32 \<Rightarrow> u32 \<Rightarrow> pmap list \<Rightarrow> pmap option" where
  "find_service_pmap prog vers prot pmls = find_service_pmap_from prog vers prot None pmls"

text \<open>\<open>%d.%d.%d.%d.%d.%d\<close>, into a buffer of 32 bytes.\<close>

fun dots :: "int list \<Rightarrow> byte list" where
  "dots [] = []"
| "dots [v] = sdec v"
| "dots (v # vs) = sdec v @ 46 # dots vs"

definition print_uaddr :: "int list \<Rightarrow> byte list" where
  "print_uaddr vs = take 31 (dots vs) @ [0]"

definition port_bytes :: "u32 \<Rightarrow> int list" where
  "port_bytes port = [sint (drop_bit 8 port AND 0xff), sint (port AND 0xff)]"

text \<open>The text of a number without the zero byte; \<open>udptrans\<close> and \<open>tcptrans\<close> are terminated.\<close>

definition pmap_trans :: "rpcb_env \<Rightarrow> u32 \<Rightarrow> byte list" where
  "pmap_trans env prot = (if prot = 17 then udptrans env else tcptrans env)"

definition pmap_change :: "rpcb_env \<Rightarrow> pmap \<Rightarrow> u32 \<Rightarrow> byte list \<Rightarrow> rpcb_db \<Rightarrow> bool \<times> rpcb_db" where
  "pmap_change env reg op owner s =
     (let rbl = (\<lambda>netid addr. \<lparr>r_prog = pm_prog reg, r_vers = pm_vers reg, r_netid = Some netid, r_addr = addr, r_owner = Some owner\<rparr>) in
      if op = RPCBPROC_SET then
        (if pm_prot reg = 17 \<or> pm_prot reg = 6
         then map_set env (rbl (pmap_trans env (pm_prot reg)) (Some (print_uaddr ([0, 0, 0, 0] @ port_bytes (pm_port reg))))) owner s
         else (False, s))
      else if op = RPCBPROC_UNSET then
        (case map_unset env (rbl (tcptrans env) None) (Some owner) s of (ans1, s) \<Rightarrow>
         case map_unset env (rbl (udptrans env) None) (Some owner) s of (ans2, s) \<Rightarrow> (ans1 \<or> ans2, s))
      else (False, s))"

definition pmapproc_change ::
  "rpcb_env \<Rightarrow> ('t, 's) rpcb_serv \<Rightarrow> pmap \<Rightarrow> u32 \<Rightarrow> 't svcxprt \<Rightarrow> rpcb_db \<Rightarrow> ('t svcxprt \<times> rpcb_db) run" where
  "pmapproc_change env sv junk op x s =
     (case svc_getargs sv (Arg_pmap junk) x of (ok, a, x) \<Rightarrow>
      if \<not> ok then run_bind (svcerr_decode (rs_ops sv) (rs_junk sv) x) (\<lambda>x. Ret (x, s))
      else run_bind (check_access env sv (xp_rtaddr x) op) (\<lambda>ok.
        if \<not> ok then run_bind (svcerr_weakauth (rs_ops sv) (rs_junk sv) x) (\<lambda>x. Ret (x, s))
        else let reg = (case a of Arg_pmap r \<Rightarrow> r | _ \<Rightarrow> junk) in
          case pmap_change env reg op (getowner (rs_creds sv (xp_p1 x))) s of (ans, s) \<Rightarrow>
          run_bind (sendreply sv (Res_long (if ans then 1 else 0)) x) (\<lambda>(_, x).
            Ret (x, if op = RPCBPROC_SET then rpcbs_set 0 ans s else rpcbs_unset 0 ans s))))"

text \<open>The port found, 0 when there is none or its service is gone.\<close>

definition pmap_getport :: "rpcb_env \<Rightarrow> pmap \<Rightarrow> rpcb_db \<Rightarrow> (u32 \<times> rpcb_db) run" where
  "pmap_getport env reg s =
     (case find_service_pmap (pm_prog reg) (pm_vers reg) (pm_prot reg) (list_pml s) of
        None \<Rightarrow> Ret (0, s)
      | Some fnd \<Rightarrow>
          (case (if pm_prot reg = 17 then udp_uaddr env else tcp_uaddr env) of
             None \<Rightarrow> Ret (0, s)
           | Some ua \<Rightarrow>
               (case scan_dots 6 (cstr ua) of None \<Rightarrow> Ret (0, s)
                | Some hs \<Rightarrow>
                    if is_bound env (pmap_trans env (pm_prot reg)) (Some (print_uaddr (take 4 hs @ port_bytes (pm_port fnd)))) s
                    then Ret (pm_port fnd, s)
                    else run_bind (delete_prog env (pm_prog reg) s) (\<lambda>s. Ret (0, s)))))"

definition pmapproc_getport ::
  "rpcb_env \<Rightarrow> ('t, 's) rpcb_serv \<Rightarrow> pmap \<Rightarrow> 't svcxprt \<Rightarrow> rpcb_db \<Rightarrow> ('t svcxprt \<times> rpcb_db) run" where
  "pmapproc_getport env sv junk x s =
     (case svc_getargs sv (Arg_pmap junk) x of (ok, a, x) \<Rightarrow>
      if \<not> ok then run_bind (svcerr_decode (rs_ops sv) (rs_junk sv) x) (\<lambda>x. Ret (x, s))
      else run_bind (check_access env sv (xp_rtaddr x) 3) (\<lambda>ok.
        if \<not> ok then run_bind (svcerr_weakauth (rs_ops sv) (rs_junk sv) x) (\<lambda>x. Ret (x, s))
        else let reg = (case a of Arg_pmap r \<Rightarrow> r | _ \<Rightarrow> junk) in
          run_bind (pmap_getport env reg s) (\<lambda>(port, s).
            run_bind (sendreply sv (Res_long port) x) (\<lambda>(_, x).
              Ret (x, rpcbs_getaddr 0 (pm_prog reg) (pm_vers reg) (pmap_trans env (pm_prot reg))
                (Some (if port \<noteq> 0 then udptrans env else [0])) s)))))"

definition pmapproc_dump ::
  "rpcb_env \<Rightarrow> ('t, 's) rpcb_serv \<Rightarrow> 't svcxprt \<Rightarrow> rpcb_db \<Rightarrow> ('t svcxprt \<times> rpcb_db) run" where
  "pmapproc_dump env sv x s =
     (case svc_getargs sv Arg_void x of (ok, a, x) \<Rightarrow>
      if \<not> ok then run_bind (svcerr_decode (rs_ops sv) (rs_junk sv) x) (\<lambda>x. Ret (x, s))
      else run_bind (check_access env sv (xp_rtaddr x) 4) (\<lambda>ok.
        if \<not> ok then run_bind (svcerr_weakauth (rs_ops sv) (rs_junk sv) x) (\<lambda>x. Ret (x, s))
        else run_bind (sendreply sv (Res_pmaplist (list_pml s)) x) (\<lambda>(_, x). Ret (x, s))))"

text \<open>\<open>junk\<close> is the \<open>struct pmap\<close> on the stack before it is decoded into.\<close>

definition pmap_service ::
  "rpcb_env \<Rightarrow> ('t, 's) rpcb_serv \<Rightarrow> pmap \<Rightarrow> u32 \<Rightarrow> 't svcxprt \<Rightarrow> rpcb_db \<Rightarrow> ('t svcxprt \<times> rpcb_db) run" where
  "pmap_service env sv junk proc x s =
     (let s = rpcbs_procinfo env 0 proc s in
      if proc = 0 then null_service env sv x s
      else if proc = 1 \<or> proc = 2 then pmapproc_change env sv junk proc x s
      else if proc = 3 then pmapproc_getport env sv junk x s
      else if proc = 4 then pmapproc_dump env sv x s
      else if proc = 5 then rs_callit sv 5 2 x s
      else run_bind (svcerr_noproc (rs_ops sv) (rs_junk sv) x) (\<lambda>x. Ret (x, s)))"

section \<open>What leaves the registrations alone\<close>

definition regs :: "rpcb_db \<Rightarrow> RPCB list \<times> pmap list" where
  "regs s = (list_rbl s, list_pml s)"

lemma regs_upd [simp]:
  "regs (s\<lparr>db_heap := h\<rparr>) = regs s" "regs (s\<lparr>db_inf := i\<rparr>) = regs s" "regs (s\<lparr>getaddr_uaddr := u\<rparr>) = regs s"
  "regs (s\<lparr>taddr2uaddr_uaddr := u\<rparr>) = regs s" "regs (s\<lparr>uaddr2taddr_taddr := t\<rparr>) = regs s" "regs (s\<lparr>addrlist_rlist := l\<rparr>) = regs s"
  by (simp_all add: regs_def)

lemma regs_stat [simp]:
  "regs (upd_stat t f s) = regs s" "regs (rpcbs_set t b s) = regs s" "regs (rpcbs_unset t b s) = regs s"
  "regs (rpcbs_procinfo env t proc s) = regs s" "regs (rpcbs_getaddr t prog vers netid u s) = regs s"
  by (simp_all add: upd_stat_def rpcbs_set_def rpcbs_unset_def rpcbs_procinfo_def rpcbs_getaddr_def Let_def
      split: option.split prod.split)

text \<open>\<open>delete_prog\<close> returns only when there is nothing to delete: it reads the node it has freed.\<close>

lemma delete_prog_Ret: "delete_prog env prog s = Ret s' \<Longrightarrow> s' = s"
proof -
  have "delete_prog_from env prog rbls s = Ret s' \<Longrightarrow> s' = s" for rbls
  proof (induction rbls)
    case (Cons r rbls)
    have "unset_match \<lparr>r_prog = r_prog r, r_vers = r_vers r, r_netid = Some netid, r_addr = None, r_owner = None\<rparr> r"
      if "strdup (deref (r_netid r)) (db_heap s) = (Some netid, h)" for netid h
      using that by (auto simp: strdup_def unset_match_def strcasecmp_eq_def split: if_splits)
    with Cons show ?case by (auto simp: Let_def split: if_splits prod.splits option.splits)
  qed simp
  then show "delete_prog env prog s = Ret s' \<Longrightarrow> s' = s" by (simp add: delete_prog_def)
qed

lemma bind_Ret_iff: "run_bind r k = Ret b \<longleftrightarrow> (\<exists>a. r = Ret a \<and> k a = Ret b)"
  by (cases r) simp_all

lemma mergeaddr_regs: "mergeaddr env cl netid u sa s = Ret (m, s') \<Longrightarrow> regs s' = regs s"
  by (auto simp: mergeaddr_def bind_Ret_iff split: option.splits if_splits prod.splits)

text \<open>A run that ends with the registrations \<open>R\<close>, built along the run.\<close>

definition ends_regs :: "RPCB list \<times> pmap list \<Rightarrow> ('a \<times> rpcb_db) run \<Rightarrow> bool" where
  "ends_regs R m \<longleftrightarrow> (\<forall>a s. m = Ret (a, s) \<longrightarrow> regs s = R)"

lemma ends_regs_Ret [simp]: "ends_regs R (Ret (a, s)) \<longleftrightarrow> regs s = R"
  by (simp add: ends_regs_def)

lemma ends_regs_bind: "ends_regs R m \<Longrightarrow> (\<And>a s. regs s = R \<Longrightarrow> ends_regs R (k (a, s))) \<Longrightarrow> ends_regs R (run_bind m k)"
  by (cases m) (auto simp: ends_regs_def)

lemma ends_regs_mergeaddr: "regs s = R \<Longrightarrow> ends_regs R (mergeaddr env cl netid u sa s)"
  using mergeaddr_regs unfolding ends_regs_def by metis

lemma ends_regs_delete_prog: "regs s = R \<Longrightarrow> (\<And>s. regs s = R \<Longrightarrow> ends_regs R (k s)) \<Longrightarrow> ends_regs R (run_bind (delete_prog env prog s) k)"
  by (cases "delete_prog env prog s") (auto simp: ends_regs_def dest: delete_prog_Ret)

lemma ends_regs_getaddr: "regs s = R \<Longrightarrow> ends_regs R (rpcbproc_getaddr_com env regp cl v allv s)"
  unfolding rpcbproc_getaddr_com_def Let_def
  by (rule ends_regs_bind)
    (auto split: option.split static_str.split prod.split intro!: ends_regs_bind ends_regs_mergeaddr ends_regs_delete_prog)

lemma getaddr_com_regs: "rpcbproc_getaddr_com env regp cl v allv s = Ret (u, s') \<Longrightarrow> regs s' = regs s"
  using ends_regs_getaddr unfolding ends_regs_def by metis

lemma getaddrlist_loop_regs:
  "regs s = R \<Longrightarrow> ends_regs R (getaddrlist_loop env cl prog vers nc saddr rbls maddr s)"
proof (induction rbls arbitrary: maddr s)
  case (Cons rbl rbls)
  then show ?case
    by (auto simp: Let_def split: option.split intro!: ends_regs_bind ends_regs_mergeaddr ends_regs_delete_prog)
qed simp

lemma getaddrlist_regs: "rpcbproc_getaddrlist_4 env regp cl s = Ret (r, s') \<Longrightarrow> regs s' = regs s"
proof -
  have "ends_regs (regs s) (rpcbproc_getaddrlist_4 env regp cl s)"
    by (auto simp: rpcbproc_getaddrlist_4_def Let_def split: option.split intro!: ends_regs_bind getaddrlist_loop_regs)
  then show "rpcbproc_getaddrlist_4 env regp cl s = Ret (r, s') \<Longrightarrow> regs s' = regs s" by (simp add: ends_regs_def)
qed

text \<open>The procedures other than set and unset.\<close>

lemma uaddr2taddr_com_regs: "rpcbproc_uaddr2taddr_com env u cl s = (n, s') \<Longrightarrow> regs s' = regs s"
  by (auto simp: rpcbproc_uaddr2taddr_com_def Let_def split: option.splits prod.splits)

lemma taddr2uaddr_com_regs: "rpcbproc_taddr2uaddr_com env n cl s = (u, s') \<Longrightarrow> regs s' = regs s"
  by (auto simp: rpcbproc_taddr2uaddr_com_def Let_def split: option.splits prod.splits)

definition loc_keeps :: "local_proc \<Rightarrow> bool" where
  "loc_keeps loc \<longleftrightarrow> (\<forall>a cl s r s'. loc a cl s = Ret (r, s') \<longrightarrow> regs s' = regs s)"

lemma loc_keeps_procs:
  "loc_keeps (local_getaddr env v allv)" "loc_keeps local_dump" "loc_keeps (local_gettime now)" "loc_keeps (local_uaddr2taddr env)"
  "loc_keeps (local_taddr2uaddr env)" "loc_keeps (local_getaddrlist env)" "loc_keeps local_getstat"
  by (auto simp: loc_keeps_def local_getaddr_def local_dump_def local_gettime_def local_uaddr2taddr_def local_taddr2uaddr_def
      local_getaddrlist_def local_getstat_def bind_Ret_iff split: prod.splits
      dest: getaddr_com_regs uaddr2taddr_com_regs taddr2uaddr_com_regs getaddrlist_regs)

lemma xp_rtaddr_getargs: "svc_getargs sv a x = (ok, a', x') \<Longrightarrow> xp_rtaddr x' = xp_rtaddr x"
  by (auto simp: svc_getargs_def split: prod.splits)

text \<open>A request that may change the lists: set and unset, where the access check lets them pass.\<close>

definition may_change :: "rpcb_env \<Rightarrow> u32 \<Rightarrow> byte list option \<Rightarrow> bool" where
  "may_change env proc addr \<longleftrightarrow> (proc = RPCBPROC_SET \<or> proc = RPCBPROC_UNSET) \<and>
     (insecure env \<or> (\<exists>sa. addr = Some sa \<and> is_loopback env sa))"

lemma check_access_may: "check_access env sv addr proc = Ret True \<Longrightarrow> proc = 1 \<or> proc = 2 \<Longrightarrow> may_change env proc addr"
  by (auto simp: check_access_def may_change_def Let_def split: if_splits option.splits)

lemma run_local_regs:
  assumes "run_local env sv proc zero loc x s = Ret (x', s')" and "loc_keeps loc \<or> proc = 1 \<or> proc = 2"
    and "regs s' \<noteq> regs s"
  shows "may_change env proc (xp_rtaddr x)"
proof -
  obtain ok a x1 where get: "svc_getargs sv zero x = (ok, a, x1)" by (metis prod_cases3)
  have ok: ok using assms(1,3) get by (auto simp: run_local_def bind_Ret_iff split: if_splits)
  obtain al where al: "check_access env sv (xp_rtaddr x1) proc = Ret al"
    using assms(1) get ok by (auto simp: run_local_def bind_Ret_iff split: if_splits)
  have allowed: al using assms(1,3) get ok al by (auto simp: run_local_def bind_Ret_iff split: if_splits)
  obtain r s1 where loc: "loc a (caller sv x1) s = Ret (r, s1)" and s1: "s' = s1"
    using assms(1) get ok al allowed by (auto simp: run_local_def bind_Ret_iff split: option.splits if_splits prod.splits)
  then have "\<not> loc_keeps loc" using assms(3) unfolding loc_keeps_def by blast
  then show ?thesis
    using assms(2) check_access_may al allowed xp_rtaddr_getargs [OF get] by metis
qed

lemma null_service_regs: "null_service env sv x s = Ret (x', s') \<Longrightarrow> regs s' = regs s"
  by (auto simp: null_service_def bind_Ret_iff)

lemma rpcb_proc_keeps:
  "rpcb_proc_3 env sv proc = Some (zero, loc) \<Longrightarrow> loc_keeps loc \<or> proc = 1 \<or> proc = 2"
  "rpcb_proc_4 env sv proc = Some (zero, loc) \<Longrightarrow> loc_keeps loc \<or> proc = 1 \<or> proc = 2"
  by (auto simp: rpcb_proc_3_def rpcb_proc_4_def loc_keeps_procs split: if_splits)

definition callit_keeps :: "('t, 's) rpcb_serv \<Rightarrow> bool" where
  "callit_keeps sv \<longleftrightarrow> (\<forall>proc vers x s x' s'. rs_callit sv proc vers x s = Ret (x', s') \<longrightarrow> regs s' = regs s)"

lemma service_3_regs:
  assumes "rpcb_service_3 env sv proc x s = Ret (x', s')" and "regs s' \<noteq> regs s" and "callit_keeps sv"
  shows "may_change env proc (xp_rtaddr x)"
proof -
  let ?s = "rpcbs_procinfo env 1 proc s"
  obtain zero loc where "rpcb_proc_3 env sv proc = Some (zero, loc)" "run_local env sv proc zero loc x ?s = Ret (x', s')"
    using assms null_service_regs [of env sv x ?s]
    by (auto simp: rpcb_service_3_def Let_def callit_keeps_def bind_Ret_iff split: if_splits option.splits)
  then show ?thesis using run_local_regs rpcb_proc_keeps(1) assms(2) by fastforce
qed

lemma service_4_regs:
  assumes "rpcb_service_4 env sv proc x s = Ret (x', s')" and "regs s' \<noteq> regs s" and "callit_keeps sv"
  shows "may_change env proc (xp_rtaddr x)"
proof -
  let ?s = "rpcbs_procinfo env 2 proc s"
  obtain zero loc where "rpcb_proc_4 env sv proc = Some (zero, loc)" "run_local env sv proc zero loc x ?s = Ret (x', s')"
    using assms null_service_regs [of env sv x ?s]
    by (auto simp: rpcb_service_4_def Let_def callit_keeps_def bind_Ret_iff split: if_splits option.splits)
  then show ?thesis using run_local_regs rpcb_proc_keeps(2) assms(2) by fastforce
qed

lemma pmap_getport_regs: "pmap_getport env reg s = Ret (port, s') \<Longrightarrow> regs s' = regs s"
  by (auto simp: pmap_getport_def bind_Ret_iff split: option.splits if_splits dest!: delete_prog_Ret)

lemma pmap_service_regs:
  assumes "pmap_service env sv junk proc x s = Ret (x', s')" and "regs s' \<noteq> regs s" and "callit_keeps sv"
  shows "may_change env proc (xp_rtaddr x)"
proof -
  let ?s = "rpcbs_procinfo env 0 proc s"
  have change: "may_change env proc (xp_rtaddr x)" if p: "proc = 1 \<or> proc = 2" "pmapproc_change env sv junk proc x ?s = Ret (x', s')"
  proof -
    obtain ok a x1 where get: "svc_getargs sv (Arg_pmap junk) x = (ok, a, x1)" by (metis prod_cases3)
    have ok: ok using p(2) assms(2) get by (auto simp: pmapproc_change_def bind_Ret_iff split: if_splits)
    obtain al where al: "check_access env sv (xp_rtaddr x1) proc = Ret al"
      using p(2) get ok by (auto simp: pmapproc_change_def bind_Ret_iff split: if_splits)
    have al using p(2) assms(2) get ok al by (auto simp: pmapproc_change_def bind_Ret_iff split: if_splits)
    with al p(1) xp_rtaddr_getargs [OF get] check_access_may show ?thesis by metis
  qed
  have "regs s' = regs s" if "pmapproc_getport env sv junk x ?s = Ret (x', s')"
    using that by (auto simp: pmapproc_getport_def bind_Ret_iff Let_def split: prod.splits if_splits dest!: pmap_getport_regs)
  moreover have "regs s' = regs s" if "pmapproc_dump env sv x ?s = Ret (x', s')"
    using that by (auto simp: pmapproc_dump_def bind_Ret_iff split: prod.splits if_splits)
  ultimately show ?thesis
    using assms null_service_regs [of env sv x ?s] change
    by (auto simp: pmap_service_def Let_def callit_keeps_def bind_Ret_iff split: if_splits)
qed

text \<open>
  C35: nobody can change the registrations from afar. Whatever the version, the procedure and the
  arguments, a request that changes the list of registrations or the list of version 2 is a set or an
  unset, and the port mapper either runs in insecure mode or the caller is on a loopback transport: a
  local socket, or, where that is switched on, the loopback address with a reserved port.
\<close>

theorem only_local_callers_register:
  assumes "callit_keeps sv" and "service \<in> {pmap_service env sv junk, rpcb_service_3 env sv, rpcb_service_4 env sv}"
    and "service proc x s = Ret (x', s')" and "list_rbl s' \<noteq> list_rbl s \<or> list_pml s' \<noteq> list_pml s"
  shows "(proc = 1 \<or> proc = 2) \<and> (insecure env \<or> (\<exists>sa. xp_rtaddr x = Some sa \<and>
     (sa_family sa = AF_LOCAL \<or> oldstyle_local env \<and> ntohs (load 2 2 sa) < 1024 \<and>
       (sa_family sa = AF_INET \<and> load 4 4 sa = [127, 0, 0, 1] \<or>
        sa_family sa = AF_INET6 \<and> load 8 16 sa = replicate 15 0 @ [1]))))"
proof -
  have "regs s' \<noteq> regs s" using assms(4) by (simp add: regs_def)
  with assms(1,2,3) have "may_change env proc (xp_rtaddr x)"
    using pmap_service_regs service_3_regs service_4_regs by auto
  moreover have "sa_family sa = AF_LOCAL \<or> oldstyle_local env \<and> ntohs (load 2 2 sa) < 1024 \<and>
       (sa_family sa = AF_INET \<and> load 4 4 sa = [127, 0, 0, 1] \<or>
        sa_family sa = AF_INET6 \<and> load 8 16 sa = replicate 15 0 @ [1])" if "is_loopback env sa" for sa
    using that by (cases "sa_family sa") (auto simp: is_loopback_def)
  ultimately show ?thesis unfolding may_change_def by blast
qed

section \<open>Version 2: set, then ask for the port\<close>

lemma dots_head: "vs \<noteq> [] \<Longrightarrow> dots (v # vs) = sdec v @ 46 # dots vs"
  by (cases vs) simp_all

lemma sdec_nat: "0 \<le> v \<Longrightarrow> sdec v = dec (nat v)"
  by (simp add: sdec_def)

lemma scan_dots_dots:
  "vs \<noteq> [] \<Longrightarrow> list_all (\<lambda>v. 0 \<le> v) vs \<Longrightarrow> scan_dots (length vs) (dots vs) = Some vs"
proof (induction vs)
  case (Cons v vs)
  show ?case
  proof (cases "vs = []")
    case True
    then show ?thesis using Cons.prems scan_int_dec [of "[]" "nat v"] by (simp add: sdec_nat)
  next
    case False
    have "scan_int (dec (nat v) @ 46 # dots vs) = Some (int (nat v), 46 # dots vs)"
      by (rule scan_int_dec) (simp add: isdigit_unat)
    then show ?thesis using Cons False by (simp add: dots_head sdec_nat)
  qed
qed simp

lemma dots_length: "list_all (\<lambda>v. 0 \<le> v \<and> v < 1000) vs \<Longrightarrow> length (dots vs) \<le> 4 * length vs"
proof (induction vs rule: dots.induct)
  case (2 v)
  then have "nat v < 1000" "0 \<le> v" by auto
  then show ?case using dec_length [of "nat v"] by (simp add: sdec_nat)
next
  case (3 v w vs)
  have "nat v < 1000" "0 \<le> v" using 3(2) by auto
  then show ?case using 3 dec_length [of "nat v"] by (simp add: sdec_nat)
qed simp

lemma dots_no_nul: "0 \<notin> set (dots vs)"
  by (induction vs rule: dots.induct) auto

lemma cstr_print_uaddr:
  assumes "list_all (\<lambda>v. 0 \<le> v \<and> v < 1000) vs" "length vs \<le> 7"
  shows "cstr (print_uaddr vs) = dots vs"
  using dots_length [OF assms(1)] assms(2) dots_no_nul [of vs] by (simp add: print_uaddr_def)

lemma and_ff: "x AND 0xff = take_bit 8 (x :: u32)"
  by (simp add: take_bit_eq_mask mask_numeral)

lemma and_ff_bounds: "0 \<le> sint (x AND 0xff :: u32) \<and> sint (x AND 0xff) < 256"
proof -
  have u: "uint (x AND 0xff) < 2 ^ 8"
    unfolding and_ff unsigned_take_bit_eq by (rule take_bit_int_less_exp)
  then have "sint (x AND 0xff) = uint (x AND 0xff)"
    by (simp add: sint_uint signed_take_bit_eq_if_positive take_bit_int_eq_self bit_uint_iff and_ff bit_simps)
  then show ?thesis using u by simp
qed

lemma port_bytes_ok: "list_all (\<lambda>v. 0 \<le> v \<and> v < 1000) ([0, 0, 0, 0] @ port_bytes p)"
  using and_ff_bounds [of p] and_ff_bounds [of "drop_bit 8 p"] by (simp add: port_bytes_def)

lemma port_of_bytes: "push_bit 8 (drop_bit 8 p AND 0xff) + (p AND 0xff) = (p AND 0xffff :: u32)"
proof -
  have f: "p AND 0xffff = take_bit 16 p" by (simp add: take_bit_eq_mask mask_numeral)
  have "push_bit 8 (take_bit 8 (drop_bit 8 p)) + take_bit 8 p = push_bit 8 (take_bit 8 (drop_bit 8 p)) OR take_bit 8 p"
    by (rule disjunctive_add) (auto simp: bit_simps)
  also have "\<dots> = take_bit 16 p"
    by (rule bit_eqI) (auto simp: bit_simps)
  finally show ?thesis unfolding and_ff f .
qed

lemma uaddr_port_printed: "uaddr_port (print_uaddr ([0, 0, 0, 0] @ port_bytes p)) = Some (p AND 0xffff)"
proof -
  let ?vs = "[0, 0, 0, 0] @ port_bytes p"
  have "list_all (\<lambda>v. 0 \<le> v) ?vs" using port_bytes_ok [of p] by (simp add: list_all_iff)
  moreover have "length ?vs = 6" by (simp add: port_bytes_def)
  ultimately have "scan_dots 6 (dots ?vs) = Some ?vs" using scan_dots_dots [of ?vs] by (metis append_is_Nil_conv list.distinct(1))
  moreover have "cstr (print_uaddr ?vs) = dots ?vs" by (rule cstr_print_uaddr [OF port_bytes_ok]) (simp add: port_bytes_def)
  ultimately show ?thesis using port_of_bytes [of p] by (simp add: uaddr_port_def port_bytes_def)
qed

lemma pmap_trans_prot:
  assumes "prot = 17 \<or> prot = 6" "\<not> strcmp_eq (tcptrans env) (udptrans env)"
  shows "pmap_prot env (pmap_trans env prot) = Some prot"
  using assms by (auto simp: pmap_prot_def pmap_trans_def strcmp_eq_def)

lemma find_service_pmap_snoc:
  assumes "\<forall>p \<in> set pmls. \<not> (pm_prog p = prog \<and> pm_vers p = vers \<and> pm_prot p = prot)"
    and "pm_prog q = prog" "pm_vers q = vers" "pm_prot q = prot"
  shows "find_service_pmap prog vers prot (pmls @ [q]) = Some q"
proof -
  have "find_service_pmap_from prog vers prot hit (pmls @ [q]) = Some q" for hit
    using assms by (induction pmls arbitrary: hit) auto
  then show ?thesis by (simp add: find_service_pmap_def)
qed

lemma map_set_pml:
  assumes "db_ok s" "registered (list_rbl s) (rpcb_key regp) = None" "5 \<le> db_heap s" "portmap env"
    and "pmap_prot env (deref (r_netid regp)) = Some prot" "uaddr_port (deref (r_addr regp)) = Some port"
  shows "fst (map_set env regp owner s) \<and> list_pml (snd (map_set env regp owner s)) = list_pml s @
     [\<lparr>pm_prog = r_prog regp, pm_vers = r_vers regp, pm_prot = prot, pm_port = port\<rparr>]"
  using assms by (simp add: map_set_new db_ok_def Let_def add_pmaplist_def)

lemma pmap_change_set:
  assumes "pm_prot reg = 17 \<or> pm_prot reg = 6" "db_ok s" "5 \<le> db_heap s" "portmap env" "\<not> strcmp_eq (tcptrans env) (udptrans env)"
    and "registered (list_rbl s) (pm_prog reg, pm_vers reg, map tolower (cstr (pmap_trans env (pm_prot reg)))) = None"
    and "pmap_change env reg 1 owner s = (ans, s')"
  shows "ans \<and> db_ok s' \<and> list_pml s' = list_pml s @ [reg\<lparr>pm_port := pm_port reg AND 0xffff\<rparr>]"
proof -
  define r where "r = \<lparr>r_prog = pm_prog reg, r_vers = pm_vers reg, r_netid = Some (pmap_trans env (pm_prot reg)),
     r_addr = Some (print_uaddr ([0, 0, 0, 0] @ port_bytes (pm_port reg))), r_owner = Some owner\<rparr>"
  have m: "map_set env r owner s = (ans, s')"
    using assms(1,7) by (auto simp: pmap_change_def r_def)
  have r: "r_prog r = pm_prog reg" "r_vers r = pm_vers reg" "deref (r_netid r) = pmap_trans env (pm_prot reg)"
    "deref (r_addr r) = print_uaddr ([0, 0, 0, 0] @ port_bytes (pm_port reg))"
    by (simp_all add: r_def)
  have "fst (map_set env r owner s) \<and> list_pml (snd (map_set env r owner s)) = list_pml s @
     [\<lparr>pm_prog = r_prog r, pm_vers = r_vers r, pm_prot = pm_prot reg, pm_port = pm_port reg AND 0xffff\<rparr>]"
    using assms(1-6) pmap_trans_prot [OF assms(1,5)] uaddr_port_printed [of "pm_port reg"]
    by (intro map_set_pml) (simp_all only: r rpcb_key_def)
  moreover have "db_ok s'" using map_set_db_ok [OF assms(2), of env r owner] m by simp
  ultimately show ?thesis using m r by simp
qed

lemma pmap_getport_found:
  assumes "db_ok s" "find_service_pmap (pm_prog reg) (pm_vers reg) (pm_prot reg) (list_pml s) = Some fnd"
    and "(if pm_prot reg = 17 then udp_uaddr env else tcp_uaddr env) = Some ua" "scan_dots 6 (cstr ua) = Some hs"
  shows "pmap_getport env reg s = Ret (pm_port fnd, s)"
  using assms by (simp add: pmap_getport_def)

lemma rpcbs_procinfo_lists: "list_rbl (rpcbs_procinfo env t proc s) = list_rbl s" "list_pml (rpcbs_procinfo env t proc s) = list_pml s"
  using regs_stat(4) [of env t proc s] by (simp_all add: regs_def)

text \<open>
  C36: version 2 of the protocol hands out the port that was registered through it. A set request that
  the port mapper accepts to look at, for a service of UDP or TCP that is not registered yet, is
  answered with 1; and in the state it leaves any later request for the port of that program, version
  and protocol, from any transport, is answered with the 16 low bits of the port that was set.
\<close>

theorem pmap_set_then_getport:
  assumes s: "db_ok s" "5 \<le> db_heap s" "portmap env" "\<not> strcmp_eq (tcptrans env) (udptrans env)"
    and reg: "pm_prot reg = 17 \<or> pm_prot reg = 6"
      "registered (list_rbl s) (pm_prog reg, pm_vers reg, map tolower (cstr (pmap_trans env (pm_prot reg)))) = None"
      "\<forall>p \<in> set (list_pml s). \<not> (pm_prog p = pm_prog reg \<and> pm_vers p = pm_vers reg \<and> pm_prot p = pm_prot reg)"
    and ua: "(if pm_prot reg = 17 then udp_uaddr env else tcp_uaddr env) = Some ua" "scan_dots 6 (cstr ua) = Some hs"
    and set: "svc_getargs sv (Arg_pmap junk) x = (True, Arg_pmap reg, x1)" "check_access env sv (xp_rtaddr x1) 1 = Ret True"
  shows "\<exists>s1. pmap_service env sv junk 1 x s = run_bind (sendreply sv (Res_long 1) x1) (\<lambda>(_, x). Ret (x, s1)) \<and>
     (\<forall>junk' y y1 q. svc_getargs sv (Arg_pmap junk') y = (True, Arg_pmap q, y1) \<longrightarrow> check_access env sv (xp_rtaddr y1) 3 = Ret True \<longrightarrow>
        pm_prog q = pm_prog reg \<longrightarrow> pm_vers q = pm_vers reg \<longrightarrow> pm_prot q = pm_prot reg \<longrightarrow>
        (\<exists>s2. pmap_service env sv junk' 3 y s1 =
           run_bind (sendreply sv (Res_long (pm_port reg AND 0xffff)) y1) (\<lambda>(_, y). Ret (y, s2))))"
proof -
  let ?s = "rpcbs_procinfo env 0 1 s" and ?o = "getowner (rs_creds sv (xp_p1 x1))"
  have ps: "same_lists s ?s" by (rule stat_same_lists)
  have heap: "db_heap ?s = db_heap s" by (simp add: rpcbs_procinfo_def Let_def split: option.split)
  obtain ans s1 where ch: "pmap_change env reg 1 ?o ?s = (ans, s1)" by fastforce
  have c: "ans" "db_ok s1" "list_pml s1 = list_pml s @ [reg\<lparr>pm_port := pm_port reg AND 0xffff\<rparr>]"
    using pmap_change_set [OF reg(1) _ _ s(3,4) _ ch] s(1,2) reg(2) ps heap by (simp_all add: same_lists_def)
  let ?s1 = "rpcbs_set 0 True s1"
  have "same_lists s1 ?s1" by (rule stat_same_lists)
  have one: "pmap_service env sv junk 1 x s = run_bind (sendreply sv (Res_long 1) x1) (\<lambda>(_, x). Ret (x, ?s1))"
    using set ch c(1) by (simp add: pmap_service_def pmapproc_change_def Let_def)
  have "\<exists>s2. pmap_service env sv junk' 3 y ?s1 = run_bind (sendreply sv (Res_long (pm_port reg AND 0xffff)) y1) (\<lambda>(_, y). Ret (y, s2))"
    if q: "svc_getargs sv (Arg_pmap junk') y = (True, Arg_pmap q, y1)" "check_access env sv (xp_rtaddr y1) 3 = Ret True"
      "pm_prog q = pm_prog reg" "pm_vers q = pm_vers reg" "pm_prot q = pm_prot reg" for junk' y y1 q
  proof -
    let ?t = "rpcbs_procinfo env 0 3 ?s1"
    have "same_lists ?s1 ?t" by (rule stat_same_lists)
    with \<open>same_lists s1 ?s1\<close> have t: "same_lists s1 ?t" by (rule same_lists_trans)
    have "find_service_pmap (pm_prog q) (pm_vers q) (pm_prot q) (list_pml ?t) = Some (reg\<lparr>pm_port := pm_port reg AND 0xffff\<rparr>)"
      using t c(3) find_service_pmap_snoc [OF reg(3)] q(3-5) by (simp add: same_lists_def)
    then have "pmap_getport env q ?t = Ret (pm_port reg AND 0xffff, ?t)"
      using pmap_getport_found [of ?t q _ env ua hs] t c(2) ua q(5) by (simp add: same_lists_def)
    then show ?thesis
      using q(1,2) by (simp add: pmap_service_def pmapproc_getport_def Let_def) blast
  qed
  with one show ?thesis by blast
qed

section \<open>Concrete requests\<close>

text \<open>A datagram transport whose arguments are decoded already, a caller on a local socket, and version 2 switched on.\<close>

definition demo_msg :: "(xdr_mem, rpcb_result) rpc_msg" where
  "demo_msg =
     \<lparr>rm_xid = 7, rm_direction = 0, rm_call = \<lparr>cb_rpcvers = 2, cb_prog = 0, cb_vers = 0, cb_proc = 0, cb_cred = null_verf, cb_verf = null_verf\<rparr>,
      rm_reply = \<lparr>rp_stat = 0, rp_acpt = \<lparr>ar_verf = null_verf, ar_stat = 0, ar_vers_low = 0, ar_vers_high = 0,
          ar_results_where = Res_void, ar_results_proc = xdr_result\<rparr>,
        rp_rjct = \<lparr>rj_stat = 0, rj_vers_low = 0, rj_vers_high = 0, rj_why = 0\<rparr>\<rparr>\<rparr>"

definition demo_serv :: "pmap \<Rightarrow> (svc_dg_data, xdr_mem) rpcb_serv" where
  "demo_serv q =
     \<lparr>rs_ops = \<lparr>xp_recv = (\<lambda>_ m s. Ret (False, m, s)), xp_stat = (\<lambda>t. (XPRT_IDLE, t)),
        xp_reply = (\<lambda>x _. Ret (True, (xp_p1 x)\<lparr>su_xid := su_xid (xp_p1 x) + 1\<rparr>)), xp_destroy = (\<lambda>_ s. Ret s)\<rparr>,
      rs_getargs = (\<lambda>_ _ t. (True, Arg_pmap q, t)), rs_freeargs = (\<lambda>_ a t. (True, a, t)), rs_creds = (\<lambda>_. Some 7),
      rs_junk = demo_msg, rs_hosts_access = None, rs_time = 0, rs_callit = (\<lambda>_ _ x s. Ret (x, s))\<rparr>"

definition demo_pmap_env :: rpcb_env where
  "demo_pmap_env = (Rpcb_Db.demo_env False)\<lparr>portmap := True, udp_uaddr := Some (dots [0, 0, 0, 0, 0, 111] @ [0])\<rparr>"

definition unix_sa :: "byte list" where
  "unix_sa = [99, 0] @ zeros 14"

definition demo_local :: dg_xprt where
  "demo_local = demo_dg_xprt\<lparr>xp_rtaddr := Some unix_sa\<rparr>"

definition nfs :: pmap where
  "nfs = \<lparr>pm_prog = 100003, pm_vers = 3, pm_prot = 17, pm_port = 67585\<rparr>"

lemma demo_local_family: "sa_family unix_sa = AF_LOCAL"
  by (simp add: sa_family_def unix_sa_def)

lemma demo_access: "xp_rtaddr demo_local = Some unix_sa"
  "check_access demo_pmap_env (demo_serv q) (Some unix_sa) proc = Ret True"
  by (simp_all add: demo_local_def check_access_def demo_serv_def demo_pmap_env_def Rpcb_Db.demo_env_def is_loopback_def demo_local_family Let_def)

lemma demo_getargs: "svc_getargs (demo_serv q) a x = (True, Arg_pmap q, x)"
  by (simp add: svc_getargs_def demo_serv_def)

lemma demo_trans: "\<not> strcmp_eq (tcptrans demo_pmap_env) (udptrans demo_pmap_env)" "portmap demo_pmap_env"
  "registered (list_rbl (demo_db [])) k = None" "list_pml (demo_db []) = []"
  by (simp_all add: demo_pmap_env_def Rpcb_Db.demo_env_def strcmp_eq_def registered_def cstr_def)

lemma demo_send: "\<exists>x'. sendreply (demo_serv q) r x = Ret (True, x')"
  by (simp add: sendreply_def svc_sendreply_def xprt_reply_def demo_serv_def)

lemma demo_db_regs [simp]: "db_ok (rpcbs_procinfo env t proc (demo_db []))" "db_heap (rpcbs_procinfo env t proc (demo_db [])) = 40"
  "list_pml (rpcbs_procinfo env t proc (demo_db [])) = []" "list_rbl (rpcbs_procinfo env t proc (demo_db [])) = []"
  using stat_same_lists(3) [of "demo_db []" env t proc]
  by (simp_all add: same_lists_def rpcbs_procinfo_def Let_def split: option.split)

lemma demo_sets: "\<exists>x' s'. pmap_service demo_pmap_env (demo_serv nfs) nfs 1 demo_local (demo_db []) = Ret (x', s') \<and> list_pml s' \<noteq> []"
proof -
  let ?s = "rpcbs_procinfo demo_pmap_env 0 1 (demo_db [])"
  obtain ans s1 where ch: "pmap_change demo_pmap_env nfs 1 (getowner (Some 7)) ?s = (ans, s1)" by fastforce
  have "ans \<and> list_pml s1 = [nfs\<lparr>pm_port := 2049\<rparr>]"
    using pmap_change_set [OF _ _ _ demo_trans(2,1) _ ch] by (simp add: nfs_def registered_def)
  moreover obtain x1 where "sendreply (demo_serv nfs) (Res_long 1) demo_local = Ret (True, x1)" using demo_send by blast
  moreover have "rs_creds (demo_serv nfs) = (\<lambda>_. Some 7)" by (simp add: demo_serv_def)
  ultimately show ?thesis
    using ch regs_stat(2) [of 0 True s1] by (auto simp: pmap_service_def pmapproc_change_def demo_getargs demo_access Let_def regs_def)
qed

lemma only_local_callers_register_witness:
  "\<exists>sa. xp_rtaddr demo_local = Some sa \<and>
     (sa_family sa = AF_LOCAL \<or> oldstyle_local demo_pmap_env \<and> ntohs (load 2 2 sa) < 1024 \<and>
       (sa_family sa = AF_INET \<and> load 4 4 sa = [127, 0, 0, 1] \<or>
        sa_family sa = AF_INET6 \<and> load 8 16 sa = replicate 15 0 @ [1]))"
proof -
  obtain x' s' where s': "pmap_service demo_pmap_env (demo_serv nfs) nfs 1 demo_local (demo_db []) = Ret (x', s')" "list_pml s' \<noteq> list_pml (demo_db [])"
    using demo_sets by auto
  have "callit_keeps (demo_serv nfs)" by (simp add: callit_keeps_def demo_serv_def)
  moreover have "\<not> insecure demo_pmap_env" by (simp add: demo_pmap_env_def Rpcb_Db.demo_env_def)
  ultimately show ?thesis
    using only_local_callers_register [where service = "pmap_service demo_pmap_env (demo_serv nfs) nfs" and env = demo_pmap_env
        and sv = "demo_serv nfs" and junk = nfs, OF _ _ s'(1)] s'(2) by blast
qed

lemma pmap_set_then_getport_witness:
  "\<exists>x1 s1 x2 s2. pmap_service demo_pmap_env (demo_serv nfs) nfs 1 demo_local (demo_db []) = Ret (x1, s1) \<and>
     pmap_service demo_pmap_env (demo_serv nfs) nfs 3 demo_local s1 =
       run_bind (sendreply (demo_serv nfs) (Res_long 2049) demo_local) (\<lambda>(_, y). Ret (y, s2))"
proof -
  let ?vs = "[0, 0, 0, 0, 0, 111]" and ?ua = "dots [0, 0, 0, 0, 0, 111] @ [0]"
  have "scan_dots 6 (cstr ?ua) = Some [0, 0, 0, 0, 0, 111]"
  proof -
    have "cstr ?ua = dots ?vs" using dots_no_nul [of ?vs] by (simp del: dots.simps)
    moreover have "length (?vs :: int list) = 6" by simp
    ultimately show ?thesis using scan_dots_dots [of ?vs] by (simp del: dots.simps scan_dots.simps list.size)
  qed
  moreover have "(if pm_prot nfs = 17 then udp_uaddr demo_pmap_env else tcp_uaddr demo_pmap_env) = Some ?ua"
    by (simp add: nfs_def demo_pmap_env_def del: dots.simps)
  moreover have "db_ok (demo_db [])" "5 \<le> db_heap (demo_db [])" "pm_prot nfs = 17 \<or> pm_prot nfs = 6"
    by (simp_all add: nfs_def)
  moreover have port: "pm_port nfs AND 0xffff = 2049" by (simp add: nfs_def)
  moreover have "\<forall>p \<in> set (list_pml (demo_db [])). \<not> (pm_prog p = pm_prog nfs \<and> pm_vers p = pm_vers nfs \<and> pm_prot p = pm_prot nfs)"
    by simp
  moreover have "check_access demo_pmap_env (demo_serv nfs) (xp_rtaddr demo_local) 1 = Ret True"
    by (simp only: demo_access)
  ultimately obtain s1 where s1: "pmap_service demo_pmap_env (demo_serv nfs) nfs 1 demo_local (demo_db []) =
        run_bind (sendreply (demo_serv nfs) (Res_long 1) demo_local) (\<lambda>(_, x). Ret (x, s1))"
    and get: "\<forall>junk' y y1 q. svc_getargs (demo_serv nfs) (Arg_pmap junk') y = (True, Arg_pmap q, y1) \<longrightarrow>
        check_access demo_pmap_env (demo_serv nfs) (xp_rtaddr y1) 3 = Ret True \<longrightarrow>
        pm_prog q = pm_prog nfs \<longrightarrow> pm_vers q = pm_vers nfs \<longrightarrow> pm_prot q = pm_prot nfs \<longrightarrow>
        (\<exists>s2. pmap_service demo_pmap_env (demo_serv nfs) junk' 3 y s1 =
           run_bind (sendreply (demo_serv nfs) (Res_long 2049) y1) (\<lambda>(_, y). Ret (y, s2)))"
    using pmap_set_then_getport [where s = "demo_db []" and env = demo_pmap_env and reg = nfs and ua = ?ua and hs = ?vs
        and sv = "demo_serv nfs" and junk = nfs and x = demo_local, OF _ _ demo_trans(2,1) _ demo_trans(3) _ _ _ demo_getargs]
    unfolding port by blast
  obtain x1 where "sendreply (demo_serv nfs) (Res_long 1) demo_local = Ret (True, x1)" using demo_send by blast
  moreover have "\<exists>s2. pmap_service demo_pmap_env (demo_serv nfs) nfs 3 demo_local s1 =
       run_bind (sendreply (demo_serv nfs) (Res_long 2049) demo_local) (\<lambda>(_, y). Ret (y, s2))"
    using get demo_getargs [of nfs "Arg_pmap nfs" demo_local] demo_access(2) [of nfs 3] by (simp only: demo_access(1))
  ultimately show ?thesis using s1 by simp
qed

end
