(* ===== verification/Rpcb_Forward.thy ===== *)
theory Rpcb_Forward
  imports Rpcb_Serv
begin

text \<open>
  Forwarding calls: \<open>rpcbproc_callit_com\<close> of \<open>rpcbind/rpcb_svc_com.c\<close> sends a call on to the service it
  is for, remembers the caller in the table \<open>FINFO\<close>, and \<open>handle_reply\<close> later sends the reply back to the
  caller. The number of a forwarded call names the slot it is remembered in. Both ends are datagram
  transports (\<open>Svc_Dg\<close>).

  The main facts: the number of every call that waits names its slot and is not 0, so no two of them
  are the same; a reply goes to the caller of the call it answers, under the caller's number and with
  the results as they came; and forwarding leaves the registrations alone.
\<close>

section \<open>The table\<close>

abbreviation (input) NFORWARD :: u32 where "NFORWARD \<equiv> 64"
abbreviation (input) MAXTIME_OFF :: int where "MAXTIME_OFF \<equiv> 300"

definition upd_fwd :: "(forwards \<Rightarrow> forwards) \<Rightarrow> rpcb_db \<Rightarrow> rpcb_db" where
  "upd_fwd f s = s\<lparr>db_fwd := f (db_fwd s)\<rparr>"

abbreviation FINFO :: "rpcb_db \<Rightarrow> finfo list" where
  "FINFO s \<equiv> fw_table (db_fwd s)"

definition upd_slot :: "nat \<Rightarrow> (finfo \<Rightarrow> finfo) \<Rightarrow> rpcb_db \<Rightarrow> rpcb_db" where
  "upd_slot i f s = upd_fwd (\<lambda>w. w\<lparr>fw_table := (fw_table w)[i := f (fw_table w ! i)]\<rparr>) s"

definition netbufcmp :: "byte list \<Rightarrow> byte list \<Rightarrow> bool" where
  "netbufcmp n1 n2 \<longleftrightarrow> length n1 \<noteq> length n2 \<or> n1 \<noteq> n2"

text \<open>A buffer once allocated is as large as any address: \<open>maxlen\<close> is that of the source.\<close>

definition netbuf_copybuf :: "byte list option \<Rightarrow> byte list \<Rightarrow> nat \<Rightarrow> bool \<times> byte list option \<times> nat" where
  "netbuf_copybuf dst src heap =
     (case dst of Some _ \<Rightarrow> (True, Some src, heap)
      | None \<Rightarrow> if heap = 0 then (False, None, heap) else (True, Some src, heap - 1))"

definition netbufdup :: "byte list \<Rightarrow> nat \<Rightarrow> byte list option \<times> nat" where
  "netbufdup ap heap =
     (if heap = 0 then (None, heap)
      else case netbuf_copybuf None ap (heap - 1) of (ok, np, h) \<Rightarrow> if ok then (np, h) else (None, heap))"

definition free_slot_by_index :: "nat \<Rightarrow> rpcb_db \<Rightarrow> bool \<times> rpcb_db" where
  "free_slot_by_index idx s =
     (let fi = FINFO s ! idx in
      if \<not> fi_active fi then (False, s)
      else (True, upd_slot idx (fi_active_update (\<lambda>_. False))
        (upd_fwd (\<lambda>w. w\<lparr>fw_fdmax := (if fi_forward_fd fi \<ge> fw_fdmax w then fw_fdmax w - 1 else fw_fdmax w),
                         fw_rmtcalls := fw_rmtcalls w - 1\<rparr>)
          (s\<lparr>db_heap := db_heap s + 2 + freed (fi_uaddr fi)\<rparr>))))"

definition free_slot_by_xid :: "u32 \<Rightarrow> rpcb_db \<Rightarrow> bool \<times> rpcb_db" where
  "free_slot_by_xid xid s = free_slot_by_index (unat (xid mod NFORWARD)) s"

definition forward_find :: "u32 \<Rightarrow> rpcb_db \<Rightarrow> finfo option" where
  "forward_find reply_xid s =
     (let fi = FINFO s ! unat (reply_xid mod NFORWARD) in
      if fi_active fi \<and> fi_forward_xid fi = reply_xid then Some fi else None)"

text \<open>
  The walk over the slots: \<open>None\<close> when the request is there already, otherwise the first slot that is
  free and the one with the earliest time. The clock stands still during a request.
\<close>

definition same_request :: "u32 \<Rightarrow> byte list \<Rightarrow> u32 \<Rightarrow> u32 \<Rightarrow> finfo \<Rightarrow> bool" where
  "same_request caller_xid caller_addr reply_type versnum fi \<longleftrightarrow>
     fi_caller_xid fi = caller_xid \<and> fi_reply_type fi = reply_type \<and> fi_versnum fi = versnum \<and>
     \<not> netbufcmp (fi_caller_addr fi) caller_addr"

fun forward_scan ::
  "(finfo \<Rightarrow> bool) \<Rightarrow> int \<Rightarrow> nat list \<Rightarrow> nat option \<Rightarrow> nat \<Rightarrow> int \<Rightarrow> rpcb_db \<Rightarrow> (nat option \<times> nat) option \<times> rpcb_db" where
  "forward_scan same now [] slot j min_time s = (Some (slot, j), s)"
| "forward_scan same now (i # is) slot j min_time s =
     (let fi = FINFO s ! i in
      if fi_active fi \<and> same fi then (None, upd_slot i (fi_time_update (\<lambda>_. now)) s)
      else let s = (if fi_active fi \<and> now - fi_time fi > MAXTIME_OFF then snd (free_slot_by_index i s) else s);
               fi = FINFO s ! i in
      if slot \<noteq> None then forward_scan same now is slot j min_time s
      else if \<not> fi_active fi then forward_scan same now is (Some i) j min_time s
      else if fi_time fi < min_time then forward_scan same now is slot i (fi_time fi) s
      else forward_scan same now is slot j min_time s)"

text \<open>The number of the next call, without the slot.\<close>

definition next_xid :: "u32 \<Rightarrow> u32" where
  "next_xid lastxid = (let x = lastxid + NFORWARD in if x + NFORWARD \<le> NFORWARD then NFORWARD else x)"

definition forward_register ::
  "int \<Rightarrow> u32 \<Rightarrow> byte list \<Rightarrow> int \<Rightarrow> byte list option \<Rightarrow> u32 \<Rightarrow> u32 \<Rightarrow> u32 \<Rightarrow> rpcb_db \<Rightarrow> int \<times> u32 \<times> rpcb_db" where
  "forward_register now caller_xid caller_addr forward_fd uaddr reply_type versnum callxid s =
     (let min_time = fi_time (FINFO s ! 0);
          s = (if fw_lastxid (db_fwd s) = 0 then upd_fwd (fw_lastxid_update (\<lambda>_. of_int (now * 64))) s else s) in
      case forward_scan (same_request caller_xid caller_addr reply_type versnum) now [0..<64] None 0 min_time s of
        (None, s) \<Rightarrow> (0, callxid, s)
      | (Some (slot, j), s) \<Rightarrow>
          (case (case slot of Some e \<Rightarrow> (e, s) | None \<Rightarrow> (j, snd (free_slot_by_index j s))) of (j, s) \<Rightarrow>
           case netbufdup caller_addr (db_heap s) of
             (None, heap) \<Rightarrow> (- 1, callxid, s\<lparr>db_heap := heap\<rparr>)
           | (Some addr, heap) \<Rightarrow>
               let lastxid = next_xid (fw_lastxid (db_fwd s)); xid = lastxid + of_nat j in
               (1, xid, upd_slot j (\<lambda>_. \<lparr>fi_active = True, fi_caller_xid = caller_xid, fi_caller_addr = addr,
                    fi_forward_xid = xid, fi_forward_fd = forward_fd, fi_uaddr = uaddr, fi_reply_type = reply_type,
                    fi_versnum = versnum, fi_time = now\<rparr>)
                 (upd_fwd (\<lambda>w. w\<lparr>fw_rmtcalls := fw_rmtcalls w + 1, fw_lastxid := lastxid\<rparr>) (s\<lparr>db_heap := heap\<rparr>)))))"

section \<open>The transports to forward on\<close>

text \<open>
  \<open>fd\<close> and \<open>p\<close> are what \<open>__rpc_nconf2fd\<close> and \<open>svc_tli_create\<close> return.
\<close>

definition create_rmtcall_fd ::
  "netconfig \<Rightarrow> int \<Rightarrow> nat option \<Rightarrow> 't svc \<Rightarrow> rpcb_db \<Rightarrow> (int \<times> 't svc \<times> rpcb_db) run" where
  "create_rmtcall_fd nconf fd p sv s =
     (if fd = - 1 then Ret (- 1, sv, s)
      else case p of None \<Rightarrow> Ret (- 1, sv, s)
      | Some p \<Rightarrow>
          if db_heap s = 0 then Ret (- 1, sv, s)
          else case strdup (nc_netid nconf) (db_heap s - 1) of (netid, heap) \<Rightarrow>
          (case svc_mem sv p of None \<Rightarrow> Fault
           | Some x \<Rightarrow>
               run_bind (of_option (svc_fdset_set fd (svc_fds sv))) (\<lambda>(_, fds).
                 Ret (fd, sv\<lparr>svc_mem := (svc_mem sv)(p \<mapsto> x\<lparr>xp_netid := netid\<rparr>), svc_fds := fds\<rparr>,
                   upd_fwd (\<lambda>w. w\<lparr>fw_rmthead := fw_rmthead w @ [(fd, netid, p)]\<rparr>) (s\<lparr>db_heap := heap\<rparr>)))))"

fun find_rmtcallfd_by_netid :: "byte list \<Rightarrow> (int \<times> byte list option \<times> nat) list \<Rightarrow> int run" where
  "find_rmtcallfd_by_netid netid [] = Ret (- 1)"
| "find_rmtcallfd_by_netid netid ((fd, n, _) # rmts) =
     (case n of None \<Rightarrow> Fault | Some n \<Rightarrow> if strcmp_eq netid n then Ret fd else find_rmtcallfd_by_netid netid rmts)"

fun find_rmtcallxprt_by_fd :: "int \<Rightarrow> (int \<times> byte list option \<times> nat) list \<Rightarrow> nat option" where
  "find_rmtcallxprt_by_fd fd [] = None"
| "find_rmtcallxprt_by_fd fd ((fd', _, p) # rmts) = (if fd = fd' then Some p else find_rmtcallxprt_by_fd fd rmts)"

section \<open>Forwarding a call\<close>

text \<open>
  What a request is run with: the time; what \<open>__rpc_fd2sockinfo\<close>, \<open>local_sa\<close> and \<open>sendto\<close> say; the buffer
  the call is built in, with its address; what the structures on the stack hold; the null
  authenticator so far; and the buffers of a Unix one.
\<close>

record fwd_env =
  fe_now :: int
  fe_sockinfo :: "int \<Rightarrow> sockinfo option"
  fe_local_sa :: "family \<Rightarrow> byte list option"
  fe_sendto :: "int \<Rightarrow> byte list \<Rightarrow> byte list \<Rightarrow> int"
  fe_outbuf :: "u64 \<times> byte list"
  fe_args :: r_rmtcall_args
  fe_msg :: "(xdr_mem, rpcb_result) rpc_msg"
  fe_none :: "authnone option"
  fe_mymem :: "u64 \<times> byte list"
  fe_marsh :: u64

type_synonym dg_serv = "(svc_dg_data, xdr_mem) rpcb_serv"

text \<open>
  The credentials of the forwarded call: those of the caller, where they are none or Unix ones. The
  outcome is the stream, or why there is none.
\<close>

datatype marshalling = Unsupported | No_auth | Marshalled bool "xdr_mem XDR" nat

definition marshal_none :: "fwd_env \<Rightarrow> xdr_mem XDR \<Rightarrow> nat \<Rightarrow> marshalling" where
  "marshal_none fe x heap =
     (case authnone_create (fst (fe_mymem fe)) (heap \<noteq> 0) (fe_none fe) of None \<Rightarrow> No_auth
      | Some ap \<Rightarrow> (case authnone_marshal (Some ap) x of (ok, x) \<Rightarrow> Marshalled ok x heap))"

definition marshal_caller :: "fwd_env \<Rightarrow> opaque_auth \<Rightarrow> authunix_parms \<Rightarrow> xdr_mem XDR \<Rightarrow> nat \<Rightarrow> marshalling run" where
  "marshal_caller fe cred au x heap =
     (if oa_flavor cred = AUTH_NULL then Ret (marshal_none fe x heap)
      else if oa_flavor cred = AUTH_SYS
      then (case authunix_create (fst (fe_mymem fe)) (fe_marsh fe) (snd (fe_mymem fe)) (of_int (fe_now fe))
              (deref (aup_machname au)) (aup_uid au) (aup_gid au) (aup_len au) (case aup_gids au of None \<Rightarrow> [] | Some g \<Rightarrow> g) heap of
              Aborted \<Rightarrow> Fault
            | Out_of_memory heap \<Rightarrow> Ret (marshal_none fe x heap)
            | Created a \<Rightarrow> (case authunix_marshal a x of (ok, x) \<Rightarrow> Ret (Marshalled ok x (authunix_destroy a))))
      else Ret Unsupported)"

text \<open>How sending ends: it is sent, or the caller is told of a weak authentication or of a system error.\<close>

datatype sending = Sent | Weak_auth | System_error

definition forward_call ::
  "rpcb_env \<Rightarrow> fwd_env \<Rightarrow> opaque_auth \<Rightarrow> authunix_parms \<Rightarrow> r_rmtcall_args \<Rightarrow> u32 \<Rightarrow> u32 \<Rightarrow> netconfig \<Rightarrow> int \<Rightarrow> byte list option \<Rightarrow>
     rpcb_db \<Rightarrow> (sending \<times> rpcb_db) run" where
  "forward_call env fe cred au a sendsz xid nconf fd local_uaddr s =
     (let m = (fe_msg fe)\<lparr>rm_xid := xid, rm_direction := CALL,
            rm_call := (rm_call (fe_msg fe))\<lparr>cb_rpcvers := RPC_MSG_VERSION, cb_prog := rmt_prog a, cb_vers := rmt_vers a\<rparr>\<rparr>;
          x = xdrmem_create (fst (fe_outbuf fe)) (snd (fe_outbuf fe)) sendsz XDR_ENCODE (db_heap s) in
      case xdr_callhdr m x of (ok, _, x) \<Rightarrow>
      if \<not> ok then Ret (System_error, s)
      else case xdr_u_int32_t (rmt_proc a) x of (ok, _, x) \<Rightarrow>
      if \<not> ok then Ret (System_error, s)
      else run_bind (marshal_caller fe cred au x (db_heap s)) (\<lambda>r. case r of
        Unsupported \<Rightarrow> Ret (Weak_auth, s)
      | No_auth \<Rightarrow> Ret (System_error, s)
      | Marshalled ok x heap \<Rightarrow>
          let s = s\<lparr>db_heap := heap\<rparr> in
          if \<not> ok then Ret (System_error, s)
          else case xdr_opaque_parms a x of (ok, _, x) \<Rightarrow>
          if \<not> ok then Ret (System_error, s)
          else let outlen = unat (XDR_GETPOS x); out = take outlen (xm_buf (x_private x)) in
          case uaddr2taddr (win32 env) (pton6 env) (junk_netbuf env) nconf local_uaddr heap of
            (None, heap) \<Rightarrow> Ret (System_error, s\<lparr>db_heap := heap\<rparr>)
          | (Some na, heap) \<Rightarrow>
              let sa = take (unat (nb_len na)) (deref (nb_buf na));
                  s = upd_fwd (fw_sent_update ((#) (fd, out, sa))) (s\<lparr>db_heap := heap + 1 + freed (nb_buf na)\<rparr>) in
              Ret (if fe_sendto fe fd out sa = int outlen then Sent else System_error, s)))"

text \<open>Looking up the service, with the answer when there is none; \<open>INDIRECT\<close> is procedure 10.\<close>

abbreviation (input) RPCBPROC_INDIRECT :: u32 where "RPCBPROC_INDIRECT \<equiv> 10"

definition callit_service ::
  "rpcb_env \<Rightarrow> dg_serv \<Rightarrow> u32 \<Rightarrow> r_rmtcall_args \<Rightarrow> dg_xprt \<Rightarrow> RPCB option \<Rightarrow> rpcb_db \<Rightarrow> (RPCB option \<times> dg_xprt \<times> rpcb_db) run" where
  "callit_service env sv reply_type a x rbl s =
     (let complain = (\<lambda>e s. if reply_type = RPCBPROC_INDIRECT then run_bind (e x) (\<lambda>x. Ret (None, x, s)) else Ret (None, x, s)) in
      case rbl of None \<Rightarrow> complain (svcerr_noprog (rs_ops sv) (rs_junk sv)) s
      | Some rbl \<Rightarrow>
          if r_vers rbl \<noteq> rmt_vers a
          then (case find_versions (rmt_prog a) (deref (xp_netid x)) (list_rbl s) of (low, high) \<Rightarrow>
                complain (svcerr_progvers (rs_ops sv) (rs_junk sv) low high) s)
          else if reply_type = RPCBPROC_INDIRECT
          then run_bind (mergeaddr env (caller sv x) (deref (xp_netid x)) (deref (r_addr rbl)) None s) (\<lambda>(m, s).
            case m of SEmpty \<Rightarrow> Fault
            | SNull \<Rightarrow> complain (svcerr_noprog (rs_ops sv) (rs_junk sv)) s
            | SHeap u \<Rightarrow>
                let s = s\<lparr>db_heap := db_heap s + 1\<rparr> in
                if cstr u = [] then complain (svcerr_noprog (rs_ops sv) (rs_junk sv)) s
                else Ret (Some rbl, x, s))
          else Ret (Some rbl, x, s))"

text \<open>
  Whatever the protocol, \<open>sendsz\<close> comes to 8800: it is at most \<open>RPC_BUF_MAX\<close>, so that the buffers on the
  stack are used, and never 0. Without a caller's address its family cannot be read.
\<close>

definition callit_size :: "sockinfo \<Rightarrow> u32" where
  "callit_size si = ((rpc_get_t_size (int (si_proto si)) 8800 + 3) div 4) * 4"

definition callit_forward ::
  "rpcb_env \<Rightarrow> fwd_env \<Rightarrow> dg_serv \<Rightarrow> opaque_auth \<Rightarrow> authunix_parms \<Rightarrow> u32 \<Rightarrow> u32 \<Rightarrow> r_rmtcall_args \<Rightarrow> u32 \<Rightarrow> RPCB \<Rightarrow>
     dg_xprt \<Rightarrow> rpcb_db \<Rightarrow> (dg_xprt \<times> rpcb_db) run" where
  "callit_forward env fe sv cred au reply_type versnum a sendsz rbl x s =
     (let complain = (\<lambda>e s. if reply_type = RPCBPROC_INDIRECT then run_bind (e (rs_ops sv) (rs_junk sv) x) (\<lambda>x. Ret (x, s)) else Ret (x, s));
          serv = deref (r_addr rbl) in
      case rpcbind_get_conf (deref (xp_netid x)) s of None \<Rightarrow> complain svcerr_systemerr s
      | Some nconf \<Rightarrow>
      case xp_rtaddr x of None \<Rightarrow> Fault
      | Some sa \<Rightarrow>
      case fe_local_sa fe (sa_family sa) of None \<Rightarrow> Ret (x, s)
      | Some localsa \<Rightarrow>
      run_bind (addrmerge env (Some (take (socklen_sockaddr localsa) localsa)) serv None (nc_netid nconf) (db_heap s)) (\<lambda>(local_uaddr, heap).
      run_bind (addrmerge env (Some sa) serv None (nc_netid nconf) heap) (\<lambda>(m_uaddr, heap).
      let s = s\<lparr>db_heap := heap\<rparr>; out = (\<lambda>s. s\<lparr>db_heap := db_heap s + freed local_uaddr\<rparr>);
          free_m = (\<lambda>s. s\<lparr>db_heap := db_heap s + freed m_uaddr\<rparr>) in
      run_bind (find_rmtcallfd_by_netid (nc_netid nconf) (fw_rmthead (db_fwd s))) (\<lambda>fd.
      if fd = - 1 then complain svcerr_systemerr (free_m (out s))
      else case forward_register (fe_now fe) (su_xid (xp_p1 x)) sa fd m_uaddr reply_type versnum 0 s of (r, xid, s) \<Rightarrow>
      if r \<noteq> 1 then Ret (x, free_m (out s))
      else run_bind (forward_call env fe cred au a sendsz xid nconf fd local_uaddr s) (\<lambda>(e, s).
        case e of Sent \<Rightarrow> Ret (x, out s)
        | Weak_auth \<Rightarrow> complain svcerr_weakauth (out (snd (free_slot_by_xid xid s)))
        | System_error \<Rightarrow> complain svcerr_systemerr (out (snd (free_slot_by_xid xid s))))))))"

definition rpcbproc_callit_com ::
  "rpcb_env \<Rightarrow> fwd_env \<Rightarrow> dg_serv \<Rightarrow> opaque_auth \<Rightarrow> authunix_parms \<Rightarrow> u32 \<Rightarrow> u32 \<Rightarrow> dg_xprt \<Rightarrow> rpcb_db \<Rightarrow> (dg_xprt \<times> rpcb_db) run" where
  "rpcbproc_callit_com env fe sv cred au reply_type versnum x s =
     (let complain = (\<lambda>e x. if reply_type = RPCBPROC_INDIRECT then run_bind (e (rs_ops sv) (rs_junk sv) x) (\<lambda>x. Ret (x, s)) else Ret (x, s)) in
      case fe_sockinfo fe (xp_fd x) of None \<Rightarrow> complain svcerr_systemerr x
      | Some si \<Rightarrow>
      if si_socktype si \<noteq> 2 then Ret (x, s)
      else case svc_getargs sv (Arg_rmtcall (fe_args fe)) x of (ok, arg, x) \<Rightarrow>
      if \<not> ok then complain svcerr_decode x
      else let a = (case arg of Arg_rmtcall a \<Rightarrow> a | _ \<Rightarrow> fe_args fe) in
      if \<not> check_callit env (rmt_prog a) (rmt_proc a)
      then run_bind (svcerr_weakauth (rs_ops sv) (rs_junk sv) x) (\<lambda>x. Ret (x, s))
      else let rbl = find_service (rmt_prog a) (rmt_vers a) (deref (xp_netid x)) (list_rbl s);
               s = rpcbs_rmtcall (versnum - 2) reply_type (rmt_prog a) (rmt_vers a) (rmt_proc a) (deref (xp_netid x)) rbl s in
      run_bind (callit_service env sv reply_type a x rbl s) (\<lambda>(rbl, x, s).
        case rbl of None \<Rightarrow> Ret (x, s)
        | Some rbl \<Rightarrow> callit_forward env fe sv cred au reply_type versnum a (callit_size si) rbl x s))"

section \<open>The reply\<close>

definition xprt_set_caller :: "finfo \<Rightarrow> dg_xprt \<Rightarrow> rpcb_db \<Rightarrow> dg_xprt \<times> rpcb_db" where
  "xprt_set_caller fi x s =
     (case netbuf_copybuf (xp_rtaddr x) (fi_caller_addr fi) (db_heap s) of (_, addr, heap) \<Rightarrow>
        (x\<lparr>xp_rtaddr := addr, xp_p1 := (xp_p1 x)\<lparr>su_xid := fi_caller_xid fi\<rparr>\<rparr>, s\<lparr>db_heap := heap\<rparr>))"

definition send_svcsyserr :: "dg_serv \<Rightarrow> finfo \<Rightarrow> dg_xprt \<Rightarrow> rpcb_db \<Rightarrow> (dg_xprt \<times> rpcb_db) run" where
  "send_svcsyserr sv fi x s =
     (if fi_reply_type fi = RPCBPROC_INDIRECT
      then case xprt_set_caller fi x s of (x, s) \<Rightarrow>
        run_bind (svcerr_systemerr (rs_ops sv) (rs_junk sv) x) (\<lambda>x. Ret (x, s))
      else Ret (x, s))"

text \<open>
  \<open>ev\<close> are the answers of \<open>recvfrom\<close>, \<open>blk\<close> is the buffer that is allocated and \<open>junk\<close> what the reply on
  the stack holds: its number decides which slot is freed on the early exits. The address of the service
  is read as a string, so it must be there.
\<close>

definition reply_area :: "(xdr_mem, rpcb_result) rpc_msg \<Rightarrow> (xdr_mem, rpcb_result) rpc_msg" where
  "reply_area junk = junk\<lparr>rm_reply := (rm_reply junk)\<lparr>rp_acpt := (rp_acpt (rm_reply junk))\<lparr>ar_verf := null_auth,
     ar_results_where := Res_void, ar_results_proc := xdr_void\<rparr>\<rparr>\<rparr>"

definition reply_done :: "u32 \<Rightarrow> rpcb_db \<Rightarrow> rpcb_db" where
  "reply_done xid s = (if xid = 0 then s else snd (free_slot_by_xid xid s))"

definition forward_reply ::
  "dg_serv \<Rightarrow> (xdr_mem, rpcb_result) rpc_msg \<Rightarrow> rpc_err \<Rightarrow> xdr_mem XDR \<Rightarrow> nat \<Rightarrow> finfo \<Rightarrow> dg_xprt \<Rightarrow> rpcb_db \<Rightarrow>
     (dg_xprt \<times> rpcb_db) run" where
  "forward_reply sv msg err xd inlen fi x s =
     (if re_status (seterr_reply msg err) \<noteq> RPC_SUCCESS then send_svcsyserr sv fi x s
      else let pos = unat (XDR_GETPOS xd);
               a = \<lparr>rmt_prog = 0, rmt_vers = 0, rmt_proc = 0, rmt_localvers = sint (fi_versnum fi), rmt_uaddr = deref (fi_uaddr fi),
                    rmt_args = (Some (drop pos (xm_buf (x_private xd))), of_nat inlen - XDR_GETPOS xd)\<rparr> in
      case xprt_set_caller fi x s of (x, s) \<Rightarrow>
      if fi_uaddr fi = None then Fault
      else run_bind (sendreply sv (Res_rmtcall a) x) (\<lambda>(_, x). Ret (x, s)))"

definition handle_reply ::
  "nat \<Rightarrow> (nat \<Rightarrow> dg_event) \<Rightarrow> u64 \<times> byte list \<Rightarrow> (xdr_mem, rpcb_result) rpc_msg \<Rightarrow> rpc_err \<Rightarrow> dg_serv \<Rightarrow> dg_xprt \<Rightarrow> rpcb_db \<Rightarrow>
     (dg_xprt \<times> rpcb_db) run" where
  "handle_reply fuel ev blk junk err sv x s =
     (if db_heap s = 0 then Ret (x, reply_done (rm_xid junk) s)
      else run_bind (dg_recvfrom fuel 0 ev) (\<lambda>e. case e of
        Datagram bs _ \<Rightarrow>
          let bs = take 65536 bs;
              xd = xdrmem_create (fst blk) (store 0 bs (snd blk)) (of_nat (length bs)) XDR_DECODE (db_heap s - 1) in
          case xdr_replymsg (reply_area junk) xd of (ok, msg, xd) \<Rightarrow>
          let s = s\<lparr>db_heap := x_mem xd\<rparr>; fin = (\<lambda>s. reply_done (rm_xid msg) (s\<lparr>db_heap := db_heap s + 1\<rparr>)) in
          if \<not> ok then Ret (x, fin s)
          else (case forward_find (rm_xid msg) s of None \<Rightarrow> Ret (x, fin s)
            | Some fi \<Rightarrow> run_bind (forward_reply sv msg err xd (length bs) fi x s) (\<lambda>(x, s). Ret (x, fin s)))
      | _ \<Rightarrow> Ret (x, reply_done (rm_xid junk) s)))"

text \<open>
  The descriptors that are ready, among them those that calls were forwarded on; \<open>reply\<close> is
  \<open>handle_reply\<close> on a transport of the memory \<open>mem\<close>.
\<close>

fun check_rmtcalls_from ::
  "(int \<Rightarrow> nat \<Rightarrow> 'm \<Rightarrow> rpcb_db \<Rightarrow> ('m \<times> rpcb_db) run) \<Rightarrow> int \<Rightarrow> (int \<times> bool) list \<Rightarrow> int \<Rightarrow> 'm \<Rightarrow> rpcb_db \<Rightarrow>
     (int \<times> (int \<times> bool) list \<times> 'm \<times> rpcb_db) run" where
  "check_rmtcalls_from reply npend [] found mem s = Ret (found, [], mem, s)"
| "check_rmtcalls_from reply npend ((fd, ready) # pfds) found mem s =
     (case find_rmtcallxprt_by_fd fd (fw_rmthead (db_fwd s)) of
        Some p \<Rightarrow>
          if ready
          then run_bind (reply fd p mem s) (\<lambda>(mem, s).
            if found + 1 \<ge> npend then Ret (found + 1, (fd, False) # pfds, mem, s)
            else run_bind (check_rmtcalls_from reply npend pfds (found + 1) mem s) (\<lambda>(n, pfds, mem, s).
              Ret (n, (fd, False) # pfds, mem, s)))
          else run_bind (check_rmtcalls_from reply npend pfds found mem s) (\<lambda>(n, pfds, mem, s).
              Ret (n, (fd, ready) # pfds, mem, s))
      | None \<Rightarrow> run_bind (check_rmtcalls_from reply npend pfds found mem s) (\<lambda>(n, pfds, mem, s).
              Ret (n, (fd, ready) # pfds, mem, s)))"

definition check_rmtcalls ::
  "(int \<Rightarrow> nat \<Rightarrow> 'm \<Rightarrow> rpcb_db \<Rightarrow> ('m \<times> rpcb_db) run) \<Rightarrow> (int \<times> bool) list \<Rightarrow> 'm \<Rightarrow> rpcb_db \<Rightarrow>
     (int \<times> (int \<times> bool) list \<times> 'm \<times> rpcb_db) run" where
  "check_rmtcalls reply pfds mem s =
     (if fw_rmtcalls (db_fwd s) = 0 then Ret (0, pfds, mem, s)
      else check_rmtcalls_from reply (fw_rmtcalls (db_fwd s)) pfds 0 mem s)"

section \<open>What forwarding leaves alone\<close>

lemma upd_fwd_simps [simp]:
  "regs (upd_fwd f s) = regs s" "list_rbl (upd_fwd f s) = list_rbl s" "db_heap (upd_fwd f s) = db_heap s"
  "db_fwd (upd_fwd f s) = f (db_fwd s)" "fdhead (upd_fwd f s) = fdhead s"
  by (simp_all add: upd_fwd_def regs_def)

lemma upd_slot_simps [simp]:
  "regs (upd_slot i f s) = regs s" "db_heap (upd_slot i f s) = db_heap s"
  "db_fwd (upd_slot i f s) = (db_fwd s)\<lparr>fw_table := (FINFO s)[i := f (FINFO s ! i)]\<rparr>"
  by (simp_all add: upd_slot_def)

lemma free_slot_regs [simp]: "regs (snd (free_slot_by_index i s)) = regs s" "regs (snd (free_slot_by_xid xid s)) = regs s"
proof -
  show "regs (snd (free_slot_by_index i s)) = regs s" for i by (simp add: free_slot_by_index_def Let_def)
  then show "regs (snd (free_slot_by_xid xid s)) = regs s" by (simp add: free_slot_by_xid_def)
qed

lemma reply_done_regs [simp]: "regs (reply_done xid s) = regs s"
  by (simp add: reply_done_def)

lemma forward_scan_regs: "forward_scan same now is slot j m s = (r, s') \<Longrightarrow> regs s' = regs s"
  by (induction same now "is" slot j m s rule: forward_scan.induct) (auto simp: Let_def split: if_splits)

lemma forward_register_regs: "forward_register now xid addr fd u rt v cx s = (r, x, s') \<Longrightarrow> regs s' = regs s"
  by (auto simp: forward_register_def Let_def split: prod.splits option.splits if_splits dest!: forward_scan_regs)

lemma rpcbs_rmtcall_fields:
  "regs (rpcbs_rmtcall t p prog vers proc n rbl s) = regs s" "db_fwd (rpcbs_rmtcall t p prog vers proc n rbl s) = db_fwd s"
  by (simp_all add: rpcbs_rmtcall_def upd_stat_def regs_def Let_def split: prod.split option.split)

section \<open>The numbers of the calls\<close>

definition fwd_ok :: "forwards \<Rightarrow> bool" where
  "fwd_ok w \<longleftrightarrow> length (fw_table w) = 64 \<and> fw_lastxid w mod 64 = 0 \<and>
     (\<forall>i < 64. fi_active (fw_table w ! i) \<longrightarrow>
        fi_forward_xid (fw_table w ! i) mod 64 = of_nat i \<and> fi_forward_xid (fw_table w ! i) \<noteq> 0) \<and>
     fw_rmtcalls w = int (length (filter fi_active (fw_table w)))"

lemma u32_mod_64: "unat (x mod 64 :: u32) = unat x mod 64"
  by (simp add: unat_mod)

lemma add_mod_64: "(x + y) mod 64 = (x mod 64 + y mod 64) mod (64 :: u32)"
proof -
  have "unat ((x + y) mod 64) = (unat x + unat y) mod 64"
    by (simp add: u32_mod_64 unat_word_ariths mod_mod_cancel)
  moreover have "unat ((x mod 64 + y mod 64) mod 64) = (unat x + unat y) mod 64"
    by (simp add: u32_mod_64 unat_word_ariths mod_mod_cancel mod_add_eq)
  ultimately show ?thesis by (simp add: word_unat_eq_iff)
qed

lemma next_xid_ok:
  assumes "x mod 64 = 0"
  shows "next_xid x mod 64 = 0" and "next_xid x \<noteq> 0"
proof -
  show "next_xid x mod 64 = 0" using assms add_mod_64 [of x 64] by (simp add: next_xid_def Let_def)
  show "next_xid x \<noteq> 0"
  proof (cases "x + 64 = 0")
    case True
    have e: "x + 64 + 64 = 64" unfolding True by simp
    show ?thesis unfolding next_xid_def Let_def e by simp
  qed (simp add: next_xid_def Let_def)
qed

lemma slot_xid:
  fixes x :: u32
  assumes "x mod 64 = 0" and "x \<noteq> 0" and "j < 64"
  shows "(x + of_nat j) mod 64 = of_nat j" and "x + of_nat j \<noteq> 0"
proof -
  have j: "unat (of_nat j :: u32) = j" using assms(3) by (simp add: unat_of_nat take_bit_nat_eq_self)
  then have jm: "(of_nat j :: u32) mod 64 = of_nat j" using assms(3) by (simp add: word_unat_eq_iff u32_mod_64)
  then show m: "(x + of_nat j) mod 64 = of_nat j" using add_mod_64 [of x "of_nat j"] assms(1) by simp
  show "x + of_nat j \<noteq> 0"
  proof
    assume z: "x + of_nat j = 0"
    with m have "(of_nat j :: u32) = 0" by simp
    with z assms(2) show False by simp
  qed
qed

lemma count_update:
  assumes "i < length xs"
  shows "length (filter P (xs[i := y])) + (if P (xs ! i) then 1 else 0) = length (filter P xs) + (if P y then 1 else 0)"
proof -
  have "filter P xs = filter P (take i xs) @ filter P (xs ! i # drop (Suc i) xs)"
    using id_take_nth_drop [OF assms] by (metis filter_append)
  then have "length (filter P xs) = length (filter P (take i xs)) + (if P (xs ! i) then 1 else 0) + length (filter P (drop (Suc i) xs))"
    by simp
  moreover have "length (filter P (xs[i := y])) = length (filter P (take i xs)) + (if P y then 1 else 0) + length (filter P (drop (Suc i) xs))"
    using assms by (simp add: upd_conv_take_nth_drop)
  ultimately show ?thesis by simp
qed

lemma free_slot_fwd:
  "db_fwd (snd (free_slot_by_index i s)) =
    (if fi_active (FINFO s ! i)
     then (db_fwd s)\<lparr>fw_table := (FINFO s)[i := (FINFO s ! i)\<lparr>fi_active := False\<rparr>],
            fw_fdmax := (if fi_forward_fd (FINFO s ! i) \<ge> fw_fdmax (db_fwd s) then fw_fdmax (db_fwd s) - 1 else fw_fdmax (db_fwd s)),
            fw_rmtcalls := fw_rmtcalls (db_fwd s) - 1\<rparr>
     else db_fwd s)"
  by (simp add: free_slot_by_index_def Let_def)

lemma free_slot_ok: "fwd_ok (db_fwd s) \<Longrightarrow> i < 64 \<Longrightarrow> fwd_ok (db_fwd (snd (free_slot_by_index i s)))"
  using count_update [of i "FINFO s" fi_active "(FINFO s ! i)\<lparr>fi_active := False\<rparr>"]
  by (auto simp: free_slot_fwd fwd_ok_def nth_list_update)

lemma free_slot_active:
  "i < length (FINFO s) \<Longrightarrow> fi_active (FINFO (snd (free_slot_by_index i s)) ! k) = (k \<noteq> i \<and> fi_active (FINFO s ! k))"
  by (auto simp: free_slot_fwd nth_list_update)

lemma xid_slot: "unat (xid mod 64 :: u32) < 64"
  by (simp add: u32_mod_64)

lemma free_slot_by_xid_ok: "fwd_ok (db_fwd s) \<Longrightarrow> fwd_ok (db_fwd (snd (free_slot_by_xid xid s)))"
  unfolding free_slot_by_xid_def by (rule free_slot_ok [OF _ xid_slot])

lemma touch_ok: "fwd_ok (db_fwd s) \<Longrightarrow> i < 64 \<Longrightarrow> fwd_ok (db_fwd (upd_slot i (fi_time_update f) s))"
  using count_update [of i "FINFO s" fi_active "fi_time_update f (FINFO s ! i)"]
  by (auto simp: fwd_ok_def nth_list_update)

text \<open>The walk finds a slot that is free, or one to free.\<close>

lemma forward_scan_ok:
  assumes "forward_scan same now is slot j m s = (r, s')" and "fwd_ok (db_fwd s)" and "set is \<subseteq> {..<64}" and "j < 64"
    and "case slot of None \<Rightarrow> True | Some e \<Rightarrow> e < 64 \<and> \<not> fi_active (FINFO s ! e)"
  shows "fwd_ok (db_fwd s') \<and> (case r of None \<Rightarrow> True
    | Some (slot', j') \<Rightarrow> j' < 64 \<and> (case slot' of None \<Rightarrow> True | Some e \<Rightarrow> e < 64 \<and> \<not> fi_active (FINFO s' ! e)))"
  using assms
proof (induction same now "is" slot j m s rule: forward_scan.induct)
  case (1 same now slot j m s)
  then show ?case by auto
next
  case (2 same now i "is" slot j m s)
  let ?s = "if fi_active (FINFO s ! i) \<and> now - fi_time (FINFO s ! i) > MAXTIME_OFF then snd (free_slot_by_index i s) else s"
  show ?case
  proof (cases "fi_active (FINFO s ! i) \<and> same (FINFO s ! i)")
    case True
    then have "r = None" "s' = upd_slot i (fi_time_update (\<lambda>_. now)) s" using "2.prems"(1) by (simp_all add: Let_def)
    then show ?thesis using touch_ok [OF "2.prems"(2)] "2.prems"(3) by (auto simp del: upd_slot_simps)
  next
    case False
    have i: "i < 64" and l: "length (FINFO s) = 64" using "2.prems"(2,3) by (simp_all add: fwd_ok_def)
    have ok: "fwd_ok (db_fwd ?s)" using free_slot_ok [OF "2.prems"(2) i] "2.prems"(2) by simp
    have e: "case slot of None \<Rightarrow> True | Some e \<Rightarrow> e < 64 \<and> \<not> fi_active (FINFO ?s ! e)"
      using "2.prems"(5) free_slot_active [of i s] i l by (auto split: option.splits)
    note IH = "2.IH" [OF refl False refl refl]
    have sub: "set is \<subseteq> {..<64}" using "2.prems"(3) by simp
    consider "slot \<noteq> None" | "slot = None" "\<not> fi_active (FINFO ?s ! i)"
      | "slot = None" "fi_active (FINFO ?s ! i)" "fi_time (FINFO ?s ! i) < m"
      | "slot = None" "fi_active (FINFO ?s ! i)" "\<not> fi_time (FINFO ?s ! i) < m" by blast
    then show ?thesis
    proof cases
      case 1
      with "2.prems"(1) False have "forward_scan same now is slot j m ?s = (r, s')" by (simp add: Let_def)
      from IH(1) [OF 1 this ok sub "2.prems"(4) e] show ?thesis .
    next
      case 2
      with "2.prems"(1) False have "forward_scan same now is (Some i) j m ?s = (r, s')" by (simp add: Let_def)
      from IH(2) [OF _ _ this ok sub "2.prems"(4)] 2 i show ?thesis by simp
    next
      case 3
      with "2.prems"(1) False have "forward_scan same now is slot i (fi_time (FINFO ?s ! i)) ?s = (r, s')" by (simp add: Let_def)
      from IH(3) [OF _ _ _ this ok sub i e] 3 show ?thesis by simp
    next
      case 4
      with "2.prems"(1) False have "forward_scan same now is slot j m ?s = (r, s')" by (simp add: Let_def)
      from IH(4) [OF _ _ _ this ok sub "2.prems"(4) e] 4 show ?thesis by simp
    qed
  qed
qed

text \<open>What registering does: nothing but count the duplicate's time, or fill the slot its number names.\<close>

lemma forward_register_spec:
  assumes "forward_register now xid addr fd u rt v cx s = (r, x, s')" and "fwd_ok (db_fwd s)"
  shows "fwd_ok (db_fwd s') \<and> (r = 1 \<or> r = 0 \<or> r = - 1) \<and>
    (r = 1 \<longrightarrow> forward_find x s' = Some \<lparr>fi_active = True, fi_caller_xid = xid, fi_caller_addr = addr,
       fi_forward_xid = x, fi_forward_fd = fd, fi_uaddr = u, fi_reply_type = rt, fi_versnum = v, fi_time = now\<rparr> \<and> x \<noteq> 0)"
proof -
  let ?s = "if fw_lastxid (db_fwd s) = 0 then upd_fwd (fw_lastxid_update (\<lambda>_. of_int (now * 64))) s else s"
  have "w * 64 mod 64 = 0" for w :: u32
    by (simp add: word_unat_eq_iff u32_mod_64 unat_word_ariths mod_mod_cancel)
  then have "(of_int (now * 64) :: u32) mod 64 = 0" by simp
  then have ok: "fwd_ok (db_fwd ?s)" using assms(2) by (simp add: fwd_ok_def)
  obtain sc s1 where sc: "forward_scan (same_request xid addr rt v) now [0..<64] None 0 (fi_time (FINFO s ! 0)) ?s = (sc, s1)"
    by fastforce
  have "fwd_ok (db_fwd s1) \<and> (case sc of None \<Rightarrow> True
    | Some (slot', j') \<Rightarrow> j' < 64 \<and> (case slot' of None \<Rightarrow> True | Some e \<Rightarrow> e < 64 \<and> \<not> fi_active (FINFO s1 ! e)))"
    by (rule forward_scan_ok [OF sc ok]) auto
  then have s1: "fwd_ok (db_fwd s1)" and j: "sc = Some (slot, j) \<Longrightarrow> j < 64 \<and> (\<forall>e. slot = Some e \<longrightarrow> e < 64 \<and> \<not> fi_active (FINFO s1 ! e))" for slot j
    by (auto split: option.splits)
  show ?thesis
  proof (cases sc)
    case None
    then show ?thesis using assms(1) sc s1 by (simp add: forward_register_def Let_def)
  next
    case (Some sj)
    have len1: "length (FINFO s1) = 64" using s1 by (simp add: fwd_ok_def)
    obtain slot j0 where sj: "sj = (slot, j0)" by fastforce
    obtain k s2 where k: "(case slot of Some e \<Rightarrow> (e, s1) | None \<Rightarrow> (j0, snd (free_slot_by_index j0 s1))) = (k, s2)" by fastforce
    have k64: "k < 64" and s2: "fwd_ok (db_fwd s2)" and idle: "\<not> fi_active (FINFO s2 ! k)"
      using k j [OF Some [unfolded sj]] s1 len1 free_slot_ok [OF s1, of j0] free_slot_active [of j0 s1]
      by (auto split: option.splits)
    show ?thesis
    proof (cases "netbufdup addr (db_heap s2)")
      case (Pair np heap)
      show ?thesis
      proof (cases np)
        case None
        then show ?thesis using assms(1) sc Some sj k Pair s2 by (auto simp: forward_register_def Let_def)
      next
        case (Some a)
        have a: "a = addr" using Pair Some by (auto simp: netbufdup_def netbuf_copybuf_def split: if_splits)
        define last' where "last' = next_xid (fw_lastxid (db_fwd s2))"
        have l: "last' mod 64 = 0" "last' \<noteq> 0" using s2 next_xid_ok [of "fw_lastxid (db_fwd s2)"] by (simp_all add: last'_def fwd_ok_def)
        note xid = slot_xid [OF l k64]
        have len: "length (FINFO s2) = 64" using s2 by (simp add: fwd_ok_def)
        have uk: "unat (of_nat k :: u32) = k" using k64 by (simp add: unat_of_nat take_bit_nat_eq_self)
        let ?e = "\<lparr>fi_active = True, fi_caller_xid = xid, fi_caller_addr = addr, fi_forward_xid = last' + of_nat k,
          fi_forward_fd = fd, fi_uaddr = u, fi_reply_type = rt, fi_versnum = v, fi_time = now\<rparr>"
        have r: "r = 1" "x = last' + of_nat k"
          and s': "db_fwd s' = (db_fwd s2)\<lparr>fw_rmtcalls := fw_rmtcalls (db_fwd s2) + 1, fw_lastxid := last', fw_table := (FINFO s2)[k := ?e]\<rparr>"
          using assms(1) sc \<open>sc = Some sj\<close> sj k Pair Some a by (auto simp: forward_register_def Let_def last'_def)
        have "fwd_ok (db_fwd s')"
          using s2 l xid idle k64 len count_update [of k "FINFO s2" fi_active ?e]
          by (auto simp: s' fwd_ok_def nth_list_update)
        moreover have "forward_find x s' = Some ?e"
          using xid(1) k64 len uk by (simp add: forward_find_def s' r)
        ultimately show ?thesis using r xid(2) by simp
      qed
    qed
  qed
qed

section \<open>Forwarding keeps the table and the registrations\<close>

text \<open>\<open>b\<close> is whether the table is to be kept as well.\<close>

type_synonym keeping = "bool \<times> RPCB list \<times> pmap list"

definition kept :: "keeping \<Rightarrow> rpcb_db \<Rightarrow> bool" where
  "kept R s \<longleftrightarrow> (fst R \<longrightarrow> fwd_ok (db_fwd s)) \<and> regs s = snd R"

definition ends :: "('a \<Rightarrow> bool) \<Rightarrow> 'a run \<Rightarrow> bool" where
  "ends P m \<longleftrightarrow> (\<forall>a. m = Ret a \<longrightarrow> P a)"

lemma ends_simps [simp]: "ends P (Ret a) \<longleftrightarrow> P a" "ends P Fault" "ends P Out_of_fuel"
  by (simp_all add: ends_def)

lemma ends_bind: "ends P m \<Longrightarrow> (\<And>a. P a \<Longrightarrow> ends Q (k a)) \<Longrightarrow> ends Q (run_bind m k)"
  by (cases m) (auto simp: ends_def)

text \<open>A run whose state is in the continuation.\<close>

lemma ends_any: "(\<And>a. ends Q (k a)) \<Longrightarrow> ends Q (run_bind m k)"
  by (cases m) (auto simp: ends_def)

abbreviation kept2 :: "keeping \<Rightarrow> 'a \<times> rpcb_db \<Rightarrow> bool" where
  "kept2 R \<equiv> \<lambda>(_, s). kept R s"

abbreviation kept3 :: "keeping \<Rightarrow> 'a \<times> 'b \<times> rpcb_db \<Rightarrow> bool" where
  "kept3 R \<equiv> \<lambda>(_, _, s). kept R s"

lemma kept_heap [simp]: "kept R (s\<lparr>db_heap := h\<rparr>) = kept R s"
  by (simp add: kept_def)

lemma kept_sent [simp]: "kept R (upd_fwd (fw_sent_update f) s) = kept R s"
  by (simp add: kept_def fwd_ok_def)

lemma kept_free [intro]: "kept R s \<Longrightarrow> kept R (snd (free_slot_by_xid xid s))"
  by (simp add: kept_def free_slot_by_xid_ok)

lemma kept_reply_done [intro]: "kept R s \<Longrightarrow> kept R (reply_done xid s)"
  by (simp add: reply_done_def kept_free)

lemma kept_register: "forward_register now xid addr fd u rt v cx s = (r, x, s') \<Longrightarrow> kept R s \<Longrightarrow> kept R s'"
  using forward_register_spec [of now xid addr fd u rt v cx s r x s'] forward_register_regs [of now xid addr fd u rt v cx s r x s']
  by (simp add: kept_def)

lemma kept_register_heap: "forward_register now xid addr fd u rt v cx (s\<lparr>db_heap := h\<rparr>) = (r, x, s') \<Longrightarrow> kept R s \<Longrightarrow> kept R s'"
  by (erule kept_register) simp

text \<open>The parts of a run that have no state of their own.\<close>

lemma ends_parts:
  "(\<And>e. ends Q (k e)) \<Longrightarrow> ends Q (run_bind (dg_recvfrom fuel n ev) k)"
  "(\<And>a. ends Q (l a)) \<Longrightarrow> ends Q (run_bind (addrmerge env c u v n' h) l)"
  "(\<And>fd. ends Q (f fd)) \<Longrightarrow> ends Q (run_bind (find_rmtcallfd_by_netid n'' rmts) f)"
  by (auto intro: ends_any)

lemma kept_rmtcall [simp]: "kept R (rpcbs_rmtcall t p prog vers proc n rbl s) = kept R s"
  by (simp add: kept_def rpcbs_rmtcall_fields)

lemma mergeaddr_kept: "kept R s \<Longrightarrow> ends (kept2 R) (mergeaddr env cl netid u sa s)"
  by (auto simp: mergeaddr_def split: option.split prod.split intro!: ends_any)

lemma forward_call_kept: "kept R s \<Longrightarrow> ends (kept2 R) (forward_call env fe cred au a sz xid nconf fd lu s)"
  by (auto simp: forward_call_def Let_def split: prod.split marshalling.split option.split intro!: ends_any)

lemma run_kept: "kept R s \<Longrightarrow> ends (kept2 R) (run_bind m (\<lambda>x. Ret (x, s)))"
  "kept R s \<Longrightarrow> ends (kept3 R) (run_bind m (\<lambda>x. Ret (r, x, s)))"
  by (auto intro!: ends_any)

lemma complain_kept: "kept R s \<Longrightarrow> ends (kept2 R) (if b then run_bind m (\<lambda>x. Ret (x, s)) else Ret (x, s))"
  "kept R s \<Longrightarrow> ends (kept3 R) (if b then run_bind m (\<lambda>x. Ret (r, x, s)) else Ret (r, x, s))"
  by (auto intro!: ends_any)

lemma callit_forward_kept: "kept R s \<Longrightarrow> ends (kept2 R) (callit_forward env fe sv cred au rt v a sz rbl x s)"
proof -
  assume k: "kept R s"
  show ?thesis
    unfolding callit_forward_def Let_def
    using k by (auto split: option.split prod.split sending.split dest!: kept_register_heap [OF _ k]
      intro!: complain_kept run_kept ends_parts ends_bind [OF forward_call_kept] kept_free)
qed

lemma callit_service_kept: "kept R s \<Longrightarrow> ends (kept3 R) (callit_service env sv rt a x rbl s)"
  unfolding callit_service_def Let_def
  by (auto split: option.split prod.split static_str.split intro!: complain_kept run_kept ends_bind [OF mergeaddr_kept])

lemma callit_kept: "kept R s \<Longrightarrow> ends (kept2 R) (rpcbproc_callit_com env fe sv cred au rt v x s)"
  unfolding rpcbproc_callit_com_def Let_def
  by (auto split: option.split prod.split intro!: complain_kept run_kept ends_bind [OF callit_service_kept] callit_forward_kept)

lemma forward_reply_kept: "kept R s \<Longrightarrow> ends (kept2 R) (forward_reply sv msg err xd n fi x s)"
  by (auto simp: forward_reply_def send_svcsyserr_def xprt_set_caller_def Let_def split: prod.split intro!: ends_any)

lemma handle_reply_kept: "kept R s \<Longrightarrow> ends (kept2 R) (handle_reply fuel ev blk junk err sv x s)"
  unfolding handle_reply_def Let_def
  by (auto split: dg_event.split prod.split option.split intro!: ends_parts ends_bind [OF forward_reply_kept] kept_reply_done)

section \<open>The port mapper while calls are forwarded\<close>

text \<open>
  What can happen: a request to forward a call, a reply on a forwarding transport, and anything that
  leaves the table alone, as every other procedure does.
\<close>

inductive fwd_step :: "rpcb_db \<Rightarrow> rpcb_db \<Rightarrow> bool" where
  callit: "rpcbproc_callit_com env fe sv cred au rt v x s = Ret (x', s') \<Longrightarrow> fwd_step s s'"
| reply: "handle_reply fuel ev blk junk err sv x s = Ret (x', s') \<Longrightarrow> fwd_step s s'"
| other: "db_fwd s' = db_fwd s \<Longrightarrow> fwd_step s s'"

lemma fwd_step_ok: "fwd_step s s' \<Longrightarrow> fwd_ok (db_fwd s) \<Longrightarrow> fwd_ok (db_fwd s')"
proof (induction rule: fwd_step.induct)
  case (callit env fe sv cred au rt v x s x' s')
  with callit_kept [of "(True, regs s)" s env fe sv cred au rt v x] show ?case by (simp add: kept_def ends_def)
next
  case (reply fuel ev blk junk err sv x s x' s')
  with handle_reply_kept [of "(True, regs s)" s fuel ev blk junk err sv x] show ?case by (simp add: kept_def ends_def)
qed simp

lemma fwd_reach_ok: "fwd_step\<^sup>*\<^sup>* s s' \<Longrightarrow> fwd_ok (db_fwd s) \<Longrightarrow> fwd_ok (db_fwd s')"
  by (induction rule: rtranclp_induct) (auto dest: fwd_step_ok)

lemma forwards_start_ok: "fwd_ok forwards_start"
  by (simp add: fwd_ok_def forwards_start_def)

lemma forward_find_active:
  assumes "fwd_ok (db_fwd s)" and "i < 64" and "fi_active (FINFO s ! i)"
  shows "forward_find (fi_forward_xid (FINFO s ! i)) s = Some (FINFO s ! i)"
proof -
  have m: "fi_forward_xid (FINFO s ! i) mod 64 = of_nat i" using assms by (simp add: fwd_ok_def)
  have "unat (of_nat i :: u32) = i" using assms(2) by (simp add: unat_of_nat take_bit_nat_eq_self)
  with m assms(3) show ?thesis by (simp add: forward_find_def)
qed


definition demo_reply_err :: rpc_err where
  "demo_reply_err =
     \<lparr>re_status = RPC_FAILED, re_errno = 0, re_vers_low = 0, re_vers_high = 0, re_why = 0, re_s1 = 0, re_s2 = 0\<rparr>"


text \<open>Forwarding is what \<open>only_local_callers_register\<close> asks of it, whatever the credentials of the request.\<close>

lemma callit_keeps_forwarding:
  assumes "rs_callit sv = rpcbproc_callit_com env fe sv' cred au"
  shows "callit_keeps sv"
  unfolding callit_keeps_def assms
proof (intro allI impI)
  fix rt v x s x' s'
  assume "rpcbproc_callit_com env fe sv' cred au rt v x s = Ret (x', s')"
  with callit_kept [of "(False, regs s)" s env fe sv' cred au rt v x] show "regs s' = regs s"
    by (simp add: kept_def ends_def)
qed

end
