(* ===== verification/Rpcb_Reply.thy ===== *)
theory Rpcb_Reply
  imports Rpcb_Forward
begin

text \<open>
  The reply to a forwarded call: what \<open>handle_reply\<close> (\<open>Rpcb_Forward\<close>) decodes from the datagram of the
  service, and what it sends to the caller. The main fact is that the results arrive at the caller
  unchanged, under the caller's number.
\<close>

section \<open>Decoding the front of a datagram\<close>

text \<open>The stream has exactly \<open>bs\<close> left of \<open>n\<close> bytes.\<close>

definition xm_exact :: "u64 \<Rightarrow> byte list \<Rightarrow> nat \<Rightarrow> xdr_mem \<Rightarrow> byte list \<Rightarrow> bool" where
  "xm_exact b buf n s bs \<longleftrightarrow> xm_ready s bs \<and> xm_base s = b \<and> xm_buf s = buf \<and> unat (xm_handy s) = length bs \<and>
     length bs \<le> n \<and> xdrmem_getpos s = of_nat (n - length bs)"

lemma xm_exact_skip:
  assumes "xm_exact b buf n s (xs @ bs)"
  shows "xm_exact b buf n (xm_skip (length xs) s) bs"
proof -
  have r: "xm_ready s (xs @ bs)" and n: "length xs + length bs \<le> n"
    and pos: "xdrmem_getpos s = of_nat (n - (length xs + length bs))" and h: "length xs \<le> unat (xm_handy s)"
    using assms by (simp_all add: xm_exact_def)
  have "xdrmem_getpos (xm_skip (length xs) s) = of_nat (n - (length xs + length bs) + length xs)"
    by (simp add: xm_getpos_skip pos)
  also have "n - (length xs + length bs) + length xs = n - length bs" using n by simp
  finally show ?thesis
    using assms xm_ready_skip(2) [OF r] xm_handy_skip [OF h] n by (simp add: xm_exact_def) (simp add: xm_skip_def)
qed

interpretation exact_aligned: xdr_source xdrmem_ops_aligned "xm_exact b buf n" for b buf n
proof (unfold_locales, goal_cases)
  case (1 s w bs)
  then have r: "xm_ready s (be32 w @ bs)" by (simp add: xm_exact_def)
  show ?case
    using xm_ready_skip [OF r] xm_ready_room [OF r] xm_exact_skip [OF 1]
    by (simp add: xdrmem_ops_aligned_def xdrmem_getlong_room)
next
  case (2 s xs bs)
  then have r: "xm_ready s (xs @ bs)" by (simp add: xm_exact_def)
  show ?case
    using xm_ready_skip [OF r] xm_ready_room [OF r] xm_exact_skip [OF 2(1)]
    by (simp add: xdrmem_ops_aligned_def xdrmem_getbytes_room)
next
  case (3 s xs bs s')
  then have "xm_ready s (xs @ bs)" by (simp add: xm_exact_def)
  with 3 show ?case by (simp add: xdrmem_ops_aligned_def xdrmem_inline_room xm_ready_room)
next
  case (4 s xs bs p s')
  then have r: "xm_ready s (xs @ bs)" by (simp add: xm_exact_def)
  from 4 show ?case
    using xm_ready_skip [OF r] xm_ready_room [OF r] xm_exact_skip [OF 4(1)]
    by (auto simp: xdrmem_ops_aligned_def xdrmem_inline_room)
qed

interpretation exact_unaligned: xdr_source xdrmem_ops_unaligned "xm_exact b buf n" for b buf n
proof (unfold_locales, goal_cases)
  case (1 s w bs)
  then have r: "xm_ready s (be32 w @ bs)" by (simp add: xm_exact_def)
  show ?case
    using xm_ready_skip [OF r] xm_ready_room [OF r] xm_exact_skip [OF 1]
    by (simp add: xdrmem_ops_unaligned_def xdrmem_getlong_room)
next
  case (2 s xs bs)
  then have r: "xm_ready s (xs @ bs)" by (simp add: xm_exact_def)
  show ?case
    using xm_ready_skip [OF r] xm_ready_room [OF r] xm_exact_skip [OF 2(1)]
    by (simp add: xdrmem_ops_unaligned_def xdrmem_getbytes_room)
qed (simp_all add: xdrmem_ops_unaligned_def xdrmem_inline_unaligned_def)

text \<open>What a filter has decoded from the front of a buffer, and where it stops.\<close>

lemma decode_front:
  assumes "\<And>b buf n. exact_aligned.decodes b buf n p z v bs k" and "\<And>b buf n. exact_unaligned.decodes b buf n p z v bs k"
    and "length (bs @ rest) < 2 ^ 32" and "length buf < 2 ^ 63" and "take (length (bs @ rest)) buf = bs @ rest"
  obtains x where "p z (xdrmem_create addr buf (of_nat (length (bs @ rest))) XDR_DECODE (h + k)) = (True, v, x)"
    and "x_mem x = h" and "xm_buf (x_private x) = buf" and "XDR_GETPOS x = of_nat (length bs)"
proof -
  let ?n = "length (bs @ rest)"
  let ?s = "\<lparr>xm_base = addr, xm_priv = addr, xm_handy = of_nat ?n, xm_buf = buf\<rparr>"
  have n: "unat (of_nat ?n :: u32) = ?n" using assms(3) by (simp add: unat_of_nat take_bit_nat_eq_self del: length_append of_nat_add)
  have le: "?n \<le> length buf" using arg_cong [OF assms(5), of length] by simp
  have fits: "unat (of_nat ?n :: u32) \<le> length buf" using n le by simp
  note start = xm_start [OF fits assms(4), of addr]
  have ready: "xm_exact addr buf ?n ?s (bs @ rest)"
    using start n assms(5) by (simp add: xm_exact_def xm_ready_def load_def del: of_nat_add)
  have pos: "xdrmem_getpos s' = of_nat (length bs) \<and> xm_buf s' = buf" if "xm_exact addr buf ?n s' rest" for s'
    using that by (simp add: xm_exact_def)
  show thesis
  proof (cases "(ucast addr :: u32) AND 3 \<noteq> 0")
    case True
    obtain s' where "p z (mkXDR XDR_DECODE xdrmem_ops_unaligned ?s (h + k)) = (True, v, mkXDR XDR_DECODE xdrmem_ops_unaligned s' h)"
      "xm_exact addr buf ?n s' rest"
      by (rule exact_unaligned.decodesE [OF assms(2) ready])
    with True pos [of s'] show thesis
      by (intro that [of "mkXDR XDR_DECODE xdrmem_ops_unaligned s' h"]) (simp_all add: xdrmem_create_def XDR_GETPOS_def xdrmem_getpostn)
  next
    case False
    obtain s' where "p z (mkXDR XDR_DECODE xdrmem_ops_aligned ?s (h + k)) = (True, v, mkXDR XDR_DECODE xdrmem_ops_aligned s' h)"
      "xm_exact addr buf ?n s' rest"
      by (rule exact_aligned.decodesE [OF assms(1) ready])
    with False pos [of s'] show thesis
      by (intro that [of "mkXDR XDR_DECODE xdrmem_ops_aligned s' h"]) (simp_all add: xdrmem_create_def XDR_GETPOS_def xdrmem_getpostn)
  qed
qed

text \<open>The results of a forwarded call on the wire.\<close>

definition enc_rmtcall_result :: "u32 \<Rightarrow> byte list \<Rightarrow> byte list \<Rightarrow> byte list" where
  "enc_rmtcall_result vers uaddr res =
     (if vers = 2 then be32 (the (uaddr_port uaddr)) else enc_counted (cstr uaddr)) @ enc_counted res"

context xdr_sink
begin

lemma encodes_rmtcall_result:
  assumes "rmt_localvers c = sint vers" and "vers = 2 \<and> uaddr_port (rmt_uaddr c) \<noteq> None \<or> (vers = 3 \<or> vers = 4) \<and> strlen (rmt_uaddr c) \<le> 9000"
    and "rmt_args c = (Some (res @ t), of_nat (length res))" and "length res \<le> 9000"
  shows "encodes xdr_result (Res_rmtcall c) (Res_rmtcall c) (enc_rmtcall_result vers (rmt_uaddr c) res)"
proof -
  have "encodes xdr_encap_parms (Some (res @ t), of_nat (length res)) (Some (res @ t), of_nat (length res)) (enc_counted res)"
    unfolding xdr_encap_parms_def using assms(4) by (intro encodes_counted) simp_all
  then have "encodes (xdr_field rmt_args rmt_args_update xdr_encap_parms) c (c\<lparr>rmt_args := (Some (res @ t), of_nat (length res))\<rparr>) (enc_counted res)"
    by (intro encodes_field) (simp add: assms(3))
  moreover have c: "c\<lparr>rmt_args := (Some (res @ t), of_nat (length res))\<rparr> = c" using assms(3) by (cases c) simp
  ultimately have parms: "encodes (xdr_field rmt_args rmt_args_update xdr_encap_parms) c c (enc_counted res)"
    by (simp only: c)
  have "encodes xdr_rmtcall_result c c (enc_rmtcall_result vers (rmt_uaddr c) res)"
  proof (cases "vers = 2")
    case True
    then obtain port where port: "uaddr_port (rmt_uaddr c) = Some port" using assms(2) by auto
    then obtain hs where hs: "scan_dots 6 (cstr (rmt_uaddr c)) = Some hs"
      "port = push_bit 8 (of_int (hs ! 4) AND 0xff) + (of_int (hs ! 5) AND 0xff)"
      by (auto simp: uaddr_port_def split: option.splits)
    have "encodes xdr_u_long port port (be32 port)" by (rule encodes_ints)
    then have "encodes xdr_rmtcall_result c c (be32 port @ enc_counted res)"
      using parms by (rule encodes_bind) (simp add: xdr_rmtcall_result_def assms(1) True hs)
    then show ?thesis using True port by (simp add: enc_rmtcall_result_def)
  next
    case False
    have v: "sint vers = 3 \<or> sint vers = 4" "sint vers \<noteq> 2" using assms(2) False by auto
    have "encodes xdr_wrapstring (Some (rmt_uaddr c)) (Some (rmt_uaddr c)) (enc_counted (cstr (rmt_uaddr c)))"
      unfolding xdr_wrapstring_def using assms(2) False by (intro encodes_string) (auto simp: strlen_def)
    then have "encodes xdr_rmtcall_result c c (enc_counted (cstr (rmt_uaddr c)) @ enc_counted res)"
      using parms by (rule encodes_bind) (simp add: xdr_rmtcall_result_def assms(1) v)
    then show ?thesis using False by (simp add: enc_rmtcall_result_def)
  qed
  then show ?thesis by (rule encodes_via) (simp add: xdr_result_def via_def)
qed

end

text \<open>A reply on a transport without a cache.\<close>

lemma svc_dg_reply_uncached:
  assumes "\<And>t bs addr. dv_sendto env t bs addr = int (length bs)" and "dg_buffer_ok (xp_p1 x)" and "su_cache (xp_p1 x) = None"
    and "replymsg_ok r" and "has_results r"
    and "mem_aligned.encodes (ar_results_proc (rp_acpt (rm_reply r)))
      (ar_results_where (rp_acpt (rm_reply r))) (ar_results_where (rp_acpt (rm_reply r))) rbs"
    and "mem_unaligned.encodes (ar_results_proc (rp_acpt (rm_reply r)))
      (ar_results_where (rp_acpt (rm_reply r))) (ar_results_where (rp_acpt (rm_reply r))) rbs"
    and "length (enc_replymsg rbs r) \<le> unat (su_iosz (xp_p1 x))"
  obtains su where "svc_dg_reply env x r = Ret (True, su)"
    and "dg_sent su = (enc_replymsg rbs (r\<lparr>rm_xid := su_xid (xp_p1 x)\<rparr>), nb_bytes (xp_rtaddr x)) # dg_sent (xp_p1 x)"
proof -
  let ?s = "xp_p1 x" and ?addr = "nb_bytes (xp_rtaddr x)" and ?r = "r\<lparr>rm_xid := su_xid (xp_p1 x)\<rparr>"
  let ?bs = "enc_replymsg rbs ?r"
  let ?b = "xm_base (x_private (su_xdrs ?s))"
  have buf: "length (rpc_buffer ?s) = unat (su_iosz ?s)" "unat (su_iosz ?s) < 2 ^ 31"
    using assms(2) by (simp_all add: dg_buffer_ok_def placed_def rpc_buffer_def Let_def)
  have fits: "unat (su_iosz ?s) \<le> length (rpc_buffer ?s)" "length (rpc_buffer ?s) < 2 ^ 63" using buf by simp_all
  have len: "length ?bs \<le> unat (su_iosz ?s)" using assms(8) by (simp add: enc_replymsg_xid)
  have ok: "replymsg_ok ?r" using assms(4) by (simp add: replymsg_ok_def)
  obtain xd where xd: "xdr_replymsg ?r (xdrmem_create ?b (rpc_buffer ?s) (su_iosz ?s) XDR_ENCODE (x_mem (su_xdrs ?s))) = (True, ?r, xd)"
    "xm_buf (x_private xd) = store 0 ?bs (rpc_buffer ?s)" "XDR_GETPOS xd = of_nat (length ?bs)" "x_mem xd = x_mem (su_xdrs ?s)"
    by (rule xdrmem_encode [OF mem_aligned.encodes_replymsg [OF ok] mem_unaligned.encodes_replymsg [OF ok] len fits])
      (use assms(6,7) in simp_all)
  have pos: "unat (XDR_GETPOS xd) = length ?bs" using xd(3) len by simp
  have tk: "take (length ?bs) (store 0 ?bs (rpc_buffer ?s)) = ?bs" by (simp add: store_def)
  have mn: "min (length (store 0 ?bs (rpc_buffer ?s))) (length ?bs) = length ?bs" by (simp add: store_def min_def)
  let ?t = "sent ?bs ?addr (?s\<lparr>su_xdrs := xd\<rparr>)"
  have "svc_dg_reply env x r = Ret (True, ?t)"
    using setpos_rewinds [OF assms(2), of XDR_ENCODE] xd(1,2) pos assms(1,3) tk mn
    by (simp add: svc_dg_reply_def Let_def rpc_buffer_def sent_def)
  then show thesis by (rule that) (simp add: sent_def)
qed

section \<open>The way back\<close>

lemma exact_decodes_reply:
  assumes "replymsg_ok m" and "has_results m"
  shows "exact_aligned.decodes b buf n xdr_replymsg (reply_area junk) (reply_into (reply_area junk) m Res_void) (enc_replymsg [] m)
      (reply_blocks (reply_area junk) m 0)"
    and "exact_unaligned.decodes b buf n xdr_replymsg (reply_area junk) (reply_into (reply_area junk) m Res_void) (enc_replymsg [] m)
      (reply_blocks (reply_area junk) m 0)"
  by (rule exact_aligned.decodes_replymsg [OF assms(1)] exact_unaligned.decodes_replymsg [OF assms(1)],
      simp add: reply_area_def, rule exact_aligned.decodes_nothing exact_unaligned.decodes_nothing, simp add: xdr_void_def)+

lemma seterr_success: "has_results m \<Longrightarrow> re_status (seterr_reply (reply_into z m w) e) = RPC_SUCCESS"
  by (simp add: has_results_def reply_into_def accepted_into_def seterr_reply_def Let_def)

text \<open>The reply that goes to a caller, under the number \<open>xid\<close>.\<close>

definition caller_reply :: "u32 \<Rightarrow> opaque_auth \<Rightarrow> byte list \<Rightarrow> byte list" where
  "caller_reply xid verf res = be32 xid @ be32 REPLY @ be32 MSG_ACCEPTED @ enc_auth verf @ be32 SUCCESS @ res"

lemma enc_results_msg: "enc_replymsg rbs ((results_msg junk verf p w)\<lparr>rm_xid := xid\<rparr>) = caller_reply xid verf rbs"
  by (simp add: enc_replymsg_def results_msg_def accepted_msg_def enc_accepted_reply_def caller_reply_def Let_def)

lemma length_caller_reply: "length (caller_reply xid verf res) = length (caller_reply 0 verf res)"
  by (simp add: caller_reply_def)

lemma sendreply_results:
  assumes "rs_ops sv = svc_dg_ops f denv" and "\<And>t bs addr. dv_sendto denv t bs addr = int (length bs)"
    and "dg_buffer_ok (xp_p1 x)" and "su_cache (xp_p1 x) = None" and "auth_ok (xp_verf x)"
    and "rmt_localvers c = sint vers" and "vers = 2 \<and> uaddr_port (rmt_uaddr c) \<noteq> None \<or> (vers = 3 \<or> vers = 4) \<and> strlen (rmt_uaddr c) \<le> 9000"
    and "rmt_args c = (Some (res @ t), of_nat (length res))" and "length res \<le> 9000"
    and "length (caller_reply 0 (xp_verf x) (enc_rmtcall_result vers (rmt_uaddr c) res)) \<le> unat (su_iosz (xp_p1 x))"
  obtains x' where "sendreply sv (Res_rmtcall c) x = Ret (True, x')"
    and "dg_sent (xp_p1 x') = (caller_reply (su_xid (xp_p1 x)) (xp_verf x) (enc_rmtcall_result vers (rmt_uaddr c) res),
      nb_bytes (xp_rtaddr x)) # dg_sent (xp_p1 x)"
proof -
  let ?r = "results_msg (rs_junk sv) (xp_verf x) xdr_result (Res_rmtcall c)" and ?rbs = "enc_rmtcall_result vers (rmt_uaddr c) res"
  have r: "replymsg_ok ?r" "has_results ?r" "ar_results_proc (rp_acpt (rm_reply ?r)) = xdr_result"
    "ar_results_where (rp_acpt (rm_reply ?r)) = Res_rmtcall c"
    using assms(5) by (simp_all add: results_msg_def accepted_msg_def replymsg_ok_def has_results_def Let_def)
  have len: "length (enc_replymsg ?rbs ?r) \<le> unat (su_iosz (xp_p1 x))"
    using assms(10) enc_replymsg_xid [of ?rbs 0 ?r] by (simp add: enc_results_msg)
  obtain su where su: "svc_dg_reply denv x ?r = Ret (True, su)"
    "dg_sent su = (enc_replymsg ?rbs (?r\<lparr>rm_xid := su_xid (xp_p1 x)\<rparr>), nb_bytes (xp_rtaddr x)) # dg_sent (xp_p1 x)"
    by (rule svc_dg_reply_uncached [OF assms(2,3,4) r(1,2) _ _ len])
      (use mem_aligned.encodes_rmtcall_result [OF assms(6-9)] mem_unaligned.encodes_rmtcall_result [OF assms(6-9)] r(3,4) in simp_all)
  show thesis
    by (rule that [of "x\<lparr>xp_p1 := su\<rparr>"])
      (use su assms(1) in \<open>simp_all add: sendreply_def svc_sendreply_def xprt_reply_def svc_dg_ops_def enc_results_msg\<close>)
qed

lemma xprt_set_caller_sets:
  assumes "db_heap s \<noteq> 0 \<or> xp_rtaddr x \<noteq> None"
  obtains hy where "xprt_set_caller fi x s =
    (x\<lparr>xp_rtaddr := Some (fi_caller_addr fi), xp_p1 := (xp_p1 x)\<lparr>su_xid := fi_caller_xid fi\<rparr>\<rparr>, s\<lparr>db_heap := hy\<rparr>)"
proof (cases "xp_rtaddr x")
  case None
  then show thesis using assms by (intro that [of "db_heap s - 1"]) (simp add: xprt_set_caller_def netbuf_copybuf_def)
next
  case (Some a)
  then show thesis by (intro that [of "db_heap s"]) (simp add: xprt_set_caller_def netbuf_copybuf_def)
qed

text \<open>
  C38: the reply to a forwarded call goes to who made it. When the reply of the service to the call of
  number \<open>xid\<close> arrives, with results \<open>res\<close> of at most 9000 bytes, one datagram is sent: to the address
  the call came from, under the number it came with, with the address of the service (for version 2,
  its port) and the results as they are. The slot is free afterwards, and the other slots are as before.
\<close>

theorem forwarded_reply_reaches_caller:
  assumes fi: "fwd_ok (db_fwd s)" "forward_find (rm_xid m) s = Some fi" "fi_uaddr fi = Some u"
      "fi_versnum fi = 2 \<and> uaddr_port u \<noteq> None \<or> (fi_versnum fi = 3 \<or> fi_versnum fi = 4) \<and> strlen u \<le> 9000"
    and m: "replymsg_ok m" "has_results m" "length res \<le> 9000" "length (enc_replymsg [] m @ res) \<le> 65536"
      "ev 0 = Datagram (enc_replymsg [] m @ res) from" "length (snd blk) = 65536"
    and heap: "db_heap s = Suc (h + reply_blocks (reply_area junk) m 0)" "h \<noteq> 0 \<or> xp_rtaddr x \<noteq> None"
    and x: "dg_buffer_ok (xp_p1 x)" "su_cache (xp_p1 x) = None" "auth_ok (xp_verf x)"
      "length (caller_reply 0 (xp_verf x) (enc_rmtcall_result (fi_versnum fi) u res)) \<le> unat (su_iosz (xp_p1 x))"
    and sv: "rs_ops sv = svc_dg_ops f denv" "\<And>t bs addr. dv_sendto denv t bs addr = int (length bs)"
  shows "\<exists>x' s'. handle_reply (Suc fuel) ev blk junk err sv x s = Ret (x', s') \<and>
    dg_sent (xp_p1 x') = (caller_reply (fi_caller_xid fi) (xp_verf x) (enc_rmtcall_result (fi_versnum fi) u res), fi_caller_addr fi)
      # dg_sent (xp_p1 x) \<and>
    forward_find (rm_xid m) s' = None \<and> (\<forall>k. k \<noteq> unat (rm_xid m mod 64) \<longrightarrow> FINFO s' ! k = FINFO s ! k)"
proof -
  let ?bs = "enc_replymsg [] m" and ?i = "unat (rm_xid m mod 64)" and ?z = "reply_into (reply_area junk) m Res_void"
  let ?buf = "store 0 (?bs @ res) (snd blk)"
  have buf: "length ?buf < 2 ^ 63" "take (length (?bs @ res)) ?buf = ?bs @ res" "length (?bs @ res) < 2 ^ 32"
    using m(4,6) by (simp_all add: block_simps) (simp add: store_def)
  obtain xd where xd: "xdr_replymsg (reply_area junk) (xdrmem_create (fst blk) ?buf (of_nat (length (?bs @ res))) XDR_DECODE
      (h + reply_blocks (reply_area junk) m 0)) = (True, ?z, xd)"
    "x_mem xd = h" "xm_buf (x_private xd) = ?buf" "XDR_GETPOS xd = of_nat (length ?bs)"
    by (rule decode_front [OF exact_decodes_reply [OF m(1,2)] buf(3,1,2)])
  have pos: "unat (XDR_GETPOS xd) = length ?bs" using xd(4) buf(3) by (simp add: unat_of_nat take_bit_nat_eq_self)
  have args: "drop (length ?bs) ?buf = res @ drop (length (?bs @ res)) ?buf"
  proof -
    have "drop (length ?bs) ?buf = drop (length ?bs) (take (length (?bs @ res)) ?buf @ drop (length (?bs @ res)) ?buf)"
      by (simp only: append_take_drop_id)
    also have "\<dots> = drop (length ?bs) ((?bs @ res) @ drop (length (?bs @ res)) ?buf)" by (simp only: buf(2))
    finally show ?thesis by simp
  qed
  have xid: "rm_xid ?z = rm_xid m" by (simp add: reply_into_def Let_def)
  have active: "fi_active (FINFO s ! ?i)" "FINFO s ! ?i = fi"
    using fi(2) by (simp_all add: forward_find_def Let_def split: if_splits)
  have nz: "rm_xid m \<noteq> 0"
    using fi(1,2) active xid_slot [of "rm_xid m"] by (auto simp: fwd_ok_def forward_find_def Let_def split: if_splits)
  let ?s = "s\<lparr>db_heap := h\<rparr>"
  have h: "db_heap ?s \<noteq> 0 \<or> xp_rtaddr x \<noteq> None" using heap(2) by simp
  define y where "y = x\<lparr>xp_rtaddr := Some (fi_caller_addr fi), xp_p1 := (xp_p1 x)\<lparr>su_xid := fi_caller_xid fi\<rparr>\<rparr>"
  obtain hy where "xprt_set_caller fi x ?s = (y, ?s\<lparr>db_heap := hy\<rparr>)"
    unfolding y_def by (rule xprt_set_caller_sets [OF h])
  then have y: "xprt_set_caller fi x ?s = (y, ?s\<lparr>db_heap := hy\<rparr>)"
    "xp_rtaddr y = Some (fi_caller_addr fi)" "xp_verf y = xp_verf x" "xp_p1 y = (xp_p1 x)\<lparr>su_xid := fi_caller_xid fi\<rparr>"
    by (simp_all add: y_def)
  define c where "c = \<lparr>rmt_prog = 0, rmt_vers = 0, rmt_proc = 0, rmt_localvers = sint (fi_versnum fi), rmt_uaddr = u,
      rmt_args = (Some (res @ drop (length (?bs @ res)) ?buf), of_nat (length res))\<rparr>"
  have cs: "rmt_localvers c = sint (fi_versnum fi)" "rmt_uaddr c = u"
    "rmt_args c = (Some (res @ drop (length (?bs @ res)) ?buf), of_nat (length res))" by (simp_all add: c_def)
  have room: "length (caller_reply 0 (xp_verf y) (enc_rmtcall_result (fi_versnum fi) (rmt_uaddr c) res)) \<le> unat (su_iosz (xp_p1 y))"
    using x(4) y(3,4) cs(2) by simp
  have yok: "dg_buffer_ok (xp_p1 y)" "su_cache (xp_p1 y) = None" "auth_ok (xp_verf y)"
    using x(1-3) y(3,4) by (simp_all add: dg_buffer_ok_def)
  obtain x' where x': "sendreply sv (Res_rmtcall c) y = Ret (True, x')"
    "dg_sent (xp_p1 x') = (caller_reply (su_xid (xp_p1 y)) (xp_verf y) (enc_rmtcall_result (fi_versnum fi) (rmt_uaddr c) res),
      nb_bytes (xp_rtaddr y)) # dg_sent (xp_p1 y)"
    by (rule sendreply_results [OF sv yok cs(1) _ cs(3) m(3) room]) (use fi(4) cs(2) in simp_all)
  have fwd: "forward_reply sv ?z err xd (length (?bs @ res)) fi x ?s = Ret (x', ?s\<lparr>db_heap := hy\<rparr>)"
    using seterr_success [OF m(2), of "reply_area junk" Res_void err] y(1) x'(1) fi(3) pos xd(3,4) args
    by (simp add: forward_reply_def c_def Let_def)
  let ?t = "reply_done (rm_xid m) (?s\<lparr>db_heap := hy + 1\<rparr>)"
  have rest: "take 65536 (?bs @ res) = ?bs @ res" using m(4) by simp
  have "handle_reply (Suc fuel) ev blk junk err sv x s = Ret (x', ?t)"
    unfolding handle_reply_def Let_def
    using heap(1) m(5) xd(1,2) fi(2) fwd by (simp add: rest xid forward_find_def Let_def del: take_append length_append length_take split: if_splits)
  moreover have "FINFO ?t = (FINFO s)[?i := fi\<lparr>fi_active := False\<rparr>]"
    using nz active by (simp add: reply_done_def free_slot_by_xid_def free_slot_fwd)
  moreover have "?i < length (FINFO s)" using fi(1) xid_slot by (simp add: fwd_ok_def)
  ultimately show ?thesis
    using x'(2) y(2-4) cs(2) by (auto simp: forward_find_def Let_def nb_bytes_def)
qed

section \<open>A concrete reply\<close>

text \<open>Slot 5 holds a call of version 4 with number 77 from \<open>[2, 0, 9]\<close>, for the service at 10.0.0.7.8.1.\<close>

definition demo_fi :: finfo where
  "demo_fi = \<lparr>fi_active = True, fi_caller_xid = 77, fi_caller_addr = [2, 0, 9], fi_forward_xid = 197, fi_forward_fd = 4,
     fi_uaddr = Some [49, 48, 46, 48, 46, 48, 46, 55, 46, 56, 46, 49, 0], fi_reply_type = 10, fi_versnum = 4, fi_time = 1000\<rparr>"

definition demo_waiting :: rpcb_db where
  "demo_waiting = (demo_db [])\<lparr>db_fwd := forwards_start\<lparr>fw_table := (fw_table forwards_start)[5 := demo_fi], fw_rmtcalls := 1\<rparr>\<rparr>"

definition demo_answer :: "(xdr_mem, rpcb_result) rpc_msg" where
  "demo_answer = (accepted_msg demo_msg null_verf SUCCESS)\<lparr>rm_xid := 197\<rparr>"

definition demo_fwd_xprt :: dg_xprt where
  "demo_fwd_xprt = (new_xprt 4 0 None (demo_dg\<lparr>su_cache := None\<rparr>))\<lparr>xp_verf := null_verf\<rparr>"

definition demo_fwd_serv :: dg_serv where
  "demo_fwd_serv = (demo_serv nfs)\<lparr>rs_ops := svc_dg_ops 1 good_env\<rparr>"

lemma demo_waiting_ok: "fwd_ok (db_fwd demo_waiting)" "forward_find 197 demo_waiting = Some demo_fi"
proof -
  have "length (filter fi_active (fw_table forwards_start)) = 0" by (simp add: forwards_start_def)
  moreover have "\<not> fi_active (fw_table forwards_start ! 5)" "length (fw_table forwards_start) = 64" by (simp_all add: forwards_start_def)
  ultimately have "length (filter fi_active ((fw_table forwards_start)[5 := demo_fi])) = 1"
    using count_update [of 5 "fw_table forwards_start" fi_active demo_fi] by (simp add: demo_fi_def)
  then show "fwd_ok (db_fwd demo_waiting)"
    using forwards_start_ok by (simp add: fwd_ok_def demo_waiting_def nth_list_update) (simp add: demo_fi_def)
  show "forward_find 197 demo_waiting = Some demo_fi"
    by (simp add: forward_find_def demo_waiting_def forwards_start_def) (simp add: demo_fi_def)
qed

lemma demo_answer_ok: "replymsg_ok demo_answer" "has_results demo_answer" "rm_xid demo_answer = 197"
  "length (enc_replymsg [] demo_answer) = 24" "reply_blocks (reply_area demo_msg) demo_answer 0 = 0"
  by (simp_all add: demo_answer_def accepted_msg_def replymsg_ok_def has_results_def auth_ok_def auth_bytes_def null_verf_def
      enc_replymsg_def enc_accepted_reply_def enc_auth_def enc_counted_def enc_opaque_def xdr_pad_def reply_blocks_def
      auth_blocks_def counted_blocks_def reply_area_def null_auth_def)

lemma demo_fwd_ok: "dg_buffer_ok (xp_p1 demo_fwd_xprt)" "su_cache (xp_p1 demo_fwd_xprt) = None" "auth_ok (xp_verf demo_fwd_xprt)"
  "su_iosz (xp_p1 demo_fwd_xprt) = 64" "dg_sent (xp_p1 demo_fwd_xprt) = []" "xp_verf demo_fwd_xprt = null_verf"
  using demo_dg_ok by (simp_all add: demo_fwd_xprt_def new_xprt_def dg_buffer_ok_def auth_ok_def auth_bytes_def null_verf_def)
    (simp_all add: demo_dg_def)

lemma forwarded_reply_reaches_caller_witness:
  "\<exists>x' s'. handle_reply 1 (\<lambda>_. Datagram (enc_replymsg [] demo_answer @ [1, 2, 3, 4]) [2, 0]) (4096, zeros 65536) demo_msg demo_reply_err
      demo_fwd_serv demo_fwd_xprt demo_waiting = Ret (x', s') \<and>
    dg_sent (xp_p1 x') = [(caller_reply 77 null_verf
      (enc_rmtcall_result 4 [49, 48, 46, 48, 46, 48, 46, 55, 46, 56, 46, 49, 0] [1, 2, 3, 4]), [2, 0, 9])]"
proof -
  have fi: "fi_uaddr demo_fi = Some [49, 48, 46, 48, 46, 48, 46, 55, 46, 56, 46, 49, 0]" "fi_versnum demo_fi = 4"
    "fi_caller_xid demo_fi = 77" "fi_caller_addr demo_fi = [2, 0, 9]"
    by (simp_all add: demo_fi_def)
  have len: "length (caller_reply 0 null_verf (enc_rmtcall_result 4 [49, 48, 46, 48, 46, 48, 46, 55, 46, 56, 46, 49, 0] [1, 2, 3, 4])) = 48"
    by (simp add: caller_reply_def enc_rmtcall_result_def enc_auth_def auth_bytes_def null_verf_def enc_counted_def enc_opaque_def
        xdr_pad_def cstr_def)
  have sl: "strlen [49, 48, 46, 48, 46, 48, 46, 55, 46, 56, 46, 49, 0] \<le> 9000" by (simp add: strlen_def cstr_def)
  have find: "forward_find (rm_xid demo_answer) demo_waiting = Some demo_fi" using demo_waiting_ok(2) demo_answer_ok(3) by simp
  have heap: "db_heap demo_waiting = Suc (39 + reply_blocks (reply_area demo_msg) demo_answer 0)"
    by (simp add: demo_answer_ok(5)) (simp add: demo_waiting_def)
  have ops: "rs_ops demo_fwd_serv = svc_dg_ops 1 good_env" "dv_sendto good_env t bs addr = int (length bs)" for t bs addr
    by (simp_all add: demo_fwd_serv_def good_env_def)
  show ?thesis
    using forwarded_reply_reaches_caller [OF demo_waiting_ok(1) find fi(1) _ demo_answer_ok(1,2) _ _ _ _ heap _ demo_fwd_ok(1,2,3) _ ops(1),
        of "[1, 2, 3, 4]" "\<lambda>_. Datagram (enc_replymsg [] demo_answer @ [1, 2, 3, 4]) [2, 0]" "[2, 0]" "(4096, zeros 65536)" 0 demo_reply_err]
      fi(2-4) len sl ops(2) demo_fwd_ok(4-6) demo_answer_ok(4)
    by auto
qed

end
