(* ===== verification/Clnt.thy ===== *)
theory Clnt
  imports Svc_Dg
begin

text \<open>
  What the three kinds of client handles (\<open>clnt_raw.c\<close>, \<open>clnt_vc.c\<close>, \<open>clnt_dg.c\<close>) share: the operations of
  \<open>include/rpc/auth.h\<close> on the handle's authenticator, the call header that is kept marshalled and whose
  transaction number is counted in the byte order of the host, and the request that is written behind
  it. Then the facts about memory streams that the handles reuse from call to call.
\<close>

section \<open>Words of the host\<close>

text \<open>An integer in memory on the machines the library is built for: the least significant byte comes first.\<close>

definition le32 :: "u32 \<Rightarrow> byte list" where
  "le32 w = rev (be32 w)"

definition of_le32 :: "byte list \<Rightarrow> u32" where
  "of_le32 bs = of_be32 (rev bs)"

lemma le32_simps [simp]: "length (le32 w) = 4" "of_le32 (le32 w) = w"
  by (simp_all add: le32_def of_le32_def)

lemma bit_byte: "8 \<le> n \<Longrightarrow> \<not> bit (b :: byte) n"
  using bit_imp_le_length [of b n] by auto

lemma bit_of_be32:
  "bit (of_be32 [a, b, c, d]) n \<longleftrightarrow> n < 32 \<and> (24 \<le> n \<and> bit a (n - 24) \<or> 16 \<le> n \<and> bit b (n - 16) \<or> 8 \<le> n \<and> bit c (n - 8) \<or> bit d n)"
  by (auto simp: of_be32_def bit_or_iff bit_push_bit_iff bit_ucast_iff)
 
lemma be32_of_be32:
  assumes "length bs = 4"
  shows "be32 (of_be32 bs) = bs"
proof -
  obtain a b c d where bs: "bs = [a, b, c, d]"
    using assms by (auto simp: length_Suc_conv numeral_eq_Suc)
  have "ucast (drop_bit 24 (of_be32 bs)) = a"
    by (rule bit_word_eqI) (simp add: bs bit_ucast_iff bit_drop_bit_eq bit_of_be32 bit_byte add.commute)
  moreover have "ucast (drop_bit 16 (of_be32 bs)) = b"
    by (rule bit_word_eqI) (simp add: bs bit_ucast_iff bit_drop_bit_eq bit_of_be32 bit_byte add.commute)
  moreover have "ucast (drop_bit 8 (of_be32 bs)) = c"
    by (rule bit_word_eqI) (simp add: bs bit_ucast_iff bit_drop_bit_eq bit_of_be32 bit_byte add.commute)
  moreover have "ucast (of_be32 bs) = d"
    by (rule bit_word_eqI) (simp add: bs bit_ucast_iff bit_of_be32 bit_byte)
  ultimately show ?thesis by (simp add: be32_def bs)
qed
lemma le32_of_le32: "length bs = 4 \<Longrightarrow> le32 (of_le32 bs) = bs"
  using be32_of_be32 [of "rev bs"] by (simp add: le32_def of_le32_def)

text \<open>
  The number in the first word of the marshalled header is changed as an integer of the host, where it
  was written in network order: \<open>bump_xid d\<close>. \<open>htonlp\<close> and \<open>ntohlp\<close> convert; both are the same swap.
\<close>

definition bump_xid :: "u32 \<Rightarrow> byte list \<Rightarrow> byte list" where
  "bump_xid d hdr = store 0 (le32 (of_le32 (load 0 4 hdr) + d)) hdr"

definition put_word :: "nat \<Rightarrow> u32 \<Rightarrow> byte list \<Rightarrow> byte list" where
  "put_word k w hdr = store (4 * k) (be32 w) hdr"

definition get_word :: "nat \<Rightarrow> byte list \<Rightarrow> u32" where
  "get_word k hdr = of_be32 (load (4 * k) 4 hdr)"

text \<open>The header \<open>xdr_callhdr\<close> has written, and the number that follows one in it.\<close>

definition call_header :: "u32 \<Rightarrow> u32 \<Rightarrow> u32 \<Rightarrow> byte list" where
  "call_header xid prog vers = be32 xid @ be32 CALL @ be32 RPC_MSG_VERSION @ be32 prog @ be32 vers"

definition xid_step :: "u32 \<Rightarrow> u32 \<Rightarrow> u32" where
  "xid_step d xid = of_be32 (le32 (of_le32 (be32 xid) + d))"

lemma length_call_header [simp]: "length (call_header xid prog vers) = 20"
  by (simp add: call_header_def)

lemma bump_call_header:
  "bump_xid d (call_header xid prog vers @ rest) = call_header (xid_step d xid) prog vers @ rest"
  by (simp add: bump_xid_def call_header_def xid_step_def be32_of_be32 load_def store_def)

lemma get_word_header:
  "get_word 0 (call_header xid prog vers @ rest) = xid" "get_word 3 (call_header xid prog vers @ rest) = prog"
  "get_word 4 (call_header xid prog vers @ rest) = vers"
  by (simp_all add: get_word_def call_header_def load_def)

lemma put_word_header:
  "put_word 0 w (call_header xid prog vers @ rest) = call_header w prog vers @ rest"
  "put_word 3 w (call_header xid prog vers @ rest) = call_header xid w vers @ rest"
  "put_word 4 w (call_header xid prog vers @ rest) = call_header xid prog w @ rest"
  by (simp_all add: put_word_def call_header_def store_def)

text \<open>Counting back what was counted up restores the number: the swap is undone.\<close>

lemma xid_step_back: "xid_step (- d) (xid_step d xid) = xid"
  by (simp add: xid_step_def be32_of_be32 le32_of_le32)

lemma xid_step_neq: "d \<noteq> 0 \<Longrightarrow> xid_step d xid \<noteq> xid"
proof
  assume d: "d \<noteq> 0" and "xid_step d xid = xid"
  then have "be32 (of_be32 (le32 (of_le32 (be32 xid) + d))) = be32 xid" by (simp add: xid_step_def)
  then have "le32 (of_le32 (be32 xid) + d) = be32 xid" by (simp add: be32_of_be32)
  then have "of_le32 (be32 xid) + d = of_le32 (be32 xid)" by (metis le32_simps(2))
  with d show False by simp
qed

section \<open>The authenticator of a handle\<close>

text \<open>
  \<open>cl_auth\<close>: the null authenticator or a Unix one, \<open>None\<close> for a null pointer, which \<open>authnone_create\<close>
  returns when it finds no memory and which the handles' creation does not look at. The addresses and
  the time the Unix authenticator's operations depend on are \<open>auth_env\<close>.
\<close>

datatype client_auth = Auth_none authnone | Auth_unix auth

record auth_env =
  ae_verf :: u64
  ae_marsh :: u64
  ae_orig :: u64
  ae_now :: u32

definition AUTH_MARSHALL :: "client_auth \<Rightarrow> 's XDR \<Rightarrow> bool \<times> 's XDR" where
  "AUTH_MARSHALL a x = (case a of Auth_none ap \<Rightarrow> authnone_marshal (Some ap) x | Auth_unix u \<Rightarrow> authunix_marshal u x)"

definition authnone_validate :: "opaque_auth \<Rightarrow> bool" where
  "authnone_validate verf = True"

definition authnone_refresh :: bool where
  "authnone_refresh = False"

definition AUTH_VALIDATE :: "auth_env \<Rightarrow> client_auth \<Rightarrow> opaque_auth \<Rightarrow> bool \<times> client_auth" where
  "AUTH_VALIDATE e a verf =
     (case a of Auth_none ap \<Rightarrow> (authnone_validate verf, a)
      | Auth_unix u \<Rightarrow> (case authunix_validate (ae_verf e) (ae_marsh e) u verf of (ok, u) \<Rightarrow> (ok, Auth_unix u)))"

definition AUTH_REFRESH :: "auth_env \<Rightarrow> client_auth \<Rightarrow> bool \<times> client_auth" where
  "AUTH_REFRESH e a =
     (case a of Auth_none ap \<Rightarrow> (authnone_refresh, a)
      | Auth_unix u \<Rightarrow> (case authunix_refresh (ae_orig e) (ae_marsh e) (ae_now e) u of (ok, u) \<Rightarrow> (ok, Auth_unix u)))"

text \<open>What it puts on the wire, and when that is a credential and a verifier.\<close>

definition auth_wire :: "client_auth \<Rightarrow> byte list" where
  "auth_wire a = (case a of Auth_none ap \<Rightarrow> take (unat (mcnt ap)) (marshalled_client ap)
     | Auth_unix u \<Rightarrow> take (unat (au_mpos u)) (au_marshed u))"

definition auth_sends :: "client_auth \<Rightarrow> opaque_auth \<Rightarrow> opaque_auth \<Rightarrow> bool" where
  "auth_sends a cred verf \<longleftrightarrow> auth_ok cred \<and> auth_ok verf \<and> auth_wire a = enc_auth cred @ enc_auth verf"

lemma AUTH_MARSHALL_wire: "AUTH_MARSHALL a x = XDR_PUTBYTES x (auth_wire a)"
  by (simp add: AUTH_MARSHALL_def auth_wire_def authnone_marshal_def authunix_marshal_def split: client_auth.split)

lemma auth_sends_none:
  assumes "authnone_create addr True None = Some ap"
  shows "auth_sends (Auth_none ap) null_auth null_auth"
proof -
  have ok: "auth_ok null_auth" by (simp add: auth_ok_def auth_bytes_def null_auth_def)
  let ?x = "xdrmem_create addr (zeros 20) 20 XDR_ENCODE 0"
  have len: "length (enc_auth null_auth) = 8"
    by (simp add: enc_auth_def enc_counted_def length_enc_opaque auth_bytes_def null_auth_def xdr_pad_def)
  obtain x where x: "two_auths (null_auth, null_auth) ?x = (True, (null_auth, null_auth), x)"
    "xm_buf (x_private x) = store 0 (enc_auth null_auth @ enc_auth null_auth) (zeros 20)"
    "XDR_GETPOS x = of_nat (length (enc_auth null_auth @ enc_auth null_auth))"
    by (rule xdrmem_encode [OF mem_aligned.encodes_two_auths [OF ok ok] mem_unaligned.encodes_two_auths [OF ok ok],
          of 20 "zeros 20"]) (use len in simp_all)
  obtain r c x1 where c: "xdr_opaque_auth null_auth ?x = (r, c, x1)" by (cases "xdr_opaque_auth null_auth ?x")
  obtain r2 v x2 where v: "xdr_opaque_auth null_auth x1 = (r2, v, x2)" by (cases "xdr_opaque_auth null_auth x1")
  have "x2 = x" using x(1) c v by (auto simp: two_auths_def xdr_field_def split: if_splits)
  moreover have "ap = \<lparr>marshalled_client = xm_buf (x_private x2), mcnt = XDR_GETPOS x2\<rparr>"
    using assms c v by (simp add: authnone_create_def)
  ultimately show ?thesis
    using x(2,3) len ok by (simp add: auth_sends_def auth_wire_def store_def)
qed

lemma auth_sends_unix:
  "marshalled u \<Longrightarrow> auth_ok (ah_cred u) \<Longrightarrow> auth_ok (ah_verf u) \<Longrightarrow> auth_sends (Auth_unix u) (ah_cred u) (ah_verf u)"
  by (simp add: auth_sends_def auth_wire_def marshalled_def)

lemma validate_null [simp]: "oa_flavor verf \<noteq> AUTH_SHORT \<Longrightarrow> AUTH_VALIDATE e a verf = (True, a)"
  by (simp add: AUTH_VALIDATE_def authnone_validate_def authunix_validate_def split: client_auth.split)

section \<open>The request\<close>

text \<open>
  The procedure number, the authenticator and the arguments behind the header, whatever the stream is.
  A null authenticator pointer is only followed once the procedure number is written.
\<close>

definition clnt_put_args :: "u32 \<Rightarrow> client_auth option \<Rightarrow> ('s, 'a) xdrproc \<Rightarrow> 'a \<Rightarrow> 's XDR \<Rightarrow> (bool \<times> 's XDR) run" where
  "clnt_put_args proc a xargs args x =
     (case XDR_PUTLONG x proc of (ok, x) \<Rightarrow>
      if \<not> ok then Ret (False, x)
      else case a of None \<Rightarrow> Fault
      | Some a \<Rightarrow>
      case AUTH_MARSHALL a x of (ok, x) \<Rightarrow>
      if \<not> ok then Ret (False, x)
      else case xargs args x of (ok, _, x) \<Rightarrow> Ret (ok, x))"

definition clnt_put_call ::
  "byte list \<Rightarrow> u32 \<Rightarrow> client_auth option \<Rightarrow> ('s, 'a) xdrproc \<Rightarrow> 'a \<Rightarrow> 's XDR \<Rightarrow> (bool \<times> 's XDR) run" where
  "clnt_put_call hdr proc a xargs args x =
     (case XDR_PUTBYTES x hdr of (ok, x) \<Rightarrow>
      if \<not> ok then Ret (False, x) else clnt_put_args proc a xargs args x)"

text \<open>The same as filters, which is how the streams' lemmas apply.\<close>

definition args_filter :: "u32 \<Rightarrow> client_auth \<Rightarrow> ('s, 'a) xdrproc \<Rightarrow> ('s, 'a) xdrproc" where
  "args_filter proc a xargs args x =
     (case clnt_put_args proc (Some a) xargs args x of Ret (ok, x) \<Rightarrow> (ok, args, x) | _ \<Rightarrow> (False, args, x))"

definition call_filter :: "byte list \<Rightarrow> u32 \<Rightarrow> client_auth \<Rightarrow> ('s, 'a) xdrproc \<Rightarrow> ('s, 'a) xdrproc" where
  "call_filter hdr proc a xargs args x =
     (case clnt_put_call hdr proc (Some a) xargs args x of Ret (ok, x) \<Rightarrow> (ok, args, x) | _ \<Rightarrow> (False, args, x))"

lemma clnt_put_args_filter:
  "clnt_put_args proc (Some a) xargs args x = (case args_filter proc a xargs args x of (ok, _, x) \<Rightarrow> Ret (ok, x))"
  by (simp add: args_filter_def clnt_put_args_def split: prod.split)

lemma clnt_put_call_filter:
  "clnt_put_call hdr proc (Some a) xargs args x = (case call_filter hdr proc a xargs args x of (ok, _, x) \<Rightarrow> Ret (ok, x))"
  by (simp add: call_filter_def clnt_put_call_def clnt_put_args_def split: prod.split)

definition put_bytes :: "byte list \<Rightarrow> ('s, 'a) xdrproc" where
  "put_bytes bs v x = (case XDR_PUTBYTES x bs of (ok, x) \<Rightarrow> (ok, v, x))"

definition put_long :: "u32 \<Rightarrow> ('s, 'a) xdrproc" where
  "put_long w v x = (case XDR_PUTLONG x w of (ok, x) \<Rightarrow> (ok, v, x))"

context xdr_sink
begin

lemma encodes_callhdr_header:
  fixes m :: "('s, 'r) rpc_msg"
  shows "encodes xdr_callhdr m (m\<lparr>rm_direction := CALL, rm_call := (rm_call m)\<lparr>cb_rpcvers := RPC_MSG_VERSION\<rparr>\<rparr>)
    (call_header (rm_xid m) (cb_prog (rm_call m)) (cb_vers (rm_call m)))"
proof -
  let ?m = "m\<lparr>rm_direction := CALL, rm_call := (rm_call m)\<lparr>cb_rpcvers := RPC_MSG_VERSION\<rparr>\<rparr>"
  let ?seq = "xdr_seq [xdr_field rm_xid rm_xid_update xdr_u_int32_t,
    xdr_field rm_direction rm_direction_update xdr_enum,
    xdr_field (\<lambda>m. cb_rpcvers (rm_call m)) (\<lambda>f. rm_call_update (cb_rpcvers_update f)) xdr_u_int32_t,
    xdr_field (\<lambda>m. cb_prog (rm_call m)) (\<lambda>f. rm_call_update (cb_prog_update f)) xdr_u_int32_t,
    xdr_field (\<lambda>m. cb_vers (rm_call m)) (\<lambda>f. rm_call_update (cb_vers_update f)) xdr_u_int32_t] :: ('s, ('s, 'r) rpc_msg) xdrproc"
  have "encodes ?seq ?m ?m (call_header (rm_xid m) (cb_prog (rm_call m)) (cb_vers (rm_call m)))"
    by (rule encodes_eq, (rule encodes_seq encodes_ints)+) (simp_all add: call_header_def)
  then show ?thesis
    by (rule encodes_via) (simp add: xdr_callhdr_def Let_def del: xdr_seq.simps)
qed

lemma encodes_put_bytes: "length bs < 2 ^ 32 \<Longrightarrow> encodes (put_bytes bs) v v bs"
  using putbytes [of _ bs] by (fastforce intro!: encodesI simp: put_bytes_def XDR_PUTBYTES_def)

lemma encodes_put_long: "encodes (put_long w) v v (be32 w)"
  using putlong [of _ _ w] by (fastforce intro!: encodesI simp: put_long_def XDR_PUTLONG_def)

lemma encodes_args_filter:
  assumes "length (auth_wire a) < 2 ^ 32" and "encodes xargs args args' bs"
  shows "encodes (args_filter proc a xargs) args args (be32 proc @ auth_wire a @ bs)"
  by (rule encodes_bind3 [OF encodes_put_long [of proc args] encodes_put_bytes [OF assms(1), of args] assms(2)])
    (auto simp: args_filter_def clnt_put_args_def AUTH_MARSHALL_wire put_long_def put_bytes_def split: prod.splits)

lemma encodes_call_filter:
  assumes "length hdr < 2 ^ 32" and "length (auth_wire a) < 2 ^ 32" and "encodes xargs args args' bs"
  shows "encodes (call_filter hdr proc a xargs) args args (hdr @ be32 proc @ auth_wire a @ bs)"
  by (rule encodes_bind [OF encodes_put_bytes [OF assms(1), of args] encodes_args_filter [OF assms(2,3)]])
    (auto simp: call_filter_def clnt_put_call_def args_filter_def put_bytes_def split: prod.splits run.splits)

end

text \<open>The header, marshalled when a handle is created into its 24 bytes.\<close>

lemma callhdr_created:
  assumes "length blk = 24"
  obtains x m' where "xdr_callhdr m (xdrmem_create addr blk 24 XDR_ENCODE h) = (True, m', x)"
    and "xm_buf (x_private x) = call_header (rm_xid m) (cb_prog (rm_call m)) (cb_vers (rm_call m)) @ drop 20 blk"
    and "XDR_GETPOS x = 20"
proof -
  let ?H = "call_header (rm_xid m) (cb_prog (rm_call m)) (cb_vers (rm_call m))"
  obtain x where "xdr_callhdr m (xdrmem_create addr blk 24 XDR_ENCODE h) =
      (True, m\<lparr>rm_direction := CALL, rm_call := (rm_call m)\<lparr>cb_rpcvers := RPC_MSG_VERSION\<rparr>\<rparr>, x)"
    "xm_buf (x_private x) = store 0 ?H blk" "XDR_GETPOS x = of_nat (length ?H)"
    by (rule xdrmem_encode [OF mem_aligned.encodes_callhdr_header mem_unaligned.encodes_callhdr_header, of m 24 blk])
      (use assms in simp_all)
  then show thesis by (intro that) (simp_all add: store_def)
qed

text \<open>The message that is on the wire then.\<close>

definition the_call :: "u32 \<Rightarrow> u32 \<Rightarrow> u32 \<Rightarrow> u32 \<Rightarrow> opaque_auth \<Rightarrow> opaque_auth \<Rightarrow> ('s, 'r) rpc_msg \<Rightarrow> ('s, 'r) rpc_msg" where
  "the_call xid prog vers proc cred verf junk = junk\<lparr>rm_xid := xid, rm_direction := CALL,
     rm_call := \<lparr>cb_rpcvers = RPC_MSG_VERSION, cb_prog = prog, cb_vers = vers, cb_proc = proc, cb_cred = cred, cb_verf = verf\<rparr>\<rparr>"

lemma the_call_wire:
  assumes "auth_sends a cred verf"
  shows "callmsg_ok (the_call xid prog vers proc cred verf junk)"
    and "call_image (the_call xid prog vers proc cred verf junk) (call_header xid prog vers @ be32 proc @ auth_wire a)"
proof -
  show ok: "callmsg_ok (the_call xid prog vers proc cred verf junk)"
    using assms by (simp add: callmsg_ok_def the_call_def auth_sends_def)
  have "enc_callmsg (the_call xid prog vers proc cred verf junk) = call_header xid prog vers @ be32 proc @ auth_wire a"
    using assms by (simp add: enc_callmsg_def call_words_def the_call_def call_header_def auth_sends_def)
  with call_image_enc [OF ok] show "call_image (the_call xid prog vers proc cred verf junk)
      (call_header xid prog vers @ be32 proc @ auth_wire a)" by simp
qed

lemma auth_wire_length: "auth_sends a cred verf \<Longrightarrow> length (auth_wire a) \<le> 822"
  using auth_ok_length(3) [of cred] auth_ok_length(3) [of verf] xdr_pad_less [of "length (auth_bytes cred)"]
    xdr_pad_less [of "length (auth_bytes verf)"]
  by (simp add: auth_sends_def enc_auth_def enc_counted_def length_enc_opaque)

section \<open>Memory streams that are used again and again\<close>

text \<open>
  A stream over the whole of a buffer that rewinding works on (\<open>placed\<close>), wherever it has got to; and
  one that is being read, with the bytes that come next.
\<close>

definition mem_at :: "u64 \<Rightarrow> u32 \<Rightarrow> xdr_mem XDR \<Rightarrow> bool" where
  "mem_at b n x \<longleftrightarrow> (let m = x_private x in placed n (b, xm_buf m) \<and> xm_base m = b \<and>
     x_ops x = x_ops (xdrmem_create b [] 0 XDR_DECODE 0) \<and> xm_ok m \<and> xm_off m + unat (xm_handy m) = unat n)"

definition reading :: "u64 \<Rightarrow> u32 \<Rightarrow> xdr_mem XDR \<Rightarrow> byte list \<Rightarrow> bool" where
  "reading b n x bs \<longleftrightarrow> mem_at b n x \<and> x_op x = XDR_DECODE \<and> xm_ready (x_private x) bs"

lemma mem_at_create: "placed n (b, buf) \<Longrightarrow> mem_at b n (xdrmem_create b buf n op h)"
  using xm_start [of n buf b] by (simp add: mem_at_def placed_def xdrmem_create_def Let_def)

lemma mem_at_lend: "mem_at b n x \<Longrightarrow> length buf = unat n \<Longrightarrow> mem_at b n (x\<lparr>x_private := (x_private x)\<lparr>xm_buf := buf\<rparr>\<rparr>)"
  by (simp add: mem_at_def placed_def xm_ok_def Let_def)

lemma mem_at_op [simp]: "mem_at b n (x\<lparr>x_op := op\<rparr>) = mem_at b n x"
  by (simp add: mem_at_def)

lemma mem_at_rewind:
  assumes "mem_at b n x"
  shows "XDR_SETPOS (x\<lparr>x_op := op\<rparr>) 0 = (True, xdrmem_create b (xm_buf (x_private x)) n op (x_mem x))"
proof -
  let ?su = "\<lparr>su_iosz = n, su_xid = 0, su_xdrs = x, su_cache = None, dg_sent = []\<rparr>"
  have "dg_buffer_ok ?su" and b: "xm_base (x_private x) = b"
    using assms by (simp_all add: mem_at_def dg_buffer_ok_def Let_def)
  from setpos_rewinds [OF this(1), of op] b show ?thesis by (simp add: rpc_buffer_def)
qed

lemma mem_at_encode:
  assumes "mem_aligned.encodes p v v' bs" and "mem_unaligned.encodes p v v' bs" and "placed n (b, buf)" and "length bs \<le> unat n"
  obtains x where "p v (xdrmem_create b buf n XDR_ENCODE m) = (True, v', x)" and "mem_at b n x"
    and "xm_buf (x_private x) = store 0 bs buf" and "x_mem x = m" and "XDR_GETPOS x = of_nat (length bs)"
proof -
  let ?s = "\<lparr>xm_base = b, xm_priv = b, xm_handy = n, xm_buf = buf\<rparr>"
  have len: "length buf = unat n" "unat n < 2 ^ 63" using assms(3) by (simp_all add: placed_def)
  have start: "xm_ok ?s" "xm_off ?s = 0" "xdrmem_getpos ?s = 0" using len xm_start [of n buf b] by simp_all
  have fits: "xm_fits ?s (length bs + 0)" using assms(4) start by (simp add: xm_fits_def)
  have wrote: "xm_buf s' = store 0 bs buf \<and> xm_base s' = b \<and> xm_ok s' \<and> xm_off s' + unat (xm_handy s') = unat n \<and>
      xdrmem_getpos s' = of_nat (length bs)" if "xm_wrote ?s bs s'" for s'
  proof -
    have s': "s' = xm_write bs ?s" using that by (simp add: xm_wrote_def)
    have "length (store 0 bs buf) = length buf" using len assms(4) by (simp add: block_simps)
    moreover have "xm_off (xm_skip (length bs) ?s) = length bs"
      "unat (xm_handy (xm_skip (length bs) ?s)) = unat n - length bs"
      using xm_off_skip [OF start(1), of "length bs"] xm_handy_skip [of "length bs" ?s] start assms(4) by simp_all
    moreover have "xm_ok (xm_skip (length bs) ?s)" using xm_ok_skip [OF start(1), of "length bs"] assms(4) by simp
    moreover have "xdrmem_getpos (xm_skip (length bs) ?s) = of_nat (length bs)"
      using xm_getpos_skip [of "length bs" ?s] start(3) by simp
    ultimately show ?thesis
      unfolding s' xm_write_def using start(2) assms(4)
      by (simp add: xm_ok_buf) (simp add: xm_skip_def xdrmem_getpos_def)
  qed
  have len': "length (store 0 bs buf) = unat n" using len assms(4) by (simp add: block_simps)
  show thesis
  proof (cases "(ucast b :: u32) AND 3 \<noteq> 0")
    case True
    obtain s' where "p v (mkXDR XDR_ENCODE xdrmem_ops_unaligned ?s m) = (True, v', mkXDR XDR_ENCODE xdrmem_ops_unaligned s' m)"
      "xm_wrote ?s bs s'" by (rule mem_unaligned.encodesE [OF assms(2) fits])
    with True wrote [of s'] len' assms(3) show thesis
      by (intro that [of "mkXDR XDR_ENCODE xdrmem_ops_unaligned s' m"])
        (simp_all add: xdrmem_create_def mem_at_def placed_def XDR_GETPOS_def xdrmem_getpostn)
  next
    case False
    obtain s' where "p v (mkXDR XDR_ENCODE xdrmem_ops_aligned ?s m) = (True, v', mkXDR XDR_ENCODE xdrmem_ops_aligned s' m)"
      "xm_wrote ?s bs s'" by (rule mem_aligned.encodesE [OF assms(1) fits])
    with False wrote [of s'] len' assms(3) show thesis
      by (intro that [of "mkXDR XDR_ENCODE xdrmem_ops_aligned s' m"])
        (simp_all add: xdrmem_create_def mem_at_def placed_def XDR_GETPOS_def xdrmem_getpostn)
  qed
qed

lemma reading_create:
  assumes "placed n (b, buf)" and "length bs \<le> unat n" and "take (length bs) buf = bs"
  shows "reading b n (xdrmem_create b buf n XDR_DECODE h) bs"
proof -
  have len: "length buf = unat n" "unat n < 2 ^ 63" using assms(1) by (simp_all add: placed_def)
  with xm_start [of n buf b] assms mem_at_create [OF assms(1)] show ?thesis
    by (simp add: reading_def xdrmem_create_def xm_ready_def load_def)
qed

lemma reading_decode:
  assumes "reading b n x (bs @ rest)" and "\<And>buf. buf_aligned.decodes b buf p z v bs k"
    and "\<And>buf. buf_unaligned.decodes b buf p z v bs k" and "x_mem x = h + k"
  obtains x' where "p z x = (True, v, x')" and "reading b n x' rest" and "x_mem x' = h"
    and "xm_buf (x_private x') = xm_buf (x_private x)"
proof -
  let ?buf = "xm_buf (x_private x)"
  have len: "length ?buf = unat n" "unat n < 2 ^ 31"
    using assms(1) by (simp_all add: reading_def mem_at_def placed_def Let_def)
  have from_x: "xm_from b ?buf (x_private x) (bs @ rest)"
    using assms(1) len by (simp add: reading_def mem_at_def xm_from_def Let_def)
  have ends: "reading b n (mkXDR XDR_DECODE (x_ops x) s' h) rest \<and> xm_buf s' = ?buf" if "xm_from b ?buf s' rest" for s'
    using that assms(1) len by (auto simp: reading_def mem_at_def xm_from_def xm_ready_def Let_def)
  have x: "x = mkXDR XDR_DECODE (x_ops x) (x_private x) (h + k)"
    using assms(1,4) by (cases x) (simp add: reading_def)
  have ops: "x_ops x = x_ops (xdrmem_create b [] 0 XDR_DECODE 0)"
    using assms(1) by (simp add: reading_def mem_at_def Let_def)
  show thesis
  proof (cases "(ucast b :: u32) AND 3 \<noteq> 0")
    case True
    then have u: "x_ops x = xdrmem_ops_unaligned" using ops by (simp add: xdrmem_create_def)
    obtain s' where "p z (mkXDR XDR_DECODE xdrmem_ops_unaligned (x_private x) (h + k)) = (True, v, mkXDR XDR_DECODE xdrmem_ops_unaligned s' h)"
      "xm_from b ?buf s' rest" by (rule buf_unaligned.decodesE [OF assms(3) from_x])
    with ends [of s'] u x show thesis by (intro that [of "mkXDR XDR_DECODE (x_ops x) s' h"]) simp_all
  next
    case False
    then have u: "x_ops x = xdrmem_ops_aligned" using ops by (simp add: xdrmem_create_def)
    obtain s' where "p z (mkXDR XDR_DECODE xdrmem_ops_aligned (x_private x) (h + k)) = (True, v, mkXDR XDR_DECODE xdrmem_ops_aligned s' h)"
      "xm_from b ?buf s' rest" by (rule buf_aligned.decodesE [OF assms(2) from_x])
    with ends [of s'] u x show thesis by (intro that [of "mkXDR XDR_DECODE (x_ops x) s' h"]) simp_all
  qed
qed

lemma reading_mem_at: "reading b n x bs \<Longrightarrow> mem_at b n x"
  by (simp add: reading_def)

lemma placed_store: "placed n (b, buf) \<Longrightarrow> length bs \<le> unat n \<Longrightarrow> placed n (b, store 0 bs buf)"
  by (simp add: placed_def block_simps)

end
