(* ===== verification/Raw.thy ===== *)
theory Raw
  imports Clnt
begin

text \<open>
  \<open>libsrc/clnt_raw.c\<close> and \<open>libsrc/svc_raw.c\<close>: a client and a server in one process that hand the messages
  over in one buffer. The client runs the server's dispatcher (\<open>svc_getreq_common(-1)\<close>) between writing
  its call and reading the reply.

  The buffer is one block of memory with two streams over it. Its contents are \<open>raw_combuf\<close>; each side
  is lent them while it runs. The main fact is the whole way of a call: the results the procedure
  computes from the arguments are the results the client gets.
\<close>

section \<open>State\<close>

abbreviation (input) UDPMSGSIZE :: u32 where "UDPMSGSIZE \<equiv> 8800"

record clntraw_private =
  rc_auth :: "client_auth option"
  rc_xdrs :: "xdr_mem XDR"
  rc_callmsg :: "byte list"
  rc_mcnt :: u32

record svc_raw_private =
  srp_xdrs :: "xdr_mem XDR"

type_synonym raw_server = "svc_raw_private svc"

text \<open>\<open>raw_combuf\<close> is the address and the contents of \<open>__rpc_rawcombuf\<close>, \<open>raw_srv\<close> the pointer \<open>svc_raw_private\<close>.\<close>

record raw =
  raw_combuf :: "(u64 \<times> byte list) option"
  raw_srv :: "nat option"
  raw_clnt :: "clntraw_private option"
  raw_svc :: raw_server

section \<open>The server's transport\<close>

text \<open>
  \<open>at\<close> is the address the block is allocated at, \<open>blk\<close> that of the buffer with what is in it, \<open>h\<close> what
  the filters may allocate. When registering fails the block is freed and \<open>svc_raw_private\<close> still points to it.
\<close>

definition raw_alloc :: "raw \<Rightarrow> raw option" where
  "raw_alloc st =
     (if svc_heap (raw_svc st) = 0 then None
      else Some (st\<lparr>raw_svc := (raw_svc st)\<lparr>svc_heap := svc_heap (raw_svc st) - 1\<rparr>\<rparr>))"

definition raw_free :: "raw \<Rightarrow> raw" where
  "raw_free st = st\<lparr>raw_svc := (raw_svc st)\<lparr>svc_heap := svc_heap (raw_svc st) + 1\<rparr>\<rparr>"

definition raw_need_buf :: "u64 \<times> byte list \<Rightarrow> raw \<Rightarrow> raw option" where
  "raw_need_buf blk st =
     (case raw_combuf st of Some _ \<Rightarrow> Some st
      | None \<Rightarrow> map_option (\<lambda>st. st\<lparr>raw_combuf := Some blk\<rparr>) (raw_alloc st))"

definition svc_raw_xprt :: "nat \<Rightarrow> u64 \<times> byte list \<Rightarrow> svc_raw_private svcxprt" where
  "svc_raw_xprt h blk =
     \<lparr>xp_fd = - 1, xp_port = 0, xp_tp = None, xp_netid = None, xp_ltaddr = None, xp_rtaddr = None,
      xp_verf = \<lparr>oa_flavor = 0, oa_base = Some (zeros 400), oa_length = 0\<rparr>,
      xp_p1 = \<lparr>srp_xdrs = xdrmem_create (fst blk) (snd blk) UDPMSGSIZE XDR_DECODE h\<rparr>\<rparr>"

definition svc_raw_create :: "nat \<Rightarrow> nat \<Rightarrow> u64 \<times> byte list \<Rightarrow> raw \<Rightarrow> (nat option \<times> raw) run" where
  "svc_raw_create at h blk st =
     (let finish = (\<lambda>srp x st. case raw_combuf st of None \<Rightarrow> Fault
        | Some buf \<Rightarrow>
          let st = st\<lparr>raw_svc := (raw_svc st)\<lparr>svc_mem := (svc_mem (raw_svc st))(srp \<mapsto> x buf)\<rparr>\<rparr> in
          run_bind (xprt_register srp (raw_svc st)) (\<lambda>(ok, s).
            if ok then Ret (Some srp, st\<lparr>raw_svc := s\<rparr>)
            else Ret (None, raw_free (st\<lparr>raw_svc := s\<lparr>svc_mem := (svc_mem s)(srp := None)\<rparr>\<rparr>)))) in
      case raw_srv st of
        Some srp \<Rightarrow>
          (case svc_mem (raw_svc st) srp of None \<Rightarrow> Fault
           | Some x \<Rightarrow> finish srp (\<lambda>buf. x\<lparr>xp_fd := - 1, xp_port := 0,
               xp_verf := (xp_verf x)\<lparr>oa_base := Some (zeros 400)\<rparr>, xp_p1 := xp_p1 (svc_raw_xprt h buf)\<rparr>) st)
      | None \<Rightarrow>
          (case raw_alloc st of None \<Rightarrow> Ret (None, st)
           | Some st1 \<Rightarrow>
          (case raw_need_buf blk st1 of None \<Rightarrow> Ret (None, st)
           | Some st2 \<Rightarrow> finish at (svc_raw_xprt h) (st2\<lparr>raw_srv := Some at\<rparr>))))"

definition svc_raw_stat :: "svc_raw_private \<Rightarrow> xprt_stat \<times> svc_raw_private" where
  "svc_raw_stat p = (XPRT_IDLE, p)"

text \<open>The operations work on \<open>svc_raw_private\<close>, whichever transport they are called on; there is only that one.\<close>

definition svc_raw_recv ::
  "nat option \<Rightarrow> nat \<Rightarrow> (xdr_mem, 'r) rpc_msg \<Rightarrow> raw_server \<Rightarrow> (bool \<times> (xdr_mem, 'r) rpc_msg \<times> raw_server) run" where
  "svc_raw_recv srp p msg s =
     (case srp of None \<Rightarrow> Ret (False, msg, s)
      | Some q \<Rightarrow>
      case svc_mem s q of None \<Rightarrow> Fault
      | Some x \<Rightarrow>
      case XDR_SETPOS ((srp_xdrs (xp_p1 x))\<lparr>x_op := XDR_DECODE\<rparr>) 0 of (_, xdrs) \<Rightarrow>
      case xdr_callmsg msg xdrs of (ok, msg, xdrs) \<Rightarrow>
        Ret (ok, msg, s\<lparr>svc_mem := (svc_mem s)(q \<mapsto> x\<lparr>xp_p1 := (xp_p1 x)\<lparr>srp_xdrs := xdrs\<rparr>\<rparr>)\<rparr>))"

definition svc_raw_reply ::
  "nat option \<Rightarrow> svc_raw_private svcxprt \<Rightarrow> (xdr_mem, 'r) rpc_msg \<Rightarrow> (bool \<times> svc_raw_private) run" where
  "svc_raw_reply srp x msg =
     (case srp of None \<Rightarrow> Ret (False, xp_p1 x)
      | Some _ \<Rightarrow>
      case XDR_SETPOS ((srp_xdrs (xp_p1 x))\<lparr>x_op := XDR_ENCODE\<rparr>) 0 of (_, xdrs) \<Rightarrow>
      case xdr_replymsg msg xdrs of (ok, _, xdrs) \<Rightarrow> Ret (ok, (xp_p1 x)\<lparr>srp_xdrs := xdrs\<rparr>))"

definition svc_raw_getargs :: "(xdr_mem, 'a) xdrproc \<Rightarrow> 'a \<Rightarrow> svc_raw_private \<Rightarrow> bool \<times> 'a \<times> svc_raw_private" where
  "svc_raw_getargs xdr_args args p = (case xdr_args args (srp_xdrs p) of (ok, args, x) \<Rightarrow> (ok, args, p\<lparr>srp_xdrs := x\<rparr>))"

definition svc_raw_freeargs :: "(xdr_mem, 'a) xdrproc \<Rightarrow> 'a \<Rightarrow> svc_raw_private \<Rightarrow> bool \<times> 'a \<times> svc_raw_private" where
  "svc_raw_freeargs xdr_args args p =
     (case xdr_args args ((srp_xdrs p)\<lparr>x_op := XDR_FREE\<rparr>) of (ok, args, x) \<Rightarrow> (ok, args, p\<lparr>srp_xdrs := x\<rparr>))"

definition svc_raw_destroy :: "nat \<Rightarrow> raw_server \<Rightarrow> raw_server run" where
  "svc_raw_destroy p s = Ret s"

definition svc_raw_control :: "u32 \<Rightarrow> 'a \<Rightarrow> bool \<times> 'a" where
  "svc_raw_control rq in_val = (False, in_val)"

definition svc_raw_ops :: "nat option \<Rightarrow> (svc_raw_private, xdr_mem, 'r) xp_ops" where
  "svc_raw_ops srp =
     \<lparr>xp_recv = svc_raw_recv srp, xp_stat = svc_raw_stat, xp_reply = svc_raw_reply srp, xp_destroy = svc_raw_destroy\<rparr>"

section \<open>The client's handle\<close>

text \<open>
  \<open>xid\<close> is what the local call message holds where \<open>rm_xid\<close> is never assigned, \<open>addr\<close> the address of
  \<open>mashl_callmsg\<close>. The client object is part of the private structure.
\<close>

definition clnt_raw_create ::
  "u64 \<Rightarrow> u32 \<Rightarrow> (xdr_mem, 'r) rpc_msg \<Rightarrow> u32 \<Rightarrow> u32 \<Rightarrow> nat \<Rightarrow> u64 \<times> byte list \<Rightarrow> client_auth option \<Rightarrow> raw \<Rightarrow> bool \<times> raw" where
  "clnt_raw_create addr xid junk prog vers h blk auth st =
     (let finish = (\<lambda>c st. case raw_combuf st of None \<Rightarrow> (False, st)
        | Some (b, buf) \<Rightarrow>
          let msg = junk\<lparr>rm_xid := xid, rm_direction := CALL,
                rm_call := (rm_call junk)\<lparr>cb_rpcvers := RPC_MSG_VERSION, cb_prog := prog, cb_vers := vers\<rparr>\<rparr> in
          (case xdr_callhdr msg (xdrmem_create addr (rc_callmsg c) 24 XDR_ENCODE 0) of (_, _, x) \<Rightarrow>
             (True, st\<lparr>raw_clnt := Some \<lparr>rc_auth = auth,
                rc_xdrs = xdrmem_create b buf UDPMSGSIZE XDR_FREE h,
                rc_callmsg = xm_buf (x_private x), rc_mcnt = XDR_GETPOS x\<rparr>\<rparr>))) in
      case raw_clnt st of
        Some c \<Rightarrow> finish c st
      | None \<Rightarrow>
          (case raw_alloc st of None \<Rightarrow> (False, st)
           | Some st1 \<Rightarrow>
          (case raw_need_buf blk st1 of None \<Rightarrow> (False, st)
           | Some st2 \<Rightarrow>
               finish \<lparr>rc_auth = None, rc_xdrs = xdrmem_create 0 [] 0 XDR_FREE 0, rc_callmsg = zeros 24, rc_mcnt = 0\<rparr> st2)))"

section \<open>The call\<close>

definition raw_lend :: "byte list \<Rightarrow> xdr_mem XDR \<Rightarrow> xdr_mem XDR" where
  "raw_lend buf x = x\<lparr>x_private := (x_private x)\<lparr>xm_buf := buf\<rparr>\<rparr>"

text \<open>Running the dispatcher with the buffer, and what is in the buffer afterwards.\<close>

definition raw_dispatch ::
  "nat \<Rightarrow> (svc_raw_private, xdr_mem, 'r) server \<Rightarrow> nat option \<Rightarrow> (xdr_mem, 'r) rpc_msg \<Rightarrow> byte list \<Rightarrow> raw_server \<Rightarrow>
     (byte list \<times> raw_server) run" where
  "raw_dispatch fuel sv srp z buf s =
     (let get = (\<lambda>s. case srp of None \<Rightarrow> None | Some q \<Rightarrow> svc_mem s q);
          s = (case get s of None \<Rightarrow> s
               | Some x \<Rightarrow> s\<lparr>svc_mem := (svc_mem s)(the srp \<mapsto> x\<lparr>xp_p1 := (xp_p1 x)\<lparr>srp_xdrs := raw_lend buf (srp_xdrs (xp_p1 x))\<rparr>\<rparr>)\<rparr>)
      in run_bind (svc_getreq_common fuel sv (- 1) z s) (\<lambda>s.
           Ret (case get s of None \<Rightarrow> buf | Some x \<Rightarrow> xm_buf (x_private (srp_xdrs (xp_p1 x))), s)))"

text \<open>Writing the call at the beginning of the buffer.\<close>

definition raw_send ::
  "u32 \<Rightarrow> (xdr_mem, 'a) xdrproc \<Rightarrow> 'a \<Rightarrow> byte list \<Rightarrow> clntraw_private \<Rightarrow> (bool \<times> clntraw_private) run" where
  "raw_send proc xargs args buf c =
     (case XDR_SETPOS ((raw_lend buf (rc_xdrs c))\<lparr>x_op := XDR_ENCODE\<rparr>) 0 of (_, x) \<Rightarrow>
      let hdr = bump_xid 1 (rc_callmsg c) in
      run_bind (clnt_put_call (take (unat (rc_mcnt c)) hdr) proc (rc_auth c) xargs args x) (\<lambda>(ok, x).
        Ret (ok, c\<lparr>rc_callmsg := hdr, rc_xdrs := x\<rparr>)))"

text \<open>
  Reading the reply: the results and the status, and whether the call is made again. A reply that
  cannot be decoded is freed. \<open>error\<close> is the local \<open>struct rpc_err\<close>.
\<close>

definition raw_receive ::
  "auth_env \<Rightarrow> (xdr_mem, 'r) rpc_msg \<Rightarrow> rpc_err \<Rightarrow> (xdr_mem, 'r) xdrproc \<Rightarrow> 'r \<Rightarrow> byte list \<Rightarrow> clntraw_private \<Rightarrow>
     (bool \<times> clnt_stat \<times> 'r \<times> clntraw_private) run" where
  "raw_receive ae junk error xres res buf c =
     (case XDR_SETPOS ((raw_lend buf (rc_xdrs c))\<lparr>x_op := XDR_DECODE\<rparr>) 0 of (_, x) \<Rightarrow>
      let msg = junk\<lparr>rm_reply := (rm_reply junk)\<lparr>rp_acpt := (rp_acpt (rm_reply junk))
                  \<lparr>ar_verf := null_auth, ar_results_where := res, ar_results_proc := xres\<rparr>\<rparr>\<rparr>;
          results = (\<lambda>m. ar_results_where (rp_acpt (rm_reply m))) in
      case xdr_replymsg msg x of (ok, msg, x) \<Rightarrow>
      if \<not> ok
      then (case xdr_replymsg msg (x\<lparr>x_op := XDR_FREE\<rparr>) of (_, msg, y) \<Rightarrow>
              Ret (False, RPC_CANTDECODERES, results msg, c\<lparr>rc_xdrs := y\<lparr>x_op := x_op x\<rparr>\<rparr>))
      else let status = re_status (seterr_reply msg error); verf = ar_verf (rp_acpt (rm_reply msg)) in
      case rc_auth c of None \<Rightarrow> Fault
      | Some a \<Rightarrow>
      if status = RPC_SUCCESS
      then (case AUTH_VALIDATE ae a verf of (ok, a) \<Rightarrow>
            if \<not> ok then Ret (False, RPC_AUTHERROR, results msg, c\<lparr>rc_auth := Some a, rc_xdrs := x\<rparr>)
            else (case AUTH_VALIDATE ae a verf of (ok, a) \<Rightarrow>
                  let status = (if ok then status else RPC_AUTHERROR);
                      x = (if oa_base verf = None then x else snd (snd (xdr_opaque_auth verf (x\<lparr>x_op := XDR_FREE\<rparr>)))) in
                  Ret (False, status, results msg, c\<lparr>rc_auth := Some a, rc_xdrs := x\<rparr>)))
      else (case AUTH_REFRESH ae a of (again, a) \<Rightarrow>
            Ret (again, status, results msg, c\<lparr>rc_auth := Some a, rc_xdrs := x\<rparr>)))"

text \<open>What a call is made with besides its arguments: the server, the environment and the junk on the stack.\<close>

record 'r raw_env =
  re_server :: "(svc_raw_private, xdr_mem, 'r) server"
  re_fuel :: nat
  re_auth :: auth_env
  re_z :: "(xdr_mem, 'r) rpc_msg"
  re_junk :: "(xdr_mem, 'r) rpc_msg"
  re_err :: rpc_err

text \<open>One round of \<open>call_again\<close>; \<open>Inl\<close> is a call that ended before the server was run.\<close>

definition raw_round ::
  "'r raw_env \<Rightarrow> u32 \<Rightarrow> (xdr_mem, 'a) xdrproc \<Rightarrow> 'a \<Rightarrow> (xdr_mem, 'r) xdrproc \<Rightarrow> 'r \<Rightarrow> raw \<Rightarrow>
     (bool \<times> clnt_stat \<times> 'r \<times> raw) run" where
  "raw_round env proc xargs args xres res st =
     (case (raw_clnt st, raw_combuf st) of
        (Some c, Some (b, buf)) \<Rightarrow>
          run_bind (raw_send proc xargs args buf c) (\<lambda>(ok, c).
            let buf = xm_buf (x_private (rc_xdrs c)); st = st\<lparr>raw_clnt := Some c, raw_combuf := Some (b, buf)\<rparr> in
            if \<not> ok then Ret (False, RPC_CANTENCODEARGS, res, st)
            else run_bind (raw_dispatch (re_fuel env) (re_server env) (raw_srv st) (re_z env) buf (raw_svc st)) (\<lambda>(buf, s).
              let st = st\<lparr>raw_svc := s, raw_combuf := Some (b, buf)\<rparr> in
              run_bind (raw_receive (re_auth env) (re_junk env) (re_err env) xres res buf c) (\<lambda>(again, status, res, c).
                Ret (again, status, res, st\<lparr>raw_clnt := Some c\<rparr>))))
      | _ \<Rightarrow> Ret (False, RPC_FAILED, res, st))"

fun clnt_raw_call ::
  "nat \<Rightarrow> 'r raw_env \<Rightarrow> u32 \<Rightarrow> (xdr_mem, 'a) xdrproc \<Rightarrow> 'a \<Rightarrow> (xdr_mem, 'r) xdrproc \<Rightarrow> 'r \<Rightarrow> raw \<Rightarrow>
     (clnt_stat \<times> 'r \<times> raw) run" where
  "clnt_raw_call 0 env proc xargs args xres res st = Out_of_fuel"
| "clnt_raw_call (Suc fuel) env proc xargs args xres res st =
     run_bind (raw_round env proc xargs args xres res st) (\<lambda>(again, status, res, st).
       if again then clnt_raw_call fuel env proc xargs args xres res st else Ret (status, res, st))"

definition clnt_raw_freeres :: "(xdr_mem, 'r) xdrproc \<Rightarrow> 'r \<Rightarrow> raw \<Rightarrow> bool \<times> 'r \<times> raw" where
  "clnt_raw_freeres xres res st =
     (case raw_clnt st of None \<Rightarrow> (True, res, st)
      | Some c \<Rightarrow> (case xres res ((rc_xdrs c)\<lparr>x_op := XDR_FREE\<rparr>) of (ok, res, x) \<Rightarrow>
          (ok, res, st\<lparr>raw_clnt := Some (c\<lparr>rc_xdrs := x\<rparr>)\<rparr>)))"

definition clnt_raw_control :: "u32 \<Rightarrow> 'a \<Rightarrow> bool \<times> 'a" where
  "clnt_raw_control rq info = (False, info)"

section \<open>The service routine that rpcgen writes\<close>

text \<open>
  The routine \<open>write_program\<close> of \<open>rpcgen/rpc_svcout.c\<close> prints for a version with one procedure: \<open>proc\<close> with
  the filters of its argument and its result. \<open>zargs\<close> is the argument after \<open>memset\<close>, \<open>local\<close> the
  procedure, which may return a null pointer. When the arguments cannot be freed the process ends,
  which is \<open>Fault\<close>.
\<close>

definition generated_service ::
  "(svc_raw_private, xdr_mem, 'r) xp_ops \<Rightarrow> (xdr_mem, 'r) rpc_msg \<Rightarrow> u32 \<Rightarrow> (xdr_mem, 'a) xdrproc \<Rightarrow> 'a \<Rightarrow>
     (xdr_mem, 'r) xdrproc \<Rightarrow> ('a \<Rightarrow> 'r option) \<Rightarrow> svc_req \<Rightarrow> raw_server \<Rightarrow> raw_server run" where
  "generated_service xo junk proc xargs zargs xres local r s =
     upd_xprt (rq_xprt r) (\<lambda>x.
       if rq_proc r \<noteq> proc
       then (if rq_proc r = 0
             then run_bind (svc_sendreply xo junk xdr_void (ar_results_where (rp_acpt (rm_reply junk))) x) (\<lambda>(_, x). Ret x)
             else svcerr_noproc xo junk x)
       else case svc_raw_getargs xargs zargs (xp_p1 x) of (ok, args, t) \<Rightarrow>
         let x = x\<lparr>xp_p1 := t\<rparr> in
         if \<not> ok then svcerr_decode xo junk x
         else run_bind (case local args of None \<Rightarrow> Ret x
             | Some res \<Rightarrow> run_bind (svc_sendreply xo junk xres res x) (\<lambda>(ok, x).
                 if ok then Ret x else svcerr_systemerr xo junk x)) (\<lambda>x.
           case svc_raw_freeargs xargs args (xp_p1 x) of (ok, _, t) \<Rightarrow>
             if ok then Ret (x\<lparr>xp_p1 := t\<rparr>) else Fault)) s"

definition served_by :: "'r raw_env \<Rightarrow> nat \<Rightarrow> (svc_req \<Rightarrow> raw_server \<Rightarrow> raw_server run) \<Rightarrow> bool" where
  "served_by env d routine \<longleftrightarrow> (\<forall>r s s'. routine r s = Ret s' \<longrightarrow> sv_dispatch (re_server env) d r s = s')"

section \<open>The way of a call\<close>

text \<open>
  A client and a server on one buffer at \<open>b\<close>: the server's transport is \<open>q\<close>, registered for the
  descriptor -1, and the service found for the client's program and version is routine \<open>d\<close>. \<open>cm\<close> and \<open>sm\<close>
  are what the filters of the two sides may allocate.
\<close>

definition raw_ready :: "u64 \<Rightarrow> nat \<Rightarrow> u32 \<Rightarrow> u32 \<Rightarrow> nat \<Rightarrow> client_auth \<Rightarrow> nat \<Rightarrow> nat \<Rightarrow> raw \<Rightarrow> bool" where
  "raw_ready b q prog vers d a cm sm st \<longleftrightarrow>
     (\<exists>buf c x xid rest.
        raw_combuf st = Some (b, buf) \<and> placed UDPMSGSIZE (b, buf) \<and>
        raw_clnt st = Some c \<and> rc_auth c = Some a \<and> mem_at b UDPMSGSIZE (rc_xdrs c) \<and> x_mem (rc_xdrs c) = cm \<and>
        rc_callmsg c = call_header xid prog vers @ rest \<and> rc_mcnt c = 20 \<and>
        raw_srv st = Some q \<and> svc_mem (raw_svc st) q = Some x \<and> mem_at b UDPMSGSIZE (srp_xdrs (xp_p1 x)) \<and>
        x_mem (srp_xdrs (xp_p1 x)) = sm \<and> tab_get (- 1) (raw_svc st) = Ret (Some q) \<and>
        svc_search prog vers (svc_head (raw_svc st)) False (- 1) 0 = Found d)"

lemma raw_lend_mem_at:
  "mem_at b n x \<Longrightarrow> placed n (b, buf) \<Longrightarrow> mem_at b n (raw_lend buf x)" "x_mem (raw_lend buf x) = x_mem x"
  "xm_buf (x_private (raw_lend buf x)) = buf"
  using mem_at_lend [of b n x buf] by (simp_all add: raw_lend_def placed_def)

text \<open>Writing the call.\<close>

lemma raw_send_spec:
  assumes "mem_at b UDPMSGSIZE (rc_xdrs c)" and "placed UDPMSGSIZE (b, buf)" and "rc_callmsg c = call_header xid prog vers @ rest"
    and "rc_mcnt c = 20" and "rc_auth c = Some a" and "auth_sends a cred verf"
    and "mem_aligned.encodes xargs args args' ab" and "mem_unaligned.encodes xargs args args' ab"
    and "24 + length (auth_wire a) + length ab \<le> 8800"
  obtains x where "raw_send proc xargs args buf c =
      Ret (True, c\<lparr>rc_callmsg := call_header (xid_step 1 xid) prog vers @ rest, rc_xdrs := x\<rparr>)"
    and "mem_at b UDPMSGSIZE x" and "x_mem x = x_mem (rc_xdrs c)"
    and "xm_buf (x_private x) = store 0 (call_header (xid_step 1 xid) prog vers @ be32 proc @ auth_wire a @ ab) buf"
proof -
  let ?hdr = "call_header (xid_step 1 xid) prog vers" and ?m = "x_mem (rc_xdrs c)"
  let ?W = "?hdr @ be32 proc @ auth_wire a @ ab"
  have rewind: "XDR_SETPOS ((raw_lend buf (rc_xdrs c))\<lparr>x_op := XDR_ENCODE\<rparr>) 0 = (True, xdrmem_create b buf UDPMSGSIZE XDR_ENCODE ?m)"
    using mem_at_rewind [OF raw_lend_mem_at(1) [OF assms(1,2)], of XDR_ENCODE] by (simp add: raw_lend_mem_at)
  have len: "length ?hdr < 2 ^ 32" "length (auth_wire a) < 2 ^ 32" using auth_wire_length [OF assms(6)] by simp_all
  have fit: "length ?W \<le> unat (UDPMSGSIZE :: u32)" using assms(9) by simp
  obtain x where x: "call_filter ?hdr proc a xargs args (xdrmem_create b buf UDPMSGSIZE XDR_ENCODE ?m) = (True, args, x)"
    "mem_at b UDPMSGSIZE x" "xm_buf (x_private x) = store 0 ?W buf" "x_mem x = ?m"
    by (rule mem_at_encode [OF mem_aligned.encodes_call_filter [OF len assms(7)]
          mem_unaligned.encodes_call_filter [OF len assms(8)] assms(2) fit])
  have "take 20 (bump_xid 1 (call_header xid prog vers @ rest)) = ?hdr" by (simp add: bump_call_header)
  then have "raw_send proc xargs args buf c = Ret (True, c\<lparr>rc_callmsg := ?hdr @ rest, rc_xdrs := x\<rparr>)"
    using x(1) by (simp add: raw_send_def rewind assms(3-5) clnt_put_call_filter Let_def) (simp add: bump_call_header)
  with x show thesis by (intro that [of x]) simp_all
qed

text \<open>The service routine, with the arguments next in the stream: it leaves the reply at the front of the buffer.\<close>

definition null_reply :: "opaque_auth \<Rightarrow> opaque_auth" where
  "null_reply v = v\<lparr>oa_flavor := AUTH_NULL, oa_length := 0\<rparr>"

lemma null_reply_ok: "auth_ok (null_reply v)" "auth_bytes (null_reply v) = []"
  by (simp_all add: null_reply_def auth_ok_def auth_bytes_def)

lemma results_msg_ok:
  "replymsg_ok (results_msg junk (null_reply v) p w)" "has_results (results_msg junk (null_reply v) p w)"
  "length (enc_replymsg rbs (results_msg junk (null_reply v) p w)) = 24 + length rbs"
  using null_reply_ok [of v]
  by (simp_all add: results_msg_def accepted_msg_def replymsg_ok_def has_results_def enc_replymsg_def enc_accepted_reply_def
      enc_auth_def enc_counted_def enc_opaque_def xdr_pad_def Let_def)

lemma generated_service_spec:
  assumes "svc_mem s q = Some x" and "reading b UDPMSGSIZE (srp_xdrs (xp_p1 x)) (ab @ rest)" and "xp_verf x = null_reply v"
    and "rq_xprt r = q" and "rq_proc r = proc" and "x_mem (srp_xdrs (xp_p1 x)) = sm + ka"
    and "\<And>buf. buf_aligned.decodes b buf xargs zargs val ab ka" and "\<And>buf. buf_unaligned.decodes b buf xargs zargs val ab ka"
    and "frees xargs val val' ka" and "local val = Some w"
    and "mem_aligned.encodes xres w w rbs" and "mem_unaligned.encodes xres w w rbs" and "24 + length rbs \<le> 8800"
  obtains x' where "generated_service (svc_raw_ops (Some q)) junk proc xargs zargs xres local r s = Ret (s\<lparr>svc_mem := (svc_mem s)(q \<mapsto> x')\<rparr>)"
    and "mem_at b UDPMSGSIZE (srp_xdrs (xp_p1 x'))" and "x_mem (srp_xdrs (xp_p1 x')) = sm + ka"
    and "xm_buf (x_private (srp_xdrs (xp_p1 x'))) =
      store 0 (enc_replymsg rbs (results_msg junk (null_reply v) xres w)) (xm_buf (x_private (srp_xdrs (xp_p1 x))))"
    and "xp_fd x' = xp_fd x"
proof -
  let ?buf = "xm_buf (x_private (srp_xdrs (xp_p1 x)))" and ?rep = "results_msg junk (null_reply v) xres w"
  obtain x1 where x1: "xargs zargs (srp_xdrs (xp_p1 x)) = (True, val, x1)" "reading b UDPMSGSIZE x1 rest" "x_mem x1 = sm"
    "xm_buf (x_private x1) = ?buf"
    by (rule reading_decode [OF assms(2,7,8,6)])
  have pl: "placed UDPMSGSIZE (b, ?buf)" using x1(2,4) by (simp add: reading_def mem_at_def Let_def)
  have rewind: "XDR_SETPOS (x1\<lparr>x_op := XDR_ENCODE\<rparr>) 0 = (True, xdrmem_create b ?buf UDPMSGSIZE XDR_ENCODE sm)"
    using mem_at_rewind [OF reading_mem_at [OF x1(2)], of XDR_ENCODE] x1(3,4) by simp
  have enc: "mem_aligned.encodes xdr_replymsg ?rep ?rep (enc_replymsg rbs ?rep)"
    "mem_unaligned.encodes xdr_replymsg ?rep ?rep (enc_replymsg rbs ?rep)"
    using results_msg_ok(1) [of junk v xres w] assms(11,12)
    by (auto intro!: mem_aligned.encodes_replymsg mem_unaligned.encodes_replymsg simp: results_msg_def Let_def)
  have len: "length (enc_replymsg rbs ?rep) \<le> unat (UDPMSGSIZE :: u32)" using assms(13) by (simp add: results_msg_ok)
  obtain x2 where x2: "xdr_replymsg ?rep (xdrmem_create b ?buf UDPMSGSIZE XDR_ENCODE sm) = (True, ?rep, x2)"
    "mem_at b UDPMSGSIZE x2" "xm_buf (x_private x2) = store 0 (enc_replymsg rbs ?rep) ?buf" "x_mem x2 = sm"
    by (rule mem_at_encode [OF enc pl len])
  obtain x3 where x3: "xargs val (x2\<lparr>x_op := XDR_FREE\<rparr>) = (True, val', x3)" "x3 = x2\<lparr>x_op := XDR_FREE, x_mem := sm + ka\<rparr>"
    using freesD [OF assms(9), of "x_ops x2" "x_private x2" "x_mem x2"] x2(4) by (cases x2) simp
  let ?x' = "x\<lparr>xp_p1 := (xp_p1 x)\<lparr>srp_xdrs := x3\<rparr>\<rparr>"
  have "svc_raw_reply (Some q) (x\<lparr>xp_p1 := (xp_p1 x)\<lparr>srp_xdrs := x1\<rparr>\<rparr>) ?rep = Ret (True, (xp_p1 x)\<lparr>srp_xdrs := x2\<rparr>)"
    using rewind x2(1) by (simp add: svc_raw_reply_def)
  then have "generated_service (svc_raw_ops (Some q)) junk proc xargs zargs xres local r s = Ret (s\<lparr>svc_mem := (svc_mem s)(q \<mapsto> ?x')\<rparr>)"
    using assms(1,3,4,5,10) x1(1) x3(1)
    by (simp add: generated_service_def upd_xprt_def svc_raw_getargs_def svc_raw_freeargs_def svc_sendreply_def xprt_reply_def
        svc_raw_ops_def Let_def)
  then show thesis
    by (rule that) (use x2 x3(2) in \<open>simp_all add: mem_at_def Let_def\<close>)
qed

lemma raw_dispatch_spec:
  assumes "svc_mem s q = Some x" and "mem_at b UDPMSGSIZE (srp_xdrs (xp_p1 x))" and "x_mem (srp_xdrs (xp_p1 x)) = sm + ka"
    and "tab_get (- 1) s = Ret (Some q)" and "svc_search prog vers (svc_head s) False (- 1) 0 = Found d"
    and "placed UDPMSGSIZE (b, buf)" and "24 + length (auth_wire a) + length ab \<le> 8800"
    and "take (24 + length (auth_wire a) + length ab) buf = call_header xid prog vers @ be32 proc @ auth_wire a @ ab"
    and "auth_sends a cred verf" and "oa_flavor cred = AUTH_NULL"
    and "oa_base (cb_cred (rm_call (re_z env))) \<noteq> None" and "oa_base (cb_verf (rm_call (re_z env))) \<noteq> None"
    and "sv_ops (re_server env) = svc_raw_ops (Some q)"
    and "served_by env d (generated_service (svc_raw_ops (Some q)) junk proc xargs zargs xres local)"
    and "\<And>buf. buf_aligned.decodes b buf xargs zargs val ab ka" and "\<And>buf. buf_unaligned.decodes b buf xargs zargs val ab ka"
    and "frees xargs val val' ka" and "local val = Some w"
    and "mem_aligned.encodes xres w w rbs" and "mem_unaligned.encodes xres w w rbs" and "24 + length rbs \<le> 8800"
  obtains x' where "raw_dispatch (Suc fuel) (re_server env) (Some q) (re_z env) buf s =
      Ret (store 0 (enc_replymsg rbs (results_msg junk (null_reply (xp_verf x)) xres w)) buf, s\<lparr>svc_mem := (svc_mem s)(q \<mapsto> x')\<rparr>)"
    and "mem_at b UDPMSGSIZE (srp_xdrs (xp_p1 x'))" and "x_mem (srp_xdrs (xp_p1 x')) = sm + ka"
proof -
  let ?sv = "re_server env" and ?z = "re_z env"
  let ?c = "the_call xid prog vers proc cred verf ?z"
  let ?x0 = "x\<lparr>xp_p1 := (xp_p1 x)\<lparr>srp_xdrs := raw_lend buf (srp_xdrs (xp_p1 x))\<rparr>\<rparr>"
  let ?s0 = "s\<lparr>svc_mem := (svc_mem s)(q \<mapsto> ?x0)\<rparr>"
  let ?W = "(call_header xid prog vers @ be32 proc @ auth_wire a) @ ab"
  note call = the_call_wire [OF assms(9), of xid prog vers proc ?z]
  have rewind: "XDR_SETPOS ((raw_lend buf (srp_xdrs (xp_p1 x)))\<lparr>x_op := XDR_DECODE\<rparr>) 0 =
      (True, xdrmem_create b buf UDPMSGSIZE XDR_DECODE (sm + ka))"
    using mem_at_rewind [OF raw_lend_mem_at(1) [OF assms(2,6)], of XDR_DECODE] assms(3) by (simp add: raw_lend_mem_at)
  have W: "length ?W \<le> unat (UDPMSGSIZE :: u32)" "take (length ?W) buf = ?W"
    using assms(7,8) by (simp_all add: add.assoc)
  have rd: "reading b UDPMSGSIZE (xdrmem_create b buf UDPMSGSIZE XDR_DECODE (sm + ka)) ?W"
    by (rule reading_create [OF assms(6) W])
  have blocks: "callmsg_blocks ?z ?c = 0"
    using assms(11,12) by (simp add: callmsg_blocks_def auth_blocks_def counted_blocks_def)
  have dec: "buf_aligned.decodes b buf' xdr_callmsg ?z (callmsg_into ?z ?c) (call_header xid prog vers @ be32 proc @ auth_wire a) 0"
    "buf_unaligned.decodes b buf' xdr_callmsg ?z (callmsg_into ?z ?c) (call_header xid prog vers @ be32 proc @ auth_wire a) 0" for buf'
    using buf_aligned.decodes_callmsg [OF call, of b buf' ?z] buf_unaligned.decodes_callmsg [OF call, of b buf' ?z]
    by (simp_all add: blocks)
  have "x_mem (xdrmem_create b buf UDPMSGSIZE XDR_DECODE (sm + ka)) = (sm + ka) + 0" by (simp add: xdrmem_create_def)
  then obtain x1 where x1: "xdr_callmsg ?z (xdrmem_create b buf UDPMSGSIZE XDR_DECODE (sm + ka)) = (True, callmsg_into ?z ?c, x1)"
    "reading b UDPMSGSIZE x1 ab" "x_mem x1 = sm + ka" "xm_buf (x_private x1) = buf"
    by (rule reading_decode [OF rd dec]) (simp add: xdrmem_create_def)
  let ?m = "callmsg_into ?z ?c" and ?x1 = "x\<lparr>xp_p1 := (xp_p1 x)\<lparr>srp_xdrs := x1\<rparr>\<rparr>"
  let ?s1 = "s\<lparr>svc_mem := (svc_mem s)(q \<mapsto> ?x1)\<rparr>"
  have recv: "svc_raw_recv (Some q) q ?z ?s0 = Ret (True, ?m, ?s1)"
    using rewind x1(1) by (simp add: svc_raw_recv_def)
  let ?v = "null_reply (xp_verf x)"
  let ?x2 = "?x1\<lparr>xp_verf := ?v\<rparr>"
  let ?s2 = "s\<lparr>svc_mem := (svc_mem s)(q \<mapsto> ?x2)\<rparr>"
  let ?r = "\<lparr>rq_prog = prog, rq_vers = vers, rq_proc = proc, rq_cred = cb_cred (rm_call ?m), rq_clntcred = sv_area ?sv, rq_xprt = q\<rparr>"
  have m: "cb_prog (rm_call ?m) = prog" "cb_vers (rm_call ?m) = vers" "cb_proc (rm_call ?m) = proc"
    "oa_flavor (cb_cred (rm_call ?m)) = AUTH_NULL"
    using assms(10) by (simp_all add: callmsg_into_def the_call_def auth_into_def)
  have auth: "authenticate (sv_auth ?sv) (svc_auths ?s1) (sv_addr ?sv) (svc_heap ?s1) (cb_cred (rm_call ?m)) (sv_area ?sv) (xp_verf ?x1)
      = (AUTH_OK, sv_area ?sv, ?v, svc_heap s)"
    using m(4) by (simp add: authenticate_def svcauth_null_def null_reply_def Let_def)
  obtain x3 where x3: "generated_service (svc_raw_ops (Some q)) junk proc xargs zargs xres local ?r ?s2 = Ret (?s2\<lparr>svc_mem := (svc_mem ?s2)(q \<mapsto> x3)\<rparr>)"
    "mem_at b UDPMSGSIZE (srp_xdrs (xp_p1 x3))" "x_mem (srp_xdrs (xp_p1 x3)) = sm + ka"
    "xm_buf (x_private (srp_xdrs (xp_p1 x3))) = store 0 (enc_replymsg rbs (results_msg junk ?v xres w)) (xm_buf (x_private (srp_xdrs (xp_p1 ?x2))))"
    by (rule generated_service_spec [of ?s2 q ?x2 b ab "[]" "xp_verf x" ?r proc sm ka xargs zargs val val' local w xres rbs junk])
      (use x1(2,3) assms(15-21) in simp_all)
  let ?s3 = "s\<lparr>svc_mem := (svc_mem s)(q \<mapsto> x3)\<rparr>"
  have disp: "sv_dispatch ?sv d ?r ?s2 = ?s3"
    using assms(14) x3(1) by (auto simp: served_by_def)
  have s2: "?s1\<lparr>svc_heap := svc_heap s, svc_mem := (svc_mem ?s1)(q \<mapsto> ?x2)\<rparr> = ?s2" by simp
  have req: "svc_request ?sv q ?m ?s1 = Ret (True, ?s3)"
    using auth disp assms(5) by (simp add: svc_request_def m Let_def)
  have "svc_getreq_round ?sv (- 1) q ?z ?s0 = Ret (False, ?m, ?s3)"
    using recv req by (simp add: svc_getreq_round_def assms(13) svc_raw_ops_def svc_raw_stat_def Let_def)
  then have "svc_getreq_common (Suc fuel) ?sv (- 1) ?z ?s0 = Ret ?s3"
    using assms(4) by (simp add: svc_getreq_common_def tab_get_def split: option.splits if_splits)
  then have "raw_dispatch (Suc fuel) ?sv (Some q) ?z buf s = Ret (xm_buf (x_private (srp_xdrs (xp_p1 x3))), ?s3)"
    using assms(1) by (simp add: raw_dispatch_def Let_def)
  then show thesis using x3 x1(4) by (intro that [of x3]) simp_all
qed

text \<open>Reading the reply.\<close>

lemma raw_receive_spec:
  assumes "mem_at b UDPMSGSIZE (rc_xdrs c)" and "placed UDPMSGSIZE (b, buf)" and "rc_auth c = Some a" and "x_mem (rc_xdrs c) = cm + kr"
    and "24 + length rbs \<le> 8800"
    and "take (24 + length rbs) buf = enc_replymsg rbs (results_msg junk (null_reply v) p u)"
    and "\<And>buf. buf_aligned.decodes b buf xres res w rbs kr" and "\<And>buf. buf_unaligned.decodes b buf xres res w rbs kr"
  obtains x where "raw_receive ae z error xres res buf c = Ret (False, RPC_SUCCESS, w, c\<lparr>rc_auth := Some a, rc_xdrs := x\<rparr>)"
    and "mem_at b UDPMSGSIZE x" and "x_mem x = cm" and "xm_buf (x_private x) = buf"
proof -
  let ?rep = "results_msg junk (null_reply v) p u"
  let ?z = "z\<lparr>rm_reply := (rm_reply z)\<lparr>rp_acpt := (rp_acpt (rm_reply z))
    \<lparr>ar_verf := null_auth, ar_results_where := res, ar_results_proc := xres\<rparr>\<rparr>\<rparr>"
  have rewind: "XDR_SETPOS ((raw_lend buf (rc_xdrs c))\<lparr>x_op := XDR_DECODE\<rparr>) 0 =
      (True, xdrmem_create b buf UDPMSGSIZE XDR_DECODE (cm + kr))"
    using mem_at_rewind [OF raw_lend_mem_at(1) [OF assms(1,2)], of XDR_DECODE] assms(4) by (simp add: raw_lend_mem_at)
  have rd: "reading b UDPMSGSIZE (xdrmem_create b buf UDPMSGSIZE XDR_DECODE (cm + kr)) (enc_replymsg rbs ?rep)"
    by (rule reading_create [OF assms(2)]) (use assms(5,6) in \<open>simp_all add: results_msg_ok\<close>)
  have blocks: "reply_blocks ?z ?rep kr = kr"
    using results_msg_ok(1,2) [of junk v p u] null_reply_ok(2) [of v]
    by (simp add: reply_blocks_def auth_blocks_def counted_blocks_def results_msg_def accepted_msg_def Let_def)
  have "buf_aligned.decodes b buf' xdr_replymsg ?z (reply_into ?z ?rep w) (enc_replymsg rbs ?rep) (reply_blocks ?z ?rep kr)" for buf'
    by (rule buf_aligned.decodes_replymsg [OF results_msg_ok(1)]) (simp add: assms(7))
  moreover have "buf_unaligned.decodes b buf' xdr_replymsg ?z (reply_into ?z ?rep w) (enc_replymsg rbs ?rep) (reply_blocks ?z ?rep kr)" for buf'
    by (rule buf_unaligned.decodes_replymsg [OF results_msg_ok(1)]) (simp add: assms(8))
  ultimately have dec: "buf_aligned.decodes b buf' xdr_replymsg ?z (reply_into ?z ?rep w) (enc_replymsg rbs ?rep) kr"
    "buf_unaligned.decodes b buf' xdr_replymsg ?z (reply_into ?z ?rep w) (enc_replymsg rbs ?rep) kr" for buf'
    by (simp_all add: blocks)
  have rd': "reading b UDPMSGSIZE (xdrmem_create b buf UDPMSGSIZE XDR_DECODE (cm + kr)) (enc_replymsg rbs ?rep @ [])"
    using rd by simp
  obtain x where x: "xdr_replymsg ?z (xdrmem_create b buf UDPMSGSIZE XDR_DECODE (cm + kr)) = (True, reply_into ?z ?rep w, x)"
    "reading b UDPMSGSIZE x []" "x_mem x = cm" "xm_buf (x_private x) = xm_buf (x_private (xdrmem_create b buf UDPMSGSIZE XDR_DECODE (cm + kr)))"
    by (rule reading_decode [OF rd' dec]) (simp add: xdrmem_create_def)
  have r: "re_status (seterr_reply (reply_into ?z ?rep w) error) = RPC_SUCCESS"
    "ar_verf (rp_acpt (rm_reply (reply_into ?z ?rep w))) = null_auth"
    "ar_results_where (rp_acpt (rm_reply (reply_into ?z ?rep w))) = w"
    using null_reply_ok(2) [of v]
    by (simp_all add: reply_into_def accepted_into_def results_msg_def accepted_msg_def seterr_reply_def auth_into_def null_auth_def
        counted_into_def null_reply_def Let_def)
  have "oa_base null_auth = None" "oa_flavor null_auth \<noteq> AUTH_SHORT" by (simp_all add: null_auth_def)
  then have "raw_receive ae z error xres res buf c = Ret (False, RPC_SUCCESS, w, c\<lparr>rc_auth := Some a, rc_xdrs := x\<rparr>)"
    using rewind x(1) r assms(3) by (simp add: raw_receive_def Let_def)
  then show thesis
    by (rule that) (use x in \<open>simp_all add: reading_mem_at xdrmem_create_def\<close>)
qed

text \<open>
  C4: A client and a server on the same buffer, whose service for the client's program and version is the
  routine that rpcgen writes: a call of its procedure returns \<open>RPC_SUCCESS\<close>, and the results are what the
  filter of the results makes of the procedure's answer to the arguments as the filter of the arguments
  delivers them; and the two are then ready for the next call.
\<close>

theorem raw_call_returns:
  assumes "raw_ready b q prog vers d a (cm + kr) (sm + ka) st"
    and "auth_sends a cred verf" and "oa_flavor cred = AUTH_NULL"
    and "sv_ops (re_server env) = svc_raw_ops (Some q)" and "0 < re_fuel env"
    and "oa_base (cb_cred (rm_call (re_z env))) \<noteq> None" and "oa_base (cb_verf (rm_call (re_z env))) \<noteq> None"
    and "served_by env d (generated_service (svc_raw_ops (Some q)) junk proc xargs zargs xres local)"
    and "mem_aligned.encodes xargs args args' ab" and "mem_unaligned.encodes xargs args args' ab"
    and "\<And>buf. buf_aligned.decodes b buf xargs zargs val ab ka" and "\<And>buf. buf_unaligned.decodes b buf xargs zargs val ab ka"
    and "frees xargs val val' ka" and "local val = Some w"
    and "mem_aligned.encodes xres w w rbs" and "mem_unaligned.encodes xres w w rbs"
    and "\<And>buf. buf_aligned.decodes b buf xres res w' rbs kr" and "\<And>buf. buf_unaligned.decodes b buf xres res w' rbs kr"
    and "24 + length (auth_wire a) + length ab \<le> 8800" and "24 + length rbs \<le> 8800"
  shows "\<exists>st'. clnt_raw_call (Suc n) env proc xargs args xres res st = Ret (RPC_SUCCESS, w', st') \<and>
    raw_ready b q prog vers d a cm (sm + ka) st'"
proof -
  obtain buf c x xid rest where st: "raw_combuf st = Some (b, buf)" "placed UDPMSGSIZE (b, buf)" "raw_clnt st = Some c"
    "rc_auth c = Some a" "mem_at b UDPMSGSIZE (rc_xdrs c)" "x_mem (rc_xdrs c) = cm + kr"
    "rc_callmsg c = call_header xid prog vers @ rest" "rc_mcnt c = 20" "raw_srv st = Some q" "svc_mem (raw_svc st) q = Some x"
    "mem_at b UDPMSGSIZE (srp_xdrs (xp_p1 x))" "x_mem (srp_xdrs (xp_p1 x)) = sm + ka"
    "tab_get (- 1) (raw_svc st) = Ret (Some q)" "svc_search prog vers (svc_head (raw_svc st)) False (- 1) 0 = Found d"
    using assms(1) by (auto simp: raw_ready_def)
  obtain fuel where fuel: "re_fuel env = Suc fuel" using assms(5) gr0_implies_Suc by blast
  let ?xid = "xid_step 1 xid" and ?s = "raw_svc st"
  let ?W = "call_header ?xid prog vers @ be32 proc @ auth_wire a @ ab"
  obtain x1 where x1: "raw_send proc xargs args buf c = Ret (True, c\<lparr>rc_callmsg := call_header ?xid prog vers @ rest, rc_xdrs := x1\<rparr>)"
    "mem_at b UDPMSGSIZE x1" "x_mem x1 = cm + kr" "xm_buf (x_private x1) = store 0 ?W buf"
    by (rule raw_send_spec [OF st(5,2,7,8,4) assms(2,9,10,19), where proc = proc]) (use st(6) in simp)
  let ?c1 = "c\<lparr>rc_callmsg := call_header ?xid prog vers @ rest, rc_xdrs := x1\<rparr>"
  have W: "length ?W \<le> unat (UDPMSGSIZE :: u32)" "length ?W = 24 + length (auth_wire a) + length ab" using assms(19) by simp_all
  have pl1: "placed UDPMSGSIZE (b, store 0 ?W buf)" by (rule placed_store [OF st(2) W(1)])
  have front: "take (24 + length (auth_wire a) + length ab) (store 0 ?W buf) = ?W"
    unfolding W(2) [symmetric] by (simp add: store_def)
  obtain x2 where x2: "raw_dispatch (Suc fuel) (re_server env) (Some q) (re_z env) (store 0 ?W buf) ?s =
      Ret (store 0 (enc_replymsg rbs (results_msg junk (null_reply (xp_verf x)) xres w)) (store 0 ?W buf), ?s\<lparr>svc_mem := (svc_mem ?s)(q \<mapsto> x2)\<rparr>)"
    "mem_at b UDPMSGSIZE (srp_xdrs (xp_p1 x2))" "x_mem (srp_xdrs (xp_p1 x2)) = sm + ka"
    by (rule raw_dispatch_spec [OF st(10-14) pl1 assms(19) front assms(2,3,6,7,4,8) assms(11-16) assms(20)])
  let ?R = "enc_replymsg rbs (results_msg junk (null_reply (xp_verf x)) xres w)" and ?buf = "store 0 ?W buf"
  have R: "length ?R = 24 + length rbs" by (rule results_msg_ok(3))
  have pl2: "placed UDPMSGSIZE (b, store 0 ?R ?buf)" by (rule placed_store [OF pl1]) (use R assms(20) in simp)
  have front2: "take (24 + length rbs) (store 0 ?R ?buf) = ?R" unfolding R [symmetric] by (simp add: store_def)
  obtain x3 where x3: "raw_receive (re_auth env) (re_junk env) (re_err env) xres res (store 0 ?R ?buf) ?c1 =
      Ret (False, RPC_SUCCESS, w', ?c1\<lparr>rc_auth := Some a, rc_xdrs := x3\<rparr>)"
    "mem_at b UDPMSGSIZE x3" "x_mem x3 = cm" "xm_buf (x_private x3) = store 0 ?R ?buf"
    by (rule raw_receive_spec [OF _ pl2 _ _ assms(20) front2 assms(17,18), of ?c1 a cm])
      (use x1(2,3) st(4) in simp_all)
  let ?st = "st\<lparr>raw_svc := ?s\<lparr>svc_mem := (svc_mem ?s)(q \<mapsto> x2)\<rparr>, raw_combuf := Some (b, store 0 ?R ?buf),
    raw_clnt := Some (?c1\<lparr>rc_auth := Some a, rc_xdrs := x3\<rparr>)\<rparr>"
  have "raw_round env proc xargs args xres res st = Ret (False, RPC_SUCCESS, w', ?st)"
    unfolding raw_round_def
    using x1(1,4) x2(1) x3(1) by (simp add: st(1,3,9) fuel Let_def)
  then have "clnt_raw_call (Suc n) env proc xargs args xres res st = Ret (RPC_SUCCESS, w', ?st)" by simp
  moreover have "raw_ready b q prog vers d a cm (sm + ka) ?st"
    unfolding raw_ready_def
    using x2(2,3) x3(2,3) pl2 st by (intro exI [of _ "store 0 ?R ?buf"] exI [of _ "?c1\<lparr>rc_auth := Some a, rc_xdrs := x3\<rparr>"] exI [of _ x2]
        exI [of _ ?xid] exI [of _ rest]) (simp add: tab_get_def)
  ultimately show ?thesis by blast
qed

section \<open>From nothing to a call\<close>

text \<open>Creating the two sides and registering the service makes them ready.\<close>

lemma svc_raw_created:
  assumes "svc_raw_create at h blk st = Ret (Some q, st1)" and "raw_srv st = None" and "raw_combuf st = None" and "placed UDPMSGSIZE blk"
  shows "q = at \<and> raw_combuf st1 = Some blk \<and> raw_srv st1 = Some q \<and> raw_clnt st1 = raw_clnt st \<and>
    tab_get (- 1) (raw_svc st1) = Ret (Some q) \<and> svc_mem (raw_svc st1) q = Some (svc_raw_xprt h blk)"
proof -
  have reg: "tab_get (- 1) s' = Ret (Some at) \<and> svc_mem s' = svc_mem s"
    if r: "xprt_register at s = Ret (True, s')" "svc_mem s at = Some (svc_raw_xprt h blk)" for s s' :: raw_server
  proof -
    obtain ok s1 where al: "xprt_alloc (- 1) (s\<lparr>svc_fd_locked := True\<rparr>) = (ok, s1)" by (metis surj_pair)
    then have mem: "svc_mem s1 = svc_mem s"
      by (auto simp: xprt_alloc_def Let_def split: prod.splits if_splits)
    obtain tab where tab: "svc_xports s1 = Some tab" "0 < length tab" "s' = s1\<lparr>svc_xports := Some (tab[0 := Some at]), svc_fd_locked := False\<rparr>"
      using r al by (auto simp: xprt_register_def svc_raw_xprt_def tab_put_def Let_def split: option.splits if_splits)
    then show ?thesis using mem by (simp add: tab_get_def)
  qed
  show ?thesis
    using assms
    by (auto simp: svc_raw_create_def raw_need_buf_def raw_alloc_def Let_def split: option.splits if_splits run.splits
        elim!: run_bind.elims dest!: reg)
qed

lemma clnt_raw_created:
  assumes "clnt_raw_create addr xid junk prog vers cm blk auth st = (ok, st1)" and "raw_combuf st = Some (b, buf)"
    and "raw_clnt st = None" and "0 < svc_heap (raw_svc st)"
  shows "ok \<and> raw_combuf st1 = raw_combuf st \<and> raw_srv st1 = raw_srv st \<and>
    (\<exists>rest. raw_clnt st1 = Some \<lparr>rc_auth = auth, rc_xdrs = xdrmem_create b buf UDPMSGSIZE XDR_FREE cm,
       rc_callmsg = call_header xid prog vers @ rest, rc_mcnt = 20\<rparr>) \<and>
    raw_svc st1 = (raw_svc st)\<lparr>svc_heap := svc_heap (raw_svc st) - 1\<rparr>"
proof -
  let ?m = "junk\<lparr>rm_xid := xid, rm_direction := CALL,
    rm_call := (rm_call junk)\<lparr>cb_rpcvers := RPC_MSG_VERSION, cb_prog := prog, cb_vers := vers\<rparr>\<rparr>"
  have "length (zeros 24) = 24" by simp
  then obtain x m' where "xdr_callhdr ?m (xdrmem_create addr (zeros 24) 24 XDR_ENCODE 0) = (True, m', x)"
    "xm_buf (x_private x) = call_header xid prog vers @ drop 20 (zeros 24)" "XDR_GETPOS x = 20"
    by (rule callhdr_created [of _ ?m addr 0]) simp
  then show ?thesis
    using assms by (auto simp: clnt_raw_create_def raw_need_buf_def raw_alloc_def Let_def)
qed

lemma raw_created_ready:
  assumes "svc_raw_create at sm blk st0 = Ret (Some q, st1)" and "raw_srv st0 = None" and "raw_combuf st0 = None" and "raw_clnt st0 = None"
    and "placed UDPMSGSIZE blk" and "0 < svc_heap (raw_svc st1)"
    and "clnt_raw_create addr xid junk prog vers cm blk' (Some a) st1 = (ok, st2)"
    and "svc_register pm prog vers d 0 (raw_svc st2) = (True, s)" and "svc_find prog vers None (svc_head (raw_svc st2)) = None"
  shows "raw_ready (fst blk) q prog vers d a cm sm (st2\<lparr>raw_svc := s\<rparr>)"
proof -
  note s1 = svc_raw_created [OF assms(1-3,5)]
  have "raw_combuf st1 = Some (fst blk, snd blk)" "raw_clnt st1 = None" using s1 assms(4) by simp_all
  note s2 = clnt_raw_created [OF assms(7) this assms(6)]
  obtain hp where s: "s = (raw_svc st2)\<lparr>svc_heap := hp, svc_head := \<lparr>sc_prog = prog, sc_vers = vers, sc_netid = None, sc_dispatch = d\<rparr> # svc_head (raw_svc st2)\<rparr>"
    using assms(8,9) by (auto simp: svc_register_def Let_def split: if_splits)
  have "tab_get (- 1) s = Ret (Some q)" "svc_mem s q = Some (svc_raw_xprt sm blk)"
    using s1 s2 by (auto simp: s tab_get_def)
  moreover obtain b buf where blk: "blk = (b, buf)" by (cases blk)
  moreover have at: "mem_at b UDPMSGSIZE (xdrmem_create b buf UDPMSGSIZE op h)" for op h
    using assms(5) blk by (intro mem_at_create) simp
  moreover have "x_mem (xdrmem_create b buf UDPMSGSIZE op h) = h" for op h by (simp add: xdrmem_create_def)
  moreover obtain rest where "raw_clnt st2 = Some \<lparr>rc_auth = Some a, rc_xdrs = xdrmem_create b buf UDPMSGSIZE XDR_FREE cm,
      rc_callmsg = call_header xid prog vers @ rest, rc_mcnt = 20\<rparr>"
    using s2 s1 blk by auto
  ultimately show ?thesis
    using s1 s2 assms(5) unfolding raw_ready_def
    by (intro exI [of _ buf] exI [of _ "\<lparr>rc_auth = Some a, rc_xdrs = xdrmem_create b buf UDPMSGSIZE XDR_FREE cm,
        rc_callmsg = call_header xid prog vers @ rest, rc_mcnt = 20\<rparr>"] exI [of _ "svc_raw_xprt sm blk"] exI [of _ xid] exI [of _ rest])
      (simp add: svc_raw_xprt_def s)
qed

text \<open>A client and a server that adds one, both made from nothing.\<close>

definition demo_null :: client_auth where
  "demo_null = Auth_none (the (authnone_create 0 True None))"

definition demo_msg :: "(xdr_mem, u32) rpc_msg" where
  "demo_msg = (sample_reply 0)\<lparr>rm_call := \<lparr>cb_rpcvers = 0, cb_prog = 0, cb_vers = 0, cb_proc = 0,
     cb_cred = \<lparr>oa_flavor = 0, oa_base = Some (zeros 400), oa_length = 0\<rparr>,
     cb_verf = \<lparr>oa_flavor = 0, oa_base = Some (zeros 400), oa_length = 0\<rparr>\<rparr>\<rparr>"

definition add_one :: "svc_req \<Rightarrow> raw_server \<Rightarrow> raw_server run" where
  "add_one = generated_service (svc_raw_ops (Some 9)) demo_msg 3 xdr_u_int 0 xdr_u_int (\<lambda>v. Some (v + 1))"

definition demo_raw_env :: "u32 raw_env" where
  "demo_raw_env =
     \<lparr>re_server = \<lparr>sv_ops = svc_raw_ops (Some 9), sv_dispatch = (\<lambda>d r s. case add_one r s of Ret s' \<Rightarrow> s' | _ \<Rightarrow> s),
        sv_auth = (\<lambda>_ _. 0), sv_addr = 0, sv_area = sample_area, sv_junk = demo_msg\<rparr>,
      re_fuel = 1, re_auth = \<lparr>ae_verf = 0, ae_marsh = 0, ae_orig = 0, ae_now = 0\<rparr>, re_z = demo_msg, re_junk = demo_msg,
      re_err = \<lparr>re_status = RPC_FAILED, re_errno = 0, re_vers_low = 0, re_vers_high = 0, re_why = 0, re_s1 = 0, re_s2 = 0\<rparr>\<rparr>"

definition raw_start :: raw where
  "raw_start = \<lparr>raw_combuf = None, raw_srv = None, raw_clnt = None, raw_svc = svc_start 5 2 []\<rparr>"

definition demo_raw_server :: raw where
  "demo_raw_server = (case svc_raw_create 9 0 (0x1000, zeros 8800) raw_start of Ret (_, st) \<Rightarrow> st | _ \<Rightarrow> raw_start)"

definition demo_raw :: raw where
  "demo_raw = (let st = snd (clnt_raw_create 0 7 demo_msg 100 1 0 (0, []) (Some demo_null) demo_raw_server)
     in st\<lparr>raw_svc := snd (svc_register True 100 1 0 0 (raw_svc st))\<rparr>)"

lemma demo_raw_server_created:
  "svc_raw_create 9 0 (0x1000, zeros 8800) raw_start = Ret (Some 9, demo_raw_server)" "svc_heap (raw_svc demo_raw_server) = 2"
  "svc_head (raw_svc demo_raw_server) = []"
  by (simp_all add: demo_raw_server_def svc_raw_create_def raw_start_def raw_alloc_def raw_need_buf_def svc_start_def
      xprt_register_def xprt_alloc_def svc_raw_xprt_def tab_put_def svc_fdset_getsize_def svc_fdset_alloc_def svc_fdset_resize_def
      svc_fdset_initial_def Let_def)

lemma demo_raw_ready: "raw_ready 0x1000 9 100 1 0 demo_null 0 0 demo_raw"
proof -
  obtain ok st2 where st2: "clnt_raw_create 0 7 demo_msg 100 1 0 (0, []) (Some demo_null) demo_raw_server = (ok, st2)"
    by (metis surj_pair)
  have pl: "placed UDPMSGSIZE (0x1000, zeros 8800)" by (simp add: placed_def)
  have s1: "raw_combuf demo_raw_server = Some (0x1000, zeros 8800)" "raw_clnt demo_raw_server = None"
    using svc_raw_created [OF demo_raw_server_created(1) _ _ pl] by (simp_all add: raw_start_def)
  then have s: "raw_svc st2 = (raw_svc demo_raw_server)\<lparr>svc_heap := 1\<rparr>"
    using clnt_raw_created [OF st2 s1] demo_raw_server_created(2) by simp
  then have reg: "svc_register True 100 1 0 0 (raw_svc st2) = (True, snd (svc_register True 100 1 0 0 (raw_svc st2)))"
    "svc_find 100 1 None (svc_head (raw_svc st2)) = None"
    using demo_raw_server_created(3) by (simp_all add: svc_register_def)
  show ?thesis
    using raw_created_ready [OF demo_raw_server_created(1) _ _ _ pl _ st2 reg] demo_raw_server_created(2) st2
    by (simp add: demo_raw_def raw_start_def)
qed

theorem raw_call_returns_witness:
  "\<exists>st'. clnt_raw_call 1 demo_raw_env 3 xdr_u_int 41 xdr_u_int 0 demo_raw = Ret (RPC_SUCCESS, 42, st') \<and>
    raw_ready 0x1000 9 100 1 0 demo_null 0 (0 + 0) st'"
proof -
  have "authnone_create 0 True None \<noteq> None" by (simp add: authnone_create_def split: prod.split)
  then obtain ap where ap: "authnone_create 0 True None = Some ap" by auto
  then have sends: "auth_sends demo_null null_auth null_auth"
    using auth_sends_none [OF ap] by (simp add: demo_null_def)
  have "\<exists>st'. clnt_raw_call (Suc 0) demo_raw_env 3 xdr_u_int 41 xdr_u_int 0 demo_raw = Ret (RPC_SUCCESS, 42, st') \<and>
      raw_ready 0x1000 9 100 1 0 demo_null 0 (0 + 0) st'"
  proof (rule raw_call_returns [OF _ sends])
    show "raw_ready 0x1000 9 100 1 0 demo_null (0 + 0) (0 + 0) demo_raw" using demo_raw_ready by simp
    show "served_by demo_raw_env 0 (generated_service (svc_raw_ops (Some 9)) demo_msg 3 xdr_u_int 0 xdr_u_int (\<lambda>v. Some (v + 1)))"
      by (simp add: served_by_def demo_raw_env_def add_one_def)
    show "mem_aligned.encodes xdr_u_int (41 :: u32) 41 (be32 41)" "mem_unaligned.encodes xdr_u_int (41 :: u32) 41 (be32 41)"
      "mem_aligned.encodes xdr_u_int (42 :: u32) 42 (be32 42)" "mem_unaligned.encodes xdr_u_int (42 :: u32) 42 (be32 42)"
      by (rule mem_aligned.encodes_ints mem_unaligned.encodes_ints)+
    show "buf_aligned.decodes 0x1000 buf xdr_u_int (0 :: u32) 41 (be32 41) 0" "buf_unaligned.decodes 0x1000 buf xdr_u_int (0 :: u32) 41 (be32 41) 0"
      "buf_aligned.decodes 0x1000 buf xdr_u_int (0 :: u32) 42 (be32 42) 0" "buf_unaligned.decodes 0x1000 buf xdr_u_int (0 :: u32) 42 (be32 42) 0" for buf
      by (rule buf_aligned.decodes_ints buf_unaligned.decodes_ints)+
    show "frees xdr_u_int (41 :: u32) 41 0" by (rule frees_scalars)
    show "24 + length (auth_wire demo_null) + length (be32 41) \<le> 8800" using auth_wire_length [OF sends] by simp
  qed (simp_all add: demo_raw_env_def demo_msg_def null_auth_def)
  then show ?thesis by simp
qed

text \<open>
  When the transport table cannot be allocated \<open>svc_raw_create\<close> frees its block and leaves the pointer to
  it behind: the next call uses the freed block. And a client that calls before any transport was
  registered makes the dispatcher read a table that is not there.
\<close>

lemma svc_raw_create_dangles:
  "\<exists>st. svc_raw_create 9 0 blk (raw_start\<lparr>raw_svc := svc_start 2 2 []\<rparr>) = Ret (None, st) \<and> svc_raw_create at h blk' st = Fault"
  by (simp add: svc_raw_create_def raw_start_def raw_alloc_def raw_free_def raw_need_buf_def svc_start_def
      xprt_register_def xprt_alloc_def svc_raw_xprt_def svc_fdset_getsize_def svc_fdset_alloc_def svc_fdset_resize_def
      svc_fdset_initial_def Let_def)

lemma raw_call_without_server:
  "svc_xports (raw_svc st) = None \<Longrightarrow> raw_srv st = None \<Longrightarrow> raw_dispatch fuel sv (raw_srv st) z buf (raw_svc st) = Fault"
  by (simp add: raw_dispatch_def svc_getreq_common_def tab_get_def)

end
