(* ===== verification/Clnt_Vc.thy ===== *)
theory Clnt_Vc
  imports Clnt Rpcb_Prot
begin

text \<open>
  \<open>libsrc/clnt_vc.c\<close>: client handles over a connection. A call is one record; the handle then reads
  records until one is the reply to its call. What goes wrong on the connection is noted in the
  handle by the routines the record stream reads and writes with, and is what the call returns.

  The main facts: a call whose reply arrives, behind any number of replies to earlier calls, sends the
  call as one record and returns the results of that reply; a call always returns once the data of the
  connection ends.
\<close>

section \<open>The connection\<close>

text \<open>
  What the \<open>k\<close>-th attempt to read meets: \<open>pollts\<close> is interrupted (and called again), runs out of time or
  fails, or the socket is readable and \<open>read\<close> gives data, the end of the connection, or an error. Nothing
  is read after the first error; what \<open>read_vc\<close> leaves in \<open>ct_error\<close> then is its status and error number.
\<close>

datatype ct_event = Ct_data "byte list" | Ct_intr | Ct_timeout | Ct_poll_error int | Ct_eof | Ct_read_error int

abbreviation (input) WSAECONNRESET :: int where "WSAECONNRESET \<equiv> 10054"

fun ct_read_vc :: "nat \<Rightarrow> ct_event list \<Rightarrow> (byte list + clnt_stat \<times> int option) \<times> ct_event list" where
  "ct_read_vc n [] = (Inr (RPC_TIMEDOUT, None), [])"
| "ct_read_vc n (Ct_data bs # es) =
     (if length bs \<le> n then (Inl bs, es) else (Inl (take n bs), Ct_data (drop n bs) # es))"
| "ct_read_vc n (Ct_intr # es) = ct_read_vc n es"
| "ct_read_vc n (Ct_timeout # es) = (Inr (RPC_TIMEDOUT, None), [])"
| "ct_read_vc n (Ct_poll_error e # es) = (Inr (RPC_CANTRECV, Some e), [])"
| "ct_read_vc n (Ct_eof # es) = (Inr (RPC_CANTRECV, Some WSAECONNRESET), [])"
| "ct_read_vc n (Ct_read_error e # es) = (Inr (RPC_CANTRECV, Some e), [])"

text \<open>The chunks the record stream sees of such events, and the error behind them.\<close>

fun ct_chunks :: "ct_event list \<Rightarrow> byte list list" where
  "ct_chunks (Ct_data bs # es) = bs # ct_chunks es"
| "ct_chunks (Ct_intr # es) = ct_chunks es"
| "ct_chunks es = []"

fun ct_failure :: "ct_event list \<Rightarrow> clnt_stat \<times> int option" where
  "ct_failure (Ct_data bs # es) = ct_failure es"
| "ct_failure (Ct_intr # es) = ct_failure es"
| "ct_failure es = (case ct_read_vc 0 es of (Inr e, _) \<Rightarrow> e | _ \<Rightarrow> (RPC_TIMEDOUT, None))"

lemma ct_read_vc_readit:
  "case ct_read_vc n es of
     (Inl bs, es') \<Rightarrow> readit n (ct_chunks es) = (Some bs, ct_chunks es') \<and> ct_failure es' = ct_failure es
   | (Inr e, es') \<Rightarrow> readit n (ct_chunks es) = (None, []) \<and> e = ct_failure es"
  by (induction n es rule: ct_read_vc.induct) (simp_all split: prod.splits sum.splits)

text \<open>\<open>write_vc\<close>: \<open>write\<close> takes part of what is left, again and again, or fails; \<open>None\<close> is that it does not return.\<close>

fun ct_write_vc :: "nat \<Rightarrow> (nat + int) list \<Rightarrow> (unit + int) option" where
  "ct_write_vc 0 es = Some (Inl ())"
| "ct_write_vc (Suc n) [] = None"
| "ct_write_vc (Suc n) (Inl i # es) = ct_write_vc (Suc n - i) es"
| "ct_write_vc (Suc n) (Inr e # es) = Some (Inr e)"

section \<open>Streams on which no read or write has failed\<close>

lemma flush_out_died: "flush_out eor s = (True, s') \<Longrightarrow> net_died s' = net_died s"
  by (auto simp: flush_out_def Let_def split: if_splits)

lemma putlong_died: "xdrrec_putlong w s = (True, s') \<Longrightarrow> net_died s' = net_died s"
  by (auto simp: xdrrec_putlong_def split: prod.splits if_splits dest!: flush_out_died)

lemma putbytes_loop_died: "putbytes_loop fuel bs s = (True, s') \<Longrightarrow> net_died s' = net_died s"
proof (induction fuel arbitrary: bs s)
  case (Suc fuel)
  then show ?case by (fastforce simp: Let_def split: prod.splits if_splits dest: flush_out_died)
qed simp

lemma endofrecord_died: "xdrrec_endofrecord now s = (True, s') \<Longrightarrow> net_died s' = net_died s"
  by (auto simp: xdrrec_endofrecord_def Let_def split: if_splits dest!: flush_out_died)

lemma fill_died: "fill_input_buf s = (True, s') \<Longrightarrow> net_died s' = net_died s"
  by (auto simp: fill_input_buf_def Let_def split: prod.splits option.splits if_splits)

lemma get_input_loop_died: "get_input_loop fuel len s = (Some bs, s') \<Longrightarrow> net_died s' = net_died s"
proof (induction fuel arbitrary: len s bs)
  case (Suc fuel)
  then show ?case by (fastforce simp: Let_def split: prod.splits if_splits dest: fill_died)
qed simp

lemma get_input_died: "get_input_bytes len s = (Some bs, s') \<Longrightarrow> net_died s' = net_died s"
  by (auto simp: get_input_bytes_def simp del: get_input_loop.simps split: if_splits dest!: get_input_loop_died)

lemma skip_input_died: "skip_input_bytes n s = (True, s') \<Longrightarrow> net_died s' = net_died s"
  by (auto simp: skip_input_bytes_def skip_input_loop_get simp del: get_input_loop.simps split: prod.splits dest!: get_input_loop_died)

lemma set_input_fragment_died: "set_input_fragment s = (True, s') \<Longrightarrow> net_died s' = net_died s"
  by (auto simp: set_input_fragment_def Let_def split: prod.splits option.splits if_splits dest!: get_input_died)

lemma getbytes_loop_died: "getbytes_loop fuel len s = (Some bs, s') \<Longrightarrow> net_died s' = net_died s"
proof (induction fuel arbitrary: len s bs)
  case (Suc fuel)
  then show ?case
    by (fastforce simp: Let_def split: prod.splits option.splits if_splits dest: set_input_fragment_died get_input_died)
qed simp

lemma skiprecord_loop_died: "skiprecord_loop fuel s = (True, s') \<Longrightarrow> net_died s' = net_died s"
proof (induction fuel arbitrary: s)
  case (Suc fuel)
  from Suc.prems show ?case
    by (auto simp: Let_def split: prod.splits if_splits dest!: skip_input_died set_input_fragment_died Suc.IH)
qed simp

lemma skiprecord_died: "\<not> nonblock s \<Longrightarrow> xdrrec_skiprecord s = (True, s') \<Longrightarrow> net_died s' = net_died s"
  by (auto simp: xdrrec_skiprecord_def split: prod.splits if_splits simp del: skiprecord_loop.simps dest!: skiprecord_loop_died)

definition live_wrote :: "rec_strm \<Rightarrow> byte list \<Rightarrow> rec_strm \<Rightarrow> bool" where
  "live_wrote s bs s' \<longleftrightarrow> rec_wrote s bs s' \<and> net_died s' = net_died s"

definition live_ready ::
  "byte list \<Rightarrow> byte list \<times> nat \<times> nat \<times> nat \<times> byte list \<times> nat \<Rightarrow> rec_strm \<Rightarrow> byte list \<Rightarrow> bool" where
  "live_ready nxt out s bs \<longleftrightarrow> rec_ready nxt out s bs \<and> \<not> net_died s"

interpretation live_stream: xdr_stream xdrrec_ops rec_fits live_wrote "live_ready nxt out" for nxt out
proof (unfold_locales, goal_cases)
  case (1 s n k)
  then show ?case by (rule rec_stream.fits_le)
next
  case (2 s n)
  then show ?case using rec_stream.wrote_nil [of s n] by (simp add: live_wrote_def)
next
  case (3 s as s1 bs s2)
  then show ?case using rec_stream.wrote_append [of s as s1 bs s2] by (simp add: live_wrote_def)
next
  case (4 s n w)
  then show ?case using rec_stream.putlong [of s n w] putlong_died by (fastforce simp: live_wrote_def)
next
  case (5 s bs n)
  then show ?case using rec_stream.putbytes [of s bs n] putbytes_loop_died
    by (fastforce simp: live_wrote_def xdrrec_putbytes_def simp del: putbytes_loop.simps)
next
  case (6 s len n s')
  then show ?case using rec_stream.inline_enc_None [of s len n s']
    by (auto simp: live_wrote_def xdrrec_inline_def split: if_splits)
next
  case (7 s len n p s1)
  then have "net_died s1 = net_died s" by (auto simp: xdrrec_inline_def split: if_splits)
  with rec_stream.inline_enc_Some [OF 7] show ?case by (simp add: live_wrote_def)
next
  case (8 s w bs)
  then obtain s' where "xdrrec_getlong s = (Some w, s')" "rec_ready nxt out s' bs"
    using rec_stream.getlong [of nxt out s w bs] by (auto simp: live_ready_def)
  moreover from this(1) have "net_died s' = net_died s"
    by (auto simp: xdrrec_getlong_def xdrrec_getbytes_def simp del: getbytes_loop.simps split: if_splits prod.splits dest!: getbytes_loop_died)
  ultimately show ?case using 8 by (auto simp: live_ready_def)
next
  case (9 s xs bs)
  then obtain s' where "xdrrec_getbytes (of_nat (length xs)) s = (Some xs, s')" "rec_ready nxt out s' bs"
    using rec_stream.getbytes [of nxt out s xs bs] by (auto simp: live_ready_def)
  moreover from this(1) have "net_died s' = net_died s"
    by (auto simp: xdrrec_getbytes_def simp del: getbytes_loop.simps dest!: getbytes_loop_died)
  ultimately show ?case using 9 by (auto simp: live_ready_def)
next
  case (10 s xs bs s')
  then show ?case using rec_stream.inline_dec_None [of nxt out s xs bs s']
    by (auto simp: live_ready_def xdrrec_inline_def split: if_splits)
next
  case (11 s xs bs p s')
  then have "net_died s' = net_died s" by (auto simp: xdrrec_inline_def split: if_splits)
  with rec_stream.inline_dec_Some [of nxt out s xs bs p s'] 11 show ?case by (auto simp: live_ready_def)
qed

section \<open>The handle\<close>

text \<open>
  \<open>struct ct_data\<close>. The connection behind \<open>ct_fd\<close> is in the record stream: the data that will be read
  and how many calls of \<open>write_vc\<close> succeed. \<open>ct_fail\<close> is what \<open>read_vc\<close> leaves in \<open>ct_error\<close> when the data
  ends (\<open>ct_failure\<close> of the events), \<open>ct_werr\<close> the error number of the write that fails. \<open>ct_xdrs\<close> is
  \<open>None\<close> where \<open>xdrrec_create\<close> found no memory: the memory stream over \<open>ct_mcallc\<close> is still there then, and
  its private pointer is not a record stream's.
\<close>

record ct_data =
  ct_fd :: int
  ct_closeit :: bool
  ct_wait :: timeval
  ct_waitset :: bool
  ct_addr :: netbuf
  ct_error :: rpc_err
  ct_mcallc :: "byte list"
  ct_mpos :: u32
  ct_xdrs :: "rec_strm XDR option"
  ct_fail :: "clnt_stat \<times> int option"
  ct_werr :: int

record vc_client =
  cl_auth :: "client_auth option"
  cl_ct :: ct_data

definition time_not_ok :: "timeval \<Rightarrow> bool" where
  "time_not_ok t \<longleftrightarrow> tv_sec t \<le> -1 \<or> tv_sec t > 100000000 \<or> tv_usec t \<le> -1 \<or> tv_usec t > 1000000"

text \<open>What \<open>read_vc\<close> and \<open>write_vc\<close> note in the handle, when they have failed in the course of an operation.\<close>

definition note_read :: "rec_strm \<Rightarrow> clnt_stat \<times> int option \<Rightarrow> rpc_err \<Rightarrow> rpc_err" where
  "note_read s fail e =
     (if net_died s
      then e\<lparr>re_status := fst fail, re_errno := (case snd fail of None \<Rightarrow> re_errno e | Some n \<Rightarrow> n)\<rparr>
      else e)"

definition note_write :: "rec_strm \<Rightarrow> int \<Rightarrow> rpc_err \<Rightarrow> rpc_err" where
  "note_write s n e = (if net_died s then e\<lparr>re_status := RPC_CANTSEND, re_errno := n\<rparr> else e)"

definition unless_noted :: "clnt_stat \<Rightarrow> rpc_err \<Rightarrow> rpc_err" where
  "unless_noted st e = (if re_status e = RPC_SUCCESS then e\<lparr>re_status := st\<rparr> else e)"

section \<open>Creating a handle\<close>

text \<open>
  What the system answers: \<open>getpeername\<close> (\<open>None\<close> when it fails because the socket is not connected, \<open>Some
  e\<close> for another error), \<open>connect\<close>, the protocol \<open>__rpc_fd2sockinfo\<close> finds, the transaction number, the
  connection. \<open>heap\<close> is how many allocations succeed: the client, the data, the locks of all
  descriptors (two, the first time), the address, the stream's three. The result is the handle, what is put in
  \<open>rpc_createerr\<close>, whether the locks are there now, and how many allocations are left.
\<close>

datatype peer_answer = Peer_connected | Peer_not_connected | Peer_error int

record vc_sys =
  vs_peer :: peer_answer
  vs_connect :: "int option"
  vs_proto :: "int option"
  vs_xid :: u32
  vs_net :: "byte list list"
  vs_writes :: nat
  vs_pos :: u32
  vs_fail :: "clnt_stat \<times> int option"
  vs_werr :: int
  vs_auth :: "client_auth option"
  vs_enomem :: int

definition vc_connected :: "vc_sys \<Rightarrow> int option" where
  "vc_connected y =
     (case vs_peer y of Peer_connected \<Rightarrow> None | Peer_error e \<Rightarrow> Some e | Peer_not_connected \<Rightarrow> vs_connect y)"

definition clnt_vc_create ::
  "vc_sys \<Rightarrow> u64 \<Rightarrow> (xdr_mem, 'r) rpc_msg \<Rightarrow> rpc_err \<Rightarrow> timeval \<Rightarrow> byte list \<Rightarrow> int \<Rightarrow> netbuf \<Rightarrow> u32 \<Rightarrow> u32 \<Rightarrow> u32 \<Rightarrow> u32 \<Rightarrow>
     nat \<Rightarrow> bool \<Rightarrow> nat \<Rightarrow> (vc_client option \<times> (clnt_stat \<times> int) option \<times> bool \<times> nat) run" where
  "clnt_vc_create y addr junk err0 wait0 mcall0 fd raddr prog vers sendsz recvsz h locks heap =
     (let raw_len = unat (nb_len raddr) in
      if heap < 2 then Ret (None, Some (RPC_SYSTEMERROR, vs_enomem y), locks, heap)
      else let heap1 = heap - 2 in
      if \<not> locks \<and> heap1 < 2 then Ret (None, None, locks, heap)
      else let heap2 = (if locks then heap1 else heap1 - 2); back = heap2 + 2 in
      case vc_connected y of Some e \<Rightarrow> Ret (None, Some (RPC_SYSTEMERROR, e), True, back)
      | None \<Rightarrow>
      case vs_proto y of None \<Rightarrow> Ret (None, None, True, back)
      | Some proto \<Rightarrow>
      if heap2 = 0 then Ret (None, None, True, back)
      else if raw_len > unat (nb_maxlen raddr) then Fault
      else case nb_buf raddr of None \<Rightarrow> Fault
      | Some raw \<Rightarrow>
      let heap3 = heap2 - 1;
          msg = junk\<lparr>rm_xid := vs_xid y, rm_direction := CALL,
                rm_call := (rm_call junk)\<lparr>cb_rpcvers := RPC_MSG_VERSION, cb_prog := prog, cb_vers := vers\<rparr>\<rparr>
      in case xdr_callhdr msg (xdrmem_create addr mcall0 24 XDR_ENCODE 0) of (ok, _, x) \<Rightarrow>
      if \<not> ok then Ret (None, None, True, heap3 + 2)
      else let s = xdrrec_create (rpc_get_t_size proto sendsz) (rpc_get_t_size proto recvsz) (vs_net y) (vs_writes y) (vs_pos y) heap3
      in Ret (Some \<lparr>cl_auth = vs_auth y,
            cl_ct = \<lparr>ct_fd = fd, ct_closeit = False, ct_wait = wait0\<lparr>tv_usec := 0\<rparr>, ct_waitset = False,
              ct_addr = \<lparr>nb_maxlen = nb_maxlen raddr, nb_len = nb_len raddr, nb_buf = Some (take raw_len raw)\<rparr>,
              ct_error = err0, ct_mcallc = xm_buf (x_private x), ct_mpos = XDR_GETPOS x,
              ct_xdrs = map_option (\<lambda>s. mkXDR XDR_ENCODE xdrrec_ops s h) s, ct_fail = vs_fail y, ct_werr = vs_werr y\<rparr>\<rparr>,
          None, True, heap3 - (if s = None then 0 else 3)))"

section \<open>The call\<close>

text \<open>
  The reply message before each try: the verifier empty, no results; the rest is what an earlier reply left.
  The verifier of an earlier reply is not freed. A reply that cannot be decoded for another reason than
  the connection, and one to another call, is passed over.
\<close>

definition await_msg :: "(rec_strm, unit) rpc_msg \<Rightarrow> (rec_strm, unit) rpc_msg" where
  "await_msg m = m\<lparr>rm_reply := (rm_reply m)\<lparr>rp_acpt := (rp_acpt (rm_reply m))
     \<lparr>ar_verf := null_auth, ar_results_where := (), ar_results_proc := xdr_void\<rparr>\<rparr>\<rparr>"

fun vc_await ::
  "nat \<Rightarrow> u32 \<Rightarrow> (rec_strm, unit) rpc_msg \<Rightarrow> rec_strm XDR \<Rightarrow> (bool \<times> (rec_strm, unit) rpc_msg \<times> rec_strm XDR) run" where
  "vc_await 0 xid m x = Out_of_fuel"
| "vc_await (Suc fuel) xid m x =
     (case xdrrec_skiprecord (x_private x) of (ok, s) \<Rightarrow>
      let x = x\<lparr>x_private := s\<rparr> in
      if \<not> ok then Ret (False, await_msg m, x)
      else case xdr_replymsg (await_msg m) x of (ok, m, x) \<Rightarrow>
      if \<not> ok
      then (if net_died (x_private x) then Ret (False, m, x) else vc_await fuel xid m x)
      else if rm_xid m = xid then Ret (True, m, x)
      else vc_await fuel xid m x)"

text \<open>
  Writing the call: whether it was sent whole, and how the error is left. The number is counted down.
  After a filter has failed the part of the record that was written is sent nevertheless.
\<close>

definition vc_send ::
  "bool \<Rightarrow> u32 \<Rightarrow> (rec_strm, 'a) xdrproc \<Rightarrow> 'a \<Rightarrow> client_auth option \<Rightarrow> rec_strm XDR \<Rightarrow> ct_data \<Rightarrow> (bool \<times> rec_strm XDR \<times> ct_data) run" where
  "vc_send shipnow proc xargs args auth x ct =
     (let ct = ct\<lparr>ct_error := (ct_error ct)\<lparr>re_status := RPC_SUCCESS\<rparr>, ct_mcallc := bump_xid (- 1) (ct_mcallc ct)\<rparr>;
          x = x\<lparr>x_op := XDR_ENCODE, x_private := (x_private x)\<lparr>net_died := False\<rparr>\<rparr> in
      run_bind (clnt_put_call (take (unat (ct_mpos ct)) (ct_mcallc ct)) proc auth xargs args x) (\<lambda>(ok, x).
        if \<not> ok
        then (let e = unless_noted RPC_CANTENCODEARGS (note_write (x_private x) (ct_werr ct) (ct_error ct)) in
              case xdrrec_endofrecord True (x_private x) of (_, s) \<Rightarrow>
                Ret (False, x\<lparr>x_private := s\<rparr>, ct\<lparr>ct_error := note_write s (ct_werr ct) e\<rparr>))
        else case xdrrec_endofrecord shipnow (x_private x) of (ok, s) \<Rightarrow>
          (let e = note_write s (ct_werr ct) (ct_error ct) in
           Ret (ok, x\<lparr>x_private := s\<rparr>, ct\<lparr>ct_error := (if ok then e else e\<lparr>re_status := RPC_CANTSEND\<rparr>)\<rparr>))))"

abbreviation (input) AUTH_INVALIDRESP :: u32 where "AUTH_INVALIDRESP \<equiv> 6"

text \<open>What is done with the reply to the call: the results, or whether the credentials are to be refreshed.\<close>

definition vc_results ::
  "auth_env \<Rightarrow> (rec_strm, unit) rpc_msg \<Rightarrow> (rec_strm, 'r) xdrproc option \<Rightarrow> 'r \<Rightarrow> client_auth option \<Rightarrow> rec_strm XDR \<Rightarrow>
     ct_data \<Rightarrow> ('r \<times> client_auth option \<times> rec_strm XDR \<times> ct_data) run" where
  "vc_results ae m xres res auth x ct =
     (let verf = ar_verf (rp_acpt (rm_reply m));
          free = (\<lambda>x. if oa_base verf = None then x else snd (snd (xdr_opaque_auth verf (x\<lparr>x_op := XDR_FREE\<rparr>)))) in
      case auth of None \<Rightarrow> Fault
      | Some a \<Rightarrow>
      case AUTH_VALIDATE ae a verf of (ok, a) \<Rightarrow>
      if \<not> ok
      then Ret (res, Some a, free x, ct\<lparr>ct_error := (ct_error ct)\<lparr>re_status := RPC_AUTHERROR, re_why := AUTH_INVALIDRESP\<rparr>\<rparr>)
      else case xres of None \<Rightarrow> Fault
      | Some xres \<Rightarrow>
      case xres res x of (ok, res, x) \<Rightarrow>
        let e = note_read (x_private x) (ct_fail ct) (ct_error ct) in
        Ret (res, Some a, free x, ct\<lparr>ct_error := (if ok then e else unless_noted RPC_CANTDECODERES e)\<rparr>))"

record vc_call_env =
  ce_auth :: auth_env
  ce_junk :: "(rec_strm, unit) rpc_msg"
  ce_fuel :: nat

text \<open>One round of \<open>call_again\<close>: whether an unsuccessful reply came, for which the credentials may be refreshed.\<close>

definition vc_round ::
  "vc_call_env \<Rightarrow> timeval \<Rightarrow> u32 \<Rightarrow> (rec_strm, 'a) xdrproc \<Rightarrow> 'a \<Rightarrow> (rec_strm, 'r) xdrproc option \<Rightarrow> 'r \<Rightarrow> vc_client \<Rightarrow>
     (bool \<times> 'r \<times> vc_client) run" where
  "vc_round env timeout proc xargs args xres res cl =
     (let no_time = (tv_sec timeout = 0 \<and> tv_usec timeout = 0); shipnow = (\<not> (xres = None \<and> no_time)) in
      case ct_xdrs (cl_ct cl) of None \<Rightarrow> Fault
      | Some x \<Rightarrow>
      run_bind (vc_send shipnow proc xargs args (cl_auth cl) x (cl_ct cl)) (\<lambda>(ok, x, ct).
      let stop = (\<lambda>x ct. Ret (False, res, cl\<lparr>cl_ct := ct\<lparr>ct_xdrs := Some x\<rparr>\<rparr>)) in
      if \<not> ok then stop x ct
      else if \<not> shipnow then stop x (ct\<lparr>ct_error := (ct_error ct)\<lparr>re_status := RPC_SUCCESS\<rparr>\<rparr>)
      else if no_time then stop x (ct\<lparr>ct_error := (ct_error ct)\<lparr>re_status := RPC_TIMEDOUT\<rparr>\<rparr>)
      else run_bind (vc_await (ce_fuel env) (get_word 0 (ct_mcallc ct)) (ce_junk env) (x\<lparr>x_op := XDR_DECODE\<rparr>)) (\<lambda>(ok, m, x).
      let ct = ct\<lparr>ct_error := note_read (x_private x) (ct_fail ct) (ct_error ct)\<rparr> in
      if \<not> ok then stop x ct
      else let ct = ct\<lparr>ct_error := seterr_reply m (ct_error ct)\<rparr> in
      if re_status (ct_error ct) = RPC_SUCCESS
      then run_bind (vc_results (ce_auth env) m xres res (cl_auth cl) x ct) (\<lambda>(res, a, x, ct).
             Ret (False, res, \<lparr>cl_auth = a, cl_ct = ct\<lparr>ct_xdrs := Some x\<rparr>\<rparr>))
      else Ret (True, res, cl\<lparr>cl_ct := ct\<lparr>ct_xdrs := Some x\<rparr>\<rparr>))))"

text \<open>\<open>refreshes\<close> is how many refreshes are left.\<close>

fun vc_rounds ::
  "nat \<Rightarrow> vc_call_env \<Rightarrow> timeval \<Rightarrow> u32 \<Rightarrow> (rec_strm, 'a) xdrproc \<Rightarrow> 'a \<Rightarrow> (rec_strm, 'r) xdrproc option \<Rightarrow> 'r \<Rightarrow> vc_client \<Rightarrow>
     (clnt_stat \<times> 'r \<times> vc_client) run" where
  "vc_rounds refreshes env timeout proc xargs args xres res cl =
     run_bind (vc_round env timeout proc xargs args xres res cl) (\<lambda>(again, res, cl).
       let finish = (\<lambda>cl. Ret (re_status (ct_error (cl_ct cl)), res, cl)) in
       if \<not> again then finish cl
       else case refreshes of 0 \<Rightarrow> finish cl
       | Suc left \<Rightarrow>
           (case cl_auth cl of None \<Rightarrow> Fault
            | Some a \<Rightarrow>
              (case AUTH_REFRESH (ce_auth env) a of (ok, a) \<Rightarrow>
                 let cl = cl\<lparr>cl_auth := Some a\<rparr> in
                 if ok then vc_rounds left env timeout proc xargs args xres res cl else finish cl)))"

definition clnt_vc_call ::
  "vc_call_env \<Rightarrow> timeval \<Rightarrow> u32 \<Rightarrow> (rec_strm, 'a) xdrproc \<Rightarrow> 'a \<Rightarrow> (rec_strm, 'r) xdrproc option \<Rightarrow> 'r \<Rightarrow> vc_client \<Rightarrow>
     (clnt_stat \<times> 'r \<times> vc_client) run" where
  "clnt_vc_call env timeout proc xargs args xres res cl =
     (let ct = cl_ct cl; ct = (if \<not> ct_waitset ct \<and> \<not> time_not_ok timeout then ct\<lparr>ct_wait := timeout\<rparr> else ct)
      in vc_rounds 2 env timeout proc xargs args xres res (cl\<lparr>cl_ct := ct\<rparr>))"

declare vc_rounds.simps [simp del]

section \<open>The other operations\<close>

definition clnt_vc_geterr :: "vc_client \<Rightarrow> rpc_err" where
  "clnt_vc_geterr cl = ct_error (cl_ct cl)"

definition clnt_vc_freeres :: "(rec_strm, 'r) xdrproc \<Rightarrow> 'r \<Rightarrow> vc_client \<Rightarrow> (bool \<times> 'r \<times> vc_client) run" where
  "clnt_vc_freeres xres res cl =
     (case ct_xdrs (cl_ct cl) of None \<Rightarrow> Fault
      | Some x \<Rightarrow>
        (case xres res (x\<lparr>x_op := XDR_FREE\<rparr>) of (ok, res, x) \<Rightarrow>
           Ret (ok, res, cl\<lparr>cl_ct := (cl_ct cl)\<lparr>ct_xdrs := Some x\<rparr>\<rparr>)))"

definition clnt_vc_abort :: "vc_client \<Rightarrow> vc_client" where
  "clnt_vc_abort cl = cl"

text \<open>
  What \<open>info\<close> points to. A request that reads it is only right with an object of its own type; a request
  that writes it leaves such an object.
\<close>

datatype ctl_info = Info_time timeval | Info_bytes "byte list" | Info_int int | Info_netbuf netbuf | Info_word u32

definition ctl_reads :: "ctl_info \<Rightarrow> (ctl_info \<Rightarrow> 'a option) \<Rightarrow> ('a \<Rightarrow> bool \<times> 'd) \<Rightarrow> (bool \<times> ctl_info option \<times> 'd) run" where
  "ctl_reads i sel f = (case sel i of None \<Rightarrow> Fault | Some a \<Rightarrow> (case f a of (ok, ct) \<Rightarrow> Ret (ok, Some i, ct)))"

definition info_time :: "ctl_info \<Rightarrow> timeval option" where
  "info_time i = (case i of Info_time t \<Rightarrow> Some t | _ \<Rightarrow> None)"

definition info_word :: "ctl_info \<Rightarrow> u32 option" where
  "info_word i = (case i of Info_word w \<Rightarrow> Some w | _ \<Rightarrow> None)"

definition clnt_vc_control :: "u32 \<Rightarrow> ctl_info option \<Rightarrow> ct_data \<Rightarrow> (bool \<times> ctl_info option \<times> ct_data) run" where
  "clnt_vc_control rq info ct =
     (if rq = 8 then Ret (True, info, ct\<lparr>ct_closeit := True\<rparr>)
      else if rq = 9 then Ret (True, info, ct\<lparr>ct_closeit := False\<rparr>)
      else case info of None \<Rightarrow> Ret (False, None, ct)
      | Some i \<Rightarrow>
      let put = (\<lambda>k d. ctl_reads i info_word (\<lambda>w. (True, ct\<lparr>ct_mcallc := put_word k (w + d) (ct_mcallc ct)\<rparr>)));
          get = (\<lambda>i. Ret (True, Some i, ct)) in
      if rq = 1 then ctl_reads i info_time (\<lambda>t.
        if time_not_ok t then (False, ct) else (True, ct\<lparr>ct_wait := t, ct_waitset := True\<rparr>))
      else if rq = 2 then get (Info_time (ct_wait ct))
      else if rq = 3 then get (Info_bytes (take (unat (nb_len (ct_addr ct))) (deref (nb_buf (ct_addr ct)))))
      else if rq = 6 then get (Info_int (ct_fd ct))
      else if rq = 7 then get (Info_netbuf (ct_addr ct))
      else if rq = 16 then Ret (False, info, ct)
      else if rq = 10 then get (Info_word (get_word 0 (ct_mcallc ct)))
      else if rq = 11 then put 0 1
      else if rq = 12 then get (Info_word (get_word 4 (ct_mcallc ct)))
      else if rq = 13 then put 4 0
      else if rq = 14 then get (Info_word (get_word 3 (ct_mcallc ct)))
      else if rq = 15 then put 3 0
      else Ret (False, info, ct))"

text \<open>The descriptor that is closed, and how many allocations are freed.\<close>

definition clnt_vc_destroy :: "vc_client \<Rightarrow> int option \<times> nat" where
  "clnt_vc_destroy cl =
     (let ct = cl_ct cl in
      (if ct_closeit ct \<and> ct_fd ct \<noteq> - 1 then Some (ct_fd ct) else None,
       (case ct_xdrs ct of None \<Rightarrow> 0 | Some x \<Rightarrow> 3) + (if nb_buf (ct_addr ct) = None then 0 else 1) + 2))"

section \<open>When the connection ends\<close>

text \<open>Asking for more than there is ends in a failed read.\<close>

lemma get_input_loop_short:
  assumes "in_ok s" and "len + net_size s < fuel" and "length (pending s) < len"
  shows "\<exists>s'. get_input_loop fuel len s = (None, s') \<and> net_died s'"
  using assms
proof (induction fuel arbitrary: len s)
  case (Suc fuel)
  have pos: "0 < len" using Suc.prems(3) by simp
  consider "in_finger s = in_boundry s" "net_in s = []" | "in_finger s = in_boundry s" "net_in s \<noteq> []" | "in_finger s < in_boundry s"
    using Suc.prems(1) by (cases "in_finger s = in_boundry s"; cases "net_in s = []") (auto simp: in_ok_def)
  then show ?case
  proof cases
    case 1
    with fill_input_buf_spec(1) [OF Suc.prems(1) 1(1)] pos show ?thesis by simp
  next
    case 2
    with fill_input_buf_spec(2) [OF Suc.prems(1) 2(1)] obtain s1 where
      s1: "fill_input_buf s = (True, s1)" "in_ok s1" "pending s1 = pending s" "net_size s1 < net_size s" by blast
    from Suc.IH [OF s1(2), of len] s1 Suc.prems pos 2(1) show ?thesis by auto
  next
    case 3
    let ?c = "min len (in_boundry s - in_finger s)"
    have c: "?c \<le> in_boundry s - in_finger s" "0 < ?c" "?c \<le> len" using 3 pos by auto
    note a = advance_in [OF Suc.prems(1) c(1)]
    have "len - ?c < len" using c by simp
    then have f: "len - ?c + net_size (s\<lparr>in_finger := in_finger s + ?c\<rparr>) < fuel"
      unfolding net_size_finger using Suc.prems(2) by linarith
    have "?c \<le> length (pending s)"
      using c(1) Suc.prems(1) by (simp add: pending_def in_ok_def length_load)
    then have "length (pending (s\<lparr>in_finger := in_finger s + ?c\<rparr>)) < len - ?c"
      unfolding a(3) length_drop using Suc.prems(3) by linarith
    from Suc.IH [OF a(1) f this] obtain s2 where
      "get_input_loop fuel (len - ?c) (s\<lparr>in_finger := in_finger s + ?c\<rparr>) = (None, s2)" "net_died s2" by blast
    with 3 pos show ?thesis by (simp add: Let_def)
  qed
qed simp

lemma replymsg_no_header:
  assumes "at_record s [] [] tail" and "length tail < 4"
  obtains m' s' where "xdr_replymsg z (mkXDR XDR_DECODE xdrrec_ops (s\<lparr>last_frag := False\<rparr>) m) = (False, m', mkXDR XDR_DECODE xdrrec_ops s' m)"
    and "net_died s'"
proof -
  let ?s = "s\<lparr>last_frag := False\<rparr>"
  have ok: "in_ok ?s" "pending ?s = tail" "fbtbc ?s = 0"
    using assms(1) by (simp_all add: at_record_def in_ok_def pending_def)
  obtain s1 where s1: "get_input_loop (Suc (4 + net_size ?s)) 4 ?s = (None, s1)" "net_died s1"
    using get_input_loop_short [OF ok(1), of 4 "Suc (4 + net_size ?s)"] ok(2) assms(2) by auto
  then have "set_input_fragment ?s = (False, s1)"
    using ok(1) by (simp add: set_input_fragment_def get_input_bytes_def in_ok_def del: get_input_loop.simps)
  then have "getbytes_loop (Suc (4 + in_avail ?s)) 4 ?s = (None, s1)"
    unfolding getbytes_loop.simps(2) using ok(3) by simp
  then have "xdrrec_getlong ?s = (None, s1)"
    using ok(3) by (simp add: xdrrec_getlong_def xdrrec_getbytes_def del: getbytes_loop.simps)
  then show thesis
    using s1(2) that by (simp add: xdr_replymsg_def xdr_field_def xdr_u_int32_t_def XDR_GETLONG_def)
qed

text \<open>At the end of a record \<open>xdrrec_skiprecord\<close> succeeds whatever comes.\<close>

lemma skiprecord_ends:
  assumes "at_record s c ps tail" and "\<not> net_died s"
  obtains s' where "xdrrec_skiprecord s = (True, s'\<lparr>last_frag := False\<rparr>)" and "at_record s' [] [] tail" and "\<not> net_died s'"
    and "out_part s' = out_part s"
proof -
  have ok: "in_ok s" using assms(1) by (simp add: at_record_def)
  have "length ps \<le> length (pending s)"
    using assms(1) by (simp add: at_record_def length_enc_frags)
  then have "Suc (length ps) < Suc (Suc (in_avail s))"
    using length_pending [OF ok] by simp
  from skiprecord_loop_spec [OF assms(1) this] obtain s1 where
    s1: "skiprecord_loop (Suc (Suc (in_avail s))) s = (True, s1)" "in_ok s1" "pending s1 = tail"
      "fbtbc s1 = 0" "last_frag s1"
    by auto
  with ok assms(2) show thesis
    by (intro that [of s1])
      (auto simp: xdrrec_skiprecord_def at_record_def frags_ok_def in_ok_def skiprecord_loop_died skiprecord_loop_out
        simp del: skiprecord_loop.simps)
qed

section \<open>Waiting for the reply\<close>

text \<open>
  A record with a reply in it, and what decoding the reply allocates: a buffer for a verifier that is not
  empty. The results are not decoded with the reply.
\<close>

definition reply_record :: "('t, 'q) rpc_msg \<Rightarrow> byte list \<Rightarrow> byte list list \<Rightarrow> bool" where
  "reply_record m rst ps \<longleftrightarrow> replymsg_ok m \<and> ps \<noteq> [] \<and> frags_ok ps \<and> concat ps = enc_replymsg [] m @ rst"

definition verf_blocks :: "('t, 'q) rpc_msg \<Rightarrow> nat" where
  "verf_blocks m = (if rp_stat (rm_reply m) = MSG_ACCEPTED then auth_blocks null_auth (ar_verf (rp_acpt (rm_reply m))) else 0)"

definition stale :: "u32 \<Rightarrow> ('t, 'q) rpc_msg \<Rightarrow> byte list list \<Rightarrow> bool" where
  "stale xid m ps \<longleftrightarrow> rm_xid m \<noteq> xid \<and> (\<exists>rst. reply_record m rst ps)"

lemma await_step:
  assumes "at_record s c ps0 (enc_frags ps @ tail)" and "reply_record m rst ps" and "\<not> net_died s"
  obtains s1 s2 where "xdrrec_skiprecord s = (True, s1)"
    and "xdr_replymsg (await_msg z) (mkXDR XDR_DECODE xdrrec_ops s1 (h + verf_blocks m)) =
      (True, reply_into (await_msg z) m (), mkXDR XDR_DECODE xdrrec_ops s2 h)"
    and "live_ready tail (out_part s) s2 rst"
proof -
  have r: "replymsg_ok m" "ps \<noteq> []" "frags_ok ps" "concat ps = enc_replymsg [] m @ rst"
    using assms(2) by (simp_all add: reply_record_def)
  obtain s1 where s1: "xdrrec_skiprecord s = (True, s1)" "at_record s1 [] ps tail"
    by (rule xdrrec_skiprecord_spec [OF assms(1) r(2,3)])
  have nb: "\<not> nonblock s" using assms(1) by (simp add: at_record_def in_ok_def)
  then have "out_part s1 = out_part s" "\<not> net_died s1"
    using s1(1) assms(3) skiprecord_died [OF nb s1(1)]
    by (auto simp: xdrrec_skiprecord_def out_part_def simp del: skiprecord_loop.simps split: prod.splits if_splits
        dest!: skiprecord_loop_out)
  then have "live_ready tail (out_part s) s1 (enc_replymsg [] m @ rst)"
    using rec_readyI [OF s1(2), of "enc_replymsg [] m @ rst" "[]" "out_part s"] r(4) by (simp add: live_ready_def)
  moreover have "reply_blocks (await_msg z) m 0 = verf_blocks m"
    by (simp add: reply_blocks_def verf_blocks_def await_msg_def)
  moreover have "live_stream.decodes tail (out_part s) xdr_replymsg (await_msg z) (reply_into (await_msg z) m ()) (enc_replymsg [] m)
      (reply_blocks (await_msg z) m 0)"
    by (rule live_stream.decodes_replymsg [OF r(1)]) (simp add: await_msg_def live_stream.decodes_void)
  ultimately obtain s2 where "xdr_replymsg (await_msg z) (mkXDR XDR_DECODE xdrrec_ops s1 (h + verf_blocks m)) =
      (True, reply_into (await_msg z) m (), mkXDR XDR_DECODE xdrrec_ops s2 h)" "live_ready tail (out_part s) s2 rst"
    by (metis live_stream.decodesE)
  with s1(1) show thesis by (rule that)
qed

lemma live_ready_at_record:
  assumes "live_ready tail out s bs"
  obtains c ps where "at_record s c ps tail" and "\<not> net_died s" and "out_part s = out"
  using assms by (auto simp: live_ready_def rec_ready_def)

lemma await_stale:
  assumes "list_all2 (stale xid) ms pss" and "at_record s c ps0 (recs_of pss @ tail)" and "\<not> net_died s"
  shows "\<exists>z' s' c' ps'. vc_await (length ms + fuel) xid z (mkXDR XDR_DECODE xdrrec_ops s (h + sum_list (map verf_blocks ms))) =
      vc_await fuel xid z' (mkXDR XDR_DECODE xdrrec_ops s' h) \<and> at_record s' c' ps' tail \<and> \<not> net_died s' \<and> out_part s' = out_part s"
  using assms
proof (induction ms pss arbitrary: s c ps0 z rule: list_all2_induct)
  case Nil
  then show ?case by auto
next
  case (Cons m ms ps pss)
  let ?h = "h + sum_list (map verf_blocks ms)"
  obtain rst where r: "rm_xid m \<noteq> xid" "reply_record m rst ps" using Cons.hyps(1) by (auto simp: stale_def)
  have at: "at_record s c ps0 (enc_frags ps @ (recs_of pss @ tail))" using Cons.prems(1) by simp
  obtain s1 s2 where s: "xdrrec_skiprecord s = (True, s1)"
    "xdr_replymsg (await_msg z) (mkXDR XDR_DECODE xdrrec_ops s1 (?h + verf_blocks m)) =
      (True, reply_into (await_msg z) m (), mkXDR XDR_DECODE xdrrec_ops s2 ?h)"
    "live_ready (recs_of pss @ tail) (out_part s) s2 rst"
    by (rule await_step [OF at r(2) Cons.prems(2)])
  obtain c2 ps2 where s2: "at_record s2 c2 ps2 (recs_of pss @ tail)" "\<not> net_died s2" "out_part s2 = out_part s"
    by (rule live_ready_at_record [OF s(3)])
  have "rm_xid (reply_into (await_msg z) m ()) = rm_xid m" by (simp add: reply_into_def Let_def)
  then have "vc_await (length (m # ms) + fuel) xid z (mkXDR XDR_DECODE xdrrec_ops s (h + sum_list (map verf_blocks (m # ms)))) =
      vc_await (length ms + fuel) xid (reply_into (await_msg z) m ()) (mkXDR XDR_DECODE xdrrec_ops s2 ?h)"
    using s(1,2) r(1) by (simp add: ac_simps)
  with Cons.IH [OF s2(1,2), of "reply_into (await_msg z) m ()"] s2(3) show ?case by auto
qed

lemma await_reply:
  assumes "list_all2 (stale xid) ms pss" and "at_record s c ps0 (recs_of pss @ enc_frags qs @ tail)" and "\<not> net_died s"
    and "reply_record r rst qs" and "rm_xid r = xid" and "length ms < fuel"
  obtains z' s' where "vc_await fuel xid z (mkXDR XDR_DECODE xdrrec_ops s (h + verf_blocks r + sum_list (map verf_blocks ms))) =
      Ret (True, reply_into (await_msg z') r (), mkXDR XDR_DECODE xdrrec_ops s' h)"
    and "live_ready tail (out_part s) s' rst"
proof -
  obtain fuel' where fuel: "fuel = length ms + Suc fuel'" using assms(6) by (metis add_Suc_right less_imp_Suc_add)
  obtain z1 s1 c1 ps1 where s1: "vc_await fuel xid z (mkXDR XDR_DECODE xdrrec_ops s (h + verf_blocks r + sum_list (map verf_blocks ms))) =
      vc_await (Suc fuel') xid z1 (mkXDR XDR_DECODE xdrrec_ops s1 (h + verf_blocks r))"
    "at_record s1 c1 ps1 (enc_frags qs @ tail)" "\<not> net_died s1" "out_part s1 = out_part s"
    using await_stale [OF assms(1-3), of "Suc fuel'" z "h + verf_blocks r"] fuel by blast
  obtain s2 s3 where s2: "xdrrec_skiprecord s1 = (True, s2)"
    "xdr_replymsg (await_msg z1) (mkXDR XDR_DECODE xdrrec_ops s2 (h + verf_blocks r)) =
      (True, reply_into (await_msg z1) r (), mkXDR XDR_DECODE xdrrec_ops s3 h)"
    "live_ready tail (out_part s1) s3 rst"
    by (rule await_step [OF s1(2) assms(4) s1(3)])
  have "rm_xid (reply_into (await_msg z1) r ()) = xid" using assms(5) by (simp add: reply_into_def Let_def)
  then have "vc_await (Suc fuel') xid z1 (mkXDR XDR_DECODE xdrrec_ops s1 (h + verf_blocks r)) =
      Ret (True, reply_into (await_msg z1) r (), mkXDR XDR_DECODE xdrrec_ops s3 h)"
    using s2(1,2) by simp
  with s1 s2(3) show thesis by (intro that) simp_all
qed

lemma await_end:
  assumes "list_all2 (stale xid) ms pss" and "at_record s c ps0 (recs_of pss @ tail)" and "\<not> net_died s"
    and "length tail < 4" and "length ms < fuel"
  obtains z' s' where "vc_await fuel xid z (mkXDR XDR_DECODE xdrrec_ops s (h + sum_list (map verf_blocks ms))) =
      Ret (False, z', mkXDR XDR_DECODE xdrrec_ops s' h)"
    and "net_died s'"
proof -
  obtain fuel' where fuel: "fuel = length ms + Suc fuel'" using assms(5) by (metis add_Suc_right less_imp_Suc_add)
  obtain z1 s1 c1 ps1 where s1: "vc_await fuel xid z (mkXDR XDR_DECODE xdrrec_ops s (h + sum_list (map verf_blocks ms))) =
      vc_await (Suc fuel') xid z1 (mkXDR XDR_DECODE xdrrec_ops s1 h)"
    "at_record s1 c1 ps1 tail" "\<not> net_died s1"
    using await_stale [OF assms(1-3), of "Suc fuel'" z h] fuel by blast
  obtain s2 where s2: "xdrrec_skiprecord s1 = (True, s2\<lparr>last_frag := False\<rparr>)" "at_record s2 [] [] tail"
    by (rule skiprecord_ends [OF s1(2,3)])
  obtain m' s3 where s3: "xdr_replymsg (await_msg z1) (mkXDR XDR_DECODE xdrrec_ops (s2\<lparr>last_frag := False\<rparr>) h) =
      (False, m', mkXDR XDR_DECODE xdrrec_ops s3 h)" "net_died s3"
    by (rule replymsg_no_header [OF s2(2) assms(4), of "await_msg z1" h])
  then have "vc_await (Suc fuel') xid z1 (mkXDR XDR_DECODE xdrrec_ops s1 h) = Ret (False, m', mkXDR XDR_DECODE xdrrec_ops s3 h)"
    using s2(1) by simp
  with s1(1) s3(2) show thesis by (intro that) simp_all
qed

section \<open>A call and its reply\<close>

text \<open>
  A handle between calls: the next transaction number is counted down from \<open>xid\<close>, nothing of a record is in
  the buffer, at least \<open>n\<close> more bytes can be written, the filters may allocate \<open>h\<close> blocks, and what follows the
  current record on the connection is \<open>inp\<close>. \<open>vc_sent\<close> are the bytes of all records that were ended.
\<close>

definition vc_idle :: "u32 \<Rightarrow> u32 \<Rightarrow> u32 \<Rightarrow> client_auth \<Rightarrow> nat \<Rightarrow> nat \<Rightarrow> byte list \<Rightarrow> vc_client \<Rightarrow> bool" where
  "vc_idle xid prog vers a h n inp cl \<longleftrightarrow>
     cl_auth cl = Some a \<and> ct_mpos (cl_ct cl) = 20 \<and> (\<exists>rest. ct_mcallc (cl_ct cl) = call_header xid prog vers @ rest) \<and>
     (\<exists>d s c ps. ct_xdrs (cl_ct cl) = Some (mkXDR d xdrrec_ops s h) \<and> rec_fits s n \<and> out_cur s = [] \<and> at_record s c ps inp)"

definition vc_sent :: "vc_client \<Rightarrow> byte list" where
  "vc_sent cl = (case ct_xdrs (cl_ct cl) of None \<Rightarrow> [] | Some x \<Rightarrow> out_done (x_private x))"

definition vc_request :: "u32 \<Rightarrow> u32 \<Rightarrow> u32 \<Rightarrow> u32 \<Rightarrow> client_auth \<Rightarrow> byte list \<Rightarrow> byte list" where
  "vc_request xid prog vers proc a ab = call_header xid prog vers @ be32 proc @ auth_wire a @ ab"

lemma net_died_irrelevant [simp]:
  "rec_fits (s\<lparr>net_died := b\<rparr>) n = rec_fits s n" "out_cur (s\<lparr>net_died := b\<rparr>) = out_cur s"
  "out_done (s\<lparr>net_died := b\<rparr>) = out_done s" "in_part (s\<lparr>net_died := b\<rparr>) = in_part s"
  "at_record (s\<lparr>net_died := b\<rparr>) = at_record s"
  by (simp_all add: rec_fits_def out_ok_def out_cur_def out_done_def in_part_def at_record_def in_ok_def pending_def fun_eq_iff)

lemma out_part_same:
  assumes "out_part s' = out_part s"
  shows "rec_fits s' n = rec_fits s n" "out_cur s' = out_cur s" "out_done s' = out_done s" "out_ok s' = out_ok s"
  using assms by (simp_all add: rec_fits_def out_ok_def out_cur_def out_done_def out_part_def)

lemma vc_send_spec:
  assumes "rec_fits s (length (vc_request (xid_step (- 1) xid) prog vers proc a ab) + (1 + n))" and "out_cur s = []"
    and "ct_mcallc ct = call_header xid prog vers @ rest" and "ct_mpos ct = 20" and "auth_sends a cred verf"
    and "live_stream.encodes xargs args args' ab"
  obtains s' ps where "vc_send True proc xargs args (Some a) (mkXDR d xdrrec_ops s h) ct =
      Ret (True, mkXDR XDR_ENCODE xdrrec_ops s' h, ct\<lparr>ct_error := (ct_error ct)\<lparr>re_status := RPC_SUCCESS\<rparr>,
        ct_mcallc := call_header (xid_step (- 1) xid) prog vers @ rest\<rparr>)"
    and "frags_ok ps" and "concat ps = vc_request (xid_step (- 1) xid) prog vers proc a ab"
    and "out_done s' = out_done s @ enc_frags ps" and "out_cur s' = []" and "rec_fits s' n" and "\<not> net_died s'"
    and "in_part s' = in_part s"
proof -
  let ?hdr = "call_header (xid_step (- 1) xid) prog vers" and ?s = "s\<lparr>net_died := False\<rparr>"
  let ?W = "vc_request (xid_step (- 1) xid) prog vers proc a ab"
  have len: "length ?hdr < 2 ^ 32" "length (auth_wire a) < 2 ^ 32" using auth_wire_length [OF assms(5)] by simp_all
  have enc: "live_stream.encodes (call_filter ?hdr proc a xargs) args args ?W"
    unfolding vc_request_def by (rule live_stream.encodes_call_filter [OF len assms(6)])
  have fits: "rec_fits ?s (length ?W + (1 + n))" using assms(1) by simp
  obtain s1 where s1: "call_filter ?hdr proc a xargs args (mkXDR XDR_ENCODE xdrrec_ops ?s h) = (True, args, mkXDR XDR_ENCODE xdrrec_ops s1 h)"
    "live_wrote ?s ?W s1" "rec_fits s1 (1 + n)"
    by (rule live_stream.encodesE [OF enc fits])
  have w: "rec_wrote ?s ?W s1" "\<not> net_died s1" using s1(2) by (simp_all add: live_wrote_def)
  have "0 < net_writes s1" "out_cur ?s = []" using s1(3) assms(2) by (simp_all add: rec_fits_def)
  then obtain s2 ps where s2: "xdrrec_endofrecord True s1 = (True, s2)" "out_ok s2" "out_cur s2 = []"
    "net_sent s2 = out_done ?s @ enc_frags ps" "out_done s2 = net_sent s2" "frags_ok ps" "concat ps = ?W"
    "net_writes s1 \<le> net_writes s2 + 1" "in_part s2 = in_part ?s"
    by (metis xdrrec_record_sent [OF w(1)])
  have died: "\<not> net_died s2" using endofrecord_died [OF s2(1)] w(2) by simp
  have "rec_fits s2 n" using s1(3) s2(2,8) by (simp add: rec_fits_def)
  moreover have "take 20 (bump_xid (- 1) (call_header xid prog vers @ rest)) = ?hdr" by (simp add: bump_call_header)
  ultimately show thesis
    using s1(1) s2 died assms(3,4)
    by (intro that [of s2 ps])
      (simp_all add: vc_send_def clnt_put_call_filter note_write_def bump_call_header Let_def)
qed

lemma vc_results_spec:
  assumes "live_ready tail out s (rbs @ rst)" and "\<And>nxt out. live_stream.decodes nxt out xres res w rbs kr"
    and "rp_stat (rm_reply r) = MSG_ACCEPTED" and "oa_flavor (ar_verf (rp_acpt (rm_reply r))) \<noteq> AUTH_SHORT"
    and "re_status (ct_error ct) = RPC_SUCCESS"
  obtains d s' where "vc_results ae (reply_into (await_msg z) r ()) (Some xres) res (Some a) (mkXDR XDR_DECODE xdrrec_ops s (h + kr)) ct =
      Ret (w, Some a, mkXDR d xdrrec_ops s' (h + verf_blocks r), ct)"
    and "live_ready tail out s' rst"
proof -
  let ?v = "ar_verf (rp_acpt (rm_reply (reply_into (await_msg z) r ())))"
  have v: "?v = auth_into null_auth (ar_verf (rp_acpt (rm_reply r)))"
    using assms(3) by (simp add: reply_into_def accepted_into_def await_msg_def Let_def)
  have valid: "AUTH_VALIDATE ae a ?v = (True, a)" using assms(4) by (simp add: v auth_into_def)
  obtain s1 where s1: "xres res (mkXDR XDR_DECODE xdrrec_ops s (h + kr)) = (True, w, mkXDR XDR_DECODE xdrrec_ops s1 h)"
    "live_ready tail out s1 rst"
    by (rule live_stream.decodesE [OF assms(2,1)])
  have died: "\<not> net_died s1" using s1(2) by (simp add: live_ready_def)
  have free: "xdr_opaque_auth ?v (mkXDR XDR_FREE xdrrec_ops s1 h) =
      (True, ?v\<lparr>oa_base := None\<rparr>, mkXDR XDR_FREE xdrrec_ops s1 (h + (if oa_base ?v = None then 0 else 1)))"
    by (rule freesD [OF frees_opaque_auth])
  have blocks: "verf_blocks r = (if oa_base ?v = None then 0 else 1)"
    unfolding v using assms(3)
    by (simp add: verf_blocks_def auth_blocks_def counted_blocks_def auth_into_def counted_into_def null_auth_def)
  have ct: "ct\<lparr>ct_error := ct_error ct\<rparr> = ct" by simp
  show thesis
    by (rule that [of "if oa_base ?v = None then XDR_DECODE else XDR_FREE" s1])
      (use s1 died valid free blocks ct in \<open>auto simp: vc_results_def note_read_def Let_def simp del: not_None_eq\<close>)
qed

lemma vc_round_failed:
  assumes "ct_xdrs (cl_ct cl) = Some x" and "tv_sec timeout \<noteq> 0 \<or> tv_usec timeout \<noteq> 0"
    and "vc_send True proc xargs args (cl_auth cl) x (cl_ct cl) = Ret (True, x1, ct)"
    and "vc_await (ce_fuel env) (get_word 0 (ct_mcallc ct)) (ce_junk env) (x1\<lparr>x_op := XDR_DECODE\<rparr>) = Ret (False, m, x2)"
  shows "vc_round env timeout proc xargs args xres res cl =
    Ret (False, res, cl\<lparr>cl_ct := ct\<lparr>ct_error := note_read (x_private x2) (ct_fail ct) (ct_error ct), ct_xdrs := Some x2\<rparr>\<rparr>)"
proof -
  have time: "(tv_sec timeout = 0 \<and> tv_usec timeout = 0) = False" using assms(2) by blast
  show ?thesis unfolding vc_round_def time using assms(1,3,4) by (simp add: Let_def)
qed

lemma vc_round_replied:
  assumes "ct_xdrs (cl_ct cl) = Some x" and "tv_sec timeout \<noteq> 0 \<or> tv_usec timeout \<noteq> 0"
    and "vc_send True proc xargs args (cl_auth cl) x (cl_ct cl) = Ret (True, x1, ct)"
    and "vc_await (ce_fuel env) (get_word 0 (ct_mcallc ct)) (ce_junk env) (x1\<lparr>x_op := XDR_DECODE\<rparr>) = Ret (True, m, x2)"
    and "\<not> net_died (x_private x2)" and "seterr_reply m (ct_error ct) = ct_error ct" and "re_status (ct_error ct) = RPC_SUCCESS"
    and "vc_results (ce_auth env) m xres res (cl_auth cl) x2 ct = Ret (w, a, x3, ct')"
  shows "vc_round env timeout proc xargs args xres res cl = Ret (False, w, \<lparr>cl_auth = a, cl_ct = ct'\<lparr>ct_xdrs := Some x3\<rparr>\<rparr>)"
proof -
  have time: "(tv_sec timeout = 0 \<and> tv_usec timeout = 0) = False" using assms(2) by blast
  have "ct\<lparr>ct_error := ct_error ct\<rparr> = ct" by simp
  then show ?thesis unfolding vc_round_def time using assms(1,3-8) by (simp add: note_read_def Let_def)
qed

lemma vc_rounds_stop:
  "vc_round env timeout proc xargs args xres res cl = Ret (False, w, cl') \<Longrightarrow>
   vc_rounds k env timeout proc xargs args xres res cl = Ret (re_status (ct_error (cl_ct cl')), w, cl')"
  by (subst vc_rounds.simps) simp

text \<open>The beginning of every call on an idle handle: the record is sent.\<close>

lemma vc_call_begins:
  fixes cl :: vc_client and xargs :: "(rec_strm, 'a) xdrproc"
  assumes "vc_idle xid prog vers a h (length (vc_request (xid_step (- 1) xid) prog vers proc a ab) + (1 + n)) inp cl"
    and "auth_sends a cred verf" and "live_stream.encodes xargs args args' ab"
  obtains x0 ct0 ct s rest c ps0 ps where
    "\<forall>env xres (res :: 'r). clnt_vc_call env timeout proc xargs args xres res cl = vc_rounds 2 env timeout proc xargs args xres res (cl\<lparr>cl_ct := ct0\<rparr>)"
    and "cl_auth cl = Some a" and "ct_xdrs ct0 = Some x0"
    and "vc_send True proc xargs args (Some a) x0 ct0 = Ret (True, mkXDR XDR_ENCODE xdrrec_ops s h, ct)"
    and "ct_mcallc ct = call_header (xid_step (- 1) xid) prog vers @ rest" and "ct_mpos ct = 20"
    and "get_word 0 (ct_mcallc ct) = xid_step (- 1) xid"
    and "re_status (ct_error ct) = RPC_SUCCESS" and "ct_fail ct = ct_fail (cl_ct cl)"
    and "at_record s c ps0 inp" and "\<not> net_died s" and "rec_fits s n" and "out_cur s = []"
    and "frags_ok ps" and "concat ps = vc_request (xid_step (- 1) xid) prog vers proc a ab"
    and "out_done s = vc_sent cl @ enc_frags ps"
proof -
  let ?ct0 = "cl_ct cl" and ?xid = "xid_step (- 1) xid"
  let ?W = "vc_request ?xid prog vers proc a ab"
  obtain rest d s c0 ps0 where cl: "cl_auth cl = Some a" "ct_mpos ?ct0 = 20" "ct_mcallc ?ct0 = call_header xid prog vers @ rest"
    "ct_xdrs ?ct0 = Some (mkXDR d xdrrec_ops s h)" "rec_fits s (length ?W + (1 + n))" "out_cur s = []"
    "at_record s c0 ps0 inp"
    using assms(1) by (auto simp: vc_idle_def)
  define ct where "ct = (if \<not> ct_waitset ?ct0 \<and> \<not> time_not_ok timeout then ?ct0\<lparr>ct_wait := timeout\<rparr> else ?ct0)"
  have ct: "ct_mpos ct = 20" "ct_mcallc ct = call_header xid prog vers @ rest" "ct_xdrs ct = ct_xdrs ?ct0" "ct_fail ct = ct_fail ?ct0"
    using cl by (simp_all add: ct_def)
  obtain s1 ps where s1: "vc_send True proc xargs args (Some a) (mkXDR d xdrrec_ops s h) ct =
      Ret (True, mkXDR XDR_ENCODE xdrrec_ops s1 h, ct\<lparr>ct_error := (ct_error ct)\<lparr>re_status := RPC_SUCCESS\<rparr>,
        ct_mcallc := call_header ?xid prog vers @ rest\<rparr>)"
    "frags_ok ps" "concat ps = ?W" "out_done s1 = out_done s @ enc_frags ps" "out_cur s1 = []" "rec_fits s1 n" "\<not> net_died s1"
    "in_part s1 = in_part s"
    by (rule vc_send_spec [OF cl(5,6) ct(2,1) assms(2,3)])
  have at: "at_record s1 c0 ps0 inp" using cl(7) at_record_in_part [OF s1(8)] by simp
  have run: "\<forall>env xres (res :: 'r). clnt_vc_call env timeout proc xargs args xres res cl =
      vc_rounds 2 env timeout proc xargs args xres res (cl\<lparr>cl_ct := ct\<rparr>)"
    by (simp add: clnt_vc_call_def ct_def Let_def)
  show thesis
    by (rule that [OF run cl(1) _ s1(1), of rest c0 ps0 ps])
      (use s1(2-7) at cl(4) ct get_word_header(1) [of ?xid prog vers rest] in \<open>simp_all add: vc_sent_def\<close>)
qed

text \<open>A new handle is idle.\<close>

lemma vc_created:
  assumes "clnt_vc_create y addr junk err0 wait0 mcall0 fd raddr prog vers sendsz recvsz h locks heap = Ret (Some cl, e, l, k)"
    and "length mcall0 = 24" and "vs_auth y = Some a" and "ct_xdrs (cl_ct cl) \<noteq> None" and "vs_proto y = Some proto"
    and "unat (rpc_get_t_size proto sendsz) < 2 ^ 30" and "unat (rpc_get_t_size proto recvsz) < 2 ^ 30"
  shows "vc_idle (vs_xid y) prog vers a h (vs_writes y div 2) (concat (vs_net y)) cl" and "vc_sent cl = []"
    and "ct_fail (cl_ct cl) = vs_fail y"
proof -
  let ?m = "junk\<lparr>rm_xid := vs_xid y, rm_direction := CALL,
    rm_call := (rm_call junk)\<lparr>cb_rpcvers := RPC_MSG_VERSION, cb_prog := prog, cb_vers := vers\<rparr>\<rparr>"
  obtain x m' where x: "xdr_callhdr ?m (xdrmem_create addr mcall0 24 XDR_ENCODE 0) = (True, m', x)"
    "xm_buf (x_private x) = call_header (vs_xid y) prog vers @ drop 20 mcall0" "XDR_GETPOS x = 20"
    by (rule callhdr_created [OF assms(2), of ?m addr 0]) simp
  obtain hp s where s: "xdrrec_create (rpc_get_t_size proto sendsz) (rpc_get_t_size proto recvsz) (vs_net y) (vs_writes y) (vs_pos y) hp = Some s"
    and ct: "ct_xdrs (cl_ct cl) = Some (mkXDR XDR_ENCODE xdrrec_ops s h)" "cl_auth cl = Some a" "ct_mpos (cl_ct cl) = 20"
    "ct_mcallc (cl_ct cl) = call_header (vs_xid y) prog vers @ drop 20 mcall0" "ct_fail (cl_ct cl) = vs_fail y"
    using assms(1,3-5) x by (auto simp: clnt_vc_create_def Let_def split: if_splits option.splits)
  note c = xdrrec_create_ok [OF s assms(6,7)]
  show "vc_idle (vs_xid y) prog vers a h (vs_writes y div 2) (concat (vs_net y)) cl" "vc_sent cl = []"
    "ct_fail (cl_ct cl) = vs_fail y"
    unfolding vc_idle_def vc_sent_def using ct c by auto
qed

text \<open>
  C1: A call on an idle handle sends one record, the header with the next transaction number, the procedure,
  the authenticator and the arguments; and when the connection then brings any number of replies to other
  calls and the accepted reply to this one, the call returns \<open>RPC_SUCCESS\<close> with the results the
  filter decodes from it. The handle is then idle again and only the replies to other calls have cost it memory.
\<close>

theorem vc_call_returns:
  fixes res :: 'r
  assumes "vc_idle xid prog vers a (h + kr + verf_blocks r + sum_list (map verf_blocks ms))
      (length (vc_request (xid_step (- 1) xid) prog vers proc a ab) + (1 + n)) (recs_of pss @ enc_frags qs @ inp) cl"
    and "auth_sends a cred verf" and "live_stream.encodes xargs args args' ab"
    and "list_all2 (stale (xid_step (- 1) xid)) ms pss" and "length ms < ce_fuel env"
    and "reply_record r (rbs @ rst) qs" and "rm_xid r = xid_step (- 1) xid" and "has_results r"
    and "oa_flavor (ar_verf (rp_acpt (rm_reply r))) \<noteq> AUTH_SHORT"
    and "\<And>nxt out. live_stream.decodes nxt out xres res w rbs kr"
    and "tv_sec timeout \<noteq> 0 \<or> tv_usec timeout \<noteq> 0"
  shows "\<exists>cl' ps. clnt_vc_call env timeout proc xargs args (Some xres) res cl = Ret (RPC_SUCCESS, w, cl') \<and>
    vc_sent cl' = vc_sent cl @ enc_frags ps \<and> frags_ok ps \<and>
    concat ps = vc_request (xid_step (- 1) xid) prog vers proc a ab \<and>
    vc_idle (xid_step (- 1) xid) prog vers a (h + verf_blocks r) n inp cl'"
proof -
  let ?xid = "xid_step (- 1) xid" and ?H = "h + kr + verf_blocks r + sum_list (map verf_blocks ms)"
  obtain x0 ct0 ct s rest c ps0 ps where b:
    "\<forall>env xres (res :: 'r). clnt_vc_call env timeout proc xargs args xres res cl = vc_rounds 2 env timeout proc xargs args xres res (cl\<lparr>cl_ct := ct0\<rparr>)"
    "cl_auth cl = Some a" "ct_xdrs ct0 = Some x0"
    "vc_send True proc xargs args (Some a) x0 ct0 = Ret (True, mkXDR XDR_ENCODE xdrrec_ops s ?H, ct)"
    "ct_mcallc ct = call_header ?xid prog vers @ rest" "ct_mpos ct = 20" "get_word 0 (ct_mcallc ct) = ?xid"
    "re_status (ct_error ct) = RPC_SUCCESS" "ct_fail ct = ct_fail (cl_ct cl)" "at_record s c ps0 (recs_of pss @ enc_frags qs @ inp)" "\<not> net_died s" "rec_fits s n"
    "out_cur s = []" "frags_ok ps" "concat ps = vc_request ?xid prog vers proc a ab" "out_done s = vc_sent cl @ enc_frags ps"
    by (rule vc_call_begins [OF assms(1-3), of timeout])
  obtain z' s2 where s2: "vc_await (ce_fuel env) ?xid (ce_junk env) (mkXDR XDR_DECODE xdrrec_ops s ?H) =
      Ret (True, reply_into (await_msg z') r (), mkXDR XDR_DECODE xdrrec_ops s2 (h + kr))"
    "live_ready inp (out_part s) s2 (rbs @ rst)"
    by (rule await_reply [OF assms(4) b(10,11) assms(6,7,5)])
  have r: "rp_stat (rm_reply r) = MSG_ACCEPTED" using assms(8) by (simp add: has_results_def)
  have ok: "seterr_reply (reply_into (await_msg z') r ()) (ct_error ct) = ct_error ct"
    using assms(8) b(8) by (simp add: seterr_reply_def reply_into_def accepted_into_def has_results_def Let_def)
  obtain d' s3 where s3: "vc_results (ce_auth env) (reply_into (await_msg z') r ()) (Some xres) res (Some a)
      (mkXDR XDR_DECODE xdrrec_ops s2 (h + kr)) ct = Ret (w, Some a, mkXDR d' xdrrec_ops s3 (h + verf_blocks r), ct)"
    "live_ready inp (out_part s) s3 rst"
    by (rule vc_results_spec [OF s2(2) assms(10) r assms(9) b(8)])
  obtain c3 ps3 where at3: "at_record s3 c3 ps3 inp" "\<not> net_died s3" "out_part s3 = out_part s"
    by (rule live_ready_at_record [OF s3(2)])
  have idle: "rec_fits s3 n" "out_cur s3 = []" "out_done s3 = out_done s"
    using out_part_same [OF at3(3)] b(12,13) by simp_all
  have live: "\<not> net_died s2" using s2(2) by (simp add: live_ready_def)
  let ?cl = "\<lparr>cl_auth = Some a, cl_ct = ct\<lparr>ct_xdrs := Some (mkXDR d' xdrrec_ops s3 (h + verf_blocks r))\<rparr>\<rparr>"
  have "vc_round env timeout proc xargs args (Some xres) res (cl\<lparr>cl_ct := ct0\<rparr>) = Ret (False, w, ?cl)"
    by (rule vc_round_replied [OF _ assms(11), where x = x0 and ct = ct and ?x1.0 = "mkXDR XDR_ENCODE xdrrec_ops s ?H"
          and m = "reply_into (await_msg z') r ()" and ?x2.0 = "mkXDR XDR_DECODE xdrrec_ops s2 (h + kr)"])
      (use b(2-4,7,8) s2(1) s3(1) live ok in simp_all)
  from vc_rounds_stop [OF this, of 2] b(1,8)
  have "clnt_vc_call env timeout proc xargs args (Some xres) res cl = Ret (RPC_SUCCESS, w, ?cl)" by simp
  moreover have "vc_idle ?xid prog vers a (h + verf_blocks r) n inp ?cl"
    unfolding vc_idle_def using b(5,6) at3(1) idle by simp blast
  moreover have "vc_sent ?cl = vc_sent cl @ enc_frags ps"
    using b(16) idle(3) by (simp add: vc_sent_def)
  ultimately show ?thesis using b(14,15) by blast
qed

text \<open>
  C2: A call always comes back when the connection brings no reply to it: once the data of the connection
  has ended, after any number of replies to other calls and before the header of another record is
  complete, it returns what stopped the reading, \<open>RPC_TIMEDOUT\<close> after the time of the handle has passed without
  data, \<open>RPC_CANTRECV\<close> after the end of the connection or an error.
\<close>

theorem vc_call_gives_up:
  fixes res :: 'r
  assumes "vc_idle xid prog vers a (h + sum_list (map verf_blocks ms))
      (length (vc_request (xid_step (- 1) xid) prog vers proc a ab) + (1 + n)) (recs_of pss @ tail) cl"
    and "auth_sends a cred verf" and "live_stream.encodes xargs args args' ab"
    and "list_all2 (stale (xid_step (- 1) xid)) ms pss" and "length tail < 4" and "length ms < ce_fuel env"
    and "ct_fail (cl_ct cl) = ct_failure es"
    and "tv_sec timeout \<noteq> 0 \<or> tv_usec timeout \<noteq> 0"
  shows "\<exists>st cl'. clnt_vc_call env timeout proc xargs args xres res cl = Ret (st, res, cl') \<and>
    st = fst (ct_failure es) \<and> (st = RPC_TIMEDOUT \<or> st = RPC_CANTRECV)"
proof -
  let ?xid = "xid_step (- 1) xid" and ?H = "h + sum_list (map verf_blocks ms)"
  obtain x0 ct0 ct s rest c ps0 ps where b:
    "\<forall>env xres (res :: 'r). clnt_vc_call env timeout proc xargs args xres res cl = vc_rounds 2 env timeout proc xargs args xres res (cl\<lparr>cl_ct := ct0\<rparr>)"
    "cl_auth cl = Some a" "ct_xdrs ct0 = Some x0"
    "vc_send True proc xargs args (Some a) x0 ct0 = Ret (True, mkXDR XDR_ENCODE xdrrec_ops s ?H, ct)"
    "ct_mcallc ct = call_header ?xid prog vers @ rest" "ct_mpos ct = 20" "get_word 0 (ct_mcallc ct) = ?xid"
    "re_status (ct_error ct) = RPC_SUCCESS" "ct_fail ct = ct_fail (cl_ct cl)" "at_record s c ps0 (recs_of pss @ tail)" "\<not> net_died s" "rec_fits s n"
    "out_cur s = []" "frags_ok ps" "concat ps = vc_request ?xid prog vers proc a ab" "out_done s = vc_sent cl @ enc_frags ps"
    by (rule vc_call_begins [OF assms(1-3), of timeout])
  obtain z' s2 where s2: "vc_await (ce_fuel env) ?xid (ce_junk env) (mkXDR XDR_DECODE xdrrec_ops s ?H) =
      Ret (False, z', mkXDR XDR_DECODE xdrrec_ops s2 h)" "net_died s2"
    by (rule await_end [OF assms(4) b(10,11) assms(5,6)])
  have fail: "fst (ct_failure es) = RPC_TIMEDOUT \<or> fst (ct_failure es) = RPC_CANTRECV"
    by (induction es rule: ct_failure.induct) simp_all
  have "vc_round env timeout proc xargs args xres res (cl\<lparr>cl_ct := ct0\<rparr>) =
      Ret (False, res, (cl\<lparr>cl_ct := ct0\<rparr>)\<lparr>cl_ct := ct\<lparr>ct_error := note_read (x_private (mkXDR XDR_DECODE xdrrec_ops s2 h)) (ct_fail ct) (ct_error ct),
        ct_xdrs := Some (mkXDR XDR_DECODE xdrrec_ops s2 h)\<rparr>\<rparr>)"
    by (rule vc_round_failed [OF _ assms(8), where x = x0 and ?x1.0 = "mkXDR XDR_ENCODE xdrrec_ops s ?H"])
      (use b(2-4,7) s2(1) in simp_all)
  from vc_rounds_stop [OF this, of 2] b(1,9) s2(2) assms(7) fail show ?thesis by (simp add: note_read_def)
qed

section \<open>What a handle always is\<close>

text \<open>
  The header kept in a handle is that of a call of version 2, and the time a program has set with
  \<open>CLSET_TIMEOUT\<close> is one \<open>time_not_ok\<close> does not object to.
\<close>

definition vc_handle_ok :: "ct_data \<Rightarrow> bool" where
  "vc_handle_ok ct \<longleftrightarrow> ct_mpos ct = 20 \<and> (\<exists>xid prog vers rest. ct_mcallc ct = call_header xid prog vers @ rest \<and> length rest = 4) \<and>
     (ct_waitset ct \<longrightarrow> \<not> time_not_ok (ct_wait ct))"

lemma vc_handle_ok_same:
  "vc_handle_ok ct \<Longrightarrow> ct_mpos ct' = ct_mpos ct \<Longrightarrow> ct_mcallc ct' = ct_mcallc ct \<Longrightarrow> ct_waitset ct' = ct_waitset ct \<Longrightarrow>
   ct_wait ct' = ct_wait ct \<Longrightarrow> vc_handle_ok ct'"
  by (simp add: vc_handle_ok_def)

lemma vc_handle_ok_bump: "vc_handle_ok ct \<Longrightarrow> vc_handle_ok (ct\<lparr>ct_mcallc := bump_xid d (ct_mcallc ct)\<rparr>)"
  unfolding vc_handle_ok_def by (elim conjE exE) (simp add: bump_call_header, blast)

lemma vc_handle_ok_time: "vc_handle_ok ct \<Longrightarrow> \<not> time_not_ok t \<Longrightarrow> vc_handle_ok (ct\<lparr>ct_wait := t, ct_waitset := True\<rparr>)"
  unfolding vc_handle_ok_def by (elim conjE exE) (simp, blast)

lemma vc_handle_ok_put:
  "vc_handle_ok ct \<Longrightarrow> k = 0 \<or> k = 3 \<or> k = 4 \<Longrightarrow> vc_handle_ok (ct\<lparr>ct_mcallc := put_word k w (ct_mcallc ct)\<rparr>)"
  unfolding vc_handle_ok_def by (elim conjE exE disjE; simp add: put_word_header) blast+

lemma vc_send_ok:
  assumes "vc_send now proc xargs args auth x ct = Ret (ok, x', ct')" and "vc_handle_ok ct"
  shows "vc_handle_ok ct'"
proof -
  have "vc_handle_ok (ct\<lparr>ct_mcallc := bump_xid (- 1) (ct_mcallc ct)\<rparr>)" by (rule vc_handle_ok_bump [OF assms(2)])
  then show ?thesis
    by (rule vc_handle_ok_same)
      (use assms(1) in \<open>auto simp: vc_send_def Let_def elim!: run_bind.elims split: prod.splits if_splits\<close>)
qed

lemma vc_results_ok:
  assumes "vc_results ae m xres res auth x ct = Ret (res', auth', x', ct')" and "vc_handle_ok ct"
  shows "vc_handle_ok ct'"
  by (rule vc_handle_ok_same [OF assms(2)])
    (use assms(1) in \<open>auto simp: vc_results_def Let_def split: prod.splits option.splits if_splits\<close>)


lemma vc_round_ok:
  assumes "vc_round env timeout proc xargs args xres res cl = Ret (again, res', cl')" and "vc_handle_ok (cl_ct cl)"
  shows "vc_handle_ok (cl_ct cl')"
proof -
  obtain x ok x1 ct where x: "ct_xdrs (cl_ct cl) = Some x"
    and send: "vc_send (\<not> (xres = None \<and> tv_sec timeout = 0 \<and> tv_usec timeout = 0)) proc xargs args (cl_auth cl) x (cl_ct cl) = Ret (ok, x1, ct)"
    using assms(1) by (auto simp: vc_round_def Let_def elim!: run_bind.elims split: option.splits)
  have ct: "vc_handle_ok ct" by (rule vc_send_ok [OF send assms(2)])
  have same: "vc_handle_ok (ct\<lparr>ct_error := e, ct_xdrs := y\<rparr>)" "vc_handle_ok (ct\<lparr>ct_xdrs := y\<rparr>)" "vc_handle_ok (ct\<lparr>ct_error := e\<rparr>)" for e y
    using vc_handle_ok_same [OF ct] by simp_all
  have res: "vc_handle_ok (cl_ct cl')"
    if b: "run_bind (vc_results ae m xres res auth x' (ct\<lparr>ct_error := e\<rparr>)) (\<lambda>(res, a, x, ct).
        Ret (False, res, \<lparr>cl_auth = a, cl_ct = ct\<lparr>ct_xdrs := Some x\<rparr>\<rparr>)) = Ret (again, res', cl')" for ae m auth x' e
  proof -
    obtain r a x'' ct' where r: "vc_results ae m xres res auth x' (ct\<lparr>ct_error := e\<rparr>) = Ret (r, a, x'', ct')"
      "cl' = \<lparr>cl_auth = a, cl_ct = ct'\<lparr>ct_xdrs := Some x''\<rparr>\<rparr>"
      using b by (cases "vc_results ae m xres res auth x' (ct\<lparr>ct_error := e\<rparr>)") auto
    have "vc_handle_ok ct'" by (rule vc_results_ok [OF r(1) same(3)])
    then show ?thesis using vc_handle_ok_same [of ct'] r(2) by simp
  qed
  show ?thesis
    using assms(1) same res [OF sym]
    unfolding vc_round_def x option.case Let_def send run_bind.simps prod.case
    by (auto elim!: run_bind.elims [of "vc_await f i j z" for f i j z] split: if_splits)
qed

lemma vc_rounds_ok:
  assumes "vc_rounds k env timeout proc xargs args xres res cl = Ret (st, res', cl')" and "vc_handle_ok (cl_ct cl)"
  shows "vc_handle_ok (cl_ct cl')"
  using assms
proof (induction k arbitrary: res cl)
  case 0
  obtain again w cl1 where r: "vc_round env timeout proc xargs args xres res cl = Ret (again, w, cl1)"
    using 0(1) by (subst (asm) vc_rounds.simps) (auto elim!: run_bind.elims)
  with 0(1) vc_round_ok [OF r 0(2)] show ?case by (subst (asm) vc_rounds.simps) (auto split: if_splits)
next
  case (Suc k)
  obtain again w cl1 where r: "vc_round env timeout proc xargs args xres res cl = Ret (again, w, cl1)"
    using Suc.prems(1) by (subst (asm) vc_rounds.simps) (auto elim!: run_bind.elims)
  have ok: "vc_handle_ok (cl_ct cl1)" by (rule vc_round_ok [OF r Suc.prems(2)])
  have ih: "vc_handle_ok (cl_ct cl')" if "vc_rounds k env timeout proc xargs args xres w (cl1\<lparr>cl_auth := a\<rparr>) = Ret (st, res', cl')" for a
    by (rule Suc.IH [OF that]) (simp add: ok)
  show ?case
    using Suc.prems(1) r ok ih
    by (subst (asm) vc_rounds.simps) (auto simp: Let_def split: if_splits option.splits prod.splits)
qed

lemma vc_control_ok:
  assumes "clnt_vc_control rq info ct = Ret (ok, info', ct')" and "vc_handle_ok ct"
  shows "vc_handle_ok ct'"
proof -
  have put: "vc_handle_ok ct'" if "ctl_reads i info_word (\<lambda>w. (True, ct\<lparr>ct_mcallc := put_word k (g w) (ct_mcallc ct)\<rparr>)) = Ret (ok, info', ct')"
    "k = 0 \<or> k = 3 \<or> k = 4" for i k g
    using that vc_handle_ok_put [OF assms(2)] by (auto simp: ctl_reads_def split: option.splits)
  have time: "vc_handle_ok ct'" if "ctl_reads i info_time (\<lambda>t.
        if time_not_ok t then (False, ct) else (True, ct\<lparr>ct_wait := t, ct_waitset := True\<rparr>)) = Ret (ok, info', ct')" for i
    using that assms(2) vc_handle_ok_time by (auto simp: ctl_reads_def split: option.splits if_splits)
  have same: "vc_handle_ok (ct\<lparr>ct_closeit := b\<rparr>)" for b
    using vc_handle_ok_same [OF assms(2)] by simp
  show ?thesis
    using assms put time same unfolding clnt_vc_control_def Let_def
    by (auto split: option.splits if_splits)
qed

text \<open>
  C3: Whatever a program does with a handle over a connection, and whatever the connection, the filters and the
  authenticator do, the handle keeps its form: creation, calls that return in any way, control
  requests that are accepted or refused, and freeing results leave the header of a call of version 2 of 20
  bytes in it, and a time that was set is one a call may wait for.
\<close>

theorem vc_handle_stays_ok:
  "(length mcall0 = 24 \<longrightarrow> clnt_vc_create y addr junk err0 wait0 mcall0 fd raddr prog vers sendsz recvsz h locks heap = Ret (Some cl0, e, l, k) \<longrightarrow>
      vc_handle_ok (cl_ct cl0)) \<and>
   (vc_handle_ok (cl_ct cl) \<longrightarrow>
      (clnt_vc_call env timeout proc xargs args xres res cl = Ret (st, res', cl1) \<longrightarrow> vc_handle_ok (cl_ct cl1)) \<and>
      (clnt_vc_control rq info (cl_ct cl) = Ret (ok, info', ct2) \<longrightarrow> vc_handle_ok ct2) \<and>
      (clnt_vc_freeres xfree fr cl = Ret (ok3, fr', cl3) \<longrightarrow> vc_handle_ok (cl_ct cl3)))"
proof (intro conjI impI)
  assume len: "length mcall0 = 24"
    and c: "clnt_vc_create y addr junk err0 wait0 mcall0 fd raddr prog vers sendsz recvsz h locks heap = Ret (Some cl0, e, l, k)"
  let ?m = "junk\<lparr>rm_xid := vs_xid y, rm_direction := CALL,
    rm_call := (rm_call junk)\<lparr>cb_rpcvers := RPC_MSG_VERSION, cb_prog := prog, cb_vers := vers\<rparr>\<rparr>"
  obtain x m' where x: "xdr_callhdr ?m (xdrmem_create addr mcall0 24 XDR_ENCODE 0) = (True, m', x)"
    "xm_buf (x_private x) = call_header (vs_xid y) prog vers @ drop 20 mcall0" "XDR_GETPOS x = 20"
    by (rule callhdr_created [OF len, of ?m addr 0]) simp
  then have "ct_mpos (cl_ct cl0) = 20" "ct_mcallc (cl_ct cl0) = call_header (vs_xid y) prog vers @ drop 20 mcall0" "\<not> ct_waitset (cl_ct cl0)"
    using c by (auto simp: clnt_vc_create_def Let_def split: if_splits option.splits)
  moreover have "length (drop 20 mcall0) = 4" using len by simp
  ultimately show "vc_handle_ok (cl_ct cl0)" unfolding vc_handle_ok_def by blast
next
  assume ok: "vc_handle_ok (cl_ct cl)" and c: "clnt_vc_call env timeout proc xargs args xres res cl = Ret (st, res', cl1)"
  then show "vc_handle_ok (cl_ct cl1)"
    using vc_handle_ok_same [OF ok] unfolding clnt_vc_call_def Let_def
    by (elim vc_rounds_ok) (auto simp: vc_handle_ok_def)
next
  assume "vc_handle_ok (cl_ct cl)" and "clnt_vc_control rq info (cl_ct cl) = Ret (ok, info', ct2)"
  then show "vc_handle_ok ct2" by (blast intro: vc_control_ok)
next
  assume ok: "vc_handle_ok (cl_ct cl)" and "clnt_vc_freeres xfree fr cl = Ret (ok3, fr', cl3)"
  then show "vc_handle_ok (cl_ct cl3)"
    using vc_handle_ok_same [OF ok] by (auto simp: clnt_vc_freeres_def split: option.splits prod.splits)
qed

section \<open>Examples\<close>

text \<open>A connection that brings a reply to an earlier call, then, in two chunks, the reply to the first one of the handle.\<close>

definition demo_rep :: "u32 \<Rightarrow> (rec_strm, unit) rpc_msg" where
  "demo_rep xid = \<lparr>rm_xid = xid, rm_direction = REPLY,
     rm_call = \<lparr>cb_rpcvers = 0, cb_prog = 0, cb_vers = 0, cb_proc = 0, cb_cred = null_auth, cb_verf = null_auth\<rparr>,
     rm_reply = \<lparr>rp_stat = MSG_ACCEPTED, rp_acpt = \<lparr>ar_verf = null_auth, ar_stat = SUCCESS, ar_vers_low = 0, ar_vers_high = 0,
         ar_results_where = (), ar_results_proc = xdr_void\<rparr>,
       rp_rjct = \<lparr>rj_stat = 0, rj_vers_low = 0, rj_vers_high = 0, rj_why = 0\<rparr>\<rparr>\<rparr>"

definition demo_events :: "ct_event list" where
  "demo_events = [Ct_data (enc_frags [enc_replymsg [] (demo_rep 9)]), Ct_intr,
     Ct_data (enc_frags [enc_replymsg [] (demo_rep (xid_step (- 1) 7)) @ be32 42]), Ct_eof]"

definition demo_err :: rpc_err where
  "demo_err = \<lparr>re_status = RPC_FAILED, re_errno = 0, re_vers_low = 0, re_vers_high = 0, re_why = 0, re_s1 = 0, re_s2 = 0\<rparr>"

definition demo_sys :: "ct_event list \<Rightarrow> vc_sys" where
  "demo_sys es = \<lparr>vs_peer = Peer_connected, vs_connect = None, vs_proto = Some 6, vs_xid = 7, vs_net = ct_chunks es, vs_writes = 2000,
     vs_pos = 0, vs_fail = ct_failure es, vs_werr = 0, vs_auth = Some (Auth_none (the (authnone_create 0 True None))), vs_enomem = 12\<rparr>"

definition demo_created :: "ct_event list \<Rightarrow> (vc_client option \<times> (clnt_stat \<times> int) option \<times> bool \<times> nat) run" where
  "demo_created es = clnt_vc_create (demo_sys es) 0 (sample_reply 0) demo_err \<lparr>tv_sec = 0, tv_usec = 0\<rparr> (zeros 24) 5
     \<lparr>nb_maxlen = 16, nb_len = 16, nb_buf = Some (zeros 16)\<rparr> 100 1 0 0 0 True 9"

definition demo_call_env :: vc_call_env where
  "demo_call_env = \<lparr>ce_auth = \<lparr>ae_verf = 0, ae_marsh = 0, ae_orig = 0, ae_now = 0\<rparr>, ce_junk = demo_rep 0, ce_fuel = 5\<rparr>"

lemma demo_rep_ok:
  "replymsg_ok (demo_rep xid)" "length (enc_replymsg [] (demo_rep xid)) = 24" "verf_blocks (demo_rep xid) = 0" "has_results (demo_rep xid)"
  by (simp_all add: demo_rep_def replymsg_ok_def auth_ok_def auth_bytes_def null_auth_def enc_replymsg_def enc_accepted_reply_def
      enc_auth_def enc_counted_def enc_opaque_def xdr_pad_def verf_blocks_def auth_blocks_def counted_blocks_def has_results_def)

lemma demo_record:
  "length rst < 100 \<Longrightarrow> reply_record (demo_rep xid) rst [enc_replymsg [] (demo_rep xid) @ rst]"
  using demo_rep_ok [of xid] by (simp add: reply_record_def frags_ok_def)

lemma demo_client_idle:
  obtains a cl where "demo_created es = Ret (Some cl, None, True, 3)" and "auth_sends a null_auth null_auth"
    and "vc_idle 7 100 1 a 0 1000 (concat (ct_chunks es)) cl" and "vc_sent cl = []" and "ct_fail (cl_ct cl) = ct_failure es"
proof -
  have "authnone_create 0 True None \<noteq> None" by (simp add: authnone_create_def split: prod.split)
  then obtain ap where ap: "authnone_create 0 True None = Some ap" by auto
  let ?m = "(sample_reply 0)\<lparr>rm_xid := 7, rm_direction := CALL,
    rm_call := (rm_call (sample_reply 0))\<lparr>cb_rpcvers := RPC_MSG_VERSION, cb_prog := 100, cb_vers := 1\<rparr>\<rparr>"
  have "length (zeros 24) = 24" by simp
  then obtain x m' where x: "xdr_callhdr ?m (xdrmem_create 0 (zeros 24) 24 XDR_ENCODE 0) = (True, m', x)"
    by (rule callhdr_created [of _ ?m 0 0]) simp
  obtain cl where cl: "demo_created es = Ret (Some cl, None, True, 3)" "ct_xdrs (cl_ct cl) \<noteq> None"
    using x by (simp add: demo_created_def clnt_vc_create_def demo_sys_def vc_connected_def xdrrec_create_def Let_def)
  have y: "vs_auth (demo_sys es) = Some (Auth_none ap)" "vs_proto (demo_sys es) = Some 6" by (simp_all add: demo_sys_def ap)
  have sz: "unat (rpc_get_t_size 6 0) < 2 ^ 30" by (simp add: rpc_get_t_size_def)
  note c = vc_created [OF cl(1) [unfolded demo_created_def] _ y(1) cl(2) y(2) sz sz]
  show thesis
    by (rule that [OF cl(1) auth_sends_none [OF ap]]) (use c in \<open>simp_all add: demo_sys_def\<close>)
qed

theorem vc_call_returns_witness:
  "\<exists>cl k cl' ps. demo_created demo_events = Ret (Some cl, None, True, k) \<and>
    clnt_vc_call demo_call_env \<lparr>tv_sec = 25, tv_usec = 0\<rparr> 3 xdr_u_int 41 (Some xdr_u_int) 0 cl = Ret (RPC_SUCCESS, 42, cl') \<and>
    vc_sent cl' = enc_frags ps"
proof -
  obtain a cl where cl: "demo_created demo_events = Ret (Some cl, None, True, 3)" "auth_sends a null_auth null_auth"
    "vc_idle 7 100 1 a 0 1000 (concat (ct_chunks demo_events)) cl" "vc_sent cl = []"
    by (rule demo_client_idle [of demo_events])
  let ?xid = "xid_step (- 1) (7 :: u32)"
  let ?ps = "[enc_replymsg [] (demo_rep 9)]" and ?qs = "[enc_replymsg [] (demo_rep ?xid) @ be32 42]"
  let ?W = "vc_request ?xid 100 1 3 a (be32 41)"
  have len: "length ?W \<le> 900" using auth_wire_length [OF cl(2)] by (simp add: vc_request_def)
  have idle: "vc_idle 7 100 1 a (0 + 0 + verf_blocks (demo_rep ?xid) + sum_list (map verf_blocks [demo_rep 9]))
      (length ?W + (1 + (999 - length ?W))) (recs_of [?ps] @ enc_frags ?qs @ []) cl"
    using cl(3) len by (simp add: demo_rep_ok demo_events_def)
  have "?xid \<noteq> 9" by (simp add: xid_step_def be32_def of_le32_def le32_def of_be32_def)
  then have stale: "list_all2 (stale ?xid) [demo_rep 9] [?ps]"
    using demo_record [of "[]" 9] by (auto simp: stale_def demo_rep_def)
  have rep: "reply_record (demo_rep ?xid) (be32 42 @ []) ?qs" using demo_record [of "be32 42" ?xid] by simp
  have "\<exists>cl' ps. clnt_vc_call demo_call_env \<lparr>tv_sec = 25, tv_usec = 0\<rparr> 3 xdr_u_int 41 (Some xdr_u_int) 0 cl = Ret (RPC_SUCCESS, 42, cl') \<and>
      vc_sent cl' = vc_sent cl @ enc_frags ps \<and> frags_ok ps \<and> concat ps = ?W \<and> vc_idle ?xid 100 1 a (0 + verf_blocks (demo_rep ?xid)) (999 - length ?W) [] cl'"
    by (rule vc_call_returns [OF idle cl(2) live_stream.encodes_ints(4) stale _ rep])
      (simp_all add: demo_call_env_def demo_rep_def null_auth_def has_results_def live_stream.decodes_ints)
  with cl(1,4) show ?thesis by auto
qed

theorem vc_call_gives_up_witness:
  "\<exists>cl k cl'. demo_created [Ct_data [128, 0], Ct_intr, Ct_timeout] = Ret (Some cl, None, True, k) \<and>
    clnt_vc_call demo_call_env \<lparr>tv_sec = 25, tv_usec = 0\<rparr> 3 xdr_u_int 41 (Some xdr_u_int) 0 cl = Ret (RPC_TIMEDOUT, 0, cl')"
proof -
  let ?es = "[Ct_data [128, 0], Ct_intr, Ct_timeout]"
  obtain a cl where cl: "demo_created ?es = Ret (Some cl, None, True, 3)" "auth_sends a null_auth null_auth"
    "vc_idle 7 100 1 a 0 1000 (concat (ct_chunks ?es)) cl" "ct_fail (cl_ct cl) = ct_failure ?es"
    by (rule demo_client_idle [of ?es])
  let ?W = "vc_request (xid_step (- 1) 7) 100 1 3 a (be32 41)"
  have len: "length ?W \<le> 900" using auth_wire_length [OF cl(2)] by (simp add: vc_request_def)
  have idle: "vc_idle 7 100 1 a (0 + sum_list (map verf_blocks ([] :: (rec_strm, unit) rpc_msg list)))
      (length ?W + (1 + (999 - length ?W))) (recs_of [] @ [128, 0]) cl"
    using cl(3) len by simp
  have "\<exists>st cl'. clnt_vc_call demo_call_env \<lparr>tv_sec = 25, tv_usec = 0\<rparr> 3 xdr_u_int 41 (Some xdr_u_int) 0 cl = Ret (st, 0, cl') \<and>
      st = fst (ct_failure ?es) \<and> (st = RPC_TIMEDOUT \<or> st = RPC_CANTRECV)"
    by (rule vc_call_gives_up [OF idle cl(2) live_stream.encodes_ints(4) _ _ _ cl(4)]) (simp_all add: demo_call_env_def)
  with cl(1) show ?thesis by auto
qed

theorem vc_handle_stays_ok_witness:
  "\<exists>cl k ct. demo_created demo_events = Ret (Some cl, None, True, k) \<and> vc_handle_ok (cl_ct cl) \<and>
    clnt_vc_control 13 (Some (Info_word 2)) (cl_ct cl) = Ret (True, Some (Info_word 2), ct) \<and> vc_handle_ok ct"
proof -
  obtain a cl where cl: "demo_created demo_events = Ret (Some cl, None, True, 3)"
    by (rule demo_client_idle [of demo_events])
  have ok: "vc_handle_ok (cl_ct cl)"
    using conjunct1 [OF vc_handle_stays_ok, rule_format, OF _ cl [unfolded demo_created_def]] by simp
  obtain ct where ct: "clnt_vc_control 13 (Some (Info_word 2)) (cl_ct cl) = Ret (True, Some (Info_word 2), ct)"
    by (simp add: clnt_vc_control_def ctl_reads_def info_word_def)
  note stays = mp [OF conjunct2 [OF vc_handle_stays_ok] ok]
  have "vc_handle_ok ct" by (rule mp [OF conjunct1 [OF conjunct2 [OF stays]] ct])
  with cl ok ct show ?thesis by blast
qed

section \<open>Two places where a caller is misled\<close>

text \<open>
  \<open>CLSET_XID\<close> stores one more than it was given, for the call that counts down by one; but it adds to the
  number in the order of the network and the call subtracts in the order of the host.
\<close>

lemma set_xid_not_next:
  assumes "ct_mcallc ct = call_header xid prog vers @ rest"
  shows "\<exists>ct'. clnt_vc_control 11 (Some (Info_word 7)) ct = Ret (True, Some (Info_word 7), ct') \<and>
    get_word 0 (bump_xid (- 1) (ct_mcallc ct')) = 0xFFFFFF07"
  using assms
  by (simp add: clnt_vc_control_def ctl_reads_def info_word_def put_word_header bump_call_header get_word_header)
    (simp add: xid_step_def be32_def of_le32_def le32_def of_be32_def)

text \<open>
  Two fragment headers of zero where a reply should be: the first makes the reply undecodable, the second
  makes \<open>xdrrec_skiprecord\<close> fail. No read has failed, so that nothing is noted in the handle, and the call
  returns \<open>RPC_SUCCESS\<close> without having decoded any results.
\<close>

lemma zero_fragment:
  assumes "at_record s [] [] (be32 0 @ tail)"
  obtains s' where "set_input_fragment (s\<lparr>last_frag := False\<rparr>) = (False, s')" and "at_record (s'\<lparr>last_frag := True\<rparr>) [] [] tail"
    and "\<not> last_frag s'" and "net_died s' = net_died s"
proof -
  let ?s = "s\<lparr>last_frag := False\<rparr>"
  have ok: "in_ok ?s" "pending ?s = be32 0 @ tail" "fbtbc ?s = 0"
    using assms(1) by (simp_all add: at_record_def in_ok_def pending_def)
  obtain s1 where s1: "get_input_bytes 4 ?s = (Some (be32 0), s1)" "in_ok s1" "pending s1 = tail" "same_frag ?s s1"
    using get_input_bytes_spec [OF ok(1), of 4] ok(2) by auto
  show thesis
    by (rule that [of "s1\<lparr>last_frag := False\<rparr>"])
      (use s1 ok get_input_died [OF s1(1)] in \<open>simp_all add: set_input_fragment_def in_ok_def at_record_def pending_def same_frag_def frags_ok_def Let_def\<close>)
qed

lemma zero_headers_end_wait:
  assumes "at_record s c ps (be32 0 @ be32 0 @ tail)" and "\<not> net_died s"
  obtains m s' where "vc_await (Suc (Suc fuel)) xid z (mkXDR XDR_DECODE xdrrec_ops s h) = Ret (False, m, mkXDR XDR_DECODE xdrrec_ops s' h)"
    and "\<not> net_died s'"
proof -
  obtain s1 where s1: "xdrrec_skiprecord s = (True, s1\<lparr>last_frag := False\<rparr>)" "at_record s1 [] [] (be32 0 @ be32 0 @ tail)" "\<not> net_died s1"
    by (rule skiprecord_ends [OF assms])
  obtain s2 where s2: "set_input_fragment (s1\<lparr>last_frag := False\<rparr>) = (False, s2)" "at_record (s2\<lparr>last_frag := True\<rparr>) [] [] (be32 0 @ tail)"
    "\<not> last_frag s2" "\<not> net_died s2"
    by (rule zero_fragment [OF s1(2)]) (use s1(3) in auto)
  have b: "fbtbc (s1\<lparr>last_frag := False\<rparr>) = 0" "fbtbc s2 = 0" "\<not> nonblock s2" using s1(2) s2(2) by (simp_all add: at_record_def in_ok_def)
  have "getbytes_loop (Suc (4 + in_avail (s1\<lparr>last_frag := False\<rparr>))) 4 (s1\<lparr>last_frag := False\<rparr>) = (None, s2)"
    unfolding getbytes_loop.simps(2) using b(1) s2(1) by simp
  then have "xdrrec_getlong (s1\<lparr>last_frag := False\<rparr>) = (None, s2)"
    using b(1) by (simp add: xdrrec_getlong_def xdrrec_getbytes_def del: getbytes_loop.simps)
  then obtain m1 where m1: "xdr_replymsg (await_msg z) (mkXDR XDR_DECODE xdrrec_ops (s1\<lparr>last_frag := False\<rparr>) h) = (False, m1, mkXDR XDR_DECODE xdrrec_ops s2 h)"
    by (simp add: xdr_replymsg_def xdr_field_def xdr_u_int32_t_def XDR_GETLONG_def)
  have again: "s2\<lparr>last_frag := True, last_frag := False\<rparr> = s2" using s2(3) by simp
  obtain s3 where s3: "set_input_fragment s2 = (False, s3)" "\<not> net_died s3"
    by (rule zero_fragment [OF s2(2)]) (use s2(3,4) again in auto)
  have "skip_input_bytes 0 s2 = (True, s2)" by (simp add: skip_input_bytes_def)
  moreover have "s2\<lparr>fbtbc := 0\<rparr> = s2" using b(2) by simp
  then have "set_input_fragment (s2\<lparr>fbtbc := 0\<rparr>) = (False, s3)" using s3(1) by (simp only:)
  ultimately have "skiprecord_loop (Suc n) s2 = (False, s3)" for n using s2(3) s3(1) b(2) by simp
  then have "xdrrec_skiprecord s2 = (False, s3)" using b(3) by (simp add: xdrrec_skiprecord_def del: skiprecord_loop.simps)
  then show thesis using s1(1) m1 s2(4) s3(2) by (intro that [of "await_msg m1" s3]) simp_all
qed

lemma zero_headers_succeed:
  fixes res :: 'r
  assumes "vc_idle xid prog vers a h (length (vc_request (xid_step (- 1) xid) prog vers proc a ab) + (1 + n)) (be32 0 @ be32 0 @ tail) cl"
    and "auth_sends a cred verf" and "live_stream.encodes xargs args args' ab" and "1 < ce_fuel env"
    and "tv_sec timeout \<noteq> 0 \<or> tv_usec timeout \<noteq> 0"
  shows "\<exists>cl'. clnt_vc_call env timeout proc xargs args xres res cl = Ret (RPC_SUCCESS, res, cl')"
proof -
  let ?xid = "xid_step (- 1) xid"
  obtain x0 ct0 ct s rest c ps0 ps where b:
    "\<forall>env xres (res :: 'r). clnt_vc_call env timeout proc xargs args xres res cl = vc_rounds 2 env timeout proc xargs args xres res (cl\<lparr>cl_ct := ct0\<rparr>)"
    "cl_auth cl = Some a" "ct_xdrs ct0 = Some x0"
    "vc_send True proc xargs args (Some a) x0 ct0 = Ret (True, mkXDR XDR_ENCODE xdrrec_ops s h, ct)"
    "ct_mcallc ct = call_header ?xid prog vers @ rest" "ct_mpos ct = 20" "get_word 0 (ct_mcallc ct) = ?xid"
    "re_status (ct_error ct) = RPC_SUCCESS" "ct_fail ct = ct_fail (cl_ct cl)" "at_record s c ps0 (be32 0 @ be32 0 @ tail)" "\<not> net_died s" "rec_fits s n"
    "out_cur s = []" "frags_ok ps" "concat ps = vc_request ?xid prog vers proc a ab" "out_done s = vc_sent cl @ enc_frags ps"
    by (rule vc_call_begins [OF assms(1-3), of timeout])
  obtain k where k: "ce_fuel env = Suc (Suc k)" using assms(4) by (cases "ce_fuel env"; cases "ce_fuel env - 1") auto
  obtain m s2 where s2: "vc_await (Suc (Suc k)) ?xid (ce_junk env) (mkXDR XDR_DECODE xdrrec_ops s h) =
      Ret (False, m, mkXDR XDR_DECODE xdrrec_ops s2 h)" "\<not> net_died s2"
    by (rule zero_headers_end_wait [OF b(10,11)])
  have "vc_round env timeout proc xargs args xres res (cl\<lparr>cl_ct := ct0\<rparr>) =
      Ret (False, res, (cl\<lparr>cl_ct := ct0\<rparr>)\<lparr>cl_ct := ct\<lparr>ct_error := note_read (x_private (mkXDR XDR_DECODE xdrrec_ops s2 h)) (ct_fail ct) (ct_error ct),
        ct_xdrs := Some (mkXDR XDR_DECODE xdrrec_ops s2 h)\<rparr>\<rparr>)"
    by (rule vc_round_failed [OF _ assms(5), where x = x0 and ?x1.0 = "mkXDR XDR_ENCODE xdrrec_ops s h"])
      (use b(2-4,7) s2(1) in \<open>simp_all add: k del: vc_await.simps\<close>)
  from vc_rounds_stop [OF this, of 2] b(1,8) s2(2) show ?thesis by (simp add: note_read_def)
qed

end
