(* ===== verification/Rec_Loops.thy ===== *)
theory Rec_Loops
  imports Svc
begin

text \<open>
  The loops of \<open>libsrc/xdr_rec.c\<close> end, whatever the connection brings. \<open>Xdr_Rec\<close> runs them with a number of
  rounds that is computed beforehand; here the same loops say when that number was too small, and they never
  say so.
\<close>

section \<open>The loops, with running out of rounds as a result\<close>

fun get_input_run :: "nat \<Rightarrow> nat \<Rightarrow> rec_strm \<Rightarrow> (byte list option \<times> rec_strm) run" where
  "get_input_run 0 len s = Out_of_fuel"
| "get_input_run (Suc fuel) len s =
     (if len = 0 then Ret (Some [], s)
      else let current = in_boundry s - in_finger s in
      if current = 0
      then (case fill_input_buf s of (ok, s) \<Rightarrow>
              if \<not> ok then Ret (None, s) else get_input_run fuel len s)
      else let current = min len current; bs = load (in_finger s) current (in_buf s) in
        run_bind (get_input_run fuel (len - current) (s\<lparr>in_finger := in_finger s + current\<rparr>))
          (\<lambda>(r, s). Ret (map_option (\<lambda>more. bs @ more) r, s)))"

fun skip_input_run :: "nat \<Rightarrow> nat \<Rightarrow> rec_strm \<Rightarrow> (bool \<times> rec_strm) run" where
  "skip_input_run 0 cnt s = Out_of_fuel"
| "skip_input_run (Suc fuel) cnt s =
     (if cnt = 0 then Ret (True, s)
      else let current = in_boundry s - in_finger s in
      if current = 0
      then (case fill_input_buf s of (ok, s) \<Rightarrow>
              if \<not> ok then Ret (False, s) else skip_input_run fuel cnt s)
      else let current = min cnt current in
        skip_input_run fuel (cnt - current) (s\<lparr>in_finger := in_finger s + current\<rparr>))"

fun getbytes_run :: "nat \<Rightarrow> nat \<Rightarrow> rec_strm \<Rightarrow> (byte list option \<times> rec_strm) run" where
  "getbytes_run 0 len s = Out_of_fuel"
| "getbytes_run (Suc fuel) len s =
     (if len = 0 then Ret (Some [], s)
      else let current = fbtbc s in
      if current = 0
      then (if last_frag s then Ret (None, s)
            else case set_input_fragment s of (ok, s) \<Rightarrow>
              if \<not> ok then Ret (None, s) else getbytes_run fuel len s)
      else let current = min len current in
        (case get_input_bytes current s of
           (None, s) \<Rightarrow> Ret (None, s)
         | (Some bs, s) \<Rightarrow>
             run_bind (getbytes_run fuel (len - current) (s\<lparr>fbtbc := fbtbc s - current\<rparr>))
               (\<lambda>(r, s). Ret (map_option (\<lambda>more. bs @ more) r, s))))"

fun skiprecord_run :: "nat \<Rightarrow> rec_strm \<Rightarrow> (bool \<times> rec_strm) run" where
  "skiprecord_run 0 s = Out_of_fuel"
| "skiprecord_run (Suc fuel) s =
     (if fbtbc s > 0 \<or> \<not> last_frag s
      then (case skip_input_bytes (fbtbc s) s of (ok, s) \<Rightarrow>
              if \<not> ok then Ret (False, s)
              else let s = s\<lparr>fbtbc := 0\<rparr> in
              if \<not> last_frag s
              then (case set_input_fragment s of (ok, s) \<Rightarrow>
                      if \<not> ok then Ret (False, s) else skiprecord_run fuel s)
              else skiprecord_run fuel s)
      else Ret (True, s))"

fun putbytes_run :: "nat \<Rightarrow> byte list \<Rightarrow> rec_strm \<Rightarrow> (bool \<times> rec_strm) run" where
  "putbytes_run 0 bs s = Out_of_fuel"
| "putbytes_run (Suc fuel) bs s =
     (if bs = [] then Ret (True, s)
      else let current = min (length bs) (out_boundry s - out_finger s);
               s = s\<lparr>out_buf := store (out_finger s) (take current bs) (out_buf s),
                     out_finger := out_finger s + current\<rparr>
      in if out_finger s = out_boundry s
         then (case flush_out False (s\<lparr>frag_sent := True\<rparr>) of (ok, s) \<Rightarrow>
                 if \<not> ok then Ret (False, s) else putbytes_run fuel (drop current bs) s)
         else putbytes_run fuel (drop current bs) s)"

section \<open>Reading consumes\<close>

lemma fill_progress:
  assumes "fill_input_buf s = (True, s')" and "in_ok s" and "in_finger s = in_boundry s"
  shows "in_ok s'" "net_size s' < net_size s" "in_avail s' \<le> in_avail s" "fbtbc s' = fbtbc s" "last_frag s' = last_frag s"
proof -
  have ne: "net_in s \<noteq> []" using fill_input_buf_spec(1) [OF assms(2,3)] assms(1) by auto
  from fill_input_buf_spec(2) [OF assms(2,3) ne] assms(1)
  show "in_ok s'" "net_size s' < net_size s" "fbtbc s' = fbtbc s" "last_frag s' = last_frag s"
    by (auto simp: same_frag_def)
  obtain bs net where r: "readit (in_size s - in_boundry s mod 4) (net_in s) = (Some bs, net)"
    and s': "s' = s\<lparr>net_in := net, in_buf := store (in_boundry s mod 4) bs (in_buf s), in_finger := in_boundry s mod 4,
      in_boundry := in_boundry s mod 4 + length bs\<rparr>"
    using assms(1) by (auto simp: fill_input_buf_def Let_def split: if_splits prod.splits option.splits)
  have "length bs + sum_list (map (\<lambda>c. Suc (length c)) net) \<le> sum_list (map (\<lambda>c. Suc (length c)) (net_in s))"
    using r by (cases "net_in s") (auto split: if_splits)
  with assms(3) show "in_avail s' \<le> in_avail s"
    by (simp add: s' in_avail_def net_size_def)
qed

lemma in_avail_finger:
  "n \<le> in_boundry s - in_finger s \<Longrightarrow> in_avail (s\<lparr>in_finger := in_finger s + n\<rparr>) + n = in_avail s"
  by (simp add: in_avail_def)

lemma get_input_progress:
  assumes "get_input_loop fuel len s = (Some bs, s')" and "in_ok s"
  shows "in_ok s' \<and> in_avail s' + len \<le> in_avail s \<and> fbtbc s' = fbtbc s \<and> last_frag s' = last_frag s"
  using assms
proof (induction fuel arbitrary: len s bs)
  case (Suc fuel)
  consider "len = 0" | "0 < len" "in_finger s = in_boundry s" | "0 < len" "in_finger s < in_boundry s"
    using Suc.prems(2) by (cases "len = 0"; cases "in_finger s = in_boundry s") (auto simp: in_ok_def)
  then show ?case
  proof cases
    case 1
    with Suc.prems show ?thesis by simp
  next
    case 2
    then obtain s1 where s1: "fill_input_buf s = (True, s1)" "get_input_loop fuel len s1 = (Some bs, s')"
      using Suc.prems(1) by (auto split: prod.splits if_splits)
    note f = fill_progress [OF s1(1) Suc.prems(2) 2(2)]
    from Suc.IH [OF s1(2) f(1)] f show ?thesis by auto
  next
    case 3
    let ?c = "min len (in_boundry s - in_finger s)" and ?s = "s\<lparr>in_finger := in_finger s + min len (in_boundry s - in_finger s)\<rparr>"
    obtain b1 where b1: "get_input_loop fuel (len - ?c) ?s = (Some b1, s')"
      using 3 Suc.prems(1) by (auto simp: Let_def split: prod.splits)
    have c: "?c \<le> in_boundry s - in_finger s" "?c \<le> len" by simp_all
    have "in_ok ?s" by (rule advance_in(1) [OF Suc.prems(2) c(1)])
    from Suc.IH [OF b1 this] in_avail_finger [OF c(1)] c(2) show ?thesis by auto
  qed
qed simp

lemma get_bytes_progress:
  assumes "get_input_bytes len s = (Some bs, s')" and "in_ok s"
  shows "in_ok s' \<and> in_avail s' + len \<le> in_avail s \<and> fbtbc s' = fbtbc s \<and> last_frag s' = last_frag s"
  by (rule get_input_progress [where fuel = "Suc (len + net_size s)"])
    (use assms in \<open>simp_all add: get_input_bytes_def in_ok_def del: get_input_loop.simps\<close>)

lemma skip_bytes_progress:
  assumes "skip_input_bytes len s = (True, s')" and "in_ok s"
  shows "in_ok s' \<and> in_avail s' + len \<le> in_avail s \<and> fbtbc s' = fbtbc s \<and> last_frag s' = last_frag s"
proof -
  obtain bs where "get_input_loop (Suc (len + net_size s)) len s = (Some bs, s')"
    using assms(1) by (auto simp: skip_input_bytes_def skip_input_loop_get simp del: get_input_loop.simps split: prod.splits)
  then show ?thesis by (rule get_input_progress [OF _ assms(2)])
qed

lemma fragment_progress:
  assumes "set_input_fragment s = (True, s')" and "in_ok s"
  shows "in_ok s' \<and> in_avail s' + 4 \<le> in_avail s"
proof -
  obtain bs s1 where s1: "get_input_bytes 4 s = (Some bs, s1)"
    "s' = s1\<lparr>last_frag := (of_be32 bs AND LAST_FRAG \<noteq> 0), fbtbc := unat (of_be32 bs AND NOT LAST_FRAG)\<rparr>"
    using assms(1) by (auto simp: set_input_fragment_def Let_def split: if_splits prod.splits option.splits)
  from get_bytes_progress [OF s1(1) assms(2)] show ?thesis
    by (auto simp: s1(2) in_ok_def in_avail_def net_size_def)
qed

section \<open>The loops end\<close>

lemma get_input_run_ends:
  assumes "in_ok s" and "len + net_size s < fuel"
  shows "get_input_run fuel len s = Ret (get_input_loop fuel len s)"
  using assms
proof (induction fuel arbitrary: len s)
  case (Suc fuel)
  consider "len = 0" | "0 < len" "in_finger s = in_boundry s" | "0 < len" "in_finger s < in_boundry s"
    using Suc.prems(1) by (cases "len = 0"; cases "in_finger s = in_boundry s") (auto simp: in_ok_def)
  then show ?case
  proof cases
    case 2
    obtain ok s1 where s1: "fill_input_buf s = (ok, s1)" by (metis surj_pair)
    show ?thesis
    proof (cases ok)
      case True
      have t: "fill_input_buf s = (True, s1)" using s1 True by simp
      note f = fill_progress [OF t Suc.prems(1) 2(2)]
      have "get_input_run fuel len s1 = Ret (get_input_loop fuel len s1)"
        by (rule Suc.IH [OF f(1)]) (use f(2) Suc.prems(2) in linarith)
      with 2 s1 True show ?thesis by simp
    qed (use 2 s1 in simp)
  next
    case 3
    let ?c = "min len (in_boundry s - in_finger s)" and ?s = "s\<lparr>in_finger := in_finger s + min len (in_boundry s - in_finger s)\<rparr>"
    have c: "?c \<le> in_boundry s - in_finger s" "0 < ?c" using 3 by simp_all
    have ok: "in_ok ?s" by (rule advance_in(1) [OF Suc.prems(1) c(1)])
    have "len - ?c < len" using 3(1) c(2) by simp
    then have "len - ?c + net_size ?s < fuel" unfolding net_size_finger using Suc.prems(2) by linarith
    from Suc.IH [OF ok this] 3 show ?thesis by (simp add: Let_def split: prod.split)
  qed simp
qed simp

lemma skip_input_run_get:
  "skip_input_run fuel cnt s = run_bind (get_input_run fuel cnt s) (\<lambda>(r, s). Ret (r \<noteq> None, s))"
proof (induction fuel arbitrary: cnt s)
  case (Suc fuel)
  have b: "run_bind (run_bind m (\<lambda>(r, s). Ret (map_option f r, s))) (\<lambda>(r, s). Ret (r \<noteq> None, s)) =
      run_bind m (\<lambda>(r, s). Ret (r \<noteq> None, s))" for m :: "(byte list option \<times> rec_strm) run" and f :: "byte list \<Rightarrow> byte list"
    by (cases m) auto
  show ?case by (simp add: Let_def Suc.IH b del: not_None_eq split: prod.split)
qed simp

lemma getbytes_run_ends:
  assumes "in_ok s" and "len + in_avail s < fuel"
  shows "getbytes_run fuel len s = Ret (getbytes_loop fuel len s)"
  using assms
proof (induction fuel arbitrary: len s)
  case (Suc fuel)
  consider "len = 0 \<or> fbtbc s = 0 \<and> last_frag s" | "0 < len" "fbtbc s = 0" "\<not> last_frag s" | "0 < len" "0 < fbtbc s" by auto
  then show ?case
  proof cases
    case 2
    obtain ok s1 where s1: "set_input_fragment s = (ok, s1)" by (metis surj_pair)
    show ?thesis
    proof (cases ok)
      case True
      have t: "set_input_fragment s = (True, s1)" using s1 True by simp
      note f = fragment_progress [OF t Suc.prems(1)]
      have "getbytes_run fuel len s1 = Ret (getbytes_loop fuel len s1)"
        by (rule Suc.IH) (use f Suc.prems(2) in auto)
      with 2 s1 True show ?thesis by simp
    qed (use 2 s1 in simp)
  next
    case 3
    let ?c = "min len (fbtbc s)"
    obtain r s1 where s1: "get_input_bytes ?c s = (r, s1)" by (metis surj_pair)
    show ?thesis
    proof (cases r)
      case (Some bs)
      note f = get_bytes_progress [OF s1 [unfolded Some] Suc.prems(1)]
      have "in_ok (s1\<lparr>fbtbc := fbtbc s1 - ?c\<rparr>)" "in_avail (s1\<lparr>fbtbc := fbtbc s1 - ?c\<rparr>) = in_avail s1"
        using f by (simp_all add: in_ok_def in_avail_def net_size_def)
      then have "getbytes_run fuel (len - ?c) (s1\<lparr>fbtbc := fbtbc s1 - ?c\<rparr>) = Ret (getbytes_loop fuel (len - ?c) (s1\<lparr>fbtbc := fbtbc s1 - ?c\<rparr>))"
        by (intro Suc.IH) (use f Suc.prems(2) 3 in auto)
      with 3 s1 Some show ?thesis by (simp add: Let_def split: prod.split)
    qed (use 3 s1 in \<open>simp add: Let_def\<close>)
  qed auto
qed simp

lemma skiprecord_run_ends:
  assumes "in_ok s" and "Suc (in_avail s) < fuel"
  shows "skiprecord_run fuel s = Ret (skiprecord_loop fuel s)"
  using assms
proof (induction fuel arbitrary: s)
  case (Suc fuel)
  show ?case
  proof (cases "0 < fbtbc s \<or> \<not> last_frag s")
    case True
    obtain ok s1 where s1: "skip_input_bytes (fbtbc s) s = (ok, s1)" by (metis surj_pair)
    show ?thesis
    proof (cases ok)
      case ok: True
      have t: "skip_input_bytes (fbtbc s) s = (True, s1)" using s1 ok by simp
      note f = skip_bytes_progress [OF t Suc.prems(1)]
      let ?s = "s1\<lparr>fbtbc := 0\<rparr>"
      have "in_ok ?s = in_ok s1" "in_avail ?s = in_avail s1" by (simp_all add: in_ok_def in_avail_def net_size_def)
      with f have s: "in_ok ?s" "in_avail ?s \<le> in_avail s" by simp_all
      show ?thesis
      proof (cases "last_frag s1")
        case last: True
        obtain k where "fuel = Suc k" using Suc.prems(2) by (cases fuel) auto
        with True s1 ok last show ?thesis by simp
      next
        case False
        obtain ok2 s2 where s2: "set_input_fragment ?s = (ok2, s2)" by (metis surj_pair)
        have "skiprecord_run fuel s2 = Ret (skiprecord_loop fuel s2)" if ok2
          by (rule Suc.IH) (use fragment_progress [of ?s s2] s2 s Suc.prems(2) that in auto)
        with True s1 ok False s2 show ?thesis by auto
      qed
    qed (use True s1 in simp)
  qed simp
qed simp

lemma flush_out_counts: "flush_out eor s = (True, s') \<Longrightarrow> net_writes s' < net_writes s \<and> out_finger s' = 4 \<and> out_boundry s' = out_boundry s"
  by (auto simp: flush_out_def Let_def split: if_splits)

lemma putbytes_run_ends:
  assumes "out_finger s \<le> out_boundry s" and "4 \<le> out_boundry s" and "length bs + net_writes s < fuel"
  shows "putbytes_run fuel bs s = Ret (putbytes_loop fuel bs s)"
  using assms
proof (induction fuel arbitrary: bs s)
  case (Suc fuel)
  show ?case
  proof (cases "bs = []")
    case False
    let ?c = "min (length bs) (out_boundry s - out_finger s)"
    let ?s = "s\<lparr>out_buf := store (out_finger s) (take ?c bs) (out_buf s), out_finger := out_finger s + ?c\<rparr>"
    show ?thesis
    proof (cases "out_finger ?s = out_boundry ?s")
      case True
      obtain ok s1 where s1: "flush_out False (?s\<lparr>frag_sent := True\<rparr>) = (ok, s1)" by (metis surj_pair)
      have "putbytes_run fuel (drop ?c bs) s1 = Ret (putbytes_loop fuel (drop ?c bs) s1)" if ok
        by (rule Suc.IH) (use flush_out_counts [of False "?s\<lparr>frag_sent := True\<rparr>" s1] s1 Suc.prems that in auto)
      with False True s1 show ?thesis by (auto simp: Let_def)
    next
      case notfull: False
      have "0 < ?c" using False notfull Suc.prems(1) by auto
      then have "length (drop ?c bs) + net_writes ?s < fuel" using Suc.prems(3) False by (cases bs) auto
      moreover have "out_finger ?s \<le> out_boundry ?s" using Suc.prems(1) by auto
      ultimately have "putbytes_run fuel (drop ?c bs) ?s = Ret (putbytes_loop fuel (drop ?c bs) ?s)"
        using Suc.prems(2) by (intro Suc.IH) simp_all
      with False notfull show ?thesis by (simp add: Let_def)
    qed
  qed simp
qed simp

text \<open>
  C39: Every loop of a record stream ends on every input. Reading or skipping bytes of the buffer takes at most
  one round per byte and per answer of the connection, reading across fragments and skipping to the end
  of a record at most one per byte that is left to be read, writing one per byte and per write that is
  still possible: after so many rounds each loop has returned, and what it returns is what the operations of
  \<open>Xdr_Rec\<close> return. This holds for records cut off anywhere, fragments of any length, empty ones and garbage.
\<close>

theorem record_loops_end:
  assumes "in_ok s" and "out_ok s"
  shows "get_input_run (Suc (len + net_size s)) len s = Ret (get_input_bytes len s) \<and>
    skip_input_run (Suc (len + net_size s)) len s = Ret (skip_input_bytes len s) \<and>
    getbytes_run (Suc (unat w + in_avail s)) (unat w) s = Ret (xdrrec_getbytes w s) \<and>
    (\<exists>ok s'. skiprecord_run (Suc (Suc (in_avail s))) s = Ret (ok, s') \<and>
      xdrrec_skiprecord s = (ok, if ok then s'\<lparr>last_frag := False\<rparr> else s')) \<and>
    putbytes_run (Suc (length bs + net_writes s)) bs s = Ret (xdrrec_putbytes bs s)"
proof (intro conjI)
  have nb: "\<not> nonblock s" using assms(1) by (simp add: in_ok_def)
  note g = get_input_run_ends [OF assms(1), of len "Suc (len + net_size s)"]
  show "get_input_run (Suc (len + net_size s)) len s = Ret (get_input_bytes len s)"
    using g nb by (simp add: get_input_bytes_def del: get_input_loop.simps get_input_run.simps)
  show "skip_input_run (Suc (len + net_size s)) len s = Ret (skip_input_bytes len s)"
    using g by (simp add: skip_input_run_get skip_input_bytes_def skip_input_loop_get
        del: get_input_loop.simps get_input_run.simps skip_input_run.simps skip_input_loop.simps split: prod.split)
  show "getbytes_run (Suc (unat w + in_avail s)) (unat w) s = Ret (xdrrec_getbytes w s)"
    unfolding xdrrec_getbytes_def by (rule getbytes_run_ends [OF assms(1)]) simp
  obtain ok s' where k: "skiprecord_loop (Suc (Suc (in_avail s))) s = (ok, s')" by (metis surj_pair)
  have "skiprecord_run (Suc (Suc (in_avail s))) s = Ret (ok, s')"
    unfolding k [symmetric] by (rule skiprecord_run_ends [OF assms(1)]) simp
  moreover have "xdrrec_skiprecord s = (ok, if ok then s'\<lparr>last_frag := False\<rparr> else s')"
    using k nb by (simp add: xdrrec_skiprecord_def del: skiprecord_loop.simps)
  ultimately show "\<exists>ok s'. skiprecord_run (Suc (Suc (in_avail s))) s = Ret (ok, s') \<and>
      xdrrec_skiprecord s = (ok, if ok then s'\<lparr>last_frag := False\<rparr> else s')" by blast
  show "putbytes_run (Suc (length bs + net_writes s)) bs s = Ret (xdrrec_putbytes bs s)"
    unfolding xdrrec_putbytes_def by (rule putbytes_run_ends) (use assms(2) in \<open>auto simp: out_ok_def\<close>)
qed

text \<open>A stream on which half a header, an empty answer and then nothing arrives.\<close>

theorem record_loops_end_witness:
  "\<exists>s ok s'. xdrrec_create 100 100 [[128], [], [0, 0]] 3 0 3 = Some s \<and>
    skiprecord_run (Suc (Suc (in_avail s))) s = Ret (ok, s') \<and> getbytes_run (Suc (4 + in_avail s)) 4 s = Ret (xdrrec_getbytes 4 s)"
proof -
  obtain s where s: "xdrrec_create 100 100 [[128], [], [0, 0]] 3 0 3 = Some s"
    by (simp add: xdrrec_create_def Let_def)
  have "in_ok s" "out_ok s"
    using xdrrec_create_ok [OF s] by (simp_all add: at_record_def rec_fits_def)
  then have "get_input_run (Suc (0 + net_size s)) 0 s = Ret (get_input_bytes 0 s) \<and>
    skip_input_run (Suc (0 + net_size s)) 0 s = Ret (skip_input_bytes 0 s) \<and>
    getbytes_run (Suc (unat (4 :: u32) + in_avail s)) (unat (4 :: u32)) s = Ret (xdrrec_getbytes 4 s) \<and>
    (\<exists>ok s'. skiprecord_run (Suc (Suc (in_avail s))) s = Ret (ok, s') \<and>
      xdrrec_skiprecord s = (ok, if ok then s'\<lparr>last_frag := False\<rparr> else s')) \<and>
    putbytes_run (Suc (length ([] :: byte list) + net_writes s)) [] s = Ret (xdrrec_putbytes [] s)"
    by (rule record_loops_end)
  moreover have "unat (4 :: u32) = 4" by simp
  ultimately show ?thesis using s by metis
qed

end
