(* ===== verification/Spec2Isabelle.thy ===== *)
theory Spec2Isabelle
  imports Svc_Vc Rpcb_Reply Raw Clnt_Vc Rec_Loops
begin

text \<open>
  The program is a port of the ONC RPC library of NetBSD to Windows (\<open>libsrc/\<close>, headers in
  \<open>include/rpc/\<close>), with the port mapper \<open>rpcbind/\<close> built on it and the stub compiler \<open>rpcgen/\<close> that writes
  programs against it. This development models the library's data representation, messages, streams,
  credentials, servers and clients, and the port mapper, and proves what makes each of them correct.

  \<^bold>\<open>How the program works.\<close> A program's data are translated by filters (\<open>xdr_int\<close>, \<open>xdr_array\<close>, and those that
  \<open>rpcgen\<close> writes). One filter encodes, decodes and frees, by the operation in the handle \<open>XDR\<close> it is given,
  and reads or writes through the handle's vector of operations; a buffer in memory, a connection with
  record marking and a counter of bytes are the streams behind the vector. A client handle marshals a
  call header once, and for each call counts the transaction number, appends the procedure, the
  credential and the arguments, sends that and waits for the reply that has the same number. A server
  keeps a list of services and a table of transports by descriptor; what arrives on a descriptor is
  received by its transport, authenticated, looked up in the list and handed to the dispatch routine,
  which asks the transport for the arguments and sends the reply through it. The port mapper is such a
  server. Services register their address with it, clients look them up, or have it forward their call.

  \<^bold>\<open>Theories and sources\<close>, in the order of the program, each importing those it calls:

  \<^item> \<open>Prelude\<close>: C integers as words (an \<open>int\<close> and a \<open>long\<close> have 32 bits), blocks of memory as byte lists, the
    big-endian image of a word, the padding of XDR.
  \<^item> \<open>Xdr_Handle\<close>: \<open>include/rpc/xdr.h\<close>. The handle is the record \<open>XDR\<close>, with the stream's private state as a type
    parameter and the number of blocks that can still be allocated as a field; a filter is a function on a value and a handle.
    The interfaces of a stream are the locales \<open>xdr_sink\<close>, \<open>xdr_source\<close> and \<open>xdr_stream\<close>; in them \<open>encodes\<close>,
    \<open>decodes\<close> and \<open>frees\<close> say what a filter does.
  \<^item> \<open>Xdr_Prim\<close>: \<open>libsrc/xdr.c\<close>. \<open>Xdr_Compound\<close>: \<open>libsrc/xdr_array.c\<close>, \<open>libsrc/xdr_reference.c\<close> and the unwound
    recursion over linked lists of \<open>libsrc/rpcb_prot.c\<close>.
  \<^item> \<open>Xdr_Mem\<close>: \<open>libsrc/xdr_mem.c\<close>. \<open>Xdr_Sizeof\<close>: \<open>libsrc/xdr_sizeof.c\<close>. \<open>Xdr_Rec\<close>: \<open>libsrc/xdr_rec.c\<close>, with its proofs
    in \<open>Rec_Marking\<close> (the interpretation), \<open>Rec_Calls\<close> (messages as records, and the reader of whole records)
    and \<open>Rec_Loops\<close> (the loops end).
  \<^item> \<open>Rpc_Msg\<close>: \<open>include/rpc/rpc_msg.h\<close>, \<open>libsrc/rpc_prot.c\<close>, \<open>libsrc/rpc_callmsg.c\<close>.
  \<^item> \<open>Auth\<close>: \<open>libsrc/authunix_prot.c\<close>, \<open>libsrc/auth_unix.c\<close>, \<open>libsrc/auth_none.c\<close> for clients, \<open>libsrc/svc_auth.c\<close> and
    \<open>libsrc/svc_auth_unix.c\<close> for servers.
  \<^item> \<open>Svc_Fdset\<close>: \<open>libsrc/svc_fdset.c\<close>, the descriptors a server waits for. \<open>Svc\<close>: \<open>libsrc/svc.c\<close>, the services, the
    table of transports and the dispatcher; its locale \<open>transport\<close> is the contract of a kind of transport.
    \<open>Svc_Vc\<close>: \<open>libsrc/svc_vc.c\<close>. \<open>Svc_Dg\<close>: \<open>libsrc/svc_dg.c\<close> and \<open>svc_dg.h\<close>, with the cache of replies.
  \<^item> \<open>Clnt\<close>: what the client handles share. \<open>Clnt_Vc\<close>: \<open>libsrc/clnt_vc.c\<close>. \<open>Raw\<close>: \<open>libsrc/clnt_raw.c\<close> and
    \<open>libsrc/svc_raw.c\<close>, client and server in one process, with the service routine that \<open>write_program\<close> of
    \<open>rpcgen/rpc_svcout.c\<close> prints.
  \<^item> \<open>Rpcb_Prot\<close>: \<open>libsrc/rpcb_prot.c\<close>, \<open>pmap_prot.c\<close>, \<open>pmap_prot2.c\<close>, \<open>pmap_rmt.c\<close>, \<open>rpcb_st_xdr.c\<close>, the messages of the
    port mapper. \<open>Rpc_Uaddr\<close>: the universal addresses of \<open>libsrc/rpc_generic.c\<close>.
  \<^item> \<open>Rpcb_Db\<close>: the registrations, lookups and statistics of \<open>rpcbind/rpcb_svc_com.c\<close>, \<open>check_bound.c\<close>, \<open>util.c\<close>,
    \<open>rpcb_stat.c\<close> and parts of \<open>rpcb_svc_4.c\<close> and \<open>rpcbind.c\<close>. \<open>Rpcb_Serv\<close>: the services of \<open>pmap_svc.c\<close>,
    \<open>rpcb_svc.c\<close> and \<open>rpcb_svc_4.c\<close> with the checks of \<open>security.c\<close>. \<open>Rpcb_Forward\<close> and \<open>Rpcb_Reply\<close>: forwarded calls
    and their replies, the rest of \<open>rpcb_svc_com.c\<close>.

  Definitions have the names of the C functions (leading underscores dropped), records and their fields those of the structures. A function that changes what a pointer
  names returns the changed value beside its result. Where C code reads a field of a union, the model has
  one field for each member.

  \<^bold>\<open>Memory, errors and the environment.\<close> Filters draw on a number of blocks (\<open>x_mem\<close>), any of which may
  be the last, so that what \<open>XDR_FREE\<close> gives back
  and what an error path leaks are statements. Services and the port mapper keep handles at addresses; an
  access to a freed handle, a read outside a table or through a null pointer is \<open>Fault\<close>. A computation is
  \<open>Ret\<close>, \<open>Fault\<close> or \<open>Out_of_fuel\<close>. Sockets, clocks, allocation limits, the network configuration, the
  interfaces and the dispatch routines of a program are parameters: what the calls of the system return,
  in the order of the calls, or functions of the state. Hypotheses on them say what the system documents
  (\<open>env_ok\<close>, \<open>dg_env_ok\<close>).

  \<^bold>\<open>What the lemmas show.\<close>

  \<^item> Streams: both vectors of memory streams, the record stream (also over a connection whose failure is
    noted, \<open>live_stream\<close>) and the counting stream satisfy the interfaces. Hence every lemma about a filter,
    proved once in the locales, holds on each of them. Memory streams stay in their block; records are read back
    wherever the connection cuts the bytes; the loops of the record stream end.
  \<^item> Filters: every filter decodes what it encodes, with the exact number of bytes and of allocated blocks, and
    gives the blocks back; the loop over linked lists is the recursion it replaces; the inline paths of
    \<open>xdr_callmsg\<close> agree with the filters.
  \<^item> Messages and credentials: calls and replies survive the wire, a reply is turned into the error the
    specification of the protocol names, and the server cooks the credential that the client marshalled.
  \<^item> Servers: registration and requests keep the table, the descriptors and the handles consistent and never
    touch freed memory, for any kind of transport that satisfies the contract, of which both kinds are
    interpretations; the search finds the right service; a call of a version not served is answered with the
    versions that are; idle connections are found exactly; a retransmitted call gets the reply it got before.
  \<^item> Clients: a call returns the results of the reply with its number, behind any number of other replies, and
    gives up when no such reply comes; the whole way through client, dispatcher and server is proved for the
    raw transport.
  \<^item> Port mapper: the lists implement a map from program, version and network, with an owner who alone may
    change an entry; only local callers may register; lookups answer with the registered port and never read
    freed memory; waiting calls keep their numbers apart, and a reply goes to the caller it belongs to. The
    locale \<open>registry\<close> is what the services use of the lists.

  \<^bold>\<open>Bounds and fuel.\<close> The loops of \<open>xdr_rec.c\<close> run for a number of rounds computed from the bytes asked for and the reads
  left (\<open>net_size\<close>); \<open>record_loops_end\<close> proves that this number is never used up. The loop over linked lists
  is given one round more than the nodes of the list to encode or free, and for a list to decode the number
  of blocks that can still be allocated; \<open>xdr_list_fuel\<close> shows that more rounds change nothing. A client's call has
  at most two refreshed credentials and so three rounds. The number of records it passes over, of requests
  a dispatcher answers, of interrupted system calls and of entries that \<open>__svc_clean_idle\<close> looks at is fuel
  of the caller: theorems about results give a number that is enough, safety theorems hold for all numbers.

  \<^bold>\<open>Not modelled.\<close> Threads and locks (the model is a process with one thread; where a C function returns with a lock
  held the model says so), the other client interfaces that only combine modelled calls (\<open>clnt_generic.c\<close>,
  \<open>clnt_simple.c\<close>, \<open>clnt_bcast.c\<close>, \<open>rpcb_clnt.c\<close>, \<open>rpc_soc.c\<close>, \<open>svc_simple.c\<close>, \<open>svc_generic.c\<close>), the loops that wait for
  descriptors (\<open>svc_run.c\<close>, \<open>my_svc_run\<close>), the readers of configuration files (\<open>getnetconfig.c\<close>), floating point
  and \<open>stdio\<close> streams, printed messages, the rest of the compiler \<open>rpcgen\<close>, the preprocessor \<open>ucpp\<close>, and the
  Windows glue for sockets, threads and services.
\<close>

end
